(* ===== verification/Task_Model.thy ===== *)
theory Task_Model
  imports Go_Prelude
begin

text \<open>
  The data of the group-task model: \<^verbatim>\<open>src/internal/tasks/model.go\<close> and
  \<^verbatim>\<open>job.go\<close>.  A task is a parsed document; a job is one of its steps, filled in
  for one node.  Each struct is a record with the source's fields.  A pointer that
  may be nil, and a slice that the code tells apart from an empty one, is an option.
\<close>

section \<open>Limits, defaults and the closed lists of names\<close>

definition MaxDocumentBytes :: nat where "MaxDocumentBytes = 65536"
definition MaxSteps :: nat where "MaxSteps = 50"
definition DefaultCommandTimeout :: duration where "DefaultCommandTimeout = 10 * minute"
definition DefaultRebootWait :: duration where "DefaultRebootWait = 10 * minute"

definition StepPackages :: string where "StepPackages = ''packages''"
definition StepService :: string where "StepService = ''service''"
definition StepCommand :: string where "StepCommand = ''command''"
definition StepFile :: string where "StepFile = ''file''"
definition StepStack :: string where "StepStack = ''stack''"
definition StepReboot :: string where "StepReboot = ''reboot''"

lemmas step_kind_defs = StepPackages_def StepService_def StepCommand_def StepFile_def
  StepStack_def StepReboot_def

definition stepKinds :: "string list" where
  "stepKinds = [StepPackages, StepService, StepCommand, StepFile, StepStack, StepReboot]"

definition serviceActions :: "string list" where
  "serviceActions = [''start'', ''stop'', ''restart'', ''enable'', ''disable'']"

definition nodeKinds :: "string list" where
  "nodeKinds = [''manager'', ''agent'']"

section \<open>Tasks\<close>

record input =
  input_name :: string
  input_label :: string
  input_default :: string
  input_required :: bool
  input_raw :: bool

record targets =
  tgt_groups :: "string list option"
  tgt_kinds :: "string list option"
  tgt_nodes :: "string list option"

record packages_step =
  ps_update :: bool
  ps_upgrade_all :: bool
  ps_upgrade :: "string list option"
  ps_install :: "string list option"
  ps_remove :: "string list option"

record service_step =
  ss_name :: string
  ss_action :: string

record command_step =
  cs_run :: string
  cs_script :: string
  cs_timeout :: duration

record file_step =
  fs_path :: string
  fs_content :: string
  fs_mode :: string
  fs_owner :: string

record stack_step =
  st_name :: string
  st_compose :: string
  st_up :: bool

record reboot_step =
  rb_only_if_required :: bool
  rb_wait :: duration

text \<open>\<^verbatim>\<open>Kind\<close> names the one pointer that is set.\<close>

record step =
  step_name :: string
  step_continue_on_error :: bool
  step_kind :: string
  step_packages :: "packages_step option"
  step_service :: "service_step option"
  step_command :: "command_step option"
  step_file :: "file_step option"
  step_stack :: "stack_step option"
  step_reboot :: "reboot_step option"

record task =
  task_name :: string
  task_description :: string
  task_inputs :: "input list"
  task_targets :: targets
  task_batch :: int
  task_stop_on_failure :: bool
  task_steps :: "step list"

section \<open>Jobs\<close>

definition JobRunning :: string where "JobRunning = ''running''"
definition JobSucceeded :: string where "JobSucceeded = ''succeeded''"
definition JobFailed :: string where "JobFailed = ''failed''"
definition JobInterrupted :: string where "JobInterrupted = ''interrupted''"
definition JobCancelled :: string where "JobCancelled = ''cancelled''"
definition JobRebooting :: string where "JobRebooting = ''rebooting''"

lemmas job_status_defs = JobRunning_def JobSucceeded_def JobFailed_def JobInterrupted_def
  JobCancelled_def JobRebooting_def

record job_spec =
  spec_id :: string
  spec_run_id :: string
  spec_task :: string
  spec_step :: nat
  spec_kind :: string
  spec_confirmed :: bool
  spec_packages :: "packages_step option"
  spec_service :: "service_step option"
  spec_command :: "command_step option"
  spec_file :: "file_step option"
  spec_stack :: "stack_step option"
  spec_reboot :: "reboot_step option"

record job_view =
  view_id :: string
  view_kind :: string
  view_status :: string
  view_changed :: bool
  view_exit_code :: "int option"
  view_summary :: string

lemma step_kinds_distinct: "distinct stepKinds"
  by (simp add: stepKinds_def step_kind_defs)

end
