(* ===== verification/Task_References.thy ===== *)
theory Task_References
  imports Task_Model
begin

text \<open>
  The references of a task: \<^verbatim>\<open>referencePattern\<close> of \<^verbatim>\<open>src/internal/tasks/parse.go\<close>,
  and what the regexp package's \<^verbatim>\<open>FindAllStringSubmatchIndex\<close>, \<^verbatim>\<open>MatchString\<close> and
  \<^verbatim>\<open>ReplaceAllStringFunc\<close> do with it.  The pattern is
  \<^verbatim>\<open>{{ \s* name (. name)* \s* }}\<close>; no proper prefix of an identifier can be
  followed by what the pattern wants next, so matching is deterministic and
  \<open>matchRef\<close> reads it without backtracking.  A text is split into its matches and
  the bytes between them (\<open>segments\<close>), leftmost first.
\<close>

definition is_ident_start :: "char \<Rightarrow> bool" where
  "is_ident_start c = (c \<in> set ''ABCDEFGHIJKLMNOPQRSTUVWXYZabcdefghijklmnopqrstuvwxyz_'')"

definition is_ident :: "char \<Rightarrow> bool" where
  "is_ident c = (is_ident_start c \<or> c \<in> set ''0123456789'')"

definition is_re_space :: "char \<Rightarrow> bool" where
  "is_re_space c = (c \<in> {CHR 0x09, CHR 0x0A, CHR 0x0C, CHR 0x0D, CHR 0x20})"

fun takeIdent :: "string \<Rightarrow> (string \<times> string) option" where
  "takeIdent [] = None"
| "takeIdent (c # cs) =
     (if is_ident_start c then Some (c # takeWhile is_ident cs, dropWhile is_ident cs) else None)"

lemma takeIdent_split: "takeIdent s = Some (n, r) \<Longrightarrow> s = n @ r \<and> n \<noteq> [] \<and> (\<forall>c\<in>set n. is_ident c)"
proof (cases s)
  case (Cons c cs)
  assume "takeIdent s = Some (n, r)"
  with Cons have "is_ident_start c" "n = c # takeWhile is_ident cs" "r = dropWhile is_ident cs"
    by (auto split: if_splits)
  with Cons show ?thesis
    using set_takeWhileD [of _ is_ident cs] by (auto simp: is_ident_def [of c])
qed simp

lemma takeIdent_length: "takeIdent s = Some (n, r) \<Longrightarrow> length r < length s"
  by (drule takeIdent_split) auto

function takeDotted :: "string \<Rightarrow> string \<times> string" where
  "takeDotted s = (case s of
     c # cs \<Rightarrow> (if c = CHR ''.'' then
         (case takeIdent cs of
            Some (n, r) \<Rightarrow> (case takeDotted r of (m, r') \<Rightarrow> (c # n @ m, r'))
          | None \<Rightarrow> ([], s))
       else ([], s))
   | [] \<Rightarrow> ([], s))"
  by pat_completeness auto
termination
  by (relation "measure length") (auto dest: takeIdent_length)

declare takeDotted.simps [simp del]

definition matchRef :: "string \<Rightarrow> (string \<times> string) option" where
  "matchRef s = (case s of
     a # b # r \<Rightarrow>
       (if a = CHR ''{'' \<and> b = CHR ''{'' then
          (case takeIdent (dropWhile is_re_space r) of
             None \<Rightarrow> None
           | Some (n, r2) \<Rightarrow>
               (case takeDotted r2 of (m, r3) \<Rightarrow>
                  (case dropWhile is_re_space r3 of
                     c # d # r5 \<Rightarrow> (if c = CHR ''}'' \<and> d = CHR ''}'' then Some (n @ m, r5) else None)
                   | _ \<Rightarrow> None)))
        else None)
   | _ \<Rightarrow> None)"

definition is_ref_char :: "char \<Rightarrow> bool" where
  "is_ref_char c = (is_ident c \<or> is_re_space c \<or> c \<in> {CHR ''{'', CHR ''}'', CHR ''.''})"

lemma takeDotted_split:
  "takeDotted s = (m, r) \<Longrightarrow> s = m @ r \<and> (\<forall>c\<in>set m. is_ident c \<or> c = CHR ''.'')"
proof (induction s arbitrary: m r rule: takeDotted.induct)
  case (1 s)
  show ?case
  proof (cases "\<exists>cs n r'. s = CHR ''.'' # cs \<and> takeIdent cs = Some (n, r')")
    case True
    then obtain cs n r' where s: "s = CHR ''.'' # cs" and n: "takeIdent cs = Some (n, r')"
      by blast
    obtain m' r'' where d: "takeDotted r' = (m', r'')" by (cases "takeDotted r'")
    have mr: "m = CHR ''.'' # n @ m'" "r = r''"
      using "1.prems" n d unfolding s takeDotted.simps [of "CHR ''.'' # cs"] by simp_all
    have "r' = m' @ r''" "\<forall>c\<in>set m'. is_ident c \<or> c = CHR ''.''"
      using "1.IH" [OF s refl n refl d] by auto
    then show ?thesis using takeIdent_split [OF n] s mr by auto
  next
    case False
    then have "m = []" "r = s"
      using "1.prems" by (auto simp: takeDotted.simps [of s] split: list.splits option.splits if_splits)
    then show ?thesis by simp
  qed
qed

lemma matchRefE:
  assumes "matchRef s = Some (n, r)"
  obtains t where "s = t @ r" and "5 \<le> length t" and "\<forall>c\<in>set t. is_ref_char c"
    and "hd t = CHR ''{''" and "n \<noteq> []"
proof -
  obtain q where s: "s = CHR ''{'' # CHR ''{'' # q"
    using assms by (auto simp: matchRef_def split: list.splits if_splits)
  obtain n1 r2 where n1: "takeIdent (dropWhile is_re_space q) = Some (n1, r2)"
    using assms s by (auto simp: matchRef_def split: option.splits)
  obtain m r3 where m: "takeDotted r2 = (m, r3)" by (cases "takeDotted r2")
  have r5: "dropWhile is_re_space r3 = CHR ''}'' # CHR ''}'' # r" and nm: "n = n1 @ m"
    using assms s n1 m by (auto simp: matchRef_def split: list.splits if_splits)
  let ?a = "takeWhile is_re_space q" and ?b = "takeWhile is_re_space r3"
  have q: "q = ?a @ n1 @ m @ ?b @ CHR ''}'' # CHR ''}'' # r"
    using takeIdent_split [OF n1] takeDotted_split [OF m] r5
    by (metis append.assoc takeWhile_dropWhile_id)
  let ?t = "CHR ''{'' # CHR ''{'' # ?a @ n1 @ m @ ?b @ [CHR ''}'', CHR ''}'']"
  have "s = ?t @ r" using s q by simp
  moreover have "5 \<le> length ?t" "n \<noteq> []"
    using takeIdent_split [OF n1] nm by (cases n1; simp)+
  moreover have "\<forall>c\<in>set ?t. is_ref_char c"
    using takeIdent_split [OF n1] takeDotted_split [OF m]
    by (auto simp: is_ref_char_def dest: set_takeWhileD)
  ultimately show ?thesis using that by force
qed

lemma matchRef_length: "matchRef s = Some (n, r) \<Longrightarrow> length r < length s"
  by (erule matchRefE) auto

section \<open>Matches and the bytes between them\<close>

datatype segment = Lit char | Ref string string

fun seg_text :: "segment \<Rightarrow> string" where
  "seg_text (Lit c) = [c]"
| "seg_text (Ref n t) = t"

function segments :: "string \<Rightarrow> segment list" where
  "segments [] = []"
| "segments (c # cs) = (case matchRef (c # cs) of
     Some (n, r) \<Rightarrow> Ref n (take (length (c # cs) - length r) (c # cs)) # segments r
   | None \<Rightarrow> Lit c # segments cs)"
  by pat_completeness auto
termination
  by (relation "measure length") (auto dest: matchRef_length)

declare segments.simps(2) [simp del]

record ref_match =
  rm_start :: nat
  rm_end :: nat
  rm_name :: string

fun seg_refs :: "nat \<Rightarrow> segment list \<Rightarrow> ref_match list" where
  "seg_refs i [] = []"
| "seg_refs i (Lit c # xs) = seg_refs (Suc i) xs"
| "seg_refs i (Ref n t # xs) =
     \<lparr>rm_start = i, rm_end = i + length t, rm_name = n\<rparr> # seg_refs (i + length t) xs"

text \<open>\<^verbatim>\<open>referencePattern.FindAllStringSubmatchIndex(s, -1)\<close>\<close>

definition findAllRefs :: "string \<Rightarrow> ref_match list" where
  "findAllRefs s = seg_refs 0 (segments s)"

text \<open>\<^verbatim>\<open>referencePattern.MatchString(s)\<close>\<close>

definition hasRef :: "string \<Rightarrow> bool" where
  "hasRef s = (findAllRefs s \<noteq> [])"

fun seg_names :: "segment list \<Rightarrow> string list" where
  "seg_names [] = []"
| "seg_names (Lit c # xs) = seg_names xs"
| "seg_names (Ref n t # xs) = n # seg_names xs"

text \<open>The names a text refers to, in order.\<close>

definition refNames :: "string \<Rightarrow> string list" where
  "refNames s = seg_names (segments s)"

text \<open>A segment list as \<open>segments\<close> makes them: each match is a reference's text.\<close>

fun seg_ok :: "segment \<Rightarrow> bool" where
  "seg_ok (Lit c) = True"
| "seg_ok (Ref n t) = (5 \<le> length t \<and> hd t = CHR ''{'' \<and> (\<forall>c\<in>set t. is_ref_char c))"

lemma segments_Ref:
  assumes "matchRef (c # cs) = Some (n, r)"
  obtains t where "segments (c # cs) = Ref n t # segments r" and "c # cs = t @ r" and "seg_ok (Ref n t)"
proof (rule matchRefE [OF assms])
  fix t assume t: "c # cs = t @ r" "5 \<le> length t" "\<forall>c\<in>set t. is_ref_char c" "hd t = CHR ''{''"
  then have "take (length (c # cs) - length r) (c # cs) = t" by simp
  then have "segments (c # cs) = Ref n t # segments r"
    using assms by (subst segments.simps(2)) simp
  with t show thesis using that by simp
qed

lemma segments_Lit: "matchRef (c # cs) = None \<Longrightarrow> segments (c # cs) = Lit c # segments cs"
  by (simp add: segments.simps(2))

lemma segments_text: "concat (map seg_text (segments s)) = s"
proof (induction s rule: segments.induct)
  case (2 c cs)
  show ?case
  proof (cases "matchRef (c # cs)")
    case (Some p)
    then obtain n r where "matchRef (c # cs) = Some (n, r)" by (cases p) auto
    then show ?thesis by (rule segments_Ref) (use 2 \<open>matchRef (c # cs) = Some (n, r)\<close> in simp)
  qed (use 2 in \<open>simp add: segments_Lit\<close>)
qed simp

lemma segments_ok: "x \<in> set (segments s) \<Longrightarrow> seg_ok x"
proof (induction s rule: segments.induct)
  case (2 c cs)
  show ?case
  proof (cases "matchRef (c # cs)")
    case (Some p)
    then obtain n r where "matchRef (c # cs) = Some (n, r)" by (cases p) auto
    then show ?thesis by (rule segments_Ref) (use 2 \<open>matchRef (c # cs) = Some (n, r)\<close> in auto)
  qed (use 2 in \<open>auto simp: segments_Lit\<close>)
qed simp

lemma seg_refs_names: "map rm_name (seg_refs i xs) = seg_names xs"
  by (induction i xs rule: seg_refs.induct) auto

lemma refNames_findAll: "refNames s = map rm_name (findAllRefs s)"
  by (simp add: refNames_def findAllRefs_def seg_refs_names)

lemma hasRef_iff: "hasRef s \<longleftrightarrow> refNames s \<noteq> []"
  by (metis Nil_is_map_conv hasRef_def refNames_findAll)

lemma refNames_Nil [simp]: "refNames [] = []"
  by (simp add: refNames_def)

lemma findAllRefs_Nil [simp]: "findAllRefs [] = []"
  by (simp add: findAllRefs_def)

lemma seg_refs_bounds:
  assumes "\<forall>x\<in>set xs. seg_ok x" and "r \<in> set (seg_refs i xs)"
  shows "i \<le> rm_start r \<and> rm_start r + 5 \<le> rm_end r \<and> rm_end r \<le> i + length (concat (map seg_text xs))"
  using assms by (induction i xs rule: seg_refs.induct) fastforce+

text \<open>Every match lies in the text and is not empty.\<close>

lemma findAllRefs_bounds:
  assumes "r \<in> set (findAllRefs s)"
  shows "rm_start r + 5 \<le> rm_end r \<and> rm_end r \<le> length s"
  using seg_refs_bounds [of "segments s" r 0] assms
  by (simp add: findAllRefs_def segments_ok segments_text)

end
