(* ===== verification/Shell_Places.thy ===== *)
theory Shell_Places
  imports Task_References
begin

text \<open>
  Where a reference sits in a command step's shell text:
  \<^verbatim>\<open>src/internal/tasks/shellpos.go\<close>.  The scanner's fields that change (the
  verdicts, \<^verbatim>\<open>lost\<close>, the pending heredocs) are a state that every method takes and
  returns; the text and the references by start offset do not change.  A method
  returns the offset it got to.  Its loops and its recursion run on fuel, one unit
  an iteration or a call; \<open>shellPlaces\<close> gives \<open>2 * length s + 3\<close>, which is
  enough for every text (\<open>shellPlaces_total\<close>), because every round but a
  \<^verbatim>\<open>dollar\<close> call moves past a byte.
\<close>

section \<open>Data\<close>

datatype placeVerdict = placeUnread | placeWord | placeEnclosed

definition maxShellNesting :: nat where "maxShellNesting = 64"

record shellRef =
  sr_name :: string
  sr_start :: nat
  sr_end :: nat
  sr_judged :: bool
  sr_verdict :: placeVerdict

record heredoc =
  hd_delim :: string
  hd_stripTabs :: bool

record scan =
  sc_verdict :: "nat \<Rightarrow> placeVerdict"
  sc_lost :: bool
  sc_pending :: "heredoc list"

type_synonym refs = "nat \<rightharpoonup> shellRef"
type_synonym scanned = "(scan \<times> nat) option"

definition isShellBlank :: "char \<Rightarrow> bool" where
  "isShellBlank c = (c = CHR '' '' \<or> c = tab)"

definition isShellBreak :: "char \<Rightarrow> bool" where
  "isShellBreak c = (isShellBlank c \<or> c = nl \<or> c \<in> set '';&|()<>'')"

definition sc_ref :: "refs \<Rightarrow> scan \<Rightarrow> nat \<Rightarrow> placeVerdict \<Rightarrow> scanned" where
  "sc_ref R st i v = (case R i of
     None \<Rightarrow> None
   | Some r \<Rightarrow> Some (if sr_judged r \<and> \<not> sc_lost st
                     then st\<lparr>sc_verdict := (sc_verdict st)(i := v)\<rparr> else st, sr_end r))"

definition lose :: "string \<Rightarrow> scan \<Rightarrow> scan \<times> nat" where
  "lose s st = (st\<lparr>sc_lost := True\<rparr>, length s)"

section \<open>The quoted and enclosed contexts that hold no command\<close>

fun single :: "string \<Rightarrow> refs \<Rightarrow> nat \<Rightarrow> scan \<Rightarrow> nat \<Rightarrow> scanned" where
  "single s R 0 st i = None"
| "single s R (Suc f) st i =
     (if i < length s then
        (case sc_ref R st i placeEnclosed of
           Some (st', e) \<Rightarrow> single s R f st' e
         | None \<Rightarrow> if s ! i = squote then Some (st, i + 1) else single s R f st (i + 1))
      else Some (st, i))"

fun backtick :: "string \<Rightarrow> refs \<Rightarrow> nat \<Rightarrow> scan \<Rightarrow> nat \<Rightarrow> scanned" where
  "backtick s R 0 st i = None"
| "backtick s R (Suc f) st i =
     (if i < length s then
        (case sc_ref R st i placeEnclosed of
           Some (st', e) \<Rightarrow> backtick s R f st' e
         | None \<Rightarrow> if s ! i = btick then Some (st, i + 1)
                   else if s ! i = bslash then backtick s R f st (i + 2)
                   else backtick s R f st (i + 1))
      else Some (st, min i (length s)))"

fun param :: "string \<Rightarrow> refs \<Rightarrow> nat \<Rightarrow> scan \<Rightarrow> nat \<Rightarrow> nat \<Rightarrow> scanned" where
  "param s R 0 st i depth = None"
| "param s R (Suc f) st i depth =
     (if i < length s \<and> \<not> sc_lost st then
        (case sc_ref R st i placeEnclosed of
           Some (st', e) \<Rightarrow> param s R f st' e depth
         | None \<Rightarrow>
             if s ! i = CHR ''}'' then Some (st, i + 1)
             else if s ! i \<in> {squote, dquote, btick, bslash} then Some (lose s st)
             else if s ! i = CHR ''$'' then
               (if i + 1 < length s \<and> s ! (i + 1) = CHR ''{'' then
                  (if depth > maxShellNesting then Some (lose s st)
                   else (case param s R f st (i + 2) (depth + 1) of
                           None \<Rightarrow> None
                         | Some (st', j) \<Rightarrow> param s R f st' j depth))
                else if i + 1 < length s \<and> s ! (i + 1) = CHR ''('' then Some (lose s st)
                else param s R f st (i + 1) depth)
             else param s R f st (i + 1) depth)
      else Some (st, min i (length s)))"

fun arith :: "string \<Rightarrow> refs \<Rightarrow> nat \<Rightarrow> scan \<Rightarrow> nat \<Rightarrow> nat \<Rightarrow> scanned" where
  "arith s R 0 st i opn = None"
| "arith s R (Suc f) st i opn =
     (if i < length s \<and> \<not> sc_lost st then
        (case sc_ref R st i placeEnclosed of
           Some (st', e) \<Rightarrow> arith s R f st' e opn
         | None \<Rightarrow>
             if s ! i = CHR ''('' then arith s R f st (i + 1) (opn + 1)
             else if s ! i = CHR '')'' then
               (if opn > 0 then arith s R f st (i + 1) (opn - 1)
                else if i + 1 < length s \<and> s ! (i + 1) = CHR '')'' then Some (st, i + 2)
                else Some (lose s st))
             else if s ! i \<in> {squote, dquote, btick, bslash} then Some (lose s st)
             else arith s R f st (i + 1) opn)
      else Some (st, i))"

fun comment :: "string \<Rightarrow> refs \<Rightarrow> nat \<Rightarrow> scan \<Rightarrow> nat \<Rightarrow> scanned" where
  "comment s R 0 st i = None"
| "comment s R (Suc f) st i =
     (if i < length s \<and> s ! i \<noteq> nl then
        (case sc_ref R st i placeEnclosed of
           Some (st', e) \<Rightarrow> comment s R f st' e
         | None \<Rightarrow> comment s R f st (i + 1))
      else Some (st, i))"

section \<open>Heredocs\<close>

text \<open>The delimiter word from offset \<open>i\<close>: \<open>Some None\<close> is a delimiter the scanner
  cannot read, \<open>Some (Some (d, j))\<close> the delimiter and the offset after it.\<close>

fun heredocDelim :: "string \<Rightarrow> refs \<Rightarrow> nat \<Rightarrow> nat \<Rightarrow> string \<Rightarrow> (string \<times> nat) option option" where
  "heredocDelim s R 0 i d = None"
| "heredocDelim s R (Suc f) i d =
     (if i < length s \<and> \<not> isShellBreak (s ! i) then
        (if R i \<noteq> None then Some None
         else if s ! i = squote \<or> s ! i = dquote then
           (case index_byte (drop (i + 1) s) (s ! i) of
              None \<Rightarrow> Some None
            | Some e \<Rightarrow>
                (let part = take e (drop (i + 1) s) in
                 if s ! i = dquote \<and> contains_any part [CHR ''$'', btick, bslash] then Some None
                 else heredocDelim s R f (i + e + 2) (d @ part)))
         else if s ! i = bslash then
           (if i + 1 \<ge> length s then Some None
            else heredocDelim s R f (i + 2) (d @ [s ! (i + 1)]))
         else if s ! i = CHR ''$'' \<or> s ! i = btick then Some None
         else heredocDelim s R f (i + 1) (d @ [s ! i]))
      else Some (Some (d, i)))"

definition heredocStart :: "string \<Rightarrow> refs \<Rightarrow> nat \<Rightarrow> scan \<Rightarrow> nat \<Rightarrow> scanned" where
  "heredocStart s R f st i =
     (let strip = (i < length s \<and> s ! i = CHR ''-'');
          i1 = (if strip then i + 1 else i);
          i2 = i1 + length (takeWhile isShellBlank (drop i1 s))
      in (case heredocDelim s R f i2 [] of
            None \<Rightarrow> None
          | Some None \<Rightarrow> Some (lose s st)
          | Some (Some (d, j)) \<Rightarrow>
              if d = [] \<or> nl \<in> set d then Some (lose s st)
              else Some (st\<lparr>sc_pending := sc_pending st @ [\<lparr>hd_delim = d, hd_stripTabs = strip\<rparr>]\<rparr>, j)))"

fun bodyRefs :: "refs \<Rightarrow> nat \<Rightarrow> scan \<Rightarrow> nat \<Rightarrow> nat \<Rightarrow> scan option" where
  "bodyRefs R 0 st j lineEnd = None"
| "bodyRefs R (Suc f) st j lineEnd =
     (if j < lineEnd then
        (case sc_ref R st j placeEnclosed of
           Some (st', e) \<Rightarrow> bodyRefs R f st' e lineEnd
         | None \<Rightarrow> bodyRefs R f st (j + 1) lineEnd)
      else Some st)"

text \<open>One heredoc's body from offset \<open>i\<close>: the state, the offset after its last
  line, and whether the delimiter was found.\<close>

fun heredocBody :: "string \<Rightarrow> refs \<Rightarrow> nat \<Rightarrow> scan \<Rightarrow> heredoc \<Rightarrow> nat \<Rightarrow> (scan \<times> nat \<times> bool) option" where
  "heredocBody s R 0 st h i = None"
| "heredocBody s R (Suc f) st h i =
     (if i \<ge> length s then Some (st, length s, False)
      else
        (let lineEnd = i + length (takeWhile (\<lambda>c. c \<noteq> nl) (drop i s));
             next = (if lineEnd < length s then lineEnd + 1 else length s);
             raw = take (lineEnd - i) (drop i s);
             line = (if hd_stripTabs h then dropWhile (\<lambda>c. c = tab) raw else raw)
         in if line = hd_delim h then Some (st, next, True)
            else (case bodyRefs R f st i lineEnd of
                    None \<Rightarrow> None
                  | Some st' \<Rightarrow> heredocBody s R f st' h next)))"

fun heredocQueue :: "string \<Rightarrow> refs \<Rightarrow> nat \<Rightarrow> scan \<Rightarrow> heredoc list \<Rightarrow> nat \<Rightarrow> scanned" where
  "heredocQueue s R f st [] i = Some (st\<lparr>sc_pending := []\<rparr>, i)"
| "heredocQueue s R f st (h # hs) i =
     (case heredocBody s R f (st\<lparr>sc_pending := hs\<rparr>) h i of
        None \<Rightarrow> None
      | Some (st', j, found) \<Rightarrow>
          if found then heredocQueue s R f st' hs j else Some (st', length s))"

definition heredocBodies :: "string \<Rightarrow> refs \<Rightarrow> nat \<Rightarrow> scan \<Rightarrow> nat \<Rightarrow> scanned" where
  "heredocBodies s R f st i = heredocQueue s R f st (sc_pending st) i"

section \<open>Commands, double quotes and dollars\<close>

definition caseWord :: "string \<Rightarrow> nat \<Rightarrow> bool" where
  "caseWord s i = (has_prefix (drop i s) ''case'' \<and> (i + 4 = length s \<or> isShellBreak (s ! (i + 4))))"

function command :: "string \<Rightarrow> refs \<Rightarrow> nat \<Rightarrow> scan \<Rightarrow> nat \<Rightarrow> bool \<Rightarrow> bool \<Rightarrow> nat \<Rightarrow> scanned"
and commandLoop :: "string \<Rightarrow> refs \<Rightarrow> nat \<Rightarrow> scan \<Rightarrow> nat \<Rightarrow> bool \<Rightarrow> bool \<Rightarrow> nat \<Rightarrow> bool \<Rightarrow> scanned"
and double :: "string \<Rightarrow> refs \<Rightarrow> nat \<Rightarrow> scan \<Rightarrow> nat \<Rightarrow> nat \<Rightarrow> scanned"
and dollar :: "string \<Rightarrow> refs \<Rightarrow> nat \<Rightarrow> scan \<Rightarrow> nat \<Rightarrow> bool \<Rightarrow> nat \<Rightarrow> scanned" where
  "command s R 0 st i closer words depth = None"
| "command s R (Suc f) st i closer words depth =
     (if depth > maxShellNesting then Some (lose s st)
      else commandLoop s R f st i closer words depth True)"
| "commandLoop s R 0 st i closer words depth wordStart = None"
| "commandLoop s R (Suc f) st i closer words depth wordStart =
     (if i < length s \<and> \<not> sc_lost st then
        (case sc_ref R st i (if words then placeWord else placeEnclosed) of
           Some (st', e) \<Rightarrow> commandLoop s R f st' e closer words depth False
         | None \<Rightarrow>
           if s ! i = bslash then
             (if i + 1 < length s \<and> s ! (i + 1) = nl
              then commandLoop s R f st (i + 2) closer words depth wordStart
              else if R (i + 1) \<noteq> None then Some (lose s st)
              else commandLoop s R f st (i + 2) closer words depth False)
           else if s ! i = squote then
             (case single s R f st (i + 1) of None \<Rightarrow> None
              | Some (st', j) \<Rightarrow> commandLoop s R f st' j closer words depth False)
           else if s ! i = dquote then
             (case double s R f st (i + 1) depth of None \<Rightarrow> None
              | Some (st', j) \<Rightarrow> commandLoop s R f st' j closer words depth False)
           else if s ! i = btick then
             (case backtick s R f st (i + 1) of None \<Rightarrow> None
              | Some (st', j) \<Rightarrow> commandLoop s R f st' j closer words depth False)
           else if s ! i = CHR ''$'' then
             (case dollar s R f st i False depth of None \<Rightarrow> None
              | Some (st', j) \<Rightarrow> commandLoop s R f st' j closer words depth False)
           else if s ! i = CHR ''('' \<and> i + 1 < length s \<and> s ! (i + 1) = CHR ''('' then
             (case arith s R f st (i + 2) 0 of None \<Rightarrow> None
              | Some (st', j) \<Rightarrow> commandLoop s R f st' j closer words depth False)
           else if s ! i = CHR ''('' then
             (case command s R f st (i + 1) True
                     (if i > 0 \<and> (s ! (i - 1) = CHR ''<'' \<or> s ! (i - 1) = CHR ''>'') then False else words)
                     (depth + 1) of None \<Rightarrow> None
              | Some (st', j) \<Rightarrow> commandLoop s R f st' j closer words depth True)
           else if s ! i = CHR '')'' then
             (if closer then Some (st, i + 1)
              else commandLoop s R f st (i + 1) closer words depth True)
           else if s ! i = CHR ''#'' \<and> wordStart then
             (case comment s R f st i of None \<Rightarrow> None
              | Some (st', j) \<Rightarrow> commandLoop s R f st' j closer words depth wordStart)
           else if s ! i = CHR ''<'' \<and> has_prefix (drop i s) ''<<<'' then
             commandLoop s R f st (i + 3) closer words depth True
           else if s ! i = CHR ''<'' \<and> has_prefix (drop i s) ''<<'' then
             (case heredocStart s R f st (i + 2) of None \<Rightarrow> None
              | Some (st', j) \<Rightarrow> commandLoop s R f st' j closer words depth False)
           else if s ! i = nl then
             (case heredocBodies s R f st (i + 1) of None \<Rightarrow> None
              | Some (st', j) \<Rightarrow> commandLoop s R f st' j closer words depth True)
           else if isShellBreak (s ! i) then
             commandLoop s R f st (i + 1) closer words depth True
           else if wordStart \<and> depth > 0 \<and> caseWord s i then Some (lose s st)
           else commandLoop s R f st (i + 1) closer words depth False)
      else Some (st, i))"
| "double s R 0 st i depth = None"
| "double s R (Suc f) st i depth =
     (if i < length s \<and> \<not> sc_lost st then
        (case sc_ref R st i placeEnclosed of
           Some (st', e) \<Rightarrow> double s R f st' e depth
         | None \<Rightarrow>
             if s ! i = dquote then Some (st, i + 1)
             else if s ! i = bslash then double s R f st (i + 2) depth
             else if s ! i = btick then
               (case backtick s R f st (i + 1) of None \<Rightarrow> None
                | Some (st', j) \<Rightarrow> double s R f st' j depth)
             else if s ! i = CHR ''$'' then
               (case dollar s R f st i True depth of None \<Rightarrow> None
                | Some (st', j) \<Rightarrow> double s R f st' j depth)
             else double s R f st (i + 1) depth)
      else Some (st, min i (length s)))"
| "dollar s R 0 st i inDouble depth = None"
| "dollar s R (Suc f) st i inDouble depth =
     (let next = (if i + 1 < length s then s ! (i + 1) else CHR 0x00) in
      if has_prefix (drop i s) ''$(('' then arith s R f st (i + 3) 0
      else if next = CHR ''('' then command s R f st (i + 2) True False (depth + 1)
      else if next = CHR ''{'' then param s R f st (i + 2) depth
      else if next = CHR ''['' then Some (lose s st)
      else if next = squote \<and> \<not> inDouble then Some (lose s st)
      else if \<not> inDouble \<and> R (i + 1) \<noteq> None then Some (lose s st)
      else Some (st, i + 1))"
  by pat_completeness auto
termination
  by (relation "measure (\<lambda>x. case x of
        Inl (Inl (s, R, f, st, i, closer, words, depth)) \<Rightarrow> f
      | Inl (Inr (s, R, f, st, i, closer, words, depth, wordStart)) \<Rightarrow> f
      | Inr (Inl (s, R, f, st, i, depth)) \<Rightarrow> f
      | Inr (Inr (s, R, f, st, i, inDouble, depth)) \<Rightarrow> f)") simp_all

section \<open>shellPlaces\<close>

definition shellRefs_of :: "string \<Rightarrow> (string \<Rightarrow> bool) \<Rightarrow> (string \<Rightarrow> bool) \<Rightarrow> shellRef list" where
  "shellRefs_of s quoted known =
     map (\<lambda>m. \<lparr>sr_name = rm_name m, sr_start = rm_start m, sr_end = rm_end m,
               sr_judged = known (rm_name m) \<and> quoted (rm_name m), sr_verdict = placeUnread\<rparr>)
         (findAllRefs s)"

definition refs_by_start :: "shellRef list \<Rightarrow> refs" where
  "refs_by_start rs = map_of (map (\<lambda>r. (sr_start r, r)) rs)"

definition newScanner :: scan where
  "newScanner = \<lparr>sc_verdict = (\<lambda>_. placeUnread), sc_lost = False, sc_pending = []\<rparr>"

definition scanFuel :: "string \<Rightarrow> nat" where
  "scanFuel s = 2 * length s + 3"

definition shellPlaces :: "string \<Rightarrow> (string \<Rightarrow> bool) \<Rightarrow> (string \<Rightarrow> bool) \<Rightarrow> shellRef list option" where
  "shellPlaces s quoted known =
     (let order = shellRefs_of s quoted known in
      if order = [] then Some []
      else (case command s (refs_by_start order) (scanFuel s) newScanner 0 False True 0 of
              None \<Rightarrow> None
            | Some (st, _) \<Rightarrow>
                Some (map (\<lambda>r. r\<lparr>sr_verdict := sc_verdict st (sr_start r)\<rparr>) (filter sr_judged order))))"

section \<open>The scanner always returns, and leaves earlier verdicts alone\<close>

text \<open>Every reference ends after its start, as \<open>findAllRefs\<close> finds them.\<close>

definition refs_wf :: "refs \<Rightarrow> bool" where
  "refs_wf R \<longleftrightarrow> (\<forall>i r. R i = Some r \<longrightarrow> i < sr_end r)"

text \<open>\<open>keeps s i st st'\<close>: no reference that starts before \<open>i\<close> was judged between
  the two states.  \<open>returns s i st r\<close>: a method called at \<open>i\<close> in state \<open>st\<close>
  returned, at an offset no earlier than \<open>i\<close>, and judged no reference before it.\<close>

definition keeps :: "string \<Rightarrow> nat \<Rightarrow> scan \<Rightarrow> scan \<Rightarrow> bool" where
  "keeps s i st st' \<longleftrightarrow> (\<forall>k < min i (length s). sc_verdict st' k = sc_verdict st k)"

definition returns :: "string \<Rightarrow> nat \<Rightarrow> scan \<Rightarrow> scanned \<Rightarrow> bool" where
  "returns s i st r \<longleftrightarrow> (\<exists>st' j. r = Some (st', j) \<and> min i (length s) \<le> j \<and> keeps s i st st')"

lemma keeps_same [simp]: "sc_verdict st' = sc_verdict st \<Longrightarrow> keeps s i st st'"
  by (simp add: keeps_def)

lemma keeps_trans:
  assumes "keeps s i st st1" and "keeps s j st1 st2" and "min i (length s) \<le> j"
  shows "keeps s i st st2"
  unfolding keeps_def
proof (intro allI impI)
  fix k assume k: "k < min i (length s)"
  then have "k < min j (length s)" using assms(3) by linarith
  with k show "sc_verdict st2 k = sc_verdict st k" using assms(1,2) by (simp add: keeps_def)
qed

lemma keepsD: "keeps s i st st' \<Longrightarrow> k < i \<Longrightarrow> k < length s \<Longrightarrow> sc_verdict st' k = sc_verdict st k"
  by (simp add: keeps_def)

lemma keeps_mono: "keeps s i st st' \<Longrightarrow> k \<le> i \<Longrightarrow> keeps s k st st'"
  by (simp add: keeps_def)

lemma returns_Some [simp]:
  "returns s i st (Some (st', j)) \<longleftrightarrow> min i (length s) \<le> j \<and> keeps s i st st'"
  by (simp add: returns_def)

lemma returns_lose [simp]: "returns s i st (Some (lose s st))"
  by (simp add: returns_def lose_def)

lemma returnsE:
  assumes "returns s i st r"
  obtains st' j where "r = Some (st', j)" and "min i (length s) \<le> j" and "keeps s i st st'"
  using assms by (auto simp: returns_def)

text \<open>What a call chained after another keeps: it starts no earlier.\<close>

lemma returns_from:
  assumes "returns s j st' r" and "min i (length s) \<le> j" and "keeps s i st st'"
  shows "returns s i st r"
  using assms(1)
proof (rule returnsE)
  fix st2 k assume "r = Some (st2, k)" "min j (length s) \<le> k" "keeps s j st' st2"
  then show ?thesis using assms(2,3) keeps_trans by fastforce
qed

lemma returns_bind:
  assumes "returns s i st r" and "k \<le> i"
    and "\<And>st' j. min i (length s) \<le> j \<Longrightarrow> returns s j st' (g st' j)"
  shows "returns s k st (case r of None \<Rightarrow> None | Some (st', j) \<Rightarrow> g st' j)"
  using assms(1)
proof (rule returnsE)
  fix st' j assume r: "r = Some (st', j)" and j: "min i (length s) \<le> j" and eq: "keeps s i st st'"
  have "returns s k st (g st' j)"
    using assms(3) [OF j] by (rule returns_from) (use j eq assms(2) keeps_mono in auto)
  then show ?thesis using r by simp
qed

lemma returns_mono: "returns s i st r \<Longrightarrow> k \<le> i \<Longrightarrow> returns s k st r"
  by (erule returns_from) auto

lemma sc_ref_wf:
  "refs_wf R \<Longrightarrow> sc_ref R st i v = Some (st', e) \<Longrightarrow> i < e"
  by (auto simp: sc_ref_def refs_wf_def split: option.splits)

lemma sc_ref_keeps: "sc_ref R st i v = Some (st', e) \<Longrightarrow> keeps s i st st'"
  by (auto simp: sc_ref_def keeps_def split: option.splits if_splits)

lemma sc_ref_returns:
  assumes wf: "refs_wf R" and r: "sc_ref R st i v = Some (st', e)"
    and rec: "i < e \<Longrightarrow> returns s e st' q"
  shows "returns s i st q"
  using rec [OF sc_ref_wf [OF wf r]]
  by (rule returns_from) (use sc_ref_wf [OF wf r] sc_ref_keeps [OF r] in auto)

lemma single_returns:
  assumes wf: "refs_wf R"
  shows "length s - i < f \<Longrightarrow> returns s i st (single s R f st i)"
proof (induction f arbitrary: st i)
  case (Suc f)
  then show ?case
    by (auto split: option.splits intro: sc_ref_returns [OF wf] returns_mono [OF Suc.IH])
qed simp

lemma backtick_returns:
  assumes wf: "refs_wf R"
  shows "length s - i < f \<Longrightarrow> returns s i st (backtick s R f st i)"
proof (induction f arbitrary: st i)
  case (Suc f)
  then show ?case
    by (auto split: option.splits intro: sc_ref_returns [OF wf] returns_mono [OF Suc.IH])
qed simp

lemma arith_returns:
  assumes wf: "refs_wf R"
  shows "length s - i < f \<Longrightarrow> returns s i st (arith s R f st i opn)"
proof (induction f arbitrary: st i opn)
  case (Suc f)
  then show ?case
    by (auto split: option.splits intro: sc_ref_returns [OF wf] returns_mono [OF Suc.IH])
qed simp

lemma comment_returns:
  assumes wf: "refs_wf R"
  shows "length s - i < f \<Longrightarrow> returns s i st (comment s R f st i)"
proof (induction f arbitrary: st i)
  case (Suc f)
  then show ?case
    by (auto split: option.splits intro: sc_ref_returns [OF wf] returns_mono [OF Suc.IH])
qed simp

lemma param_returns:
  assumes wf: "refs_wf R"
  shows "length s - i < f \<Longrightarrow> returns s i st (param s R f st i depth)"
proof (induction f arbitrary: st i depth)
  case (Suc f)
  show ?case
  proof (cases "i < length s \<and> \<not> sc_lost st")
    case True
    show ?thesis
    proof (cases "sc_ref R st i placeEnclosed")
      case None
      have step: "returns s i st (param s R f st (i + 1) depth)"
        using Suc.prems True by (intro returns_mono [OF Suc.IH]) auto
      have nest: "returns s i st (case param s R f st (i + 2) (depth + 1) of None \<Rightarrow> None
          | Some (st', j) \<Rightarrow> param s R f st' j depth)"
        using Suc.prems True by (intro returns_bind [OF Suc.IH] Suc.IH) auto
      show ?thesis using True None step nest by (auto simp del: One_nat_def)
    next
      case (Some p)
      then obtain st1 e where p: "sc_ref R st i placeEnclosed = Some (st1, e)" by (cases p) auto
      have "length s - e < f" if "i < e" using that True Suc.prems by linarith
      then have "returns s i st (param s R f st1 e depth)"
        using sc_ref_returns [OF wf p Suc.IH] by blast
      then show ?thesis using True p by simp
    qed
  qed auto
qed simp

lemma heredocDelim_returns:
  "length s - i < f \<Longrightarrow>
   \<exists>r. heredocDelim s R f i d = Some r \<and> (\<forall>d' j. r = Some (d', j) \<longrightarrow> min i (length s) \<le> j)"
proof (induction f arbitrary: i d)
  case (Suc f)
  have rec: "\<exists>r. heredocDelim s R f k d' = Some r \<and> (\<forall>d'' j. r = Some (d'', j) \<longrightarrow> min i (length s) \<le> j)"
    if "i < length s" "i < k" for k d'
    using Suc.IH [of k d'] Suc.prems that by fastforce
  show ?case
    using rec by (auto simp: Let_def split: option.splits)
qed simp

lemma heredocStart_returns:
  assumes "length s - i < f"
  shows "returns s i st (heredocStart s R f st i)"
proof -
  define i1 where "i1 = (if i < length s \<and> s ! i = CHR ''-'' then i + 1 else i)"
  define i2 where "i2 = i1 + length (takeWhile isShellBlank (drop i1 s))"
  have "i \<le> i2" by (auto simp: i1_def i2_def)
  then have "length s - i2 < f" using assms by simp
  then obtain r where r: "heredocDelim s R f i2 [] = Some r"
    and j: "\<And>d j. r = Some (d, j) \<Longrightarrow> min i (length s) \<le> j"
    using heredocDelim_returns [of s i2 f R "[]"] \<open>i \<le> i2\<close> by fastforce
  show ?thesis
    using r j unfolding heredocStart_def i1_def [symmetric] Let_def i2_def [symmetric]
    by (auto split: option.splits)
qed

lemma bodyRefs_returns:
  assumes wf: "refs_wf R"
  shows "lineEnd - j < f \<Longrightarrow> \<exists>st'. bodyRefs R f st j lineEnd = Some st' \<and> keeps s j st st'"
proof (induction f arbitrary: st j)
  case (Suc f)
  show ?case
  proof (cases "j < lineEnd \<and> sc_ref R st j placeEnclosed \<noteq> None")
    case True
    then obtain st1 e where e: "sc_ref R st j placeEnclosed = Some (st1, e)" by auto
    have je: "j < e" using wf e by (rule sc_ref_wf)
    then have "lineEnd - e < f" using Suc.prems True by linarith
    then obtain st2 where "bodyRefs R f st1 e lineEnd = Some st2" "keeps s e st1 st2"
      using Suc.IH by blast
    moreover from this have "keeps s j st st2"
      using keeps_trans [OF sc_ref_keeps [OF e]] je by simp
    ultimately show ?thesis using True e by simp
  next
    case False
    show ?thesis
    proof (cases "j < lineEnd")
      case True
      then have "lineEnd - (j + 1) < f" using Suc.prems by linarith
      then obtain st2 where "bodyRefs R f st (j + 1) lineEnd = Some st2" "keeps s (j + 1) st st2"
        using Suc.IH by blast
      moreover have "sc_ref R st j placeEnclosed = None"
        using True False by (cases "sc_ref R st j placeEnclosed") auto
      ultimately show ?thesis using True by (auto intro: keeps_mono)
    qed simp
  qed
qed simp

lemma heredocBody_returns:
  assumes wf: "refs_wf R"
  shows "length s - i + 1 < f \<Longrightarrow>
    \<exists>st' j found. heredocBody s R f st h i = Some (st', j, found) \<and> returns s i st (Some (st', j))"
proof (induction f arbitrary: st i)
  case (Suc f)
  show ?case
  proof (cases "i < length s")
    case True
    define le where "le = i + length (takeWhile (\<lambda>c. c \<noteq> nl) (drop i s))"
    define nx where "nx = (if le < length s then le + 1 else length s)"
    have "length (takeWhile (\<lambda>c. c \<noteq> nl) (drop i s)) \<le> length s - i"
      by (metis length_drop length_takeWhile_le)
    then have le: "i \<le> le" "le \<le> length s" using True by (auto simp: le_def)
    then have nx: "i < nx" using True by (auto simp: nx_def)
    have "le - i < f" using le Suc.prems True by linarith
    then obtain st' where st': "bodyRefs R f st i le = Some st'"
      and eq: "keeps s i st st'"
      using bodyRefs_returns [OF wf] by blast
    have "length s - nx + 1 < f" using nx Suc.prems True by auto
    then obtain st2 j found where b: "heredocBody s R f st' h nx = Some (st2, j, found)"
      and r2: "returns s nx st' (Some (st2, j))" using Suc.IH by blast
    from r2 have "returns s i st (Some (st2, j))"
      by (rule returns_from) (use nx eq in \<open>simp_all del: returns_Some\<close>)
    moreover have "returns s i st (Some (st, nx))" using nx by simp
    moreover have "heredocBody s R (Suc f) st h i \<in>
        {Some (st, nx, True), heredocBody s R f st' h nx}"
      using True st' unfolding heredocBody.simps Let_def le_def [symmetric] nx_def [symmetric]
      by simp
    ultimately show ?thesis using b by (auto simp del: heredocBody.simps returns_Some)
  qed (auto intro: exI [of _ False])
qed simp

lemma heredocQueue_returns:
  assumes wf: "refs_wf R"
  shows "length s - i + 1 < f \<Longrightarrow> returns s i st (heredocQueue s R f st hs i)"
proof (induction hs arbitrary: st i)
  case (Cons h hs)
  obtain st' j found where b: "heredocBody s R f (st\<lparr>sc_pending := hs\<rparr>) h i = Some (st', j, found)"
    and j: "returns s i (st\<lparr>sc_pending := hs\<rparr>) (Some (st', j))"
    using heredocBody_returns [OF wf Cons.prems] by blast
  have "length s - j + 1 < f" using j Cons.prems by (auto simp: min_def split: if_splits)
  then have "returns s j st' (heredocQueue s R f st' hs j)" by (rule Cons.IH)
  then have "returns s i st (heredocQueue s R f st' hs j)"
    by (rule returns_from) (use j in \<open>auto simp: keeps_def\<close>)
  then show ?case using b j by (auto simp: keeps_def)
qed simp

text \<open>The fuel the four mutually recursive methods need at offset \<open>i\<close>.\<close>

lemma command_returns_aux:
  assumes wf: "refs_wf R"
  shows "(\<forall>st i c w d. 2 * (length s - i) + 3 \<le> f \<longrightarrow> returns s i st (command s R f st i c w d)) \<and>
    (\<forall>st i c w d ws. 2 * (length s - i) + 2 \<le> f \<longrightarrow> returns s i st (commandLoop s R f st i c w d ws)) \<and>
    (\<forall>st i d. 2 * (length s - i) + 2 \<le> f \<longrightarrow> returns s i st (double s R f st i d)) \<and>
    (\<forall>st i q d. i < length s \<longrightarrow> 2 * (length s - i) + 1 \<le> f \<longrightarrow> returns s (i + 1) st (dollar s R f st i q d))"
proof (induction f)
  case (Suc f)
  have loop: "returns s k st (commandLoop s R f st k c w d ws)"
    if "i < length s" "2 * (length s - i) + 2 \<le> Suc f" "min (i + 1) (length s) \<le> k" for i st k c w d ws
  proof -
    have "2 * (length s - k) + 2 \<le> f" using that by auto
    then show ?thesis using Suc.IH by blast
  qed
  have dbl: "returns s k st (double s R f st k d)"
    if "i < length s" "2 * (length s - i) + 2 \<le> Suc f" "min (i + 1) (length s) \<le> k" for i st k d
  proof -
    have "2 * (length s - k) + 2 \<le> f" using that by auto
    then show ?thesis using Suc.IH by blast
  qed
  have C: "returns s i st (command s R (Suc f) st i c w d)" if "2 * (length s - i) + 3 \<le> Suc f" for st i c w d
    using Suc.IH that by auto
  have D: "returns s (i + 1) st (dollar s R (Suc f) st i q d)"
    if i: "i < length s" and fuel: "2 * (length s - i) + 1 \<le> Suc f" for st i q d
  proof -
    have "returns s (i + 1) st (arith s R f st (i + 3) 0)"
      using i fuel by (intro returns_mono [OF arith_returns [OF wf]]) auto
    moreover have "returns s (i + 1) st (command s R f st (i + 2) True False (d + 1))" if "i + 1 < length s"
      using Suc.IH fuel that by (intro returns_mono [of s "i + 2" _ _ "i + 1"]) auto
    moreover have "returns s (i + 1) st (param s R f st (i + 2) d)" if "i + 1 < length s"
      using i fuel that by (intro returns_mono [OF param_returns [OF wf]]) auto
    ultimately show ?thesis by (simp add: Let_def)
  qed
  have B: "returns s i st (double s R (Suc f) st i d)" if fuel: "2 * (length s - i) + 2 \<le> Suc f" for st i d
  proof (cases "i < length s \<and> \<not> sc_lost st")
    case True
    then have i: "i < length s" by simp
    note go = dbl [OF i fuel]
    have bt: "returns s (i + 1) st (backtick s R f st (i + 1))"
      using i fuel by (intro backtick_returns [OF wf]) auto
    have dl: "returns s (i + 1) st (dollar s R f st i True d)" using Suc.IH i fuel by auto
    have bnd: "returns s i st (case r of None \<Rightarrow> None | Some (st', j) \<Rightarrow> double s R f st' j d)"
      if "returns s (i + 1) st r" for r
      using that by (rule returns_bind) (simp_all add: go)
    show ?thesis
    proof (cases "sc_ref R st i placeEnclosed")
      case None
      have "returns s i st (double s R f st k d)" if "i < k" for k
        using that i by (intro returns_mono [OF go]) auto
      then show ?thesis
        using True None i by (simp add: bnd [OF bt] bnd [OF dl] del: One_nat_def)
    next
      case (Some p)
      then obtain st1 e where p: "sc_ref R st i placeEnclosed = Some (st1, e)" by (cases p) auto
      have "returns s i st (double s R f st1 e d)"
        by (rule sc_ref_returns [OF wf p go]) simp
      then show ?thesis using True p by simp
    qed
  qed auto
  have L: "returns s i st (commandLoop s R (Suc f) st i c w d ws)"
    if fuel: "2 * (length s - i) + 2 \<le> Suc f" for st i c w d ws
  proof (cases "i < length s \<and> \<not> sc_lost st")
    case True
    then have i: "i < length s" by simp
    note go = loop [OF i fuel]
    have go1: "returns s i st (commandLoop s R f st k c' w' d' ws')" if "i < k" for k c' w' d' ws'
      using that i by (intro returns_mono [OF go]) auto
    have bnd: "returns s i st (case r of None \<Rightarrow> None | Some (st', j) \<Rightarrow> commandLoop s R f st' j c' w d ws')"
      if "returns s (i + 1) st r" for r c' ws'
      using that by (rule returns_bind) (simp_all add: go)
    have sg: "returns s (i + 1) st (single s R f st (i + 1))"
      and bt: "returns s (i + 1) st (backtick s R f st (i + 1))"
      and hb: "returns s (i + 1) st (heredocBodies s R f st (i + 1))"
      and hs: "returns s (i + 1) st (heredocStart s R f st (i + 2))"
      and ar: "returns s (i + 1) st (arith s R f st (i + 2) 0)"
      using i fuel
      by (auto simp: heredocBodies_def intro!: single_returns [OF wf] backtick_returns [OF wf]
          heredocQueue_returns [OF wf] returns_mono [OF heredocStart_returns] returns_mono [OF arith_returns [OF wf]])
    have db: "returns s (i + 1) st (double s R f st (i + 1) d)"
      and dl: "returns s (i + 1) st (dollar s R f st i False d)"
      and cm: "returns s (i + 1) st (command s R f st (i + 1) True w' (d + 1))" for w'
      using Suc.IH i fuel by auto
    have cmt: "returns s (i + 1) st (comment s R f st i)" if "s ! i = CHR ''#''" 
      and "sc_ref R st i (if w then placeWord else placeEnclosed) = None"
    proof -
      obtain f' where f': "f = Suc f'" using i fuel by (cases f) auto
      have "sc_ref R st i placeEnclosed = None"
        using that(2) by (auto simp: sc_ref_def split: option.splits)
      moreover have "returns s (i + 1) st (comment s R f' st (i + 1))"
        using i fuel f' by (intro comment_returns [OF wf]) auto
      ultimately show ?thesis using that i f' by simp
    qed
    show ?thesis
    proof (cases "sc_ref R st i (if w then placeWord else placeEnclosed)")
      case (Some p)
      then obtain st1 e where p: "sc_ref R st i (if w then placeWord else placeEnclosed) = Some (st1, e)"
        by (cases p) auto
      have "returns s i st (commandLoop s R f st1 e c w d False)"
        by (rule sc_ref_returns [OF wf p go]) simp
      then show ?thesis using True p by (simp del: commandLoop.simps add: commandLoop.simps(2) [of s R f])
    next
      case None
      show ?thesis
        unfolding commandLoop.simps using True None i
        by (simp add: go1 bnd [OF sg] bnd [OF bt] bnd [OF hb] bnd [OF hs] bnd [OF ar] bnd [OF db]
            bnd [OF dl] bnd [OF cm] bnd [OF cmt [OF _ None]] del: One_nat_def add_2_eq_Suc' add_Suc_right)
    qed
  next
    case False
    then have "commandLoop s R (Suc f) st i c w d ws = Some (st, i)"
      unfolding commandLoop.simps by (rule if_not_P)
    then show ?thesis by simp
  qed
  show ?case using C L B D by blast
qed simp

lemma command_returns:
  "refs_wf R \<Longrightarrow> 2 * (length s - i) + 3 \<le> f \<Longrightarrow> returns s i st (command s R f st i c w d)"
  using command_returns_aux [of R s f] by blast

lemma commandLoop_returns:
  "refs_wf R \<Longrightarrow> 2 * (length s - i) + 2 \<le> f \<Longrightarrow> returns s i st (commandLoop s R f st i c w d ws)"
  using command_returns_aux [of R s f] by blast

lemma double_returns:
  "refs_wf R \<Longrightarrow> 2 * (length s - i) + 2 \<le> f \<Longrightarrow> returns s i st (double s R f st i d)"
  using command_returns_aux [of R s f] by blast

lemma refs_by_start_SomeD:
  assumes "refs_by_start (shellRefs_of s quoted known) i = Some r"
  shows "r \<in> set (shellRefs_of s quoted known) \<and> sr_start r = i"
proof -
  have "(i, r) \<in> set (map (\<lambda>r. (sr_start r, r)) (shellRefs_of s quoted known))"
    using assms unfolding refs_by_start_def by (rule map_of_SomeD)
  then show ?thesis by auto
qed

lemma refs_wf_shellRefs: "refs_wf (refs_by_start (shellRefs_of s quoted known))"
proof -
  have "sr_start r < sr_end r" if "r \<in> set (shellRefs_of s quoted known)" for r
    using that by (auto simp: shellRefs_of_def dest!: findAllRefs_bounds)
  then show ?thesis
    unfolding refs_wf_def using refs_by_start_SomeD by blast
qed

lemma shellPlaces_returns: "\<exists>rs. shellPlaces s quoted known = Some rs"
proof -
  let ?R = "refs_by_start (shellRefs_of s quoted known)"
  have "returns s 0 newScanner (command s ?R (scanFuel s) newScanner 0 False True 0)"
    by (rule command_returns [OF refs_wf_shellRefs]) (simp add: scanFuel_def)
  then show ?thesis
    by (auto simp: shellPlaces_def Let_def elim!: returnsE)
qed

text \<open>C25: the scan of a command's text always ends, within the fuel the model gives
  it, whatever the text, its nesting and its references.\<close>

theorem shellPlaces_total: "\<exists>rs. shellPlaces s quoted known = Some rs"
  by (rule shellPlaces_returns)

end
