(* ===== verification/Task_Render.thy ===== *)
theory Task_Render
  imports Shell_Places
begin

text \<open>
  Filling a parsed task in for one node: \<^verbatim>\<open>src/internal/tasks/render.go\<close>.  The
  renderer's \<^verbatim>\<open>err\<close> field, which a fill sets once, is threaded through; a Go map
  read with no such key is the zero value.  A step whose \<^verbatim>\<open>Kind\<close> names a nil
  pointer is dereferenced in the code, a panic; that is the error \<open>NilBody\<close>.
\<close>

record nodeVars =
  nv_name :: string
  nv_address :: string

datatype renderError = InputMissing string | UndefinedRef string | NilBody string

definition refNodeName :: string where "refNodeName = ''node.name''"
definition refNodeAddress :: string where "refNodeAddress = ''node.address''"

definition ShellQuote :: "string \<Rightarrow> string" where
  "ShellQuote s = [squote] @ concat (map (\<lambda>c. if c = squote then [squote, bslash, squote, squote] else [c]) s) @ [squote]"

section \<open>The renderer\<close>

record renderer =
  rd_values :: "string \<rightharpoonup> string"
  rd_raw :: "string \<Rightarrow> bool"

type_synonym fillErr = "renderError option"

fun fillSegs :: "renderer \<Rightarrow> bool \<Rightarrow> segment list \<Rightarrow> fillErr \<Rightarrow> string \<times> fillErr" where
  "fillSegs r quote [] err = ([], err)"
| "fillSegs r quote (Lit c # xs) err = (case fillSegs r quote xs err of (s, e) \<Rightarrow> (c # s, e))"
| "fillSegs r quote (Ref name m # xs) err =
     (case rd_values r name of
        None \<Rightarrow>
          (case fillSegs r quote xs (if err = None then Some (UndefinedRef name) else err) of
             (s, e) \<Rightarrow> (m @ s, e))
      | Some v \<Rightarrow>
          (case fillSegs r quote xs err of
             (s, e) \<Rightarrow> ((if quote \<and> \<not> rd_raw r name then ShellQuote v else v) @ s, e)))"

definition fill :: "renderer \<Rightarrow> string \<Rightarrow> bool \<Rightarrow> fillErr \<Rightarrow> string \<times> fillErr" where
  "fill r s quote err = fillSegs r quote (segments s) err"

definition isListSep :: "char \<Rightarrow> bool" where
  "isListSep c = (c = CHR '','' \<or> c = CHR '' '' \<or> c = tab \<or> c = nl)"

text \<open>\<^verbatim>\<open>strings.FieldsFunc\<close>: the maximal runs without a separator.\<close>

function fieldsFunc :: "(char \<Rightarrow> bool) \<Rightarrow> string \<Rightarrow> string list" where
  "fieldsFunc p s = (case dropWhile p s of
     [] \<Rightarrow> []
   | c # cs \<Rightarrow> (c # takeWhile (\<lambda>x. \<not> p x) cs) # fieldsFunc p (dropWhile (\<lambda>x. \<not> p x) cs))"
  by pat_completeness auto
termination
proof (relation "measure (\<lambda>(p, s). length s)", goal_cases)
  case (2 p s c cs)
  then have "length (c # cs) \<le> length s" by (metis length_dropWhile_le)
  moreover have "length (dropWhile (\<lambda>x. \<not> p x) cs) \<le> length cs" by (rule length_dropWhile_le)
  ultimately show ?case by simp
qed simp

declare fieldsFunc.simps [simp del]

fun packageItems :: "renderer \<Rightarrow> string list \<Rightarrow> fillErr \<Rightarrow> string list \<times> fillErr" where
  "packageItems r [] err = ([], err)"
| "packageItems r (it # items) err =
     (if \<not> hasRef it then (case packageItems r items err of (out, e) \<Rightarrow> (it # out, e))
      else (case fill r it False err of (s, e1) \<Rightarrow>
             (case packageItems r items e1 of (out, e) \<Rightarrow> (fieldsFunc isListSep s @ out, e))))"

definition packageList :: "renderer \<Rightarrow> string list option \<Rightarrow> fillErr \<Rightarrow> string list option \<times> fillErr" where
  "packageList r items err = (case items of
     None \<Rightarrow> (None, err)
   | Some its \<Rightarrow> (case packageItems r its err of (out, e) \<Rightarrow> (Some out, e)))"

section \<open>Render\<close>

text \<open>The inputs with their defaults applied, or the first required one with no value.\<close>

fun renderInputs :: "input list \<Rightarrow> (string \<rightharpoonup> string) \<Rightarrow> renderer \<Rightarrow> renderError + renderer" where
  "renderInputs [] inputs r = Inr r"
| "renderInputs (i # is) inputs r =
     (let v0 = (case inputs (input_name i) of None \<Rightarrow> [] | Some v \<Rightarrow> v);
          v = (if v0 = [] then input_default i else v0)
      in if v = [] \<and> input_required i then Inl (InputMissing (input_name i))
         else renderInputs is inputs
                (r\<lparr>rd_values := (rd_values r)(input_name i \<mapsto> v),
                   rd_raw := (rd_raw r)(input_name i := input_raw i)\<rparr>))"

definition emptySpec :: "task \<Rightarrow> nat \<Rightarrow> string \<Rightarrow> job_spec" where
  "emptySpec t i kind = \<lparr>spec_id = [], spec_run_id = [], spec_task = task_name t, spec_step = i,
     spec_kind = kind, spec_confirmed = False, spec_packages = None, spec_service = None,
     spec_command = None, spec_file = None, spec_stack = None, spec_reboot = None\<rparr>"

text \<open>One step filled in: the spec with the error field as the fills leave it.\<close>

definition renderStep :: "renderer \<Rightarrow> task \<Rightarrow> nat \<Rightarrow> step \<Rightarrow> job_spec \<times> fillErr" where
  "renderStep r t i s =
     (let spec = emptySpec t i (step_kind s) in
      if step_kind s = StepPackages then
        (case step_packages s of None \<Rightarrow> (spec, Some (NilBody (step_kind s))) | Some p \<Rightarrow>
          (case packageList r (ps_upgrade p) None of (u, e1) \<Rightarrow>
            (case packageList r (ps_install p) e1 of (n, e2) \<Rightarrow>
              (case packageList r (ps_remove p) e2 of (m, e3) \<Rightarrow>
                (spec\<lparr>spec_packages := Some (p\<lparr>ps_upgrade := u, ps_install := n, ps_remove := m\<rparr>)\<rparr>, e3)))))
      else if step_kind s = StepService then
        (case step_service s of None \<Rightarrow> (spec, Some (NilBody (step_kind s))) | Some sv \<Rightarrow>
          (case fill r (ss_name sv) False None of (n, e) \<Rightarrow>
            (spec\<lparr>spec_service := Some (sv\<lparr>ss_name := n\<rparr>)\<rparr>, e)))
      else if step_kind s = StepCommand then
        (case step_command s of None \<Rightarrow> (spec, Some (NilBody (step_kind s))) | Some c \<Rightarrow>
          (case fill r (cs_run c) True None of (rn, e1) \<Rightarrow>
            (case fill r (cs_script c) True e1 of (sc, e2) \<Rightarrow>
              (spec\<lparr>spec_command := Some (c\<lparr>cs_run := rn, cs_script := sc\<rparr>)\<rparr>, e2))))
      else if step_kind s = StepFile then
        (case step_file s of None \<Rightarrow> (spec, Some (NilBody (step_kind s))) | Some f \<Rightarrow>
          (case fill r (fs_path f) False None of (p, e1) \<Rightarrow>
            (case fill r (fs_content f) False e1 of (c, e2) \<Rightarrow>
              (case fill r (fs_owner f) False e2 of (w, e3) \<Rightarrow>
                (spec\<lparr>spec_file := Some (f\<lparr>fs_path := p, fs_content := c, fs_owner := w\<rparr>)\<rparr>, e3)))))
      else if step_kind s = StepStack then
        (case step_stack s of None \<Rightarrow> (spec, Some (NilBody (step_kind s))) | Some st \<Rightarrow>
          (case fill r (st_name st) False None of (n, e1) \<Rightarrow>
            (case fill r (st_compose st) False e1 of (c, e2) \<Rightarrow>
              (spec\<lparr>spec_stack := Some (st\<lparr>st_name := n, st_compose := c\<rparr>)\<rparr>, e2))))
      else if step_kind s = StepReboot then
        (case step_reboot s of None \<Rightarrow> (spec, Some (NilBody (step_kind s))) | Some rb \<Rightarrow>
          (spec\<lparr>spec_reboot := Some rb\<rparr>, None))
      else (spec, None))"

fun renderSteps :: "renderer \<Rightarrow> task \<Rightarrow> nat \<Rightarrow> step list \<Rightarrow> renderError + job_spec list" where
  "renderSteps r t i [] = Inr []"
| "renderSteps r t i (s # ss) =
     (case renderStep r t i s of (spec, err) \<Rightarrow>
        (case err of Some e \<Rightarrow> Inl e
         | None \<Rightarrow> (case renderSteps r t (i + 1) ss of Inl e \<Rightarrow> Inl e | Inr specs \<Rightarrow> Inr (spec # specs))))"

definition Render :: "task \<Rightarrow> (string \<rightharpoonup> string) \<Rightarrow> nodeVars \<Rightarrow> renderError + job_spec list" where
  "Render t inputs node =
     (case renderInputs (task_inputs t) inputs \<lparr>rd_values = Map.empty, rd_raw = (\<lambda>_. False)\<rparr> of
        Inl e \<Rightarrow> Inl e
      | Inr r \<Rightarrow>
          renderSteps (r\<lparr>rd_values := (rd_values r)(refNodeName \<mapsto> nv_name node, refNodeAddress \<mapsto> nv_address node)\<rparr>)
            t 0 (task_steps t))"

section \<open>What a fill does\<close>

definition renderRef :: "renderer \<Rightarrow> bool \<Rightarrow> segment \<Rightarrow> string" where
  "renderRef r quote x = (case x of
     Lit c \<Rightarrow> [c]
   | Ref n m \<Rightarrow> (case rd_values r n of None \<Rightarrow> m
       | Some v \<Rightarrow> if quote \<and> \<not> rd_raw r n then ShellQuote v else v))"

lemma fillSegs_text: "fst (fillSegs r quote xs err) = concat (map (renderRef r quote) xs)"
  by (induction r quote xs err rule: fillSegs.induct)
    (auto simp: renderRef_def split: prod.splits option.splits)

lemma fillSegs_defined:
  "set (seg_names xs) \<subseteq> dom (rd_values r) \<Longrightarrow> snd (fillSegs r quote xs err) = err"
  by (induction r quote xs err rule: fillSegs.induct) (auto split: prod.splits option.splits)

lemma fillSegs_undefined:
  "\<not> set (seg_names xs) \<subseteq> dom (rd_values r) \<Longrightarrow> snd (fillSegs r quote xs err) \<noteq> None"
proof (induction r quote xs err rule: fillSegs.induct)
  case (3 r quote name m xs err)
  have "snd (fillSegs r quote xs (Some e)) \<noteq> None" for e
    by (induction xs arbitrary: e rule: seg_names.induct)
      (simp_all add: case_prod_beta split: option.split)
  with 3 show ?case by (auto simp: case_prod_beta split: option.splits)
qed (auto simp: case_prod_beta)

lemma fill_defined:
  "set (refNames s) \<subseteq> dom (rd_values r) \<Longrightarrow>
   fill r s quote err = (concat (map (renderRef r quote) (segments s)), err)"
  by (simp add: fill_def refNames_def prod_eq_iff fillSegs_text fillSegs_defined)

lemma packageItems_defined:
  "(\<Union>it\<in>set items. set (refNames it)) \<subseteq> dom (rd_values r) \<Longrightarrow> snd (packageItems r items err) = err"
  by (induction r items err rule: packageItems.induct) (auto simp: fill_defined split: prod.splits)

lemma packageList_defined:
  "(\<And>its. items = Some its \<Longrightarrow> (\<Union>it\<in>set its. set (refNames it)) \<subseteq> dom (rd_values r)) \<Longrightarrow>
   snd (packageList r items err) = err"
  by (cases items) (simp_all add: packageList_def case_prod_beta packageItems_defined)

end
