(* ===== verification/Go_Duration.thy ===== *)
theory Go_Duration
  imports Task_Model
begin

text \<open>
  \<^verbatim>\<open>time.ParseDuration\<close> and \<^verbatim>\<open>Duration.String\<close> of Go's standard library, which task
  documents are read and written with, and \<^verbatim>\<open>shortDuration\<close> of
  \<^verbatim>\<open>src/internal/tasks/format.go\<close>.  The library multiplies a fraction out in
  float64; where the scale divides the unit and the product is below 2^53 every
  operand and the result are exact, and the model computes the product; any other
  product is the parameter \<open>fl\<close>.  No duration the code prints needs it.
\<close>

section \<open>time.ParseDuration\<close>

definition is_digit :: "char \<Rightarrow> bool" where
  "is_digit c = (c \<in> set ''0123456789'')"

definition unitNanos :: "string \<Rightarrow> int option" where
  "unitNanos u =
     (if u = ''ns'' then Some 1
      else if u = ''us'' \<or> u = [CHR 0xC2, CHR 0xB5, CHR ''s''] \<or> u = [CHR 0xCE, CHR 0xBC, CHR ''s'']
      then Some 1000
      else if u = ''ms'' then Some 1000000
      else if u = ''s'' then Some 1000000000
      else if u = ''m'' then Some 60000000000
      else if u = ''h'' then Some 3600000000000
      else None)"

fun leadingInt :: "int \<Rightarrow> string \<Rightarrow> (int \<times> string) option" where
  "leadingInt x [] = Some (x, [])"
| "leadingInt x (c # s) =
     (if \<not> is_digit c then Some (x, c # s)
      else if x > 2 ^ 63 div 10 \<or> x * 10 + (of_char c - 48) > 2 ^ 63 then None
      else leadingInt (x * 10 + (of_char c - 48)) s)"

text \<open>The fraction's value, its number of digits (the scale is a power of ten), and
  the rest; digits after an overflow are read and dropped.\<close>

fun leadingFraction :: "int \<Rightarrow> nat \<Rightarrow> bool \<Rightarrow> string \<Rightarrow> int \<times> nat \<times> string" where
  "leadingFraction x k over [] = (x, k, [])"
| "leadingFraction x k over (c # s) =
     (if \<not> is_digit c then (x, k, c # s)
      else if over \<or> x > (2 ^ 63 - 1) div 10 \<or> x * 10 + (of_char c - 48) > 2 ^ 63
      then leadingFraction x k True s
      else leadingFraction (x * 10 + (of_char c - 48)) (Suc k) False s)"

definition fracNanos :: "(int \<Rightarrow> nat \<Rightarrow> int \<Rightarrow> nat) \<Rightarrow> int \<Rightarrow> nat \<Rightarrow> int \<Rightarrow> int" where
  "fracNanos fl f k unit =
     (if 10 ^ k dvd unit \<and> f * (unit div 10 ^ k) < 2 ^ 53 then f * (unit div 10 ^ k) else int (fl f k unit))"

lemma leadingInt_length: "leadingInt x s = Some (v, r) \<Longrightarrow> length r \<le> length s"
  by (induction x s rule: leadingInt.induct) (auto split: if_splits)

lemma leadingFraction_length: "leadingFraction x k b s = (f, n, r) \<Longrightarrow> length r \<le> length s"
  by (induction x k b s rule: leadingFraction.induct) (auto split: if_splits)

text \<open>One number and its unit at the front of the text.\<close>

definition durationPart :: "(int \<Rightarrow> nat \<Rightarrow> int \<Rightarrow> nat) \<Rightarrow> string \<Rightarrow> (int \<times> string) option" where
  "durationPart fl s =
     (if s = [] \<or> \<not> (hd s = CHR ''.'' \<or> is_digit (hd s)) then None
      else (case leadingInt 0 s of
        None \<Rightarrow> None
      | Some (v, s1) \<Rightarrow>
          (let pre = (length s1 \<noteq> length s);
               dot = (s1 \<noteq> [] \<and> hd s1 = CHR ''.'');
               (f, k, s2) = (if dot then leadingFraction 0 0 False (tl s1) else (0, 0, s1));
               post = (dot \<and> length s2 \<noteq> length (tl s1));
               u = takeWhile (\<lambda>c. \<not> (c = CHR ''.'' \<or> is_digit c)) s2;
               s3 = dropWhile (\<lambda>c. \<not> (c = CHR ''.'' \<or> is_digit c)) s2
           in if \<not> pre \<and> \<not> post then None
              else if u = [] then None
              else (case unitNanos u of
                None \<Rightarrow> None
              | Some unit \<Rightarrow>
                  if v > 2 ^ 63 div unit then None
                  else (let w = v * unit + (if f > 0 then fracNanos fl f k unit else 0) in
                        if f > 0 \<and> w > 2 ^ 63 then None else Some (w, s3))))))"

lemma durationPart_length:
  assumes "durationPart fl s = Some (w, r)"
  shows "length r < length s"
proof -
  obtain v s1 where 1: "leadingInt 0 s = Some (v, s1)"
    using assms by (auto simp: durationPart_def split: if_splits option.splits)
  obtain f k s2 where 2: "(if s1 \<noteq> [] \<and> hd s1 = CHR ''.'' then leadingFraction 0 0 False (tl s1) else (0, 0, s1)) = (f, k, s2)"
    by (metis prod_cases3)
  let ?P = "\<lambda>c. \<not> (c = CHR ''.'' \<or> is_digit c)"
  have u: "takeWhile ?P s2 \<noteq> []" and r: "r = dropWhile ?P s2"
    using assms 1 2 by (auto simp: durationPart_def Let_def split: if_splits option.splits prod.splits)
  have "length s2 \<le> length s1"
    using 2 leadingFraction_length [of 0 0 False "tl s1" f k s2] by (auto split: if_splits)
  moreover have "length s1 \<le> length s" by (rule leadingInt_length [OF 1])
  moreover have "length r < length s2"
    using u r by (metis length_append length_greater_0_conv less_add_same_cancel2 takeWhile_dropWhile_id)
  ultimately show ?thesis by simp
qed

function durationLoop :: "(int \<Rightarrow> nat \<Rightarrow> int \<Rightarrow> nat) \<Rightarrow> int \<Rightarrow> string \<Rightarrow> int option" where
  "durationLoop fl d s =
     (if s = [] then Some d
      else (case durationPart fl s of
        None \<Rightarrow> None
      | Some (v, r) \<Rightarrow> if d + v > 2 ^ 63 then None else durationLoop fl (d + v) r))"
  by pat_completeness auto
termination
  by (relation "measure (\<lambda>(fl, d, s). length s)") (auto dest: durationPart_length)

declare durationLoop.simps [simp del]

definition ParseDuration :: "(int \<Rightarrow> nat \<Rightarrow> int \<Rightarrow> nat) \<Rightarrow> string \<Rightarrow> duration option" where
  "ParseDuration fl orig =
     (let neg = (orig \<noteq> [] \<and> hd orig = CHR ''-'');
          s = (if orig \<noteq> [] \<and> (hd orig = CHR ''-'' \<or> hd orig = CHR ''+'') then tl orig else orig)
      in if s = ''0'' then Some 0
         else if s = [] then None
         else (case durationLoop fl 0 s of
           None \<Rightarrow> None
         | Some d \<Rightarrow> if neg then Some (- d)
                     else if d > 2 ^ 63 - 1 then None else Some d))"

lemma leadingInt_nonneg: "leadingInt x s = Some (v, r) \<Longrightarrow> 0 \<le> x \<Longrightarrow> 0 \<le> v"
proof (induction x s rule: leadingInt.induct)
  case (2 x c s)
  have "is_digit c \<Longrightarrow> (48::int) \<le> of_char c" by (auto simp: is_digit_def)
  then show ?case using 2 by (auto split: if_splits)
qed simp

lemma unitNanos_pos: "unitNanos u = Some unit \<Longrightarrow> 0 < unit"
  by (auto simp: unitNanos_def split: if_splits)

lemma fracNanos_nonneg: "0 < f \<Longrightarrow> 0 < unit \<Longrightarrow> 0 \<le> fracNanos fl f k unit"
  by (simp add: fracNanos_def pos_imp_zdiv_nonneg_iff)

lemma durationPart_nonneg: "durationPart fl s = Some (w, r) \<Longrightarrow> 0 \<le> w"
  by (auto simp: durationPart_def Let_def split: if_splits option.splits prod.splits
      dest!: unitNanos_pos leadingInt_nonneg [OF _ order_refl]
      intro!: add_nonneg_nonneg mult_nonneg_nonneg fracNanos_nonneg)

lemma durationLoop_nonneg: "durationLoop fl d s = Some r \<Longrightarrow> 0 \<le> d \<Longrightarrow> 0 \<le> r"
proof (induction fl d s rule: durationLoop.induct)
  case (1 fl d s)
  show ?case
  proof (cases "s = []")
    case False
    then obtain v q where "durationPart fl s = Some (v, q)" "\<not> d + v > 2 ^ 63" "durationLoop fl (d + v) q = Some r"
      using "1.prems"(1) by (auto simp: durationLoop.simps [of fl d s] split: option.splits if_splits)
    then show ?thesis using "1.IH" [OF False _ refl] "1.prems"(2) durationPart_nonneg by (metis add_nonneg_nonneg)
  qed (use "1.prems" in \<open>simp add: durationLoop.simps\<close>)
qed

text \<open>A duration the library returns is a 64-bit one.\<close>

lemma ParseDuration_bound: "ParseDuration fl s = Some d \<Longrightarrow> 0 < d \<Longrightarrow> d < 2 ^ 63"
  by (auto simp: ParseDuration_def Let_def split: if_splits option.splits dest: durationLoop_nonneg)

section \<open>Duration.String and shortDuration\<close>

text \<open>\<^verbatim>\<open>fmtFrac(v, prec)\<close>: the last \<open>prec\<close> digits of \<open>v\<close> as a fraction, trailing zeros
  and an empty fraction left out.\<close>

fun fmtFrac :: "int \<Rightarrow> nat \<Rightarrow> bool \<Rightarrow> string \<Rightarrow> string" where
  "fmtFrac v 0 pr acc = (if pr then CHR ''.'' # acc else acc)"
| "fmtFrac v (Suc p) pr acc =
     (let digit = v mod 10; pr' = (pr \<or> digit \<noteq> 0)
      in fmtFrac (v div 10) p pr' (if pr' then digit_char (nat digit) # acc else acc))"

definition Duration_String :: "duration \<Rightarrow> string" where
  "Duration_String d =
     (let u = \<bar>d\<bar>; sign = (if d < 0 then ''-'' else []) in
      if u < 1000000000 then
        (if u = 0 then ''0s''
         else if u < 1000 then sign @ nat_digits (nat u) @ ''ns''
         else if u < 1000000 then sign @ nat_digits (nat (u div 1000)) @ fmtFrac u 3 False [] @ [CHR 0xC2, CHR 0xB5, CHR ''s'']
         else sign @ nat_digits (nat (u div 1000000)) @ fmtFrac u 6 False [] @ ''ms'')
      else
        (let s = u div 1000000000; m = s div 60; h = m div 60 in
         sign @ (if h > 0 then nat_digits (nat h) @ ''h'' else [])
              @ (if m > 0 then nat_digits (nat (m mod 60)) @ ''m'' else [])
              @ nat_digits (nat (s mod 60)) @ fmtFrac u 9 False [] @ ''s''))"

definition shortDuration :: "duration \<Rightarrow> string" where
  "shortDuration d =
     (let s = Duration_String d;
          s1 = (if has_suffix s ''m0s'' then trim_suffix s ''0s'' else s)
      in if has_suffix s1 ''h0m'' then trim_suffix s1 ''0m'' else s1)"

section \<open>What shortDuration writes reads back\<close>

definition dval :: "int \<Rightarrow> string \<Rightarrow> int" where
  "dval x ds = foldl (\<lambda>v c. v * 10 + (of_char c - 48)) x ds"

lemma dval_simps [simp]:
  "dval x [] = x" "dval x (c # ds) = dval (x * 10 + (of_char c - 48)) ds"
  "dval x (ds @ [c]) = dval x ds * 10 + (of_char c - 48)"
  by (simp_all add: dval_def)

lemma digit_char_table:
  "list_all (\<lambda>d. is_digit (digit_char d) \<and> (of_char (digit_char d) :: int) = 48 + int d) [0..<10]"
  by code_simp

lemma is_digit_char: "d < 10 \<Longrightarrow> is_digit (digit_char d)"
  using digit_char_table by (simp add: list_all_iff del: upt_conv_Cons)

lemma of_char_digit_int: "d < 10 \<Longrightarrow> (of_char (digit_char d) :: int) = 48 + int d"
  using digit_char_table by (simp add: list_all_iff del: upt_conv_Cons)

lemma is_digit_ge: "is_digit c \<Longrightarrow> (48::int) \<le> of_char c"
  by (auto simp: is_digit_def)

lemma dval_mono: "0 \<le> x \<Longrightarrow> \<forall>c\<in>set ds. is_digit c \<Longrightarrow> x \<le> dval x ds"
proof (induction ds arbitrary: x)
  case (Cons c ds)
  have "(48::int) \<le> of_char c" using Cons.prems by (simp add: is_digit_ge)
  then have le: "x \<le> x * 10 + (of_char c - 48)" and "0 \<le> x * 10 + (of_char c - 48)" using Cons.prems by auto
  then have "x * 10 + (of_char c - 48) \<le> dval (x * 10 + (of_char c - 48)) ds"
    using Cons.IH [of "x * 10 + (of_char c - 48)"] Cons.prems by simp
  with le show ?case by simp
qed simp

lemma dval_nat_digits: "dval 0 (nat_digits n) = int n \<and> (\<forall>c\<in>set (nat_digits n). is_digit c)"
proof (induction n rule: nat_digits.induct)
  case (1 n)
  show ?case
  proof (cases "n < 10")
    case True
    then show ?thesis by (simp add: nat_digits.simps [of n] of_char_digit_int is_digit_char)
  next
    case False
    have "int (n div 10) * 10 + int (n mod 10) = int n"
      by (metis div_mult_mod_eq of_nat_add of_nat_mult of_nat_numeral)
    then show ?thesis using 1 False by (simp add: nat_digits.simps [of n] of_char_digit_int is_digit_char)
  qed
qed

lemma nat_digits_nonempty [simp]: "nat_digits n \<noteq> []"
  by (simp add: nat_digits.simps [of n])

abbreviation notNumber :: "char \<Rightarrow> bool" where
  "notNumber c \<equiv> \<not> (c = CHR ''.'' \<or> is_digit c)"

lemma leadingInt_digits:
  assumes "\<forall>c\<in>set ds. is_digit c" and "0 \<le> x" and "dval x ds \<le> 2 ^ 63" and "r = [] \<or> \<not> is_digit (hd r)"
  shows "leadingInt x (ds @ r) = Some (dval x ds, r)"
  using assms
proof (induction ds arbitrary: x)
  case Nil
  then show ?case by (cases r) auto
next
  case (Cons c ds)
  let ?y = "x * 10 + (of_char c - 48)"
  have c: "(48::int) \<le> of_char c" using Cons.prems by (simp add: is_digit_ge)
  then have y: "0 \<le> ?y" using Cons.prems by simp
  have "?y \<le> dval ?y ds" using y Cons.prems by (intro dval_mono) auto
  then have "?y \<le> 2 ^ 63" using Cons.prems by simp
  then have "\<not> x > 2 ^ 63 div 10" "\<not> ?y > 2 ^ 63" using c by auto
  moreover have "leadingInt ?y (ds @ r) = Some (dval ?y ds, r)" using Cons.IH [OF _ y] Cons.prems by simp
  ultimately show ?case using Cons.prems(1) by simp
qed

lemma leadingFraction_digits:
  assumes "\<forall>c\<in>set ds. is_digit c" and "0 \<le> x" and "dval x ds < 2 ^ 63" and "r = [] \<or> \<not> is_digit (hd r)"
  shows "leadingFraction x k False (ds @ r) = (dval x ds, k + length ds, r)"
  using assms
proof (induction ds arbitrary: x k)
  case Nil
  then show ?case by (cases r) auto
next
  case (Cons c ds)
  let ?y = "x * 10 + (of_char c - 48)"
  have c: "(48::int) \<le> of_char c" using Cons.prems by (simp add: is_digit_ge)
  then have y: "0 \<le> ?y" using Cons.prems by simp
  have "?y \<le> dval ?y ds" using y Cons.prems by (intro dval_mono) auto
  then have "?y < 2 ^ 63" using Cons.prems by simp
  then have "\<not> x > (2 ^ 63 - 1) div 10" "\<not> ?y > 2 ^ 63" using c by auto
  moreover have "leadingFraction ?y (Suc k) False (ds @ r) = (dval ?y ds, Suc k + length ds, r)"
    using Cons.IH [OF _ y] Cons.prems by simp
  ultimately show ?case using Cons.prems(1) by simp
qed

text \<open>The last \<open>p\<close> digits of a number, zeros included.\<close>

fun lastDigits :: "int \<Rightarrow> nat \<Rightarrow> string" where
  "lastDigits v 0 = []"
| "lastDigits v (Suc p) = lastDigits (v div 10) p @ [digit_char (nat (v mod 10))]"

lemma lastDigits: "length (lastDigits v p) = p \<and> (\<forall>c\<in>set (lastDigits v p). is_digit c) \<and>
    dval 0 (lastDigits v p) = v mod 10 ^ p"
proof (induction p arbitrary: v)
  case (Suc p)
  have d: "nat (v mod 10) < 10" by (simp add: nat_less_iff)
  have "v mod (10 * 10 ^ p) = 10 * (v div 10 mod 10 ^ p) + v mod 10" by (rule zmod_zmult2_eq) simp
  then show ?case using Suc [of "v div 10"] d by (auto simp: of_char_digit_int is_digit_char)
qed simp

lemma fmtFrac_True: "fmtFrac v p True acc = CHR ''.'' # lastDigits v p @ acc"
  by (induction p arbitrary: v acc) (simp_all add: Let_def)

lemma fmtFrac_False:
  assumes "0 \<le> v"
  shows "(v mod 10 ^ p = 0 \<and> fmtFrac v p False [] = []) \<or>
    (\<exists>k\<le>p. 0 < k \<and> fmtFrac v p False [] = CHR ''.'' # lastDigits (v div 10 ^ (p - k)) k \<and>
       0 < v div 10 ^ (p - k) mod 10 ^ k \<and> v mod 10 ^ p = (v div 10 ^ (p - k) mod 10 ^ k) * 10 ^ (p - k))"
  using assms
proof (induction p arbitrary: v)
  case (Suc p)
  have split: "v mod (10 * 10 ^ p) = 10 * (v div 10 mod 10 ^ p) + v mod 10" by (rule zmod_zmult2_eq) simp
  show ?case
  proof (cases "v mod 10 = 0")
    case True
    then have eq: "fmtFrac v (Suc p) False [] = fmtFrac (v div 10) p False []" by (simp add: Let_def)
    have "0 \<le> v div 10" using Suc.prems by simp
    from Suc.IH [OF this] show ?thesis
    proof
      assume "\<exists>k\<le>p. 0 < k \<and> fmtFrac (v div 10) p False [] = CHR ''.'' # lastDigits (v div 10 div 10 ^ (p - k)) k \<and>
        0 < v div 10 div 10 ^ (p - k) mod 10 ^ k \<and>
        v div 10 mod 10 ^ p = (v div 10 div 10 ^ (p - k) mod 10 ^ k) * 10 ^ (p - k)"
      then obtain k where k: "k \<le> p" "0 < k"
        "fmtFrac (v div 10) p False [] = CHR ''.'' # lastDigits (v div 10 div 10 ^ (p - k)) k"
        "0 < v div 10 div 10 ^ (p - k) mod 10 ^ k"
        "v div 10 mod 10 ^ p = (v div 10 div 10 ^ (p - k) mod 10 ^ k) * 10 ^ (p - k)" by blast
      have "v div 10 div 10 ^ (p - k) = v div 10 ^ (Suc p - k)"
        using k(1) by (simp add: Suc_diff_le zdiv_zmult2_eq)
      then show ?thesis using k eq True split
        by (intro disjI2 exI [of _ k]) (simp add: Suc_diff_le)
    qed (use eq True split in simp)
  next
    case False
    have "0 < v mod 10" using False by (simp add: order_less_le)
    moreover have "0 \<le> v div 10 mod 10 ^ p" by simp
    ultimately have "0 < v mod 10 ^ Suc p" unfolding power_Suc split by linarith
    then show ?thesis using False
      by (intro disjI2 exI [of _ "Suc p"]) (simp add: Let_def fmtFrac_True)
  qed
qed simp

text \<open>Reading one number with its fraction and its unit.\<close>

lemma durationPart_read:
  assumes u: "us \<noteq> []" "\<forall>c\<in>set us. notNumber c" "unitNanos us = Some unit" "0 < unit"
    and rest: "rest = [] \<or> is_digit (hd rest)"
    and a: "0 \<le> a" "a * unit < 2 ^ 63"
    and fr: "fr = [] \<and> w = 0 \<or>
      (\<exists>ds. fr = CHR ''.'' # ds \<and> ds \<noteq> [] \<and> (\<forall>c\<in>set ds. is_digit c) \<and> 0 < dval 0 ds \<and> dval 0 ds < 2 ^ 53 \<and>
        10 ^ length ds dvd unit \<and> w = dval 0 ds * (unit div 10 ^ length ds) \<and> w < 2 ^ 53 \<and> a * unit + w < 2 ^ 63)"
  shows "durationPart fl (nat_digits (nat a) @ fr @ us @ rest) = Some (a * unit + w, rest)"
proof -
  let ?s = "nat_digits (nat a) @ fr @ us @ rest"
  have unit: "1 \<le> unit" using u(4) by simp
  have "a * 1 \<le> a * unit" using a(1) unit by (intro mult_left_mono) auto
  then have a63: "a \<le> 2 ^ 63" using a(2) by simp
  have "a * unit div unit \<le> 2 ^ 63 div unit" using a(2) u(4) by (intro zdiv_mono1) auto
  then have adiv: "\<not> a > 2 ^ 63 div unit" using u(4) by simp
  have hdu: "hd us \<in> set us" using u(1) by simp
  have nd: "fr @ us @ rest = [] \<or> \<not> is_digit (hd (fr @ us @ rest))"
  proof -
    have "\<not> is_digit (CHR ''.'')" by (simp add: is_digit_def)
    moreover have "\<not> is_digit (hd us)" using u(2) hdu by blast
    ultimately show ?thesis using fr by (elim disjE exE conjE) (simp_all add: u(1))
  qed
  have li: "leadingInt 0 ?s = Some (a, fr @ us @ rest)"
    using leadingInt_digits [OF _ _ _ nd, of "nat_digits (nat a)" 0] dval_nat_digits [of "nat a"] a(1) a63 by simp
  have hds: "hd ?s = CHR ''.'' \<or> is_digit (hd ?s)" using dval_nat_digits [of "nat a"] by simp
  have "takeWhile notNumber rest = []" "dropWhile notNumber rest = rest" using rest by (cases rest; simp)+
  then have tw: "takeWhile notNumber (us @ rest) = us" "dropWhile notNumber (us @ rest) = rest"
    using u(2) by (simp_all add: takeWhile_append2 dropWhile_append2)
  have dot: "hd us \<noteq> CHR ''.''" using hdu u(2) by auto
  from fr show ?thesis
  proof
    assume "fr = [] \<and> w = 0"
    then show ?thesis
      using li hds tw u(1,3) adiv dot by (simp add: durationPart_def Let_def)
  next
    assume "\<exists>ds. fr = CHR ''.'' # ds \<and> ds \<noteq> [] \<and> (\<forall>c\<in>set ds. is_digit c) \<and> 0 < dval 0 ds \<and> dval 0 ds < 2 ^ 53 \<and>
        10 ^ length ds dvd unit \<and> w = dval 0 ds * (unit div 10 ^ length ds) \<and> w < 2 ^ 53 \<and> a * unit + w < 2 ^ 63"
    then obtain ds where f: "fr = CHR ''.'' # ds" "ds \<noteq> []" "\<forall>c\<in>set ds. is_digit c" "0 < dval 0 ds" "dval 0 ds < 2 ^ 53"
      "10 ^ length ds dvd unit" "w = dval 0 ds * (unit div 10 ^ length ds)" "w < 2 ^ 53" "a * unit + w < 2 ^ 63"
      by blast
    have "leadingFraction 0 0 False (ds @ us @ rest) = (dval 0 ds, 0 + length ds, us @ rest)"
      by (rule leadingFraction_digits) (use f u(1,2) hdu in auto)
    then show ?thesis
      using li hds tw u(1,3) adiv f by (simp add: durationPart_def Let_def fracNanos_def)
  qed
qed

lemma durationPart_whole:
  assumes "us \<noteq> []" "\<forall>c\<in>set us. notNumber c" "unitNanos us = Some unit" "0 < unit"
    and "rest = [] \<or> is_digit (hd rest)" and "0 \<le> a" "a * unit < 2 ^ 63"
  shows "durationPart fl (nat_digits (nat a) @ us @ rest) = Some (a * unit, rest)"
  using durationPart_read [OF assms, of "[]" 0 fl] by simp

lemma durationPart_frac:
  assumes us: "us \<noteq> []" "\<forall>c\<in>set us. notNumber c" "unitNanos us = Some (10 ^ p)" "p \<le> 9"
    and a: "0 \<le> a" "0 \<le> u" "a * 10 ^ p + u mod 10 ^ p < 2 ^ 63"
  shows "durationPart fl (nat_digits (nat a) @ fmtFrac u p False [] @ us) = Some (a * 10 ^ p + u mod 10 ^ p, [])"
proof -
  have "0 \<le> u mod 10 ^ p" by simp
  then have au: "a * 10 ^ p < 2 ^ 63" using a(3) by linarith
  have "(10::int) ^ p \<le> 10 ^ 9" using us(4) by (intro power_increasing) auto
  moreover have "u mod 10 ^ p < 10 ^ p" by simp
  ultimately have "u mod 10 ^ p < 10 ^ 9" by linarith
  then have w: "u mod 10 ^ p < 2 ^ 53" by simp
  have "fmtFrac u p False [] = [] \<and> u mod 10 ^ p = 0 \<or>
      (\<exists>ds. fmtFrac u p False [] = CHR ''.'' # ds \<and> ds \<noteq> [] \<and> (\<forall>c\<in>set ds. is_digit c) \<and> 0 < dval 0 ds \<and>
        dval 0 ds < 2 ^ 53 \<and> 10 ^ length ds dvd (10 ^ p :: int) \<and>
        u mod 10 ^ p = dval 0 ds * (10 ^ p div 10 ^ length ds) \<and> u mod 10 ^ p < 2 ^ 53 \<and>
        a * 10 ^ p + u mod 10 ^ p < 2 ^ 63)"
    using fmtFrac_False [OF a(2), of p]
  proof
    assume "\<exists>k\<le>p. 0 < k \<and> fmtFrac u p False [] = CHR ''.'' # lastDigits (u div 10 ^ (p - k)) k \<and>
       0 < u div 10 ^ (p - k) mod 10 ^ k \<and> u mod 10 ^ p = (u div 10 ^ (p - k) mod 10 ^ k) * 10 ^ (p - k)"
    then obtain k where k: "k \<le> p" "0 < k"
      "fmtFrac u p False [] = CHR ''.'' # lastDigits (u div 10 ^ (p - k)) k"
      "0 < u div 10 ^ (p - k) mod 10 ^ k" "u mod 10 ^ p = (u div 10 ^ (p - k) mod 10 ^ k) * 10 ^ (p - k)" by blast
    define ds where "ds = lastDigits (u div 10 ^ (p - k)) k"
    have ds: "length ds = k" "\<forall>c\<in>set ds. is_digit c" "dval 0 ds = u div 10 ^ (p - k) mod 10 ^ k"
      using lastDigits [of "u div 10 ^ (p - k)" k] by (auto simp: ds_def)
    have "dval 0 ds * 1 \<le> dval 0 ds * 10 ^ (p - k)" using k(4) ds(3) by (intro mult_left_mono) auto
    then have "dval 0 ds < 2 ^ 53" using w k(5) ds(3) by simp
    moreover have "(10::int) ^ p div 10 ^ k = 10 ^ (p - k)" using k(1) by (simp add: power_diff)
    moreover have "(10::int) ^ k dvd 10 ^ p" using k(1) by (rule le_imp_power_dvd)
    moreover have "ds \<noteq> []" using ds(1) k(2) by auto
    ultimately show ?thesis using k(3-5) ds w a(3) ds_def by (intro disjI2 exI [of _ ds]) simp
  qed simp
  then show ?thesis using durationPart_read [OF us(1,2,3) _ _ a(1) au, of "[]" "fmtFrac u p False []" "u mod 10 ^ p" fl]
    by simp
qed

lemma durationLoop_part:
  assumes "durationPart fl s = Some (v, r)" and "d + v \<le> 2 ^ 63" and "s \<noteq> []"
  shows "durationLoop fl d s = durationLoop fl (d + v) r"
  using assms by (simp add: durationLoop.simps [of fl d s])

lemma durationLoop_end: "durationLoop fl d [] = Some d"
  by (simp add: durationLoop.simps)

lemma suffix_cut:
  assumes "x @ a = y @ c # b" and "c \<notin> set a" and "length b \<le> length a"
  shows "a = b \<and> x = y @ [c]"
proof -
  have "length a \<le> length b"
  proof (rule ccontr)
    assume "\<not> length a \<le> length b"
    then have "c \<in> set a"
      using assms(1) by (auto simp: append_eq_append_conv2 append_eq_Cons_conv)
    then show False using assms(2) by simp
  qed
  then have "length a = length b" using assms(3) by simp
  moreover have "x @ a = (y @ [c]) @ b" using assms(1) by simp
  ultimately show ?thesis by (metis append_eq_append_conv)
qed

lemma has_suffixE:
  assumes "has_suffix s p"
  obtains x where "s = x @ p"
  using assms by (metis append_take_drop_id has_suffix_def)

lemma trim_suffix_append [simp]: "trim_suffix (x @ p) p = x"
  by (simp add: trim_suffix_def has_suffix_def)

lemma shortDuration_seconds:
  assumes "1000000000 \<le> d"
  defines "s \<equiv> d div 1000000000"
  defines "h \<equiv> s div 60 div 60"
  defines "H \<equiv> (if h > 0 then nat_digits (nat h) @ ''h'' else [])"
  defines "M \<equiv> (if s div 60 > 0 then nat_digits (nat (s div 60 mod 60)) @ ''m'' else [])"
  defines "S \<equiv> nat_digits (nat (s mod 60)) @ fmtFrac d 9 False [] @ ''s''"
  shows "shortDuration d = H @ M @ S
    \<or> shortDuration d = H @ M \<and> S = ''0s'' \<and> s div 60 > 0
    \<or> shortDuration d = H \<and> S = ''0s'' \<and> M = ''0m'' \<and> h > 0"
proof -
  have dd: "nat_digits n \<noteq> [] \<and> (\<forall>c\<in>set (nat_digits n). is_digit c)" for n using dval_nat_digits [of n] by simp
  have nodig: "\<not> is_digit (CHR ''m'')" "\<not> is_digit (CHR ''h'')" by (simp_all add: is_digit_def)
  have full: "Duration_String d = H @ M @ S"
    using assms(1) by (simp add: Duration_String_def Let_def s_def h_def H_def M_def S_def)
  have frac: "\<forall>c\<in>set (fmtFrac d 9 False []). c = CHR ''.'' \<or> is_digit c"
    using fmtFrac_False [of d 9] assms(1) lastDigits by fastforce
  have S: "CHR ''m'' \<notin> set S" "2 \<le> length S" "last S = CHR ''s''"
    using dd [of "nat (s mod 60)"] frac nodig by (auto simp: S_def Suc_le_eq)
  have M: "CHR ''h'' \<notin> set M" "M \<noteq> [] \<Longrightarrow> 2 \<le> length M" "M \<noteq> [] \<longleftrightarrow> s div 60 > 0"
    using dd [of "nat (s div 60 mod 60)"] nodig by (auto simp: M_def Suc_le_eq split: if_splits)
  show ?thesis
  proof (cases "has_suffix (H @ M @ S) ''m0s''")
    case True
    then obtain y where "(H @ M) @ S = y @ CHR ''m'' # ''0s''" by (auto elim: has_suffixE)
    then have S0: "S = ''0s''" and hm: "H @ M = y @ ''m''"
      using suffix_cut [of "H @ M" S y "CHR ''m''" "''0s''"] S by auto
    have m: "s div 60 > 0"
    proof (rule ccontr)
      assume "\<not> s div 60 > 0"
      moreover from this have "\<not> h > 0" by (simp add: h_def not_less)
      ultimately show False using hm by (simp add: H_def M_def)
    qed
    have trim: "trim_suffix (Duration_String d) ''0s'' = H @ M" using trim_suffix_append [of "H @ M" "''0s''"] full S0 by simp
    show ?thesis
    proof (cases "has_suffix (H @ M) ''h0m''")
      case True
      then obtain z where "H @ M = z @ CHR ''h'' # ''0m''" by (auto elim: has_suffixE)
      then have M0: "M = ''0m''" and h: "H = z @ ''h''"
        using suffix_cut [of H M z "CHR ''h''" "''0m''"] M m by auto
      then have "h > 0" by (auto simp: H_def split: if_splits)
      moreover have "shortDuration d = H"
        using trim True \<open>has_suffix (H @ M @ S) ''m0s''\<close> full M0 by (simp add: shortDuration_def Let_def)
      ultimately show ?thesis using S0 M0 by simp
    qed (use trim True full S0 m in \<open>simp add: shortDuration_def Let_def\<close>)
  next
    case False
    have "\<not> has_suffix (H @ M @ S) ''h0m''"
    proof
      assume "has_suffix (H @ M @ S) ''h0m''"
      then obtain y where "H @ M @ S = y @ ''h0m''" by (rule has_suffixE)
      then have "last (H @ M @ S) = CHR ''m''" by simp
      then show False using S by (cases S) auto
    qed
    then show ?thesis using False full by (simp add: shortDuration_def Let_def)
  qed
qed

lemma hd_digits: "is_digit (hd (nat_digits n @ s))"
  using dval_nat_digits [of n] by simp

lemma durationLoop_seconds:
  assumes d: "1000000000 \<le> d" "d < 2 ^ 63"
  shows "durationLoop fl 0 (shortDuration d) = Some d"
proof -
  define s h m where "s = d div 1000000000" and "h = s div 60 div 60" and "m = s div 60 mod 60"
  define H where "H = (if h > 0 then nat_digits (nat h) @ ''h'' else [])"
  define M where "M = (if s div 60 > 0 then nat_digits (nat m) @ ''m'' else [])"
  define S where "S = nat_digits (nat (s mod 60)) @ fmtFrac d 9 False [] @ ''s''"
  have dsum: "d = h * 3600000000000 + m * 60000000000 + (s mod 60 * 10 ^ 9 + d mod 10 ^ 9)"
    by (simp add: s_def h_def m_def) presburger
  have pos: "0 \<le> h" "0 \<le> m" "0 \<le> s mod 60" "0 \<le> d mod 10 ^ 9" "0 \<le> d"
    using d(1) by (simp_all add: s_def h_def m_def)
  have notnum: "\<forall>c\<in>set ''h''. notNumber c" "\<forall>c\<in>set ''m''. notNumber c" "\<forall>c\<in>set ''s''. notNumber c"
    by (simp_all add: is_digit_def)
  have units: "unitNanos ''h'' = Some 3600000000000" "unitNanos ''m'' = Some 60000000000"
    "unitNanos ''s'' = Some (10 ^ 9)" by (simp_all add: unitNanos_def)
  define t where "t = s mod 60 * 10 ^ 9 + d mod 10 ^ 9"
  have t: "0 \<le> t" using pos by (simp add: t_def)
  have dt: "h * 3600000000000 + m * 60000000000 + t = d" using dsum by (simp add: t_def)
  have b: "t < 2 ^ 63" "m * 60000000000 < 2 ^ 63" "h * 3600000000000 < 2 ^ 63"
    "h * 3600000000000 + m * 60000000000 \<le> 2 ^ 63"
    using dt pos t d(2) by linarith+
  have LS: "durationLoop fl x S = Some (x + t)" if "x + t \<le> 2 ^ 63" for x
  proof -
    have "durationPart fl S = Some (t, [])"
      unfolding S_def t_def
      by (rule durationPart_frac [OF _ notnum(3) units(3) _ pos(3,5) b(1) [unfolded t_def]]) simp_all
    from durationLoop_part [OF this that] show ?thesis by (simp add: durationLoop_end S_def)
  qed
  have LM: "durationLoop fl x (M @ r) = durationLoop fl (x + m * 60000000000) r"
    if x: "x + m * 60000000000 \<le> 2 ^ 63" and r: "r = [] \<or> is_digit (hd r)" for x r
  proof (cases "s div 60 > 0")
    case True
    have "durationPart fl (nat_digits (nat m) @ ''m'' @ r) = Some (m * 60000000000, r)"
      by (rule durationPart_whole [OF _ notnum(2) units(2) _ r pos(2) b(2)]) simp_all
    from durationLoop_part [OF this x] show ?thesis using True by (simp add: M_def)
  next
    case False
    then have "s div 60 = 0" using d(1) by (simp add: s_def)
    then show ?thesis by (simp add: M_def m_def)
  qed
  have LH: "durationLoop fl 0 (H @ r) = durationLoop fl (h * 3600000000000) r"
    if r: "r = [] \<or> is_digit (hd r)" for r
  proof (cases "h > 0")
    case True
    have "durationPart fl (nat_digits (nat h) @ ''h'' @ r) = Some (h * 3600000000000, r)"
      by (rule durationPart_whole [OF _ notnum(1) units(1) _ r pos(1) b(3)]) simp_all
    from durationLoop_part [OF this] show ?thesis using True b(3) by (simp add: H_def)
  qed (use pos(1) in \<open>simp add: H_def\<close>)
  have hs: "is_digit (hd S)" using hd_digits by (simp add: S_def)
  have hm: "M @ r = [] \<or> is_digit (hd (M @ r))" if "r = [] \<or> is_digit (hd r)" for r
    using that hd_digits by (auto simp: M_def)
  have z: "durationLoop fl 0 ''0s'' = Some 0" "durationLoop fl 0 ''0m'' = Some 0"
    by (simp_all add: durationLoop.simps durationPart_def Let_def is_digit_def unitNanos_def)
  have t0: "t = 0" if "S = ''0s''" using LS [of 0] b(1) z(1) that by simp
  have m0: "m = 0" if "M = ''0m''" using LM [of 0 "[]"] b(2) z(2) that by (simp add: durationLoop_end)
  consider "shortDuration d = H @ M @ S" | "shortDuration d = H @ M" "S = ''0s''"
    | "shortDuration d = H" "S = ''0s''" "M = ''0m''"
    using shortDuration_seconds [OF d(1)] unfolding H_def M_def S_def m_def h_def s_def by blast
  then show ?thesis
  proof cases
    case 1
    then show ?thesis using LH [of "M @ S"] LM [of "h * 3600000000000" S] LS hs hm [of S] b dt d by simp
  next
    case 2
    then show ?thesis
      using LH [of M] LM [of "h * 3600000000000" "[]"] hm [of "[]"] b dt t0 by (simp add: durationLoop_end)
  next
    case 3
    then show ?thesis using LH [of "[]"] dt t0 m0 by (simp add: durationLoop_end)
  qed
qed

lemma shortDuration_subsecond:
  assumes "0 < d" and "d < 1000000000" and "Duration_String d = x @ a"
    and "a \<in> {''ns'', [CHR 0xB5, CHR ''s''], ''ms''}"
  shows "shortDuration d = x @ a"
proof -
  have "\<not> has_suffix (x @ a) ''m0s''" "\<not> has_suffix (x @ a) ''h0m''"
    using assms(4) by (auto elim!: has_suffixE simp: append_eq_append_conv2 append_eq_Cons_conv Cons_eq_append_conv)
  then show ?thesis using assms(3) by (simp add: shortDuration_def)
qed

lemma durationLoop_subsecond:
  assumes d: "0 < d" "d < 1000000000"
  shows "durationLoop fl 0 (shortDuration d) = Some d"
proof -
  have one: "durationLoop fl 0 s = Some d" if "durationPart fl s = Some (d, [])" "s \<noteq> []" for s
    using durationLoop_part [OF that(1), of 0] that(2) d by (simp add: durationLoop_end)
  have notnum: "\<forall>c\<in>set ''ns''. notNumber c" "\<forall>c\<in>set [CHR 0xC2, CHR 0xB5, CHR ''s'']. notNumber c"
    "\<forall>c\<in>set ''ms''. notNumber c"
    by (simp_all add: is_digit_def)
  have units: "unitNanos ''ns'' = Some (10 ^ 0)" "unitNanos [CHR 0xC2, CHR 0xB5, CHR ''s''] = Some (10 ^ 3)"
    "unitNanos ''ms'' = Some (10 ^ 6)" by (simp_all add: unitNanos_def)
  consider "d < 1000" | "1000 \<le> d" "d < 1000000" | "1000000 \<le> d" by linarith
  then show ?thesis
  proof cases
    case 1
    have "shortDuration d = nat_digits (nat d) @ ''ns''"
      using d 1 by (intro shortDuration_subsecond) (auto simp: Duration_String_def)
    moreover have "durationPart fl (nat_digits (nat d) @ ''ns'' @ []) = Some (d * 10 ^ 0, [])"
      by (rule durationPart_whole [OF _ notnum(1) units(1)]) (use d in auto)
    ultimately show ?thesis using one by simp
  next
    case 2
    have "shortDuration d = (nat_digits (nat (d div 1000)) @ fmtFrac d 3 False [] @ [CHR 0xC2]) @ [CHR 0xB5, CHR ''s'']"
      using d 2 by (intro shortDuration_subsecond) (auto simp: Duration_String_def Let_def)
    moreover have "durationPart fl (nat_digits (nat (d div 1000)) @ fmtFrac d 3 False [] @ [CHR 0xC2, CHR 0xB5, CHR ''s''])
        = Some (d div 1000 * 10 ^ 3 + d mod 10 ^ 3, [])"
      by (rule durationPart_frac [OF _ notnum(2) units(2)]) (use d in auto)
    ultimately show ?thesis using one by simp
  next
    case 3
    have "shortDuration d = (nat_digits (nat (d div 1000000)) @ fmtFrac d 6 False []) @ ''ms''"
      using d 3 by (intro shortDuration_subsecond) (auto simp: Duration_String_def Let_def)
    moreover have "durationPart fl (nat_digits (nat (d div 1000000)) @ fmtFrac d 6 False [] @ ''ms'')
        = Some (d div 1000000 * 10 ^ 6 + d mod 10 ^ 6, [])"
      by (rule durationPart_frac [OF _ notnum(3) units(3)]) (use d in auto)
    ultimately show ?thesis using one by simp
  qed
qed

lemma shortDuration_parse:
  assumes "0 < d" and "d < 2 ^ 63"
  shows "ParseDuration fl (shortDuration d) = Some d"
proof -
  have l: "durationLoop fl 0 (shortDuration d) = Some d"
    using assms durationLoop_seconds durationLoop_subsecond by (cases "d < 1000000000") auto
  have ne: "shortDuration d \<noteq> []" using l assms by (auto simp: durationLoop_end)
  then have p: "durationPart fl (shortDuration d) \<noteq> None"
    using l by (auto simp: durationLoop.simps [of fl 0 "shortDuration d"] split: option.splits)
  have "durationPart fl ''0'' = None" by (simp add: durationPart_def Let_def is_digit_def)
  with p have zero: "shortDuration d \<noteq> ''0''" by auto
  have "hd (shortDuration d) = CHR ''.'' \<or> is_digit (hd (shortDuration d))"
    using p by (auto simp: durationPart_def split: if_splits)
  then have "hd (shortDuration d) \<noteq> CHR ''-''" "hd (shortDuration d) \<noteq> CHR ''+''"
    by (auto simp: is_digit_def)
  then show ?thesis using l ne zero assms by (simp add: ParseDuration_def)
qed

text \<open>\<^verbatim>\<open>time.ParseDuration\<close> reads what \<^verbatim>\<open>shortDuration\<close> writes as the duration it was
  given, for every positive int64 number of nanoseconds: dropping whole trailing
  units loses nothing.\<close>

theorem shortDuration_reads_back:
  assumes "0 < d" and "d < 2 ^ 63"
  shows "ParseDuration fl (shortDuration d) = Some d"
  using assms by (rule shortDuration_parse)

theorem shortDuration_reads_back_witness:
  "shortDuration 5400000000000 = ''1h30m'' \<and> ParseDuration (\<lambda>_ _ _. 0) ''1h30m'' = Some 5400000000000"
proof -
  have "shortDuration 5400000000000 = ''1h30m''" by code_simp
  then show ?thesis using shortDuration_reads_back [of 5400000000000 "\<lambda>_ _ _. 0"] by simp
qed

end
