(* ===== verification/Task_Parse.thy ===== *)
theory Task_Parse
  imports Task_Render Go_Duration
begin

text \<open>
  Reading a task document: \<^verbatim>\<open>src/internal/tasks/parse.go\<close>.  The YAML package is a
  parameter (\<open>yaml_lib\<close>): what decoding a document gives, and what \<^verbatim>\<open>Decode\<close> of a
  scalar into a bool or an int gives.  The node tree it hands the code is \<open>ynode\<close>.
  A problem is its line and its message, one constructor per format string with
  the arguments it is given.  The parser's \<^verbatim>\<open>problems\<close> field only grows by appending, so
  a method returns the problems it adds; \<^verbatim>\<open>inputs\<close> and \<^verbatim>\<open>raw\<close>, which only
  \<^verbatim>\<open>inputList\<close> writes, are the record \<open>parser\<close> that the later methods read.
\<close>

section \<open>YAML nodes\<close>

datatype ykind = DocumentNode | SequenceNode | MappingNode | ScalarNode | AliasNode
datatype ystyle = TaggedStyle | DoubleQuotedStyle | SingleQuotedStyle | LiteralStyle | FoldedStyle | FlowStyle

text \<open>\<open>y_style\<close> is the list of the style bits that are set.\<close>

datatype ynode = YNode (y_kind: ykind) (y_style: "ystyle list") (y_tag: string) (y_value: string)
  (y_line: int) (y_content: "ynode list")

datatype ydecode = DecEOF | DecErr string | DecNode ynode

record yaml_lib =
  yl_first :: "string \<Rightarrow> ydecode"
  yl_second :: "string \<Rightarrow> ydecode"
  yl_bool :: "ynode \<Rightarrow> bool option"
  yl_int :: "ynode \<Rightarrow> int option"
  yl_float :: "int \<Rightarrow> nat \<Rightarrow> int \<Rightarrow> nat"

definition isNull :: "ynode \<Rightarrow> bool" where
  "isNull n = (y_kind n = ScalarNode \<and> y_tag n = ''!!null'')"

section \<open>Problems\<close>

text \<open>What a message says it is about.\<close>

datatype subject = TheTask | TheInputs | TheInput string | TheTargets | TargetsKey string
  | StepNumber nat | TheStep string | TheStepKey string string

datatype modeError = ModeLength | ModeNotOctal | ModeSpecialBits

datatype (plugins only: code) message =
    DocumentTooLarge nat | DocumentEmpty | NotYAML string | SecondDocument
  | AliasUnsupported subject | MustBeMapping subject | AppearsTwice subject string
  | UnknownKey string subject "string list" | IsRequired string subject | MustBeSingleValue subject string
  | MustBeBool subject string | NotDuration string string string | MustBeList subject | ItemSingleValue subject
  | NotNodeVariable string | NotAnInput string | RefEnclosed string | RefUnread string
  | NameBlank | BatchInvalid | StepsNotList | NoSteps | TooManySteps nat nat
  | InputNameInvalid string | InputNameTaken string | NodeKindUnknown string "string list"
  | TwoKinds string string | UnknownStepKind string "string list" | UnknownStepKey string subject "string list"
  | NoKind subject "string list" | PackageNameInvalid string | UpgradeEmpty | UpgradeInvalid
  | NeedsPackage string | SplitActions string string | PackagesNoAction | ServiceActionUnknown string "string list"
  | RunAndScript | NoRunOrScript | CommandEmpty | PathNotAbsolute string | FileModeInvalid string modeError

record problem =
  prob_line :: int
  prob_msg :: message

abbreviation addf :: "int \<Rightarrow> message \<Rightarrow> problem list" where
  "addf line msg \<equiv> [\<lparr>prob_line = line, prob_msg = msg\<rparr>]"

record parser =
  pr_inputs :: "string \<Rightarrow> bool"
  pr_raw :: "string \<Rightarrow> bool"

record entry =
  e_key :: ynode
  e_val :: ynode

type_synonym fields = "string \<rightharpoonup> entry"

section \<open>Reading values\<close>

text \<open>\<^verbatim>\<open>^[a-zA-Z0-9][a-zA-Z0-9._+\-]*$\<close> and \<^verbatim>\<open>^[A-Za-z_][A-Za-z0-9_]*$\<close>\<close>

definition is_alnum :: "char \<Rightarrow> bool" where
  "is_alnum c = (is_ident c \<and> c \<noteq> CHR ''_'')"

fun validPackageName :: "string \<Rightarrow> bool" where
  "validPackageName [] = False"
| "validPackageName (c # cs) = (is_alnum c \<and> list_all (\<lambda>x. is_alnum x \<or> x \<in> set ''._+-'') cs)"

fun validInputName :: "string \<Rightarrow> bool" where
  "validInputName [] = False"
| "validInputName (c # cs) = (is_ident_start c \<and> list_all is_ident cs)"

fun mappingEntries :: "subject \<Rightarrow> string list \<Rightarrow> ynode list \<Rightarrow> entry list \<times> problem list" where
  "mappingEntries what seen (k # v # rest) =
     (if y_value k \<in> set seen then
        (case mappingEntries what seen rest of (es, ps) \<Rightarrow>
           (es, addf (y_line k) (AppearsTwice what (y_value k)) @ ps))
      else
        (case mappingEntries what (y_value k # seen) rest of (es, ps) \<Rightarrow>
           (\<lparr>e_key = k, e_val = v\<rparr> # es, ps)))"
| "mappingEntries what seen _ = ([], [])"

definition mapping :: "ynode \<Rightarrow> subject \<Rightarrow> entry list option \<times> problem list" where
  "mapping n what =
     (if y_kind n = AliasNode then (None, addf (y_line n) (AliasUnsupported what))
      else if y_kind n \<noteq> MappingNode then (None, addf (y_line n) (MustBeMapping what))
      else (case mappingEntries what [] (y_content n) of (es, ps) \<Rightarrow> (Some es, ps)))"

fun fieldEntries :: "subject \<Rightarrow> string list \<Rightarrow> entry list \<Rightarrow> fields \<Rightarrow> fields \<times> problem list" where
  "fieldEntries what allowed [] out = (out, [])"
| "fieldEntries what allowed (e # es) out =
     (if y_value (e_key e) \<notin> set allowed then
        (case fieldEntries what allowed es out of (f, ps) \<Rightarrow>
           (f, addf (y_line (e_key e)) (UnknownKey (y_value (e_key e)) what allowed) @ ps))
      else fieldEntries what allowed es (out(y_value (e_key e) \<mapsto> e)))"

definition fields_of :: "ynode \<Rightarrow> subject \<Rightarrow> string list \<Rightarrow> fields option \<times> problem list" where
  "fields_of n what allowed =
     (case mapping n what of
        (None, ps) \<Rightarrow> (None, ps)
      | (Some es, ps) \<Rightarrow> (case fieldEntries what allowed es Map.empty of (f, qs) \<Rightarrow> (Some f, ps @ qs)))"

definition present :: "fields \<Rightarrow> string \<Rightarrow> bool" where
  "present f key = (case f key of None \<Rightarrow> False | Some e \<Rightarrow> \<not> isNull (e_val e))"

text \<open>\<^verbatim>\<open>str\<close>: the value's node, or nil; the text it returns is \<open>str_of\<close> of that.\<close>

definition str_of :: "ynode option \<Rightarrow> string" where
  "str_of v = (case v of None \<Rightarrow> [] | Some n \<Rightarrow> y_value n)"

definition str :: "fields \<Rightarrow> string \<Rightarrow> subject \<Rightarrow> bool \<Rightarrow> ynode \<Rightarrow> ynode option \<times> problem list" where
  "str f key what required parent =
     (case f key of
        None \<Rightarrow> (None, if required then addf (y_line parent) (IsRequired key what) else [])
      | Some e \<Rightarrow>
          if isNull (e_val e) then
            (None, if required then addf (y_line (e_key e)) (IsRequired key what) else [])
          else if y_kind (e_val e) \<noteq> ScalarNode then
            (None, addf (y_line (e_val e)) (MustBeSingleValue what key))
          else (Some (e_val e), []))"

definition boolean :: "yaml_lib \<Rightarrow> fields \<Rightarrow> string \<Rightarrow> subject \<Rightarrow> bool \<Rightarrow> bool \<times> problem list" where
  "boolean Y f key what def =
     (case f key of
        None \<Rightarrow> (def, [])
      | Some e \<Rightarrow>
          if isNull (e_val e) then (def, [])
          else (case (if y_kind (e_val e) \<noteq> ScalarNode then None else yl_bool Y (e_val e)) of
                  None \<Rightarrow> (def, addf (y_line (e_val e)) (MustBeBool what key))
                | Some b \<Rightarrow> (b, [])))"

definition duration_of :: "yaml_lib \<Rightarrow> fields \<Rightarrow> string \<Rightarrow> string \<Rightarrow> duration \<Rightarrow> duration \<times> problem list" where
  "duration_of Y f key what def =
     (case f key of
        None \<Rightarrow> (def, [])
      | Some e \<Rightarrow>
          if isNull (e_val e) then (def, [])
          else (case ParseDuration (yl_float Y) (y_value (e_val e)) of
                  None \<Rightarrow> (def, addf (y_line (e_val e)) (NotDuration what key (y_value (e_val e))))
                | Some d \<Rightarrow>
                    if y_kind (e_val e) \<noteq> ScalarNode \<or> d \<le> 0
                    then (def, addf (y_line (e_val e)) (NotDuration what key (y_value (e_val e))))
                    else (d, [])))"

definition list_of :: "ynode \<Rightarrow> subject \<Rightarrow> ynode list \<times> problem list" where
  "list_of n what =
     (if y_kind n \<noteq> SequenceNode then ([], addf (y_line n) (MustBeList what))
      else (y_content n,
            concat (map (\<lambda>item. if y_kind item \<noteq> ScalarNode \<or> isNull item
                                then addf (y_line item) (ItemSingleValue what) else [])
                        (y_content n))))"

definition values_of :: "ynode list \<Rightarrow> string list" where
  "values_of items = map y_value items"

definition refLine :: "ynode \<Rightarrow> nat \<Rightarrow> int" where
  "refLine v off =
     (if LiteralStyle \<in> set (y_style v)
      then y_line v + 1 + int (length (filter (\<lambda>c. c = nl) (take off (y_value v))))
      else y_line v)"

definition known :: "parser \<Rightarrow> string \<Rightarrow> bool" where
  "known p name = (pr_inputs p name \<or> name = refNodeName \<or> name = refNodeAddress)"

definition refs_in :: "parser \<Rightarrow> ynode option \<Rightarrow> problem list" where
  "refs_in p v = (case v of None \<Rightarrow> [] | Some n \<Rightarrow>
     concat (map (\<lambda>m. if known p (rm_name m) then []
                      else addf (refLine n (rm_start m))
                             (if has_prefix (rm_name m) ''node.'' then NotNodeVariable (rm_name m)
                              else NotAnInput (rm_name m)))
                 (findAllRefs (y_value n))))"

definition verdictProblem :: "ynode \<Rightarrow> shellRef \<Rightarrow> problem list" where
  "verdictProblem n r = (case sr_verdict r of
     placeWord \<Rightarrow> []
   | placeEnclosed \<Rightarrow> addf (refLine n (sr_start r)) (RefEnclosed (sr_name r))
   | placeUnread \<Rightarrow> addf (refLine n (sr_start r)) (RefUnread (sr_name r)))"

text \<open>The scan always returns (\<open>shellPlaces_total\<close>), so \<open>None\<close> does not arise.\<close>

definition shellRefs :: "parser \<Rightarrow> ynode option \<Rightarrow> problem list" where
  "shellRefs p v = (case v of None \<Rightarrow> [] | Some n \<Rightarrow>
     (case shellPlaces (y_value n) (\<lambda>name. \<not> pr_raw p name) (known p) of
        None \<Rightarrow> []
      | Some rs \<Rightarrow> concat (map (verdictProblem n) rs)))"

section \<open>Steps\<close>

definition packageNames :: "parser \<Rightarrow> ynode list \<Rightarrow> problem list" where
  "packageNames p items =
     concat (map (\<lambda>it. if hasRef (y_value it) then refs_in p (Some it)
                       else if \<not> validPackageName (y_value it)
                       then addf (y_line it) (PackageNameInvalid (y_value it)) else []) items)"

text \<open>The \<^verbatim>\<open>upgrade\<close> key: whether it is \<^verbatim>\<open>all\<close>, the names, the problems.\<close>

definition upgradeKey :: "parser \<Rightarrow> fields \<Rightarrow> string \<Rightarrow> bool \<times> string list option \<times> problem list" where
  "upgradeKey p f kind = (case f ''upgrade'' of
     None \<Rightarrow> (False, None, [])
   | Some e \<Rightarrow>
       let v = e_val e in
       if isNull v then (False, None, [])
       else if y_kind v = ScalarNode \<and> y_value v = ''all'' then (True, None, [])
       else if y_kind v = SequenceNode then
         (case list_of v (TheStepKey kind ''upgrade'') of (items, ps) \<Rightarrow>
            (False, Some (values_of items),
             ps @ (if items = [] then addf (y_line v) UpgradeEmpty else []) @ packageNames p items))
       else (False, None, addf (y_line v) UpgradeInvalid))"

definition packageKey :: "parser \<Rightarrow> fields \<Rightarrow> string \<Rightarrow> string \<Rightarrow> string list option \<times> problem list" where
  "packageKey p f kind key = (case f key of
     None \<Rightarrow> (None, [])
   | Some e \<Rightarrow>
       let v = e_val e in
       if isNull v then (None, [])
       else (case list_of v (TheStepKey kind key) of (items, ps) \<Rightarrow>
              (Some (values_of items),
               ps @ (if items = [] then addf (y_line v) (NeedsPackage key) else []) @ packageNames p items)))"

definition key_line :: "fields \<Rightarrow> string \<Rightarrow> int" where
  "key_line f key = (case f key of None \<Rightarrow> 0 | Some e \<Rightarrow> y_line (e_key e))"

definition packageActions :: "fields \<Rightarrow> ynode \<Rightarrow> bool \<Rightarrow> problem list" where
  "packageActions f n update =
     (case filter (present f) [''upgrade'', ''install'', ''remove''] of
        a # b # _ \<Rightarrow> addf (key_line f b) (SplitActions a b)
      | [] \<Rightarrow> if update then [] else addf (y_line n) PackagesNoAction
      | _ \<Rightarrow> [])"

definition packages :: "yaml_lib \<Rightarrow> parser \<Rightarrow> ynode \<Rightarrow> packages_step option \<times> problem list" where
  "packages Y p n =
     (case fields_of n (TheStep StepPackages) [''update'', ''upgrade'', ''install'', ''remove''] of
        (None, ps) \<Rightarrow> (None, ps)
      | (Some f, ps) \<Rightarrow>
          (case boolean Y f ''update'' (TheStep StepPackages) False of (upd, p1) \<Rightarrow>
          (case upgradeKey p f StepPackages of (all, upg, p2) \<Rightarrow>
          (case packageKey p f StepPackages ''install'' of (ins, p3) \<Rightarrow>
          (case packageKey p f StepPackages ''remove'' of (rem, p4) \<Rightarrow>
            (Some \<lparr>ps_update = upd, ps_upgrade_all = all, ps_upgrade = upg, ps_install = ins, ps_remove = rem\<rparr>,
             ps @ p1 @ p2 @ p3 @ p4 @ packageActions f n upd))))))"

definition service :: "parser \<Rightarrow> ynode \<Rightarrow> service_step option \<times> problem list" where
  "service p n =
     (case fields_of n (TheStep StepService) [''name'', ''action''] of
        (None, ps) \<Rightarrow> (None, ps)
      | (Some f, ps) \<Rightarrow>
          (case str f ''name'' (TheStep StepService) True n of (v, p1) \<Rightarrow>
          (case str f ''action'' (TheStep StepService) True n of (av, p2) \<Rightarrow>
            (Some \<lparr>ss_name = str_of v, ss_action = str_of av\<rparr>,
             ps @ p1 @ refs_in p v @ p2 @
             (case av of None \<Rightarrow> [] | Some a \<Rightarrow>
                if y_value a \<notin> set serviceActions
                then addf (y_line a) (ServiceActionUnknown (y_value a) serviceActions) else [])))))"

definition command_of :: "yaml_lib \<Rightarrow> parser \<Rightarrow> ynode \<Rightarrow> command_step option \<times> problem list" where
  "command_of Y p n =
     (case fields_of n (TheStep StepCommand) [''run'', ''script'', ''timeout''] of
        (None, ps) \<Rightarrow> (None, ps)
      | (Some f, ps) \<Rightarrow>
          (case str f ''run'' (TheStep StepCommand) False n of (rv, p1) \<Rightarrow>
          (case str f ''script'' (TheStep StepCommand) False n of (sv, p2) \<Rightarrow>
          (case duration_of Y f ''timeout'' ''command'' DefaultCommandTimeout of (d, p4) \<Rightarrow>
            (Some \<lparr>cs_run = str_of rv, cs_script = str_of sv, cs_timeout = d\<rparr>,
             ps @ p1 @ p2 @
             (if rv \<noteq> None \<and> sv \<noteq> None then addf (key_line f ''script'') RunAndScript
              else if rv = None \<and> sv = None then addf (y_line n) NoRunOrScript
              else if trim_space (str_of rv @ str_of sv) = [] then addf (y_line n) CommandEmpty
              else []) @
             refs_in p rv @ refs_in p sv @ shellRefs p rv @ shellRefs p sv @ p4)))))"

text \<open>\<^verbatim>\<open>strconv.ParseUint(raw, 8, 32)\<close> on at most four bytes, and the bits outside 0777.\<close>

definition is_octal :: "char \<Rightarrow> bool" where
  "is_octal c = (c \<in> set ''01234567'')"

definition octal_value :: "string \<Rightarrow> nat" where
  "octal_value s = foldl (\<lambda>v c. 8 * v + (of_char c - 48)) 0 s"

definition checkFileMode :: "string \<Rightarrow> modeError option" where
  "checkFileMode raw =
     (if raw = [] \<or> length raw > 4 then Some ModeLength
      else if \<not> list_all is_octal raw then Some ModeNotOctal
      else if octal_value raw div 512 \<noteq> 0 then Some ModeSpecialBits
      else None)"

definition is_abs :: "string \<Rightarrow> bool" where
  "is_abs p = (p \<noteq> [] \<and> hd p = CHR ''/'')"

definition file_of :: "parser \<Rightarrow> ynode \<Rightarrow> file_step option \<times> problem list" where
  "file_of p n =
     (case fields_of n (TheStep StepFile) [''path'', ''content'', ''mode'', ''owner''] of
        (None, ps) \<Rightarrow> (None, ps)
      | (Some f, ps) \<Rightarrow>
          (case str f ''path'' (TheStep StepFile) True n of (pv, p1) \<Rightarrow>
          (case str f ''content'' (TheStep StepFile) True n of (cv, p2) \<Rightarrow>
          (case str f ''mode'' (TheStep StepFile) False n of (mv, p3) \<Rightarrow>
          (case str f ''owner'' (TheStep StepFile) False n of (ov, p4) \<Rightarrow>
            (Some \<lparr>fs_path = str_of pv, fs_content = str_of cv, fs_mode = str_of mv, fs_owner = str_of ov\<rparr>,
             ps @ p1 @
             (case pv of None \<Rightarrow> [] | Some v \<Rightarrow>
                (if \<not> hasRef (y_value v) \<and> \<not> is_abs (y_value v)
                 then addf (y_line v) (PathNotAbsolute (y_value v)) else []) @ refs_in p (Some v)) @
             p2 @ refs_in p cv @ p3 @
             (case mv of None \<Rightarrow> [] | Some v \<Rightarrow>
                (case checkFileMode (y_value v) of None \<Rightarrow> []
                 | Some err \<Rightarrow> addf (y_line v) (FileModeInvalid (y_value v) err))) @
             p4 @ refs_in p ov))))))"

definition stack :: "yaml_lib \<Rightarrow> parser \<Rightarrow> ynode \<Rightarrow> stack_step option \<times> problem list" where
  "stack Y p n =
     (case fields_of n (TheStep StepStack) [''name'', ''compose'', ''up''] of
        (None, ps) \<Rightarrow> (None, ps)
      | (Some f, ps) \<Rightarrow>
          (case str f ''name'' (TheStep StepStack) True n of (v, p1) \<Rightarrow>
          (case str f ''compose'' (TheStep StepStack) True n of (cv, p2) \<Rightarrow>
          (case boolean Y f ''up'' (TheStep StepStack) False of (up, p3) \<Rightarrow>
            (Some \<lparr>st_name = str_of v, st_compose = str_of cv, st_up = up\<rparr>,
             ps @ p1 @ refs_in p v @ p2 @ refs_in p cv @ p3)))))"

definition reboot :: "yaml_lib \<Rightarrow> ynode \<Rightarrow> reboot_step option \<times> problem list" where
  "reboot Y n =
     (case fields_of n (TheStep StepReboot) [''only_if_required'', ''wait''] of
        (None, ps) \<Rightarrow> (None, ps)
      | (Some f, ps) \<Rightarrow>
          (case boolean Y f ''only_if_required'' (TheStep StepReboot) True of (b, p1) \<Rightarrow>
          (case duration_of Y f ''wait'' ''reboot'' DefaultRebootWait of (d, p2) \<Rightarrow>
            (Some \<lparr>rb_only_if_required = b, rb_wait = d\<rparr>, ps @ p1 @ p2))))"

text \<open>The entries of a step: the common keys, the first kind, the problems.\<close>

fun stepEntries :: "subject \<Rightarrow> entry list \<Rightarrow> fields \<Rightarrow> entry option \<Rightarrow> fields \<times> entry option \<times> problem list" where
  "stepEntries what [] common kind = (common, kind, [])"
| "stepEntries what (e # es) common kind =
     (let k = y_value (e_key e); line = y_line (e_key e) in
      if k = ''name'' \<or> k = ''continue_on_error'' then stepEntries what es (common(k \<mapsto> e)) kind
      else if k \<in> set stepKinds then
        (case kind of
           None \<Rightarrow> stepEntries what es common (Some e)
         | Some e0 \<Rightarrow> (case stepEntries what es common kind of (c, kd, ps) \<Rightarrow>
             (c, kd, addf line (TwoKinds (y_value (e_key e0)) k) @ ps)))
      else (case stepEntries what es common kind of (c, kd, ps) \<Rightarrow>
             (c, kd, addf line (if y_kind (e_val e) = MappingNode then UnknownStepKind k stepKinds
                                else UnknownStepKey k what stepKinds) @ ps)))"

definition emptyStep :: "string \<Rightarrow> bool \<Rightarrow> string \<Rightarrow> step" where
  "emptyStep name cont kind = \<lparr>step_name = name, step_continue_on_error = cont, step_kind = kind,
     step_packages = None, step_service = None, step_command = None, step_file = None,
     step_stack = None, step_reboot = None\<rparr>"

text \<open>The \<^verbatim>\<open>switch s.Kind\<close>: the body read into the field the kind names.\<close>

definition stepBody :: "yaml_lib \<Rightarrow> parser \<Rightarrow> ynode \<Rightarrow> step \<Rightarrow> step \<times> problem list" where
  "stepBody Y p body s =
     (if step_kind s = StepPackages then (case packages Y p body of (b, ps) \<Rightarrow> (s\<lparr>step_packages := b\<rparr>, ps))
      else if step_kind s = StepService then (case service p body of (b, ps) \<Rightarrow> (s\<lparr>step_service := b\<rparr>, ps))
      else if step_kind s = StepCommand then (case command_of Y p body of (b, ps) \<Rightarrow> (s\<lparr>step_command := b\<rparr>, ps))
      else if step_kind s = StepFile then (case file_of p body of (b, ps) \<Rightarrow> (s\<lparr>step_file := b\<rparr>, ps))
      else if step_kind s = StepStack then (case stack Y p body of (b, ps) \<Rightarrow> (s\<lparr>step_stack := b\<rparr>, ps))
      else if step_kind s = StepReboot then (case reboot Y body of (b, ps) \<Rightarrow> (s\<lparr>step_reboot := b\<rparr>, ps))
      else (s, []))"

definition step_of :: "yaml_lib \<Rightarrow> parser \<Rightarrow> ynode \<Rightarrow> nat \<Rightarrow> step option \<times> problem list" where
  "step_of Y p n index =
     (let what = StepNumber (index + 1) in
      case mapping n what of
        (None, ps) \<Rightarrow> (None, ps)
      | (Some entries, ps) \<Rightarrow>
          (case stepEntries what entries Map.empty None of (common, kind, p1) \<Rightarrow>
          (case str common ''name'' what False n of (nv, p2) \<Rightarrow>
          (case boolean Y common ''continue_on_error'' what False of (cont, p3) \<Rightarrow>
          (case kind of
             None \<Rightarrow> (None, ps @ p1 @ p2 @ p3 @
               (if list_ex (\<lambda>e. common (y_value (e_key e)) = None) entries then []
                else addf (y_line n) (NoKind what stepKinds)))
           | Some e \<Rightarrow>
               let body = (if isNull (e_val e) then YNode MappingNode [] [] [] (y_line (e_key e)) [] else e_val e)
               in (case stepBody Y p body (emptyStep (str_of nv) cont (y_value (e_key e))) of (s, p4) \<Rightarrow>
                    (Some s, ps @ p1 @ p2 @ p3 @ p4)))))))"

section \<open>The task\<close>

text \<open>Reads one input's keys.\<close>

definition inputBody :: "yaml_lib \<Rightarrow> string \<Rightarrow> ynode \<Rightarrow> input option \<times> problem list" where
  "inputBody Y name v =
     (let what = TheInput name in
      case fields_of v what [''label'', ''default'', ''required'', ''raw''] of
        (None, ps) \<Rightarrow> (None, ps)
      | (Some f, ps) \<Rightarrow>
          (case str f ''label'' what False v of (lv, p1) \<Rightarrow>
          (case str f ''default'' what False v of (dv, p2) \<Rightarrow>
          (case boolean Y f ''required'' what False of (rq, p3) \<Rightarrow>
          (case boolean Y f ''raw'' what False of (rw, p4) \<Rightarrow>
            (Some \<lparr>input_name = name, input_label = str_of lv, input_default = str_of dv,
                   input_required = rq, input_raw = rw\<rparr>, ps @ p1 @ p2 @ p3 @ p4))))))"

fun inputEntries :: "yaml_lib \<Rightarrow> entry list \<Rightarrow> parser \<Rightarrow> input list \<times> parser \<times> problem list" where
  "inputEntries Y [] p = ([], p, [])"
| "inputEntries Y (e # es) p =
     (let name = y_value (e_key e); line = y_line (e_key e) in
      if \<not> validInputName name then
        (case inputEntries Y es p of (ins, q, ps) \<Rightarrow> (ins, q, addf line (InputNameInvalid name) @ ps))
      else if name = ''node'' then
        (case inputEntries Y es p of (ins, q, ps) \<Rightarrow> (ins, q, addf line (InputNameTaken name) @ ps))
      else
        (let p1 = p\<lparr>pr_inputs := (pr_inputs p)(name := True)\<rparr> in
         if isNull (e_val e) then
           (case inputEntries Y es p1 of (ins, q, ps) \<Rightarrow>
              (\<lparr>input_name = name, input_label = [], input_default = [], input_required = False,
                input_raw = False\<rparr> # ins, q, ps))
         else (case inputBody Y name (e_val e) of
             (None, b) \<Rightarrow> (case inputEntries Y es p1 of (ins, q, ps) \<Rightarrow> (ins, q, b @ ps))
           | (Some i, b) \<Rightarrow>
               (case inputEntries Y es (p1\<lparr>pr_raw := (pr_raw p1)(name := input_raw i)\<rparr>) of
                  (ins, q, ps) \<Rightarrow> (i # ins, q, b @ ps)))))"

definition inputList :: "yaml_lib \<Rightarrow> ynode \<Rightarrow> parser \<Rightarrow> input list \<times> parser \<times> problem list" where
  "inputList Y n p = (case mapping n TheInputs of
     (None, ps) \<Rightarrow> ([], p, ps)
   | (Some es, ps) \<Rightarrow> (case inputEntries Y es p of (ins, q, qs) \<Rightarrow> (ins, q, ps @ qs)))"

definition emptyTargets :: targets where
  "emptyTargets = \<lparr>tgt_groups = None, tgt_kinds = None, tgt_nodes = None\<rparr>"

definition readNames :: "fields \<Rightarrow> string \<Rightarrow> string list option \<times> problem list" where
  "readNames f key = (case f key of
     None \<Rightarrow> (None, [])
   | Some e \<Rightarrow> if isNull (e_val e) then (None, [])
       else (case list_of (e_val e) (TargetsKey key) of (items, ps) \<Rightarrow> (Some (values_of items), ps)))"

definition readKinds :: "fields \<Rightarrow> string list option \<times> problem list" where
  "readKinds f = (case f ''kinds'' of
     None \<Rightarrow> (None, [])
   | Some e \<Rightarrow> if isNull (e_val e) then (None, [])
       else (case list_of (e_val e) (TargetsKey ''kinds'') of (items, ps) \<Rightarrow>
              (Some (values_of items),
               ps @ concat (map (\<lambda>it. if y_value it \<notin> set nodeKinds
                                      then addf (y_line it) (NodeKindUnknown (y_value it) nodeKinds) else []) items))))"

definition targets_of :: "ynode \<Rightarrow> targets \<times> problem list" where
  "targets_of n = (case fields_of n TheTargets [''groups'', ''kinds'', ''nodes''] of
     (None, ps) \<Rightarrow> (emptyTargets, ps)
   | (Some f, ps) \<Rightarrow>
       (case readNames f ''groups'' of (g, p1) \<Rightarrow>
       (case readNames f ''nodes'' of (ns, p2) \<Rightarrow>
       (case readKinds f of (k, p3) \<Rightarrow>
         (\<lparr>tgt_groups = g, tgt_kinds = k, tgt_nodes = ns\<rparr>, ps @ p1 @ p2 @ p3)))))"

fun stepList :: "yaml_lib \<Rightarrow> parser \<Rightarrow> ynode list \<Rightarrow> nat \<Rightarrow> step list \<times> problem list" where
  "stepList Y p [] i = ([], [])"
| "stepList Y p (n # ns) i =
     (case step_of Y p n i of (s, ps) \<Rightarrow>
        (case stepList Y p ns (i + 1) of (ss, qs) \<Rightarrow>
           ((case s of None \<Rightarrow> ss | Some x \<Rightarrow> x # ss), ps @ qs)))"

definition batch_of :: "yaml_lib \<Rightarrow> fields \<Rightarrow> int \<times> problem list" where
  "batch_of Y f = (case f ''batch'' of
     None \<Rightarrow> (1, [])
   | Some e \<Rightarrow> if isNull (e_val e) then (1, [])
       else (case (if y_kind (e_val e) \<noteq> ScalarNode then None else yl_int Y (e_val e)) of
               None \<Rightarrow> (1, addf (y_line (e_val e)) BatchInvalid)
             | Some b \<Rightarrow> if b < 1 then (1, addf (y_line (e_val e)) BatchInvalid) else (b, [])))"

definition steps_of :: "yaml_lib \<Rightarrow> parser \<Rightarrow> fields \<Rightarrow> ynode \<Rightarrow> step list \<times> problem list" where
  "steps_of Y p f doc = (case f ''steps'' of
     None \<Rightarrow> ([], addf (y_line doc) (IsRequired ''steps'' TheTask))
   | Some e \<Rightarrow>
       if isNull (e_val e) then ([], addf (y_line (e_key e)) (IsRequired ''steps'' TheTask))
       else if y_kind (e_val e) \<noteq> SequenceNode then ([], addf (y_line (e_val e)) StepsNotList)
       else
         (let ns = y_content (e_val e) in
          case stepList Y p ns 0 of (ss, ps) \<Rightarrow>
            (ss, (if ns = [] then addf (y_line (e_key e)) NoSteps else []) @
                 (if length ns > MaxSteps then addf (y_line (e_key e)) (TooManySteps (length ns) MaxSteps) else []) @ ps)))"

definition newParser :: parser where
  "newParser = \<lparr>pr_inputs = (\<lambda>_. False), pr_raw = (\<lambda>_. False)\<rparr>"

definition docRoot :: "ynode \<Rightarrow> ynode" where
  "docRoot root = (if y_kind root = DocumentNode then (case y_content root of [n] \<Rightarrow> n | _ \<Rightarrow> root) else root)"

definition taskKeys :: "string list" where
  "taskKeys = [''name'', ''description'', ''inputs'', ''targets'', ''batch'', ''stop_on_failure'', ''steps'']"

definition task_of :: "yaml_lib \<Rightarrow> ynode \<Rightarrow> task option \<times> problem list" where
  "task_of Y root =
     (let doc = docRoot root in
      case fields_of doc TheTask taskKeys of
        (None, ps) \<Rightarrow> (None, ps)
      | (Some f, ps) \<Rightarrow>
          (case str f ''name'' TheTask True doc of (nv, p1) \<Rightarrow>
          (case str f ''description'' TheTask False doc of (dv, p2) \<Rightarrow>
          (case (if present f ''inputs'' then inputList Y (e_val (the (f ''inputs''))) newParser
                 else ([], newParser, [])) of (ins, p, p3) \<Rightarrow>
          (case (if present f ''targets'' then targets_of (e_val (the (f ''targets'')))
                 else (emptyTargets, [])) of (tg, p4) \<Rightarrow>
          (case batch_of Y f of (b, p5) \<Rightarrow>
          (case boolean Y f ''stop_on_failure'' TheTask True of (sof, p6) \<Rightarrow>
          (case steps_of Y p f doc of (ss, p7) \<Rightarrow>
            (Some \<lparr>task_name = str_of nv, task_description = str_of dv, task_inputs = ins, task_targets = tg,
                   task_batch = b, task_stop_on_failure = sof, task_steps = ss\<rparr>,
             ps @ p1 @
             (case nv of None \<Rightarrow> [] | Some v \<Rightarrow>
                if trim_space (y_value v) = [] then addf (y_line v) NameBlank else []) @
             p2 @ p3 @ p4 @ p5 @ p6 @ p7)))))))))"

section \<open>Parse\<close>

text \<open>The first \<^verbatim>\<open>line (\d+)\<close> of a message.\<close>

fun yamlLine :: "string \<Rightarrow> string option" where
  "yamlLine [] = None"
| "yamlLine (c # cs) =
     (let ds = takeWhile is_digit (drop 5 (c # cs)) in
      if has_prefix (c # cs) ''line '' \<and> ds \<noteq> [] then Some ds else yamlLine cs)"

definition syntaxProblem :: "string \<Rightarrow> problem" where
  "syntaxProblem err =
     (let msg = trim_prefix err ''yaml: '';
          line = (case yamlLine msg of
                    None \<Rightarrow> 1
                  | Some ds \<Rightarrow> if dval 0 ds < 2 ^ 63 then dval 0 ds else 1)
      in \<lparr>prob_line = line, prob_msg = NotYAML msg\<rparr>)"

definition Parse :: "yaml_lib \<Rightarrow> string \<Rightarrow> task option \<times> problem list" where
  "Parse Y doc =
     (if length doc > MaxDocumentBytes then (None, addf 0 (DocumentTooLarge (length doc)))
      else (case yl_first Y doc of
        DecEOF \<Rightarrow> (None, addf 1 DocumentEmpty)
      | DecErr err \<Rightarrow> (None, [syntaxProblem err])
      | DecNode root \<Rightarrow>
          (case yl_second Y doc of
             DecErr err \<Rightarrow> (None, [syntaxProblem err])
           | DecNode extra \<Rightarrow> (None, addf (y_line extra) SecondDocument)
           | DecEOF \<Rightarrow>
               (case task_of Y root of (t, ps) \<Rightarrow>
                  if ps \<noteq> [] then (None, sort_key prob_line ps) else (t, [])))))"

end
