(* ===== verification/Shell_Safety.thy ===== *)
theory Shell_Safety
  imports Task_Render
begin

text \<open>
  Why a quoted reference cannot change what the shell reads.  \<open>shLex\<close> is a
  reference reading of POSIX quoting (XCU 2.2 and 2.3), written without regard to
  the scanner of \<^verbatim>\<open>shellpos.go\<close>: it splits a text into words and operators, and
  tells for every character of a word whether it was quoted, that is, stands for
  itself.  A \<open>Val v\<close> is a value given as such: as quoted characters of the word it
  stands in.  The theorem is that the text \<^verbatim>\<open>Render\<close> makes from a command with
  accepted references reads exactly as the command with the values given as such.
  It covers texts of plain words, operators, quotes, escapes and plain
  \<^verbatim>\<open>$\<close> expansions (\<open>plainShell\<close>): no substitution, subshell, heredoc or comment.
\<close>

section \<open>A reference reading of shell quoting\<close>

datatype quoting = QPlain | QSingle | QDouble
datatype sym = Ch char | Val string
type_synonym wchar = "char \<times> bool"
datatype token = Word "wchar list" | Op char

definition finishWord :: "wchar list option \<Rightarrow> token list" where
  "finishWord cur = (case cur of None \<Rightarrow> [] | Some w \<Rightarrow> [Word w])"

definition ext :: "wchar list option \<Rightarrow> wchar list \<Rightarrow> wchar list option" where
  "ext cur cs = Some ((case cur of None \<Rightarrow> [] | Some w \<Rightarrow> w) @ cs)"

abbreviation literal :: "string \<Rightarrow> wchar list" where
  "literal v \<equiv> map (\<lambda>c. (c, True)) v"

fun shLex :: "quoting \<Rightarrow> wchar list option \<Rightarrow> sym list \<Rightarrow> token list" where
  "shLex q cur [] = finishWord cur"
| "shLex q cur (Val v # xs) = shLex q (ext cur (literal v)) xs"
| "shLex QPlain cur (Ch c # xs) =
     (if c = squote then shLex QSingle (ext cur []) xs
      else if c = dquote then shLex QDouble (ext cur []) xs
      else if c = bslash then
        (case xs of
           Ch d # ys \<Rightarrow> if d = nl then shLex QPlain cur ys else shLex QPlain (ext cur [(d, True)]) ys
         | _ \<Rightarrow> shLex QPlain (ext cur [(bslash, True)]) xs)
      else if isShellBlank c then finishWord cur @ shLex QPlain None xs
      else if isShellBreak c then finishWord cur @ Op c # shLex QPlain None xs
      else shLex QPlain (ext cur [(c, False)]) xs)"
| "shLex QSingle cur (Ch c # xs) =
     (if c = squote then shLex QPlain cur xs else shLex QSingle (ext cur [(c, True)]) xs)"
| "shLex QDouble cur (Ch c # xs) =
     (if c = dquote then shLex QPlain cur xs
      else if c = bslash then
        (case xs of
           Ch d # ys \<Rightarrow>
             if d = nl then shLex QDouble cur ys
             else if d \<in> {CHR ''$'', btick, dquote, bslash} then shLex QDouble (ext cur [(d, True)]) ys
             else shLex QDouble (ext cur [(bslash, True), (d, True)]) ys
         | _ \<Rightarrow> shLex QDouble (ext cur [(bslash, True)]) xs)
      else shLex QDouble (ext cur [(c, c \<noteq> CHR ''$'')]) xs)"

definition shellWords :: "string \<Rightarrow> token list" where
  "shellWords s = shLex QPlain None (map Ch s)"

lemma ext_ext [simp]: "ext (ext cur a) b = ext cur (a @ b)"
  by (simp add: ext_def)

section \<open>A quoted value is one word, with every character standing for itself\<close>

lemma shLex_in_quotes:
  "shLex QSingle cur (map Ch (concat (map (\<lambda>c. if c = squote then [squote, bslash, squote, squote] else [c]) v)
      @ [squote]) @ xs) = shLex QPlain (ext (ext cur []) (literal v)) xs" if "cur \<noteq> None"
  using that
proof (induction v arbitrary: cur)
  case Nil
  then show ?case by (auto simp: ext_def)
next
  case (Cons c v)
  from Cons.prems have "ext cur [] = cur" by (auto simp: ext_def)
  with Cons.IH [of "ext cur [(c, True)]"] show ?case by (auto simp: ext_def)
qed

lemma shLex_ShellQuote: "shLex QPlain cur (map Ch (ShellQuote v) @ xs) = shLex QPlain cur (Val v # xs)"
  using shLex_in_quotes [of "ext cur []" v xs] by (simp add: ShellQuote_def ext_def)

text \<open>\<^verbatim>\<open>ShellQuote\<close> makes any value one shell word, and the word's characters are the
  value's, each quoted: nothing in the value is special to the shell.\<close>

theorem ShellQuote_one_word: "shellWords (ShellQuote v) = [Word (literal v)]"
  using shLex_ShellQuote [of None v "[]"]
  by (simp add: shellWords_def finishWord_def ext_def)

section \<open>References where a word goes\<close>

text \<open>Every reference is met outside quotes and not right after a backslash.\<close>

fun wordPlaced :: "quoting \<Rightarrow> segment list \<Rightarrow> bool" where
  "wordPlaced q [] = True"
| "wordPlaced q (Ref n t # xs) = (q = QPlain \<and> wordPlaced q xs)"
| "wordPlaced QPlain (Lit c # xs) =
     (if c = squote then wordPlaced QSingle xs
      else if c = dquote then wordPlaced QDouble xs
      else if c = bslash then
        (case xs of [] \<Rightarrow> True | Lit d # ys \<Rightarrow> wordPlaced QPlain ys | Ref n t # ys \<Rightarrow> False)
      else wordPlaced QPlain xs)"
| "wordPlaced QSingle (Lit c # xs) = wordPlaced (if c = squote then QPlain else QSingle) xs"
| "wordPlaced QDouble (Lit c # xs) =
     (if c = dquote then wordPlaced QPlain xs
      else if c = bslash then
        (case xs of [] \<Rightarrow> True | Lit d # ys \<Rightarrow> wordPlaced QDouble ys | Ref n t # ys \<Rightarrow> False)
      else wordPlaced QDouble xs)"

text \<open>The command with its references replaced by their values, given as such.\<close>

fun withValues :: "(string \<Rightarrow> string) \<Rightarrow> segment list \<Rightarrow> sym list" where
  "withValues val [] = []"
| "withValues val (Lit c # xs) = Ch c # withValues val xs"
| "withValues val (Ref n t # xs) = Val (val n) # withValues val xs"

fun quoteRefs :: "(string \<Rightarrow> string) \<Rightarrow> segment \<Rightarrow> string" where
  "quoteRefs val (Lit c) = [c]"
| "quoteRefs val (Ref n t) = ShellQuote (val n)"

lemma shLex_withValues:
  "wordPlaced q xs \<Longrightarrow>
   shLex q cur (map Ch (concat (map (quoteRefs val) xs))) = shLex q cur (withValues val xs)"
proof (induction q xs arbitrary: cur rule: wordPlaced.induct)
  case (2 q n t xs)
  then show ?case by (auto simp: shLex_ShellQuote)
next
  case (3 c xs)
  show ?case
  proof (cases "c = bslash")
    case True
    show ?thesis
    proof (cases xs)
      case (Cons x ys)
      then obtain d where "xs = Lit d # ys" using 3 True by (cases x) auto
      then show ?thesis using 3 True by simp
    qed (use True in simp)
  qed (use 3 in simp)
next
  case (5 c xs)
  show ?case
  proof (cases "c = bslash")
    case True
    show ?thesis
    proof (cases xs)
      case (Cons x ys)
      then obtain d where "xs = Lit d # ys" using 5 True by (cases x) auto
      then show ?thesis using 5 True by simp
    qed (use True in simp)
  qed (use 5 in simp)
qed auto

section \<open>The scanner accepts only such references\<close>

text \<open>The texts covered: no comment, redirection from \<^verbatim>\<open><\<close>, subshell or backquote, and
  every \<^verbatim>\<open>$\<close> starts a plain parameter name.\<close>

fun plainShell :: "segment list \<Rightarrow> bool" where
  "plainShell [] = True"
| "plainShell (Ref n t # xs) = plainShell xs"
| "plainShell (Lit c # xs) =
     (c \<notin> set ''#<('' \<and> c \<noteq> btick \<and>
      (c = CHR ''$'' \<longrightarrow> (case xs of Lit d # ys \<Rightarrow> d \<notin> {CHR ''{'', CHR ''['', squote} | _ \<Rightarrow> True)) \<and>
      plainShell xs)"

fun refEnds :: "nat \<Rightarrow> segment list \<Rightarrow> (nat \<rightharpoonup> nat)" where
  "refEnds i [] = Map.empty"
| "refEnds i (Lit c # xs) = refEnds (Suc i) xs"
| "refEnds i (Ref n t # xs) = (refEnds (i + length t) xs)(i \<mapsto> i + length t)"

text \<open>The scanner stands at offset \<open>i\<close> of \<open>s\<close>, at the start of the segments \<open>xs\<close>.\<close>

definition aligned :: "string \<Rightarrow> refs \<Rightarrow> nat \<Rightarrow> segment list \<Rightarrow> bool" where
  "aligned s R i xs \<longleftrightarrow> i \<le> length s \<and> drop i s = concat (map seg_text xs) \<and>
     (\<forall>x\<in>set xs. seg_ok x) \<and> (\<forall>j\<ge>i. map_option sr_end (R j) = refEnds i xs j) \<and>
     (\<forall>j r. R j = Some r \<longrightarrow> sr_judged r)"

lemma refEnds_below: "j < i \<Longrightarrow> refEnds i xs j = None"
  by (induction i xs rule: refEnds.induct) auto

lemma refEnds_Cons_Lit [simp]: "refEnds i (Lit c # xs) i = None"
  by (simp add: refEnds_below)

lemma aligned_Nil: "aligned s R i [] \<Longrightarrow> i = length s"
  by (simp add: aligned_def)

lemma aligned_Lit:
  assumes "aligned s R i (Lit c # xs)"
  shows "i < length s" and "s ! i = c" and "R i = None" and "aligned s R (Suc i) xs"
proof -
  have d: "drop i s = c # concat (map seg_text xs)" using assms by (simp add: aligned_def)
  then show i: "i < length s" by (metis drop_eq_Nil leI list.distinct(1))
  show "s ! i = c" using d i by (metis Cons_nth_drop_Suc list.inject)
  have "map_option sr_end (R i) = None" using assms by (simp add: aligned_def refEnds_below)
  then show "R i = None" by simp
  have "drop (Suc i) s = concat (map seg_text xs)" using d by (metis drop_Suc list.sel(3) tl_drop)
  then show "aligned s R (Suc i) xs" using assms i by (simp add: aligned_def)
qed

lemma aligned_Ref:
  assumes "aligned s R i (Ref n t # xs)"
  obtains r where "R i = Some r" and "sr_judged r" and "sr_end r = i + length t"
    and "aligned s R (i + length t) xs" and "i < length s" and "s ! i = CHR ''{''" and "i + 1 < length s"
proof -
  have d: "drop i s = t @ concat (map seg_text xs)" and t: "5 \<le> length t" "hd t = CHR ''{''"
    using assms by (simp_all add: aligned_def)
  have len: "length s - i = length t + length (concat (map seg_text xs))"
    using arg_cong [OF d, of length] by simp
  then have i: "i + 5 \<le> length s" using t by linarith
  have "map_option sr_end (R i) = Some (i + length t)" using assms by (simp add: aligned_def)
  then obtain r where r: "R i = Some r" "sr_end r = i + length t" by auto
  have "s ! i = hd (drop i s)" using i by (simp add: hd_drop_conv_nth)
  then have c: "s ! i = CHR ''{''" using d t by (cases t) auto
  have ref: "map_option sr_end (R j) = refEnds (i + length t) xs j" if "i + length t \<le> j" for j
  proof -
    have "map_option sr_end (R j) = refEnds i (Ref n t # xs) j"
      using assms that by (simp add: aligned_def del: refEnds.simps)
    then show ?thesis using that t by simp
  qed
  have "drop (i + length t) s = drop (length t) (drop i s)" by (simp add: add.commute)
  then have "drop (i + length t) s = concat (map seg_text xs)" using d by simp
  then have al: "aligned s R (i + length t) xs"
    using assms ref len i unfolding aligned_def by auto
  have "sr_judged r" using assms r by (simp add: aligned_def)
  then show thesis using that r al i c by simp
qed

text \<open>All references from \<open>i\<close> on ended up accepted.\<close>

definition allWord :: "scan \<Rightarrow> nat \<Rightarrow> segment list \<Rightarrow> bool" where
  "allWord st i xs \<longleftrightarrow> (\<forall>j. refEnds i xs j \<noteq> None \<longrightarrow> sc_verdict st j = placeWord)"

lemma allWord_Lit: "allWord st i (Lit c # xs) \<Longrightarrow> allWord st (Suc i) xs"
  by (simp add: allWord_def)

lemma allWord_Ref:
  assumes "allWord st i (Ref n t # xs)"
  shows "sc_verdict st i = placeWord" and "allWord st (i + length t) xs"
proof -
  show "sc_verdict st i = placeWord" using assms by (simp add: allWord_def)
  show "allWord st (i + length t) xs"
    unfolding allWord_def
  proof (intro allI impI)
    fix j assume j: "refEnds (i + length t) xs j \<noteq> None"
    then have "refEnds i (Ref n t # xs) j \<noteq> None" by simp
    then show "sc_verdict st j = placeWord" using assms by (simp add: allWord_def del: refEnds.simps)
  qed
qed

text \<open>A quoted string scanned from \<open>i\<close> either shows that a reference in it is not
  accepted, whatever follows, or holds none, and the scan goes on right after it.\<close>

definition quoteRefused :: "string \<Rightarrow> scan \<Rightarrow> nat \<Rightarrow> nat \<Rightarrow> segment list \<Rightarrow> bool" where
  "quoteRefused s st i j xs \<longleftrightarrow>
     (\<exists>k<length s. i \<le> k \<and> k < j \<and> refEnds i xs k \<noteq> None \<and> sc_verdict st k \<noteq> placeWord)"

definition quoteLeft :: "quoting \<Rightarrow> string \<Rightarrow> refs \<Rightarrow> nat \<Rightarrow> segment list \<Rightarrow> nat \<Rightarrow> segment list \<Rightarrow> bool" where
  "quoteLeft q s R i xs j ys \<longleftrightarrow> i \<le> j \<and> aligned s R j ys \<and> (plainShell xs \<longrightarrow> plainShell ys) \<and>
     (\<forall>k. refEnds j ys k \<noteq> None \<longrightarrow> refEnds i xs k \<noteq> None) \<and> (wordPlaced QPlain ys \<longrightarrow> wordPlaced q xs)"

definition quoteScan :: "quoting \<Rightarrow> string \<Rightarrow> refs \<Rightarrow> scan \<Rightarrow> nat \<Rightarrow> segment list \<Rightarrow> scanned \<Rightarrow> bool" where
  "quoteScan q s R st i xs r \<longleftrightarrow> (\<exists>st' j. r = Some (st', j) \<and>
     (quoteRefused s st' i j xs \<or> (st' = st \<and> (\<exists>ys. quoteLeft q s R i xs j ys))))"

lemma quoteScan_left: "quoteLeft q s R i xs j ys \<Longrightarrow> quoteScan q s R st i xs (Some (st, j))"
  by (auto simp: quoteScan_def)

lemma quoteScan_shift:
  assumes "quoteScan q s R st i' xs' r" and "i \<le> i'"
    and "\<And>k. refEnds i' xs' k \<noteq> None \<Longrightarrow> refEnds i xs k \<noteq> None"
    and "plainShell xs \<Longrightarrow> plainShell xs'" and "wordPlaced q xs' \<Longrightarrow> wordPlaced q xs"
  shows "quoteScan q s R st i xs r"
proof -
  obtain st' j where r: "r = Some (st', j)"
    and c: "quoteRefused s st' i' j xs' \<or> (st' = st \<and> (\<exists>ys. quoteLeft q s R i' xs' j ys))"
    using assms(1) by (auto simp: quoteScan_def)
  from c have "quoteRefused s st' i j xs \<or> (st' = st \<and> (\<exists>ys. quoteLeft q s R i xs j ys))"
  proof
    assume "quoteRefused s st' i' j xs'"
    then have "quoteRefused s st' i j xs"
      unfolding quoteRefused_def using assms(2,3) by (metis order_trans)
    then show ?thesis ..
  next
    assume "st' = st \<and> (\<exists>ys. quoteLeft q s R i' xs' j ys)"
    then have "st' = st \<and> (\<exists>ys. quoteLeft q s R i xs j ys)"
      unfolding quoteLeft_def using assms(2-5) by (meson order_trans)
    then show ?thesis ..
  qed
  then show ?thesis using r by (auto simp: quoteScan_def)
qed

text \<open>A reference the scan has passed without accepting it stays so.\<close>

lemma quoteScan_refused:
  assumes "returns s e st' r" and "i \<le> k" and "k < e" and "k < length s" and "refEnds i xs k \<noteq> None"
    and "sc_verdict st' k \<noteq> placeWord"
  shows "quoteScan q s R st i xs r"
  using assms(1)
proof (rule returnsE)
  fix st2 j assume r: "r = Some (st2, j)" and j: "min e (length s) \<le> j" and k: "keeps s e st' st2"
  have "sc_verdict st2 k \<noteq> placeWord" using keepsD [OF k assms(3,4)] assms(6) by simp
  moreover have "k < j" using j assms(3,4) by linarith
  ultimately have "quoteRefused s st2 i j xs" using assms by (auto simp: quoteRefused_def)
  then show ?thesis using r by (auto simp: quoteScan_def)
qed

lemma single_aligned:
  assumes wf: "refs_wf R" and "aligned s R i xs" and "length s - i < f" and "\<not> sc_lost st"
  shows "quoteScan QSingle s R st i xs (single s R f st i)"
  using assms(2-4)
proof (induction xs arbitrary: i f)
  case Nil
  then have "i = length s" by (simp add: aligned_Nil)
  moreover from this have "quoteLeft QSingle s R i [] i []" using Nil by (simp add: quoteLeft_def)
  ultimately show ?case using Nil by (cases f) (auto intro: quoteScan_left)
next
  case (Cons x xs)
  obtain f' where f: "f = Suc f'" using Cons.prems by (cases f) auto
  show ?case
  proof (cases x)
    case (Lit c)
    note a = aligned_Lit [OF Cons.prems(1) [unfolded Lit]]
    have none: "sc_ref R st i placeEnclosed = None" using a by (simp add: sc_ref_def)
    show ?thesis
    proof (cases "c = squote")
      case True
      have "quoteLeft QSingle s R i (x # xs) (Suc i) xs" using a Lit True by (simp add: quoteLeft_def)
      then show ?thesis using a f none True by (simp add: quoteScan_left)
    next
      case False
      have "length s - Suc i < f'" using Cons.prems f a by linarith
      from Cons.IH [OF a(4) this Cons.prems(3)]
      have "quoteScan QSingle s R st i (x # xs) (single s R f' st (Suc i))"
        by (rule quoteScan_shift) (use Lit False in auto)
      then show ?thesis using a f none False by simp
    qed
  next
    case (Ref n t)
    from Cons.prems(1) [unfolded Ref] obtain r where r: "R i = Some r" "sr_judged r" "sr_end r = i + length t"
      and i: "i < length s" by (rule aligned_Ref)
    have t: "length t > 0" using Cons.prems(1) Ref by (auto simp: aligned_def)
    define st1 where "st1 = st\<lparr>sc_verdict := (sc_verdict st)(i := placeEnclosed)\<rparr>"
    have sr: "sc_ref R st i placeEnclosed = Some (st1, i + length t)"
      using r Cons.prems by (simp add: sc_ref_def st1_def)
    have "length s - (i + length t) < f'" using Cons.prems f i t by linarith
    then have "returns s (i + length t) st1 (single s R f' st1 (i + length t))"
      by (rule single_returns [OF wf])
    then have "quoteScan QSingle s R st i (x # xs) (single s R f' st1 (i + length t))"
      by (rule quoteScan_refused [where k = i]) (use i t Ref in \<open>auto simp: st1_def\<close>)
    then show ?thesis using sr f i by simp
  qed
qed

lemma dollar_prefix: "has_prefix (drop i s) ''$(('' \<Longrightarrow> i + 1 < length s \<and> s ! (i + 1) = CHR ''(''"
  by (auto simp: has_prefix_iff dest!: arg_cong [where f = "\<lambda>l. (length l, l ! 1)"])

lemma dollar_plain:
  assumes "aligned s R i (Lit (CHR ''$'') # xs)" and "plainShell (Lit (CHR ''$'') # xs)"
    and "\<And>n t ys. xs \<noteq> Ref n t # ys"
  shows "dollar s R (Suc f) st i q d = Some (st, i + 1)"
proof -
  note a = aligned_Lit [OF assms(1)]
  have nx: "(if i + 1 < length s then s ! (i + 1) else CHR 0x00) \<notin> {CHR ''('', CHR ''{'', CHR ''['', squote}
      \<and> R (i + 1) = None"
  proof (cases xs)
    case Nil
    then have "Suc i = length s" and "R (Suc i) = None" using a(4) by (auto simp: aligned_def)
    then show ?thesis by simp
  next
    case (Cons x ys)
    then obtain e where e: "xs = Lit e # ys" using assms(3) by (cases x) auto
    note b = aligned_Lit [OF a(4) [unfolded e]]
    then show ?thesis using assms(2) e by simp
  qed
  then have "\<not> has_prefix (drop i s) ''$((''" using dollar_prefix [of i s] by auto
  with nx show ?thesis by (auto simp: Let_def split: if_splits)
qed

lemma dollar_ref:
  assumes "aligned s R i (Lit (CHR ''$'') # Ref n t # ys)"
  shows "dollar s R (Suc f) st i q d = param s R f st (i + 2) d"
proof -
  from aligned_Lit(4) [OF assms] have "s ! Suc i = CHR ''{''" "Suc i < length s"
    by (auto elim: aligned_Ref)
  moreover from this have "\<not> has_prefix (drop i s) ''$((''" using dollar_prefix [of i s] by auto
  ultimately show ?thesis by (simp add: Let_def)
qed

text \<open>What follows a reference right after \<^verbatim>\<open>$\<close> never judges that reference.\<close>

lemma dollar_ref_returns:
  assumes wf: "refs_wf R" and al: "aligned s R i (Lit (CHR ''$'') # Ref n t # ys)"
    and fuel: "2 * (length s - i) + 2 \<le> Suc f"
    and rest: "\<And>st' j. 2 * (length s - j) + 2 \<le> f \<Longrightarrow> returns s j st' (g st' j)"
  shows "returns s (i + 2) st (case dollar s R f st i q d of None \<Rightarrow> None | Some (st', j) \<Rightarrow> g st' j)"
proof -
  have i: "Suc i < length s" using aligned_Lit(4) [OF al] by (rule aligned_Ref)
  then obtain f' where f': "f = Suc f'" using fuel by (cases f) auto
  have "returns s (i + 2) st (dollar s R f st i q d)"
    unfolding f' dollar_ref [OF al] using fuel f' i by (intro param_returns [OF wf]) auto
  then show ?thesis
  proof (rule returns_bind)
    fix st' j assume "min (i + 2) (length s) \<le> j"
    then have "2 * (length s - j) + 2 \<le> f" using fuel i by linarith
    then show "returns s j st' (g st' j)" by (rule rest)
  qed simp
qed

lemma double_Ref:
  assumes wf: "refs_wf R" and al: "aligned s R i (Ref n t # ys)" and lost: "\<not> sc_lost st"
    and fuel: "2 * (length s - i) + 2 \<le> Suc f"
  shows "quoteScan QDouble s R st i (Ref n t # ys) (double s R (Suc f) st i d)"
proof -
  from al obtain r where r: "R i = Some r" "sr_judged r" "sr_end r = i + length t" and i: "i < length s"
    by (rule aligned_Ref)
  have t: "length t > 0" using al by (auto simp: aligned_def)
  define st1 where "st1 = st\<lparr>sc_verdict := (sc_verdict st)(i := placeEnclosed)\<rparr>"
  have sr: "sc_ref R st i placeEnclosed = Some (st1, i + length t)"
    using r lost by (simp add: sc_ref_def st1_def)
  have "2 * (length s - (i + length t)) + 2 \<le> f" using fuel i t by linarith
  then have "returns s (i + length t) st1 (double s R f st1 (i + length t) d)"
    by (rule double_returns [OF wf])
  then have "quoteScan QDouble s R st i (Ref n t # ys) (double s R f st1 (i + length t) d)"
    by (rule quoteScan_refused [where k = i]) (use i t in \<open>auto simp: st1_def\<close>)
  then show ?thesis using sr i lost by simp
qed

lemma double_Lit:
  assumes al: "aligned s R i (Lit c # ys)" and ps: "plainShell (Lit c # ys)" and lost: "\<not> sc_lost st"
  shows "double s R (Suc f) st i d = (if c = dquote then Some (st, i + 1)
          else if c = bslash then double s R f st (i + 2) d
          else if c = CHR ''$'' then (case dollar s R f st i True d of None \<Rightarrow> None
                | Some (st', j) \<Rightarrow> double s R f st' j d)
          else double s R f st (i + 1) d)"
  using aligned_Lit [OF al] ps lost by (simp add: sc_ref_def)

lemma double_aligned:
  assumes wf: "refs_wf R"
  shows "aligned s R i xs \<Longrightarrow> plainShell xs \<Longrightarrow> 2 * (length s - i) + 2 \<le> f \<Longrightarrow> \<not> sc_lost st \<Longrightarrow>
    (\<And>k. i \<le> k \<Longrightarrow> sc_verdict st k = placeUnread) \<Longrightarrow> quoteScan QDouble s R st i xs (double s R f st i d)"
proof (induction f arbitrary: i xs)
  case (Suc f)
  have rec: "quoteScan QDouble s R st i' ys (double s R f st i' d)"
    if "aligned s R i' ys" "plainShell ys" "i < i'" "i < length s" for i' ys
    using Suc.IH [of i' ys] Suc.prems that by auto
  consider (nil) "xs = []" | (ref) n t ys where "xs = Ref n t # ys"
    | (quote) ys where "xs = Lit dquote # ys" | (esc0) "xs = [Lit bslash]"
    | (esc) e ys where "xs = Lit bslash # Lit e # ys" | (escref) n t ys where "xs = Lit bslash # Ref n t # ys"
    | (dolref) n t ys where "xs = Lit (CHR ''$'') # Ref n t # ys"
    | (dol) ys where "xs = Lit (CHR ''$'') # ys" "\<And>n t zs. ys \<noteq> Ref n t # zs"
    | (lit) c ys where "xs = Lit c # ys" "c \<notin> {dquote, bslash, CHR ''$''}"
    by (metis segment.exhaust list.exhaust insertE emptyE)
  then show ?case
  proof cases
    case nil
    then have "i = length s" using Suc.prems(1) by (simp add: aligned_Nil)
    moreover from this have "quoteLeft QDouble s R i [] i []" using Suc.prems(1) nil by (simp add: quoteLeft_def)
    ultimately show ?thesis using nil by (auto intro: quoteScan_left)
  next
    case ref
    then show ?thesis using double_Ref [OF wf] Suc.prems by (simp del: double.simps)
  next
    case quote
    note a = aligned_Lit [OF Suc.prems(1) [unfolded quote]]
    have "quoteLeft QDouble s R i xs (Suc i) ys" using a quote Suc.prems(2) by (simp add: quoteLeft_def)
    then show ?thesis using double_Lit [of s R i dquote ys] Suc.prems quote by (simp add: quoteScan_left del: double.simps)
  next
    case esc0
    note a = aligned_Lit [OF Suc.prems(1) [unfolded esc0]]
    have n: "Suc i = length s" using a(4) by (simp add: aligned_Nil)
    have "quoteLeft QDouble s R i xs (length s) []" using a(4) n esc0 by (simp add: quoteLeft_def)
    moreover obtain f' where "f = Suc f'" using Suc.prems(3) n by (cases f) auto
    ultimately show ?thesis
      using double_Lit [OF Suc.prems(1,2,4) [unfolded esc0], of f d] n esc0 by (simp add: quoteScan_left)
  next
    case esc
    note a = aligned_Lit [OF Suc.prems(1) [unfolded esc]]
    note b = aligned_Lit [OF a(4)]
    have "quoteScan QDouble s R st (Suc (Suc i)) ys (double s R f st (Suc (Suc i)) d)"
      using rec [OF b(4)] esc a Suc.prems(2) by simp
    then have "quoteScan QDouble s R st i xs (double s R f st (Suc (Suc i)) d)"
      by (rule quoteScan_shift) (use esc in auto)
    then show ?thesis using double_Lit [of s R i bslash "Lit e # ys"] Suc.prems esc by (simp del: double.simps)
  next
    case escref
    note a = aligned_Lit [OF Suc.prems(1) [unfolded escref]]
    from a(4) have i: "Suc i < length s" by (rule aligned_Ref)
    have "2 * (length s - (i + 2)) + 2 \<le> f" using Suc.prems i by linarith
    then have "returns s (i + 2) st (double s R f st (i + 2) d)" by (rule double_returns [OF wf])
    then have "quoteScan QDouble s R st i xs (double s R f st (i + 2) d)"
      by (rule quoteScan_refused [where k = "Suc i"]) (use i escref Suc.prems(5) in auto)
    then show ?thesis using double_Lit [of s R i bslash "Ref n t # ys"] Suc.prems escref by (simp del: double.simps)
  next
    case dolref
    note a = aligned_Lit [OF Suc.prems(1) [unfolded dolref]]
    from a(4) have i: "Suc i < length s" by (rule aligned_Ref)
    have "returns s (i + 2) st (case dollar s R f st i True d of None \<Rightarrow> None
        | Some (st', j) \<Rightarrow> double s R f st' j d)"
      by (rule dollar_ref_returns [OF wf]) (use Suc.prems dolref double_returns [OF wf] in auto)
    then have "quoteScan QDouble s R st i xs (case dollar s R f st i True d of None \<Rightarrow> None
        | Some (st', j) \<Rightarrow> double s R f st' j d)"
      by (rule quoteScan_refused [where k = "Suc i"]) (use i dolref Suc.prems(5) in auto)
    then show ?thesis
      using double_Lit [of s R i "CHR ''$''" "Ref n t # ys"] Suc.prems dolref by (simp del: double.simps dollar.simps)
  next
    case dol
    note a = aligned_Lit [OF Suc.prems(1) [unfolded dol(1)]]
    obtain f' where f': "f = Suc f'" using Suc.prems(3) a(1) by (cases f) auto
    have "dollar s R f st i True d = Some (st, i + 1)"
      unfolding f' by (rule dollar_plain [of _ _ _ ys]) (use Suc.prems(1,2) dol in auto)
    moreover have "quoteScan QDouble s R st i xs (double s R f st (Suc i) d)"
      by (rule quoteScan_shift [OF rec [OF a(4)]]) (use dol a Suc.prems(2) in auto)
    ultimately show ?thesis
      using double_Lit [of s R i "CHR ''$''" ys] Suc.prems dol by (simp del: double.simps dollar.simps)
  next
    case lit
    note a = aligned_Lit [OF Suc.prems(1) [unfolded lit(1)]]
    have "quoteScan QDouble s R st i xs (double s R f st (Suc i) d)"
      by (rule quoteScan_shift [OF rec [OF a(4)]]) (use lit a Suc.prems(2) in auto)
    then show ?thesis using double_Lit [of s R i c ys] Suc.prems lit by (simp del: double.simps)
  qed
qed simp

text \<open>The same for the command context: if every reference ends up accepted, every one is
  where a word goes.\<close>

definition loopScan :: "nat \<Rightarrow> segment list \<Rightarrow> scanned \<Rightarrow> bool" where
  "loopScan i xs r \<longleftrightarrow> (\<forall>st' j. r = Some (st', j) \<longrightarrow> allWord st' i xs \<longrightarrow> wordPlaced QPlain xs)"

lemma loopScan_refused:
  assumes "returns s e st r" and "k < e" and "k < length s" and "refEnds i xs k \<noteq> None"
    and "sc_verdict st k \<noteq> placeWord"
  shows "loopScan i xs r"
  using assms(1)
proof (rule returnsE)
  fix st2 j assume r: "r = Some (st2, j)" and k: "keeps s e st st2"
  have "sc_verdict st2 k \<noteq> placeWord" using keepsD [OF k assms(2,3)] assms(5) by simp
  then have "\<not> allWord st2 i xs" using assms(4) by (auto simp: allWord_def)
  then show ?thesis using r by (simp add: loopScan_def)
qed

lemma loopScan_shift:
  assumes "loopScan i' xs' r" and "\<And>k. refEnds i' xs' k \<noteq> None \<Longrightarrow> refEnds i xs k \<noteq> None"
    and "wordPlaced QPlain xs' \<Longrightarrow> wordPlaced QPlain xs"
  shows "loopScan i xs r"
  using assms unfolding loopScan_def allWord_def by blast

lemma loopScan_quote:
  assumes qs: "quoteScan q s R st (Suc i) xs r"
    and rest: "\<And>st' j. r = Some (st', j) \<Longrightarrow> returns s j st' (g st' j)"
    and left: "\<And>j ys. quoteLeft q s R (Suc i) xs j ys \<Longrightarrow> loopScan j ys (g st j)"
    and wp: "wordPlaced q xs \<Longrightarrow> wordPlaced QPlain (Lit c # xs)"
  shows "loopScan i (Lit c # xs) (case r of None \<Rightarrow> None | Some (st', j) \<Rightarrow> g st' j)"
proof -
  obtain st' j where r: "r = Some (st', j)"
    and c: "quoteRefused s st' (Suc i) j xs \<or> (st' = st \<and> (\<exists>ys. quoteLeft q s R (Suc i) xs j ys))"
    using qs by (auto simp: quoteScan_def)
  from c have "loopScan i (Lit c # xs) (g st' j)"
  proof
    assume "quoteRefused s st' (Suc i) j xs"
    then show ?thesis
      unfolding quoteRefused_def using loopScan_refused [OF rest [OF r], of _ i "Lit c # xs"] by auto
  next
    assume "st' = st \<and> (\<exists>ys. quoteLeft q s R (Suc i) xs j ys)"
    then obtain ys where st: "st' = st" and y: "quoteLeft q s R (Suc i) xs j ys" by blast
    from left [OF y] show ?thesis
      unfolding st by (rule loopScan_shift) (use y wp in \<open>auto simp: quoteLeft_def\<close>)
  qed
  then show ?thesis using r by simp
qed

lemma commandLoop_Lit:
  assumes al: "aligned s R i (Lit c # ys)" and ps: "plainShell (Lit c # ys)" and lost: "\<not> sc_lost st"
    and pend: "sc_pending st = []"
  shows "commandLoop s R (Suc f) st i False True 0 ws =
    (if c = bslash then
       (if i + 1 < length s \<and> s ! (i + 1) = nl then commandLoop s R f st (i + 2) False True 0 ws
        else if R (i + 1) \<noteq> None then Some (lose s st)
        else commandLoop s R f st (i + 2) False True 0 False)
     else if c = squote then (case single s R f st (i + 1) of None \<Rightarrow> None
        | Some (st', j) \<Rightarrow> commandLoop s R f st' j False True 0 False)
     else if c = dquote then (case double s R f st (i + 1) 0 of None \<Rightarrow> None
        | Some (st', j) \<Rightarrow> commandLoop s R f st' j False True 0 False)
     else if c = CHR ''$'' then (case dollar s R f st i False 0 of None \<Rightarrow> None
        | Some (st', j) \<Rightarrow> commandLoop s R f st' j False True 0 False)
     else commandLoop s R f st (i + 1) False True 0 (isShellBreak c))"
proof -
  have pend': "st\<lparr>sc_pending := []\<rparr> = st" using pend by (cases st) simp
  have brk: "isShellBreak nl" "isShellBreak (CHR '')'')" by (simp_all add: isShellBreak_def)
  have c: "c \<notin> {CHR ''#'', CHR ''<'', CHR ''('', btick}" using ps by auto
  show ?thesis
    unfolding commandLoop.simps(2)
    using aligned_Lit [OF al] c lost pend brk by (simp add: sc_ref_def heredocBodies_def pend')
qed

lemma loopScan_Ref:
  assumes rec: "\<And>st' . \<not> sc_lost st' \<Longrightarrow> sc_pending st' = [] \<Longrightarrow>
      (\<And>k. i + length t \<le> k \<Longrightarrow> sc_verdict st' k = placeUnread) \<Longrightarrow>
      loopScan (i + length t) ys (commandLoop s R f st' (i + length t) False True 0 False)"
    and al: "aligned s R i (Ref n t # ys)" and lost: "\<not> sc_lost st" and pend: "sc_pending st = []"
    and unread: "\<And>k. i \<le> k \<Longrightarrow> sc_verdict st k = placeUnread"
  shows "loopScan i (Ref n t # ys) (commandLoop s R (Suc f) st i False True 0 ws)"
proof -
  from al obtain r where r: "R i = Some r" "sr_judged r" "sr_end r = i + length t" and i: "i < length s"
    by (rule aligned_Ref)
  have t: "length t > 0" using al by (auto simp: aligned_def)
  define st1 where "st1 = st\<lparr>sc_verdict := (sc_verdict st)(i := placeWord)\<rparr>"
  have sr: "sc_ref R st i placeWord = Some (st1, i + length t)"
    using r lost by (simp add: sc_ref_def st1_def)
  have "loopScan (i + length t) ys (commandLoop s R f st1 (i + length t) False True 0 False)"
    by (rule rec) (use lost pend unread t in \<open>auto simp: st1_def\<close>)
  then have "loopScan i (Ref n t # ys) (commandLoop s R f st1 (i + length t) False True 0 False)"
    by (rule loopScan_shift) auto
  then show ?thesis using sr i lost by (simp add: commandLoop.simps(2))
qed

lemma commandLoop_aligned:
  assumes wf: "refs_wf R"
  shows "aligned s R i xs \<Longrightarrow> plainShell xs \<Longrightarrow> 2 * (length s - i) + 2 \<le> f \<Longrightarrow> \<not> sc_lost st \<Longrightarrow>
    sc_pending st = [] \<Longrightarrow> (\<And>k. i \<le> k \<Longrightarrow> sc_verdict st k = placeUnread) \<Longrightarrow>
    loopScan i xs (commandLoop s R f st i False True 0 ws)"
proof (induction f arbitrary: i xs st ws)
  case (Suc f)
  note lit = commandLoop_Lit [OF _ _ Suc.prems(4,5), of s R i _ _ f ws]
  have rec: "loopScan i' ys (commandLoop s R f st i' False True 0 ws')"
    if "aligned s R i' ys" "plainShell ys" "i < i'" "i < length s" for i' ys ws'
    using Suc.IH [of i' ys st ws'] Suc.prems that by auto
  have ret: "returns s j st' (commandLoop s R f st' j False True 0 ws')" if "i < j" "i < length s" for j st' ws'
    using Suc.prems(3) that by (intro commandLoop_returns [OF wf]) auto
  have left: "loopScan j ys (commandLoop s R f st j False True 0 False)"
    if "quoteLeft q s R (Suc i) zs j ys" "plainShell zs" "i < length s" for q zs j ys
    using rec [of j ys False] that by (auto simp: quoteLeft_def)
  consider (nil) "xs = []" | (ref) n t ys where "xs = Ref n t # ys"
    | (squo) ys where "xs = Lit squote # ys" | (dquo) ys where "xs = Lit dquote # ys"
    | (esc0) "xs = [Lit bslash]"
    | (esc) e ys where "xs = Lit bslash # Lit e # ys" | (escref) n t ys where "xs = Lit bslash # Ref n t # ys"
    | (dolref) n t ys where "xs = Lit (CHR ''$'') # Ref n t # ys"
    | (dol) ys where "xs = Lit (CHR ''$'') # ys" "\<And>n t zs. ys \<noteq> Ref n t # zs"
    | (other) c ys where "xs = Lit c # ys" "c \<notin> {squote, dquote, bslash, CHR ''$''}"
    by (metis segment.exhaust list.exhaust insertE emptyE)
  then show ?case
  proof cases
    case nil
    then show ?thesis by (simp add: loopScan_def)
  next
    case ref
    have t: "length t > 0" using Suc.prems(1) ref by (auto simp: aligned_def)
    from Suc.prems(1) [unfolded ref] have i: "i < length s" by (rule aligned_Ref)
    have fuel: "2 * (length s - (i + length t)) + 2 \<le> f" using Suc.prems(3) t i by linarith
    obtain r where "aligned s R (i + length t) ys" using Suc.prems(1) [unfolded ref] by (rule aligned_Ref)
    then have "loopScan (i + length t) ys (commandLoop s R f st' (i + length t) False True 0 False)"
      if "\<not> sc_lost st'" "sc_pending st' = []" "\<And>k. i + length t \<le> k \<Longrightarrow> sc_verdict st' k = placeUnread" for st'
      using Suc.IH [of "i + length t" ys st' False] Suc.prems(2) fuel that ref by simp
    then show ?thesis unfolding ref by (rule loopScan_Ref) (use Suc.prems ref in auto)
  next
    case squo
    note a = aligned_Lit [OF Suc.prems(1) [unfolded squo]]
    have qs: "quoteScan QSingle s R st (Suc i) ys (single s R f st (Suc i))"
      using Suc.prems a by (intro single_aligned [OF wf a(4)]) auto
    have sr: "returns s (Suc i) st (single s R f st (Suc i))"
      using Suc.prems a by (intro single_returns [OF wf]) auto
    have "loopScan i (Lit squote # ys) (case single s R f st (Suc i) of None \<Rightarrow> None
        | Some (st', j) \<Rightarrow> commandLoop s R f st' j False True 0 False)"
      by (rule loopScan_quote [OF qs ret left]) (use sr a Suc.prems(2) squo in auto)
    then show ?thesis using lit [of squote ys] Suc.prems squo by (simp del: commandLoop.simps)
  next
    case dquo
    note a = aligned_Lit [OF Suc.prems(1) [unfolded dquo]]
    have qs: "quoteScan QDouble s R st (Suc i) ys (double s R f st (Suc i) 0)"
      using Suc.prems a dquo by (intro double_aligned [OF wf a(4)]) auto
    have sr: "returns s (Suc i) st (double s R f st (Suc i) 0)"
      using Suc.prems a by (intro double_returns [OF wf]) auto
    have "loopScan i (Lit dquote # ys) (case double s R f st (Suc i) 0 of None \<Rightarrow> None
        | Some (st', j) \<Rightarrow> commandLoop s R f st' j False True 0 False)"
      by (rule loopScan_quote [OF qs ret left]) (use sr a Suc.prems(2) dquo in auto)
    then show ?thesis using lit [of dquote ys] Suc.prems dquo by (simp del: commandLoop.simps)
  next
    case esc0
    then show ?thesis by (simp add: loopScan_def)
  next
    case esc
    note a = aligned_Lit [OF Suc.prems(1) [unfolded esc]]
    note b = aligned_Lit [OF a(4)]
    have "loopScan (Suc (Suc i)) ys (commandLoop s R f st (Suc (Suc i)) False True 0 ws')" for ws'
      using rec [OF b(4)] esc a Suc.prems(2) by simp
    then have "loopScan i xs (commandLoop s R f st (Suc (Suc i)) False True 0 ws')" for ws'
      by (rule loopScan_shift) (use esc in auto)
    then show ?thesis using lit [of bslash "Lit e # ys"] Suc.prems esc b
      by (auto simp del: commandLoop.simps split: if_splits)
  next
    case escref
    note a = aligned_Lit [OF Suc.prems(1) [unfolded escref]]
    from a(4) obtain r where r: "R (Suc i) = Some r" "Suc i < length s" "s ! Suc i = CHR ''{''"
      by (rule aligned_Ref)
    have "\<not> allWord (fst (lose s st)) i xs"
      using escref Suc.prems(6) [of "Suc i"] by (auto simp: allWord_def lose_def)
    then have "loopScan i xs (Some (lose s st))" by (auto simp: loopScan_def lose_def)
    then show ?thesis using lit [of bslash "Ref n t # ys"] Suc.prems escref r by (simp del: commandLoop.simps)
  next
    case dolref
    note a = aligned_Lit [OF Suc.prems(1) [unfolded dolref]]
    from a(4) have i: "Suc i < length s" by (rule aligned_Ref)
    have "returns s (i + 2) st (case dollar s R f st i False 0 of None \<Rightarrow> None
        | Some (st', j) \<Rightarrow> commandLoop s R f st' j False True 0 False)"
      by (rule dollar_ref_returns [OF wf])
        (use Suc.prems dolref commandLoop_returns [OF wf] in \<open>auto simp del: commandLoop.simps\<close>)
    then have "loopScan i xs (case dollar s R f st i False 0 of None \<Rightarrow> None
        | Some (st', j) \<Rightarrow> commandLoop s R f st' j False True 0 False)"
      by (rule loopScan_refused [where k = "Suc i"]) (use i dolref Suc.prems(6) in auto)
    then show ?thesis
      using lit [of "CHR ''$''" "Ref n t # ys"] Suc.prems dolref by (simp del: commandLoop.simps dollar.simps)
  next
    case dol
    note a = aligned_Lit [OF Suc.prems(1) [unfolded dol(1)]]
    obtain f' where f': "f = Suc f'" using Suc.prems(3) a(1) by (cases f) auto
    have "dollar s R f st i False 0 = Some (st, i + 1)"
      unfolding f' by (rule dollar_plain [of _ _ _ ys]) (use Suc.prems(1,2) dol in auto)
    moreover have "loopScan i xs (commandLoop s R f st (Suc i) False True 0 False)"
      by (rule loopScan_shift [OF rec [OF a(4)]]) (use dol a Suc.prems(2) in auto)
    ultimately show ?thesis
      using lit [of "CHR ''$''" ys] Suc.prems dol by (simp del: commandLoop.simps dollar.simps)
  next
    case other
    note a = aligned_Lit [OF Suc.prems(1) [unfolded other(1)]]
    have "loopScan i xs (commandLoop s R f st (Suc i) False True 0 ws')" for ws'
      by (rule loopScan_shift [OF rec [OF a(4)]]) (use other a Suc.prems(2) in auto)
    then show ?thesis using lit [of c ys] Suc.prems other by (simp del: commandLoop.simps)
  qed
qed simp


lemma refEnds_seg_refs: "map_of (map (\<lambda>m. (rm_start m, rm_end m)) (seg_refs i xs)) = refEnds i xs"
  by (induction i xs rule: seg_refs.induct) auto

lemma map_of_keyed: "map_option f (map_of (map (\<lambda>x. (k x, x)) xs) j) = map_of (map (\<lambda>x. (k x, f x)) xs) j"
  by (induction xs) auto

lemma refs_by_start_ends:
  "map_option sr_end (refs_by_start (shellRefs_of s quoted known) j) = refEnds 0 (segments s) j"
  unfolding refs_by_start_def map_of_keyed
  by (simp add: shellRefs_of_def findAllRefs_def comp_def flip: refEnds_seg_refs)

lemma aligned_start:
  assumes "\<forall>n\<in>set (refNames s). known n \<and> quoted n"
  shows "aligned s (refs_by_start (shellRefs_of s quoted known)) 0 (segments s)"
proof -
  have "sr_judged r" if "refs_by_start (shellRefs_of s quoted known) j = Some r" for j r
    using refs_by_start_SomeD [OF that] assms by (auto simp: shellRefs_of_def refNames_findAll)
  then show ?thesis
    by (auto simp: aligned_def segments_text segments_ok refs_by_start_ends)
qed

text \<open>A text whose references are all judged and all accepted has each of them where a
  word goes.\<close>

lemma shellPlaces_wordPlaced:
  assumes plain: "plainShell (segments s)" and judged: "\<forall>n\<in>set (refNames s). known n \<and> quoted n"
    and places: "shellPlaces s quoted known = Some rs" and word: "\<forall>x\<in>set rs. sr_verdict x = placeWord"
  shows "wordPlaced QPlain (segments s)"
proof -
  let ?R = "refs_by_start (shellRefs_of s quoted known)"
  let ?f = "2 * (length s - 0) + 2"
  have "returns s 0 newScanner (commandLoop s ?R ?f newScanner 0 False True 0 True)"
    by (rule commandLoop_returns [OF refs_wf_shellRefs]) simp
  then obtain st j where r: "commandLoop s ?R ?f newScanner 0 False True 0 True = Some (st, j)"
    by (rule returnsE)
  have "scanFuel s = Suc ?f" by (simp add: scanFuel_def)
  then have c: "command s ?R (scanFuel s) newScanner 0 False True 0 = Some (st, j)"
    using r by (simp del: commandLoop.simps)
  have "sc_verdict st k = placeWord" if k: "refEnds 0 (segments s) k \<noteq> None" for k
  proof -
    obtain x where "?R k = Some x" using k refs_by_start_ends [of s quoted known k] by auto
    then have x: "x \<in> set (shellRefs_of s quoted known)" "sr_start x = k" using refs_by_start_SomeD by auto
    moreover have "sr_judged x" using x judged by (auto simp: shellRefs_of_def refNames_findAll)
    ultimately have "x\<lparr>sr_verdict := sc_verdict st k\<rparr> \<in> set rs"
      using places c by (force simp: shellPlaces_def Let_def split: if_splits)
    then show ?thesis using word by force
  qed
  then have "allWord st 0 (segments s)" by (simp add: allWord_def)
  moreover have "loopScan 0 (segments s) (commandLoop s ?R ?f newScanner 0 False True 0 True)"
    by (rule commandLoop_aligned [OF refs_wf_shellRefs aligned_start [OF judged] plain]) (simp_all add: newScanner_def)
  ultimately show ?thesis using r unfolding loopScan_def by blast
qed

lemma renderRef_quoted:
  assumes "x \<in> set xs" and "\<forall>n\<in>set (seg_names xs). rd_values r n = Some (val n) \<and> \<not> rd_raw r n"
  shows "renderRef r True x = quoteRefs val x"
  using assms by (induction xs rule: seg_names.induct) (auto simp: renderRef_def)

lemma fill_shell_words:
  assumes "plainShell (segments s)" and "\<forall>n\<in>set (refNames s). known n \<and> quoted n"
    and "shellPlaces s quoted known = Some rs" and "\<forall>x\<in>set rs. sr_verdict x = placeWord"
    and "\<forall>n\<in>set (refNames s). rd_values r n = Some (val n) \<and> \<not> rd_raw r n"
  shows "shellWords (fst (fill r s True None)) = shLex QPlain None (withValues val (segments s))"
proof -
  have "map (renderRef r True) (segments s) = map (quoteRefs val) (segments s)"
    using assms(5) by (auto simp: refNames_def intro: renderRef_quoted)
  then have "fst (fill r s True None) = concat (map (quoteRefs val) (segments s))"
    by (simp add: fill_def fillSegs_text del: map_eq_conv)
  then show ?thesis
    using shLex_withValues [OF shellPlaces_wordPlaced [OF assms(1-4)]] by (simp add: shellWords_def)
qed

text \<open>Filling a command in does not change what the shell reads of it.  When every
  reference of a plain command is a defined value that gets quoted and the scanner
  accepts every one, the words and operators of the filled-in text are those of the command with each
  value put where its reference stands, all of its characters quoted: no value can
  end a quote, start a command or split a word.\<close>

theorem fill_keeps_shell_words:
  assumes "plainShell (segments s)" and "\<forall>n\<in>set (refNames s). known n \<and> quoted n"
    and "shellPlaces s quoted known = Some rs" and "\<forall>x\<in>set rs. sr_verdict x = placeWord"
    and "\<forall>n\<in>set (refNames s). rd_values r n = Some (val n) \<and> \<not> rd_raw r n"
  shows "shellWords (fst (fill r s True None)) = shLex QPlain None (withValues val (segments s))"
  using assms by (rule fill_shell_words)

lemma render_sample_places:
  "shellPlaces ''echo {{ a }};ls'' (\<lambda>_. True) (\<lambda>_. True) =
     Some [\<lparr>sr_name = ''a'', sr_start = 5, sr_end = 12, sr_judged = True, sr_verdict = placeWord\<rparr>]"
  by code_simp

theorem fill_keeps_shell_words_witness:
  "shellWords (fst (fill \<lparr>rd_values = [''a'' \<mapsto> [squote, CHR '';'']], rd_raw = (\<lambda>_. False)\<rparr> ''echo {{ a }};ls'' True None)) =
     [Word (map (\<lambda>c. (c, False)) ''echo''), Word [(squote, True), (CHR '';'', True)], Op (CHR '';''),
      Word (map (\<lambda>c. (c, False)) ''ls'')]"
proof -
  have n: "refNames ''echo {{ a }};ls'' = [''a'']" by code_simp
  have p: "plainShell (segments ''echo {{ a }};ls'')" by code_simp
  show ?thesis
    using fill_keeps_shell_words [OF p _ render_sample_places,
        of "\<lparr>rd_values = [''a'' \<mapsto> [squote, CHR '';'']], rd_raw = (\<lambda>_. False)\<rparr>" "\<lambda>_. [squote, CHR '';'']"]
    unfolding n by simp code_simp
qed

lemma seg_refs_brace:
  assumes "m \<in> set (seg_refs (length pre) xs)" and "\<forall>x\<in>set xs. seg_ok x"
  shows "(pre @ concat (map seg_text xs)) ! rm_start m = CHR ''{''"
  using assms
proof (induction xs arbitrary: pre)
  case (Cons x xs)
  show ?case
  proof (cases "m \<in> set (seg_refs (length (pre @ seg_text x)) xs)")
    case True
    then show ?thesis using Cons.IH [of "pre @ seg_text x"] Cons.prems by simp
  next
    case False
    then obtain n t where "x = Ref n t" "rm_start m = length pre" using Cons.prems(1) by (cases x) auto
    then show ?thesis using Cons.prems(2) by (cases t) (auto simp: nth_append)
  qed
qed simp

lemma findAllRefs_brace: "m \<in> set (findAllRefs s) \<Longrightarrow> s ! rm_start m = CHR ''{''"
  using seg_refs_brace [of m "[]" "segments s"] by (simp add: findAllRefs_def segments_ok segments_text)

text \<open>\<open>dollar\<close> takes a reference right after \<^verbatim>\<open>$\<close> for the start of a \<^verbatim>\<open>${...}\<close>
  expansion, so the branch that would give the text up on it is never taken.  The
  reference itself stays unread, so a task with one is refused all the same.\<close>

theorem dollar_before_reference:
  assumes "m \<in> set (findAllRefs s)" and "rm_start m = Suc i"
  shows "dollar s (refs_by_start (shellRefs_of s quoted known)) (Suc f) st i inDouble d =
         param s (refs_by_start (shellRefs_of s quoted known)) f st (i + 2) d"
proof -
  have "s ! Suc i = CHR ''{''" "Suc i < length s"
    using findAllRefs_brace [OF assms(1)] findAllRefs_bounds [OF assms(1)] assms(2) by auto
  moreover from this have "\<not> has_prefix (drop i s) ''$((''" using dollar_prefix [of i s] by auto
  ultimately show ?thesis by (simp add: Let_def)
qed

theorem dollar_before_reference_witness:
  "dollar ''${{ a }}'' (refs_by_start (shellRefs_of ''${{ a }}'' (\<lambda>_. True) (\<lambda>_. True))) 5 newScanner 0 False 0 =
   param ''${{ a }}'' (refs_by_start (shellRefs_of ''${{ a }}'' (\<lambda>_. True) (\<lambda>_. True))) 4 newScanner 2 0"
proof -
  have "\<lparr>rm_start = 1, rm_end = 8, rm_name = ''a''\<rparr> \<in> set (findAllRefs ''${{ a }}'')" by code_simp
  from dollar_before_reference [OF this, of 0 "\<lambda>_. True" "\<lambda>_. True" 4 newScanner False 0]
  show ?thesis by (simp add: eval_nat_numeral)
qed

end
