(* ===== verification/Task_Checked.thy ===== *)
theory Task_Checked
  imports Task_Parse Shell_Safety
begin

text \<open>
  What reading a document promises (\<^verbatim>\<open>Parse\<close> of \<^verbatim>\<open>src/internal/tasks/parse.go\<close>): a
  task without problems is well-formed, and what that gives the code that runs it:
  \<^verbatim>\<open>Render\<close> (\<^verbatim>\<open>render.go\<close>) never meets an undefined reference or a missing body, and
  the commands it makes read as the author wrote them.
\<close>


section \<open>Well-formed tasks\<close>

text \<open>What reading promises of a task: the rules of the document, stated on the model.
  The parser's view of the inputs is \<open>parserOf\<close> of the task's own inputs.\<close>

definition parserOf :: "input list \<Rightarrow> parser" where
  "parserOf ins = \<lparr>pr_inputs = (\<lambda>n. list_ex (\<lambda>i. input_name i = n) ins),
                   pr_raw = (\<lambda>n. list_ex (\<lambda>i. input_name i = n \<and> input_raw i) ins)\<rparr>"

definition refs_ok :: "parser \<Rightarrow> string \<Rightarrow> bool" where
  "refs_ok p s = list_all (known p) (refNames s)"

definition shell_ok :: "parser \<Rightarrow> string \<Rightarrow> bool" where
  "shell_ok p s = (case shellPlaces s (\<lambda>name. \<not> pr_raw p name) (known p) of
     None \<Rightarrow> False | Some rs \<Rightarrow> list_all (\<lambda>r. sr_verdict r = placeWord) rs)"

definition name_ok :: "parser \<Rightarrow> string \<Rightarrow> bool" where
  "name_ok p it = (if hasRef it then refs_ok p it else validPackageName it)"

definition names_ok :: "parser \<Rightarrow> string list option \<Rightarrow> bool" where
  "names_ok p l = (case l of None \<Rightarrow> True | Some its \<Rightarrow> its \<noteq> [] \<and> list_all (name_ok p) its)"

definition packageActs :: "packages_step \<Rightarrow> nat" where
  "packageActs b = (if ps_upgrade_all b \<or> ps_upgrade b \<noteq> None then 1 else 0) +
     (if ps_install b \<noteq> None then 1 else 0) + (if ps_remove b \<noteq> None then 1 else 0)"

definition wf_packages :: "parser \<Rightarrow> packages_step \<Rightarrow> bool" where
  "wf_packages p b \<longleftrightarrow> names_ok p (ps_upgrade b) \<and> names_ok p (ps_install b) \<and> names_ok p (ps_remove b) \<and>
     (ps_upgrade_all b \<longrightarrow> ps_upgrade b = None) \<and> packageActs b \<le> 1 \<and> (packageActs b = 1 \<or> ps_update b)"

definition wf_service :: "parser \<Rightarrow> service_step \<Rightarrow> bool" where
  "wf_service p b \<longleftrightarrow> refs_ok p (ss_name b) \<and> ss_action b \<in> set serviceActions"

definition wf_command :: "parser \<Rightarrow> command_step \<Rightarrow> bool" where
  "wf_command p b \<longleftrightarrow> (cs_run b = [] \<or> cs_script b = []) \<and> trim_space (cs_run b @ cs_script b) \<noteq> [] \<and>
     refs_ok p (cs_run b) \<and> refs_ok p (cs_script b) \<and> shell_ok p (cs_run b) \<and> shell_ok p (cs_script b) \<and>
     0 < cs_timeout b \<and> cs_timeout b < 2 ^ 63"

definition wf_file :: "parser \<Rightarrow> file_step \<Rightarrow> bool" where
  "wf_file p b \<longleftrightarrow> (hasRef (fs_path b) \<or> is_abs (fs_path b)) \<and> refs_ok p (fs_path b) \<and>
     refs_ok p (fs_content b) \<and> refs_ok p (fs_owner b) \<and> (fs_mode b = [] \<or> checkFileMode (fs_mode b) = None)"

definition wf_stack :: "parser \<Rightarrow> stack_step \<Rightarrow> bool" where
  "wf_stack p b \<longleftrightarrow> refs_ok p (st_name b) \<and> refs_ok p (st_compose b)"

definition wf_reboot :: "reboot_step \<Rightarrow> bool" where
  "wf_reboot b \<longleftrightarrow> 0 < rb_wait b \<and> rb_wait b < 2 ^ 63"

abbreviation opt_all :: "('a \<Rightarrow> bool) \<Rightarrow> 'a option \<Rightarrow> bool" where
  "opt_all P x \<equiv> (case x of None \<Rightarrow> True | Some y \<Rightarrow> P y)"

text \<open>The kind is one of the six and names the one body that is set.\<close>

definition wf_step :: "parser \<Rightarrow> step \<Rightarrow> bool" where
  "wf_step p s \<longleftrightarrow> step_kind s \<in> set stepKinds \<and>
     (step_packages s \<noteq> None \<longleftrightarrow> step_kind s = StepPackages) \<and>
     (step_service s \<noteq> None \<longleftrightarrow> step_kind s = StepService) \<and>
     (step_command s \<noteq> None \<longleftrightarrow> step_kind s = StepCommand) \<and>
     (step_file s \<noteq> None \<longleftrightarrow> step_kind s = StepFile) \<and>
     (step_stack s \<noteq> None \<longleftrightarrow> step_kind s = StepStack) \<and>
     (step_reboot s \<noteq> None \<longleftrightarrow> step_kind s = StepReboot) \<and>
     opt_all (wf_packages p) (step_packages s) \<and> opt_all (wf_service p) (step_service s) \<and>
     opt_all (wf_command p) (step_command s) \<and> opt_all (wf_file p) (step_file s) \<and>
     opt_all (wf_stack p) (step_stack s) \<and> opt_all wf_reboot (step_reboot s)"

definition wf_inputs :: "input list \<Rightarrow> bool" where
  "wf_inputs ins \<longleftrightarrow> distinct (map input_name ins) \<and>
     list_all (\<lambda>i. validInputName (input_name i) \<and> input_name i \<noteq> ''node'') ins"

definition wf_targets :: "targets \<Rightarrow> bool" where
  "wf_targets tg \<longleftrightarrow> opt_all (list_all (\<lambda>k. k \<in> set nodeKinds)) (tgt_kinds tg)"

definition wf_task :: "task \<Rightarrow> bool" where
  "wf_task t \<longleftrightarrow> trim_space (task_name t) \<noteq> [] \<and> wf_inputs (task_inputs t) \<and> wf_targets (task_targets t) \<and>
     1 \<le> task_batch t \<and> task_steps t \<noteq> [] \<and> length (task_steps t) \<le> MaxSteps \<and>
     list_all (wf_step (parserOf (task_inputs t))) (task_steps t)"

section \<open>A document read without problems is a well-formed task\<close>

lemma concat_map_Nil: "concat (map f xs) = [] \<longleftrightarrow> (\<forall>x\<in>set xs. f x = [])"
  by (induction xs) auto

lemma str_required: "str f key what True parent = (v, []) \<Longrightarrow> v \<noteq> None"
  by (auto simp: str_def split: option.splits if_splits)

lemma refs_in_Nil: "refs_in p v = [] \<longleftrightarrow> refs_ok p (str_of v)"
  by (cases v) (auto simp: refs_in_def refs_ok_def str_of_def refNames_findAll list_all_iff split: if_splits)

lemma verdictProblem_Nil: "verdictProblem n r = [] \<longleftrightarrow> sr_verdict r = placeWord"
  by (cases "sr_verdict r") (simp_all add: verdictProblem_def)

lemma shellRefs_Nil: "shellRefs p v = [] \<longleftrightarrow> shell_ok p (str_of v)"
proof (cases v)
  case None
  have "findAllRefs [] = []" by simp
  then have "shell_ok p []" by (simp add: shell_ok_def shellPlaces_def shellRefs_of_def)
  then show ?thesis using None by (simp add: shellRefs_def str_of_def)
next
  case (Some n)
  obtain rs where "shellPlaces (y_value n) (\<lambda>name. \<not> pr_raw p name) (known p) = Some rs"
    using shellPlaces_returns by blast
  then show ?thesis using Some
    by (simp add: shellRefs_def shell_ok_def str_of_def list_all_iff verdictProblem_Nil)
qed

lemma duration_of_ok:
  assumes "duration_of Y f key what def = (d, [])" and "0 < def" and "def < 2 ^ 63"
  shows "0 < d \<and> d < 2 ^ 63"
  using assms ParseDuration_bound
  by (force simp: duration_of_def split: option.splits if_splits)

lemma default_durations [simp]:
  "0 < DefaultCommandTimeout" "DefaultCommandTimeout < 9223372036854775808"
  "0 < DefaultRebootWait" "DefaultRebootWait < 9223372036854775808"
  by (simp_all add: DefaultCommandTimeout_def DefaultRebootWait_def)

lemma packageNames_Nil: "packageNames p items = [] \<longleftrightarrow> list_all (name_ok p) (values_of items)"
  by (induction items) (auto simp: packageNames_def values_of_def name_ok_def refs_in_Nil str_of_def)

lemma packageKey_ok:
  "packageKey p f kind key = (l, []) \<Longrightarrow> names_ok p l \<and> (l \<noteq> None \<longleftrightarrow> present f key)"
  by (auto simp: packageKey_def names_ok_def present_def Let_def packageNames_Nil values_of_def
      split: option.splits if_splits prod.splits)

lemma upgradeKey_ok:
  "upgradeKey p f kind = (all, l, []) \<Longrightarrow>
   names_ok p l \<and> (all \<longrightarrow> l = None) \<and> (all \<or> l \<noteq> None \<longleftrightarrow> present f ''upgrade'')"
  by (auto simp: upgradeKey_def names_ok_def present_def Let_def packageNames_Nil values_of_def
      split: option.splits if_splits prod.splits)

lemma packages_ok:
  assumes "packages Y p n = (b, [])"
  shows "\<exists>x. b = Some x \<and> wf_packages p x"
proof -
  from assms obtain f upd all upg ins rem where
    up: "upgradeKey p f StepPackages = (all, upg, [])" and
    ins: "packageKey p f StepPackages ''install'' = (ins, [])" and
    rem: "packageKey p f StepPackages ''remove'' = (rem, [])" and
    act: "packageActions f n upd = []" and
    b: "b = Some \<lparr>ps_update = upd, ps_upgrade_all = all, ps_upgrade = upg, ps_install = ins, ps_remove = rem\<rparr>"
    by (auto simp: packages_def fields_of_def mapping_def split: prod.splits option.splits if_splits)
  have "packageActs (the b) \<le> 1 \<and> (packageActs (the b) = 1 \<or> upd)"
    using act upgradeKey_ok [OF up] packageKey_ok [OF ins] packageKey_ok [OF rem] b
    by (auto simp: packageActions_def packageActs_def split: if_splits)
  then show ?thesis
    using upgradeKey_ok [OF up] packageKey_ok [OF ins] packageKey_ok [OF rem] b by (simp add: wf_packages_def)
qed

lemma service_ok: "service p n = (b, []) \<Longrightarrow> \<exists>x. b = Some x \<and> wf_service p x"
  by (auto simp: service_def wf_service_def refs_in_Nil str_of_def fields_of_def mapping_def
      dest!: str_required split: prod.splits option.splits if_splits)

lemma command_ok: "command_of Y p n = (b, []) \<Longrightarrow> \<exists>x. b = Some x \<and> wf_command p x"
  by (auto simp: command_of_def wf_command_def refs_in_Nil shellRefs_Nil fields_of_def mapping_def str_of_def
      dest!: duration_of_ok split: prod.splits option.splits if_splits)

lemma file_ok: "file_of p n = (b, []) \<Longrightarrow> \<exists>x. b = Some x \<and> wf_file p x"
  by (auto simp: file_of_def wf_file_def refs_in_Nil str_of_def fields_of_def mapping_def
      dest!: str_required split: prod.splits option.splits if_splits)

lemma stack_ok: "stack Y p n = (b, []) \<Longrightarrow> \<exists>x. b = Some x \<and> wf_stack p x"
  by (auto simp: stack_def wf_stack_def refs_in_Nil fields_of_def mapping_def
      split: prod.splits option.splits if_splits)

lemma reboot_ok: "reboot Y n = (b, []) \<Longrightarrow> \<exists>x. b = Some x \<and> wf_reboot x"
  by (auto simp: reboot_def wf_reboot_def fields_of_def mapping_def
      dest!: duration_of_ok split: prod.splits option.splits if_splits)

lemma mappingEntries_distinct:
  "mappingEntries what seen ns = (es, ps) \<Longrightarrow>
   distinct (map (\<lambda>e. y_value (e_key e)) es) \<and> (\<lambda>e. y_value (e_key e)) ` set es \<inter> set seen = {}"
  by (induction what seen ns arbitrary: es ps rule: mappingEntries.induct)
    (fastforce split: if_splits prod.splits)+

lemma stepEntries_kind:
  "stepEntries what es c k = (c', kd, ps) \<Longrightarrow> (\<And>e. k = Some e \<Longrightarrow> y_value (e_key e) \<in> set stepKinds) \<Longrightarrow>
   kd = Some e \<Longrightarrow> y_value (e_key e) \<in> set stepKinds"
  by (induction what es c k arbitrary: c' kd ps rule: stepEntries.induct)
    (auto simp: Let_def split: if_splits option.splits prod.splits)

lemma stepEntries_common:
  "stepEntries what es c k = (c', kd, []) \<Longrightarrow> kd = None \<Longrightarrow>
   (\<forall>x. c x \<noteq> None \<longrightarrow> c' x \<noteq> None) \<and> k = None \<and> (\<forall>e\<in>set es. c' (y_value (e_key e)) \<noteq> None)"
proof (induction what es c k arbitrary: c' kd rule: stepEntries.induct)
  case (2 what e es c k)
  let ?n = "y_value (e_key e)"
  consider (common) "?n = ''name'' \<or> ?n = ''continue_on_error''" | (kind) "\<not> (?n = ''name'' \<or> ?n = ''continue_on_error'')"
    by blast
  then show ?case
  proof cases
    case common
    then have "stepEntries what es (c(?n \<mapsto> e)) k = (c', kd, [])" using "2.prems" by (auto simp: Let_def)
    from "2.IH"(1) [OF refl refl common this "2.prems"(2)] show ?thesis by (auto split: if_splits)
  next
    case kind
    then have "?n \<in> set stepKinds" "k = None" and s: "stepEntries what es c (Some e) = (c', kd, [])"
      using "2.prems"(1) by (auto simp: Let_def split: if_splits option.splits prod.splits)
    from "2.IH"(2) [OF refl refl kind this(1,2) s "2.prems"(2)] show ?thesis by simp
  qed
qed simp

lemmas body_oks = packages_ok service_ok command_ok file_ok stack_ok reboot_ok

lemma stepBody_ok:
  assumes "stepBody Y p body (emptyStep name cont kind) = (s, [])" and "kind \<in> set stepKinds"
  shows "wf_step p s"
proof -
  have kinds: "kind = StepPackages \<or> kind = StepService \<or> kind = StepCommand \<or> kind = StepFile \<or> kind = StepStack \<or> kind = StepReboot"
    using assms(2) by (simp add: stepKinds_def)
  then show ?thesis
    using assms
    by (elim disjE) (auto simp: stepBody_def emptyStep_def wf_step_def step_kind_defs dest!: body_oks [unfolded step_kind_defs]
        split: prod.splits)
qed

lemma step_of_ok:
  assumes "step_of Y p n i = (r, [])"
  shows "\<exists>s. r = Some s \<and> wf_step p s"
proof -
  define what where "what = StepNumber (i + 1)"
  obtain entries where m: "mapping n what = (Some entries, [])"
    using assms unfolding step_of_def what_def [symmetric]
    by (auto simp: Let_def mapping_def split: prod.splits option.splits if_splits)
  obtain common kind p1 where e: "stepEntries what entries Map.empty None = (common, kind, p1)"
    by (metis prod_cases3)
  obtain nv p2 where nv: "str common ''name'' what False n = (nv, p2)" by (metis surj_pair)
  obtain cont p3 where cont: "boolean Y common ''continue_on_error'' what False = (cont, p3)" by (metis surj_pair)
  note unf = assms [unfolded step_of_def what_def [symmetric] Let_def m]
  show ?thesis
  proof (cases kind)
    case None
    then show ?thesis using unf e nv cont stepEntries_common [of what entries Map.empty None common kind]
      by (auto simp: list_ex_iff split: if_splits)
  next
    case (Some x)
    have "y_value (e_key x) \<in> set stepKinds" by (rule stepEntries_kind [OF e _ Some]) simp
    then show ?thesis using unf e nv cont Some stepBody_ok by (fastforce split: prod.splits)
  qed
qed

lemma stepList_ok:
  "stepList Y p ns i = (ss, []) \<Longrightarrow> length ss = length ns \<and> list_all (wf_step p) ss"
proof (induction ns arbitrary: i ss)
  case (Cons n ns)
  then obtain r qs where "step_of Y p n i = (r, [])" "stepList Y p ns (i + 1) = (qs, [])"
    "ss = (case r of None \<Rightarrow> qs | Some x \<Rightarrow> x # qs)"
    by (auto split: prod.splits)
  with Cons.IH step_of_ok show ?case by fastforce
qed simp

lemma inputBody_ok: "inputBody Y name v = (r, []) \<Longrightarrow> \<exists>i. r = Some i \<and> input_name i = name"
  by (auto simp: inputBody_def Let_def fields_of_def mapping_def split: prod.splits option.splits if_splits)

lemma inputEntries_ok:
  assumes "inputEntries Y es p = (ins, q, [])" and "distinct (map (\<lambda>e. y_value (e_key e)) es)"
    and "\<forall>e\<in>set es. \<not> pr_raw p (y_value (e_key e))"
  shows "map input_name ins = map (\<lambda>e. y_value (e_key e)) es \<and>
    list_all (\<lambda>i. validInputName (input_name i) \<and> input_name i \<noteq> ''node'') ins \<and>
    q = \<lparr>pr_inputs = (\<lambda>n. pr_inputs p n \<or> list_ex (\<lambda>i. input_name i = n) ins),
         pr_raw = (\<lambda>n. pr_raw p n \<or> list_ex (\<lambda>i. input_name i = n \<and> input_raw i) ins)\<rparr>"
  using assms
proof (induction es arbitrary: ins p)
  case Nil
  then show ?case by simp
next
  case (Cons e es)
  let ?n = "y_value (e_key e)"
  let ?p = "p\<lparr>pr_inputs := (pr_inputs p)(?n := True)\<rparr>"
  have n: "validInputName ?n" "?n \<noteq> ''node''"
    using Cons.prems(1) by (auto simp: Let_def split: if_splits prod.splits)
  obtain i rest r where i: "input_name i = ?n" "ins = i # rest" "r = input_raw i"
    and rec: "inputEntries Y es (?p\<lparr>pr_raw := (pr_raw p)(?n := r)\<rparr>) = (rest, q, [])"
  proof (cases "isNull (e_val e)")
    case True
    have eq: "?p\<lparr>pr_raw := (pr_raw p)(?n := False)\<rparr> = ?p" using Cons.prems(3) by (simp add: fun_upd_idem)
    let ?i = "\<lparr>input_name = ?n, input_label = [], input_default = [], input_required = False, input_raw = False\<rparr>"
    obtain rest where "inputEntries Y es ?p = (rest, q, [])" "ins = ?i # rest"
      using Cons.prems(1) n True by (auto simp: Let_def split: prod.splits)
    then show ?thesis by (intro that [of ?i rest False]) (simp_all only: eq input.select_convs)
  next
    case False
    then obtain i0 where "inputBody Y ?n (e_val e) = (Some i0, [])" "input_name i0 = ?n"
      using Cons.prems(1) n inputBody_ok by (fastforce simp: Let_def split: prod.splits option.splits)
    then show ?thesis using Cons.prems(1) n False that by (auto simp: Let_def split: prod.splits)
  qed
  have dist: "distinct (map (\<lambda>e. y_value (e_key e)) es)" and new: "?n \<notin> (\<lambda>e. y_value (e_key e)) ` set es"
    using Cons.prems(2) by auto
  have raws: "\<forall>e'\<in>set es. \<not> pr_raw (?p\<lparr>pr_raw := (pr_raw p)(?n := r)\<rparr>) (y_value (e_key e'))"
    using new Cons.prems(3) by (auto simp: image_iff)
  from Cons.IH [OF rec dist raws] have "map input_name rest = map (\<lambda>e. y_value (e_key e)) es \<and>
    list_all (\<lambda>i. validInputName (input_name i) \<and> input_name i \<noteq> ''node'') rest \<and>
    q = \<lparr>pr_inputs = (\<lambda>n. ((pr_inputs p)(?n := True)) n \<or> list_ex (\<lambda>i. input_name i = n) rest),
         pr_raw = (\<lambda>n. ((pr_raw p)(?n := r)) n \<or> list_ex (\<lambda>i. input_name i = n \<and> input_raw i) rest)\<rparr>"
    by (simp cong: if_cong)
  note IH = conjunct1 [OF this] conjunct1 [OF conjunct2 [OF this]] conjunct2 [OF conjunct2 [OF this]]
  have "\<not> list_ex (\<lambda>i. input_name i = ?n \<and> input_raw i) rest"
    using new IH(1) by (metis (mono_tags, lifting) image_eqI list_ex_iff list.set_map)
  then show ?case using i n IH Cons.prems(3) by (auto simp: fun_eq_iff)
qed

lemma inputList_ok:
  assumes "inputList Y n newParser = (ins, q, [])"
  shows "wf_inputs ins \<and> q = parserOf ins"
proof -
  obtain es where m: "mappingEntries TheInputs [] (y_content n) = (es, [])"
    and i: "inputEntries Y es newParser = (ins, q, [])"
    using assms by (auto simp: inputList_def mapping_def split: prod.splits option.splits if_splits)
  have d: "distinct (map (\<lambda>e. y_value (e_key e)) es)" using mappingEntries_distinct [OF m] by simp
  show ?thesis using inputEntries_ok [OF i d] d by (simp add: newParser_def wf_inputs_def parserOf_def)
qed

lemma targets_of_ok: "targets_of n = (tg, []) \<Longrightarrow> wf_targets tg"
  by (auto simp: targets_of_def wf_targets_def readKinds_def emptyTargets_def values_of_def list_all_iff concat_map_Nil simp del: concat_eq_Nil_conv
      split: prod.splits option.splits if_splits)

lemma batch_of_ok: "batch_of Y f = (b, []) \<Longrightarrow> 1 \<le> b"
  by (auto simp: batch_of_def split: option.splits if_splits)

lemma steps_of_ok:
  "steps_of Y p f doc = (ss, []) \<Longrightarrow> ss \<noteq> [] \<and> length ss \<le> MaxSteps \<and> list_all (wf_step p) ss"
  by (auto simp: steps_of_def Let_def dest!: stepList_ok split: option.splits if_splits prod.splits)

lemma task_of_ok:
  assumes "task_of Y root = (r, [])"
  shows "\<exists>t. r = Some t \<and> wf_task t"
proof -
  define doc where "doc = docRoot root"
  from assms obtain f nv dv ins p tg b sof ss where
    nv: "str f ''name'' TheTask True doc = (nv, [])"
    "(case nv of None \<Rightarrow> [] | Some v \<Rightarrow> if trim_space (y_value v) = [] then addf (y_line v) NameBlank else []) = []" and
    ins: "(if present f ''inputs'' then inputList Y (e_val (the (f ''inputs''))) newParser else ([], newParser, [])) = (ins, p, [])" and
    tg: "(if present f ''targets'' then targets_of (e_val (the (f ''targets''))) else (emptyTargets, [])) = (tg, [])" and
    b: "batch_of Y f = (b, [])" and ss: "steps_of Y p f doc = (ss, [])" and
    r: "r = Some \<lparr>task_name = str_of nv, task_description = str_of dv, task_inputs = ins, task_targets = tg,
                   task_batch = b, task_stop_on_failure = sof, task_steps = ss\<rparr>"
    unfolding task_of_def Let_def doc_def [symmetric]
    by (auto simp: fields_of_def mapping_def split: prod.splits option.splits if_splits)
  have name: "trim_space (str_of nv) \<noteq> []"
    using nv(2) str_required [OF nv(1)] by (auto simp: str_of_def split: if_splits)
  have i: "wf_inputs ins \<and> p = parserOf ins"
    using ins inputList_ok by (auto simp: newParser_def parserOf_def wf_inputs_def split: if_splits)
  have "wf_targets tg" using tg targets_of_ok by (auto simp: emptyTargets_def wf_targets_def split: if_splits)
  then show ?thesis using name i batch_of_ok [OF b] steps_of_ok [OF ss] r by (simp add: wf_task_def)
qed

lemma Parse_cases:
  "(\<exists>t. Parse Y doc = (Some t, []) \<and> wf_task t) \<or>
   (\<exists>ps. Parse Y doc = (None, ps) \<and> ps \<noteq> [] \<and> sorted (map prob_line ps))"
proof -
  have sorted: "sort_key prob_line ps \<noteq> [] \<and> sorted (map prob_line (sort_key prob_line ps))" if "ps \<noteq> []" for ps
    using that by (metis length_0_conv length_sort sorted_sort_key)
  show ?thesis
  proof (cases "\<exists>root. yl_first Y doc = DecNode root \<and> yl_second Y doc = DecEOF \<and> length doc \<le> MaxDocumentBytes")
    case True
    then obtain root where r: "yl_first Y doc = DecNode root" "yl_second Y doc = DecEOF" "length doc \<le> MaxDocumentBytes"
      by blast
    obtain t ps where t: "task_of Y root = (t, ps)" by (cases "task_of Y root")
    then show ?thesis using r task_of_ok [of Y root t] sorted [of ps] by (cases "ps = []") (auto simp: Parse_def)
  next
    case False
    then show ?thesis by (auto simp: Parse_def not_le split: ydecode.split)
  qed
qed

text \<open>C26: reading a document gives either a task and no problem, and then the task is
  well-formed, or no task and at least one problem, the problems in the order of their lines.\<close>

theorem Parse_result:
  "(\<exists>t. Parse Y doc = (Some t, []) \<and> wf_task t) \<or>
   (\<exists>ps. Parse Y doc = (None, ps) \<and> ps \<noteq> [] \<and> sorted (map prob_line ps))"
  by (rule Parse_cases)

text \<open>A file mode of one or two octal digits passes, though the rule is written as three or four.\<close>

lemma checkFileMode_short:
  "raw \<noteq> [] \<Longrightarrow> length raw \<le> 2 \<Longrightarrow> list_all is_octal raw \<Longrightarrow> checkFileMode raw = None"
proof -
  assume r: "raw \<noteq> []" "length raw \<le> 2" "list_all is_octal raw"
  have oct: "of_char c - 48 < (8::nat)" if "is_octal c" for c using that by (auto simp: is_octal_def)
  consider a where "raw = [a]" | a b where "raw = [a, b]"
    using r(1,2) by (cases raw; cases "tl raw") auto
  then have "octal_value raw < 512"
  proof cases
    case (1 a)
    then show ?thesis using r(3) oct [of a] by (simp add: octal_value_def)
  next
    case (2 a b)
    then show ?thesis using r(3) oct [of a] oct [of b] by (simp add: octal_value_def)
  qed
  then show ?thesis using r by (simp add: checkFileMode_def)
qed

section \<open>A parsed task always renders\<close>

text \<open>The value an input has in a run, and the value of every name a step may refer to.\<close>

definition inputValue :: "(string \<rightharpoonup> string) \<Rightarrow> input \<Rightarrow> string" where
  "inputValue inputs i =
     (case inputs (input_name i) of None \<Rightarrow> input_default i | Some v \<Rightarrow> if v = [] then input_default i else v)"

definition taskValue :: "task \<Rightarrow> (string \<rightharpoonup> string) \<Rightarrow> nodeVars \<Rightarrow> string \<Rightarrow> string" where
  "taskValue t inputs node n =
     (if n = refNodeAddress then nv_address node
      else if n = refNodeName then nv_name node
      else (case find (\<lambda>i. input_name i = n) (task_inputs t) of None \<Rightarrow> [] | Some i \<Rightarrow> inputValue inputs i))"

lemma renderInputs_Inr:
  assumes "renderInputs ins inputs r = Inr r'" and "distinct (map input_name ins)"
    and "\<forall>i\<in>set ins. \<not> rd_raw r (input_name i)"
  shows "rd_values r' = (\<lambda>n. case find (\<lambda>i. input_name i = n) ins of
      None \<Rightarrow> rd_values r n | Some i \<Rightarrow> Some (inputValue inputs i)) \<and>
    rd_raw r' = (\<lambda>n. rd_raw r n \<or> list_ex (\<lambda>i. input_name i = n \<and> input_raw i) ins)"
  using assms
proof (induction ins arbitrary: r)
  case (Cons i ins)
  let ?r = "r\<lparr>rd_values := (rd_values r)(input_name i \<mapsto> inputValue inputs i),
      rd_raw := (rd_raw r)(input_name i := input_raw i)\<rparr>"
  have rec: "renderInputs ins inputs ?r = Inr r'"
    using Cons.prems(1) by (auto simp: Let_def inputValue_def split: if_splits option.splits)
  have new: "input_name i \<notin> input_name ` set ins" and dist: "distinct (map input_name ins)"
    using Cons.prems(2) by simp_all
  have raws: "\<forall>j\<in>set ins. \<not> rd_raw ?r (input_name j)"
    using new Cons.prems(3) by (auto simp: image_iff)
  from Cons.IH [OF rec dist raws] have
    "rd_values r' = (\<lambda>n. case find (\<lambda>i. input_name i = n) ins of
       None \<Rightarrow> ((rd_values r)(input_name i \<mapsto> inputValue inputs i)) n | Some i \<Rightarrow> Some (inputValue inputs i))"
    "rd_raw r' = (\<lambda>n. ((rd_raw r)(input_name i := input_raw i)) n \<or> list_ex (\<lambda>j. input_name j = n \<and> input_raw j) ins)"
    by (simp_all del: fun_upd_apply cong: option.case_cong)
  moreover have "\<not> list_ex (\<lambda>j. input_name j = input_name i \<and> input_raw j) ins"
    "find (\<lambda>j. input_name j = input_name i) ins = None"
    using new by (auto simp: list_ex_iff find_None_iff image_iff)
  ultimately show ?case using Cons.prems(3) by (auto simp: fun_eq_iff split: option.split)
qed simp

lemma renderInputs_Inl:
  "renderInputs ins inputs r = Inl e \<Longrightarrow>
   \<exists>i\<in>set ins. e = InputMissing (input_name i) \<and> input_required i \<and> input_default i = [] \<and>
     (inputs (input_name i) = None \<or> inputs (input_name i) = Some [])"
  by (induction ins inputs r rule: renderInputs.induct) (auto simp: Let_def split: if_splits option.splits)

definition defines_all :: "renderer \<Rightarrow> parser \<Rightarrow> bool" where
  "defines_all r p \<longleftrightarrow> (\<forall>n. known p n \<longrightarrow> n \<in> dom (rd_values r))"

lemma refs_ok_defined: "defines_all r p \<Longrightarrow> refs_ok p s \<Longrightarrow> set (refNames s) \<subseteq> dom (rd_values r)"
  by (auto simp: defines_all_def refs_ok_def list_all_iff)

lemma fill_ok:
  "defines_all r p \<Longrightarrow> refs_ok p s \<Longrightarrow> snd (fill r s quote err) = err"
  by (simp add: fill_defined refs_ok_defined)

lemma names_ok_refs:
  assumes "names_ok p (Some its)" and "it \<in> set its"
  shows "refs_ok p it"
proof -
  have "name_ok p it" using assms by (simp add: names_ok_def list_all_iff)
  then show ?thesis by (cases "hasRef it") (auto simp: name_ok_def refs_ok_def hasRef_iff)
qed

lemma packageList_ok:
  assumes "defines_all r p" and "names_ok p l"
  shows "snd (packageList r l err) = err"
  using assms names_ok_refs refs_ok_defined by (intro packageList_defined) blast

lemma wf_stepE:
  assumes "wf_step p s"
  obtains (Packages) b where "step_kind s = StepPackages" "step_packages s = Some b" "wf_packages p b"
    | (Service) b where "step_kind s = StepService" "step_service s = Some b" "wf_service p b"
    | (Command) b where "step_kind s = StepCommand" "step_command s = Some b" "wf_command p b"
    | (File) b where "step_kind s = StepFile" "step_file s = Some b" "wf_file p b"
    | (Stack) b where "step_kind s = StepStack" "step_stack s = Some b" "wf_stack p b"
    | (Reboot) b where "step_kind s = StepReboot" "step_reboot s = Some b" "wf_reboot b"
proof -
  have k: "step_kind s \<in> {StepPackages, StepService, StepCommand, StepFile, StepStack, StepReboot}"
    using assms by (simp add: wf_step_def stepKinds_def)
  note w = assms [unfolded wf_step_def]
  from k show thesis
  proof (elim insertE emptyE)
    assume "step_kind s = StepPackages"
    then show thesis using w Packages by (cases "step_packages s") simp_all
  next
    assume "step_kind s = StepService"
    then show thesis using w Service by (cases "step_service s") simp_all
  next
    assume "step_kind s = StepCommand"
    then show thesis using w Command by (cases "step_command s") simp_all
  next
    assume "step_kind s = StepFile"
    then show thesis using w File by (cases "step_file s") simp_all
  next
    assume "step_kind s = StepStack"
    then show thesis using w Stack by (cases "step_stack s") simp_all
  next
    assume "step_kind s = StepReboot"
    then show thesis using w Reboot by (cases "step_reboot s") simp_all
  qed
qed

lemma renderStep_ok:
  assumes d: "defines_all r p" and wf: "wf_step p s"
  shows "snd (renderStep r t i s) = None \<and> spec_step (fst (renderStep r t i s)) = i \<and>
    spec_kind (fst (renderStep r t i s)) = step_kind s"
proof -
  note fills = fill_ok [OF d] packageList_ok [OF d]
  note unf = renderStep_def emptySpec_def case_prod_beta step_kind_defs
  consider (1) b where "step_kind s = StepPackages" "step_packages s = Some b" "wf_packages p b"
    | (2) b where "step_kind s = StepService" "step_service s = Some b" "wf_service p b"
    | (3) b where "step_kind s = StepCommand" "step_command s = Some b" "wf_command p b"
    | (4) b where "step_kind s = StepFile" "step_file s = Some b" "wf_file p b"
    | (5) b where "step_kind s = StepStack" "step_stack s = Some b" "wf_stack p b"
    | (6) b where "step_kind s = StepReboot" "step_reboot s = Some b"
    using wf by (rule wf_stepE)
  then show ?thesis
  proof cases
    case 1
    then show ?thesis by (simp add: unf wf_packages_def fills)
  next
    case 2
    then show ?thesis by (simp add: unf wf_service_def fills)
  next
    case 3
    then show ?thesis by (simp add: unf wf_command_def fills)
  next
    case 4
    then show ?thesis by (simp add: unf wf_file_def fills)
  next
    case 5
    then show ?thesis by (simp add: unf wf_stack_def fills)
  next
    case 6
    then show ?thesis by (simp add: unf)
  qed
qed

lemma renderSteps_ok:
  assumes d: "defines_all r p"
  shows "list_all (wf_step p) ss \<Longrightarrow> \<exists>specs. renderSteps r t i ss = Inr specs \<and>
    specs = map (\<lambda>k. fst (renderStep r t (i + k) (ss ! k))) [0..<length ss]"
proof (induction ss arbitrary: i)
  case (Cons s ss)
  from Cons.IH [of "i + 1"] Cons.prems obtain specs where
    rest: "renderSteps r t (i + 1) ss = Inr specs"
    "specs = map (\<lambda>k. fst (renderStep r t (i + 1 + k) (ss ! k))) [0..<length ss]" by auto
  have "snd (renderStep r t i s) = None" using renderStep_ok [OF d] Cons.prems by simp
  then have "renderSteps r t i (s # ss) = Inr (fst (renderStep r t i s) # specs)"
    using rest(1) by (simp add: case_prod_beta)
  moreover have "[0..<length (s # ss)] = 0 # map Suc [0..<length ss]" by (simp add: map_Suc_upt upt_conv_Cons del: upt_Suc)
  ultimately show ?case using rest(2) by (simp del: upt_Suc add: comp_def)
qed simp

text \<open>The renderer \<^verbatim>\<open>Render\<close> fills the steps in with, for a task with well-formed inputs.\<close>

lemma renderer_ok:
  assumes wf: "wf_inputs ins"
    and r: "renderInputs ins inputs \<lparr>rd_values = Map.empty, rd_raw = (\<lambda>_. False)\<rparr> = Inr r"
  shows "defines_all (r\<lparr>rd_values := (rd_values r)(refNodeName \<mapsto> a, refNodeAddress \<mapsto> b)\<rparr>) (parserOf ins)"
    and "rd_raw r = pr_raw (parserOf ins)"
proof -
  have v: "rd_values r = (\<lambda>n. map_option (inputValue inputs) (find (\<lambda>i. input_name i = n) ins))"
    and raw: "rd_raw r = pr_raw (parserOf ins)"
    using renderInputs_Inr [OF r] wf by (simp_all add: wf_inputs_def parserOf_def fun_eq_iff split: option.split)
  show "rd_raw r = pr_raw (parserOf ins)" by (rule raw)
  show "defines_all (r\<lparr>rd_values := (rd_values r)(refNodeName \<mapsto> a, refNodeAddress \<mapsto> b)\<rparr>) (parserOf ins)"
  proof -
    have "find (\<lambda>i. input_name i = n) ins \<noteq> None" if "list_ex (\<lambda>i. input_name i = n) ins" for n
      using that by (auto simp: find_None_iff list_ex_iff simp del: not_None_eq)
    then show ?thesis by (auto simp: defines_all_def known_def parserOf_def v)
  qed
qed

lemma Render_wf:
  assumes wf: "wf_task t"
  shows "(\<exists>r. Render t inputs node =
        Inr (map (\<lambda>k. fst (renderStep r t k (task_steps t ! k))) [0..<length (task_steps t)]) \<and>
        defines_all r (parserOf (task_inputs t)) \<and> rd_raw r = pr_raw (parserOf (task_inputs t)) \<and>
        (\<forall>n. known (parserOf (task_inputs t)) n \<longrightarrow> rd_values r n = Some (taskValue t inputs node n))) \<or>
    (\<exists>i\<in>set (task_inputs t). Render t inputs node = Inl (InputMissing (input_name i)) \<and> input_required i \<and>
       input_default i = [] \<and> (inputs (input_name i) = None \<or> inputs (input_name i) = Some []))"
proof (cases "renderInputs (task_inputs t) inputs \<lparr>rd_values = Map.empty, rd_raw = (\<lambda>_. False)\<rparr>")
  case (Inl e)
  then show ?thesis using renderInputs_Inl [OF Inl] by (auto simp: Render_def)
next
  case (Inr r)
  let ?r = "r\<lparr>rd_values := (rd_values r)(refNodeName \<mapsto> nv_name node, refNodeAddress \<mapsto> nv_address node)\<rparr>"
  have wi: "wf_inputs (task_inputs t)" and ws: "list_all (wf_step (parserOf (task_inputs t))) (task_steps t)"
    using wf by (simp_all add: wf_task_def)
  have d: "defines_all ?r (parserOf (task_inputs t))" "rd_raw ?r = pr_raw (parserOf (task_inputs t))"
    using renderer_ok [OF wi Inr] by simp_all
  from renderSteps_ok [OF d(1) ws, of t 0] have
    "Render t inputs node = Inr (map (\<lambda>k. fst (renderStep ?r t k (task_steps t ! k))) [0..<length (task_steps t)])"
    using Inr by (simp add: Render_def)
  moreover have "rd_values ?r n = Some (taskValue t inputs node n)" if "known (parserOf (task_inputs t)) n" for n
    using that renderInputs_Inr [OF Inr] wi
    by (auto simp: known_def taskValue_def wf_inputs_def parserOf_def list_ex_iff find_None_iff split: option.split)
  ultimately show ?thesis using d by blast
qed

lemma Parse_wf: "Parse Y doc = (Some t, ps) \<Longrightarrow> wf_task t"
  using Parse_cases [of Y doc] by auto

text \<open>A task that was read without problems renders for every node unless a
  required input was given no value: one spec a step, numbered, of the step's kind.  No
  reference is undefined and no step lacks its body.\<close>

theorem Render_parsed:
  assumes "Parse Y doc = (Some t, [])"
  shows "(\<exists>specs. Render t inputs node = Inr specs \<and>
           map spec_step specs = [0..<length (task_steps t)] \<and> map spec_kind specs = map step_kind (task_steps t)) \<or>
    (\<exists>i\<in>set (task_inputs t). Render t inputs node = Inl (InputMissing (input_name i)) \<and> input_required i \<and>
       input_default i = [] \<and> (inputs (input_name i) = None \<or> inputs (input_name i) = Some []))"
proof -
  have wf: "wf_task t" using assms by (rule Parse_wf)
  show ?thesis
    using Render_wf [OF wf, of inputs node]
  proof (elim disjE exE conjE)
    fix r assume R: "Render t inputs node =
        Inr (map (\<lambda>k. fst (renderStep r t k (task_steps t ! k))) [0..<length (task_steps t)])"
      and d: "defines_all r (parserOf (task_inputs t))"
    have "spec_step (fst (renderStep r t k (task_steps t ! k))) = k \<and>
        spec_kind (fst (renderStep r t k (task_steps t ! k))) = step_kind (task_steps t ! k)"
      if "k < length (task_steps t)" for k
      using renderStep_ok [OF d] wf that by (simp add: wf_task_def list_all_length)
    then have "map spec_step (map (\<lambda>k. fst (renderStep r t k (task_steps t ! k))) [0..<length (task_steps t)]) =
        map (\<lambda>k. k) [0..<length (task_steps t)]"
      and "map spec_kind (map (\<lambda>k. fst (renderStep r t k (task_steps t ! k))) [0..<length (task_steps t)]) =
        map (\<lambda>k. step_kind (task_steps t ! k)) [0..<length (task_steps t)]"
      unfolding map_map by (intro map_cong; simp)+
    moreover have "map (\<lambda>k. step_kind (task_steps t ! k)) [0..<length (task_steps t)] = map step_kind (task_steps t)"
      by (rule nth_equalityI) simp_all
    ultimately have "map spec_step (map (\<lambda>k. fst (renderStep r t k (task_steps t ! k))) [0..<length (task_steps t)]) =
        [0..<length (task_steps t)]"
      and "map spec_kind (map (\<lambda>k. fst (renderStep r t k (task_steps t ! k))) [0..<length (task_steps t)]) =
        map step_kind (task_steps t)" by simp_all
    then show ?thesis using R by blast
  qed blast
qed

text \<open>C1: the run line of a command step of a parsed task, filled in for a node, is read by
  the shell as the author wrote it with each value a quoted part of its word, whatever
  the inputs' values, when none of the inputs it uses is raw and the line is
  plain shell: it has no \<open>#\<close>, no \<open><\<close>, no opening parenthesis and no backquote, and no
  dollar sign stands before a brace, a bracket or a quote.\<close>

theorem parsed_command_keeps_words:
  assumes "Parse Y doc = (Some t, [])" and "Render t inputs node = Inr specs"
    and "k < length (task_steps t)" and "step_command (task_steps t ! k) = Some c"
    and "plainShell (segments (cs_run c))"
    and "\<forall>n\<in>set (refNames (cs_run c)). \<not> pr_raw (parserOf (task_inputs t)) n"
  shows "\<exists>c'. spec_command (specs ! k) = Some c' \<and>
    shellWords (cs_run c') = shLex QPlain None (withValues (taskValue t inputs node) (segments (cs_run c)))"
proof -
  let ?p = "parserOf (task_inputs t)"
  have wf: "wf_task t" using assms(1) by (rule Parse_wf)
  then have ws: "wf_step ?p (task_steps t ! k)" using assms(3) by (simp add: wf_task_def list_all_length)
  then have c: "wf_command ?p c" and kind: "step_kind (task_steps t ! k) = StepCommand"
    using assms(4) by (auto simp: wf_step_def)
  obtain r where specs: "specs = map (\<lambda>k. fst (renderStep r t k (task_steps t ! k))) [0..<length (task_steps t)]"
    and raw: "rd_raw r = pr_raw ?p"
    and vals: "\<forall>n. known ?p n \<longrightarrow> rd_values r n = Some (taskValue t inputs node n)"
    using Render_wf [OF wf, of inputs node] assms(2) by auto
  have known: "\<forall>n\<in>set (refNames (cs_run c)). known ?p n"
    using c by (simp add: wf_command_def refs_ok_def list_all_iff)
  obtain rs where rs: "shellPlaces (cs_run c) (\<lambda>n. \<not> pr_raw ?p n) (known ?p) = Some rs"
    "\<forall>x\<in>set rs. sr_verdict x = placeWord"
    using c by (auto simp: wf_command_def shell_ok_def list_all_iff split: option.splits)
  have "shellWords (fst (fill r (cs_run c) True None)) = shLex QPlain None (withValues (taskValue t inputs node) (segments (cs_run c)))"
    by (rule fill_shell_words [OF assms(5) _ rs])
      (use known assms(6) raw vals in auto)
  moreover have "spec_command (specs ! k) = Some (c\<lparr>cs_run := fst (fill r (cs_run c) True None),
      cs_script := fst (fill r (cs_script c) True (snd (fill r (cs_run c) True None)))\<rparr>)"
    using assms(3,4) kind specs by (simp add: renderStep_def emptySpec_def case_prod_beta step_kind_defs)
  ultimately show ?thesis by auto
qed

section \<open>A sample document\<close>

text \<open>A library that reads every document as one given tree, its scalars by their
  resolved tags, and a small task: one input, one command.\<close>

definition sampleLib :: "ynode \<Rightarrow> yaml_lib" where
  "sampleLib n = \<lparr>yl_first = (\<lambda>_. DecNode (YNode DocumentNode [] [] [] 1 [n])), yl_second = (\<lambda>_. DecEOF),
     yl_bool = (\<lambda>v. if y_value v = ''true'' then Some True else if y_value v = ''false'' then Some False else None),
     yl_int = (\<lambda>v. if y_value v \<noteq> [] \<and> list_all is_digit (y_value v) then Some (dval 0 (y_value v)) else None),
     yl_float = (\<lambda>_ _ _. 0)\<rparr>"

definition scalar :: "string \<Rightarrow> ynode" where
  "scalar s = YNode ScalarNode [] ''!!str'' s 1 []"

definition sampleTree :: ynode where
  "sampleTree = YNode MappingNode [] ''!!map'' [] 1
     [scalar ''name'', scalar ''hello'',
      scalar ''inputs'', YNode MappingNode [] ''!!map'' [] 1 [scalar ''who'', YNode ScalarNode [] ''!!null'' [] 1 []],
      scalar ''steps'', YNode SequenceNode [] ''!!seq'' [] 1
        [YNode MappingNode [] ''!!map'' [] 1
          [scalar ''command'', YNode MappingNode [] ''!!map'' [] 1 [scalar ''run'', scalar ''echo {{ who }}'']]]]"

definition sampleTask :: task where
  "sampleTask = \<lparr>task_name = ''hello'', task_description = [],
     task_inputs = [\<lparr>input_name = ''who'', input_label = [], input_default = [], input_required = False, input_raw = False\<rparr>],
     task_targets = emptyTargets, task_batch = 1, task_stop_on_failure = True,
     task_steps = [(emptyStep [] False StepCommand)
       \<lparr>step_command := Some \<lparr>cs_run = ''echo {{ who }}'', cs_script = [], cs_timeout = DefaultCommandTimeout\<rparr>\<rparr>]\<rparr>"

lemma sampleTask_of:
  "task_of (sampleLib sampleTree) (YNode DocumentNode [] [] [] 1 [sampleTree]) = (Some sampleTask, [])"
  by code_simp

lemma sampleTask_parsed: "Parse (sampleLib sampleTree) ''doc'' = (Some sampleTask, [])"
  using sampleTask_of by (simp add: Parse_def sampleLib_def MaxDocumentBytes_def)

theorem Render_parsed_witness:
  "\<exists>specs. Render sampleTask Map.empty \<lparr>nv_name = ''n1'', nv_address = ''10.0.0.1''\<rparr> = Inr specs \<and>
     map spec_step specs = [0] \<and> map spec_kind specs = [StepCommand]"
  using Render_parsed [OF sampleTask_parsed, of Map.empty "\<lparr>nv_name = ''n1'', nv_address = ''10.0.0.1''\<rparr>"]
  by (simp add: sampleTask_def emptyStep_def)

lemma sampleTask_rendered: "\<exists>specs. Render sampleTask inputs node = Inr specs"
proof -
  have "\<forall>i\<in>set (task_inputs sampleTask). \<not> input_required i" by (simp add: sampleTask_def)
  then show ?thesis using Render_wf [OF Parse_wf [OF sampleTask_parsed], of inputs node] by blast
qed

theorem parsed_command_keeps_words_witness:
  "\<exists>specs c'. Render sampleTask [''who'' \<mapsto> ''x; reboot''] \<lparr>nv_name = ''n1'', nv_address = ''10.0.0.1''\<rparr> = Inr specs \<and>
     spec_command (specs ! 0) = Some c' \<and>
     shellWords (cs_run c') = [Word (map (\<lambda>c. (c, False)) ''echo''), Word (literal ''x; reboot'')]"
proof -
  let ?node = "\<lparr>nv_name = ''n1'', nv_address = ''10.0.0.1''\<rparr>"
  obtain specs where r: "Render sampleTask [''who'' \<mapsto> ''x; reboot''] ?node = Inr specs"
    using sampleTask_rendered by blast
  have p: "plainShell (segments ''echo {{ who }}'')"
    "\<forall>n\<in>set (refNames ''echo {{ who }}''). \<not> pr_raw (parserOf (task_inputs sampleTask)) n"
    "shLex QPlain None (withValues (taskValue sampleTask [''who'' \<mapsto> ''x; reboot''] ?node) (segments ''echo {{ who }}'')) =
     [Word (map (\<lambda>c. (c, False)) ''echo''), Word (literal ''x; reboot'')]"
    by code_simp+
  show ?thesis
    using parsed_command_keeps_words [OF sampleTask_parsed r, of 0
        "\<lparr>cs_run = ''echo {{ who }}'', cs_script = [], cs_timeout = DefaultCommandTimeout\<rparr>"] p r
    by (auto simp: sampleTask_def)
qed

end
