(* ===== verification/Task_Format.thy ===== *)
theory Task_Format
  imports Task_Checked
begin

text \<open>
  Writing a task back: \<^verbatim>\<open>src/internal/tasks/format.go\<close>.  Format builds a YAML tree and
  hands it to the encoder, which is a parameter.  What the code relies on is that
  decoding the encoded tree gives it back, node for node; that is the relation
  \<open>yreads\<close>: same kinds, values and children, a written scalar not null, a bool or an int read as
  such.  The styles and lines of the nodes read back are free.
\<close>

section \<open>Format\<close>

definition mapNode :: "ystyle list \<Rightarrow> ynode list \<Rightarrow> ynode" where
  "mapNode st cs = YNode MappingNode st [] [] 0 cs"

definition isLineBreak_prefix :: "string \<Rightarrow> bool" where
  "isLineBreak_prefix s = list_ex (\<lambda>r. has_prefix s r)
     [[CHR 0x0A], [CHR 0x0D], [CHR 0xC2, CHR 0x85], [CHR 0xE2, CHR 0x80, CHR 0xA8], [CHR 0xE2, CHR 0x80, CHR 0xA9]]"

definition text_node :: "string \<Rightarrow> ynode" where
  "text_node s = YNode ScalarNode
     (if nl \<in> set s then (if has_prefix s [tab] \<or> isLineBreak_prefix s then [DoubleQuotedStyle] else [LiteralStyle]) else [])
     ''!!str'' s 0 []"

definition number_node :: "int \<Rightarrow> ynode" where
  "number_node i = YNode ScalarNode [] ''!!int'' (itoa i) 0 []"

definition bool_node :: "bool \<Rightarrow> ynode" where
  "bool_node b = YNode ScalarNode [] ''!!bool'' (if b then ''true'' else ''false'') 0 []"

definition add_node :: "ynode \<Rightarrow> string \<Rightarrow> ynode \<Rightarrow> ynode" where
  "add_node m key val =
     YNode (y_kind m) (y_style m) (y_tag m) (y_value m) (y_line m) (y_content m @ [text_node key, val])"

definition addList :: "ynode \<Rightarrow> string \<Rightarrow> string list option \<Rightarrow> ynode" where
  "addList m key items = (case items of
     None \<Rightarrow> m
   | Some its \<Rightarrow> add_node m key
       (YNode SequenceNode [FlowStyle] [] [] 0 (map (\<lambda>it. YNode ScalarNode [] ''!!str'' it 0 []) its)))"

definition addDuration :: "ynode \<Rightarrow> string \<Rightarrow> duration \<Rightarrow> duration \<Rightarrow> ynode" where
  "addDuration m key d def =
     (if d \<noteq> 0 \<and> d \<noteq> def then add_node m key (YNode ScalarNode [] [] (shortDuration d) 0 []) else m)"

text \<open>A key written only under a condition.\<close>

definition addIf :: "bool \<Rightarrow> string \<Rightarrow> ynode \<Rightarrow> ynode \<Rightarrow> ynode" where
  "addIf c key val m = (if c then add_node m key val else m)"

definition formatInput :: "input \<Rightarrow> ynode" where
  "formatInput i =
     (let n = mapNode [FlowStyle] [];
          n1 = addIf (input_label i \<noteq> []) ''label'' (text_node (input_label i)) n;
          n2 = addIf (input_default i \<noteq> []) ''default'' (text_node (input_default i)) n1;
          n3 = addIf (input_required i) ''required'' (bool_node True) n2
      in addIf (input_raw i) ''raw'' (bool_node True) n3)"

definition formatPackages :: "packages_step \<Rightarrow> ynode \<Rightarrow> ynode" where
  "formatPackages p body =
     (let b1 = addIf (ps_update p) ''update'' (bool_node True) body;
          b2 = (if ps_upgrade_all p then add_node b1 ''upgrade'' (text_node ''all'')
                else addList b1 ''upgrade'' (ps_upgrade p));
          b3 = addList b2 ''install'' (ps_install p)
      in addList b3 ''remove'' (ps_remove p))"

definition formatBody :: "step \<Rightarrow> ynode" where
  "formatBody s =
     (let body = mapNode [] [] in
      if step_kind s = StepPackages then
        (case step_packages s of None \<Rightarrow> body | Some p \<Rightarrow> formatPackages p body)
      else if step_kind s = StepService then
        (case step_service s of None \<Rightarrow> body | Some sv \<Rightarrow>
          add_node (add_node body ''name'' (text_node (ss_name sv))) ''action'' (text_node (ss_action sv)))
      else if step_kind s = StepCommand then
        (case step_command s of None \<Rightarrow> body | Some c \<Rightarrow>
          addDuration (addIf (cs_script c \<noteq> []) ''script'' (text_node (cs_script c))
                        (addIf (cs_run c \<noteq> []) ''run'' (text_node (cs_run c)) body))
            ''timeout'' (cs_timeout c) DefaultCommandTimeout)
      else if step_kind s = StepFile then
        (case step_file s of None \<Rightarrow> body | Some f \<Rightarrow>
          addIf (fs_owner f \<noteq> []) ''owner'' (text_node (fs_owner f))
            (addIf (fs_mode f \<noteq> []) ''mode'' (text_node (fs_mode f))
              (add_node (add_node body ''path'' (text_node (fs_path f))) ''content'' (text_node (fs_content f)))))
      else if step_kind s = StepStack then
        (case step_stack s of None \<Rightarrow> body | Some st \<Rightarrow>
          addIf (st_up st) ''up'' (bool_node True)
            (add_node (add_node body ''name'' (text_node (st_name st))) ''compose'' (text_node (st_compose st))))
      else if step_kind s = StepReboot then
        (case step_reboot s of None \<Rightarrow> body | Some r \<Rightarrow>
          addDuration (addIf (\<not> rb_only_if_required r) ''only_if_required'' (bool_node False) body)
            ''wait'' (rb_wait r) DefaultRebootWait)
      else body)"

definition formatStep :: "step \<Rightarrow> ynode" where
  "formatStep s =
     (let n = addIf (step_continue_on_error s) ''continue_on_error'' (bool_node True)
                (addIf (step_name s \<noteq> []) ''name'' (text_node (step_name s)) (mapNode [] []))
      in if step_kind s = [] then n else add_node n (step_kind s) (formatBody s))"

definition formatInputs :: "input list \<Rightarrow> ynode" where
  "formatInputs ins = foldl (\<lambda>n i. add_node n (input_name i) (formatInput i)) (mapNode [] []) ins"

definition formatTargets :: "targets \<Rightarrow> ynode" where
  "formatTargets tg =
     addList (addList (addList (mapNode [] []) ''groups'' (tgt_groups tg)) ''kinds'' (tgt_kinds tg)) ''nodes'' (tgt_nodes tg)"

definition formatTask :: "task \<Rightarrow> ynode" where
  "formatTask t =
     (let d1 = add_node (mapNode [] []) ''name'' (text_node (task_name t));
          d2 = addIf (task_description t \<noteq> []) ''description'' (text_node (task_description t)) d1;
          d3 = addIf (task_inputs t \<noteq> []) ''inputs'' (formatInputs (task_inputs t)) d2;
          d4 = addIf (tgt_groups (task_targets t) \<noteq> None \<or> tgt_kinds (task_targets t) \<noteq> None \<or>
                      tgt_nodes (task_targets t) \<noteq> None) ''targets'' (formatTargets (task_targets t)) d3;
          d5 = addIf (task_batch t \<noteq> 0 \<and> task_batch t \<noteq> 1) ''batch'' (number_node (task_batch t)) d4;
          d6 = addIf (\<not> task_stop_on_failure t) ''stop_on_failure'' (bool_node False) d5
      in add_node d6 ''steps'' (YNode SequenceNode [] [] [] 0 (map formatStep (task_steps t))))"

datatype formatError = NoTask | EncodeError string

definition Format :: "(ynode \<Rightarrow> string + string) \<Rightarrow> task option \<Rightarrow> formatError + string" where
  "Format encode t = (case t of
     None \<Rightarrow> Inl NoTask
   | Some tk \<Rightarrow> (case encode (formatTask tk) of Inl e \<Rightarrow> Inl (EncodeError e) | Inr doc \<Rightarrow> Inr doc))"

section \<open>What decoding gives back\<close>

inductive yreads :: "yaml_lib \<Rightarrow> ynode \<Rightarrow> ynode \<Rightarrow> bool" for Y where
  "list_all2 (yreads Y) cs cs' \<Longrightarrow> n' = YNode k st' tg' v l' cs' \<Longrightarrow>
   (k = ScalarNode \<Longrightarrow> \<not> isNull n') \<Longrightarrow>
   (tg = ''!!bool'' \<Longrightarrow> yl_bool Y n' = Some (v = ''true'')) \<Longrightarrow>
   (\<And>i. tg = ''!!int'' \<Longrightarrow> v = itoa i \<Longrightarrow> yl_int Y n' = Some i) \<Longrightarrow>
   yreads Y (YNode k st tg v l cs) n'"

inductive_cases yreadsE: "yreads Y (YNode k st tg v l cs) n'"

text \<open>The keys a mapping may be written with, each with its value if it is written; \<open>pairs\<close>
  is the content \<open>add_node\<close> builds from them.\<close>

fun pairs :: "(string \<times> ynode option) list \<Rightarrow> ynode list" where
  "pairs [] = []"
| "pairs ((k, None) # kvs) = pairs kvs"
| "pairs ((k, Some v) # kvs) = text_node k # v # pairs kvs"

fun lookup :: "(string \<times> ynode option) list \<Rightarrow> string \<Rightarrow> ynode option" where
  "lookup [] q = None"
| "lookup ((k, v) # kvs) q = (if q = k then v else lookup kvs q)"

definition listNode :: "string list \<Rightarrow> ynode" where
  "listNode its = YNode SequenceNode [FlowStyle] [] [] 0 (map (\<lambda>it. YNode ScalarNode [] ''!!str'' it 0 []) its)"

lemma pairs_append: "pairs (kvs @ [(k, v)]) = pairs kvs @ (case v of None \<Rightarrow> [] | Some n \<Rightarrow> [text_node k, n])"
  by (induction kvs rule: pairs.induct) (auto split: option.split)

lemma pairs_start: "mapNode st [] = mapNode st (pairs [])"
  by simp

lemma add_node_pairs: "add_node (mapNode st (pairs kvs)) k v = mapNode st (pairs (kvs @ [(k, Some v)]))"
  by (simp add: add_node_def mapNode_def pairs_append)

lemma addIf_pairs:
  "addIf c k v (mapNode st (pairs kvs)) = mapNode st (pairs (kvs @ [(k, if c then Some v else None)]))"
  by (simp add: addIf_def add_node_pairs pairs_append)

lemma addList_pairs:
  "addList (mapNode st (pairs kvs)) k items = mapNode st (pairs (kvs @ [(k, map_option listNode items)]))"
  by (simp add: addList_def add_node_pairs pairs_append listNode_def split: option.split)

lemma addDuration_pairs:
  "addDuration (mapNode st (pairs kvs)) k d def = mapNode st (pairs (kvs @
     [(k, if d \<noteq> 0 \<and> d \<noteq> def then Some (YNode ScalarNode [] [] (shortDuration d) 0 []) else None)]))"
  by (simp add: addDuration_def add_node_pairs pairs_append)

lemmas pairs_simps = add_node_pairs addIf_pairs addList_pairs addDuration_pairs

lemma text_read: "yreads Y (text_node s) n' \<Longrightarrow> y_kind n' = ScalarNode \<and> y_value n' = s \<and> \<not> isNull n'"
  unfolding text_node_def by (erule yreadsE) auto

lemma bool_read: "yreads Y (bool_node b) n' \<Longrightarrow> y_kind n' = ScalarNode \<and> \<not> isNull n' \<and> yl_bool Y n' = Some b"
  unfolding bool_node_def by (erule yreadsE) (auto split: if_splits)

lemma number_read: "yreads Y (number_node i) n' \<Longrightarrow> y_kind n' = ScalarNode \<and> \<not> isNull n' \<and> yl_int Y n' = Some i"
  unfolding number_node_def by (erule yreadsE) auto

lemma mapNode_read: "yreads Y (mapNode st cs) n' \<Longrightarrow> y_kind n' = MappingNode \<and> list_all2 (yreads Y) cs (y_content n')"
  unfolding mapNode_def by (erule yreadsE) auto

lemma seq_read:
  "yreads Y (YNode SequenceNode st tg v l cs) n' \<Longrightarrow> y_kind n' = SequenceNode \<and> list_all2 (yreads Y) cs (y_content n')"
  by (erule yreadsE) auto

lemma listNode_read:
  assumes "yreads Y (listNode its) n'"
  shows "y_kind n' = SequenceNode \<and> list_of n' what = (y_content n', []) \<and> values_of (y_content n') = its"
proof -
  have n: "y_kind n' = SequenceNode" "list_all2 (yreads Y) (map (\<lambda>it. YNode ScalarNode [] ''!!str'' it 0 []) its) (y_content n')"
    using assms seq_read unfolding listNode_def by blast+
  have "list_all2 (\<lambda>it c. y_kind c = ScalarNode \<and> \<not> isNull c \<and> y_value c = it) its (y_content n')"
    using n(2) unfolding list_all2_map1 by (rule list_all2_mono) (auto elim: yreadsE)
  then have "(\<forall>c\<in>set (y_content n'). y_kind c = ScalarNode \<and> \<not> isNull c) \<and> values_of (y_content n') = its"
    by (induction rule: list_all2_induct) (auto simp: values_of_def)
  then show ?thesis using n(1) by (simp add: list_of_def concat_map_Nil del: concat_eq_Nil_conv)
qed

text \<open>The entries and fields read from written pairs.\<close>

inductive entries_read :: "yaml_lib \<Rightarrow> (string \<times> ynode option) list \<Rightarrow> entry list \<Rightarrow> bool" for Y where
  "entries_read Y [] []"
| "entries_read Y kvs es \<Longrightarrow> entries_read Y ((k, None) # kvs) es"
| "entries_read Y kvs es \<Longrightarrow> y_value (e_key e) = k \<Longrightarrow> yreads Y v (e_val e) \<Longrightarrow>
   entries_read Y ((k, Some v) # kvs) (e # es)"

definition field_read :: "yaml_lib \<Rightarrow> ynode option \<Rightarrow> entry option \<Rightarrow> bool" where
  "field_read Y v e \<longleftrightarrow> (case v of None \<Rightarrow> e = None | Some n \<Rightarrow> (\<exists>x. e = Some x \<and> yreads Y n (e_val x)))"

definition fields_read :: "yaml_lib \<Rightarrow> (string \<times> ynode option) list \<Rightarrow> fields \<Rightarrow> bool" where
  "fields_read Y kvs f \<longleftrightarrow> (\<forall>k. field_read Y (lookup kvs k) (f k))"

lemma mappingEntries_read:
  "list_all2 (yreads Y) (pairs kvs) cs \<Longrightarrow> distinct (map fst kvs) \<Longrightarrow> fst ` set kvs \<inter> set seen = {} \<Longrightarrow>
   \<exists>es. mappingEntries what seen cs = (es, []) \<and> entries_read Y kvs es"
proof (induction kvs arbitrary: cs seen rule: pairs.induct)
  case 1
  then show ?case by (auto intro: entries_read.intros)
next
  case (2 k kvs)
  then show ?case by (fastforce intro: entries_read.intros)
next
  case (3 k v kvs)
  obtain a b cs' where cs: "cs = a # b # cs'" "yreads Y (text_node k) a" "yreads Y v b"
    "list_all2 (yreads Y) (pairs kvs) cs'"
    using 3(2) by (auto simp: list_all2_Cons1)
  obtain es where "mappingEntries what (k # seen) cs' = (es, [])" "entries_read Y kvs es"
    using 3(1) [OF cs(4), of "k # seen"] 3(3,4) by auto
  then show ?case using cs(1,3) text_read [OF cs(2)] 3(4) by (auto intro!: entries_read.intros)
qed

lemma lookup_absent: "k \<notin> fst ` set kvs \<Longrightarrow> lookup kvs k = None"
  by (induction kvs k rule: lookup.induct) auto

lemma fieldEntries_read:
  "entries_read Y kvs es \<Longrightarrow> fst ` set kvs \<subseteq> set allowed \<Longrightarrow> distinct (map fst kvs) \<Longrightarrow>
   \<exists>f. fieldEntries what allowed es out = (f, []) \<and>
     (\<forall>k. if k \<in> fst ` set kvs then lookup kvs k = None \<and> f k = out k \<or> field_read Y (lookup kvs k) (f k) else f k = out k)"
proof (induction arbitrary: out rule: entries_read.induct)
  case 1
  then show ?case by simp
next
  case (2 kvs es k)
  have p: "fst ` set kvs \<subseteq> set allowed" "distinct (map fst kvs)" using "2.prems" by auto
  obtain f where f: "fieldEntries what allowed es out = (f, [])"
    "\<forall>q. if q \<in> fst ` set kvs then lookup kvs q = None \<and> f q = out q \<or> field_read Y (lookup kvs q) (f q) else f q = out q"
    using "2.IH" [OF p, of out] by blast
  have "k \<notin> fst ` set kvs" using "2.prems" by simp
  then show ?case using f by (intro exI [of _ f]) auto
next
  case (3 kvs es e k v)
  have p: "fst ` set kvs \<subseteq> set allowed" "distinct (map fst kvs)" using "3.prems" by auto
  obtain f where f: "fieldEntries what allowed es (out(k \<mapsto> e)) = (f, [])"
    "\<forall>q. if q \<in> fst ` set kvs then lookup kvs q = None \<and> f q = (out(k \<mapsto> e)) q \<or> field_read Y (lookup kvs q) (f q)
         else f q = (out(k \<mapsto> e)) q"
    using "3.IH" [OF p, of "out(k \<mapsto> e)"] by blast
  have k: "k \<notin> fst ` set kvs" using "3.prems" by simp
  then have "f k = Some e" using f(2) by simp
  then have fk: "field_read Y (Some v) (f k)" using "3.hyps" by (simp add: field_read_def)
  have "if q \<in> fst ` set ((k, Some v) # kvs) then lookup ((k, Some v) # kvs) q = None \<and> f q = out q \<or>
      field_read Y (lookup ((k, Some v) # kvs) q) (f q) else f q = out q" for q
    using spec [OF f(2), of q] fk by (cases "q = k") (auto split: if_splits)
  moreover have "fieldEntries what allowed (e # es) out = (f, [])" using f(1) "3.hyps" "3.prems" by simp
  ultimately show ?case by blast
qed

lemma mapping_read:
  assumes "yreads Y (mapNode st (pairs kvs)) n'" and "distinct (map fst kvs)"
  shows "\<exists>es. mapping n' what = (Some es, []) \<and> entries_read Y kvs es"
  using mapNode_read [OF assms(1)] mappingEntries_read [of Y kvs "y_content n'" "[]" what] assms(2)
  by (auto simp: mapping_def)

lemma fields_of_read:
  assumes "yreads Y (mapNode st (pairs kvs)) n'" and "distinct (map fst kvs)" and "fst ` set kvs \<subseteq> set allowed"
  shows "\<exists>f. fields_of n' what allowed = (Some f, []) \<and> fields_read Y kvs f"
proof -
  obtain es where m: "mapping n' what = (Some es, [])" and es: "entries_read Y kvs es"
    using mapping_read [OF assms(1,2)] by blast
  obtain f where f: "fieldEntries what allowed es Map.empty = (f, [])"
    "\<forall>k. if k \<in> fst ` set kvs then lookup kvs k = None \<and> f k = None \<or> field_read Y (lookup kvs k) (f k) else f k = None"
    using fieldEntries_read [OF es assms(3,2), of what Map.empty] by blast
  have "field_read Y (lookup kvs k) (f k)" for k
    using spec [OF f(2), of k] lookup_absent [of k kvs] by (auto simp: field_read_def split: if_splits)
  then show ?thesis using m f(1) by (simp add: fields_of_def fields_read_def)
qed

section \<open>Reading each value back\<close>

lemma fields_read_None: "fields_read Y kvs f \<Longrightarrow> lookup kvs key = None \<Longrightarrow> f key = None"
  unfolding fields_read_def field_read_def by (drule spec [of _ key]) simp

lemma fields_read_Some:
  assumes "fields_read Y kvs f" and "lookup kvs key = Some v"
  obtains e where "f key = Some e" and "yreads Y v (e_val e)"
  using spec [OF assms(1) [unfolded fields_read_def], of key] assms(2) by (auto simp: field_read_def)

lemma str_read:
  assumes "fields_read Y kvs f" and "lookup kvs key = Some (text_node s)"
  shows "\<exists>v. str f key what req parent = (Some v, []) \<and> y_value v = s"
proof -
  obtain e where "f key = Some e" "yreads Y (text_node s) (e_val e)" using assms by (rule fields_read_Some)
  then show ?thesis using text_read by (auto simp: str_def)
qed

lemma str_read_opt:
  assumes "fields_read Y kvs f" and "lookup kvs key = (if s \<noteq> [] then Some (text_node s) else None)"
  shows "\<exists>v. str f key what False parent = (v, []) \<and> str_of v = s \<and> (v = None \<longleftrightarrow> s = [])"
proof (cases "s = []")
  case True
  then show ?thesis using fields_read_None [OF assms(1)] assms(2) by (simp add: str_def str_of_def)
next
  case False
  then show ?thesis using str_read [OF assms(1), of key s what False parent] assms(2) by (auto simp: str_of_def)
qed

lemma boolean_read:
  assumes "fields_read Y kvs f" and "lookup kvs key = (if b \<noteq> def then Some (bool_node b) else None)"
  shows "boolean Y f key what def = (b, [])"
proof (cases "b = def")
  case True
  then show ?thesis using fields_read_None [OF assms(1)] assms(2) by (simp add: boolean_def)
next
  case False
  then obtain e where "f key = Some e" "yreads Y (bool_node b) (e_val e)"
    using fields_read_Some [OF assms(1), of key "bool_node b"] assms(2) by auto
  then show ?thesis using bool_read by (fastforce simp: boolean_def)
qed

lemma duration_read:
  assumes "fields_read Y kvs f"
    and "lookup kvs key = (if d \<noteq> 0 \<and> d \<noteq> def then Some (YNode ScalarNode [] [] (shortDuration d) 0 []) else None)"
    and "0 < d" and "d < 2 ^ 63"
  shows "duration_of Y f key what def = (d, [])"
proof (cases "d = def")
  case True
  then show ?thesis using fields_read_None [OF assms(1)] assms(2) by (simp add: duration_of_def)
next
  case False
  then obtain e where e: "f key = Some e" "yreads Y (YNode ScalarNode [] [] (shortDuration d) 0 []) (e_val e)"
    using fields_read_Some [OF assms(1), of key] assms(2,3) by auto
  from e(2) have "y_kind (e_val e) = ScalarNode" "y_value (e_val e) = shortDuration d" "\<not> isNull (e_val e)"
    by (auto elim: yreadsE)
  then show ?thesis using e(1) shortDuration_parse [OF assms(3,4)] assms(3) by (simp add: duration_of_def)
qed

lemma packageKey_read:
  assumes "fields_read Y kvs f" and "lookup kvs key = map_option listNode l" and "names_ok p l"
  shows "packageKey p f kind key = (l, []) \<and> (present f key \<longleftrightarrow> l \<noteq> None)"
proof (cases l)
  case None
  then show ?thesis using fields_read_None [OF assms(1)] assms(2) by (simp add: packageKey_def present_def)
next
  case (Some its)
  then obtain e where e: "f key = Some e" "yreads Y (listNode its) (e_val e)"
    using fields_read_Some [OF assms(1), of key "listNode its"] assms(2) by auto
  note l = listNode_read [OF e(2), of "TheStepKey kind key"]
  then have "\<not> isNull (e_val e)" "y_content (e_val e) \<noteq> []"
    using assms(3) Some by (auto simp: isNull_def names_ok_def values_of_def)
  then show ?thesis using e(1) l assms(3) Some
    by (simp add: packageKey_def present_def packageNames_Nil names_ok_def Let_def)
qed

lemma upgradeKey_read:
  assumes "fields_read Y kvs f"
    and "lookup kvs ''upgrade'' = (if all then Some (text_node ''all'') else map_option listNode l)"
    and "names_ok p l" and "all \<Longrightarrow> l = None"
  shows "upgradeKey p f kind = (all, l, []) \<and> (present f ''upgrade'' \<longleftrightarrow> all \<or> l \<noteq> None)"
proof (cases "all \<or> l = None")
  case True
  show ?thesis
  proof (cases all)
    case True
    then obtain e where "f ''upgrade'' = Some e" "yreads Y (text_node ''all'') (e_val e)"
      using fields_read_Some [OF assms(1), of "''upgrade''" "text_node ''all''"] assms(2) by auto
    then show ?thesis using text_read assms(4) True by (fastforce simp: upgradeKey_def present_def)
  qed (use True fields_read_None [OF assms(1)] assms(2) in \<open>simp add: upgradeKey_def present_def\<close>)
next
  case False
  then obtain its where its: "l = Some its" "\<not> all" by auto
  then obtain e where e: "f ''upgrade'' = Some e" "yreads Y (listNode its) (e_val e)"
    using fields_read_Some [OF assms(1), of "''upgrade''" "listNode its"] assms(2) by auto
  note l = listNode_read [OF e(2), of "TheStepKey kind ''upgrade''"]
  then have "\<not> isNull (e_val e)" "y_content (e_val e) \<noteq> []"
    using assms(3) its by (auto simp: isNull_def names_ok_def values_of_def)
  then show ?thesis using e(1) l assms(3) its
    by (simp add: upgradeKey_def present_def packageNames_Nil names_ok_def Let_def)
qed

section \<open>Reading each step back\<close>

lemma packages_read:
  assumes "yreads Y (formatPackages b (mapNode [] [])) n'" and wf: "wf_packages p b"
  shows "packages Y p n' = (Some b, [])"
proof -
  let ?kvs = "[(''update'', if ps_update b then Some (bool_node True) else None),
    (''upgrade'', if ps_upgrade_all b then Some (text_node ''all'') else map_option listNode (ps_upgrade b)),
    (''install'', map_option listNode (ps_install b)), (''remove'', map_option listNode (ps_remove b))]"
  have "formatPackages b (mapNode [] (pairs [])) = mapNode [] (pairs ?kvs)"
    unfolding formatPackages_def Let_def pairs_simps by (simp add: pairs_simps del: pairs.simps)
  then obtain f where f: "fields_of n' (TheStep StepPackages) [''update'', ''upgrade'', ''install'', ''remove''] = (Some f, [])"
    and fr: "fields_read Y ?kvs f"
    using fields_of_read [of Y "[]" ?kvs n' "[''update'', ''upgrade'', ''install'', ''remove'']"] assms(1) by auto
  have ok: "names_ok p (ps_upgrade b)" "names_ok p (ps_install b)" "names_ok p (ps_remove b)"
    "ps_upgrade_all b \<Longrightarrow> ps_upgrade b = None" using wf by (simp_all add: wf_packages_def)
  have u: "boolean Y f ''update'' (TheStep StepPackages) False = (ps_update b, [])"
    by (rule boolean_read [OF fr]) simp
  have g: "upgradeKey p f StepPackages = (ps_upgrade_all b, ps_upgrade b, []) \<and>
      (present f ''upgrade'' \<longleftrightarrow> ps_upgrade_all b \<or> ps_upgrade b \<noteq> None)"
    by (rule upgradeKey_read [OF fr _ ok(1,4)]) simp_all
  have i: "packageKey p f StepPackages ''install'' = (ps_install b, []) \<and> (present f ''install'' \<longleftrightarrow> ps_install b \<noteq> None)"
    by (rule packageKey_read [OF fr _ ok(2)]) simp
  have r: "packageKey p f StepPackages ''remove'' = (ps_remove b, []) \<and> (present f ''remove'' \<longleftrightarrow> ps_remove b \<noteq> None)"
    by (rule packageKey_read [OF fr _ ok(3)]) simp
  have "packageActions f n' (ps_update b) = []"
    using g i r wf by (auto simp: packageActions_def wf_packages_def packageActs_def split: if_splits)
  then show ?thesis using f u g i r by (simp add: packages_def)
qed

lemma service_read:
  assumes "yreads Y (add_node (add_node (mapNode [] (pairs [])) ''name'' (text_node (ss_name b))) ''action'' (text_node (ss_action b))) n'"
    and wf: "wf_service p b"
  shows "service p n' = (Some b, [])"
proof -
  let ?kvs = "[(''name'', Some (text_node (ss_name b))), (''action'', Some (text_node (ss_action b)))]"
  obtain f where f: "fields_of n' (TheStep StepService) [''name'', ''action''] = (Some f, [])" and fr: "fields_read Y ?kvs f"
    using fields_of_read [of Y "[]" ?kvs n' "[''name'', ''action'']"] assms(1) by (auto simp: pairs_simps simp del: pairs.simps)
  obtain v where v: "str f ''name'' (TheStep StepService) True n' = (Some v, [])" "y_value v = ss_name b"
    using str_read [OF fr, of "''name''" "ss_name b" "TheStep StepService" True n'] by auto
  obtain a where a: "str f ''action'' (TheStep StepService) True n' = (Some a, [])" "y_value a = ss_action b"
    using str_read [OF fr, of "''action''" "ss_action b" "TheStep StepService" True n'] by auto
  show ?thesis using f v a wf by (simp add: service_def wf_service_def refs_in_Nil str_of_def)
qed

lemma command_read:
  assumes "yreads Y (addDuration (addIf (cs_script b \<noteq> []) ''script'' (text_node (cs_script b))
      (addIf (cs_run b \<noteq> []) ''run'' (text_node (cs_run b)) (mapNode [] (pairs []))))
      ''timeout'' (cs_timeout b) DefaultCommandTimeout) n'"
    and wf: "wf_command p b"
  shows "command_of Y p n' = (Some b, [])"
proof -
  let ?kvs = "[(''run'', if cs_run b \<noteq> [] then Some (text_node (cs_run b)) else None),
    (''script'', if cs_script b \<noteq> [] then Some (text_node (cs_script b)) else None),
    (''timeout'', if cs_timeout b \<noteq> 0 \<and> cs_timeout b \<noteq> DefaultCommandTimeout
       then Some (YNode ScalarNode [] [] (shortDuration (cs_timeout b)) 0 []) else None)]"
  obtain f where f: "fields_of n' (TheStep StepCommand) [''run'', ''script'', ''timeout''] = (Some f, [])"
    and fr: "fields_read Y ?kvs f"
    using fields_of_read [of Y "[]" ?kvs n' "[''run'', ''script'', ''timeout'']"] assms(1)
    by (auto simp: pairs_simps simp del: pairs.simps)
  obtain rv where rv: "str f ''run'' (TheStep StepCommand) False n' = (rv, [])" "str_of rv = cs_run b" "rv = None \<longleftrightarrow> cs_run b = []"
    using str_read_opt [OF fr, of "''run''" "cs_run b"] by auto
  obtain sv where sv: "str f ''script'' (TheStep StepCommand) False n' = (sv, [])" "str_of sv = cs_script b" "sv = None \<longleftrightarrow> cs_script b = []"
    using str_read_opt [OF fr, of "''script''" "cs_script b"] by auto
  have d: "duration_of Y f ''timeout'' ''command'' DefaultCommandTimeout = (cs_timeout b, [])"
    using wf by (intro duration_read [OF fr]) (auto simp: wf_command_def)
  have "cs_run b \<noteq> [] \<or> cs_script b \<noteq> []" using wf by (auto simp: wf_command_def)
  then show ?thesis using f rv sv d wf
    by (simp add: command_of_def wf_command_def refs_in_Nil shellRefs_Nil case_prod_beta)
qed

lemma file_read:
  assumes "yreads Y (addIf (fs_owner b \<noteq> []) ''owner'' (text_node (fs_owner b))
      (addIf (fs_mode b \<noteq> []) ''mode'' (text_node (fs_mode b))
        (add_node (add_node (mapNode [] (pairs [])) ''path'' (text_node (fs_path b))) ''content'' (text_node (fs_content b))))) n'"
    and wf: "wf_file p b"
  shows "file_of p n' = (Some b, [])"
proof -
  let ?kvs = "[(''path'', Some (text_node (fs_path b))), (''content'', Some (text_node (fs_content b))),
    (''mode'', if fs_mode b \<noteq> [] then Some (text_node (fs_mode b)) else None),
    (''owner'', if fs_owner b \<noteq> [] then Some (text_node (fs_owner b)) else None)]"
  obtain f where f: "fields_of n' (TheStep StepFile) [''path'', ''content'', ''mode'', ''owner''] = (Some f, [])"
    and fr: "fields_read Y ?kvs f"
    using fields_of_read [of Y "[]" ?kvs n' "[''path'', ''content'', ''mode'', ''owner'']"] assms(1)
    by (auto simp: pairs_simps simp del: pairs.simps)
  obtain pv where pv: "str f ''path'' (TheStep StepFile) True n' = (Some pv, [])" "y_value pv = fs_path b"
    using str_read [OF fr, of "''path''" "fs_path b" "TheStep StepFile" True n'] by auto
  obtain cv where cv: "str f ''content'' (TheStep StepFile) True n' = (Some cv, [])" "y_value cv = fs_content b"
    using str_read [OF fr, of "''content''" "fs_content b" "TheStep StepFile" True n'] by auto
  obtain mv where mv: "str f ''mode'' (TheStep StepFile) False n' = (mv, [])" "str_of mv = fs_mode b" "mv = None \<longleftrightarrow> fs_mode b = []"
    using str_read_opt [OF fr, of "''mode''" "fs_mode b"] by auto
  obtain ov where ov: "str f ''owner'' (TheStep StepFile) False n' = (ov, [])" "str_of ov = fs_owner b"
    using str_read_opt [OF fr, of "''owner''" "fs_owner b"] by auto
  have m: "(case mv of None \<Rightarrow> [] | Some v \<Rightarrow> (case checkFileMode (y_value v) of None \<Rightarrow> []
      | Some err \<Rightarrow> addf (y_line v) (FileModeInvalid (y_value v) err))) = []"
    using mv(2,3) wf by (cases mv) (auto simp: wf_file_def str_of_def)
  have "refs_in p (Some pv) = []" using pv wf by (simp add: refs_in_Nil str_of_def wf_file_def)
  then show ?thesis using f pv cv mv(1,2) ov m wf
    by (simp add: file_of_def wf_file_def refs_in_Nil str_of_def [of "Some _"] case_prod_beta)
qed

lemma stack_read:
  assumes "yreads Y (addIf (st_up b) ''up'' (bool_node True)
      (add_node (add_node (mapNode [] (pairs [])) ''name'' (text_node (st_name b))) ''compose'' (text_node (st_compose b)))) n'"
    and wf: "wf_stack p b"
  shows "stack Y p n' = (Some b, [])"
proof -
  let ?kvs = "[(''name'', Some (text_node (st_name b))), (''compose'', Some (text_node (st_compose b))),
    (''up'', if st_up b then Some (bool_node True) else None)]"
  obtain f where f: "fields_of n' (TheStep StepStack) [''name'', ''compose'', ''up''] = (Some f, [])" and fr: "fields_read Y ?kvs f"
    using fields_of_read [of Y "[]" ?kvs n' "[''name'', ''compose'', ''up'']"] assms(1) by (auto simp: pairs_simps simp del: pairs.simps)
  obtain v where v: "str f ''name'' (TheStep StepStack) True n' = (Some v, [])" "y_value v = st_name b"
    using str_read [OF fr, of "''name''" "st_name b" "TheStep StepStack" True n'] by auto
  obtain c where c: "str f ''compose'' (TheStep StepStack) True n' = (Some c, [])" "y_value c = st_compose b"
    using str_read [OF fr, of "''compose''" "st_compose b" "TheStep StepStack" True n'] by auto
  have "boolean Y f ''up'' (TheStep StepStack) False = (st_up b, [])" by (rule boolean_read [OF fr]) simp
  then show ?thesis using f v c wf by (simp add: stack_def wf_stack_def refs_in_Nil str_of_def)
qed

lemma reboot_read:
  assumes "yreads Y (addDuration (addIf (\<not> rb_only_if_required b) ''only_if_required'' (bool_node False) (mapNode [] (pairs [])))
      ''wait'' (rb_wait b) DefaultRebootWait) n'"
    and wf: "wf_reboot b"
  shows "reboot Y n' = (Some b, [])"
proof -
  let ?kvs = "[(''only_if_required'', if \<not> rb_only_if_required b then Some (bool_node False) else None),
    (''wait'', if rb_wait b \<noteq> 0 \<and> rb_wait b \<noteq> DefaultRebootWait
       then Some (YNode ScalarNode [] [] (shortDuration (rb_wait b)) 0 []) else None)]"
  obtain f where f: "fields_of n' (TheStep StepReboot) [''only_if_required'', ''wait''] = (Some f, [])" and fr: "fields_read Y ?kvs f"
    using fields_of_read [of Y "[]" ?kvs n' "[''only_if_required'', ''wait'']"] assms(1) by (auto simp: pairs_simps simp del: pairs.simps)
  have "boolean Y f ''only_if_required'' (TheStep StepReboot) True = (rb_only_if_required b, [])"
    by (rule boolean_read [OF fr]) simp
  moreover have "duration_of Y f ''wait'' ''reboot'' DefaultRebootWait = (rb_wait b, [])"
    using wf by (intro duration_read [OF fr]) (auto simp: wf_reboot_def)
  ultimately show ?thesis using f by (simp add: reboot_def)
qed

lemma stepBody_read:
  assumes n: "yreads Y (formatBody s) n'" and wf: "wf_step p s"
  shows "stepBody Y p n' (emptyStep (step_name s) (step_continue_on_error s) (step_kind s)) = (s, [])"
proof -
  have eta: "s = \<lparr>step_name = step_name s, step_continue_on_error = step_continue_on_error s, step_kind = step_kind s,
    step_packages = step_packages s, step_service = step_service s, step_command = step_command s,
    step_file = step_file s, step_stack = step_stack s, step_reboot = step_reboot s\<rparr>" by simp
  have none: "step_kind s \<noteq> StepPackages \<Longrightarrow> step_packages s = None" "step_kind s \<noteq> StepService \<Longrightarrow> step_service s = None"
    "step_kind s \<noteq> StepCommand \<Longrightarrow> step_command s = None" "step_kind s \<noteq> StepFile \<Longrightarrow> step_file s = None"
    "step_kind s \<noteq> StepStack \<Longrightarrow> step_stack s = None" "step_kind s \<noteq> StepReboot \<Longrightarrow> step_reboot s = None"
    using wf by (auto simp: wf_step_def)
  note unf = formatBody_def stepBody_def emptyStep_def step_kind_defs
  from wf show ?thesis
  proof (cases rule: wf_stepE)
    case (Packages b)
    have "packages Y p n' = (Some b, [])" using n Packages by (intro packages_read) (simp_all add: unf)
    then show ?thesis using Packages none by (subst (3) eta) (simp add: unf)
  next
    case (Service b)
    have "service p n' = (Some b, [])" using n Service by (intro service_read) (simp_all add: unf)
    then show ?thesis using Service none by (subst (3) eta) (simp add: unf)
  next
    case (Command b)
    have "command_of Y p n' = (Some b, [])" using n Command by (intro command_read) (simp_all add: unf)
    then show ?thesis using Command none by (subst (3) eta) (simp add: unf)
  next
    case (File b)
    have "file_of p n' = (Some b, [])" using n File by (intro file_read) (simp_all add: unf)
    then show ?thesis using File none by (subst (3) eta) (simp add: unf)
  next
    case (Stack b)
    have "stack Y p n' = (Some b, [])" using n Stack by (intro stack_read) (simp_all add: unf)
    then show ?thesis using Stack none by (subst (3) eta) (simp add: unf)
  next
    case (Reboot b)
    have "reboot Y n' = (Some b, [])" using n Reboot by (intro reboot_read) (simp_all add: unf)
    then show ?thesis using Reboot none by (subst (3) eta) (simp add: unf)
  qed
qed

inductive_cases entries_None: "entries_read Y ((k, None) # kvs) es"
inductive_cases entries_Some: "entries_read Y ((k, Some v) # kvs) es"
inductive_cases entries_Nil: "entries_read Y [] es"

text \<open>The entries of a written step: the common keys it has, and its kind.\<close>

lemma stepEntries_read:
  assumes "entries_read Y [(''name'', a), (''continue_on_error'', b), (kind, Some body)] es" and k: "kind \<in> set stepKinds"
  shows "\<exists>common e. stepEntries what es Map.empty None = (common, Some e, []) \<and>
    fields_read Y [(''name'', a), (''continue_on_error'', b)] common \<and> y_value (e_key e) = kind \<and> yreads Y body (e_val e)"
proof -
  have kn: "kind \<noteq> ''name''" "kind \<noteq> ''continue_on_error''" using k by (auto simp: stepKinds_def step_kind_defs)
  obtain es1 where 1: "entries_read Y [(''continue_on_error'', b), (kind, Some body)] es1"
    "(a = None \<and> es = es1) \<or> (\<exists>v e. a = Some v \<and> es = e # es1 \<and> y_value (e_key e) = ''name'' \<and> yreads Y v (e_val e))"
    using assms(1) by (cases a) (auto elim: entries_None entries_Some)
  obtain es2 where 2: "entries_read Y [(kind, Some body)] es2"
    "(b = None \<and> es1 = es2) \<or> (\<exists>v e. b = Some v \<and> es1 = e # es2 \<and> y_value (e_key e) = ''continue_on_error'' \<and> yreads Y v (e_val e))"
    using 1(1) by (cases b) (auto elim: entries_None entries_Some)
  obtain e where 3: "es2 = [e]" "y_value (e_key e) = kind" "yreads Y body (e_val e)"
    using 2(1) by (auto elim: entries_Nil entries_Some)
  show ?thesis
    using 1(2) 2(2) 3 k kn by (auto simp: fields_read_def field_read_def Let_def)
qed

lemma not_null_mapping: "yreads Y (mapNode st cs) n' \<Longrightarrow> \<not> isNull n'"
  by (drule mapNode_read) (simp add: isNull_def)

definition isMap :: "ynode \<Rightarrow> bool" where
  "isMap n \<longleftrightarrow> (\<exists>st cs. n = mapNode st cs)"

lemma isMap_add [simp]:
  "isMap (mapNode st cs)" "isMap m \<Longrightarrow> isMap (add_node m k v)" "isMap m \<Longrightarrow> isMap (addIf c k v m)"
  "isMap m \<Longrightarrow> isMap (addList m k l)" "isMap m \<Longrightarrow> isMap (addDuration m k d def)"
  by (auto simp: isMap_def addIf_def addList_def addDuration_def add_node_def mapNode_def split: option.split)

lemma isMap_formatBody: "isMap (formatBody s)"
  by (simp add: formatBody_def formatPackages_def Let_def split: option.split)

lemma isMap_formatInput: "isMap (formatInput i)"
  by (simp add: formatInput_def Let_def)

lemma isMap_not_null: "isMap n \<Longrightarrow> yreads Y n n' \<Longrightarrow> \<not> isNull n'"
  by (auto simp: isMap_def dest: not_null_mapping)

lemma step_of_read:
  assumes n: "yreads Y (formatStep s) n'" and wf: "wf_step p s"
  shows "step_of Y p n' i = (Some s, [])"
proof -
  let ?a = "if step_name s \<noteq> [] then Some (text_node (step_name s)) else None"
  let ?b = "if step_continue_on_error s then Some (bool_node True) else None"
  let ?kvs = "[(''name'', ?a), (''continue_on_error'', ?b), (step_kind s, Some (formatBody s))]"
  have k: "step_kind s \<in> set stepKinds" using wf by (simp add: wf_step_def)
  then have kn: "step_kind s \<noteq> []" "step_kind s \<noteq> ''name''" "step_kind s \<noteq> ''continue_on_error''"
    by (auto simp: stepKinds_def step_kind_defs)
  have "formatStep s = mapNode [] (pairs ?kvs)"
    unfolding formatStep_def pairs_start Let_def pairs_simps using kn by (simp add: pairs_simps del: pairs.simps)
  then obtain es where m: "mapping n' (StepNumber (i + 1)) = (Some es, [])" and es: "entries_read Y ?kvs es"
    using mapping_read [of Y "[]" ?kvs n'] n kn by auto
  obtain common e where c: "stepEntries (StepNumber (i + 1)) es Map.empty None = (common, Some e, [])"
    and fr: "fields_read Y [(''name'', ?a), (''continue_on_error'', ?b)] common"
    and e: "y_value (e_key e) = step_kind s" "yreads Y (formatBody s) (e_val e)"
    using stepEntries_read [OF es k] by blast
  obtain nv where nv: "str common ''name'' (StepNumber (i + 1)) False n' = (nv, [])" "str_of nv = step_name s"
    using str_read_opt [OF fr, of "''name''" "step_name s"] by auto
  have b: "boolean Y common ''continue_on_error'' (StepNumber (i + 1)) False = (step_continue_on_error s, [])"
    by (rule boolean_read [OF fr]) simp
  have "\<not> isNull (e_val e)" by (rule isMap_not_null [OF isMap_formatBody e(2)])
  then show ?thesis using m c nv b e(1) stepBody_read [OF e(2) wf] by (simp add: step_of_def)
qed

lemma stepList_read:
  "list_all2 (yreads Y) (map formatStep ss) ns \<Longrightarrow> list_all (wf_step p) ss \<Longrightarrow> stepList Y p ns i = (ss, [])"
  by (induction ss arbitrary: ns i) (auto simp: list_all2_Cons1 step_of_read)

section \<open>Reading the inputs, the targets and the task back\<close>

lemma formatInputs_pairs:
  "foldl (\<lambda>n i. add_node n (input_name i) (formatInput i)) (mapNode [] (pairs kvs)) ins =
   mapNode [] (pairs (kvs @ map (\<lambda>i. (input_name i, Some (formatInput i))) ins))"
  by (induction ins arbitrary: kvs) (simp_all add: add_node_pairs)

lemma inputBody_read:
  assumes "yreads Y (formatInput i) n'"
  shows "inputBody Y (input_name i) n' = (Some i, [])"
proof -
  let ?kvs = "[(''label'', if input_label i \<noteq> [] then Some (text_node (input_label i)) else None),
    (''default'', if input_default i \<noteq> [] then Some (text_node (input_default i)) else None),
    (''required'', if input_required i then Some (bool_node True) else None),
    (''raw'', if input_raw i then Some (bool_node True) else None)]"
  have "formatInput i = mapNode [FlowStyle] (pairs ?kvs)"
    unfolding formatInput_def pairs_start Let_def pairs_simps by (simp add: pairs_simps del: pairs.simps)
  then obtain f where f: "fields_of n' (TheInput (input_name i)) [''label'', ''default'', ''required'', ''raw''] = (Some f, [])"
    and fr: "fields_read Y ?kvs f"
    using fields_of_read [of Y "[FlowStyle]" ?kvs n' "[''label'', ''default'', ''required'', ''raw'']"] assms by auto
  obtain lv where l: "str f ''label'' (TheInput (input_name i)) False n' = (lv, [])" "str_of lv = input_label i"
    using str_read_opt [OF fr, of "''label''" "input_label i"] by auto
  obtain dv where d: "str f ''default'' (TheInput (input_name i)) False n' = (dv, [])" "str_of dv = input_default i"
    using str_read_opt [OF fr, of "''default''" "input_default i"] by auto
  have "boolean Y f ''required'' (TheInput (input_name i)) False = (input_required i, [])"
    "boolean Y f ''raw'' (TheInput (input_name i)) False = (input_raw i, [])"
    by (rule boolean_read [OF fr], simp)+
  then show ?thesis using f l d by (simp add: inputBody_def)
qed

lemma inputEntries_read:
  assumes "entries_read Y (map (\<lambda>i. (input_name i, Some (formatInput i))) ins) es"
    and "list_all (\<lambda>i. validInputName (input_name i) \<and> input_name i \<noteq> ''node'') ins"
  shows "\<exists>q. inputEntries Y es p = (ins, q, [])"
  using assms
proof (induction ins arbitrary: es p)
  case Nil
  then show ?case by (auto elim: entries_Nil)
next
  case (Cons i ins)
  obtain e es' where e: "es = e # es'" "y_value (e_key e) = input_name i" "yreads Y (formatInput i) (e_val e)"
    "entries_read Y (map (\<lambda>i. (input_name i, Some (formatInput i))) ins) es'"
    using Cons.prems(1) by (auto elim: entries_Some)
  have "\<not> isNull (e_val e)" by (rule isMap_not_null [OF isMap_formatInput e(3)])
  moreover obtain q where "inputEntries Y es' (p\<lparr>pr_inputs := (pr_inputs p)(input_name i := True),
      pr_raw := (pr_raw p)(input_name i := input_raw i)\<rparr>) = (ins, q, [])"
    using Cons.IH [OF e(4)] Cons.prems(2) by auto
  ultimately show ?case using e Cons.prems(2) inputBody_read [OF e(3)] by (auto simp: Let_def)
qed

lemma inputList_read:
  assumes "yreads Y (formatInputs ins) n'" and wf: "wf_inputs ins"
  shows "inputList Y n' newParser = (ins, parserOf ins, [])"
proof -
  let ?kvs = "map (\<lambda>i. (input_name i, Some (formatInput i))) ins"
  have "formatInputs ins = mapNode [] (pairs ?kvs)"
    using formatInputs_pairs [of "[]" ins] by (simp add: formatInputs_def)
  moreover have d: "distinct (map fst ?kvs)" using wf by (simp add: wf_inputs_def comp_def)
  ultimately obtain es where m: "mapping n' TheInputs = (Some es, [])" and es: "entries_read Y ?kvs es"
    using mapping_read [of Y "[]" ?kvs n'] assms(1) by auto
  obtain q where "inputEntries Y es newParser = (ins, q, [])"
    using inputEntries_read [OF es] wf by (auto simp: wf_inputs_def)
  then have "inputList Y n' newParser = (ins, q, [])" using m by (simp add: inputList_def)
  then show ?thesis using inputList_ok by blast
qed

lemma readNames_read:
  assumes "fields_read Y kvs f" and "lookup kvs key = map_option listNode l"
  shows "readNames f key = (l, [])"
proof (cases l)
  case None
  then show ?thesis using fields_read_None [OF assms(1)] assms(2) by (simp add: readNames_def)
next
  case (Some its)
  then obtain e where e: "f key = Some e" "yreads Y (listNode its) (e_val e)"
    using fields_read_Some [OF assms(1), of key "listNode its"] assms(2) by auto
  have "\<not> isNull (e_val e)" using listNode_read [OF e(2)] by (simp add: isNull_def)
  then show ?thesis using e(1) listNode_read [OF e(2), of "TargetsKey key"] Some by (simp add: readNames_def)
qed

lemma readKinds_read:
  assumes "fields_read Y kvs f" and "lookup kvs ''kinds'' = map_option listNode l"
    and "opt_all (list_all (\<lambda>k. k \<in> set nodeKinds)) l"
  shows "readKinds f = (l, [])"
proof (cases l)
  case None
  then show ?thesis using fields_read_None [OF assms(1)] assms(2) by (simp add: readKinds_def)
next
  case (Some its)
  then obtain e where e: "f ''kinds'' = Some e" "yreads Y (listNode its) (e_val e)"
    using fields_read_Some [OF assms(1), of "''kinds''" "listNode its"] assms(2) by auto
  have "\<not> isNull (e_val e)" using listNode_read [OF e(2)] by (simp add: isNull_def)
  moreover have "\<forall>it\<in>set (y_content (e_val e)). y_value it \<in> set nodeKinds"
  proof -
    have "set its = y_value ` set (y_content (e_val e))"
      using listNode_read [OF e(2), of TheTargets] by (auto simp: values_of_def)
    then show ?thesis using assms(3) Some by (simp add: list_all_iff)
  qed
  ultimately show ?thesis using e(1) listNode_read [OF e(2), of "TargetsKey ''kinds''"] Some
    by (simp add: readKinds_def concat_map_Nil del: concat_eq_Nil_conv)
qed

lemma targets_of_read:
  assumes "yreads Y (formatTargets tg) n'" and "wf_targets tg"
  shows "targets_of n' = (tg, [])"
proof -
  let ?kvs = "[(''groups'', map_option listNode (tgt_groups tg)), (''kinds'', map_option listNode (tgt_kinds tg)),
    (''nodes'', map_option listNode (tgt_nodes tg))]"
  have "formatTargets tg = mapNode [] (pairs ?kvs)"
    unfolding formatTargets_def pairs_start pairs_simps by (simp del: pairs.simps)
  then obtain f where f: "fields_of n' TheTargets [''groups'', ''kinds'', ''nodes''] = (Some f, [])" and fr: "fields_read Y ?kvs f"
    using fields_of_read [of Y "[]" ?kvs n' "[''groups'', ''kinds'', ''nodes'']"] assms(1) by auto
  have "readNames f ''groups'' = (tgt_groups tg, [])" "readNames f ''nodes'' = (tgt_nodes tg, [])"
    by (rule readNames_read [OF fr], simp)+
  moreover have "readKinds f = (tgt_kinds tg, [])"
    by (rule readKinds_read [OF fr]) (use assms(2) in \<open>simp_all add: wf_targets_def\<close>)
  ultimately show ?thesis using f by (simp add: targets_of_def)
qed

lemma task_fields:
  "formatTask t = mapNode [] (pairs
    [(''name'', Some (text_node (task_name t))),
     (''description'', if task_description t \<noteq> [] then Some (text_node (task_description t)) else None),
     (''inputs'', if task_inputs t \<noteq> [] then Some (formatInputs (task_inputs t)) else None),
     (''targets'', if tgt_groups (task_targets t) \<noteq> None \<or> tgt_kinds (task_targets t) \<noteq> None \<or>
        tgt_nodes (task_targets t) \<noteq> None then Some (formatTargets (task_targets t)) else None),
     (''batch'', if task_batch t \<noteq> 0 \<and> task_batch t \<noteq> 1 then Some (number_node (task_batch t)) else None),
     (''stop_on_failure'', if \<not> task_stop_on_failure t then Some (bool_node False) else None),
     (''steps'', Some (YNode SequenceNode [] [] [] 0 (map formatStep (task_steps t))))])"
  unfolding formatTask_def pairs_start Let_def pairs_simps by (simp del: pairs.simps)

lemma batch_read:
  assumes "fields_read Y kvs f" and "lookup kvs ''batch'' = (if b \<noteq> 0 \<and> b \<noteq> 1 then Some (number_node b) else None)" and "1 \<le> b"
  shows "batch_of Y f = (b, [])"
proof (cases "b = 1")
  case True
  then show ?thesis using fields_read_None [OF assms(1)] assms(2) by (simp add: batch_of_def)
next
  case False
  then obtain e where "f ''batch'' = Some e" "yreads Y (number_node b) (e_val e)"
    using fields_read_Some [OF assms(1), of "''batch''" "number_node b"] assms(2,3) by auto
  then show ?thesis using number_read assms(3) by (fastforce simp: batch_of_def)
qed

lemma isMap_formatInputs: "isMap (formatInputs ins)"
  using formatInputs_pairs [of "[]" ins] by (simp add: formatInputs_def)

lemma isMap_formatTargets: "isMap (formatTargets tg)"
  by (simp add: formatTargets_def)

lemma inputs_read:
  assumes "fields_read Y kvs f" and "lookup kvs ''inputs'' = (if ins \<noteq> [] then Some (formatInputs ins) else None)" and "wf_inputs ins"
  shows "(if present f ''inputs'' then inputList Y (e_val (the (f ''inputs''))) newParser else ([], newParser, []))
    = (ins, parserOf ins, [])"
proof (cases "ins = []")
  case True
  then have "f ''inputs'' = None" using fields_read_None [OF assms(1)] assms(2) by simp
  then show ?thesis using True by (simp add: present_def newParser_def parserOf_def)
next
  case False
  then obtain e where e: "f ''inputs'' = Some e" "yreads Y (formatInputs ins) (e_val e)"
    using fields_read_Some [OF assms(1), of "''inputs''" "formatInputs ins"] assms(2) by auto
  then show ?thesis using isMap_not_null [OF isMap_formatInputs e(2)] inputList_read [OF e(2) assms(3)]
    by (simp add: present_def)
qed

lemma targets_read:
  assumes "fields_read Y kvs f"
    and "lookup kvs ''targets'' = (if tgt_groups tg \<noteq> None \<or> tgt_kinds tg \<noteq> None \<or> tgt_nodes tg \<noteq> None
      then Some (formatTargets tg) else None)"
    and "wf_targets tg"
  shows "(if present f ''targets'' then targets_of (e_val (the (f ''targets''))) else (emptyTargets, [])) = (tg, [])"
proof (cases "tgt_groups tg \<noteq> None \<or> tgt_kinds tg \<noteq> None \<or> tgt_nodes tg \<noteq> None")
  case True
  then obtain e where e: "f ''targets'' = Some e" "yreads Y (formatTargets tg) (e_val e)"
    using fields_read_Some [OF assms(1), of "''targets''" "formatTargets tg"] assms(2) by auto
  then show ?thesis using isMap_not_null [OF isMap_formatTargets e(2)] targets_of_read [OF e(2) assms(3)]
    by (simp add: present_def)
next
  case False
  then have "f ''targets'' = None" "tg = emptyTargets"
    using fields_read_None [OF assms(1)] assms(2) by (simp_all add: emptyTargets_def)
  then show ?thesis by (simp add: present_def)
qed

lemma steps_read:
  assumes "fields_read Y kvs f"
    and "lookup kvs ''steps'' = Some (YNode SequenceNode [] [] [] 0 (map formatStep ss))"
    and "list_all (wf_step p) ss" and "ss \<noteq> []" and "length ss \<le> MaxSteps"
  shows "steps_of Y p f doc = (ss, [])"
proof -
  obtain e where e: "f ''steps'' = Some e" "yreads Y (YNode SequenceNode [] [] [] 0 (map formatStep ss)) (e_val e)"
    using assms(1,2) by (rule fields_read_Some)
  have s: "y_kind (e_val e) = SequenceNode" "list_all2 (yreads Y) (map formatStep ss) (y_content (e_val e))"
    using seq_read [OF e(2)] by auto
  moreover from this have "length (y_content (e_val e)) = length ss" by (metis length_map list_all2_lengthD)
  ultimately show ?thesis using e(1) stepList_read [OF s(2) assms(3)] assms(4,5)
    by (auto simp: steps_of_def isNull_def)
qed

lemma task_of_read:
  assumes n: "yreads Y (formatTask t) n'" and wf: "wf_task t" and root: "docRoot root = n'"
  shows "task_of Y root = (Some t, [])"
proof -
  obtain f where f: "fields_of n' TheTask taskKeys = (Some f, [])" and fr: "fields_read Y
    [(''name'', Some (text_node (task_name t))),
     (''description'', if task_description t \<noteq> [] then Some (text_node (task_description t)) else None),
     (''inputs'', if task_inputs t \<noteq> [] then Some (formatInputs (task_inputs t)) else None),
     (''targets'', if tgt_groups (task_targets t) \<noteq> None \<or> tgt_kinds (task_targets t) \<noteq> None \<or>
        tgt_nodes (task_targets t) \<noteq> None then Some (formatTargets (task_targets t)) else None),
     (''batch'', if task_batch t \<noteq> 0 \<and> task_batch t \<noteq> 1 then Some (number_node (task_batch t)) else None),
     (''stop_on_failure'', if \<not> task_stop_on_failure t then Some (bool_node False) else None),
     (''steps'', Some (YNode SequenceNode [] [] [] 0 (map formatStep (task_steps t))))] f"
    using fields_of_read [OF n [unfolded task_fields], of taskKeys TheTask] by (auto simp: taskKeys_def)
  have w: "trim_space (task_name t) \<noteq> []" "wf_inputs (task_inputs t)" "wf_targets (task_targets t)" "1 \<le> task_batch t"
    "task_steps t \<noteq> []" "length (task_steps t) \<le> MaxSteps" "list_all (wf_step (parserOf (task_inputs t))) (task_steps t)"
    using wf by (simp_all add: wf_task_def)
  obtain nv where nv: "str f ''name'' TheTask True n' = (Some nv, [])" "y_value nv = task_name t"
    using str_read [OF fr, of "''name''" "task_name t" TheTask True n'] by auto
  obtain dv where dv: "str f ''description'' TheTask False n' = (dv, [])" "str_of dv = task_description t"
    using str_read_opt [OF fr, of "''description''" "task_description t"] by auto
  have i: "(if present f ''inputs'' then inputList Y (e_val (the (f ''inputs''))) newParser else ([], newParser, []))
      = (task_inputs t, parserOf (task_inputs t), [])"
    by (rule inputs_read [OF fr _ w(2)]) simp
  have g: "(if present f ''targets'' then targets_of (e_val (the (f ''targets''))) else (emptyTargets, [])) = (task_targets t, [])"
    by (rule targets_read [OF fr _ w(3)]) simp
  have b: "batch_of Y f = (task_batch t, [])" by (rule batch_read [OF fr _ w(4)]) simp
  have o: "boolean Y f ''stop_on_failure'' TheTask True = (task_stop_on_failure t, [])" by (rule boolean_read [OF fr]) simp
  have s: "steps_of Y (parserOf (task_inputs t)) f n' = (task_steps t, [])" by (rule steps_read [OF fr _ w(7,5,6)]) simp
  show ?thesis
    unfolding task_of_def Let_def root using f nv dv i g b o s w(1) by (simp add: str_of_def [of "Some _"])
qed

text \<open>C14: writing a task that was read and reading the result back gives the same task, up
  to the size limit, provided decoding the document the encoder wrote gives back the tree it was given.\<close>

theorem Format_round_trip:
  assumes "Parse Y doc0 = (Some t, [])" and "Format encode (Some t) = Inr doc"
    and "yl_first Y doc = DecNode (YNode DocumentNode st tg v l [n'])" and "yl_second Y doc = DecEOF"
    and "yreads Y (formatTask t) n'"
  shows "Parse Y doc = (if length doc > MaxDocumentBytes then (None, addf 0 (DocumentTooLarge (length doc))) else (Some t, []))"
  using assms(3,4) task_of_read [OF assms(5) Parse_wf [OF assms(1)]] by (simp add: Parse_def docRoot_def)

text \<open>The sample task written and read: the tree the encoder is given, which the sample
  library reads every document as.\<close>

definition writtenTree :: ynode where
  "writtenTree = formatTask sampleTask"

lemma written_parsed: "Parse (sampleLib writtenTree) ''doc'' = (Some sampleTask, [])"
proof -
  have "task_of (sampleLib writtenTree) (YNode DocumentNode [] [] [] 1 [writtenTree]) = (Some sampleTask, [])" by code_simp
  then show ?thesis by (simp add: Parse_def sampleLib_def MaxDocumentBytes_def)
qed

lemma yreads_text: "yreads Y (text_node s) (text_node s)"
  unfolding text_node_def by (rule yreads.intros [OF _ refl]) (simp_all add: isNull_def)

lemma yreads_inner:
  assumes "list_all2 (yreads Y) cs cs" and "k \<noteq> ScalarNode" and "tg = []"
  shows "yreads Y (YNode k st tg v l cs) (YNode k st tg v l cs)"
  by (rule yreads.intros [OF assms(1) refl]) (use assms in simp_all)

lemma written_reads: "yreads (sampleLib writtenTree) writtenTree writtenTree"
  by (simp add: writtenTree_def formatTask_def formatInputs_def formatInput_def formatStep_def formatBody_def
      sampleTask_def emptyStep_def emptyTargets_def step_kind_defs addIf_def addDuration_def add_node_def mapNode_def
      yreads_inner yreads_text)

theorem Format_round_trip_witness:
  "Format (\<lambda>_. Inr ''doc'') (Some sampleTask) = Inr ''doc'' \<and> Parse (sampleLib writtenTree) ''doc'' = (Some sampleTask, [])"
proof -
  have f: "Format (\<lambda>_. Inr ''doc'') (Some sampleTask) = Inr ''doc''" by (simp add: Format_def)
  have r: "yreads (sampleLib writtenTree) (formatTask sampleTask) writtenTree"
    using written_reads by (simp add: writtenTree_def)
  have "Parse (sampleLib writtenTree) ''doc'' = (if length ''doc'' > MaxDocumentBytes
      then (None, addf 0 (DocumentTooLarge (length ''doc''))) else (Some sampleTask, []))"
    by (rule Format_round_trip [OF written_parsed f _ _ r, of "[]" "[]" "[]" 1]) (simp_all add: sampleLib_def)
  then show ?thesis using f by (simp add: MaxDocumentBytes_def)
qed

end
