(* ===== verification/Raft_FSM.thy ===== *)
theory Raft_FSM
  imports Go_Prelude "HOL-Library.Finite_Map"
begin

text \<open>
  The replicated state machine of the cluster: \<^verbatim>\<open>src/internal/cluster/raft_fsm.go\<close>, and
  the records of \<^verbatim>\<open>types.go\<close> it keeps.  A Go map is a finite map (\<open>fmap\<close>), and one
  that may be nil is an option; writing to a nil map is a panic, a value of
  \<open>outcome\<close>.  The callbacks the code starts in goroutines are the effects an apply
  gives, in order.  \<^verbatim>\<open>time.Now()\<close> is an argument.  The JSON text of a value is not
  modelled: \<open>codec\<close> holds what decoding and encoding give, and a theorem that needs
  the two to agree says so.  Locks are left out: each operation holds the one lock of the
  machine from its first access to its last.
\<close>

type_synonym 'v gomap = "(string, 'v) fmap"

section \<open>Cluster records\<close>

definition KindManager :: string where "KindManager = ''manager''"
definition KindAgent :: string where "KindAgent = ''agent''"
definition StatusOnline :: string where "StatusOnline = ''online''"
definition StatusSuspect :: string where "StatusSuspect = ''suspect''"
definition StatusOffline :: string where "StatusOffline = ''offline''"
definition StatusJoining :: string where "StatusJoining = ''joining''"

record node =
  node_id :: string
  node_name :: string
  node_api_address :: string
  node_grpc_address :: string
  node_addresses :: "string list option"
  node_role :: string
  node_kind :: string
  node_status :: string
  node_labels :: "string gomap option"
  node_joined_at :: time
  node_last_seen :: time

definition IsManager :: "node \<Rightarrow> bool" where
  "IsManager n = (node_kind n = [] \<or> node_kind n = KindManager)"

record admin_account =
  acct_username :: string
  acct_password :: string
  acct_totp_secret :: string
  acct_updated_at :: int

record cluster_state =
  cs_name :: string
  cs_nodes :: "node gomap option"
  cs_config :: "string gomap option"
  cs_accounts :: "admin_account gomap option"
  cs_recovery_codes :: "string list gomap option"

section \<open>Commands\<close>

definition CmdAddNode :: nat where "CmdAddNode = 1"
definition CmdRemoveNode :: nat where "CmdRemoveNode = 2"
definition CmdUpdateNode :: nat where "CmdUpdateNode = 3"
definition CmdSetConfig :: nat where "CmdSetConfig = 4"
definition CmdDeleteConfig :: nat where "CmdDeleteConfig = 5"
definition CmdSetAccount :: nat where "CmdSetAccount = 6"
definition CmdDeleteAccount :: nat where "CmdDeleteAccount = 7"
definition CmdDisband :: nat where "CmdDisband = 8"
definition CmdSetRecoveryCodes :: nat where "CmdSetRecoveryCodes = 9"

lemmas cmd_defs = CmdAddNode_def CmdRemoveNode_def CmdUpdateNode_def CmdSetConfig_def CmdDeleteConfig_def
  CmdSetAccount_def CmdDeleteAccount_def CmdDisband_def CmdSetRecoveryCodes_def

record cmd =
  cmd_type :: nat
  cmd_key :: string
  cmd_value :: string

record raft_log =
  log_index :: nat
  log_data :: string

record codec =
  dec_command :: "string \<Rightarrow> string + cmd"
  dec_node :: "string \<Rightarrow> string + node"
  dec_string :: "string \<Rightarrow> string + string"
  dec_account :: "string \<Rightarrow> string + admin_account"
  dec_codes :: "string \<Rightarrow> string + string list"
  enc_state :: "cluster_state \<Rightarrow> string + string"
  dec_state :: "string \<Rightarrow> string + cluster_state"

section \<open>The machine\<close>

record fsm =
  fsm_state :: cluster_state
  fsm_onDisband :: bool
  fsm_onConfigChange :: bool
  fsm_replayUpTo :: nat

datatype effect = Disbanded string | ConfigChanged string
datatype fsmError = DecodeError string | UnknownCommand nat
datatype outcome = Panic | Applied fsm "fsmError option" "effect list"

definition NewFSM :: fsm where
  "NewFSM = \<lparr>fsm_state = \<lparr>cs_name = [], cs_nodes = Some fmempty, cs_config = Some fmempty,
      cs_accounts = Some fmempty, cs_recovery_codes = Some fmempty\<rparr>,
    fsm_onDisband = False, fsm_onConfigChange = False, fsm_replayUpTo = 0\<rparr>"

definition SetOnDisband :: "fsm \<Rightarrow> bool \<Rightarrow> fsm" where
  "SetOnDisband f cb = f\<lparr>fsm_onDisband := cb\<rparr>"

definition SetOnConfigChange :: "fsm \<Rightarrow> bool \<Rightarrow> fsm" where
  "SetOnConfigChange f cb = f\<lparr>fsm_onConfigChange := cb\<rparr>"

definition SetReplayThreshold :: "fsm \<Rightarrow> nat \<Rightarrow> fsm" where
  "SetReplayThreshold f idx = f\<lparr>fsm_replayUpTo := idx\<rparr>"

definition configChanged :: "fsm \<Rightarrow> string \<Rightarrow> effect list" where
  "configChanged f key = (if fsm_onConfigChange f then [ConfigChanged key] else [])"

text \<open>What an update changes of an existing record.\<close>

definition mergeNode :: "time \<Rightarrow> node \<Rightarrow> node \<Rightarrow> node" where
  "mergeNode now existing update = existing\<lparr>
     node_status := (if node_status update \<noteq> [] then node_status update else node_status existing),
     node_role := (if node_role update \<noteq> [] then node_role update else node_role existing),
     node_kind := (if node_kind update \<noteq> [] then node_kind update else node_kind existing),
     node_labels := (if node_labels update \<noteq> None then node_labels update else node_labels existing),
     node_api_address := (if node_api_address update \<noteq> [] then node_api_address update else node_api_address existing),
     node_grpc_address := (if node_grpc_address update \<noteq> [] then node_grpc_address update else node_grpc_address existing),
     node_addresses := (if node_addresses update \<noteq> None then node_addresses update else node_addresses existing),
     node_last_seen := (if node_last_seen update \<noteq> 0 then node_last_seen update
                        else if node_status update = StatusOnline \<or> node_status update = [] then now
                        else node_last_seen existing)\<rparr>"

abbreviation with_state :: "fsm \<Rightarrow> (cluster_state \<Rightarrow> cluster_state) \<Rightarrow> fsm" where
  "with_state f g \<equiv> f\<lparr>fsm_state := g (fsm_state f)\<rparr>"

definition applyAddNode :: "fsm \<Rightarrow> node \<Rightarrow> outcome" where
  "applyAddNode f n = (case cs_nodes (fsm_state f) of
     None \<Rightarrow> Panic
   | Some m \<Rightarrow> Applied (with_state f (cs_nodes_update (\<lambda>_. Some (fmupd (node_id n) n m)))) None [])"

definition applyRemoveNode :: "fsm \<Rightarrow> string \<Rightarrow> outcome" where
  "applyRemoveNode f key = Applied (with_state f (cs_nodes_update (map_option (fmdrop key)))) None []"

definition applyUpdateNode :: "time \<Rightarrow> fsm \<Rightarrow> node \<Rightarrow> outcome" where
  "applyUpdateNode now f u = (case cs_nodes (fsm_state f) of
     None \<Rightarrow> Applied f None []
   | Some m \<Rightarrow> (case fmlookup m (node_id u) of
        None \<Rightarrow> Applied f None []
      | Some existing \<Rightarrow>
          Applied (with_state f (cs_nodes_update (\<lambda>_. Some (fmupd (node_id u) (mergeNode now existing u) m)))) None []))"

definition applySetConfig :: "fsm \<Rightarrow> string \<Rightarrow> string \<Rightarrow> outcome" where
  "applySetConfig f key val = (case cs_config (fsm_state f) of
     None \<Rightarrow> Panic
   | Some m \<Rightarrow> Applied (with_state f (cs_config_update (\<lambda>_. Some (fmupd key val m)))) None (configChanged f key))"

definition applyDeleteConfig :: "fsm \<Rightarrow> string \<Rightarrow> outcome" where
  "applyDeleteConfig f key =
     Applied (with_state f (cs_config_update (map_option (fmdrop key)))) None (configChanged f key)"

definition applySetAccount :: "fsm \<Rightarrow> admin_account \<Rightarrow> outcome" where
  "applySetAccount f a =
     Applied (with_state f (cs_accounts_update
       (\<lambda>m. Some (fmupd (acct_username a) a (case m of None \<Rightarrow> fmempty | Some x \<Rightarrow> x))))) None []"

definition applyDeleteAccount :: "fsm \<Rightarrow> string \<Rightarrow> outcome" where
  "applyDeleteAccount f key = Applied (with_state f (cs_accounts_update (map_option (fmdrop key)))) None []"

definition applySetRecoveryCodes :: "fsm \<Rightarrow> string \<Rightarrow> string list \<Rightarrow> outcome" where
  "applySetRecoveryCodes f key codes =
     Applied (with_state f (cs_recovery_codes_update (\<lambda>m0. let m = (case m0 of None \<Rightarrow> fmempty | Some x \<Rightarrow> x) in
       Some (if codes = [] then fmdrop key m else fmupd key codes m)))) None []"

definition applyDisband :: "fsm \<Rightarrow> nat \<Rightarrow> string \<Rightarrow> outcome" where
  "applyDisband f index key =
     (if fsm_replayUpTo f > 0 \<and> index \<le> fsm_replayUpTo f then Applied f None []
      else Applied f None (if fsm_onDisband f then [Disbanded key] else []))"

text \<open>Decoding a value, or the error the apply returns, leaving the machine as it is.\<close>

definition decoded :: "fsm \<Rightarrow> string + 'a \<Rightarrow> ('a \<Rightarrow> outcome) \<Rightarrow> outcome" where
  "decoded f r k = (case r of Inl e \<Rightarrow> Applied f (Some (DecodeError e)) [] | Inr x \<Rightarrow> k x)"

definition applyCmd :: "codec \<Rightarrow> time \<Rightarrow> fsm \<Rightarrow> nat \<Rightarrow> cmd \<Rightarrow> outcome" where
  "applyCmd C now f index c =
     (if cmd_type c = CmdAddNode then decoded f (dec_node C (cmd_value c)) (applyAddNode f)
      else if cmd_type c = CmdRemoveNode then applyRemoveNode f (cmd_key c)
      else if cmd_type c = CmdUpdateNode then decoded f (dec_node C (cmd_value c)) (applyUpdateNode now f)
      else if cmd_type c = CmdSetConfig then decoded f (dec_string C (cmd_value c)) (applySetConfig f (cmd_key c))
      else if cmd_type c = CmdDeleteConfig then applyDeleteConfig f (cmd_key c)
      else if cmd_type c = CmdSetAccount then decoded f (dec_account C (cmd_value c)) (applySetAccount f)
      else if cmd_type c = CmdDeleteAccount then applyDeleteAccount f (cmd_key c)
      else if cmd_type c = CmdSetRecoveryCodes then
        decoded f (dec_codes C (cmd_value c)) (applySetRecoveryCodes f (cmd_key c))
      else if cmd_type c = CmdDisband then applyDisband f index (cmd_key c)
      else Applied f (Some (UnknownCommand (cmd_type c))) [])"

definition Apply :: "codec \<Rightarrow> time \<Rightarrow> fsm \<Rightarrow> raft_log \<Rightarrow> outcome" where
  "Apply C now f l = decoded f (dec_command C (log_data l)) (applyCmd C now f (log_index l))"

definition Snapshot :: "codec \<Rightarrow> fsm \<Rightarrow> string + string" where
  "Snapshot C f = enc_state C (fsm_state f)"

definition orEmpty :: "'v gomap option \<Rightarrow> 'v gomap option" where
  "orEmpty m = (case m of None \<Rightarrow> Some fmempty | Some x \<Rightarrow> Some x)"

definition Restore :: "codec \<Rightarrow> fsm \<Rightarrow> string \<Rightarrow> fsm \<times> fsmError option \<times> effect list" where
  "Restore C f data = (case dec_state C data of
     Inl e \<Rightarrow> (f, Some (DecodeError e), [])
   | Inr s \<Rightarrow> (f\<lparr>fsm_state := s\<lparr>cs_nodes := orEmpty (cs_nodes s), cs_config := orEmpty (cs_config s),
         cs_accounts := orEmpty (cs_accounts s), cs_recovery_codes := orEmpty (cs_recovery_codes s)\<rparr>\<rparr>,
       None, configChanged f []))"

section \<open>Reading\<close>

definition GetState :: "fsm \<Rightarrow> cluster_state" where
  "GetState f = (let s = fsm_state f in
     \<lparr>cs_name = cs_name s, cs_nodes = orEmpty (cs_nodes s), cs_config = orEmpty (cs_config s),
      cs_accounts = orEmpty (cs_accounts s), cs_recovery_codes = orEmpty (cs_recovery_codes s)\<rparr>)"

definition lookup_opt :: "'v gomap option \<Rightarrow> string \<Rightarrow> 'v option" where
  "lookup_opt m k = (case m of None \<Rightarrow> None | Some x \<Rightarrow> fmlookup x k)"

definition GetRecoveryCodes :: "fsm \<Rightarrow> string \<Rightarrow> string list" where
  "GetRecoveryCodes f u = (case lookup_opt (cs_recovery_codes (fsm_state f)) u of None \<Rightarrow> [] | Some c \<Rightarrow> c)"

definition GetNode :: "fsm \<Rightarrow> string \<Rightarrow> node option" where
  "GetNode f i = lookup_opt (cs_nodes (fsm_state f)) i"

definition GetConfigValue :: "fsm \<Rightarrow> string \<Rightarrow> string option" where
  "GetConfigValue f key = lookup_opt (cs_config (fsm_state f)) key"

definition ConfigWithPrefix :: "fsm \<Rightarrow> string \<Rightarrow> string gomap" where
  "ConfigWithPrefix f prefix = (case cs_config (fsm_state f) of
     None \<Rightarrow> fmempty | Some m \<Rightarrow> fmfilter (\<lambda>k. has_prefix k prefix) m)"

definition GetAccount :: "fsm \<Rightarrow> string \<Rightarrow> admin_account option" where
  "GetAccount f u = lookup_opt (cs_accounts (fsm_state f)) u"

text \<open>Persisting a snapshot: the calls made on the sink and the error returned.\<close>

datatype sinkCall = SinkWrite string | SinkCancel | SinkClose

definition Persist :: "string \<Rightarrow> string option \<Rightarrow> string option \<Rightarrow> sinkCall list \<times> string option" where
  "Persist data writeErr closeErr = (case writeErr of
     Some e \<Rightarrow> ([SinkWrite data, SinkCancel], Some e)
   | None \<Rightarrow> (case closeErr of
        Some e \<Rightarrow> ([SinkWrite data, SinkClose, SinkCancel], Some e)
      | None \<Rightarrow> ([SinkWrite data, SinkClose], None)))"

section \<open>The maps are never nil, so an apply never panics\<close>

definition fsm_ok :: "fsm \<Rightarrow> bool" where
  "fsm_ok f \<longleftrightarrow> cs_nodes (fsm_state f) \<noteq> None \<and> cs_config (fsm_state f) \<noteq> None \<and>
     cs_accounts (fsm_state f) \<noteq> None \<and> cs_recovery_codes (fsm_state f) \<noteq> None"

text \<open>The states a machine can be in: from a new one, through the setters, applies of any
  entry at any time, and restores of any snapshot, old ones without some of the maps too.\<close>

inductive fsm_reach :: "codec \<Rightarrow> fsm \<Rightarrow> bool" for C where
  new: "fsm_reach C NewFSM"
| disband: "fsm_reach C f \<Longrightarrow> fsm_reach C (SetOnDisband f b)"
| onconfig: "fsm_reach C f \<Longrightarrow> fsm_reach C (SetOnConfigChange f b)"
| threshold: "fsm_reach C f \<Longrightarrow> fsm_reach C (SetReplayThreshold f i)"
| apply_log: "fsm_reach C f \<Longrightarrow> Apply C now f l = Applied f' r es \<Longrightarrow> fsm_reach C f'"
| restore: "fsm_reach C f \<Longrightarrow> Restore C f data = (f', r, es) \<Longrightarrow> fsm_reach C f'"

lemmas apply_defs = applyAddNode_def applyRemoveNode_def applyUpdateNode_def applySetConfig_def applyDeleteConfig_def
  applySetAccount_def applyDeleteAccount_def applySetRecoveryCodes_def applyDisband_def

text \<open>An apply that returned, and left the machine well-formed.\<close>

definition fine :: "outcome \<Rightarrow> bool" where
  "fine r \<longleftrightarrow> (case r of Panic \<Rightarrow> False | Applied f e es \<Rightarrow> fsm_ok f)"

lemma fine_Applied [simp]: "fine (Applied f e es) \<longleftrightarrow> fsm_ok f"
  by (simp add: fine_def)

lemma fine_decoded: "fsm_ok f \<Longrightarrow> (\<And>x. fine (k x)) \<Longrightarrow> fine (decoded f r k)"
  by (cases r) (auto simp: decoded_def)

lemma fine_branches:
  assumes "fsm_ok f"
  shows "fine (applyAddNode f n)" "fine (applyRemoveNode f key)" "fine (applyUpdateNode now f n)"
    "fine (applySetConfig f key val)" "fine (applyDeleteConfig f key)" "fine (applySetAccount f a)"
    "fine (applyDeleteAccount f key)" "fine (applySetRecoveryCodes f key codes)" "fine (applyDisband f i key)"
  using assms by (auto simp: apply_defs fsm_ok_def Let_def split: option.split)

lemma Apply_fine:
  assumes "fsm_ok f"
  shows "fine (Apply C now f l)"
proof -
  have "fine (applyCmd C now f i c)" for i c
    unfolding applyCmd_def using assms by (simp add: fine_branches fine_decoded)
  then show ?thesis unfolding Apply_def by (rule fine_decoded [OF assms])
qed

lemma Restore_ok: "fsm_ok f \<Longrightarrow> Restore C f data = (f', r, es) \<Longrightarrow> fsm_ok f'"
  by (auto simp: Restore_def fsm_ok_def orEmpty_def split: sum.splits option.splits)

lemma fsm_reach_ok: "fsm_reach C f \<Longrightarrow> fsm_ok f"
proof (induction rule: fsm_reach.induct)
  case (apply_log f now l f' r es)
  then show ?case using Apply_fine [of f C now l] by simp
next
  case (restore f data f' r es)
  then show ?case by (auto intro: Restore_ok)
qed (auto simp: fsm_ok_def NewFSM_def SetOnDisband_def SetOnConfigChange_def SetReplayThreshold_def)

text \<open>C18: no sequence of setters, applied entries and restored snapshots, however old the
  snapshots and whatever the entries, brings the machine to a state in which an apply panics on a nil map.\<close>

theorem Apply_never_panics:
  assumes "fsm_reach C f"
  shows "Apply C now f l \<noteq> Panic"
  using Apply_fine [OF fsm_reach_ok [OF assms], of C now l] by (auto simp: fine_def)

section \<open>A sample codec\<close>

text \<open>Entries coded in the simplest way, for the examples: the first byte of an entry is
  its type, the byte after it its key's length, then the key, then the value.\<close>

definition sampleCodec :: codec where
  "sampleCodec = \<lparr>
     dec_command = (\<lambda>s. case s of
        a # b # r \<Rightarrow> Inr \<lparr>cmd_type = of_char a, cmd_key = take (of_char b) r, cmd_value = drop (of_char b) r\<rparr>
      | _ \<Rightarrow> Inl ''short''),
     dec_node = (\<lambda>s. Inr \<lparr>node_id = s, node_name = s, node_api_address = [], node_grpc_address = [],
        node_addresses = None, node_role = [], node_kind = [], node_status = [], node_labels = None,
        node_joined_at = 0, node_last_seen = 0\<rparr>),
     dec_string = Inr,
     dec_account = (\<lambda>s. Inr \<lparr>acct_username = s, acct_password = [], acct_totp_secret = [], acct_updated_at = 0\<rparr>),
     dec_codes = (\<lambda>s. Inr (if s = [] then [] else [s])),
     enc_state = (\<lambda>_. Inl ''no encoder''),
     dec_state = (\<lambda>s. if s = ''old'' then Inr \<lparr>cs_name = [], cs_nodes = None, cs_config = None, cs_accounts = None,
        cs_recovery_codes = None\<rparr> else Inl ''bad snapshot'')\<rparr>"

theorem Apply_never_panics_witness:
  "Apply sampleCodec 5 (fst (Restore sampleCodec NewFSM ''old'')) \<lparr>log_index = 1, log_data = [CHR 0x04, CHR 0x01] @ ''kv''\<rparr> \<noteq> Panic"
proof -
  obtain f r es where r: "Restore sampleCodec NewFSM ''old'' = (f, r, es)" by (metis prod_cases3)
  have "fsm_reach sampleCodec f" using fsm_reach.new r by (rule fsm_reach.restore)
  then show ?thesis using Apply_never_panics r by simp
qed

section \<open>Replicas agree\<close>

text \<open>Every manager applies the same entries, each at its own time.  The one thing an
  apply reads that is not in the entry is the clock, in \<open>mergeNode\<close>.\<close>

fun applyAll :: "codec \<Rightarrow> fsm \<Rightarrow> (time \<times> raft_log) list \<Rightarrow> fsm option" where
  "applyAll C f [] = Some f"
| "applyAll C f ((now, l) # ls) = (case Apply C now f l of Panic \<Rightarrow> None | Applied f' e es \<Rightarrow> applyAll C f' ls)"

definition unseen :: "node \<Rightarrow> node" where
  "unseen n = n\<lparr>node_last_seen := 0\<rparr>"

text \<open>The state but for when each node was last seen.\<close>

definition core :: "cluster_state \<Rightarrow> cluster_state" where
  "core s = s\<lparr>cs_nodes := map_option (fmmap unseen) (cs_nodes s)\<rparr>"

definition same_core :: "fsm \<Rightarrow> fsm \<Rightarrow> bool" where
  "same_core f g \<longleftrightarrow> core (fsm_state f) = core (fsm_state g)"

lemma mergeNode_unseen: "unseen a = unseen b \<Longrightarrow> unseen (mergeNode t a u) = unseen (mergeNode t' b u)"
  by (cases a; cases b) (simp add: unseen_def mergeNode_def)

lemma same_core_iff:
  "same_core f g \<longleftrightarrow>
     cs_name (fsm_state f) = cs_name (fsm_state g) \<and> cs_config (fsm_state f) = cs_config (fsm_state g) \<and>
     cs_accounts (fsm_state f) = cs_accounts (fsm_state g) \<and>
     cs_recovery_codes (fsm_state f) = cs_recovery_codes (fsm_state g) \<and>
     map_option (fmmap unseen) (cs_nodes (fsm_state f)) = map_option (fmmap unseen) (cs_nodes (fsm_state g))"
  unfolding same_core_def core_def by (cases "fsm_state f"; cases "fsm_state g") auto

text \<open>Two outcomes that agree: both applied, with the same answer, on machines with the same core.\<close>

definition agree :: "outcome \<Rightarrow> outcome \<Rightarrow> bool" where
  "agree r q \<longleftrightarrow> (case (r, q) of (Applied f e es, Applied g e' es') \<Rightarrow> e = e' \<and> same_core f g | (Panic, Panic) \<Rightarrow> True | _ \<Rightarrow> False)"

lemma agree_Applied [simp]: "agree (Applied f e es) (Applied g e' es') \<longleftrightarrow> e = e' \<and> same_core f g"
  by (simp add: agree_def)

lemma agree_Panic [simp]: "agree Panic Panic"
  by (simp add: agree_def)

lemma agree_decoded:
  "same_core f g \<Longrightarrow> (\<And>x. agree (h x) (k x)) \<Longrightarrow> agree (decoded f r h) (decoded g r k)"
  by (cases r) (auto simp: decoded_def)

lemma agree_UpdateNode:
  assumes "same_core f g"
  shows "agree (applyUpdateNode t f u) (applyUpdateNode t' g u)"
proof -
  consider "cs_nodes (fsm_state f) = None" "cs_nodes (fsm_state g) = None"
    | m m' where "cs_nodes (fsm_state f) = Some m" "cs_nodes (fsm_state g) = Some m'" "fmmap unseen m = fmmap unseen m'"
    using assms by (auto simp: same_core_iff map_option_case split: option.splits)
  then show ?thesis
  proof cases
    case (2 m m')
    have l: "map_option unseen (fmlookup m k) = map_option unseen (fmlookup m' k)" for k
      using arg_cong [OF 2(3), of "\<lambda>x. fmlookup x k"] by simp
    show ?thesis
    proof (cases "fmlookup m (node_id u)")
      case None
      then have "fmlookup m' (node_id u) = None" using l [of "node_id u"] by simp
      then show ?thesis using 2 None assms by (simp add: applyUpdateNode_def)
    next
      case (Some a)
      then obtain b where b: "fmlookup m' (node_id u) = Some b" "unseen a = unseen b"
        using l [of "node_id u"] by (cases "fmlookup m' (node_id u)") auto
      then show ?thesis using 2 Some assms mergeNode_unseen [OF b(2), of t u t']
        by (simp add: applyUpdateNode_def same_core_iff fmmap_fmupd)
    qed
  qed (use assms in \<open>simp add: applyUpdateNode_def\<close>)
qed

lemma agree_branches:
  assumes "same_core f g" and "fsm_ok f" and "fsm_ok g"
  shows "agree (applyAddNode f n) (applyAddNode g n)" "agree (applyRemoveNode f key) (applyRemoveNode g key)"
    "agree (applySetConfig f key val) (applySetConfig g key val)" "agree (applyDeleteConfig f key) (applyDeleteConfig g key)"
    "agree (applySetAccount f a) (applySetAccount g a)" "agree (applyDeleteAccount f key) (applyDeleteAccount g key)"
    "agree (applySetRecoveryCodes f key codes) (applySetRecoveryCodes g key codes)"
    "agree (applyDisband f i key) (applyDisband g j key)"
proof -
  obtain m m' where m: "cs_nodes (fsm_state f) = Some m" "cs_nodes (fsm_state g) = Some m'"
    using assms(2,3) by (auto simp: fsm_ok_def)
  note core = assms(1) [unfolded same_core_iff m option.map option.inject]
  obtain c where c: "cs_config (fsm_state f) = Some c" "cs_config (fsm_state g) = Some c"
    using assms(2) core by (auto simp: fsm_ok_def)
  note [simp] = apply_defs same_core_iff m c fmmap_fmupd Let_def
  show "agree (applyAddNode f n) (applyAddNode g n)" using core by simp
  show "agree (applyRemoveNode f key) (applyRemoveNode g key)" using core by (simp flip: fmdrop_fmmap)
  show "agree (applySetConfig f key val) (applySetConfig g key val)" using core by simp
  show "agree (applyDeleteConfig f key) (applyDeleteConfig g key)" using core by simp
  show "agree (applySetAccount f a) (applySetAccount g a)" using core by simp
  show "agree (applyDeleteAccount f key) (applyDeleteAccount g key)" using core by simp
  show "agree (applySetRecoveryCodes f key codes) (applySetRecoveryCodes g key codes)" using core by simp
  show "agree (applyDisband f i key) (applyDisband g j key)" using core by simp
qed

lemma agree_Apply:
  assumes "same_core f g" and "fsm_ok f" and "fsm_ok g"
  shows "agree (Apply C t f l) (Apply C t' g l)"
proof -
  have "agree (applyCmd C t f i c) (applyCmd C t' g i c)" for i c
    unfolding applyCmd_def using assms by (simp add: agree_branches agree_UpdateNode agree_decoded)
  then show ?thesis unfolding Apply_def by (rule agree_decoded [OF assms(1)])
qed

lemma applyAll_agree:
  assumes "same_core f g" and "fsm_ok f" and "fsm_ok g" and "map snd ls = map snd ls'"
  shows "\<exists>f' g'. applyAll C f ls = Some f' \<and> applyAll C g ls' = Some g' \<and> same_core f' g'"
  using assms
proof (induction ls arbitrary: f g ls')
  case (Cons x ls)
  obtain t l t' ks where x: "x = (t, l)" "ls' = (t', l) # ks" "map snd ls = map snd ks"
    using Cons.prems(4) by (cases x; cases ls') auto
  have a: "agree (Apply C t f l) (Apply C t' g l)" and fine: "fine (Apply C t f l)" "fine (Apply C t' g l)"
    using Cons.prems by (auto intro: agree_Apply Apply_fine)
  obtain f' e es g' es' where "Apply C t f l = Applied f' e es" "Apply C t' g l = Applied g' e es'"
    "same_core f' g'" "fsm_ok f'" "fsm_ok g'"
    using a fine by (auto simp: agree_def fine_def split: outcome.splits)
  then show ?case using Cons.IH [OF _ _ _ x(3)] x by auto
qed simp

text \<open>Managers that start alike and apply the same entries, each at its own times and with
  its own callbacks, end alike in everything but when each node was last seen: names, node records,
  config, accounts and recovery codes.\<close>

theorem replicas_agree:
  assumes "fsm_reach C f" and "fsm_reach C g" and "same_core f g" and "map snd ls = map snd ls'"
  shows "\<exists>f' g'. applyAll C f ls = Some f' \<and> applyAll C g ls' = Some g' \<and> same_core f' g'"
  using applyAll_agree [OF assms(3) fsm_reach_ok [OF assms(1)] fsm_reach_ok [OF assms(2)] assms(4)] .

theorem replicas_agree_witness:
  "\<exists>f' g'. applyAll sampleCodec NewFSM [(5, \<lparr>log_index = 1, log_data = [CHR 0x01, CHR 0x00] @ ''n''\<rparr>)] = Some f' \<and>
     applyAll sampleCodec NewFSM [(9, \<lparr>log_index = 1, log_data = [CHR 0x01, CHR 0x00] @ ''n''\<rparr>)] = Some g' \<and> same_core f' g'"
  by (rule replicas_agree [OF fsm_reach.new fsm_reach.new]) (simp_all add: same_core_def)

text \<open>They do not agree in full.  An update that carries no time sets a node's last-seen
  time from the applying manager's own clock, so two replicas that apply one log at different times hold
  different records.\<close>

theorem replicas_differ:
  "\<exists>f g. applyAll sampleCodec NewFSM [(1, \<lparr>log_index = 1, log_data = [CHR 0x01, CHR 0x00] @ ''n''\<rparr>), (5, \<lparr>log_index = 2, log_data = [CHR 0x03, CHR 0x00] @ ''n''\<rparr>)] = Some f \<and>
     applyAll sampleCodec NewFSM [(1, \<lparr>log_index = 1, log_data = [CHR 0x01, CHR 0x00] @ ''n''\<rparr>), (9, \<lparr>log_index = 2, log_data = [CHR 0x03, CHR 0x00] @ ''n''\<rparr>)] = Some g \<and>
     map_option node_last_seen (GetNode f ''n'') = Some 5 \<and> map_option node_last_seen (GetNode g ''n'') = Some 9"
  by (simp add: Apply_def applyCmd_def decoded_def sampleCodec_def NewFSM_def cmd_defs applyAddNode_def applyUpdateNode_def
      mergeNode_def GetNode_def lookup_opt_def)

section \<open>Disband, recovery codes, snapshots\<close>

text \<open>A disband entry changes no state, and tears the node down exactly when a callback is
  registered and the entry is not one replayed from the log the process started with.\<close>

theorem disband_effect:
  assumes "dec_command C (log_data l) = Inr c" and "cmd_type c = CmdDisband"
  shows "Apply C now f l = Applied f None
    (if fsm_onDisband f \<and> \<not> (0 < fsm_replayUpTo f \<and> log_index l \<le> fsm_replayUpTo f) then [Disbanded (cmd_key c)] else [])"
  using assms by (auto simp: Apply_def decoded_def applyCmd_def applyDisband_def cmd_defs)

theorem disband_effect_witness:
  "Apply sampleCodec 0 (SetReplayThreshold (SetOnDisband NewFSM True) 7) \<lparr>log_index = 7, log_data = [CHR 0x08, CHR 0x01] @ ''n''\<rparr> =
     Applied (SetReplayThreshold (SetOnDisband NewFSM True) 7) None [] \<and>
   Apply sampleCodec 0 (SetReplayThreshold (SetOnDisband NewFSM True) 7) \<lparr>log_index = 8, log_data = [CHR 0x08, CHR 0x01] @ ''n''\<rparr> =
     Applied (SetReplayThreshold (SetOnDisband NewFSM True) 7) None [Disbanded ''n'']"
proof -
  have d: "dec_command sampleCodec ([CHR 0x08, CHR 0x01] @ ''n'') = Inr \<lparr>cmd_type = 8, cmd_key = ''n'', cmd_value = []\<rparr>"
    by (simp add: sampleCodec_def)
  show ?thesis
    using disband_effect [of sampleCodec "\<lparr>log_index = 7, log_data = [CHR 0x08, CHR 0x01] @ ''n''\<rparr>", OF _ _]
      disband_effect [of sampleCodec "\<lparr>log_index = 8, log_data = [CHR 0x08, CHR 0x01] @ ''n''\<rparr>", OF _ _] d
    by (simp add: cmd_defs SetReplayThreshold_def SetOnDisband_def)
qed

text \<open>Only a recovery-codes entry changes recovery codes, and only those of the account it
  names: a password change, which replaces the whole account, keeps them.\<close>

theorem recovery_codes_change:
  assumes "dec_command C (log_data l) = Inr c" and "Apply C now f l = Applied f' e es"
    and "GetRecoveryCodes f' u \<noteq> GetRecoveryCodes f u"
  shows "cmd_type c = CmdSetRecoveryCodes \<and> u = cmd_key c \<and> dec_codes C (cmd_value c) = Inr (GetRecoveryCodes f' u)"
proof -
  have a: "applyCmd C now f (log_index l) c = Applied f' e es" using assms(1,2) by (simp add: Apply_def decoded_def)
  have rc: "cs_recovery_codes (fsm_state f') \<noteq> cs_recovery_codes (fsm_state f)"
    using assms(3) by (auto simp: GetRecoveryCodes_def)
  have "cmd_type c = CmdSetRecoveryCodes"
  proof (rule ccontr)
    assume "cmd_type c \<noteq> CmdSetRecoveryCodes"
    then have "cs_recovery_codes (fsm_state f') = cs_recovery_codes (fsm_state f)"
      using a by (auto simp: applyCmd_def decoded_def apply_defs split: if_splits sum.splits option.splits)
    with rc show False ..
  qed
  moreover from this obtain codes where "dec_codes C (cmd_value c) = Inr codes"
    "applySetRecoveryCodes f (cmd_key c) codes = Applied f' e es"
    using a rc by (auto simp: applyCmd_def cmd_defs decoded_def split: sum.splits)
  ultimately show ?thesis
    using assms(3) by (auto simp: applySetRecoveryCodes_def GetRecoveryCodes_def lookup_opt_def Let_def split: option.splits if_splits)
qed

theorem recovery_codes_change_witness:
  "\<exists>f'. Apply sampleCodec 0 NewFSM \<lparr>log_index = 1, log_data = [CHR 0x09, CHR 0x01] @ ''ux''\<rparr> = Applied f' None [] \<and>
     GetRecoveryCodes f' ''u'' = [''x'']"
proof -
  let ?l = "\<lparr>log_index = 1, log_data = [CHR 0x09, CHR 0x01] @ ''ux''\<rparr>"
  have d: "dec_command sampleCodec (log_data ?l) = Inr \<lparr>cmd_type = 9, cmd_key = ''u'', cmd_value = ''x''\<rparr>"
    by (simp add: sampleCodec_def)
  obtain f' where a: "Apply sampleCodec 0 NewFSM ?l = Applied f' None []"
    and g: "GetRecoveryCodes f' ''u'' \<noteq> GetRecoveryCodes NewFSM ''u''"
    by (simp add: Apply_def decoded_def applyCmd_def cmd_defs d [simplified] sampleCodec_def applySetRecoveryCodes_def
        NewFSM_def GetRecoveryCodes_def lookup_opt_def)
  then show ?thesis using recovery_codes_change [OF d a g] by (auto simp: sampleCodec_def)
qed

text \<open>A machine restored from a snapshot of another has that machine's state, whatever it
  held before, provided decoding reads back the state that was encoded; it keeps its own callbacks and
  replay threshold, and tells its config listener that anything may have changed.\<close>

theorem snapshot_restore:
  assumes "fsm_reach C f" and "Snapshot C f = Inr data" and "dec_state C data = Inr (fsm_state f)"
  shows "Restore C g data = (g\<lparr>fsm_state := fsm_state f\<rparr>, None, configChanged g [])"
proof -
  have "fsm_ok f" using assms(1) by (rule fsm_reach_ok)
  then have "orEmpty (cs_nodes (fsm_state f)) = cs_nodes (fsm_state f)" "orEmpty (cs_config (fsm_state f)) = cs_config (fsm_state f)"
    "orEmpty (cs_accounts (fsm_state f)) = cs_accounts (fsm_state f)"
    "orEmpty (cs_recovery_codes (fsm_state f)) = cs_recovery_codes (fsm_state f)"
    by (auto simp: fsm_ok_def orEmpty_def)
  then show ?thesis using assms(3) by (simp add: Restore_def)
qed

theorem snapshot_restore_witness:
  "Restore (sampleCodec\<lparr>enc_state := (\<lambda>_. Inr ''snap''), dec_state := (\<lambda>_. Inr (fsm_state NewFSM))\<rparr>) (SetOnConfigChange NewFSM True) ''snap'' =
   (SetOnConfigChange NewFSM True, None, [ConfigChanged []])"
  using snapshot_restore [OF fsm_reach.new, of "sampleCodec\<lparr>enc_state := (\<lambda>_. Inr ''snap''), dec_state := (\<lambda>_. Inr (fsm_state NewFSM))\<rparr>"
      "''snap''" "SetOnConfigChange NewFSM True"]
  by (simp add: Snapshot_def SetOnConfigChange_def configChanged_def NewFSM_def)

section \<open>The config map as a key-value store\<close>

text \<open>What the stores kept in the config map rely on: a value read is the last one written
  under its key, and a scan by prefix gives the entries whose keys start with it and no
  others.  \<open>ok\<close> is the states the laws hold in, which every write keeps.\<close>

locale config_store =
  fixes ok :: "'s \<Rightarrow> bool"
    and get :: "'s \<Rightarrow> string \<Rightarrow> string option"
    and scan :: "'s \<Rightarrow> string \<Rightarrow> string gomap"
    and put :: "'s \<Rightarrow> string \<Rightarrow> string \<Rightarrow> 's"
    and del :: "'s \<Rightarrow> string \<Rightarrow> 's"
  assumes ok_put: "ok s \<Longrightarrow> ok (put s k v)"
    and ok_del: "ok s \<Longrightarrow> ok (del s k)"
    and get_put: "ok s \<Longrightarrow> get (put s k v) q = (if q = k then Some v else get s q)"
    and get_del: "ok s \<Longrightarrow> get (del s k) q = (if q = k then None else get s q)"
    and get_scan: "ok s \<Longrightarrow> fmlookup (scan s p) q = (if has_prefix q p then get s q else None)"
begin

lemma scan_put: "ok s \<Longrightarrow> scan (put s k v) p = (if has_prefix k p then fmupd k v (scan s p) else scan s p)"
  by (rule fmap_ext) (simp add: get_scan ok_put get_put)

lemma scan_del: "ok s \<Longrightarrow> scan (del s k) p = fmdrop k (scan s p)"
  by (rule fmap_ext) (simp add: get_scan ok_del get_del fmlookup_drop)

lemma ok_del_all: "ok s \<Longrightarrow> ok (foldl del s ks)"
  by (induction ks arbitrary: s) (simp_all add: ok_del)

lemma get_del_all: "ok s \<Longrightarrow> get (foldl del s ks) q = (if q \<in> set ks then None else get s q)"
  by (induction ks arbitrary: s) (auto simp: ok_del get_del)

end

definition fsmSetConfig :: "fsm \<Rightarrow> string \<Rightarrow> string \<Rightarrow> fsm" where
  "fsmSetConfig f k v = (case applySetConfig f k v of Panic \<Rightarrow> f | Applied f' e es \<Rightarrow> f')"

definition fsmDeleteConfig :: "fsm \<Rightarrow> string \<Rightarrow> fsm" where
  "fsmDeleteConfig f k = (case applyDeleteConfig f k of Panic \<Rightarrow> f | Applied f' e es \<Rightarrow> f')"

interpretation cfg: config_store fsm_ok GetConfigValue ConfigWithPrefix fsmSetConfig fsmDeleteConfig
proof
  fix f k v q p assume ok: "fsm_ok f"
  then obtain m where m: "cs_config (fsm_state f) = Some m" by (auto simp: fsm_ok_def)
  note unf = fsmSetConfig_def fsmDeleteConfig_def applySetConfig_def applyDeleteConfig_def GetConfigValue_def
    ConfigWithPrefix_def lookup_opt_def m
  show "fsm_ok (fsmSetConfig f k v)" "fsm_ok (fsmDeleteConfig f k)"
    using ok by (simp_all add: unf fsm_ok_def)
  show "GetConfigValue (fsmSetConfig f k v) q = (if q = k then Some v else GetConfigValue f q)"
    by (simp add: unf)
  show "GetConfigValue (fsmDeleteConfig f k) q = (if q = k then None else GetConfigValue f q)"
    by (simp add: unf fmlookup_drop)
  show "fmlookup (ConfigWithPrefix f p) q = (if has_prefix q p then GetConfigValue f q else None)"
    by (simp add: unf)
qed

text \<open>An entry that sets a config key makes it read back, changes no other key, and shows
  in exactly the scans whose prefix the key has; nodes, accounts and recovery codes stay.\<close>

theorem set_config_entry:
  assumes "fsm_reach C f" and "dec_command C (log_data l) = Inr c" and "cmd_type c = CmdSetConfig"
    and "dec_string C (cmd_value c) = Inr v"
  shows "\<exists>f'. Apply C now f l = Applied f' None (configChanged f (cmd_key c)) \<and>
    (\<forall>q. GetConfigValue f' q = (if q = cmd_key c then Some v else GetConfigValue f q)) \<and>
    (\<forall>p. ConfigWithPrefix f' p =
       (if has_prefix (cmd_key c) p then fmupd (cmd_key c) v (ConfigWithPrefix f p) else ConfigWithPrefix f p)) \<and>
    (\<forall>i. GetNode f' i = GetNode f i) \<and> (\<forall>u. GetAccount f' u = GetAccount f u)"
proof -
  have ok: "fsm_ok f" using assms(1) by (rule fsm_reach_ok)
  then obtain m where m: "cs_config (fsm_state f) = Some m" by (auto simp: fsm_ok_def)
  let ?f = "fsmSetConfig f (cmd_key c) v"
  have "Apply C now f l = Applied ?f None (configChanged f (cmd_key c))"
    using assms(2-4) m by (simp add: Apply_def decoded_def applyCmd_def cmd_defs fsmSetConfig_def applySetConfig_def)
  moreover have "GetNode ?f i = GetNode f i" "GetAccount ?f u = GetAccount f u" for i u
    using m by (simp_all add: fsmSetConfig_def applySetConfig_def GetNode_def GetAccount_def)
  ultimately show ?thesis using cfg.get_put [OF ok] cfg.scan_put [OF ok] by auto
qed

theorem set_config_entry_witness:
  "\<exists>f'. Apply sampleCodec 0 NewFSM \<lparr>log_index = 1, log_data = [CHR 0x04, CHR 0x01] @ ''kv''\<rparr> = Applied f' None [] \<and>
     GetConfigValue f' ''k'' = Some ''v''"
proof -
  let ?l = "\<lparr>log_index = 1, log_data = [CHR 0x04, CHR 0x01] @ ''kv''\<rparr>"
  have d: "dec_command sampleCodec (log_data ?l) = Inr \<lparr>cmd_type = 4, cmd_key = ''k'', cmd_value = ''v''\<rparr>"
    by (simp add: sampleCodec_def)
  show ?thesis
    using set_config_entry [OF fsm_reach.new d, of "''v''" 0]
    by (auto simp: cmd_defs sampleCodec_def configChanged_def NewFSM_def)
qed

end
