(* ===== verification/Go_Bytes.thy ===== *)
theory Go_Bytes
  imports Go_Prelude "HOL-Library.Finite_Map"
begin

text \<open>
  Three more pieces of Go's library: \<^verbatim>\<open>encoding/hex\<close>, what a valid UTF-8 string is
  (\<^verbatim>\<open>unicode/utf8\<close>; the JSON encoder keeps exactly those strings), and the iteration of a map, which
  Go leaves in an unspecified order and the model takes in key order.
\<close>

section \<open>encoding/hex\<close>

definition hexDigit :: "nat \<Rightarrow> char" where
  "hexDigit d = ''0123456789abcdef'' ! d"

definition hexEncode :: "string \<Rightarrow> string" where
  "hexEncode s = concat (map (\<lambda>c. [hexDigit (of_char c div 16), hexDigit (of_char c mod 16)]) s)"

definition hexValue :: "char \<Rightarrow> nat option" where
  "hexValue c = (case index_byte ''0123456789abcdef'' c of
     Some d \<Rightarrow> Some d
   | None \<Rightarrow> (case index_byte ''ABCDEF'' c of Some d \<Rightarrow> Some (d + 10) | None \<Rightarrow> None))"

fun hexDecode :: "string \<Rightarrow> string option" where
  "hexDecode [] = Some []"
| "hexDecode [c] = None"
| "hexDecode (a # b # s) = (case hexValue a of None \<Rightarrow> None | Some x \<Rightarrow>
     (case hexValue b of None \<Rightarrow> None | Some y \<Rightarrow>
       (case hexDecode s of None \<Rightarrow> None | Some r \<Rightarrow> Some (char_of (16 * x + y) # r))))"

lemma hexDigit_table:
  "list_all (\<lambda>d. hexValue (hexDigit d) = Some d \<and> hexDigit d \<noteq> CHR ''.'') [0..<16]"
  by code_simp

lemma hexDigit: "d < 16 \<Longrightarrow> hexValue (hexDigit d) = Some d \<and> hexDigit d \<noteq> CHR ''.''"
  using hexDigit_table by (simp add: list_all_iff del: upt_conv_Cons)

lemma of_char_div_16: "(of_char c :: nat) div 16 < 16"
proof -
  have "(of_char c :: nat) mod 256 < 256" by (rule mod_less_divisor) simp
  then show ?thesis by (simp add: less_mult_imp_div_less)
qed

lemma hexDecode_hexEncode [simp]: "hexDecode (hexEncode s) = Some s"
proof (induction s)
  case (Cons c s)
  then show ?case using hexDigit [OF of_char_div_16 [of c]] hexDigit [of "of_char c mod 16"] by (simp add: hexEncode_def)
qed (simp add: hexEncode_def)

lemma hexEncode_no_dot: "CHR ''.'' \<notin> set (hexEncode s)"
proof (induction s)
  case (Cons c s)
  then show ?case
    using hexDigit [OF of_char_div_16 [of c]] hexDigit [of "of_char c mod 16"] by (auto simp: hexEncode_def dest: sym)
qed (simp add: hexEncode_def)

section \<open>unicode/utf8\<close>

text \<open>The length of the rune a string starts with, 0 when it starts with none.\<close>

definition cont :: "nat \<Rightarrow> nat \<Rightarrow> char \<Rightarrow> bool" where
  "cont lo hi c \<longleftrightarrow> lo \<le> of_char c \<and> of_char c \<le> hi"

definition rune_len :: "string \<Rightarrow> nat" where
  "rune_len s = (case s of [] \<Rightarrow> 0 | a # r \<Rightarrow>
     (let n = (of_char a :: nat); tail = (\<lambda>k lo hi. if length r \<ge> k \<and> cont lo hi (r ! 0) \<and> list_all (cont 0x80 0xBF) (take (k - 1) (tl r)) then Suc k else 0)
      in if n < 0x80 then 1
         else if n < 0xC2 then 0
         else if n < 0xE0 then tail 1 0x80 0xBF
         else if n = 0xE0 then tail 2 0xA0 0xBF
         else if n = 0xED then tail 2 0x80 0x9F
         else if n < 0xF0 then tail 2 0x80 0xBF
         else if n = 0xF0 then tail 3 0x90 0xBF
         else if n < 0xF4 then tail 3 0x80 0xBF
         else if n = 0xF4 then tail 3 0x80 0x8F
         else 0))"

function valid_utf8 :: "string \<Rightarrow> bool" where
  "valid_utf8 s = (if s = [] then True else if rune_len s = 0 then False else valid_utf8 (drop (rune_len s) s))"
  by auto
termination by (relation "measure length") auto

declare valid_utf8.simps [simp del]

definition ascii :: "string \<Rightarrow> bool" where
  "ascii s \<longleftrightarrow> list_all (\<lambda>c. of_char c < (128 :: nat)) s"

lemma valid_utf8_Nil [simp]: "valid_utf8 []"
  by (simp add: valid_utf8.simps)

lemma valid_utf8_Cons [simp]: "of_char c < (128 :: nat) \<Longrightarrow> valid_utf8 (c # s) = valid_utf8 s"
  by (simp add: valid_utf8.simps [of "c # s"] rune_len_def Let_def)

lemma valid_utf8_append: "ascii a \<Longrightarrow> valid_utf8 (a @ b) = valid_utf8 b"
  unfolding ascii_def by (induction a) simp_all

lemma ascii_valid: "ascii a \<Longrightarrow> valid_utf8 a"
  using valid_utf8_append [of a "[]"] by simp

lemma ascii_append: "ascii (a @ b) \<longleftrightarrow> ascii a \<and> ascii b"
  by (simp add: ascii_def)

section \<open>Iterating a map\<close>

lemma set_sorted_fmap: "(k, x) \<in> set (sorted_list_of_fmap m) \<Longrightarrow> fmlookup m k = Some x"
  by (auto simp: sorted_list_of_fmap_def fmlookup_dom_iff)

lemma find_sorted_fmap: "find P (sorted_list_of_fmap m) = Some (k, x) \<Longrightarrow> fmlookup m k = Some x"
  by (rule set_sorted_fmap) (metis find_Some_iff nth_mem)

lemma sorted_fmap_iff: "(k, x) \<in> set (sorted_list_of_fmap m) \<longleftrightarrow> fmlookup m k = Some x"
proof
  assume "fmlookup m k = Some x"
  then have "map_of (sorted_list_of_fmap m) k = Some x" by simp
  then show "(k, x) \<in> set (sorted_list_of_fmap m)" by (rule map_of_SomeD)
qed (rule set_sorted_fmap)

lemma distinct_sorted_fmap: "distinct (map fst (sorted_list_of_fmap m))"
  by (simp add: sorted_list_of_fmap_def comp_def sorted_list_of_fset.rep_eq)

end
