(* ===== verification/Join_Token.thy ===== *)
theory Join_Token
  imports Raft_FSM Go_Bytes
begin

text \<open>
  Join tokens: \<^verbatim>\<open>src/internal/cluster/token.go\<close>.  The manager's memory and its file on disk
  are one state; an operation that saves is told what the operating system does with the save
  (\<open>io\<close>), and one that reads the clock or the random source is given what it reads.  The keyed hash
  (HMAC-SHA256) and the JSON text of the file are parameters; hex is computed.
  The operations hold one lock throughout, so they run one after another.  A Go map is
  iterated in an unspecified order; \<open>List\<close> and \<open>Revoke\<close> take key order.
\<close>

section \<open>Tokens\<close>

record join_token =
  jt_token :: string
  jt_expires_at :: time
  jt_used :: bool
  jt_created_by :: string
  jt_kind :: string
  jt_node_id :: string
  jt_ip :: string

definition EffectiveKind :: "join_token \<Rightarrow> string" where
  "EffectiveKind jt = (if jt_kind jt = [] then KindManager else jt_kind jt)"

record token_file =
  tf_secret :: string
  tf_tokens :: "join_token gomap option"

record token_manager =
  tm_tokens :: "join_token gomap"
  tm_secret :: string
  tm_path :: string
  tm_disk :: "token_file option"

datatype tokenError = ErrTokenNotFound | ErrTokenUsed | ErrTokenExpired | ErrTokenKind
  | GenerateToken string | PersistToken string | PersistRevocation string | PersistConsumption string
  | CreateDir string | ReadFile string | ParseFile string | InvalidSecret | GenerateSecret string | WriteInitial string

text \<open>What the operating system does with a save: it works, or a step of it fails; a failed write or
  rename leaves the file as it was, since the data goes to a temporary file first.\<close>

datatype io = SaveOk | SaveFails string

definition saveLocked :: "io \<Rightarrow> token_manager \<Rightarrow> token_manager \<times> string option" where
  "saveLocked save tm =
     (if tm_path tm = [] then (tm, None)
      else (case save of
        SaveFails e \<Rightarrow> (tm, Some e)
      | SaveOk \<Rightarrow> (tm\<lparr>tm_disk := Some \<lparr>tf_secret = hexEncode (tm_secret tm), tf_tokens = Some (tm_tokens tm)\<rparr>\<rparr>, None)))"

definition live :: "time \<Rightarrow> join_token \<Rightarrow> bool" where
  "live now t \<longleftrightarrow> \<not> (now > jt_expires_at t \<or> jt_used t)"

definition cleanupLocked :: "time \<Rightarrow> token_manager \<Rightarrow> token_manager" where
  "cleanupLocked now tm = tm\<lparr>tm_tokens :=
     fmfilter (\<lambda>k. case fmlookup (tm_tokens tm) k of None \<Rightarrow> False | Some t \<Rightarrow> live now t) (tm_tokens tm)\<rparr>"

definition NewTokenManager :: "string \<Rightarrow> token_manager" where
  "NewTokenManager secret = \<lparr>tm_tokens = fmempty, tm_secret = secret, tm_path = [], tm_disk = None\<rparr>"

text \<open>Loading: what creating the directory and reading the file gave, the decoder of the file, the
  random source, the clock and the save of a new file.\<close>

datatype readResult = NotExist | ReadErr string | ReadData string

definition NewPersistedTokenManager ::
  "(string \<Rightarrow> string + token_file) \<Rightarrow> string option \<Rightarrow> readResult \<Rightarrow> string + string \<Rightarrow> time \<Rightarrow> io \<Rightarrow>
   token_file option \<Rightarrow> string \<Rightarrow> tokenError + token_manager" where
  "NewPersistedTokenManager decode mkdirErr read rnd now save disk path =
     (case mkdirErr of Some e \<Rightarrow> Inl (CreateDir e) | None \<Rightarrow>
       (let tm = \<lparr>tm_tokens = fmempty, tm_secret = [], tm_path = path, tm_disk = disk\<rparr>;
            fresh = (case rnd of
               Inl e \<Rightarrow> Inl (GenerateSecret e)
             | Inr secret \<Rightarrow> (case saveLocked save (tm\<lparr>tm_secret := secret\<rparr>) of
                  (_, Some e) \<Rightarrow> Inl (WriteInitial e) | (tm', None) \<Rightarrow> Inr tm'))
        in (case read of
           ReadErr e \<Rightarrow> Inl (ReadFile e)
         | NotExist \<Rightarrow> fresh
         | ReadData data \<Rightarrow>
             if data = [] then fresh
             else (case decode data of
                Inl e \<Rightarrow> Inl (ParseFile e)
              | Inr tf \<Rightarrow> (case hexDecode (tf_secret tf) of
                   None \<Rightarrow> Inl InvalidSecret
                 | Some secret \<Rightarrow>
                     if length secret \<noteq> 32 then Inl InvalidSecret
                     else Inr (cleanupLocked now (tm\<lparr>tm_secret := secret,
                       tm_tokens := (case tf_tokens tf of None \<Rightarrow> fmempty | Some m \<Rightarrow> m)\<rparr>)))))))"

definition mintToken :: "(string \<Rightarrow> string \<Rightarrow> string) \<Rightarrow> string \<Rightarrow> string \<Rightarrow> string" where
  "mintToken mac secret raw = hexEncode raw @ ''.'' @ hexEncode (mac secret raw)"

definition CreateFor ::
  "(string \<Rightarrow> string \<Rightarrow> string) \<Rightarrow> string + string \<Rightarrow> time \<Rightarrow> io \<Rightarrow> duration \<Rightarrow> string \<Rightarrow> string \<Rightarrow> string \<Rightarrow> string \<Rightarrow>
   token_manager \<Rightarrow> token_manager \<times> (tokenError + join_token)" where
  "CreateFor mac rnd now save ttl createdBy kind nodeID ip tm =
     (case rnd of
        Inl e \<Rightarrow> (tm, Inl (GenerateToken e))
      | Inr raw \<Rightarrow>
          (let token = mintToken mac (tm_secret tm) raw;
               jt = \<lparr>jt_token = token, jt_expires_at = now + ttl, jt_used = False, jt_created_by = createdBy,
                     jt_kind = (if kind = [] then KindManager else kind), jt_node_id = nodeID, jt_ip = ip\<rparr>;
               tm1 = cleanupLocked now (tm\<lparr>tm_tokens := fmupd token jt (tm_tokens tm)\<rparr>)
           in (case saveLocked save tm1 of
                 (tm2, Some e) \<Rightarrow> (tm2\<lparr>tm_tokens := fmdrop token (tm_tokens tm2)\<rparr>, Inl (PersistToken e))
               | (tm2, None) \<Rightarrow> (tm2, Inr jt))))"

definition Create ::
  "(string \<Rightarrow> string \<Rightarrow> string) \<Rightarrow> string + string \<Rightarrow> time \<Rightarrow> io \<Rightarrow> duration \<Rightarrow> string \<Rightarrow> string \<Rightarrow>
   token_manager \<Rightarrow> token_manager \<times> (tokenError + join_token)" where
  "Create mac rnd now save ttl createdBy kind tm = CreateFor mac rnd now save ttl createdBy kind [] [] tm"

record token_info =
  ti_id :: string
  ti_masked :: string
  ti_expires_at :: time
  ti_created_by :: string
  ti_kind :: string

definition tokenFingerprint :: "string \<Rightarrow> string" where
  "tokenFingerprint token =
     (let raw = (case index_byte token (CHR ''.'') of Some i \<Rightarrow> if i > 0 then take i token else token | None \<Rightarrow> token)
      in if length raw > 12 then take 12 raw else raw)"

definition maskToken :: "string \<Rightarrow> string" where
  "maskToken token = (if length token \<le> 12 then token
     else take 6 token @ [CHR 0xE2, CHR 0x80, CHR 0xA6] @ drop (length token - 4) token)"

definition ListTokens :: "time \<Rightarrow> token_manager \<Rightarrow> token_manager \<times> token_info list" where
  "ListTokens now tm =
     (let tm1 = cleanupLocked now tm in
      (tm1, map (\<lambda>(k, t). \<lparr>ti_id = tokenFingerprint (jt_token t), ti_masked = maskToken (jt_token t),
                  ti_expires_at = jt_expires_at t, ti_created_by = jt_created_by t, ti_kind = EffectiveKind t\<rparr>)
             (sorted_list_of_fmap (tm_tokens tm1))))"

definition Revoke :: "io \<Rightarrow> string \<Rightarrow> token_manager \<Rightarrow> token_manager \<times> tokenError option" where
  "Revoke save i tm =
     (case find (\<lambda>(k, t). tokenFingerprint (jt_token t) = i) (sorted_list_of_fmap (tm_tokens tm)) of
        None \<Rightarrow> (tm, Some ErrTokenNotFound)
      | Some (k, t) \<Rightarrow>
          (case saveLocked save (tm\<lparr>tm_tokens := fmdrop k (tm_tokens tm)\<rparr>) of
             (tm1, Some e) \<Rightarrow> (tm1\<lparr>tm_tokens := fmupd k t (tm_tokens tm1)\<rparr>, Some (PersistRevocation e))
           | (tm1, None) \<Rightarrow> (tm1, None)))"

definition verifyHMAC :: "(string \<Rightarrow> string \<Rightarrow> string) \<Rightarrow> token_manager \<Rightarrow> string \<Rightarrow> bool" where
  "verifyHMAC mac tm token =
     (case cut_byte token (CHR ''.'') of
        (a, b, found) \<Rightarrow> found \<and> (case hexDecode a of None \<Rightarrow> False | Some raw \<Rightarrow>
          (case hexDecode b of None \<Rightarrow> False | Some provided \<Rightarrow> provided = mac (tm_secret tm) raw)))"

definition Peek :: "(string \<Rightarrow> string \<Rightarrow> string) \<Rightarrow> time \<Rightarrow> token_manager \<Rightarrow> string \<Rightarrow> tokenError + join_token" where
  "Peek mac now tm token =
     (if \<not> verifyHMAC mac tm token then Inl ErrTokenNotFound
      else (case fmlookup (tm_tokens tm) token of
        None \<Rightarrow> Inl ErrTokenNotFound
      | Some jt \<Rightarrow>
          if jt_used jt then Inl ErrTokenUsed
          else if now > jt_expires_at jt then Inl ErrTokenExpired
          else Inr jt))"

definition Validate ::
  "(string \<Rightarrow> string \<Rightarrow> string) \<Rightarrow> time \<Rightarrow> io \<Rightarrow> string \<Rightarrow> string \<Rightarrow> token_manager \<Rightarrow> token_manager \<times> (tokenError + join_token)" where
  "Validate mac now save token kind tm =
     (if \<not> verifyHMAC mac tm token then (tm, Inl ErrTokenNotFound)
      else (case fmlookup (tm_tokens tm) token of
        None \<Rightarrow> (tm, Inl ErrTokenNotFound)
      | Some jt \<Rightarrow>
          if jt_used jt then (tm, Inl ErrTokenUsed)
          else if now > jt_expires_at jt then
            (fst (saveLocked save (tm\<lparr>tm_tokens := fmdrop token (tm_tokens tm)\<rparr>)), Inl ErrTokenExpired)
          else if EffectiveKind jt \<noteq> kind then (tm, Inl ErrTokenKind)
          else (case saveLocked save (tm\<lparr>tm_tokens := fmupd token (jt\<lparr>jt_used := True\<rparr>) (tm_tokens tm)\<rparr>) of
                  (tm1, Some e) \<Rightarrow> (tm1\<lparr>tm_tokens := fmupd token (jt\<lparr>jt_used := False\<rparr>) (tm_tokens tm1)\<rparr>, Inl (PersistConsumption e))
                | (tm1, None) \<Rightarrow> (tm1, Inr (jt\<lparr>jt_used := True\<rparr>)))))"

definition RestoreToken :: "io \<Rightarrow> join_token \<Rightarrow> token_manager \<Rightarrow> token_manager" where
  "RestoreToken save jt tm =
     fst (saveLocked save (tm\<lparr>tm_tokens := fmupd (jt_token jt) (jt\<lparr>jt_used := False\<rparr>) (tm_tokens tm)\<rparr>))"

section \<open>A token admits once\<close>

lemma saveLocked_mem: "saveLocked save tm = (tm', e) \<Longrightarrow> tm_tokens tm' = tm_tokens tm \<and> tm_secret tm' = tm_secret tm \<and> tm_path tm' = tm_path tm"
  by (auto simp: saveLocked_def split: if_splits io.splits)

text \<open>No map, in memory or on disk, holds the token unused.\<close>

definition noLive :: "string \<Rightarrow> join_token gomap \<Rightarrow> bool" where
  "noLive token m \<longleftrightarrow> (case fmlookup m token of None \<Rightarrow> True | Some t \<Rightarrow> jt_used t)"

definition spent :: "string \<Rightarrow> token_manager \<Rightarrow> bool" where
  "spent token tm \<longleftrightarrow> noLive token (tm_tokens tm) \<and>
     (case tm_disk tm of None \<Rightarrow> True | Some tf \<Rightarrow> (case tf_tokens tf of None \<Rightarrow> True | Some m \<Rightarrow> noLive token m))"

text \<open>What the manager goes through: minting other tokens, listing, peeking, revoking, offers of any
  token, putting other tokens back, and restarts, which load the file (its bytes decode to what was
  saved) or, finding none, start anew.  \<open>token_step mac token\<close> is a step that
  neither mints \<open>token\<close> again nor puts it back.\<close>

inductive token_step :: "(string \<Rightarrow> string \<Rightarrow> string) \<Rightarrow> string \<Rightarrow> token_manager \<Rightarrow> token_manager \<Rightarrow> bool" for mac token where
  create: "CreateFor mac rnd now save ttl author kind nid ip tm = (tm', r) \<Longrightarrow>
    (\<And>raw. rnd = Inr raw \<Longrightarrow> mintToken mac (tm_secret tm) raw \<noteq> token) \<Longrightarrow> token_step mac token tm tm'"
| list_tokens: "ListTokens now tm = (tm', l) \<Longrightarrow> token_step mac token tm tm'"
| revoke: "Revoke save i tm = (tm', r) \<Longrightarrow> token_step mac token tm tm'"
| validate: "Validate mac now save t kind tm = (tm', r) \<Longrightarrow> token_step mac token tm tm'"
| put_back: "jt_token jt \<noteq> token \<Longrightarrow> token_step mac token tm (RestoreToken save jt tm)"
| restart: "tm_disk tm = Some tf \<Longrightarrow> decode data = Inr tf \<Longrightarrow>
    NewPersistedTokenManager decode None (ReadData data) rnd now save (tm_disk tm) (tm_path tm) = Inr tm' \<Longrightarrow> token_step mac token tm tm'"
| restart_new: "tm_disk tm = None \<Longrightarrow>
    NewPersistedTokenManager decode None NotExist rnd now save (tm_disk tm) (tm_path tm) = Inr tm' \<Longrightarrow> token_step mac token tm tm'"

lemma noLive_fmdrop: "noLive t m \<Longrightarrow> noLive t (fmdrop k m)"
  by (auto simp: noLive_def fmlookup_drop)

lemma noLive_fmupd: "noLive t m \<Longrightarrow> k \<noteq> t \<or> jt_used x \<Longrightarrow> noLive t (fmupd k x m)"
  by (auto simp: noLive_def)

lemma noLive_fmfilter: "noLive t m \<Longrightarrow> noLive t (fmfilter P m)"
  by (auto simp: noLive_def)

lemma noLive_fmempty: "noLive t fmempty"
  by (simp add: noLive_def)

lemmas noLive_intros = noLive_fmdrop noLive_fmupd noLive_fmfilter noLive_fmempty

lemma spent_saveLocked: "saveLocked save tm = (tm', e) \<Longrightarrow> spent t tm \<Longrightarrow> spent t tm'"
  by (auto simp: saveLocked_def spent_def split: if_splits io.splits)

lemma spent_mem: "spent t tm \<Longrightarrow> noLive t m \<Longrightarrow> spent t (tm\<lparr>tm_tokens := m\<rparr>)"
  by (simp add: spent_def)

lemma spent_noLive: "spent t tm \<Longrightarrow> noLive t (tm_tokens tm)"
  by (simp add: spent_def)

lemma spent_cleanup: "spent t tm \<Longrightarrow> spent t (cleanupLocked now tm)"
  unfolding cleanupLocked_def by (intro spent_mem noLive_fmfilter spent_noLive)

lemma spent_drop: "spent t tm \<Longrightarrow> spent t (tm\<lparr>tm_tokens := fmdrop k (tm_tokens tm)\<rparr>)"
  by (intro spent_mem noLive_fmdrop spent_noLive)

lemma spent_upd: "spent t tm \<Longrightarrow> k \<noteq> t \<or> jt_used x \<Longrightarrow> spent t (tm\<lparr>tm_tokens := fmupd k x (tm_tokens tm)\<rparr>)"
  by (intro spent_mem noLive_fmupd spent_noLive)

lemma spent_CreateFor:
  assumes c: "CreateFor mac rnd now save ttl author kind nid ip tm = (tm', r)"
    and new: "\<And>raw. rnd = Inr raw \<Longrightarrow> mintToken mac (tm_secret tm) raw \<noteq> t" and s: "spent t tm"
  shows "spent t tm'"
proof (cases rnd)
  case (Inl e)
  then show ?thesis using c s by (simp add: CreateFor_def)
next
  case (Inr raw)
  define tk where "tk = mintToken mac (tm_secret tm) raw"
  obtain jt tm2 e where sv: "saveLocked save (cleanupLocked now (tm\<lparr>tm_tokens := fmupd tk jt (tm_tokens tm)\<rparr>)) = (tm2, e)"
    and r: "tm' = (case e of None \<Rightarrow> tm2 | Some x \<Rightarrow> tm2\<lparr>tm_tokens := fmdrop tk (tm_tokens tm2)\<rparr>)"
    using c unfolding CreateFor_def Inr Let_def tk_def by (auto split: prod.splits option.splits)
  have "tk \<noteq> t" using new Inr by (simp add: tk_def)
  then have "spent t tm2" using spent_saveLocked [OF sv] spent_cleanup spent_upd s by blast
  then show ?thesis using r by (auto intro: spent_drop split: option.split)
qed

lemma spent_Revoke:
  assumes r: "Revoke save i tm = (tm', q)" and s: "spent t tm"
  shows "spent t tm'"
proof (cases "find (\<lambda>(k, t). tokenFingerprint (jt_token t) = i) (sorted_list_of_fmap (tm_tokens tm))")
  case None
  then show ?thesis using r s by (simp add: Revoke_def)
next
  case (Some p)
  then obtain k x where f: "find (\<lambda>(k, t). tokenFingerprint (jt_token t) = i) (sorted_list_of_fmap (tm_tokens tm)) = Some (k, x)"
    by (cases p) auto
  have kx: "fmlookup (tm_tokens tm) k = Some x" using find_sorted_fmap [OF f] .
  obtain tm1 e where sv: "saveLocked save (tm\<lparr>tm_tokens := fmdrop k (tm_tokens tm)\<rparr>) = (tm1, e)" by (metis surj_pair)
  have tm': "tm' = (case e of None \<Rightarrow> tm1 | Some _ \<Rightarrow> tm1\<lparr>tm_tokens := fmupd k x (tm_tokens tm1)\<rparr>)"
    using r f sv by (cases e) (simp_all add: Revoke_def)
  have "spent t tm1" using spent_saveLocked [OF sv] spent_drop s by blast
  moreover have "k \<noteq> t \<or> jt_used x" using spent_noLive [OF s] kx by (auto simp: noLive_def)
  ultimately show ?thesis using tm' by (auto intro: spent_upd split: option.split)
qed

text \<open>What \<open>Validate\<close> does, branch by branch, to a token that is in the map.\<close>

lemma Validate_cases:
  assumes "Validate mac now save token kind tm = (tm', r)"
  obtains (refused) e where "tm' = tm" "r = Inl e" "e \<noteq> ErrTokenExpired"
  | (expired) jt e where "r = Inl ErrTokenExpired" "fmlookup (tm_tokens tm) token = Some jt" "jt_expires_at jt < now"
      "saveLocked save (tm\<lparr>tm_tokens := fmdrop token (tm_tokens tm)\<rparr>) = (tm', e)"
  | (consumed) jt where "r = Inr (jt\<lparr>jt_used := True\<rparr>)" "verifyHMAC mac tm token" "fmlookup (tm_tokens tm) token = Some jt"
      "\<not> jt_used jt" "now \<le> jt_expires_at jt" "EffectiveKind jt = kind"
      "saveLocked save (tm\<lparr>tm_tokens := fmupd token (jt\<lparr>jt_used := True\<rparr>) (tm_tokens tm)\<rparr>) = (tm', None)"
  | (unsaved) jt e where "r = Inl (PersistConsumption e)" "fmlookup (tm_tokens tm) token = Some jt" "\<not> jt_used jt" "tm' = tm"
proof (cases "fmlookup (tm_tokens tm) token")
  case None
  then show thesis using assms refused by (auto simp: Validate_def split: if_splits)
next
  case (Some jt)
  let ?tm = "tm\<lparr>tm_tokens := fmupd token (jt\<lparr>jt_used := True\<rparr>) (tm_tokens tm)\<rparr>"
  obtain tm1 e where sv: "saveLocked save ?tm = (tm1, e)" by (metis surj_pair)
  have reverted: "tm1\<lparr>tm_tokens := fmupd token (jt\<lparr>jt_used := False\<rparr>) (tm_tokens tm1)\<rparr> = tm" if "\<not> jt_used jt" and "e \<noteq> None"
  proof -
    have "tm1 = ?tm" using sv that(2) by (auto simp: saveLocked_def split: if_splits io.splits)
    moreover have "jt\<lparr>jt_used := False\<rparr> = jt" using that(1) by (cases jt) simp
    moreover have "fmupd token jt (fmupd token (jt\<lparr>jt_used := True\<rparr>) (tm_tokens tm)) = tm_tokens tm"
      using Some by (intro fmap_ext) auto
    ultimately show ?thesis by simp
  qed
  obtain tm2 e2 where dr: "saveLocked save (tm\<lparr>tm_tokens := fmdrop token (tm_tokens tm)\<rparr>) = (tm2, e2)" by (metis surj_pair)
  consider "\<not> verifyHMAC mac tm token \<or> jt_used jt" | "verifyHMAC mac tm token" "\<not> jt_used jt" "jt_expires_at jt < now"
    | "verifyHMAC mac tm token" "\<not> jt_used jt" "\<not> jt_expires_at jt < now" "EffectiveKind jt \<noteq> kind"
    | "verifyHMAC mac tm token" "\<not> jt_used jt" "\<not> jt_expires_at jt < now" "EffectiveKind jt = kind" by blast
  then show thesis
  proof cases
    case 2
    then show thesis using assms Some dr expired [of jt e2] by (simp add: Validate_def)
  next
    case 4
    show thesis
    proof (cases e)
      case None
      then show thesis using assms Some sv 4 consumed [of jt] by (simp add: Validate_def not_less)
    next
      case (Some x)
      then have "tm' = tm" "r = Inl (PersistConsumption x)"
        using assms \<open>fmlookup (tm_tokens tm) token = Some jt\<close> sv 4 reverted by (simp_all add: Validate_def)
      then show thesis using unsaved [of x jt] 4 \<open>fmlookup (tm_tokens tm) token = Some jt\<close> by blast
    qed
  qed (use assms Some refused in \<open>auto simp: Validate_def split: if_splits\<close>)
qed

lemma spent_Validate:
  assumes "Validate mac now save token kind tm = (tm', r)" and "spent t tm"
  shows "spent t tm'"
  using assms(1)
proof (cases rule: Validate_cases)
  case (expired jt e)
  then show ?thesis using spent_saveLocked spent_drop assms(2) by blast
next
  case (consumed jt)
  then show ?thesis using spent_saveLocked spent_upd assms(2) by fastforce
qed (use assms(2) in simp_all)

lemma spent_load:
  assumes "NewPersistedTokenManager decode None read rnd now save disk path = Inr tm'"
    and "\<And>data tf m. read = ReadData data \<Longrightarrow> decode data = Inr tf \<Longrightarrow> tf_tokens tf = Some m \<Longrightarrow> noLive t m"
    and "\<And>tf m. disk = Some tf \<Longrightarrow> tf_tokens tf = Some m \<Longrightarrow> noLive t m"
  shows "spent t tm'"
proof -
  have base: "spent t \<lparr>tm_tokens = m, tm_secret = sc, tm_path = path, tm_disk = disk\<rparr>" if "noLive t m" for m sc
    using that assms(3) by (auto simp: spent_def split: option.split)
  have fresh: "spent t tm2" if "saveLocked save \<lparr>tm_tokens = fmempty, tm_secret = sc, tm_path = path, tm_disk = disk\<rparr> = (tm2, None)" for sc tm2
    using spent_saveLocked [OF that] base [OF noLive_fmempty] by blast
  show ?thesis
    using assms(1,2) spent_cleanup [OF base] noLive_fmempty
    by (auto simp: NewPersistedTokenManager_def Let_def dest!: fresh split: readResult.splits sum.splits option.splits prod.splits if_splits)
qed

lemma spent_step: "token_step mac token tm tm' \<Longrightarrow> spent token tm \<Longrightarrow> spent token tm'"
proof (induction rule: token_step.induct)
  case (create rnd now save ttl author kind nid ip tm tm' r)
  then show ?case using spent_CreateFor by blast
next
  case (list_tokens now tm tm' l)
  then show ?case by (auto simp: ListTokens_def Let_def intro: spent_cleanup)
next
  case (revoke save i tm tm' r)
  then show ?case using spent_Revoke by blast
next
  case (validate now save t kind tm tm' r)
  then show ?case using spent_Validate by blast
next
  case (put_back jt tm save)
  then have "spent token (tm\<lparr>tm_tokens := fmupd (jt_token jt) (jt\<lparr>jt_used := False\<rparr>) (tm_tokens tm)\<rparr>)"
    by (intro spent_upd) auto
  then show ?case unfolding RestoreToken_def using spent_saveLocked by (metis prod.collapse)
next
  case (restart tm tf decode data rnd now save tm')
  then show ?case by (intro spent_load [of decode "ReadData data"]) (auto simp: spent_def split: option.splits)
next
  case (restart_new tm decode rnd now save tm')
  then show ?case by (intro spent_load [of decode NotExist]) (auto simp: spent_def split: option.splits)
qed

lemma spent_steps: "(token_step mac token)\<^sup>*\<^sup>* tm tm' \<Longrightarrow> spent token tm \<Longrightarrow> spent token tm'"
  by (induction rule: rtranclp_induct) (auto dest: spent_step)

lemma spent_refused: "spent token tm \<Longrightarrow> Validate mac now save token kind tm = (tm', Inr jt) \<Longrightarrow> False"
  by (erule Validate_cases) (auto simp: spent_def noLive_def)

text \<open>A manager without a path has no file.\<close>

definition disk_ok :: "token_manager \<Rightarrow> bool" where
  "disk_ok tm \<longleftrightarrow> (tm_path tm = [] \<longrightarrow> tm_disk tm = None)"

lemma consumed_spent:
  assumes v: "Validate mac now save token kind tm = (tm', Inr jt)" and d: "disk_ok tm"
  shows "spent token tm'"
  using v
proof (cases rule: Validate_cases)
  case (consumed j)
  then show ?thesis using d
    by (auto simp: saveLocked_def spent_def noLive_def disk_ok_def split: if_splits io.splits)
qed auto

text \<open>C5: a join token admits one node.  Once \<open>Validate\<close> has accepted a token, then whatever the manager
  does next (minting, listing, revoking, validating any token, putting other tokens back, restarting from its file)
  every later \<open>Validate\<close> of the token is refused, unless \<open>Restore\<close> put this very token back
  or the random source minted it again.\<close>

theorem token_single_use:
  assumes "Validate mac now save token kind tm = (tm', Inr jt)" and "disk_ok tm"
    and "(token_step mac token)\<^sup>*\<^sup>* tm' tm''"
  shows "\<exists>tm3 e. Validate mac now2 save2 token kind2 tm'' = (tm3, Inl e)"
proof -
  have "spent token tm''" using consumed_spent assms spent_steps by blast
  then show ?thesis using spent_refused by (metis sum.exhaust surj_pair)
qed

definition sampleMac :: "string \<Rightarrow> string \<Rightarrow> string" where
  "sampleMac k m = k @ m"

definition sampleSecret :: string where
  "sampleSecret = replicate 32 (CHR ''s'')"

definition sampleText :: string where
  "sampleText = mintToken sampleMac sampleSecret ''r''"

definition sampleToken :: join_token where
  "sampleToken = \<lparr>jt_token = sampleText, jt_expires_at = 9, jt_used = False, jt_created_by = ''admin'', jt_kind = KindManager, jt_node_id = [], jt_ip = []\<rparr>"

definition sampleManager :: token_manager where
  "sampleManager = \<lparr>tm_tokens = fmupd sampleText sampleToken fmempty, tm_secret = sampleSecret, tm_path = ''tokens.json'', tm_disk = None\<rparr>"

lemma sample_verifies: "verifyHMAC sampleMac sampleManager sampleText"
  by (simp add: sampleText_def verifyHMAC_def mintToken_def hexEncode_no_dot sampleManager_def)

lemma sample_Validate:
  "\<exists>tm. Validate sampleMac 5 SaveOk sampleText KindManager sampleManager = (tm, Inr (sampleToken\<lparr>jt_used := True\<rparr>))"
  using sample_verifies by (auto simp: Validate_def saveLocked_def sampleManager_def sampleToken_def EffectiveKind_def)

theorem token_single_use_witness:
  "\<exists>tm. Validate sampleMac 5 SaveOk sampleText KindManager sampleManager = (tm, Inr (sampleToken\<lparr>jt_used := True\<rparr>)) \<and>
     (\<exists>tm2 e. Validate sampleMac 6 SaveOk sampleText KindManager (fst (ListTokens 6 tm)) = (tm2, Inl e))"
proof -
  obtain tm where v: "Validate sampleMac 5 SaveOk sampleText KindManager sampleManager = (tm, Inr (sampleToken\<lparr>jt_used := True\<rparr>))"
    using sample_Validate by blast
  have "token_step sampleMac sampleText tm (fst (ListTokens 6 tm))" by (rule token_step.list_tokens) (rule surjective_pairing)
  then have "(token_step sampleMac sampleText)\<^sup>*\<^sup>* tm (fst (ListTokens 6 tm))" by simp
  from token_single_use [OF v _ this] v show ?thesis by (auto simp: disk_ok_def sampleManager_def)
qed

section \<open>What a token is accepted for\<close>

text \<open>A token is accepted only when it carries the manager's own keyed hash, is held unused, has not
  expired and is offered for the kind of node it was minted for; the token returned is the one
  held, marked used, and so is the one held and, where there is a file, the one in the file.\<close>

theorem Validate_accepts:
  assumes "Validate mac now save token kind tm = (tm', Inr jt)"
  shows "verifyHMAC mac tm token \<and> (\<exists>held. fmlookup (tm_tokens tm) token = Some held \<and> \<not> jt_used held \<and>
           now \<le> jt_expires_at held \<and> EffectiveKind held = kind \<and> jt = held\<lparr>jt_used := True\<rparr>) \<and>
         fmlookup (tm_tokens tm') token = Some jt \<and>
         (tm_path tm \<noteq> [] \<longrightarrow> (\<exists>tf m. tm_disk tm' = Some tf \<and> tf_tokens tf = Some m \<and> fmlookup m token = Some jt))"
  using assms
proof (cases rule: Validate_cases)
  case (consumed j)
  have "tm_tokens tm' = fmupd token (j\<lparr>jt_used := True\<rparr>) (tm_tokens tm)"
    using saveLocked_mem [OF consumed(7)] by simp
  moreover have "tm_path tm \<noteq> [] \<Longrightarrow> tm_disk tm' = Some \<lparr>tf_secret = hexEncode (tm_secret tm), tf_tokens = Some (tm_tokens tm')\<rparr>"
    using consumed(7) by (auto simp: saveLocked_def split: if_splits io.splits)
  ultimately show ?thesis using consumed(1-6) by auto
qed auto

theorem Validate_accepts_witness:
  "\<exists>tm. Validate sampleMac 5 SaveOk sampleText KindManager sampleManager = (tm, Inr (sampleToken\<lparr>jt_used := True\<rparr>)) \<and>
     fmlookup (tm_tokens tm) sampleText = Some (sampleToken\<lparr>jt_used := True\<rparr>)"
  using sample_Validate Validate_accepts [of sampleMac 5 SaveOk sampleText KindManager sampleManager] by blast

text \<open>An offer that is refused because the token is unknown, already used or of another kind, or
  because its consumption could not be saved, changes nothing, in memory or on disk; only an expired
  token is dropped.\<close>

theorem Validate_refuses:
  assumes "Validate mac now save token kind tm = (tm', Inl e)"
  shows "if e = ErrTokenExpired then tm_tokens tm' = fmdrop token (tm_tokens tm) \<and> tm_secret tm' = tm_secret tm else tm' = tm"
  using assms
proof (cases rule: Validate_cases)
  case (expired j x)
  then show ?thesis using saveLocked_mem [OF expired(4)] by simp
qed auto

theorem Validate_refuses_witness:
  "\<exists>tm. Validate sampleMac 5 SaveOk sampleText KindAgent sampleManager = (tm, Inl ErrTokenKind) \<and> tm = sampleManager"
proof -
  obtain tm where v: "Validate sampleMac 5 SaveOk sampleText KindAgent sampleManager = (tm, Inl ErrTokenKind)"
    using sample_verifies
    by (auto simp: Validate_def sampleManager_def sampleToken_def EffectiveKind_def KindManager_def KindAgent_def)
  with Validate_refuses [OF v] show ?thesis by simp
qed

section \<open>Minting, putting back and restarting\<close>

lemma mintToken_verifies: "tm_secret tm = secret \<Longrightarrow> verifyHMAC mac tm (mintToken mac secret raw)"
  by (simp add: verifyHMAC_def mintToken_def cut_byte_append hexEncode_no_dot)

lemma cleanup_frame [simp]:
  "tm_secret (cleanupLocked now tm) = tm_secret tm" "tm_path (cleanupLocked now tm) = tm_path tm" "tm_disk (cleanupLocked now tm) = tm_disk tm"
  by (simp_all add: cleanupLocked_def)

lemma verifyHMAC_secret: "tm_secret a = tm_secret b \<Longrightarrow> verifyHMAC mac a token = verifyHMAC mac b token"
  by (simp only: verifyHMAC_def)

lemma CreateFor_ok:
  assumes "CreateFor mac rnd now save ttl author kind nid ip tm = (tm', Inr jt)"
  obtains raw where "rnd = Inr raw" "jt_token jt = mintToken mac (tm_secret tm) raw" "\<not> jt_used jt" "jt_expires_at jt = now + ttl"
    "jt_kind jt = (if kind = [] then KindManager else kind)" "jt_node_id jt = nid" "jt_ip jt = ip" "tm_secret tm' = tm_secret tm"
    "tm_path tm' = tm_path tm" "tm_tokens tm' = tm_tokens (cleanupLocked now (tm\<lparr>tm_tokens := fmupd (jt_token jt) jt (tm_tokens tm)\<rparr>))"
    "tm_path tm \<noteq> [] \<longrightarrow> tm_disk tm' = Some \<lparr>tf_secret = hexEncode (tm_secret tm), tf_tokens = Some (tm_tokens tm')\<rparr>"
  using assms unfolding CreateFor_def Let_def
  by (auto simp: saveLocked_def split: sum.splits if_splits io.splits)

lemma cleanup_keeps: "fmlookup (tm_tokens tm) k = Some t \<Longrightarrow> live now t \<Longrightarrow> fmlookup (tm_tokens (cleanupLocked now tm)) k = Some t"
  by (simp add: cleanupLocked_def)

lemma Validate_live:
  assumes "verifyHMAC mac tm token" "fmlookup (tm_tokens tm) token = Some jt" "live now jt" "EffectiveKind jt = kind"
  shows "\<exists>tm'. Validate mac now SaveOk token kind tm = (tm', Inr (jt\<lparr>jt_used := True\<rparr>))"
  using assms by (auto simp: Validate_def saveLocked_def live_def)

text \<open>A token that was minted is accepted, until it expires, for the kind of node it was minted for:
  by the manager itself, and by the manager that a restart loads from its file, provided the file's bytes decode
  to what was saved.  (An empty kind mints a manager's token.)\<close>

theorem Create_then_Validate:
  assumes c: "CreateFor mac rnd now save ttl author kind nid ip tm = (tm', Inr jt)"
    and t: "now \<le> now2" "now2 \<le> now3" "now3 \<le> now + ttl"
    and kd: "kd = (if kind = [] then KindManager else kind)"
  shows "(\<exists>tm2. Validate mac now3 SaveOk (jt_token jt) kd tm' = (tm2, Inr (jt\<lparr>jt_used := True\<rparr>))) \<and>
    (tm_path tm \<noteq> [] \<and> length (tm_secret tm) = 32 \<and> data \<noteq> [] \<and> tm_disk tm' = Some tf \<and> decode data = Inr tf \<longrightarrow>
      (\<exists>tm2 tm3. NewPersistedTokenManager decode None (ReadData data) rnd2 now2 save2 (tm_disk tm') (tm_path tm') = Inr tm2 \<and>
        Validate mac now3 SaveOk (jt_token jt) kd tm2 = (tm3, Inr (jt\<lparr>jt_used := True\<rparr>))))"
proof -
  from c obtain raw where f: "jt_token jt = mintToken mac (tm_secret tm) raw" "\<not> jt_used jt" "jt_expires_at jt = now + ttl"
    "jt_kind jt = (if kind = [] then KindManager else kind)" "tm_secret tm' = tm_secret tm"
    "tm_tokens tm' = tm_tokens (cleanupLocked now (tm\<lparr>tm_tokens := fmupd (jt_token jt) jt (tm_tokens tm)\<rparr>))"
    "tm_path tm \<noteq> [] \<longrightarrow> tm_disk tm' = Some \<lparr>tf_secret = hexEncode (tm_secret tm), tf_tokens = Some (tm_tokens tm')\<rparr>"
    by (rule CreateFor_ok)
  have lv: "live now jt" "live now2 jt" "live now3 jt" using f t by (simp_all add: live_def)
  have ek: "EffectiveKind jt = kd" using f kd by (auto simp: EffectiveKind_def KindManager_def)
  have held: "fmlookup (tm_tokens tm') (jt_token jt) = Some jt" unfolding f(6) using lv by (intro cleanup_keeps) simp_all
  have first: "\<exists>tm2. Validate mac now3 SaveOk (jt_token jt) kd tm' = (tm2, Inr (jt\<lparr>jt_used := True\<rparr>))"
    using Validate_live [OF _ held lv(3) ek] mintToken_verifies [of tm'] f by simp
  {
    assume d: "tm_path tm \<noteq> []" "length (tm_secret tm) = 32" "data \<noteq> []" "tm_disk tm' = Some tf" "decode data = Inr tf"
    define tm2 where "tm2 = cleanupLocked now2 \<lparr>tm_tokens = tm_tokens tm', tm_secret = tm_secret tm, tm_path = tm_path tm', tm_disk = tm_disk tm'\<rparr>"
    have "NewPersistedTokenManager decode None (ReadData data) rnd2 now2 save2 (tm_disk tm') (tm_path tm') = Inr tm2"
      using d f(7) by (auto simp: NewPersistedTokenManager_def tm2_def)
    moreover have "fmlookup (tm_tokens tm2) (jt_token jt) = Some jt" unfolding tm2_def using held lv by (intro cleanup_keeps) simp_all
    moreover have "verifyHMAC mac tm2 (jt_token jt)" using f(1) by (simp add: mintToken_verifies tm2_def cleanupLocked_def)
    ultimately have "\<exists>tm2 tm3. NewPersistedTokenManager decode None (ReadData data) rnd2 now2 save2 (tm_disk tm') (tm_path tm') = Inr tm2 \<and>
        Validate mac now3 SaveOk (jt_token jt) kd tm2 = (tm3, Inr (jt\<lparr>jt_used := True\<rparr>))"
      using Validate_live [OF _ _ lv(3) ek] by blast
  }
  then show ?thesis using first by blast
qed

theorem Create_then_Validate_witness:
  "\<exists>tm jt tm2 tm3 tm4 tf. CreateFor sampleMac (Inr ''q'') 1 SaveOk 8 ''admin'' [] [] [] sampleManager = (tm, Inr jt) \<and>
     Validate sampleMac 9 SaveOk (jt_token jt) KindManager tm = (tm2, Inr (jt\<lparr>jt_used := True\<rparr>)) \<and> tm_disk tm = Some tf \<and>
     NewPersistedTokenManager (\<lambda>_. Inr tf) None (ReadData ''json'') (Inl []) 2 SaveOk (tm_disk tm) (tm_path tm) = Inr tm3 \<and>
     Validate sampleMac 9 SaveOk (jt_token jt) KindManager tm3 = (tm4, Inr (jt\<lparr>jt_used := True\<rparr>))"
proof -
  obtain tm jt tf where c: "CreateFor sampleMac (Inr ''q'') 1 SaveOk 8 ''admin'' [] [] [] sampleManager = (tm, Inr jt)"
    and d: "tm_disk tm = Some tf" "tm_path sampleManager \<noteq> []" "length (tm_secret sampleManager) = 32"
    by (auto simp: CreateFor_def saveLocked_def Let_def sampleManager_def sampleSecret_def)
  from Create_then_Validate [OF c, of 2 9 KindManager "''json''" tf "\<lambda>_. Inr tf" "Inl []" SaveOk] c d show ?thesis by auto
qed

text \<open>A token that \<open>Validate\<close> consumed and \<open>Restore\<close> put back is accepted again until it expires, also
  when minting or listing in between dropped the used entry.\<close>

theorem Restore_then_Validate:
  assumes v: "Validate mac now save token kind tm = (tm1, Inr jt)"
    and key: "\<And>t. fmlookup (tm_tokens tm) token = Some t \<Longrightarrow> jt_token t = token"
    and same: "tm_secret tm2 = tm_secret tm" and t: "now2 \<le> jt_expires_at jt"
  shows "\<exists>tm3. Validate mac now2 SaveOk token kind (RestoreToken save2 jt tm2) = (tm3, Inr jt)"
  using v
proof (cases rule: Validate_cases)
  case (consumed h)
  let ?tm = "RestoreToken save2 jt tm2"
  have jt: "jt = h\<lparr>jt_used := True\<rparr>" "jt_token jt = token" using consumed key by auto
  obtain a e where sv: "saveLocked save2 (tm2\<lparr>tm_tokens := fmupd (jt_token jt) (jt\<lparr>jt_used := False\<rparr>) (tm_tokens tm2)\<rparr>) = (a, e)"
    by (metis surj_pair)
  have h: "jt\<lparr>jt_used := False\<rparr> = h" using jt consumed(4) by (cases h) simp
  have r: "?tm = a" using sv by (simp add: RestoreToken_def)
  have held: "fmlookup (tm_tokens ?tm) token = Some h" using saveLocked_mem [OF sv] jt h r by simp
  have "verifyHMAC mac ?tm token" using saveLocked_mem [OF sv] r same consumed(2) verifyHMAC_secret [of ?tm tm] by simp
  then show ?thesis using Validate_live [OF _ held] consumed(4,6) t jt by (simp add: live_def)
qed auto

theorem Restore_then_Validate_witness:
  "\<exists>tm tm3. Validate sampleMac 5 SaveOk sampleText KindManager sampleManager = (tm, Inr (sampleToken\<lparr>jt_used := True\<rparr>)) \<and>
     Validate sampleMac 7 SaveOk sampleText KindManager (RestoreToken SaveOk (sampleToken\<lparr>jt_used := True\<rparr>) sampleManager) =
       (tm3, Inr (sampleToken\<lparr>jt_used := True\<rparr>))"
proof -
  obtain tm where v: "Validate sampleMac 5 SaveOk sampleText KindManager sampleManager = (tm, Inr (sampleToken\<lparr>jt_used := True\<rparr>))"
    using sample_Validate by blast
  from Restore_then_Validate [OF v, of sampleManager 7 SaveOk] v show ?thesis
    by (auto simp: sampleManager_def sampleToken_def)
qed

end
