(* ===== verification/Tasks_Store.thy ===== *)
theory Tasks_Store
  imports Task_Model Join_Token
begin

text \<open>
  The task store: \<^verbatim>\<open>src/internal/cluster/tasks_store.go\<close>, with the two operations it writes
  through, \<^verbatim>\<open>Manager.SetConfig\<close> and \<^verbatim>\<open>RaftNode.Apply\<close>, and the gate a run starts behind
  (\<^verbatim>\<open>nodesNotReady\<close>).  The store lives in the replicated config map (theory \<open>Raft_FSM\<close>).

  A write is told what Raft does with it (\<open>raftReply\<close>): this node is no longer the leader, the log refuses the entry,
  an error after which the entry may or may not have been committed, or a commit, whereupon
  the entry is applied.  The JSON texts, the SHA-256 sum and the clock are parameters; \<open>json_ok\<close> says
  what is relied on of the texts.  \<^verbatim>\<open>taskMu\<close> orders the operations that check before they write, so
  they run one after another.  Logging is left out, and so is \<^verbatim>\<open>NewRunID\<close>, which formats a date.
\<close>

section \<open>Data\<close>

definition CapTasks :: string where "CapTasks = ''tasks-v1''"

definition taskKeyPrefix :: string where "taskKeyPrefix = ''task/''"
definition taskRevKeyPrefix :: string where "taskRevKeyPrefix = ''taskrev/''"
definition taskRunKeyPrefix :: string where "taskRunKeyPrefix = ''taskrun/''"
definition runNodeInfix :: string where "runNodeInfix = ''/n/''"

definition RunRunning :: string where "RunRunning = ''running''"
definition RunStopping :: string where "RunStopping = ''stopping''"
definition RunHandingOver :: string where "RunHandingOver = ''handing_over''"
definition RunSucceeded :: string where "RunSucceeded = ''succeeded''"
definition RunFailed :: string where "RunFailed = ''failed''"
definition RunStopped :: string where "RunStopped = ''stopped''"

definition RunNodePending :: string where "RunNodePending = ''pending''"
definition RunNodeRunning :: string where "RunNodeRunning = ''running''"
definition RunNodeSucceeded :: string where "RunNodeSucceeded = ''succeeded''"
definition RunNodeFailed :: string where "RunNodeFailed = ''failed''"
definition RunNodeSkipped :: string where "RunNodeSkipped = ''skipped''"
definition RunNodeUnknown :: string where "RunNodeUnknown = ''unknown''"
definition RunNodeStopped :: string where "RunNodeStopped = ''stopped''"

definition RunStepPending :: string where "RunStepPending = ''pending''"
definition RunStepStarting :: string where "RunStepStarting = ''starting''"
definition RunStepRunning :: string where "RunStepRunning = ''running''"
definition RunStepSucceeded :: string where "RunStepSucceeded = ''succeeded''"
definition RunStepFailed :: string where "RunStepFailed = ''failed''"
definition RunStepSkipped :: string where "RunStepSkipped = ''skipped''"
definition RunStepUnknown :: string where "RunStepUnknown = ''unknown''"
definition RunStepCancelled :: string where "RunStepCancelled = ''cancelled''"

lemmas run_status_defs = RunRunning_def RunStopping_def RunHandingOver_def RunSucceeded_def RunFailed_def RunStopped_def
lemmas node_status_defs = RunNodePending_def RunNodeRunning_def RunNodeSucceeded_def RunNodeFailed_def
  RunNodeSkipped_def RunNodeUnknown_def RunNodeStopped_def
lemmas step_status_defs = RunStepPending_def RunStepStarting_def RunStepRunning_def RunStepSucceeded_def
  RunStepFailed_def RunStepSkipped_def RunStepUnknown_def RunStepCancelled_def

definition RunKindAgentInstall :: string where "RunKindAgentInstall = ''agent-install''"
definition AgentInstallTaskID :: string where "AgentInstallTaskID = ''builtin/agent-install''"
definition TaskSourceUser :: string where "TaskSourceUser = ''user''"
definition TaskSourceGit :: string where "TaskSourceGit = ''git''"

definition revisionGrace :: duration where "revisionGrace = 10 * minute"

record task_source =
  src_kind :: string
  src_repo :: string
  src_branch :: string
  src_path :: string
  src_sha :: string

record stored_task =
  td_id :: string
  td_name :: string
  td_yaml :: string
  td_source :: task_source
  td_updated_at :: time
  td_updated_by :: string

record run_record =
  rr_id :: string
  rr_kind :: string
  rr_task_id :: string
  rr_task_name :: string
  rr_rev :: string
  rr_inputs :: "string gomap"
  rr_nodes :: "string list"
  rr_waves :: "string list list"
  rr_confirmed :: "int list"
  rr_batch :: int
  rr_stop_on_failure :: bool
  rr_status :: string
  rr_reason :: string
  rr_force :: bool
  rr_stopped_by :: string
  rr_started_by :: string
  rr_started_at :: time
  rr_ended_at :: time
  rr_rerun_of :: string
  rr_start_at :: "int gomap"
  rr_credentials_until :: time

definition Active :: "run_record \<Rightarrow> bool" where
  "Active r \<longleftrightarrow> rr_status r = RunRunning \<or> rr_status r = RunStopping \<or> rr_status r = RunHandingOver"

record run_step_record =
  sr_status :: string
  sr_job_id :: string
  sr_summary :: string
  sr_changed :: bool
  sr_started_at :: time
  sr_ended_at :: time

record run_node_record =
  nr_status :: string
  nr_reason :: string
  nr_reason_details :: "string gomap"
  nr_steps :: "run_step_record list"
  nr_host :: string
  nr_ip :: string
  nr_name :: string
  nr_group :: string
  nr_node_id :: string
  nr_sfpanel_before :: bool
  nr_awaiting :: string
  nr_host_key :: string
  nr_check_url :: string
  nr_host_key_tailscale :: string

datatype storeError = ErrNotInitialized | ErrNotLeader | RaftNotInitialized
  | RaftApplyNotLeader | RaftApplyError string | FsmError fsmError | FsmPanic
  | ErrTaskTooLarge | ErrTaskNameTaken | ErrTaskNameRequired | ErrInvalidTaskID | ErrInvalidTaskSource
  | ErrTaskNotFound | ErrTaskRevisionNotFound | ErrTaskRunNotFound | ErrInvalidRunID
  | MarshalError string | UnmarshalError string string | PruneError string storeError

section \<open>Identifiers and keys\<close>

definition lower_hex :: "char \<Rightarrow> bool" where
  "lower_hex c \<longleftrightarrow> c \<in> set ''0123456789abcdef''"

definition is_digit :: "char \<Rightarrow> bool" where
  "is_digit c \<longleftrightarrow> c \<in> set ''0123456789''"

definition task_id_char :: "char \<Rightarrow> bool" where
  "task_id_char c \<longleftrightarrow> c \<in> set ''ABCDEFGHIJKLMNOPQRSTUVWXYZabcdefghijklmnopqrstuvwxyz0123456789_-''"

definition taskIDPattern :: "string \<Rightarrow> bool" where
  "taskIDPattern s \<longleftrightarrow> 1 \<le> length s \<and> length s \<le> 64 \<and> list_all task_id_char s"

definition runIDPattern :: "string \<Rightarrow> bool" where
  "runIDPattern s \<longleftrightarrow> length s = 22 \<and> list_all is_digit (take 8 s) \<and> s ! 8 = CHR ''-'' \<and>
     list_all is_digit (take 6 (drop 9 s)) \<and> s ! 15 = CHR ''-'' \<and> list_all lower_hex (drop 16 s)"

definition NewTaskID :: "string \<Rightarrow> string" where
  "NewTaskID randomBytes = hexEncode randomBytes"

definition taskKey :: "string \<Rightarrow> string" where
  "taskKey i = taskKeyPrefix @ i"

definition taskRevKey :: "string \<Rightarrow> string" where
  "taskRevKey sha = taskRevKeyPrefix @ sha"

definition runKey :: "string \<Rightarrow> string" where
  "runKey i = taskRunKeyPrefix @ i"

definition runNodeKey :: "string \<Rightarrow> string \<Rightarrow> string" where
  "runNodeKey runID nodeID = runKey runID @ runNodeInfix @ nodeID"

definition validNodeSegment :: "string \<Rightarrow> bool" where
  "validNodeSegment i \<longleftrightarrow> i \<noteq> [] \<and> length i \<le> 128 \<and> \<not> contains_any i [CHR ''/'', CHR 0x00]"

section \<open>Writing through Raft\<close>

record wire =
  w_codec :: codec
  enc_command :: "cmd \<Rightarrow> string"
  enc_string :: "string \<Rightarrow> string"
  enc_task :: "stored_task \<Rightarrow> string + string"
  dec_task :: "string \<Rightarrow> string + stored_task"
  enc_run :: "run_record \<Rightarrow> string + string"
  dec_run :: "string \<Rightarrow> string + run_record"
  enc_run_node :: "run_node_record \<Rightarrow> string + string"
  dec_run_node :: "string \<Rightarrow> string + run_node_record"
  sha256 :: "string \<Rightarrow> string"

datatype raftReply = NotLeaderNow | RaftErrNotLeader | RaftFails string "(nat \<times> time) option" | Committed nat time

record manager =
  mg_raft :: "fsm option"
  mg_leader :: bool
  mg_taskRevWritten :: "time gomap option"

definition applyEntry :: "wire \<Rightarrow> nat \<Rightarrow> time \<Rightarrow> cmd \<Rightarrow> fsm \<Rightarrow> fsm \<times> storeError option" where
  "applyEntry W index now c f = (case Apply (w_codec W) now f \<lparr>log_index = index, log_data = enc_command W c\<rparr> of
     Panic \<Rightarrow> (f, Some FsmPanic)
   | Applied f' e es \<Rightarrow> (f', map_option FsmError e))"

definition RaftNode_Apply :: "wire \<Rightarrow> raftReply \<Rightarrow> cmd \<Rightarrow> fsm \<Rightarrow> fsm \<times> storeError option" where
  "RaftNode_Apply W reply c f = (case reply of
     NotLeaderNow \<Rightarrow> (f, Some ErrNotLeader)
   | RaftErrNotLeader \<Rightarrow> (f, Some RaftApplyNotLeader)
   | RaftFails e None \<Rightarrow> (f, Some (RaftApplyError e))
   | RaftFails e (Some (index, now)) \<Rightarrow> (fst (applyEntry W index now c f), Some (RaftApplyError e))
   | Committed index now \<Rightarrow> applyEntry W index now c f)"

definition managerApply :: "wire \<Rightarrow> raftReply \<Rightarrow> cmd \<Rightarrow> manager \<Rightarrow> manager \<times> storeError option" where
  "managerApply W reply c m = (case mg_raft m of
     None \<Rightarrow> (m, Some RaftNotInitialized)
   | Some f \<Rightarrow> (case RaftNode_Apply W reply c f of (f', e) \<Rightarrow> (m\<lparr>mg_raft := Some f'\<rparr>, e)))"

definition SetConfig :: "wire \<Rightarrow> raftReply \<Rightarrow> string \<Rightarrow> string \<Rightarrow> manager \<Rightarrow> manager \<times> storeError option" where
  "SetConfig W reply key val m =
     managerApply W reply \<lparr>cmd_type = CmdSetConfig, cmd_key = key, cmd_value = enc_string W val\<rparr> m"

text \<open>\<^verbatim>\<open>errors.Is(err, raft.ErrNotLeader)\<close>: the log's refusal is the store's own.\<close>

definition asNotLeader :: "storeError option \<Rightarrow> storeError option" where
  "asNotLeader e = (if e = Some RaftApplyNotLeader then Some ErrNotLeader else e)"

definition putTaskValue :: "wire \<Rightarrow> raftReply \<Rightarrow> string \<Rightarrow> string \<Rightarrow> manager \<Rightarrow> manager \<times> storeError option" where
  "putTaskValue W reply key val m = (case SetConfig W reply key val m of (m', e) \<Rightarrow> (m', asNotLeader e))"

definition deleteTaskValue :: "wire \<Rightarrow> raftReply \<Rightarrow> string \<Rightarrow> manager \<Rightarrow> manager \<times> storeError option" where
  "deleteTaskValue W reply key m =
     (case managerApply W reply \<lparr>cmd_type = CmdDeleteConfig, cmd_key = key, cmd_value = []\<rparr> m of (m', e) \<Rightarrow> (m', asNotLeader e))"

section \<open>The gate\<close>

record node_metrics =
  met_capabilities :: "string list"
  met_version :: string

definition notReady :: "string gomap \<Rightarrow> node_metrics gomap \<Rightarrow> string \<Rightarrow> string \<Rightarrow> node \<Rightarrow> string option" where
  "notReady health metrics capability i n =
     (let name = (if node_name n = [] then i else node_name n) in
      case fmlookup metrics i of
        None \<Rightarrow> Some (name @ '' (not heard from)'')
      | Some met \<Rightarrow>
          if fmlookup health i \<noteq> Some StatusOnline then Some (name @ '' (offline)'')
          else if capability \<notin> set (met_capabilities met) then Some (name @ '' ('' @ met_version met @ '')'')
          else None)"

definition nodesNotReady :: "string \<Rightarrow> string gomap \<Rightarrow> node_metrics gomap \<Rightarrow> cluster_state \<Rightarrow> string \<Rightarrow> bool \<Rightarrow> string list" where
  "nodesNotReady self health metrics state capability agents =
     sort (List.map_filter (\<lambda>(i, n). if i = self \<or> (\<not> agents \<and> \<not> IsManager n) then None
                                   else notReady health metrics capability i n)
       (case cs_nodes state of None \<Rightarrow> [] | Some m \<Rightarrow> sorted_list_of_fmap m))"

definition TasksReady :: "string \<Rightarrow> string gomap \<Rightarrow> node_metrics gomap \<Rightarrow> manager \<Rightarrow> string list" where
  "TasksReady self health metrics m = (case mg_raft m of
     None \<Rightarrow> [] | Some f \<Rightarrow> nodesNotReady self health metrics (GetState f) CapTasks False)"

definition taskLeader :: "manager \<Rightarrow> bool" where
  "taskLeader m \<longleftrightarrow> mg_raft m \<noteq> None \<and> mg_leader m"

definition taskFSM :: "manager \<Rightarrow> storeError + fsm" where
  "taskFSM m = (case mg_raft m of None \<Rightarrow> Inl ErrNotInitialized | Some f \<Rightarrow> Inr f)"

section \<open>Tasks\<close>

text \<open>Reading the values of a scan: one that does not decode is left out.\<close>

definition decodeAll :: "(string \<Rightarrow> string + 'a) \<Rightarrow> string gomap \<Rightarrow> 'a list" where
  "decodeAll dec entries = List.map_filter (\<lambda>(k, v). case dec v of Inl _ \<Rightarrow> None | Inr x \<Rightarrow> Some x) (sorted_list_of_fmap entries)"

text \<open>\<^verbatim>\<open>sort.Slice\<close> by name, then by ID.\<close>

definition storedTasks :: "wire \<Rightarrow> fsm \<Rightarrow> stored_task list" where
  "storedTasks W f = sort_key (\<lambda>t. (td_name t, td_id t)) (decodeAll (dec_task W) (ConfigWithPrefix f taskKeyPrefix))"

definition stampTask :: "time \<Rightarrow> stored_task \<Rightarrow> stored_task" where
  "stampTask now t = (let t1 = (if src_kind (td_source t) = [] then t\<lparr>td_source := (td_source t)\<lparr>src_kind := TaskSourceUser\<rparr>\<rparr> else t)
     in if td_updated_at t1 = 0 then t1\<lparr>td_updated_at := now\<rparr> else t1)"

definition PutTask :: "wire \<Rightarrow> time \<Rightarrow> raftReply \<Rightarrow> stored_task \<Rightarrow> manager \<Rightarrow> manager \<times> storeError option" where
  "PutTask W now reply t m = (case mg_raft m of
     None \<Rightarrow> (m, Some ErrNotLeader)
   | Some f \<Rightarrow>
     if \<not> taskLeader m then (m, Some ErrNotLeader)
     else if \<not> taskIDPattern (td_id t) then (m, Some ErrInvalidTaskID)
     else if length (td_yaml t) > MaxDocumentBytes then (m, Some ErrTaskTooLarge)
     else if trim_space (td_name t) = [] then (m, Some ErrTaskNameRequired)
     else if src_kind (td_source t) \<notin> {[], TaskSourceUser, TaskSourceGit} then (m, Some ErrInvalidTaskSource)
     else (let t' = stampTask now t in
       (case enc_task W t' of
          Inl e \<Rightarrow> (m, Some (MarshalError e))
        | Inr data \<Rightarrow>
            if list_ex (\<lambda>other. td_id other \<noteq> td_id t' \<and> td_name other = td_name t') (storedTasks W f)
            then (m, Some ErrTaskNameTaken)
            else putTaskValue W reply (taskKey (td_id t')) data m)))"

definition GetTask :: "wire \<Rightarrow> string \<Rightarrow> manager \<Rightarrow> storeError + stored_task" where
  "GetTask W i m = (case taskFSM m of
     Inl e \<Rightarrow> Inl e
   | Inr f \<Rightarrow>
       if \<not> taskIDPattern i then Inl ErrTaskNotFound
       else (case GetConfigValue f (taskKey i) of
          None \<Rightarrow> Inl ErrTaskNotFound
        | Some v \<Rightarrow> (case dec_task W v of Inl e \<Rightarrow> Inl (UnmarshalError i e) | Inr t \<Rightarrow> Inr t)))"

definition ListTasks :: "wire \<Rightarrow> manager \<Rightarrow> storeError + stored_task list" where
  "ListTasks W m = (case taskFSM m of Inl e \<Rightarrow> Inl e | Inr f \<Rightarrow> Inr (storedTasks W f))"

definition DeleteTask :: "wire \<Rightarrow> raftReply \<Rightarrow> string \<Rightarrow> manager \<Rightarrow> manager \<times> storeError option" where
  "DeleteTask W reply i m = (case mg_raft m of
     None \<Rightarrow> (m, Some ErrNotLeader)
   | Some f \<Rightarrow>
     if \<not> taskLeader m then (m, Some ErrNotLeader)
     else if \<not> taskIDPattern i then (m, Some ErrTaskNotFound)
     else if GetConfigValue f (taskKey i) = None then (m, Some ErrTaskNotFound)
     else deleteTaskValue W reply (taskKey i) m)"

section \<open>Revisions\<close>

definition revisionID :: "wire \<Rightarrow> string \<Rightarrow> string" where
  "revisionID W yaml = hexEncode (sha256 W yaml)"

definition PutTaskRevision :: "wire \<Rightarrow> time \<Rightarrow> raftReply \<Rightarrow> string \<Rightarrow> manager \<Rightarrow> manager \<times> (storeError + string)" where
  "PutTaskRevision W now reply yaml m = (case mg_raft m of
     None \<Rightarrow> (m, Inl ErrNotLeader)
   | Some f \<Rightarrow>
     if \<not> taskLeader m then (m, Inl ErrNotLeader)
     else if length yaml > MaxDocumentBytes then (m, Inl ErrTaskTooLarge)
     else (let sha = revisionID W yaml;
               written = (case mg_taskRevWritten m of None \<Rightarrow> fmempty | Some w \<Rightarrow> w);
               m1 = m\<lparr>mg_taskRevWritten := Some (fmupd sha now written)\<rparr>
           in if GetConfigValue f (taskRevKey sha) \<noteq> None then (m1, Inr sha)
              else (case putTaskValue W reply (taskRevKey sha) yaml m1 of
                 (m2, Some e) \<Rightarrow> (m2, Inl e)
               | (m2, None) \<Rightarrow> (m2, Inr sha))))"

definition TaskRevision :: "string \<Rightarrow> manager \<Rightarrow> storeError + string" where
  "TaskRevision sha m = (case taskFSM m of
     Inl e \<Rightarrow> Inl e
   | Inr f \<Rightarrow>
       if sha = [] \<or> CHR ''/'' \<in> set sha then Inl ErrTaskRevisionNotFound
       else (case GetConfigValue f (taskRevKey sha) of None \<Rightarrow> Inl ErrTaskRevisionNotFound | Some v \<Rightarrow> Inr v))"

section \<open>Runs\<close>

definition PutRun :: "wire \<Rightarrow> raftReply \<Rightarrow> run_record \<Rightarrow> manager \<Rightarrow> manager \<times> storeError option" where
  "PutRun W reply r m =
     (if \<not> taskLeader m then (m, Some ErrNotLeader)
      else if \<not> runIDPattern (rr_id r) then (m, Some ErrInvalidRunID)
      else (case enc_run W r of
         Inl e \<Rightarrow> (m, Some (MarshalError e))
       | Inr data \<Rightarrow> putTaskValue W reply (runKey (rr_id r)) data m))"

definition PutRunNode :: "wire \<Rightarrow> raftReply \<Rightarrow> string \<Rightarrow> string \<Rightarrow> run_node_record \<Rightarrow> manager \<Rightarrow> manager \<times> storeError option" where
  "PutRunNode W reply runID nodeID rec m = (case mg_raft m of
     None \<Rightarrow> (m, Some ErrNotLeader)
   | Some f \<Rightarrow>
     if \<not> taskLeader m then (m, Some ErrNotLeader)
     else if \<not> runIDPattern runID \<or> \<not> validNodeSegment nodeID then (m, Some ErrInvalidRunID)
     else if GetConfigValue f (runKey runID) = None then (m, Some ErrTaskRunNotFound)
     else (case enc_run_node W rec of
         Inl e \<Rightarrow> (m, Some (MarshalError e))
       | Inr data \<Rightarrow> putTaskValue W reply (runNodeKey runID nodeID) data m))"

text \<open>The node records of a run; the first that does not decode ends the read.\<close>

fun readNodes :: "wire \<Rightarrow> string \<Rightarrow> string \<Rightarrow> (string \<times> string) list \<Rightarrow> storeError + run_node_record gomap" where
  "readNodes W i prefix [] = Inr fmempty"
| "readNodes W i prefix ((k, v) # es) = (case dec_run_node W v of
     Inl e \<Rightarrow> Inl (UnmarshalError k e)
   | Inr rec \<Rightarrow> (case readNodes W i prefix es of
        Inl e \<Rightarrow> Inl e
      | Inr m \<Rightarrow> Inr (fmupd (trim_prefix k prefix) rec m)))"

definition GetRun :: "wire \<Rightarrow> string \<Rightarrow> manager \<Rightarrow> storeError + run_record \<times> run_node_record gomap" where
  "GetRun W i m = (case taskFSM m of
     Inl e \<Rightarrow> Inl e
   | Inr f \<Rightarrow>
       if \<not> runIDPattern i then Inl ErrTaskRunNotFound
       else (case GetConfigValue f (runKey i) of
          None \<Rightarrow> Inl ErrTaskRunNotFound
        | Some v \<Rightarrow> (case dec_run W v of
             Inl e \<Rightarrow> Inl (UnmarshalError i e)
           | Inr r \<Rightarrow> (let prefix = runKey i @ runNodeInfix in
               case readNodes W i prefix (sorted_list_of_fmap (ConfigWithPrefix f prefix)) of
                 Inl e \<Rightarrow> Inl e | Inr nodes \<Rightarrow> Inr (r, nodes)))))"

definition headEntries :: "string gomap \<Rightarrow> string gomap" where
  "headEntries entries = fmfilter (\<lambda>k. CHR ''/'' \<notin> set (trim_prefix k taskRunKeyPrefix)) entries"

text \<open>\<^verbatim>\<open>sort.Slice\<close> by descending ID.\<close>

definition runHeads :: "wire \<Rightarrow> string gomap \<Rightarrow> run_record list" where
  "runHeads W entries = rev (sort_key rr_id (decodeAll (dec_run W) (headEntries entries)))"

definition ListRuns :: "wire \<Rightarrow> manager \<Rightarrow> storeError + run_record list" where
  "ListRuns W m = (case taskFSM m of Inl e \<Rightarrow> Inl e | Inr f \<Rightarrow> Inr (runHeads W (ConfigWithPrefix f taskRunKeyPrefix)))"

section \<open>Pruning\<close>

text \<open>The runs kept: the \<open>keep\<close> newest and every active one (\<open>keep\<close> is Go's signed int).\<close>

definition keptRuns :: "int \<Rightarrow> run_record list \<Rightarrow> run_record list" where
  "keptRuns keep runs = map snd (filter (\<lambda>(i, r). int i < keep \<or> Active r) (enumerate 0 runs))"

definition runIDOfKey :: "string \<Rightarrow> string" where
  "runIDOfKey k = fst (cut_byte (trim_prefix k taskRunKeyPrefix) (CHR ''/''))"

definition dropRunKeys :: "string list \<Rightarrow> string gomap \<Rightarrow> string list" where
  "dropRunKeys kept entries = filter (\<lambda>k. runIDOfKey k \<notin> set kept) (map fst (sorted_list_of_fmap entries))"

definition inGrace :: "time \<Rightarrow> time gomap option \<Rightarrow> string \<Rightarrow> bool" where
  "inGrace now written sha = (case lookup_opt written sha of None \<Rightarrow> False | Some at \<Rightarrow> now - at < revisionGrace)"

definition dropRevKeys :: "time \<Rightarrow> time gomap option \<Rightarrow> string list \<Rightarrow> string gomap \<Rightarrow> string list" where
  "dropRevKeys now written used entries =
     filter (\<lambda>k. let sha = trim_prefix k taskRevKeyPrefix in sha \<notin> set used \<and> \<not> inGrace now written sha)
       (map fst (sorted_list_of_fmap entries))"

fun deleteKeys :: "wire \<Rightarrow> (string \<Rightarrow> raftReply) \<Rightarrow> string list \<Rightarrow> manager \<Rightarrow> manager \<times> storeError option" where
  "deleteKeys W reply [] m = (m, None)"
| "deleteKeys W reply (k # ks) m = (case deleteTaskValue W (reply k) k m of
     (m', Some e) \<Rightarrow> (m', Some (PruneError k e))
   | (m', None) \<Rightarrow> deleteKeys W reply ks m')"

definition PruneRuns :: "wire \<Rightarrow> time \<Rightarrow> (string \<Rightarrow> raftReply) \<Rightarrow> int \<Rightarrow> manager \<Rightarrow> manager \<times> storeError option" where
  "PruneRuns W now reply keep m = (case mg_raft m of
     None \<Rightarrow> (m, Some ErrNotLeader)
   | Some f \<Rightarrow>
     if \<not> taskLeader m then (m, Some ErrNotLeader)
     else (let entries = ConfigWithPrefix f taskRunKeyPrefix;
               kept = keptRuns keep (runHeads W entries);
               drop = dropRunKeys (map rr_id kept) entries @
                      dropRevKeys now (mg_taskRevWritten m) (map rr_rev kept) (ConfigWithPrefix f taskRevKeyPrefix);
               m1 = m\<lparr>mg_taskRevWritten := map_option (fmfilter (\<lambda>sha. inGrace now (mg_taskRevWritten m) sha)) (mg_taskRevWritten m)\<rparr>
           in deleteKeys W reply (sort drop) m1))"

section \<open>What is relied on of the JSON texts\<close>

text \<open>Strings of valid UTF-8 and the commands the store sends come back as they were written, and the encoder's
  output is valid UTF-8; a record comes back as it was written when its own strings are valid (\<open>utf8_task\<close>,
  \<open>utf8_run\<close>, \<open>utf8_run_node\<close>).\<close>

definition utf8_task :: "stored_task \<Rightarrow> bool" where
  "utf8_task t \<longleftrightarrow> list_all valid_utf8 [td_id t, td_name t, td_yaml t, td_updated_by t, src_kind (td_source t), src_repo (td_source t),
     src_branch (td_source t), src_path (td_source t), src_sha (td_source t)]"

definition utf8_run :: "run_record \<Rightarrow> bool" where
  "utf8_run r \<longleftrightarrow> list_all valid_utf8 ([rr_id r, rr_kind r, rr_task_id r, rr_task_name r, rr_rev r, rr_status r, rr_reason r, rr_stopped_by r,
       rr_started_by r, rr_rerun_of r] @ rr_nodes r @ concat (rr_waves r)) \<and>
     list_all (\<lambda>(k, v). valid_utf8 k \<and> valid_utf8 v) (sorted_list_of_fmap (rr_inputs r)) \<and>
     list_all (\<lambda>(k, v). valid_utf8 k) (sorted_list_of_fmap (rr_start_at r))"

definition utf8_run_node :: "run_node_record \<Rightarrow> bool" where
  "utf8_run_node n \<longleftrightarrow> list_all valid_utf8 [nr_status n, nr_reason n, nr_host n, nr_ip n, nr_name n, nr_group n, nr_node_id n, nr_awaiting n,
       nr_host_key n, nr_check_url n, nr_host_key_tailscale n] \<and>
     list_all (\<lambda>(k, v). valid_utf8 k \<and> valid_utf8 v) (sorted_list_of_fmap (nr_reason_details n)) \<and>
     list_all (\<lambda>st. valid_utf8 (sr_status st) \<and> valid_utf8 (sr_job_id st) \<and> valid_utf8 (sr_summary st)) (nr_steps n)"

definition json_ok :: "wire \<Rightarrow> bool" where
  "json_ok W \<longleftrightarrow>
     (\<forall>v. valid_utf8 v \<longrightarrow> dec_string (w_codec W) (enc_string W v) = Inr v) \<and>
     (\<forall>k v. valid_utf8 k \<and> valid_utf8 v \<longrightarrow>
        dec_command (w_codec W) (enc_command W \<lparr>cmd_type = CmdSetConfig, cmd_key = k, cmd_value = enc_string W v\<rparr>) =
          Inr \<lparr>cmd_type = CmdSetConfig, cmd_key = k, cmd_value = enc_string W v\<rparr>) \<and>
     (\<forall>k. valid_utf8 k \<longrightarrow>
        dec_command (w_codec W) (enc_command W \<lparr>cmd_type = CmdDeleteConfig, cmd_key = k, cmd_value = []\<rparr>) =
          Inr \<lparr>cmd_type = CmdDeleteConfig, cmd_key = k, cmd_value = []\<rparr>) \<and>
     (\<forall>t d. enc_task W t = Inr d \<longrightarrow> valid_utf8 d \<and> (utf8_task t \<longrightarrow> dec_task W d = Inr t)) \<and>
     (\<forall>r d. enc_run W r = Inr d \<longrightarrow> valid_utf8 d \<and> (utf8_run r \<longrightarrow> dec_run W d = Inr r)) \<and>
     (\<forall>n d. enc_run_node W n = Inr d \<longrightarrow> valid_utf8 d \<and> (utf8_run_node n \<longrightarrow> dec_run_node W d = Inr n))"

lemma json_string: "json_ok W \<Longrightarrow> valid_utf8 v \<Longrightarrow> dec_string (w_codec W) (enc_string W v) = Inr v"
  and json_set: "json_ok W \<Longrightarrow> valid_utf8 k \<Longrightarrow> valid_utf8 v \<Longrightarrow>
    dec_command (w_codec W) (enc_command W \<lparr>cmd_type = CmdSetConfig, cmd_key = k, cmd_value = enc_string W v\<rparr>) =
      Inr \<lparr>cmd_type = CmdSetConfig, cmd_key = k, cmd_value = enc_string W v\<rparr>"
  and json_delete: "json_ok W \<Longrightarrow> valid_utf8 k \<Longrightarrow>
    dec_command (w_codec W) (enc_command W \<lparr>cmd_type = CmdDeleteConfig, cmd_key = k, cmd_value = []\<rparr>) =
      Inr \<lparr>cmd_type = CmdDeleteConfig, cmd_key = k, cmd_value = []\<rparr>"
  and json_task_utf8: "json_ok W \<Longrightarrow> enc_task W t = Inr d \<Longrightarrow> valid_utf8 d"
  and json_task: "json_ok W \<Longrightarrow> enc_task W t = Inr d \<Longrightarrow> utf8_task t \<Longrightarrow> dec_task W d = Inr t"
  and json_run_utf8: "json_ok W \<Longrightarrow> enc_run W r = Inr d \<Longrightarrow> valid_utf8 d"
  and json_run: "json_ok W \<Longrightarrow> enc_run W r = Inr d \<Longrightarrow> utf8_run r \<Longrightarrow> dec_run W d = Inr r"
  and json_run_node_utf8: "json_ok W \<Longrightarrow> enc_run_node W n = Inr d \<Longrightarrow> valid_utf8 d"
  and json_run_node: "json_ok W \<Longrightarrow> enc_run_node W n = Inr d \<Longrightarrow> utf8_run_node n \<Longrightarrow> dec_run_node W d = Inr n"
  unfolding json_ok_def by metis+

section \<open>What a write does to the store\<close>

definition stored :: "manager \<Rightarrow> string \<Rightarrow> string option" where
  "stored m k = (case mg_raft m of None \<Rightarrow> None | Some f \<Rightarrow> GetConfigValue f k)"

definition mgr_ok :: "manager \<Rightarrow> bool" where
  "mgr_ok m \<longleftrightarrow> (case mg_raft m of None \<Rightarrow> True | Some f \<Rightarrow> fsm_ok f)"

text \<open>The outcome of a write of \<open>val\<close> (of a deletion, when it is \<open>None\<close>) under \<open>k\<close>: an error and no change, or the change;
  success always means the change.\<close>

definition writes :: "manager \<Rightarrow> string \<Rightarrow> string option \<Rightarrow> manager \<Rightarrow> storeError option \<Rightarrow> bool" where
  "writes m k val m' e \<longleftrightarrow> mgr_ok m' \<and> mg_leader m' = mg_leader m \<and> mg_taskRevWritten m' = mg_taskRevWritten m \<and>
     (mg_raft m' = None \<longleftrightarrow> mg_raft m = None) \<and>
     (stored m' = (stored m)(k := val) \<or> e \<noteq> None \<and> m' = m)"

lemma applyEntry_set:
  assumes "json_ok W" "fsm_ok f" "valid_utf8 k" "valid_utf8 v"
  shows "applyEntry W i now \<lparr>cmd_type = CmdSetConfig, cmd_key = k, cmd_value = enc_string W v\<rparr> f = (fsmSetConfig f k v, None)"
proof -
  have "applyCmd (w_codec W) now f i \<lparr>cmd_type = CmdSetConfig, cmd_key = k, cmd_value = enc_string W v\<rparr> = applySetConfig f k v"
    by (simp add: applyCmd_def cmd_defs decoded_def json_string [OF assms(1,4)])
  then show ?thesis using assms(2)
    by (auto simp: applyEntry_def Apply_def decoded_def json_set [OF assms(1,3,4)] fsmSetConfig_def applySetConfig_def fsm_ok_def)
qed

lemma applyEntry_delete:
  assumes "json_ok W" "fsm_ok f" "valid_utf8 k"
  shows "applyEntry W i now \<lparr>cmd_type = CmdDeleteConfig, cmd_key = k, cmd_value = []\<rparr> f = (fsmDeleteConfig f k, None)"
proof -
  have "applyCmd (w_codec W) now f i \<lparr>cmd_type = CmdDeleteConfig, cmd_key = k, cmd_value = []\<rparr> = applyDeleteConfig f k"
    by (simp add: applyCmd_def cmd_defs)
  then show ?thesis using assms(2)
    by (auto simp: applyEntry_def Apply_def decoded_def json_delete [OF assms(1,3)] fsmDeleteConfig_def applyDeleteConfig_def fsm_ok_def)
qed

lemma managerApply_writes:
  assumes ok: "mgr_ok m"
    and entry: "\<And>i now f. fsm_ok f \<Longrightarrow> applyEntry W i now c f = (upd f, None)"
    and upd: "\<And>f. fsm_ok f \<Longrightarrow> fsm_ok (upd f) \<and> GetConfigValue (upd f) = (GetConfigValue f)(k := val)"
    and a: "managerApply W reply c m = (m', e)"
  shows "writes m k val m' e"
proof (cases "mg_raft m")
  case None
  then show ?thesis using a ok by (auto simp: managerApply_def writes_def)
next
  case (Some f)
  then have f: "fsm_ok f" using ok by (simp add: mgr_ok_def)
  have same: "m\<lparr>mg_raft := Some f\<rparr> = m" using Some by (cases m) simp
  show ?thesis
    using a ok Some entry [OF f] upd [OF f] same
    by (cases reply)
      (auto simp: managerApply_def RaftNode_Apply_def writes_def mgr_ok_def stored_def fun_eq_iff split: option.splits prod.splits)
qed

lemma writes_asNotLeader: "writes m k val m' e \<Longrightarrow> writes m k val m' (asNotLeader e)"
  by (auto simp: writes_def asNotLeader_def)

lemma put_writes:
  assumes "json_ok W" "mgr_ok m" "valid_utf8 k" "valid_utf8 v" "putTaskValue W reply k v m = (m', e)"
  shows "writes m k (Some v) m' e"
proof -
  obtain e0 where a: "managerApply W reply \<lparr>cmd_type = CmdSetConfig, cmd_key = k, cmd_value = enc_string W v\<rparr> m = (m', e0)"
    and e: "e = asNotLeader e0" using assms(5) by (auto simp: putTaskValue_def SetConfig_def split: prod.splits)
  have "fsm_ok (fsmSetConfig f k v) \<and> GetConfigValue (fsmSetConfig f k v) = (GetConfigValue f)(k := Some v)" if "fsm_ok f" for f
    using that cfg.ok_put cfg.get_put by (simp add: fun_eq_iff)
  from managerApply_writes [OF assms(2) applyEntry_set [OF assms(1) _ assms(3,4)] this a] e
  show ?thesis by (simp add: writes_asNotLeader)
qed

lemma delete_writes:
  assumes "json_ok W" "mgr_ok m" "valid_utf8 k" "deleteTaskValue W reply k m = (m', e)"
  shows "writes m k None m' e"
proof -
  obtain e0 where a: "managerApply W reply \<lparr>cmd_type = CmdDeleteConfig, cmd_key = k, cmd_value = []\<rparr> m = (m', e0)"
    and e: "e = asNotLeader e0" using assms(4) by (auto simp: deleteTaskValue_def split: prod.splits)
  have "fsm_ok (fsmDeleteConfig f k) \<and> GetConfigValue (fsmDeleteConfig f k) = (GetConfigValue f)(k := None)" if "fsm_ok f" for f
    using that cfg.ok_del cfg.get_del by (simp add: fun_eq_iff)
  from managerApply_writes [OF assms(2) applyEntry_delete [OF assms(1) _ assms(3)] this a] e
  show ?thesis by (simp add: writes_asNotLeader)
qed

lemma writesD:
  assumes "writes m k val m' e"
  shows "mgr_ok m'" "q \<noteq> k \<Longrightarrow> stored m' q = stored m q" "e = None \<Longrightarrow> stored m' k = val" "stored m' k = val \<or> stored m' k = stored m k"
    "mg_taskRevWritten m' = mg_taskRevWritten m"
  using assms by (auto simp: writes_def)

lemma writes_none: "mgr_ok m \<Longrightarrow> e \<noteq> None \<Longrightarrow> writes m k val m e"
  by (simp add: writes_def)

section \<open>Keys\<close>

lemmas key_defs = taskKey_def taskRevKey_def runKey_def runNodeKey_def taskKeyPrefix_def taskRevKeyPrefix_def taskRunKeyPrefix_def runNodeInfix_def

lemma ascii_list: "list_all (\<lambda>c. of_char c < (128 :: nat)) s \<Longrightarrow> ascii s"
  by (simp add: ascii_def)

lemma ascii_prefixes: "ascii taskKeyPrefix" "ascii taskRevKeyPrefix" "ascii taskRunKeyPrefix" "ascii runNodeInfix"
  by (simp_all add: key_defs ascii_def)

lemma task_id_chars: "list_all (\<lambda>c. of_char c < (128 :: nat) \<and> c \<noteq> CHR ''/'') ''ABCDEFGHIJKLMNOPQRSTUVWXYZabcdefghijklmnopqrstuvwxyz0123456789_-''"
  by simp

lemma ascii_task_id: "taskIDPattern i \<Longrightarrow> ascii i"
  unfolding taskIDPattern_def ascii_def using task_id_chars by (simp add: list_all_iff task_id_char_def del: set_simps)

definition run_char :: "char \<Rightarrow> bool" where
  "run_char c \<longleftrightarrow> c = CHR ''-'' \<or> lower_hex c"

lemma run_char_ascii: "run_char c \<Longrightarrow> of_char c < (128 :: nat) \<and> c \<noteq> CHR ''/''"
  unfolding run_char_def lower_hex_def by (elim disjE) auto

lemma digit_run_char: "is_digit c \<Longrightarrow> run_char c"
  unfolding run_char_def lower_hex_def is_digit_def by auto

lemma hex_run_char: "lower_hex c \<Longrightarrow> run_char c"
  by (simp add: run_char_def)

lemma run_id_split:
  assumes "runIDPattern i"
  shows "i = take 8 i @ [CHR ''-''] @ take 6 (drop 9 i) @ [CHR ''-''] @ drop 16 i"
proof -
  have l: "length i = 22" and c: "i ! 8 = CHR ''-''" "i ! 15 = CHR ''-''" using assms by (auto simp: runIDPattern_def)
  have "drop 8 i = CHR ''-'' # drop 9 i" using l c Cons_nth_drop_Suc [of 8 i] by simp
  moreover have "drop 15 i = CHR ''-'' # drop 16 i" using l c Cons_nth_drop_Suc [of 15 i] by simp
  moreover have "drop 9 i = take 6 (drop 9 i) @ drop 15 i" using append_take_drop_id [of 6 "drop 9 i"] by (simp del: append_take_drop_id)
  ultimately show ?thesis using append_take_drop_id [of 8 i] by simp
qed

lemma run_id_set:
  assumes "runIDPattern i" "c \<in> set i"
  shows "run_char c"
proof -
  have "c \<in> set (take 8 i) \<or> c = CHR ''-'' \<or> c \<in> set (take 6 (drop 9 i)) \<or> c \<in> set (drop 16 i)"
    using assms(2) by (subst (asm) run_id_split [OF assms(1)]) auto
  moreover have "list_all is_digit (take 8 i)" "list_all is_digit (take 6 (drop 9 i))" "list_all lower_hex (drop 16 i)"
    using assms(1) by (simp_all add: runIDPattern_def)
  ultimately show ?thesis unfolding list_all_iff using digit_run_char hex_run_char run_char_def by blast
qed

lemma run_id_no_slash: "runIDPattern i \<Longrightarrow> CHR ''/'' \<notin> set i"
  using run_id_set run_char_ascii by blast

lemma ascii_run_id: "runIDPattern i \<Longrightarrow> ascii i"
  unfolding ascii_def list_all_iff using run_id_set run_char_ascii by blast

lemma has_prefix_keys:
  "has_prefix (taskKey i) taskKeyPrefix" "\<not> has_prefix (taskKey i) taskRevKeyPrefix" "\<not> has_prefix (taskKey i) taskRunKeyPrefix"
  "has_prefix (taskRevKey i) taskRevKeyPrefix" "\<not> has_prefix (taskRevKey i) taskKeyPrefix" "\<not> has_prefix (taskRevKey i) taskRunKeyPrefix"
  "has_prefix (runKey i) taskRunKeyPrefix" "\<not> has_prefix (runKey i) taskKeyPrefix" "\<not> has_prefix (runKey i) taskRevKeyPrefix"
  "has_prefix (runNodeKey i n) taskRunKeyPrefix" "\<not> has_prefix (runNodeKey i n) taskKeyPrefix" "\<not> has_prefix (runNodeKey i n) taskRevKeyPrefix"
  by (simp_all add: has_prefix_iff key_defs)

definition storeKey :: "string \<Rightarrow> bool" where
  "storeKey k \<longleftrightarrow> has_prefix k taskKeyPrefix \<or> has_prefix k taskRevKeyPrefix \<or> has_prefix k taskRunKeyPrefix"

lemma key_utf8:
  "taskIDPattern i \<Longrightarrow> valid_utf8 (taskKey i)" "runIDPattern i \<Longrightarrow> valid_utf8 (runKey i)"
  "valid_utf8 sha \<Longrightarrow> valid_utf8 (taskRevKey sha)" "runIDPattern i \<Longrightarrow> valid_utf8 n \<Longrightarrow> valid_utf8 (runNodeKey i n)"
  by (simp_all add: taskKey_def runKey_def taskRevKey_def runNodeKey_def valid_utf8_append ascii_prefixes ascii_run_id ascii_task_id ascii_valid)

lemma hexDigit_slash: "d < 16 \<Longrightarrow> hexDigit d \<noteq> CHR ''/''"
proof -
  have "list_all (\<lambda>d. hexDigit d \<noteq> CHR ''/'') [0..<16]" by code_simp
  then show "d < 16 \<Longrightarrow> ?thesis" by (simp add: list_all_iff del: upt_conv_Cons)
qed

lemma hexEncode_no_slash: "CHR ''/'' \<notin> set (hexEncode s)"
proof (induction s)
  case (Cons c s)
  then show ?case using hexDigit_slash [OF of_char_div_16 [of c]] hexDigit_slash [of "of_char c mod 16"] by (auto simp: hexEncode_def dest: sym)
qed (simp add: hexEncode_def)

lemma hexDigit_ascii: "d < 16 \<Longrightarrow> of_char (hexDigit d) < (128 :: nat)"
proof -
  have "list_all (\<lambda>d. of_char (hexDigit d) < (128 :: nat)) [0..<16]" by code_simp
  then show "d < 16 \<Longrightarrow> ?thesis" by (simp add: list_all_iff del: upt_conv_Cons)
qed

lemma hexEncode_ascii: "ascii (hexEncode s)"
  by (induction s) (simp_all add: hexEncode_def ascii_def hexDigit_ascii of_char_div_16 list_all_append)

lemma revisionID_utf8: "valid_utf8 (taskRevKey (revisionID W yaml))"
  by (simp add: key_utf8 revisionID_def hexEncode_ascii ascii_valid)

section \<open>What each operation does to the store\<close>

lemma PutTask_cases:
  assumes "PutTask W now reply t m = (m', e)" "json_ok W" "mgr_ok m"
  obtains (refused) "m' = m" "e \<noteq> None"
  | (written) f data where "mg_raft m = Some f" "taskLeader m" "taskIDPattern (td_id t)" "length (td_yaml t) \<le> MaxDocumentBytes"
      "trim_space (td_name t) \<noteq> []" "src_kind (td_source t) \<in> {[], TaskSourceUser, TaskSourceGit}" "enc_task W (stampTask now t) = Inr data"
      "\<forall>other\<in>set (storedTasks W f). td_name other = td_name t \<longrightarrow> td_id other = td_id t"
      "writes m (taskKey (td_id t)) (Some data) m' e"
proof -
  have st: "td_id (stampTask now t) = td_id t" "td_name (stampTask now t) = td_name t" by (simp_all add: stampTask_def Let_def)
  show thesis
  proof (cases "e \<noteq> None \<and> m' = m")
    case False
    then obtain f data where c: "mg_raft m = Some f" "taskLeader m" "taskIDPattern (td_id t)" "length (td_yaml t) \<le> MaxDocumentBytes"
      "trim_space (td_name t) \<noteq> []" "src_kind (td_source t) \<in> {[], TaskSourceUser, TaskSourceGit}" "enc_task W (stampTask now t) = Inr data"
      "\<not> list_ex (\<lambda>other. td_id other \<noteq> td_id t \<and> td_name other = td_name t) (storedTasks W f)"
      "putTaskValue W reply (taskKey (td_id t)) data m = (m', e)"
      using assms(1) by (auto simp: PutTask_def Let_def st split: option.splits sum.splits if_splits)
    have "writes m (taskKey (td_id t)) (Some data) m' e"
      using put_writes [OF assms(2,3) key_utf8(1) [OF c(3)] json_task_utf8 [OF assms(2) c(7)] c(9)] .
    then show thesis using written [OF c(1-7)] c(8) by (auto simp: list_ex_iff)
  qed (use refused in auto)
qed

lemma DeleteTask_cases:
  assumes "DeleteTask W reply i m = (m', e)" "json_ok W" "mgr_ok m"
  obtains (refused) "m' = m" "e \<noteq> None" | (written) "taskLeader m" "taskIDPattern i" "stored m (taskKey i) \<noteq> None" "writes m (taskKey i) None m' e"
proof (cases "e \<noteq> None \<and> m' = m")
  case False
  then have c: "taskLeader m" "taskIDPattern i" "stored m (taskKey i) \<noteq> None" "deleteTaskValue W reply (taskKey i) m = (m', e)"
    using assms(1) by (auto simp: DeleteTask_def stored_def split: option.splits if_splits)
  then show thesis using written [OF c(1-3)] delete_writes [OF assms(2,3) key_utf8(1) c(4)] by simp
qed (use refused in auto)

lemma PutTaskRevision_cases:
  assumes "PutTaskRevision W now reply yaml m = (m', r)" "json_ok W" "mgr_ok m" "valid_utf8 yaml"
  obtains (refused) e where "m' = m" "r = Inl e"
  | (reused) w where "taskLeader m" "stored m (taskRevKey (revisionID W yaml)) \<noteq> None" "r = Inr (revisionID W yaml)"
      "m' = m\<lparr>mg_taskRevWritten := Some (fmupd (revisionID W yaml) now w)\<rparr>"
  | (written) w e where "taskLeader m" "stored m (taskRevKey (revisionID W yaml)) = None" "r = (case e of None \<Rightarrow> Inr (revisionID W yaml) | Some x \<Rightarrow> Inl x)"
      "writes (m\<lparr>mg_taskRevWritten := Some (fmupd (revisionID W yaml) now w)\<rparr>) (taskRevKey (revisionID W yaml)) (Some yaml) m' e"
proof (cases "\<exists>e. m' = m \<and> r = Inl e")
  case False
  define w where "w = (case mg_taskRevWritten m of None \<Rightarrow> fmempty | Some w \<Rightarrow> w)"
  let ?m = "m\<lparr>mg_taskRevWritten := Some (fmupd (revisionID W yaml) now w)\<rparr>"
  have ok: "mgr_ok ?m" using assms(3) by (simp add: mgr_ok_def)
  obtain f where f: "mg_raft m = Some f" "taskLeader m" using assms(1) False by (auto simp: PutTaskRevision_def split: option.splits if_splits)
  have st: "stored m k = GetConfigValue f k" for k using f by (simp add: stored_def)
  obtain m2 e where p: "putTaskValue W reply (taskRevKey (revisionID W yaml)) yaml ?m = (m2, e)" by (metis surj_pair)
  show thesis
  proof (cases "stored m (taskRevKey (revisionID W yaml)) = None")
    case True
    have "m' = m2 \<and> r = (case e of None \<Rightarrow> Inr (revisionID W yaml) | Some x \<Rightarrow> Inl x)"
      using assms(1) False f True p st by (auto simp: PutTaskRevision_def Let_def w_def split: if_splits option.splits)
    then show thesis using written [OF f(2) True] put_writes [OF assms(2) ok revisionID_utf8 assms(4) p] by blast
  next
    case nonempty: False
    then show thesis using reused [OF f(2) nonempty] assms(1) False f st
      by (auto simp: PutTaskRevision_def Let_def w_def split: if_splits)
  qed
qed (use refused in auto)

lemma PutRun_cases:
  assumes "PutRun W reply r m = (m', e)" "json_ok W" "mgr_ok m"
  obtains (refused) "m' = m" "e \<noteq> None"
  | (written) data where "taskLeader m" "runIDPattern (rr_id r)" "enc_run W r = Inr data" "writes m (runKey (rr_id r)) (Some data) m' e"
proof (cases "e \<noteq> None \<and> m' = m")
  case False
  then obtain data where c: "taskLeader m" "runIDPattern (rr_id r)" "enc_run W r = Inr data" "putTaskValue W reply (runKey (rr_id r)) data m = (m', e)"
    using assms(1) by (auto simp: PutRun_def split: sum.splits if_splits)
  then show thesis using written [OF c(1-3)] put_writes [OF assms(2,3) key_utf8(2) json_run_utf8 [OF assms(2) c(3)] c(4)] by simp
qed (use refused in auto)

lemma PutRunNode_cases:
  assumes "PutRunNode W reply i n rec m = (m', e)" "json_ok W" "mgr_ok m" "valid_utf8 n"
  obtains (refused) "m' = m" "e \<noteq> None"
  | (written) data where "taskLeader m" "runIDPattern i" "validNodeSegment n" "stored m (runKey i) \<noteq> None" "enc_run_node W rec = Inr data"
      "writes m (runNodeKey i n) (Some data) m' e"
proof (cases "e \<noteq> None \<and> m' = m")
  case False
  then obtain data where c: "taskLeader m" "runIDPattern i" "validNodeSegment n" "stored m (runKey i) \<noteq> None" "enc_run_node W rec = Inr data"
      "putTaskValue W reply (runNodeKey i n) data m = (m', e)"
    using assms(1) by (auto simp: PutRunNode_def stored_def split: option.splits sum.splits if_splits)
  then show thesis using written [OF c(1-5)] put_writes [OF assms(2,3) key_utf8(4) json_run_node_utf8 [OF assms(2) c(5)] c(6)] assms(4) by simp
qed (use refused in auto)

lemma deleteKeys_effect:
  assumes "json_ok W" "mgr_ok m" "\<forall>k\<in>set ks. valid_utf8 k" "deleteKeys W reply ks m = (m', e)"
  shows "mgr_ok m' \<and> (\<forall>q. q \<notin> set ks \<longrightarrow> stored m' q = stored m q) \<and> (\<forall>q. stored m' q = stored m q \<or> stored m' q = None) \<and>
    (e = None \<longrightarrow> (\<forall>q\<in>set ks. stored m' q = None)) \<and> (mg_raft m' = None \<longleftrightarrow> mg_raft m = None) \<and> mg_taskRevWritten m' = mg_taskRevWritten m"
  using assms
proof (induction ks arbitrary: m)
  case (Cons k ks)
  obtain m1 e1 where d: "deleteTaskValue W (reply k) k m = (m1, e1)" by (metis surj_pair)
  then have w: "writes m k None m1 e1" using delete_writes Cons.prems by simp
  have ok: "mgr_ok m1" using w by (simp add: writes_def)
  show ?case
  proof (cases e1)
    case None
    then have "deleteKeys W reply ks m1 = (m', e)" using Cons.prems d by simp
    then have ih: "mgr_ok m'" "\<And>q. q \<notin> set ks \<Longrightarrow> stored m' q = stored m1 q" "\<And>q. stored m' q = stored m1 q \<or> stored m' q = None"
      "\<And>q. e = None \<Longrightarrow> q \<in> set ks \<Longrightarrow> stored m' q = None" "mg_raft m' = None \<longleftrightarrow> mg_raft m1 = None" "mg_taskRevWritten m' = mg_taskRevWritten m1"
      using Cons.IH [OF Cons.prems(1) ok] Cons.prems(3) by auto
    have m1: "stored m1 = (stored m)(k := None)" "mg_raft m1 = None \<longleftrightarrow> mg_raft m = None" "mg_taskRevWritten m1 = mg_taskRevWritten m"
      using w None by (auto simp: writes_def)
    have "stored m' q = stored m q \<or> stored m' q = None" for q using ih(3) [of q] m1(1) by (cases "q = k") auto
    moreover have "stored m' k = None" using ih(3) [of k] m1(1) by simp
    ultimately show ?thesis using ih(1,2,4-6) m1 by auto
  next
    case (Some x)
    then show ?thesis using Cons.prems d w by (auto simp: writes_def split: if_splits)
  qed
qed auto

end
