(* ===== verification/Store_Safety.thy ===== *)
theory Store_Safety
  imports Tasks_Store
begin

text \<open>
  The task store's guarantees: the invariant of the keys and values it keeps (\<open>store_ok\<close>), preserved by every operation with any
  answer from Raft (\<open>store_ok_step\<close>), and over it the properties of tasks, revisions, runs and pruning.  The last section
  shows on a sample store that their hypotheses can hold.
\<close>

section \<open>The invariant\<close>


lemma set_map_filter: "x \<in> set (List.map_filter f xs) \<longleftrightarrow> (\<exists>y\<in>set xs. f y = Some x)"
  by (induction xs) (auto split: option.splits)

lemma decodeAll_iff: "x \<in> set (decodeAll dec m) \<longleftrightarrow> (\<exists>k v. fmlookup m k = Some v \<and> dec v = Inr x)"
proof -
  have "x \<in> set (decodeAll dec m) \<longleftrightarrow> (\<exists>k v. (k, v) \<in> set (sorted_list_of_fmap m) \<and> dec v = Inr x)"
    by (force simp: decodeAll_def set_map_filter split: sum.splits)
  then show ?thesis by (simp add: sorted_fmap_iff)
qed

lemma storedTasks_iff:
  assumes "mg_raft m = Some f" "mgr_ok m"
  shows "t \<in> set (storedTasks W f) \<longleftrightarrow> (\<exists>k v. stored m k = Some v \<and> has_prefix k taskKeyPrefix \<and> dec_task W v = Inr t)"
  using assms by (auto simp: storedTasks_def decodeAll_iff cfg.get_scan mgr_ok_def stored_def split: if_splits)

definition taskAt :: "wire \<Rightarrow> manager \<Rightarrow> string \<Rightarrow> stored_task \<Rightarrow> bool" where
  "taskAt W m k t \<longleftrightarrow> has_prefix k taskKeyPrefix \<and> (\<exists>v. stored m k = Some v \<and> dec_task W v = Inr t)"

text \<open>The invariant of the store: every key is UTF-8; a task is stored under its own ID and no two have one name; a document is
  stored under the sum of its text; a run's head is stored under its own ID.\<close>

definition store_ok :: "wire \<Rightarrow> manager \<Rightarrow> bool" where
  "store_ok W m \<longleftrightarrow> mgr_ok m \<and> (\<forall>k. storeKey k \<longrightarrow> stored m k \<noteq> None \<longrightarrow> valid_utf8 k) \<and>
     (\<forall>k t. taskAt W m k t \<longrightarrow> k = taskKey (td_id t)) \<and>
     (\<forall>k t k' t'. taskAt W m k t \<longrightarrow> taskAt W m k' t' \<longrightarrow> td_name t = td_name t' \<longrightarrow> k = k') \<and>
     (\<forall>sha v. stored m (taskRevKey sha) = Some v \<longrightarrow> sha = revisionID W v) \<and>
     (\<forall>i v r. CHR ''/'' \<notin> set i \<longrightarrow> stored m (runKey i) = Some v \<longrightarrow> dec_run W v = Inr r \<longrightarrow> rr_id r = i)"

lemma store_okD:
  assumes "store_ok W m"
  shows "mgr_ok m" "storeKey k \<Longrightarrow> stored m k \<noteq> None \<Longrightarrow> valid_utf8 k" "taskAt W m k t \<Longrightarrow> k = taskKey (td_id t)"
    "taskAt W m k t \<Longrightarrow> taskAt W m k' t' \<Longrightarrow> td_name t = td_name t' \<Longrightarrow> k = k'"
    "stored m (taskRevKey sha) = Some v \<Longrightarrow> sha = revisionID W v"
    "CHR ''/'' \<notin> set i \<Longrightarrow> stored m (runKey i) = Some v \<Longrightarrow> dec_run W v = Inr r \<Longrightarrow> rr_id r = i"
  using assms unfolding store_ok_def by blast+

text \<open>An operation of the store, with any answer from Raft; and a step of the manager: an operation, a change of
  leadership, or whatever else writes to the config map, outside the store's keys.\<close>

inductive store_op :: "wire \<Rightarrow> manager \<Rightarrow> manager \<Rightarrow> bool" for W where
  put_task: "PutTask W now reply t m = (m', e) \<Longrightarrow> utf8_task t \<Longrightarrow> store_op W m m'"
| delete_task: "DeleteTask W reply i m = (m', e) \<Longrightarrow> store_op W m m'"
| put_revision: "PutTaskRevision W now reply yaml m = (m', r) \<Longrightarrow> valid_utf8 yaml \<Longrightarrow> store_op W m m'"
| put_run: "PutRun W reply rc m = (m', e) \<Longrightarrow> utf8_run rc \<Longrightarrow> store_op W m m'"
| put_run_node: "PutRunNode W reply i n nc m = (m', e) \<Longrightarrow> valid_utf8 n \<Longrightarrow> store_op W m m'"
| prune: "PruneRuns W now replies keep m = (m', e) \<Longrightarrow> store_op W m m'"

inductive store_step :: "wire \<Rightarrow> manager \<Rightarrow> manager \<Rightarrow> bool" for W where
  op: "store_op W m m' \<Longrightarrow> store_step W m m'"
| leadership: "store_step W m (m\<lparr>mg_leader := b\<rparr>)"
| elsewhere: "mgr_ok m' \<Longrightarrow> (\<And>k. storeKey k \<Longrightarrow> stored m' k = stored m k) \<Longrightarrow> store_step W m m'"

text \<open>A step that adds nothing keeps the invariant.\<close>

definition shrinks :: "manager \<Rightarrow> manager \<Rightarrow> bool" where
  "shrinks m m' \<longleftrightarrow> mgr_ok m' \<and> (\<forall>k. storeKey k \<longrightarrow> stored m' k = stored m k \<or> stored m' k = None)"

lemma storeKeyI: "storeKey (taskKey i)" "storeKey (taskRevKey i)" "storeKey (runKey i)" "storeKey (runNodeKey i n)"
  "has_prefix k taskKeyPrefix \<Longrightarrow> storeKey k"
  by (simp_all add: storeKey_def has_prefix_keys)

lemma taskAt_shrinks: "shrinks m m' \<Longrightarrow> taskAt W m' k t \<Longrightarrow> taskAt W m k t"
  by (metis option.distinct(1) shrinks_def storeKeyI(5) taskAt_def)

lemma shrinks_stored: "shrinks m m' \<Longrightarrow> storeKey k \<Longrightarrow> stored m' k = Some v \<Longrightarrow> stored m k = Some v"
  by (metis option.distinct(1) shrinks_def)

lemma store_ok_shrinks:
  assumes ok: "store_ok W m" and sh: "shrinks m m'"
  shows "store_ok W m'"
  unfolding store_ok_def
proof (intro conjI allI impI)
  show "mgr_ok m'" using sh by (simp add: shrinks_def)
  show "valid_utf8 k" if "storeKey k" "stored m' k \<noteq> None" for k
    using ok sh that unfolding store_ok_def shrinks_def by metis
  show "k = taskKey (td_id t)" if "taskAt W m' k t" for k t
    using ok taskAt_shrinks [OF sh that] unfolding store_ok_def by blast
  show "k = k'" if "taskAt W m' k t" "taskAt W m' k' t'" "td_name t = td_name t'" for k t k' t'
    using ok taskAt_shrinks [OF sh that(1)] taskAt_shrinks [OF sh that(2)] that(3) unfolding store_ok_def by blast
  show "sha = revisionID W v" if "stored m' (taskRevKey sha) = Some v" for sha v
    using ok shrinks_stored [OF sh storeKeyI(2) that] unfolding store_ok_def by blast
  show "rr_id r = i" if "CHR ''/'' \<notin> set i" "stored m' (runKey i) = Some v" "dec_run W v = Inr r" for i v r
    using ok shrinks_stored [OF sh storeKeyI(3) that(2)] that unfolding store_ok_def by blast
qed

lemma store_ok_same: "store_ok W m \<Longrightarrow> mgr_ok m' \<Longrightarrow> (\<And>k. storeKey k \<Longrightarrow> stored m' k = stored m k) \<Longrightarrow> store_ok W m'"
  by (rule store_ok_shrinks) (auto simp: shrinks_def)

lemma key_inject [simp]:
  "taskKey i = taskKey j \<longleftrightarrow> i = j" "taskRevKey i = taskRevKey j \<longleftrightarrow> i = j" "runKey i = runKey j \<longleftrightarrow> i = j"
  "taskKey i \<noteq> taskRevKey j" "taskRevKey j \<noteq> taskKey i" "taskKey i \<noteq> runKey j" "runKey j \<noteq> taskKey i" "taskRevKey i \<noteq> runKey j" "runKey i \<noteq> taskRevKey j"
  "taskKey i \<noteq> runNodeKey j n" "runNodeKey j n \<noteq> taskKey i" "taskRevKey i \<noteq> runNodeKey j n" "runNodeKey j n \<noteq> taskRevKey i"
  by (simp_all add: key_defs)

text \<open>A write of a value that keeps the invariant's five clauses at its own key keeps the invariant.\<close>

lemma store_ok_write:
  assumes ok: "store_ok W m" and w: "writes m k (Some v) m' e" and u: "valid_utf8 k"
    and t: "\<And>t. has_prefix k taskKeyPrefix \<Longrightarrow> dec_task W v = Inr t \<Longrightarrow>
        k = taskKey (td_id t) \<and> (\<forall>k' t'. taskAt W m k' t' \<longrightarrow> td_name t' = td_name t \<longrightarrow> k' = k)"
    and s: "\<And>sha. k = taskRevKey sha \<Longrightarrow> sha = revisionID W v"
    and h: "\<And>i r. k = runKey i \<Longrightarrow> CHR ''/'' \<notin> set i \<Longrightarrow> dec_run W v = Inr r \<Longrightarrow> rr_id r = i"
  shows "store_ok W m'"
proof (cases "m' = m")
  case False
  then have st: "stored m' = (stored m)(k := Some v)" and mo: "mgr_ok m'" using w by (auto simp: writes_def)
  have ta: "taskAt W m' q t \<longleftrightarrow> (if q = k then has_prefix k taskKeyPrefix \<and> dec_task W v = Inr t else taskAt W m q t)" for q t
    by (simp add: taskAt_def st)
  show ?thesis
    unfolding store_ok_def
  proof (intro conjI allI impI)
    show "mgr_ok m'" by (rule mo)
    show "valid_utf8 q" if "storeKey q" "stored m' q \<noteq> None" for q
      using store_okD(2) [OF ok] u that st by (cases "q = k") auto
    show "q = taskKey (td_id x)" if "taskAt W m' q x" for q x
      using store_okD(3) [OF ok] that t [of x] unfolding ta by (cases "q = k") auto
    show "q = q'" if "taskAt W m' q x" "taskAt W m' q' x'" "td_name x = td_name x'" for q x q' x'
    proof (cases "q = k")
      case True
      show ?thesis
      proof (cases "q' = k")
        case False
        then have q': "taskAt W m q' x'" using that(2) unfolding ta by simp
        have "has_prefix k taskKeyPrefix" "dec_task W v = Inr x" using that(1) True unfolding ta by simp_all
        from t [OF this] have "q' = k" using q' that(3) by metis
        with True show ?thesis by simp
      qed (simp add: True)
    next
      case False
      then have q: "taskAt W m q x" using that(1) unfolding ta by simp
      show ?thesis
      proof (cases "q' = k")
        case True
        then have "has_prefix k taskKeyPrefix" "dec_task W v = Inr x'" using that(2) unfolding ta by simp_all
        from t [OF this] have "q = k" using q that(3) by blast
        with True show ?thesis by simp
      next
        case False
        then have "taskAt W m q' x'" using that(2) unfolding ta by simp
        then show ?thesis using store_okD(4) [OF ok q] that(3) by blast
      qed
    qed
    show "sha = revisionID W y" if "stored m' (taskRevKey sha) = Some y" for sha y
      using store_okD(5) [OF ok] that s unfolding st by (cases "taskRevKey sha = k") (auto simp: fun_upd_apply)
    show "rr_id r = i" if "CHR ''/'' \<notin> set i" "stored m' (runKey i) = Some y" "dec_run W y = Inr r" for i y r
      using store_okD(6) [OF ok] that h unfolding st by (cases "runKey i = k") (auto simp: fun_upd_apply)
  qed
qed (use ok in simp)

definition dropKeys :: "wire \<Rightarrow> time \<Rightarrow> int \<Rightarrow> manager \<Rightarrow> fsm \<Rightarrow> string set" where
  "dropKeys W now keep m f =
     (let entries = ConfigWithPrefix f taskRunKeyPrefix; kept = keptRuns keep (runHeads W entries)
      in set (dropRunKeys (map rr_id kept) entries) \<union>
         set (dropRevKeys now (mg_taskRevWritten m) (map rr_rev kept) (ConfigWithPrefix f taskRevKeyPrefix)))"

lemma scan_fst: "fsm_ok f \<Longrightarrow> k \<in> fst ` set (sorted_list_of_fmap (ConfigWithPrefix f p)) \<longleftrightarrow> has_prefix k p \<and> GetConfigValue f k \<noteq> None"
proof -
  have "k \<in> fst ` set xs \<longleftrightarrow> (\<exists>v. (k, v) \<in> set xs)" for xs :: "(string \<times> string) list" by force
  then have "k \<in> fst ` set (sorted_list_of_fmap (ConfigWithPrefix f p)) \<longleftrightarrow> fmlookup (ConfigWithPrefix f p) k \<noteq> None"
    by (simp add: sorted_fmap_iff)
  then show "fsm_ok f \<Longrightarrow> ?thesis" by (simp add: cfg.get_scan)
qed

lemma dropKeys_iff:
  assumes "mg_raft m = Some f" "mgr_ok m"
  shows "k \<in> dropKeys W now keep m f \<longleftrightarrow> stored m k \<noteq> None \<and>
    (let kept = keptRuns keep (runHeads W (ConfigWithPrefix f taskRunKeyPrefix)) in
     has_prefix k taskRunKeyPrefix \<and> runIDOfKey k \<notin> rr_id ` set kept \<or>
     has_prefix k taskRevKeyPrefix \<and> trim_prefix k taskRevKeyPrefix \<notin> rr_rev ` set kept \<and>
       \<not> inGrace now (mg_taskRevWritten m) (trim_prefix k taskRevKeyPrefix))"
proof -
  have f: "fsm_ok f" using assms by (simp add: mgr_ok_def)
  show ?thesis
    using scan_fst [OF f] assms(1)
    by (simp add: dropKeys_def dropRunKeys_def dropRevKeys_def Let_def stored_def image_iff) blast
qed

lemma PruneRuns_cases:
  assumes p: "PruneRuns W now reply keep m = (m', e)" and W: "json_ok W" and ok: "store_ok W m"
  obtains (refused) "m' = m" "e \<noteq> None"
  | (pruned) f where "mg_raft m = Some f" "taskLeader m" "mgr_ok m'" "mg_raft m' \<noteq> None"
      "\<And>k. k \<notin> dropKeys W now keep m f \<Longrightarrow> stored m' k = stored m k" "\<And>k. stored m' k = stored m k \<or> stored m' k = None"
      "\<And>k. e = None \<Longrightarrow> k \<in> dropKeys W now keep m f \<Longrightarrow> stored m' k = None"
      "mg_taskRevWritten m' = map_option (fmfilter (inGrace now (mg_taskRevWritten m))) (mg_taskRevWritten m)"
proof (cases "taskLeader m")
  case False
  then show thesis using p refused by (auto simp: PruneRuns_def split: option.splits)
next
  case True
  then obtain f where f: "mg_raft m = Some f" by (auto simp: taskLeader_def)
  let ?m = "m\<lparr>mg_taskRevWritten := map_option (fmfilter (inGrace now (mg_taskRevWritten m))) (mg_taskRevWritten m)\<rparr>"
  have st: "stored ?m = stored m" by (simp add: stored_def fun_eq_iff)
  have mo: "mgr_ok ?m" using store_okD(1) [OF ok] by (simp add: mgr_ok_def)
  obtain ks where ks: "set ks = dropKeys W now keep m f" and d: "deleteKeys W reply ks ?m = (m', e)"
    using p f True by (simp add: PruneRuns_def dropKeys_def Let_def) (metis set_append set_sort)
  have "valid_utf8 k" if "k \<in> set ks" for k
    using that store_okD(1,2) [OF ok] by (auto simp: ks dropKeys_iff [OF f store_okD(1) [OF ok]] storeKey_def Let_def)
  then have "\<forall>k\<in>set ks. valid_utf8 k" by blast
  from deleteKeys_effect [OF W mo this d] f True show thesis by (intro pruned) (auto simp: st ks)
qed

lemma shrinks_refl: "mgr_ok m \<Longrightarrow> shrinks m m"
  by (simp add: shrinks_def)

lemma shrinks_writes_None: "writes m k None m' e \<Longrightarrow> mgr_ok m \<Longrightarrow> shrinks m m'"
  by (auto simp: writes_def shrinks_def split: if_splits)

lemma utf8_stamp: "utf8_task t \<Longrightarrow> utf8_task (stampTask now t)"
  by (simp add: utf8_task_def stampTask_def Let_def TaskSourceUser_def)

lemma stamp_id_name: "td_id (stampTask now t) = td_id t" "td_name (stampTask now t) = td_name t"
  by (simp_all add: stampTask_def Let_def)

lemma store_ok_PutTask:
  assumes "PutTask W now reply t m = (m', e)" "utf8_task t" "json_ok W" "store_ok W m"
  shows "store_ok W m'"
  using assms(1,3) store_okD(1) [OF assms(4)]
proof (cases rule: PutTask_cases)
  case (written f data)
  show ?thesis
  proof (rule store_ok_write [OF assms(4) written(9) key_utf8(1) [OF written(3)]])
    fix t'
    assume "dec_task W data = Inr t'"
    then have t': "t' = stampTask now t" using json_task [OF assms(3) written(7) utf8_stamp [OF assms(2)]] by simp
    have "k' = taskKey (td_id t)" if "taskAt W m k' x" "td_name x = td_name t" for k' x
    proof -
      have "x \<in> set (storedTasks W f)" using that(1) storedTasks_iff [OF written(1) store_okD(1) [OF assms(4)]] by (auto simp: taskAt_def)
      then show ?thesis using written(8) that store_okD(3) [OF assms(4) that(1)] by auto
    qed
    then show "taskKey (td_id t) = taskKey (td_id t') \<and> (\<forall>k' x. taskAt W m k' x \<longrightarrow> td_name x = td_name t' \<longrightarrow> k' = taskKey (td_id t))"
      by (auto simp: t' stamp_id_name)
  qed simp_all
qed (use assms(4) in simp)

lemma runNodeKey_slash: "runNodeKey i n = runKey j \<Longrightarrow> CHR ''/'' \<in> set j"
  by (auto simp: key_defs)

lemma store_ok_op:
  assumes "store_op W m m'" "json_ok W" "store_ok W m"
  shows "store_ok W m'"
  using assms(1)
proof cases
  case (put_task now reply t e)
  then show ?thesis using store_ok_PutTask assms by blast
next
  case (delete_task reply i e)
  then show ?thesis using assms(2) store_okD(1) [OF assms(3)]
    by (cases rule: DeleteTask_cases) (use assms(3) store_ok_shrinks shrinks_writes_None store_okD(1) in blast)+
next
  case (put_revision now reply yaml r)
  from put_revision(1) assms(2) store_okD(1) [OF assms(3)] put_revision(2) show ?thesis
  proof (cases rule: PutTaskRevision_cases)
    case (reused w)
    then show ?thesis using assms(3) by (intro store_ok_same [OF assms(3)]) (auto simp: mgr_ok_def stored_def store_ok_def)
  next
    case (written w e)
    let ?m = "m\<lparr>mg_taskRevWritten := Some (fmupd (revisionID W yaml) now w)\<rparr>"
    have ok: "store_ok W ?m"
      using store_okD(1) [OF assms(3)] by (intro store_ok_same [OF assms(3)]) (simp_all add: mgr_ok_def stored_def)
    show ?thesis by (rule store_ok_write [OF ok written(4) revisionID_utf8]) (simp_all add: has_prefix_keys)
  qed (use assms(3) in simp)
next
  case (put_run reply rc e)
  from put_run(1) assms(2) store_okD(1) [OF assms(3)] show ?thesis
  proof (cases rule: PutRun_cases)
    case (written data)
    show ?thesis
      by (rule store_ok_write [OF assms(3) written(4) key_utf8(2) [OF written(2)]])
        (simp_all add: has_prefix_keys json_run [OF assms(2) written(3) put_run(2)])
  qed (use assms(3) in simp)
next
  case (put_run_node reply i n nc e)
  from put_run_node(1) assms(2) store_okD(1) [OF assms(3)] put_run_node(2) show ?thesis
  proof (cases rule: PutRunNode_cases)
    case (written data)
    show ?thesis
      by (rule store_ok_write [OF assms(3) written(6) key_utf8(4) [OF written(2) put_run_node(2)]])
        (use runNodeKey_slash in \<open>auto simp: has_prefix_keys\<close>)
  qed (use assms(3) in simp)
next
  case (prune now replies keep e)
  from prune assms(2,3) show ?thesis
  proof (cases rule: PruneRuns_cases)
    case (pruned f)
    then show ?thesis by (intro store_ok_shrinks [OF assms(3)]) (simp add: shrinks_def)
  qed (use assms(3) in simp)
qed

lemma store_ok_step:
  assumes "store_step W m m'" "json_ok W" "store_ok W m"
  shows "store_ok W m'"
  using assms(1)
proof cases
  case op
  then show ?thesis using store_ok_op assms by blast
next
  case (leadership b)
  then show ?thesis using store_okD(1) [OF assms(3)] by (intro store_ok_same [OF assms(3)]) (simp_all add: mgr_ok_def stored_def)
next
  case elsewhere
  then show ?thesis by (intro store_ok_same [OF assms(3)]) simp_all
qed

lemma store_ok_steps: "(store_step W)\<^sup>*\<^sup>* m m' \<Longrightarrow> json_ok W \<Longrightarrow> store_ok W m \<Longrightarrow> store_ok W m'"
  by (induction rule: rtranclp_induct) (auto intro: store_ok_step)

lemma store_ok_new: "mg_raft m = Some NewFSM \<Longrightarrow> store_ok W m"
  by (simp add: store_ok_def mgr_ok_def fsm_ok_def stored_def taskAt_def GetConfigValue_def lookup_opt_def NewFSM_def)

section \<open>The store touches nothing else\<close>

text \<open>No operation of the task store, whatever Raft answers, changes a config value outside its three prefixes:
  the cluster's secrets, which share the map, are never touched.\<close>

theorem store_op_frame:
  assumes "store_op W m m'" "json_ok W" "store_ok W m" "\<not> storeKey k"
  shows "stored m' k = stored m k"
  using assms(1)
proof cases
  case (put_task now reply t e)
  from put_task(1) show ?thesis using assms(2) store_okD(1) [OF assms(3)]
    by (cases rule: PutTask_cases) (use assms(4) writesD(2) storeKeyI in metis)+
next
  case (delete_task reply i e)
  then show ?thesis using assms(2) store_okD(1) [OF assms(3)]
    by (cases rule: DeleteTask_cases) (use assms(4) writesD(2) storeKeyI in metis)+
next
  case (put_revision now reply yaml r)
  from put_revision(1) assms(2) store_okD(1) [OF assms(3)] put_revision(2) show ?thesis
  proof (cases rule: PutTaskRevision_cases)
    case (written w e)
    have "k \<noteq> taskRevKey (revisionID W yaml)" using assms(4) storeKeyI(2) by blast
    from writesD(2) [OF written(4) this] show ?thesis by (simp add: stored_def)
  qed (simp_all add: stored_def)
next
  case (put_run reply rc e)
  from put_run(1) show ?thesis using assms(2) store_okD(1) [OF assms(3)]
    by (cases rule: PutRun_cases) (use assms(4) writesD(2) storeKeyI in metis)+
next
  case (put_run_node reply i n nc e)
  from put_run_node(1) assms(2) store_okD(1) [OF assms(3)] put_run_node(2) show ?thesis
    by (cases rule: PutRunNode_cases) (use assms(4) writesD(2) storeKeyI in metis)+
next
  case (prune now replies keep e)
  from prune assms(2,3) show ?thesis
  proof (cases rule: PruneRuns_cases)
    case (pruned f)
    have "k \<notin> dropKeys W now keep m f" using assms(4) dropKeys_iff [OF pruned(1) store_okD(1) [OF assms(3)]] by (auto simp: storeKey_def Let_def)
    then show ?thesis by (rule pruned(5))
  qed simp
qed

section \<open>Tasks\<close>

lemma map_filter_distinct:
  assumes "distinct (map fst xs)"
    and "\<And>p q x y. p \<in> set xs \<Longrightarrow> q \<in> set xs \<Longrightarrow> f p = Some x \<Longrightarrow> f q = Some y \<Longrightarrow> g x = g y \<Longrightarrow> fst p = fst q"
  shows "distinct (map g (List.map_filter f xs))"
  using assms
proof (induction xs)
  case (Cons p xs)
  have ih: "distinct (map g (List.map_filter f xs))"
  proof (rule Cons.IH)
    show "fst p = fst q" if "p \<in> set xs" "q \<in> set xs" "f p = Some x" "f q = Some y" "g x = g y" for p q x y
      using Cons.prems(2) [of p q x y] that by simp
  qed (use Cons.prems(1) in simp)
  show ?case
  proof (cases "f p")
    case (Some x)
    have "g x \<notin> g ` set (List.map_filter f xs)"
    proof
      assume "g x \<in> g ` set (List.map_filter f xs)"
      then obtain y q where q: "g x = g y" "q \<in> set xs" "f q = Some y" by (auto simp: set_map_filter)
      then have "fst p = fst q" using Cons.prems(2) [of p q x y] Some by simp
      then show False using Cons.prems(1) q(2) by auto
    qed
    then show ?thesis using ih Some by simp
  qed (use ih in simp)
qed simp

lemma decodeAll_distinct:
  assumes "\<And>k v x k' v' x'. fmlookup m k = Some v \<Longrightarrow> fmlookup m k' = Some v' \<Longrightarrow> dec v = Inr x \<Longrightarrow> dec v' = Inr x' \<Longrightarrow> g x = g x' \<Longrightarrow> k = k'"
  shows "distinct (map g (decodeAll dec m))"
  unfolding decodeAll_def
proof (rule map_filter_distinct [OF distinct_sorted_fmap])
  fix p q x y
  assume "p \<in> set (sorted_list_of_fmap m)" "q \<in> set (sorted_list_of_fmap m)"
    "(case p of (k, v) \<Rightarrow> case dec v of Inl _ \<Rightarrow> None | Inr x \<Rightarrow> Some x) = Some x"
    "(case q of (k, v) \<Rightarrow> case dec v of Inl _ \<Rightarrow> None | Inr x \<Rightarrow> Some x) = Some y" "g x = g y"
  moreover obtain k v k' v' where "p = (k, v)" "q = (k', v')" by (metis surj_pair)
  ultimately show "fst p = fst q"
    using assms [of k v k' v' x y] by (simp add: sorted_fmap_iff split: sum.splits)
qed

lemma distinct_map_sort: "distinct (map g (sort_key f xs)) \<longleftrightarrow> distinct (map g xs)"
proof -
  have "set (sort_key f xs) = set xs" "length (sort_key f xs) = length xs" by simp_all
  then show ?thesis by (metis card_distinct distinct_card length_map list.set_map)
qed

text \<open>Whatever was done to the store since it was empty, in any order and with any answers from Raft, no two of the
  tasks listed have one name, and no two one ID.\<close>

theorem task_names_unique:
  assumes "json_ok W" "mg_raft m0 = Some NewFSM" "(store_step W)\<^sup>*\<^sup>* m0 m" "ListTasks W m = Inr ts"
  shows "distinct (map td_name ts) \<and> distinct (map td_id ts)"
proof -
  have ok: "store_ok W m" using store_ok_steps [OF assms(3,1) store_ok_new [OF assms(2)]] .
  obtain f where f: "mg_raft m = Some f" and ts: "ts = storedTasks W f"
    using assms(4) by (auto simp: ListTasks_def taskFSM_def split: option.splits)
  have at: "taskAt W m k t" if "fmlookup (ConfigWithPrefix f taskKeyPrefix) k = Some v" "dec_task W v = Inr t" for k v t
    using that f store_okD(1) [OF ok] by (auto simp: taskAt_def stored_def mgr_ok_def cfg.get_scan split: if_splits)
  have "distinct (map td_name ts)"
    unfolding ts storedTasks_def distinct_map_sort
    by (rule decodeAll_distinct) (use at store_okD(4) [OF ok] in blast)
  moreover have "distinct (map td_id ts)"
    unfolding ts storedTasks_def distinct_map_sort
    by (rule decodeAll_distinct) (use at store_okD(3) [OF ok] in metis)
  ultimately show ?thesis ..
qed

text \<open>A task that was stored reads back as it was given, its source and time filled in; it was a valid one; and no other
  value changed.\<close>

theorem PutTask_stored:
  assumes "PutTask W now reply t m = (m', None)" "json_ok W" "mgr_ok m" "utf8_task t"
  shows "GetTask W (td_id t) m' = Inr (stampTask now t) \<and> (\<forall>k. k \<noteq> taskKey (td_id t) \<longrightarrow> stored m' k = stored m k) \<and>
    taskIDPattern (td_id t) \<and> length (td_yaml t) \<le> MaxDocumentBytes \<and> trim_space (td_name t) \<noteq> [] \<and>
    src_kind (td_source (stampTask now t)) \<in> {TaskSourceUser, TaskSourceGit}"
  using assms(1-3)
proof (cases rule: PutTask_cases)
  case (written f data)
  have v: "stored m' (taskKey (td_id t)) = Some data" using writesD(3) [OF written(9)] by simp
  then obtain f' where f': "mg_raft m' = Some f'" "GetConfigValue f' (taskKey (td_id t)) = Some data"
    by (auto simp: stored_def split: option.splits)
  have "dec_task W data = Inr (stampTask now t)" by (rule json_task [OF assms(2) written(7) utf8_stamp [OF assms(4)]])
  then have "GetTask W (td_id t) m' = Inr (stampTask now t)" using f' written(3) by (simp add: GetTask_def taskFSM_def)
  moreover have "src_kind (td_source (stampTask now t)) \<in> {TaskSourceUser, TaskSourceGit}"
    using written(6) by (auto simp: stampTask_def Let_def)
  ultimately show ?thesis using written(3-5) writesD(2) [OF written(9)] by blast
qed simp

section \<open>Revisions\<close>

text \<open>A document stored for a run reads back under the sum it was stored under: the very document, when no other stored one
  has its sum.  Storing one changes no document already there, and makes it safe from a pruning for \<open>revisionGrace\<close>.\<close>

theorem PutTaskRevision_stored:
  assumes "PutTaskRevision W now reply yaml m = (m', Inr sha)" "json_ok W" "store_ok W m" "valid_utf8 yaml"
    and "sha256 W yaml \<noteq> []" and inj: "\<And>y. revisionID W y = revisionID W yaml \<Longrightarrow> y = yaml"
  shows "sha = revisionID W yaml \<and> TaskRevision sha m' = Inr yaml \<and>
    (\<forall>k. stored m k \<noteq> None \<longrightarrow> stored m' k = stored m k) \<and> inGrace now (mg_taskRevWritten m') sha"
proof -
  let ?k = "taskRevKey (revisionID W yaml)"
  have r: "sha = revisionID W yaml \<and> stored m' ?k = Some yaml \<and> (\<forall>k. stored m k \<noteq> None \<longrightarrow> stored m' k = stored m k) \<and>
      inGrace now (mg_taskRevWritten m') sha"
    using assms(1,2) store_okD(1) [OF assms(3)] assms(4)
  proof (cases rule: PutTaskRevision_cases)
    case (reused w)
    then obtain v where "stored m ?k = Some v" by auto
    then have "stored m ?k = Some yaml" using store_okD(5) [OF assms(3)] inj by metis
    then show ?thesis using reused by (simp add: stored_def inGrace_def lookup_opt_def revisionGrace_def)
  next
    case (written w e)
    then have e: "e = None" by (cases e) auto
    let ?m = "m\<lparr>mg_taskRevWritten := Some (fmupd (revisionID W yaml) now w)\<rparr>"
    have same: "stored ?m = stored m" by (simp add: stored_def fun_eq_iff)
    have "stored m' = (stored m)(?k := Some yaml)" "mg_taskRevWritten m' = Some (fmupd (revisionID W yaml) now w)"
      using written(4) e same by (auto simp: writes_def)
    then show ?thesis using written(2,3) e by (auto simp: inGrace_def lookup_opt_def revisionGrace_def)
  qed auto
  moreover have "revisionID W yaml \<noteq> []" using assms(5) by (cases "sha256 W yaml") (auto simp: revisionID_def hexEncode_def)
  moreover have "CHR ''/'' \<notin> set (revisionID W yaml)" by (simp add: revisionID_def hexEncode_no_slash)
  ultimately show ?thesis by (auto simp: TaskRevision_def taskFSM_def stored_def split: option.splits)
qed

section \<open>Runs\<close>

lemma readNodes_Inr:
  assumes "readNodes W i p es = Inr ns" "distinct (map fst es)" "\<And>k v. (k, v) \<in> set es \<Longrightarrow> has_prefix k p"
  shows "fmlookup ns q = Option.bind (map_of es (p @ q)) (\<lambda>v. case dec_run_node W v of Inl _ \<Rightarrow> None | Inr n \<Rightarrow> Some n)"
  using assms
proof (induction W i p es arbitrary: ns rule: readNodes.induct)
  case (2 W i p k v es)
  obtain r where k: "k = p @ r" using 2(4) [of k v] by (auto simp: has_prefix_iff)
  obtain rec ms where d: "dec_run_node W v = Inr rec" "readNodes W i p es = Inr ms" "ns = fmupd r rec ms"
    using 2(2) k by (auto split: sum.splits)
  have "fmlookup ms q = Option.bind (map_of es (p @ q)) (\<lambda>v. case dec_run_node W v of Inl _ \<Rightarrow> None | Inr n \<Rightarrow> Some n)"
    using 2(1) [OF d(1,2)] 2(3,4) by auto
  then show ?case using d k by auto
qed simp

lemma readNodes_total: "(\<exists>ns. readNodes W i p es = Inr ns) \<longleftrightarrow> (\<forall>(k, v)\<in>set es. \<exists>n. dec_run_node W v = Inr n)"
  by (induction W i p es rule: readNodes.induct) (auto split: sum.splits)

definition runNodes :: "wire \<Rightarrow> string \<Rightarrow> fsm \<Rightarrow> storeError + run_node_record gomap" where
  "runNodes W i f = readNodes W i (runKey i @ runNodeInfix) (sorted_list_of_fmap (ConfigWithPrefix f (runKey i @ runNodeInfix)))"

lemma runNodes_Inr:
  assumes "fsm_ok f"
  shows "runNodes W i f = Inr ns \<longleftrightarrow>
    (\<forall>n v. GetConfigValue f (runNodeKey i n) = Some v \<longrightarrow> (\<exists>rec. dec_run_node W v = Inr rec)) \<and>
    (\<forall>n. fmlookup ns n = Option.bind (GetConfigValue f (runNodeKey i n)) (\<lambda>v. case dec_run_node W v of Inl _ \<Rightarrow> None | Inr rec \<Rightarrow> Some rec))"
    (is "_ \<longleftrightarrow> ?A \<and> ?B ns")
proof -
  let ?p = "runKey i @ runNodeInfix"
  let ?es = "sorted_list_of_fmap (ConfigWithPrefix f ?p)"
  have in_es: "(k, v) \<in> set ?es \<longleftrightarrow> has_prefix k ?p \<and> GetConfigValue f k = Some v" for k v
    using assms by (auto simp: sorted_fmap_iff cfg.get_scan)
  have key: "runNodeKey i n = ?p @ n" for n by (simp add: runNodeKey_def)
  have mo: "map_of ?es (?p @ n) = GetConfigValue f (runNodeKey i n)" for n
    using assms by (simp only: map_of_sorted_list cfg.get_scan has_prefix_append key if_True)
  have sound: "?B ms" if "readNodes W i ?p ?es = Inr ms" for ms
    using readNodes_Inr [OF that distinct_sorted_fmap] in_es by (simp only: mo) simp
  have tot: "(\<exists>ms. readNodes W i ?p ?es = Inr ms) \<longleftrightarrow> ?A"
    unfolding readNodes_total Ball_def by (auto simp only: split_paired_All in_es case_prod_conv has_prefix_iff key)
  show ?thesis
  proof
    assume "runNodes W i f = Inr ns"
    then show "?A \<and> ?B ns" using sound tot unfolding runNodes_def by blast
  next
    assume r: "?A \<and> ?B ns"
    then obtain ms where ms: "readNodes W i ?p ?es = Inr ms" using tot by blast
    then have "ms = ns" using sound r by (intro fmap_ext) metis
    then show "runNodes W i f = Inr ns" using ms by (simp add: runNodes_def)
  qed
qed

lemma GetRun_Inr:
  assumes "mgr_ok m" "runIDPattern i"
  shows "GetRun W i m = Inr (r, ns) \<longleftrightarrow> (\<exists>v. stored m (runKey i) = Some v \<and> dec_run W v = Inr r) \<and>
    (\<forall>n v. stored m (runNodeKey i n) = Some v \<longrightarrow> (\<exists>rec. dec_run_node W v = Inr rec)) \<and>
    (\<forall>n. fmlookup ns n = Option.bind (stored m (runNodeKey i n)) (\<lambda>v. case dec_run_node W v of Inl _ \<Rightarrow> None | Inr rec \<Rightarrow> Some rec))"
proof (cases "mg_raft m")
  case None
  then show ?thesis by (simp add: GetRun_def taskFSM_def stored_def)
next
  case (Some f)
  then have f: "fsm_ok f" using assms by (simp add: mgr_ok_def)
  have "GetRun W i m = Inr (r, ns) \<longleftrightarrow> (\<exists>v. GetConfigValue f (runKey i) = Some v \<and> dec_run W v = Inr r) \<and> runNodes W i f = Inr ns"
    using Some assms(2) by (auto simp: GetRun_def taskFSM_def runNodes_def Let_def split: option.splits sum.splits)
  then show ?thesis by (simp add: runNodes_Inr [OF f] stored_def Some)
qed

lemma runNodeKey_inject: "runIDPattern i \<Longrightarrow> runIDPattern j \<Longrightarrow> runNodeKey i n = runNodeKey j k \<longleftrightarrow> i = j \<and> n = k"
  and runNodeKey_ne: "runIDPattern j \<Longrightarrow> runNodeKey i n \<noteq> runKey j"
proof -
  assume ij: "runIDPattern i" "runIDPattern j"
  then have "length i = length j" by (simp add: runIDPattern_def)
  then show "runNodeKey i n = runNodeKey j k \<longleftrightarrow> i = j \<and> n = k" by (auto simp: runNodeKey_def runKey_def)
next
  assume "runIDPattern j"
  then show "runNodeKey i n \<noteq> runKey j" using run_id_no_slash runNodeKey_slash by blast
qed

text \<open>A run's head that was written reads back, with the node records the run had; and every other run reads as before.\<close>

theorem PutRun_then_GetRun:
  assumes "PutRun W reply r m = (m', None)" "json_ok W" "mgr_ok m" "utf8_run r"
    and nodes: "\<And>n v. stored m (runNodeKey (rr_id r) n) = Some v \<Longrightarrow> \<exists>rec. dec_run_node W v = Inr rec"
  shows "(\<exists>ns. GetRun W (rr_id r) m' = Inr (r, ns) \<and>
      (\<forall>n. fmlookup ns n = Option.bind (stored m (runNodeKey (rr_id r) n)) (\<lambda>v. case dec_run_node W v of Inl _ \<Rightarrow> None | Inr rec \<Rightarrow> Some rec)) \<and>
      (\<forall>r0 ns0. GetRun W (rr_id r) m = Inr (r0, ns0) \<longrightarrow> ns = ns0)) \<and>
    (\<forall>i r' ns. runIDPattern i \<longrightarrow> i \<noteq> rr_id r \<longrightarrow> GetRun W i m' = Inr (r', ns) \<longleftrightarrow> GetRun W i m = Inr (r', ns))"
  using assms(1-3)
proof (cases rule: PutRun_cases)
  case (written data)
  have st: "stored m' = (stored m)(runKey (rr_id r) := Some data)" and ok: "mgr_ok m'" using written(4) by (auto simp: writes_def)
  have d: "dec_run W data = Inr r" by (rule json_run [OF assms(2) written(3) assms(4)])
  have nk: "stored m' (runNodeKey i n) = stored m (runNodeKey i n)" for i n using runNodeKey_ne [OF written(2)] by (simp add: st)
  obtain f where f: "mg_raft m = Some f" "fsm_ok f" using written(1) assms(3) by (auto simp: taskLeader_def mgr_ok_def)
  obtain ns where ns: "runNodes W (rr_id r) f = Inr ns"
  proof -
    have "\<exists>ns. runNodes W (rr_id r) f = Inr ns"
      unfolding runNodes_def readNodes_total
      using nodes f by (auto simp: sorted_fmap_iff cfg.get_scan stored_def runNodeKey_def has_prefix_iff split: if_splits)
    then show thesis using that by blast
  qed
  have look: "\<forall>n. fmlookup ns n = Option.bind (stored m (runNodeKey (rr_id r) n)) (\<lambda>v. case dec_run_node W v of Inl _ \<Rightarrow> None | Inr rec \<Rightarrow> Some rec)"
    using ns runNodes_Inr [OF f(2)] by (simp add: stored_def f)
  have "GetRun W (rr_id r) m' = Inr (r, ns)"
    unfolding GetRun_Inr [OF ok written(2)] nk using look nodes d by (simp add: st)
  moreover have "ns = ns0" if "GetRun W (rr_id r) m = Inr (r0, ns0)" for r0 ns0
    using that look unfolding GetRun_Inr [OF assms(3) written(2)] by (intro fmap_ext) simp
  moreover have "GetRun W i m' = Inr (r', ns') \<longleftrightarrow> GetRun W i m = Inr (r', ns')" if "runIDPattern i" "i \<noteq> rr_id r" for i r' ns'
    unfolding GetRun_Inr [OF ok that(1)] GetRun_Inr [OF assms(3) that(1)] nk using that(2) by (simp add: st)
  ultimately show ?thesis using look by blast
qed simp

text \<open>A node's record that was written reads back as that node's, and the rest of the run, and every other run, reads as before;
  it is refused for a run that has no head.\<close>

theorem PutRunNode_then_GetRun:
  assumes "PutRunNode W reply i n rec m = (m', e)" "json_ok W" "mgr_ok m" "valid_utf8 n" "utf8_run_node rec"
  shows "(GetRun W i m = Inr (r, ns) \<longrightarrow> e = None \<longrightarrow> GetRun W i m' = Inr (r, fmupd n rec ns)) \<and>
    (\<forall>j. runIDPattern j \<longrightarrow> j \<noteq> i \<longrightarrow> GetRun W j m' = Inr (r, ns) \<longleftrightarrow> GetRun W j m = Inr (r, ns)) \<and>
    (stored m (runKey i) = None \<longrightarrow> m' = m \<and> e \<noteq> None)"
  using assms(1-4)
proof (cases rule: PutRunNode_cases)
  case (written data)
  have ok: "mgr_ok m'" and st: "stored m' = (stored m)(runNodeKey i n := Some data) \<or> e \<noteq> None \<and> m' = m" using written(6) by (auto simp: writes_def)
  have d: "dec_run_node W data = Inr rec" by (rule json_run_node [OF assms(2) written(5) assms(5)])
  have "GetRun W i m' = Inr (r, fmupd n rec ns)" if g: "GetRun W i m = Inr (r, ns)" and e: "e = None"
    using g st e d unfolding GetRun_Inr [OF ok written(2)] GetRun_Inr [OF assms(3) written(2)]
    by (auto simp: runNodeKey_inject [OF written(2,2)] runNodeKey_ne [OF written(2)] runNodeKey_ne [OF written(2), symmetric])
  moreover have "GetRun W j m' = Inr (r, ns) \<longleftrightarrow> GetRun W j m = Inr (r, ns)" if j: "runIDPattern j" "j \<noteq> i" for j
    using st j unfolding GetRun_Inr [OF ok j(1)] GetRun_Inr [OF assms(3) j(1)]
    by (auto simp: runNodeKey_inject [OF j(1) written(2)] runNodeKey_ne [OF j(1)] runNodeKey_ne [OF j(1), symmetric])
  ultimately show ?thesis using written(4) by blast
qed auto

section \<open>Pruning\<close>

lemma GetRun_cong:
  assumes "mgr_ok m" "mgr_ok m'" "mg_raft m' = None \<longleftrightarrow> mg_raft m = None"
    and "stored m' (runKey i) = stored m (runKey i)" "\<And>n. stored m' (runNodeKey i n) = stored m (runNodeKey i n)"
  shows "GetRun W i m' = GetRun W i m"
proof (cases "mg_raft m")
  case None
  then show ?thesis using assms(3) by (simp add: GetRun_def taskFSM_def)
next
  case (Some f)
  then obtain f' where f': "mg_raft m' = Some f'" using assms(3) by auto
  have ok: "fsm_ok f" "fsm_ok f'" using assms(1,2) Some f' by (simp_all add: mgr_ok_def)
  have "fmlookup (ConfigWithPrefix f' (runKey i @ runNodeInfix)) k = fmlookup (ConfigWithPrefix f (runKey i @ runNodeInfix)) k" for k
    using assms(5) ok Some f' by (auto simp: cfg.get_scan stored_def runNodeKey_def has_prefix_iff)
  then have "ConfigWithPrefix f' (runKey i @ runNodeInfix) = ConfigWithPrefix f (runKey i @ runNodeInfix)" by (rule fmap_ext)
  then show ?thesis using assms(4) Some f' by (simp add: GetRun_def taskFSM_def stored_def Let_def split: option.split sum.split)
qed

lemma TaskRevision_cong:
  "(mg_raft m' = None \<longleftrightarrow> mg_raft m = None) \<Longrightarrow> stored m' (taskRevKey sha) = stored m (taskRevKey sha) \<Longrightarrow> TaskRevision sha m' = TaskRevision sha m"
  by (auto simp: TaskRevision_def taskFSM_def stored_def split: option.splits)

lemma runHeads_iff:
  assumes "mg_raft m = Some f" "mgr_ok m"
  shows "r \<in> set (runHeads W (ConfigWithPrefix f taskRunKeyPrefix)) \<longleftrightarrow>
    (\<exists>i v. CHR ''/'' \<notin> set i \<and> stored m (runKey i) = Some v \<and> dec_run W v = Inr r)"
  using assms by (auto simp: runHeads_def headEntries_def decodeAll_iff cfg.get_scan mgr_ok_def stored_def has_prefix_iff runKey_def split: if_splits)

lemma runIDOfKey_simps: "CHR ''/'' \<notin> set i \<Longrightarrow> runIDOfKey (runKey i) = i" "CHR ''/'' \<notin> set i \<Longrightarrow> runIDOfKey (runNodeKey i n) = i"
  by (simp_all add: runIDOfKey_def runKey_def runNodeKey_def runNodeInfix_def)

lemma kept_sub: "set (keptRuns keep runs) \<subseteq> set runs"
  by (auto simp: keptRuns_def in_set_enumerate_eq)

lemma kept_nth: "i < length runs \<Longrightarrow> int i < keep \<or> Active (runs ! i) \<Longrightarrow> runs ! i \<in> set (keptRuns keep runs)"
  by (auto simp: keptRuns_def in_set_enumerate_eq image_iff intro!: bexI [of _ "(i, runs ! i)"])

lemma kept_active: "r \<in> set runs \<Longrightarrow> Active r \<Longrightarrow> r \<in> set (keptRuns keep runs)"
  by (metis in_set_conv_nth kept_nth)

lemma kept_newest: "i < length runs \<Longrightarrow> int i < keep \<Longrightarrow> runs ! i \<in> set (keptRuns keep runs)"
  by (simp add: kept_nth)

lemma ListRuns_Inr: "ListRuns W m = Inr runs \<longleftrightarrow> (\<exists>f. mg_raft m = Some f \<and> runs = runHeads W (ConfigWithPrefix f taskRunKeyPrefix))"
  by (auto simp: ListRuns_def taskFSM_def split: option.splits)

lemma run_key_of_head:
  assumes "store_ok W m" "ListRuns W m = Inr runs" "r \<in> set runs"
  shows "CHR ''/'' \<notin> set (rr_id r) \<and> (\<exists>v. stored m (runKey (rr_id r)) = Some v \<and> dec_run W v = Inr r)"
  using assms runHeads_iff [OF _ store_okD(1) [OF assms(1)]] store_okD(6) [OF assms(1)] by (auto simp: ListRuns_Inr)

text \<open>C23: a pruning never takes anything from a run it keeps.  Whatever Raft answers, and also when it is cut short half way, each of the
  \<open>keep\<close> newest runs and each run that has not ended reads exactly as before, head and node records, and so does the document it was
  started from; and so does every document this leader wrote or reused within the grace time.\<close>

theorem PruneRuns_keeps:
  assumes p: "PruneRuns W now reply keep m = (m', e)" and "json_ok W" and ok: "store_ok W m" and l: "ListRuns W m = Inr runs"
  shows "(\<forall>r\<in>set (keptRuns keep runs). GetRun W (rr_id r) m' = GetRun W (rr_id r) m \<and> TaskRevision (rr_rev r) m' = TaskRevision (rr_rev r) m) \<and>
    (\<forall>sha. inGrace now (mg_taskRevWritten m) sha \<longrightarrow> TaskRevision sha m' = TaskRevision sha m) \<and>
    (\<forall>r\<in>set runs. Active r \<longrightarrow> r \<in> set (keptRuns keep runs)) \<and>
    (\<forall>i. i < length runs \<longrightarrow> int i < keep \<longrightarrow> runs ! i \<in> set (keptRuns keep runs))"
  using assms(1-3)
proof (cases rule: PruneRuns_cases)
  case (pruned f)
  have mo: "mgr_ok m" by (rule store_okD(1) [OF ok])
  have runs: "runs = runHeads W (ConfigWithPrefix f taskRunKeyPrefix)" using l pruned(1) by (simp add: ListRuns_Inr)
  have keep: "stored m' k = stored m k" if "\<not> (has_prefix k taskRunKeyPrefix \<and> runIDOfKey k \<notin> rr_id ` set (keptRuns keep runs))"
      "\<not> (has_prefix k taskRevKeyPrefix \<and> trim_prefix k taskRevKeyPrefix \<notin> rr_rev ` set (keptRuns keep runs) \<and>
        \<not> inGrace now (mg_taskRevWritten m) (trim_prefix k taskRevKeyPrefix))" for k
    using pruned(5) [of k] that by (auto simp: dropKeys_iff [OF pruned(1) mo] runs Let_def)
  have none: "mg_raft m' = None \<longleftrightarrow> mg_raft m = None" using pruned(1,4) by simp
  have rev: "TaskRevision sha m' = TaskRevision sha m" if "sha \<in> rr_rev ` set (keptRuns keep runs) \<or> inGrace now (mg_taskRevWritten m) sha" for sha
  proof (rule TaskRevision_cong [OF none])
    have "trim_prefix (taskRevKey sha) taskRevKeyPrefix = sha" by (simp add: taskRevKey_def)
    then show "stored m' (taskRevKey sha) = stored m (taskRevKey sha)" using that by (intro keep) (auto simp: has_prefix_keys)
  qed
  have "GetRun W (rr_id r) m' = GetRun W (rr_id r) m" if r: "r \<in> set (keptRuns keep runs)" for r
  proof -
    have sl: "CHR ''/'' \<notin> set (rr_id r)" using run_key_of_head [OF ok l] kept_sub r by blast
    show ?thesis
      by (rule GetRun_cong [OF mo pruned(3) none])
        (use r in \<open>auto intro!: keep simp: has_prefix_keys runIDOfKey_simps [OF sl]\<close>)
  qed
  then show ?thesis using rev kept_active kept_newest by blast
qed (use kept_active kept_newest in auto)

lemma sorted_list_fmfilter: "sorted_list_of_fmap (fmfilter P m) = filter (\<lambda>(k, v). P k) (sorted_list_of_fmap m)"
proof -
  have "sorted_list_of_fset (ffilter P A) = filter P (sorted_list_of_fset A)" for A
    by (rule sorted_distinct_set_unique)
      (auto simp: sorted_list_of_fset.rep_eq sorted_wrt_filter)
  then have "map fst (sorted_list_of_fmap (fmfilter P m)) = filter P (map fst (sorted_list_of_fmap m))"
    by (simp add: sorted_list_of_fmap_def comp_def)
  moreover have "sorted_list_of_fmap x = map (\<lambda>k. (k, the (fmlookup x k))) (map fst (sorted_list_of_fmap x))" for x
    by (simp add: sorted_list_of_fmap_def comp_def)
  ultimately have "sorted_list_of_fmap (fmfilter P m) = map (\<lambda>k. (k, the (fmlookup (fmfilter P m) k))) (filter P (map fst (sorted_list_of_fmap m)))"
    by metis
  also have "\<dots> = map (\<lambda>k. (k, the (fmlookup m k))) (filter P (map fst (sorted_list_of_fmap m)))"
    by (rule map_cong) auto
  also have "\<dots> = filter (\<lambda>(k, v). P k) (map (\<lambda>k. (k, the (fmlookup m k))) (map fst (sorted_list_of_fmap m)))"
    by (simp add: filter_map comp_def)
  finally show ?thesis by (simp add: sorted_list_of_fmap_def comp_def)
qed

lemma map_filter_filter:
  "(\<And>p x. p \<in> set xs \<Longrightarrow> f p = Some x \<Longrightarrow> P p \<longleftrightarrow> Q x) \<Longrightarrow> List.map_filter f (filter P xs) = filter Q (List.map_filter f xs)"
  by (induction xs) (auto split: option.split)

lemma decodeAll_fmfilter:
  assumes "\<And>k v x. fmlookup m k = Some v \<Longrightarrow> dec v = Inr x \<Longrightarrow> P k \<longleftrightarrow> Q x"
  shows "decodeAll dec (fmfilter P m) = filter Q (decodeAll dec m)"
  unfolding decodeAll_def sorted_list_fmfilter
  by (rule map_filter_filter) (use assms in \<open>auto simp: sorted_fmap_iff split: sum.splits\<close>)

lemma enumerate_filter:
  assumes "distinct (map g xs)"
  shows "map snd (filter P (enumerate n xs)) = filter (\<lambda>x. g x \<in> g ` set (map snd (filter P (enumerate n xs)))) xs"
  using assms
proof (induction xs arbitrary: n)
  case (Cons x xs)
  define ys where "ys = map snd (filter P (enumerate (Suc n) xs))"
  have sub: "set ys \<subseteq> set xs" by (auto simp: ys_def in_set_enumerate_eq)
  have ih: "ys = filter (\<lambda>y. g y \<in> g ` set ys) xs" unfolding ys_def by (rule Cons.IH) (use Cons.prems in simp)
  have nx: "g x \<notin> g ` set ys" using Cons.prems sub by auto
  have "filter (\<lambda>y. g y \<in> g ` set (x # ys)) xs = filter (\<lambda>y. g y \<in> g ` set ys) xs"
    by (rule filter_cong) (use Cons.prems in \<open>auto simp: image_iff\<close>)
  then have "(if P (n, x) then x # ys else ys) = filter (\<lambda>y. g y \<in> g ` set (if P (n, x) then x # ys else ys)) (x # xs)"
    using ih nx by simp
  then show ?case by (simp only: enumerate_simps filter.simps ys_def) (simp only: if_distrib list.map snd_conv)
qed simp

lemma headEntriesE:
  assumes "fmlookup (headEntries (ConfigWithPrefix f taskRunKeyPrefix)) k = Some v" "fsm_ok f"
  obtains i where "k = runKey i" "CHR ''/'' \<notin> set i" "GetConfigValue f (runKey i) = Some v"
proof -
  have "fmlookup (ConfigWithPrefix f taskRunKeyPrefix) k = Some v" and sl: "CHR ''/'' \<notin> set (trim_prefix k taskRunKeyPrefix)"
    using assms(1) by (auto simp: headEntries_def split: if_splits)
  then have "has_prefix k taskRunKeyPrefix" "GetConfigValue f k = Some v" using cfg.get_scan [OF assms(2)] by (auto split: if_splits)
  moreover from this(1) obtain i where "k = taskRunKeyPrefix @ i" by (auto simp: has_prefix_iff)
  ultimately show thesis using sl that [of i] by (simp add: runKey_def)
qed

lemma head_entry_id:
  assumes "store_ok W m" "mg_raft m = Some f" "fmlookup (headEntries (ConfigWithPrefix f taskRunKeyPrefix)) k = Some v" "dec_run W v = Inr r"
  shows "k = runKey (rr_id r) \<and> CHR ''/'' \<notin> set (rr_id r)"
proof -
  have "fsm_ok f" using store_okD(1) [OF assms(1)] assms(2) by (simp add: mgr_ok_def)
  from headEntriesE [OF assms(3) this] obtain i where i: "k = runKey i" "CHR ''/'' \<notin> set i" "stored m (runKey i) = Some v"
    using assms(2) by (auto simp: stored_def)
  then show ?thesis using store_okD(6) [OF assms(1) i(2,3) assms(4)] by simp
qed

lemma runs_distinct:
  assumes "store_ok W m" "ListRuns W m = Inr runs"
  shows "distinct (map rr_id runs)"
proof -
  obtain f where f: "mg_raft m = Some f" and runs: "runs = runHeads W (ConfigWithPrefix f taskRunKeyPrefix)" using assms(2) by (auto simp: ListRuns_Inr)
  have "distinct (map rr_id (decodeAll (dec_run W) (headEntries (ConfigWithPrefix f taskRunKeyPrefix))))"
    by (rule decodeAll_distinct) (use head_entry_id [OF assms(1) f] in metis)
  then show ?thesis by (simp add: runs runHeads_def rev_map [symmetric] distinct_map_sort)
qed

text \<open>A pruning that succeeds leaves exactly the runs it keeps, newest first as before; no node record of another run; and no document
  but those the kept runs use and those within the grace time.\<close>

theorem PruneRuns_drops:
  assumes p: "PruneRuns W now reply keep m = (m', None)" and "json_ok W" and ok: "store_ok W m" and l: "ListRuns W m = Inr runs"
  shows "ListRuns W m' = Inr (keptRuns keep runs) \<and>
    (\<forall>k. has_prefix k taskRunKeyPrefix \<longrightarrow> stored m' k \<noteq> None \<longrightarrow> runIDOfKey k \<in> rr_id ` set (keptRuns keep runs)) \<and>
    (\<forall>sha. stored m' (taskRevKey sha) \<noteq> None \<longrightarrow> sha \<in> rr_rev ` set (keptRuns keep runs) \<or> inGrace now (mg_taskRevWritten m) sha)"
  using assms(1-3)
proof (cases rule: PruneRuns_cases)
  case (pruned f)
  let ?K = "rr_id ` set (keptRuns keep runs)"
  have mo: "mgr_ok m" by (rule store_okD(1) [OF ok])
  have runs: "runs = runHeads W (ConfigWithPrefix f taskRunKeyPrefix)" using l pruned(1) by (simp add: ListRuns_Inr)
  obtain f' where f': "mg_raft m' = Some f'" using pruned(4) by auto
  have fo: "fsm_ok f" "fsm_ok f'" using mo pruned(1,3) f' by (simp_all add: mgr_ok_def)
  have gone: "stored m' k = None" if "k \<in> dropKeys W now keep m f" for k using pruned(7) that by simp
  have stay: "stored m' k = stored m k" if "k \<notin> dropKeys W now keep m f" for k by (rule pruned(5) [OF that])
  have left: "k \<notin> dropKeys W now keep m f \<and> stored m k \<noteq> None" if "stored m' k \<noteq> None" for k using gone [of k] stay [of k] that by metis
  have heads: "fmlookup (ConfigWithPrefix f' taskRunKeyPrefix) k = fmlookup (fmfilter (\<lambda>k. runIDOfKey k \<in> ?K) (ConfigWithPrefix f taskRunKeyPrefix)) k" for k
  proof (cases "k \<in> dropKeys W now keep m f")
    case True
    then show ?thesis using gone [OF True] f' pruned(1) fo
      by (auto simp: dropKeys_iff [OF pruned(1) mo] runs cfg.get_scan stored_def Let_def has_prefix_iff key_defs)
  next
    case False
    then show ?thesis using stay [OF False] f' pruned(1) fo
      by (auto simp: dropKeys_iff [OF pruned(1) mo] runs cfg.get_scan stored_def Let_def)
  qed
  have match: "runIDOfKey k \<in> ?K \<longleftrightarrow> rr_id r \<in> ?K"
    if h: "fmlookup (headEntries (ConfigWithPrefix f taskRunKeyPrefix)) k = Some v" and d: "dec_run W v = Inr r" for k v r
    using head_entry_id [OF ok pruned(1) h d] by (auto simp: runIDOfKey_simps)
  have he: "headEntries (fmfilter P e) = fmfilter P (headEntries e)" for P e
    by (rule fmap_ext) (simp add: headEntries_def)
  have "decodeAll (dec_run W) (headEntries (ConfigWithPrefix f' taskRunKeyPrefix)) =
      filter (\<lambda>r. rr_id r \<in> ?K) (decodeAll (dec_run W) (headEntries (ConfigWithPrefix f taskRunKeyPrefix)))"
    unfolding fmap_ext [OF heads] he by (rule decodeAll_fmfilter) (rule match)
  then have "runHeads W (ConfigWithPrefix f' taskRunKeyPrefix) = filter (\<lambda>r. rr_id r \<in> ?K) (runHeads W (ConfigWithPrefix f taskRunKeyPrefix))"
    unfolding runHeads_def by (simp only: filter_sort [symmetric] rev_filter)
  then have "runHeads W (ConfigWithPrefix f' taskRunKeyPrefix) = filter (\<lambda>r. rr_id r \<in> ?K) runs" by (simp only: runs)
  also have "\<dots> = keptRuns keep runs" using enumerate_filter [OF runs_distinct [OF ok l], of _ 0] unfolding keptRuns_def by (simp del: set_map)
  finally have "ListRuns W m' = Inr (keptRuns keep runs)" using f' by (simp add: ListRuns_Inr)
  moreover have "runIDOfKey k \<in> ?K" if "has_prefix k taskRunKeyPrefix" "stored m' k \<noteq> None" for k
    using that left [OF that(2)] by (auto simp: dropKeys_iff [OF pruned(1) mo] runs Let_def)
  moreover have "sha \<in> rr_rev ` set (keptRuns keep runs) \<or> inGrace now (mg_taskRevWritten m) sha" if "stored m' (taskRevKey sha) \<noteq> None" for sha
  proof -
    have "trim_prefix (taskRevKey sha) taskRevKeyPrefix = sha" by (simp add: taskRevKey_def)
    then show ?thesis using that left [OF that]
      by (auto simp: dropKeys_iff [OF pruned(1) mo] runs Let_def has_prefix_keys)
  qed
  ultimately show ?thesis by blast
qed simp

text \<open>A run whose head does not decode on this leader is pruned, whatever state it is in and however new it is.\<close>

theorem PruneRuns_drops_unreadable:
  assumes "PruneRuns W now reply keep m = (m', None)" "json_ok W" "store_ok W m"
    and "CHR ''/'' \<notin> set i" "stored m (runKey i) = Some v" "dec_run W v = Inl x"
  shows "stored m' (runKey i) = None"
  using assms(1-3)
proof (cases rule: PruneRuns_cases)
  case (pruned f)
  have l: "ListRuns W m = Inr (runHeads W (ConfigWithPrefix f taskRunKeyPrefix))" using pruned(1) by (simp add: ListRuns_Inr)
  have "i \<notin> rr_id ` set (keptRuns keep (runHeads W (ConfigWithPrefix f taskRunKeyPrefix)))"
    using run_key_of_head [OF assms(3) l] kept_sub assms(5,6) by force
  then have "runKey i \<in> dropKeys W now keep m f"
    using assms(4,5) by (simp add: dropKeys_iff [OF pruned(1) store_okD(1) [OF assms(3)]] runIDOfKey_simps has_prefix_keys Let_def)
  then show ?thesis using pruned(7) by simp
qed simp

section \<open>The gate\<close>

text \<open>A run may start only when every manager but this leader was heard from, is online by live health and reports the task
  capability; agents never hold it back.\<close>

theorem TasksReady_iff:
  assumes "mg_raft m = Some f"
  shows "TasksReady self health metrics m = [] \<longleftrightarrow>
    (\<forall>i n. GetNode f i = Some n \<longrightarrow> IsManager n \<longrightarrow> i \<noteq> self \<longrightarrow>
       (\<exists>met. fmlookup metrics i = Some met \<and> fmlookup health i = Some StatusOnline \<and> CapTasks \<in> set (met_capabilities met)))"
proof -
  have nr: "notReady health metrics CapTasks i n = None \<longleftrightarrow>
      (\<exists>met. fmlookup metrics i = Some met \<and> fmlookup health i = Some StatusOnline \<and> CapTasks \<in> set (met_capabilities met))" for i n
    by (auto simp: notReady_def Let_def split: option.splits)
  let ?es = "case cs_nodes (GetState f) of None \<Rightarrow> [] | Some m \<Rightarrow> sorted_list_of_fmap m"
  have es: "(i, n) \<in> set ?es \<longleftrightarrow> GetNode f i = Some n" for i n
    by (auto simp: GetState_def GetNode_def lookup_opt_def orEmpty_def sorted_fmap_iff Let_def split: option.splits)
  have nil: "List.map_filter g xs = [] \<longleftrightarrow> (\<forall>p\<in>set xs. g p = None)" for g :: "string \<times> node \<Rightarrow> string option" and xs
    by (induction xs) (auto split: option.splits)
  have "TasksReady self health metrics m = [] \<longleftrightarrow>
      (\<forall>(i, n)\<in>set ?es. i = self \<or> \<not> IsManager n \<or> notReady health metrics CapTasks i n = None)"
  proof -
    have "sort xs = [] \<longleftrightarrow> xs = []" for xs :: "string list" by (metis length_0_conv length_sort)
    then have "TasksReady self health metrics m = [] \<longleftrightarrow> (\<forall>p\<in>set ?es. (case p of (i, n) \<Rightarrow>
        if i = self \<or> (\<not> False \<and> \<not> IsManager n) then None else notReady health metrics CapTasks i n) = None)"
      by (simp only: TasksReady_def nodesNotReady_def assms option.case nil)
    also have "\<dots> \<longleftrightarrow> (\<forall>(i, n)\<in>set ?es. i = self \<or> \<not> IsManager n \<or> notReady health metrics CapTasks i n = None)"
      by (rule ball_cong [OF refl]) (simp split: prod.split)
    finally show ?thesis .
  qed
  then show ?thesis unfolding nr Ball_def split_paired_All es by auto
qed

section \<open>Witnesses\<close>

definition sampleStored :: stored_task where
  "sampleStored = \<lparr>td_id = ''t1'', td_name = ''Update'', td_yaml = ''x'',
     td_source = \<lparr>src_kind = ''user'', src_repo = [], src_branch = [], src_path = [], src_sha = []\<rparr>, td_updated_at = 7, td_updated_by = []\<rparr>"

definition sampleRun :: run_record where
  "sampleRun = \<lparr>rr_id = ''20260101-120000-abcdef'', rr_kind = [], rr_task_id = ''t1'', rr_task_name = ''Update'', rr_rev = ''78'', rr_inputs = fmempty,
     rr_nodes = [''n1''], rr_waves = [[''n1'']], rr_confirmed = [], rr_batch = 1, rr_stop_on_failure = True, rr_status = RunRunning, rr_reason = [],
     rr_force = False, rr_stopped_by = [], rr_started_by = ''admin'', rr_started_at = 7, rr_ended_at = 0, rr_rerun_of = [], rr_start_at = fmempty,
     rr_credentials_until = 0\<rparr>"

definition sampleRunNode :: run_node_record where
  "sampleRunNode = \<lparr>nr_status = RunNodePending, nr_reason = [], nr_reason_details = fmempty, nr_steps = [], nr_host = [], nr_ip = [], nr_name = [],
     nr_group = [], nr_node_id = [], nr_sfpanel_before = False, nr_awaiting = [], nr_host_key = [], nr_check_url = [], nr_host_key_tailscale = []\<rparr>"

definition sampleEncode :: "cmd \<Rightarrow> string" where
  "sampleEncode c = char_of (cmd_type c) # replicate (length (cmd_key c)) (CHR ''1'') @ [CHR ''0''] @ cmd_key c @ cmd_value c"

definition sampleDecode :: "string \<Rightarrow> string + cmd" where
  "sampleDecode s = (case s of [] \<Rightarrow> Inl ''empty'' | t # r \<Rightarrow>
     (let n = length (takeWhile (\<lambda>c. c = CHR ''1'') r); q = drop (Suc n) r
      in Inr \<lparr>cmd_type = of_char t, cmd_key = take n q, cmd_value = drop n q\<rparr>))"

definition sampleWire :: wire where
  "sampleWire = \<lparr>w_codec = sampleCodec\<lparr>dec_command := sampleDecode, dec_string := Inr\<rparr>, enc_command = sampleEncode, enc_string = (\<lambda>s. s),
     enc_task = (\<lambda>t. if t = sampleStored then Inr ''T'' else Inl ''time''), dec_task = (\<lambda>s. if s = ''T'' then Inr sampleStored else Inl ''syntax''),
     enc_run = (\<lambda>r. if r = sampleRun then Inr ''R'' else Inl ''time''), dec_run = (\<lambda>s. if s = ''R'' then Inr sampleRun else Inl ''syntax''),
     enc_run_node = (\<lambda>n. if n = sampleRunNode then Inr ''N'' else Inl ''time''), dec_run_node = (\<lambda>s. if s = ''N'' then Inr sampleRunNode else Inl ''syntax''),
     sha256 = (\<lambda>s. s)\<rparr>"

lemma sample_json: "json_ok sampleWire"
proof -
  have td: "takeWhile (\<lambda>c. c = CHR ''1'') (replicate n (CHR ''1'') @ CHR ''0'' # z) = replicate n (CHR ''1'')" for n z by (induction n) auto
  have "sampleDecode (sampleEncode c) = Inr c" if "cmd_type c < 256" for c
    using that by (simp add: sampleDecode_def sampleEncode_def td Let_def)
  then show ?thesis by (simp add: json_ok_def sampleWire_def cmd_defs)
qed

definition sampleLeader :: manager where
  "sampleLeader = \<lparr>mg_raft = Some NewFSM, mg_leader = True, mg_taskRevWritten = None\<rparr>"

lemma sample_ok: "store_ok W sampleLeader"
  by (rule store_ok_new) (simp add: sampleLeader_def)

lemma put_committed:
  assumes "json_ok W" "mg_raft m = Some f" "fsm_ok f" "valid_utf8 k" "valid_utf8 v"
  shows "putTaskValue W (Committed i now) k v m = (m\<lparr>mg_raft := Some (fsmSetConfig f k v)\<rparr>, None)"
  using assms by (simp add: putTaskValue_def SetConfig_def managerApply_def RaftNode_Apply_def applyEntry_set asNotLeader_def)

lemma delete_committed:
  assumes "json_ok W" "mg_raft m = Some f" "fsm_ok f" "valid_utf8 k"
  shows "deleteTaskValue W (Committed i now) k m = (m\<lparr>mg_raft := Some (fsmDeleteConfig f k)\<rparr>, None)"
  using assms by (simp add: deleteTaskValue_def managerApply_def RaftNode_Apply_def applyEntry_delete asNotLeader_def)

lemma sample_fsm: "mg_raft sampleLeader = Some NewFSM" "fsm_ok NewFSM" "taskLeader sampleLeader"
  by (simp_all add: sampleLeader_def fsm_ok_def NewFSM_def taskLeader_def)

lemma sample_PutTask: "\<exists>m. PutTask sampleWire 9 (Committed 1 0) sampleStored sampleLeader = (m, None)"
proof -
  have "storedTasks sampleWire NewFSM = []"
    by (simp add: storedTasks_def decodeAll_def ConfigWithPrefix_def NewFSM_def sorted_list_of_fmap_def sorted_list_of_fset.rep_eq)
  moreover have "enc_task sampleWire sampleStored = Inr ''T''" "stampTask 9 sampleStored = sampleStored" "taskIDPattern (td_id sampleStored)"
    by (simp_all add: sampleWire_def sampleStored_def stampTask_def taskIDPattern_def task_id_char_def)
  moreover have "trim_space (td_name sampleStored) \<noteq> []" unfolding sampleStored_def by code_simp
  ultimately show ?thesis using put_committed [OF sample_json sample_fsm(1,2) key_utf8(1), of "''t1''" "''T''"]
    by (auto simp: PutTask_def sample_fsm Let_def sampleStored_def MaxDocumentBytes_def TaskSourceUser_def)
qed

lemma sample_utf8: "utf8_task sampleStored" "utf8_run sampleRun" "utf8_run_node sampleRunNode" "runIDPattern (rr_id sampleRun)"
  by (simp_all add: utf8_task_def sampleStored_def utf8_run_def sampleRun_def utf8_run_node_def sampleRunNode_def RunRunning_def RunNodePending_def
      runIDPattern_def is_digit_def lower_hex_def)

lemma sample_PutRun: "\<exists>m. PutRun sampleWire (Committed 1 0) sampleRun sampleLeader = (m, None) \<and> store_ok sampleWire m \<and>
    mg_raft m = Some (fsmSetConfig NewFSM (runKey (rr_id sampleRun)) ''R'') \<and> taskLeader m"
proof -
  have e: "enc_run sampleWire sampleRun = Inr ''R''" by (simp add: sampleWire_def)
  have p: "PutRun sampleWire (Committed 1 0) sampleRun sampleLeader =
      (sampleLeader\<lparr>mg_raft := Some (fsmSetConfig NewFSM (runKey (rr_id sampleRun)) ''R'')\<rparr>, None)"
    using put_committed [OF sample_json sample_fsm(1,2) key_utf8(2) [OF sample_utf8(4)], of "''R''"] by (simp add: PutRun_def sample_fsm sample_utf8 e)
  moreover from store_ok_op [OF store_op.put_run [OF p sample_utf8(2)] sample_json sample_ok]
  have "store_ok sampleWire (sampleLeader\<lparr>mg_raft := Some (fsmSetConfig NewFSM (runKey (rr_id sampleRun)) ''R'')\<rparr>)" .
  ultimately show ?thesis by (simp add: taskLeader_def sampleLeader_def)
qed

lemma deleteKeys_committed:
  assumes "json_ok W" "mg_raft m = Some f" "fsm_ok f" "\<forall>k\<in>set ks. valid_utf8 k"
  shows "\<exists>m'. deleteKeys W (\<lambda>_. Committed i t) ks m = (m', None)"
  using assms
proof (induction ks arbitrary: m f)
  case (Cons k ks)
  have "\<exists>m'. deleteKeys W (\<lambda>_. Committed i t) ks (m\<lparr>mg_raft := Some (fsmDeleteConfig f k)\<rparr>) = (m', None)"
    by (rule Cons.IH [of _ "fsmDeleteConfig f k"]) (use Cons.prems cfg.ok_del in auto)
  then show ?case using delete_committed [OF Cons.prems(1-3)] Cons.prems(4) by simp
qed simp

lemma PruneRuns_committed:
  assumes "json_ok W" "store_ok W m" "taskLeader m"
  shows "\<exists>m'. PruneRuns W now (\<lambda>_. Committed i t) keep m = (m', None)"
proof -
  obtain f where f: "mg_raft m = Some f" using assms(3) by (auto simp: taskLeader_def)
  let ?m = "m\<lparr>mg_taskRevWritten := map_option (fmfilter (inGrace now (mg_taskRevWritten m))) (mg_taskRevWritten m)\<rparr>"
  obtain ks where ks: "set ks = dropKeys W now keep m f" and d: "PruneRuns W now (\<lambda>_. Committed i t) keep m = deleteKeys W (\<lambda>_. Committed i t) ks ?m"
    using f assms(3) by (simp add: PruneRuns_def dropKeys_def Let_def) (metis set_append set_sort)
  have "valid_utf8 k" if "k \<in> set ks" for k
    using that store_okD(1,2) [OF assms(2)] by (auto simp: ks dropKeys_iff [OF f store_okD(1) [OF assms(2)]] storeKey_def Let_def)
  then show ?thesis using deleteKeys_committed [OF assms(1), of ?m f ks i t] f store_okD(1) [OF assms(2)] d by (auto simp: mgr_ok_def)
qed

theorem store_op_frame_witness:
  "\<exists>m. PutRun sampleWire (Committed 1 0) sampleRun sampleLeader = (m, None) \<and> stored m ''jwt_secret'' = stored sampleLeader ''jwt_secret''"
proof -
  obtain m where m: "PutRun sampleWire (Committed 1 0) sampleRun sampleLeader = (m, None)" using sample_PutRun by blast
  have "\<not> storeKey ''jwt_secret''" by (simp add: storeKey_def has_prefix_def key_defs)
  from store_op_frame [OF store_op.put_run [OF m sample_utf8(2)] sample_json sample_ok this] m show ?thesis by blast
qed

theorem task_names_unique_witness:
  "\<exists>m ts. PutTask sampleWire 9 (Committed 1 0) sampleStored sampleLeader = (m, None) \<and> ListTasks sampleWire m = Inr ts \<and>
     distinct (map td_name ts) \<and> distinct (map td_id ts)"
proof -
  obtain m where m: "PutTask sampleWire 9 (Committed 1 0) sampleStored sampleLeader = (m, None)" using sample_PutTask by blast
  then have s: "(store_step sampleWire)\<^sup>*\<^sup>* sampleLeader m" using store_step.op [OF store_op.put_task [OF m sample_utf8(1)]] by simp
  have "GetTask sampleWire (td_id sampleStored) m = Inr (stampTask 9 sampleStored)"
    using m sample_json sample_ok [THEN store_okD(1)] sample_utf8(1)
  proof (cases rule: PutTask_cases)
    case (written f data)
    have "stored m (taskKey (td_id sampleStored)) = Some data" using writesD(3) [OF written(9)] by simp
    then show ?thesis using json_task [OF sample_json written(7) utf8_stamp [OF sample_utf8(1)]] written(3)
      by (auto simp: GetTask_def taskFSM_def stored_def split: option.splits)
  qed simp
  then obtain ts where ts: "ListTasks sampleWire m = Inr ts" by (auto simp: ListTasks_def GetTask_def split: sum.splits)
  from task_names_unique [OF sample_json sample_fsm(1) s ts] m ts show ?thesis by blast
qed

theorem PutTask_stored_witness:
  "\<exists>m. PutTask sampleWire 9 (Committed 1 0) sampleStored sampleLeader = (m, None) \<and> GetTask sampleWire ''t1'' m = Inr sampleStored"
proof -
  obtain m where m: "PutTask sampleWire 9 (Committed 1 0) sampleStored sampleLeader = (m, None)" using sample_PutTask by blast
  from PutTask_stored [OF m sample_json sample_ok [THEN store_okD(1)] sample_utf8(1)] m show ?thesis
    by (auto simp: sampleStored_def stampTask_def)
qed

theorem PutTaskRevision_stored_witness:
  "\<exists>m. PutTaskRevision sampleWire 9 (Committed 1 0) ''x'' sampleLeader = (m, Inr ''78'') \<and> TaskRevision ''78'' m = Inr ''x''"
proof -
  have id: "revisionID sampleWire ''x'' = ''78''" by (simp add: revisionID_def sampleWire_def hexEncode_def hexDigit_def)
  let ?m = "sampleLeader\<lparr>mg_taskRevWritten := Some (fmupd ''78'' 9 fmempty)\<rparr>"
  have "putTaskValue sampleWire (Committed 1 0) (taskRevKey ''78'') ''x'' ?m = (?m\<lparr>mg_raft := Some (fsmSetConfig NewFSM (taskRevKey ''78'') ''x'')\<rparr>, None)"
    by (rule put_committed [OF sample_json _ sample_fsm(2)]) (simp_all add: sampleLeader_def key_utf8)
  then obtain m where m: "PutTaskRevision sampleWire 9 (Committed 1 0) ''x'' sampleLeader = (m, Inr ''78'')"
    by (auto simp: PutTaskRevision_def sample_fsm Let_def id MaxDocumentBytes_def sampleLeader_def taskLeader_def GetConfigValue_def lookup_opt_def NewFSM_def)
  have "y = ''x''" if "revisionID sampleWire y = revisionID sampleWire ''x''" for y
  proof -
    have "hexDecode (hexEncode y) = hexDecode (hexEncode ''x'')" using that by (simp only: revisionID_def sampleWire_def wire.simps)
    then show ?thesis by simp
  qed
  moreover have "sha256 sampleWire ''x'' \<noteq> []" by (simp add: sampleWire_def)
  moreover have "valid_utf8 ''x''" by simp
  ultimately have "TaskRevision ''78'' m = Inr ''x''" using PutTaskRevision_stored [OF m sample_json sample_ok] by blast
  with m show ?thesis by blast
qed

lemma sample_run_state:
  assumes "mg_raft m = Some (fsmSetConfig NewFSM (runKey (rr_id sampleRun)) ''R'')"
  shows "stored m k = (if k = runKey (rr_id sampleRun) then Some ''R'' else None)"
  using assms cfg.get_put [OF sample_fsm(2)] by (simp add: stored_def GetConfigValue_def lookup_opt_def NewFSM_def)

theorem PutRun_then_GetRun_witness:
  "\<exists>m ns. PutRun sampleWire (Committed 1 0) sampleRun sampleLeader = (m, None) \<and> GetRun sampleWire (rr_id sampleRun) m = Inr (sampleRun, ns)"
proof -
  obtain m where m: "PutRun sampleWire (Committed 1 0) sampleRun sampleLeader = (m, None)" using sample_PutRun by blast
  have "\<exists>rec. dec_run_node sampleWire v = Inr rec" if "stored sampleLeader (runNodeKey (rr_id sampleRun) n) = Some v" for n v
    using that by (simp add: stored_def sample_fsm GetConfigValue_def lookup_opt_def NewFSM_def)
  with PutRun_then_GetRun [OF m sample_json sample_ok [THEN store_okD(1)] sample_utf8(2)] m show ?thesis by blast
qed

lemma sample_GetRun:
  assumes "mg_raft m = Some (fsmSetConfig NewFSM (runKey (rr_id sampleRun)) ''R'')" "mgr_ok m"
  shows "GetRun sampleWire (rr_id sampleRun) m = Inr (sampleRun, fmempty)"
  unfolding GetRun_Inr [OF assms(2) sample_utf8(4)] sample_run_state [OF assms(1)]
  using runNodeKey_ne [OF sample_utf8(4)] by (simp add: sampleWire_def)

theorem PutRunNode_then_GetRun_witness:
  "\<exists>m m'. PutRun sampleWire (Committed 1 0) sampleRun sampleLeader = (m, None) \<and>
     PutRunNode sampleWire (Committed 2 0) (rr_id sampleRun) ''n1'' sampleRunNode m = (m', None) \<and>
     GetRun sampleWire (rr_id sampleRun) m' = Inr (sampleRun, fmupd ''n1'' sampleRunNode fmempty)"
proof -
  obtain m where m: "PutRun sampleWire (Committed 1 0) sampleRun sampleLeader = (m, None)" "store_ok sampleWire m" "taskLeader m"
    "mg_raft m = Some (fsmSetConfig NewFSM (runKey (rr_id sampleRun)) ''R'')" using sample_PutRun by blast
  have mo: "mgr_ok m" by (rule store_okD(1) [OF m(2)])
  have "fsm_ok (fsmSetConfig NewFSM (runKey (rr_id sampleRun)) ''R'')" using cfg.ok_put sample_fsm(2) by blast
  from put_committed [OF sample_json m(4) this key_utf8(4) [OF sample_utf8(4)], of "''n1''" "''N''" 2 0]
  obtain m' where m': "PutRunNode sampleWire (Committed 2 0) (rr_id sampleRun) ''n1'' sampleRunNode m = (m', None)"
    using m(3,4) sample_utf8(4) sample_run_state [OF m(4), of "runKey (rr_id sampleRun)"]
    by (auto simp: PutRunNode_def validNodeSegment_def contains_any_def stored_def sampleWire_def)
  from PutRunNode_then_GetRun [OF m' sample_json mo _ sample_utf8(3)] sample_GetRun [OF m(4) mo] m(1) m' show ?thesis by auto
qed

lemma sample_ListRuns:
  assumes "mg_raft m = Some (fsmSetConfig NewFSM (runKey (rr_id sampleRun)) ''R'')" "mgr_ok m"
  shows "\<exists>runs. ListRuns sampleWire m = Inr runs \<and> sampleRun \<in> set runs"
  using runHeads_iff [OF assms(1,2), of sampleRun sampleWire] sample_run_state [OF assms(1)] run_id_no_slash [OF sample_utf8(4)] assms(1)
  by (auto simp: ListRuns_Inr sampleWire_def)

theorem PruneRuns_keeps_witness:
  "\<exists>m m'. PutRun sampleWire (Committed 1 0) sampleRun sampleLeader = (m, None) \<and>
     PruneRuns sampleWire 9 (\<lambda>_. Committed 2 0) 0 m = (m', None) \<and> GetRun sampleWire (rr_id sampleRun) m' = Inr (sampleRun, fmempty)"
proof -
  obtain m where m: "PutRun sampleWire (Committed 1 0) sampleRun sampleLeader = (m, None)" "store_ok sampleWire m" "taskLeader m"
    "mg_raft m = Some (fsmSetConfig NewFSM (runKey (rr_id sampleRun)) ''R'')" using sample_PutRun by blast
  obtain m' where m': "PruneRuns sampleWire 9 (\<lambda>_. Committed 2 0) 0 m = (m', None)" using PruneRuns_committed [OF sample_json m(2,3)] by blast
  obtain runs where l: "ListRuns sampleWire m = Inr runs" "sampleRun \<in> set runs" using sample_ListRuns [OF m(4) store_okD(1) [OF m(2)]] by blast
  have "Active sampleRun" by (simp add: Active_def sampleRun_def)
  with PruneRuns_keeps [OF m' sample_json m(2) l(1)] l(2) m(1) m' sample_GetRun [OF m(4) store_okD(1) [OF m(2)]] show ?thesis by auto
qed

theorem PruneRuns_drops_witness:
  "\<exists>m m' runs. PutRun sampleWire (Committed 1 0) sampleRun sampleLeader = (m, None) \<and>
     PruneRuns sampleWire 9 (\<lambda>_. Committed 2 0) 0 m = (m', None) \<and> ListRuns sampleWire m = Inr runs \<and> sampleRun \<in> set runs \<and>
     ListRuns sampleWire m' = Inr (keptRuns 0 runs)"
proof -
  obtain m where m: "PutRun sampleWire (Committed 1 0) sampleRun sampleLeader = (m, None)" "store_ok sampleWire m" "taskLeader m"
    "mg_raft m = Some (fsmSetConfig NewFSM (runKey (rr_id sampleRun)) ''R'')" using sample_PutRun by blast
  obtain m' where m': "PruneRuns sampleWire 9 (\<lambda>_. Committed 2 0) 0 m = (m', None)" using PruneRuns_committed [OF sample_json m(2,3)] by blast
  obtain runs where l: "ListRuns sampleWire m = Inr runs" "sampleRun \<in> set runs" using sample_ListRuns [OF m(4) store_okD(1) [OF m(2)]] by blast
  from PruneRuns_drops [OF m' sample_json m(2) l(1)] l m(1) m' show ?thesis by blast
qed

theorem PruneRuns_drops_unreadable_witness:
  "\<exists>m m'. mg_raft m = Some (fsmSetConfig NewFSM (runKey ''r1'') ''newer'') \<and> stored m (runKey ''r1'') = Some ''newer'' \<and>
     PruneRuns sampleWire 9 (\<lambda>_. Committed 2 0) 200 m = (m', None) \<and> stored m' (runKey ''r1'') = None"
proof -
  define m where "m = sampleLeader\<lparr>mg_raft := Some (fsmSetConfig NewFSM (runKey ''r1'') ''newer'')\<rparr>"
  have st: "stored m k = (if k = runKey ''r1'' then Some ''newer'' else None)" for k
    using cfg.get_put [OF sample_fsm(2)] by (simp add: m_def stored_def GetConfigValue_def lookup_opt_def NewFSM_def)
  have mo: "mgr_ok m" using cfg.ok_put [OF sample_fsm(2)] by (simp add: m_def mgr_ok_def)
  have d: "dec_run sampleWire ''newer'' = Inl ''syntax''" by (simp add: sampleWire_def)
  have "valid_utf8 (runKey ''r1'')" by (simp add: key_defs)
  then have ok: "store_ok sampleWire m"
    unfolding store_ok_def taskAt_def st using mo d by (auto simp: has_prefix_keys split: if_splits)
  have "taskLeader m" by (simp add: m_def taskLeader_def sampleLeader_def)
  then obtain m' where m': "PruneRuns sampleWire 9 (\<lambda>_. Committed 2 0) 200 m = (m', None)" using PruneRuns_committed [OF sample_json ok] by blast
  from PruneRuns_drops_unreadable [OF m' sample_json ok _ _ d, of "''r1''"] m' show ?thesis
    by (intro exI [of _ m] exI [of _ m']) (simp add: st, simp add: m_def)
qed

theorem TasksReady_iff_witness:
  "TasksReady ''n1'' fmempty fmempty sampleLeader = []"
  using TasksReady_iff [OF sample_fsm(1), of "''n1''" fmempty fmempty] by (simp add: GetNode_def lookup_opt_def NewFSM_def)

end
