(* ===== verification/Task_Plan.thy ===== *)
theory Task_Plan
  imports Task_Render Store_Safety
begin

text \<open>
  Planning a run: \<^verbatim>\<open>src/internal/feature/tasks/plan.go\<close> and \<^verbatim>\<open>rerun.go\<close>.  What the cluster answers is
  \<open>plan_env\<close>: this node, the nodes, the live health, which nodes report the task capability, which are out of
  reach, the runs of the store and the nodes' verdicts.  The nodes are asked at most sixteen at a time in the code, each
  written to its own entry; the model asks them in order.  The host part of a gRPC address (\<^verbatim>\<open>net.SplitHostPort\<close>,
  \<^verbatim>\<open>net.ParseIP\<close>) is a parameter.  The fields of a plan that the preview handler fills in are left out.
\<close>

section \<open>Data\<close>

definition MaxTargets :: nat where "MaxTargets = 200"
definition groupLabel :: string where "groupLabel = ''group''"

definition LeftUnknown :: string where "LeftUnknown = ''unknown''"
definition LeftOffline :: string where "LeftOffline = ''offline''"
definition LeftOutdated :: string where "LeftOutdated = ''outdated''"
definition LeftUnreachable :: string where "LeftUnreachable = ''unreachable''"
definition LeftBusy :: string where "LeftBusy = ''busy''"

lemmas left_defs = LeftUnknown_def LeftOffline_def LeftOutdated_def LeftUnreachable_def LeftBusy_def

record check_verdict =
  cv_step :: int
  cv_refused :: bool
  cv_code :: string
  cv_reason :: string
  cv_needs_confirm :: bool

record plan_node =
  pn_id :: string
  pn_name :: string
  pn_kind :: string
  pn_leader :: bool
  pn_reason :: string
  pn_run_id :: string
  pn_verdicts :: "check_verdict list"
  pn_check_error :: string

record plan =
  pl_waves :: "plan_node list list"
  pl_left :: "plan_node list"

record plan_env =
  pe_local :: string
  pe_nodes :: "node list"
  pe_health :: "string gomap"
  pe_capable :: "string \<Rightarrow> bool"
  pe_unreachable :: "string \<Rightarrow> bool"
  pe_runs :: "storeError + run_record list"
  pe_check :: "string \<Rightarrow> job_spec list \<Rightarrow> string \<Rightarrow> string + check_verdict list"
  pe_host :: "string \<Rightarrow> string option"

datatype planError = ErrTooManyTargets | PlanStore storeError | PlanRender renderError

section \<open>Ordering\<close>

definition WaveIDs :: "plan \<Rightarrow> string list list" where
  "WaveIDs p = map (map pn_id) (pl_waves p)"

definition NodeIDs :: "plan \<Rightarrow> string list" where
  "NodeIDs p = concat (WaveIDs p)"

definition runBatch :: "task \<Rightarrow> int \<Rightarrow> int" where
  "runBatch t batch = (let b = (if batch < 1 then task_batch t else batch) in if b < 1 then 1 else b)"

definition kindOf :: "node \<Rightarrow> string" where
  "kindOf n = (if IsManager n then KindManager else KindAgent)"

definition targeted :: "node \<Rightarrow> targets \<Rightarrow> bool" where
  "targeted n t =
     (let g = (case lookup_opt (node_labels n) groupLabel of None \<Rightarrow> [] | Some g \<Rightarrow> g) in
      if g \<noteq> [] \<and> contains_opt (tgt_groups t) g then True
      else contains_opt (tgt_kinds t) (kindOf n) \<or> contains_opt (tgt_nodes t) (node_id n))"

fun heldBy :: "run_record list \<Rightarrow> string gomap \<Rightarrow> string gomap" where
  "heldBy [] held = held"
| "heldBy (r # rs) held = heldBy rs (if Active r then foldl (\<lambda>h i. fmupd i (rr_id r) h) held (rr_nodes r) else held)"

definition heldNodes :: "storeError + run_record list \<Rightarrow> storeError + string gomap" where
  "heldNodes runs = (case runs of Inl e \<Rightarrow> Inl e | Inr rs \<Rightarrow> Inr (heldBy rs fmempty))"

definition sortPlanNodes :: "plan_node list \<Rightarrow> plan_node list" where
  "sortPlanNodes s = sort_key (\<lambda>n. (pn_name n, pn_id n)) s"

definition heldRun :: "string gomap \<Rightarrow> string \<Rightarrow> string" where
  "heldRun held i = (case fmlookup held i of None \<Rightarrow> [] | Some r \<Rightarrow> r)"

definition planNode :: "plan_env \<Rightarrow> string gomap \<Rightarrow> node \<Rightarrow> plan_node" where
  "planNode env held n =
     (let pn = \<lparr>pn_id = node_id n, pn_name = node_name n, pn_kind = kindOf n, pn_leader = (node_id n = pe_local env),
                pn_reason = [], pn_run_id = [], pn_verdicts = [], pn_check_error = []\<rparr>
      in if fmlookup (pe_health env) (node_id n) \<noteq> Some StatusOnline then pn\<lparr>pn_reason := LeftOffline\<rparr>
         else if \<not> pe_capable env (node_id n) then pn\<lparr>pn_reason := LeftOutdated\<rparr>
         else if pe_unreachable env (node_id n) then pn\<lparr>pn_reason := LeftUnreachable\<rparr>
         else if heldRun held (node_id n) \<noteq> [] then pn\<lparr>pn_reason := LeftBusy, pn_run_id := heldRun held (node_id n)\<rparr>
         else pn)"

text \<open>The loop over the chosen nodes: those left out, the leader, the managers and the agents.\<close>

fun sortOut :: "plan_env \<Rightarrow> string gomap \<Rightarrow> node list \<Rightarrow>
    plan_node list \<times> plan_node option \<times> plan_node list \<times> plan_node list \<Rightarrow>
    plan_node list \<times> plan_node option \<times> plan_node list \<times> plan_node list" where
  "sortOut env held [] acc = acc"
| "sortOut env held (n # ns) (left, leader, managers, agents) =
     (let pn = planNode env held n in
      sortOut env held ns
        (if pn_reason pn \<noteq> [] then (left @ [pn], leader, managers, agents)
         else if pn_leader pn then (left, Some pn, managers, agents)
         else if IsManager n then (left, leader, managers @ [pn], agents)
         else (left, leader, managers, agents @ [pn])))"

text \<open>Cutting the agents into waves; with a batch below one the loop would not end.\<close>

partial_function (option) agentWaves :: "int \<Rightarrow> plan_node list \<Rightarrow> plan_node list list option" where
  "agentWaves batch agents =
     (if agents = [] then Some []
      else Option.bind (agentWaves batch (drop (nat (min batch (int (length agents)))) agents))
             (\<lambda>ws. Some (take (nat (min batch (int (length agents)))) agents # ws)))"

definition orderRun :: "plan_env \<Rightarrow> targets \<Rightarrow> int \<Rightarrow> (planError + plan \<times> (string \<rightharpoonup> node)) option" where
  "orderRun env targets batch =
     (let byID = map_of (rev (map (\<lambda>n. (node_id n, n)) (pe_nodes env)));
          chosen = filter (\<lambda>n. targeted n targets) (pe_nodes env);
          unknown = map (\<lambda>i. \<lparr>pn_id = i, pn_name = i, pn_kind = [], pn_leader = False, pn_reason = LeftUnknown, pn_run_id = [],
                              pn_verdicts = [], pn_check_error = []\<rparr>)
                      (filter (\<lambda>i. byID i = None) (case tgt_nodes targets of None \<Rightarrow> [] | Some l \<Rightarrow> l))
      in if length chosen > MaxTargets then Some (Inl ErrTooManyTargets)
         else (case heldNodes (pe_runs env) of
            Inl e \<Rightarrow> Some (Inl (PlanStore e))
          | Inr held \<Rightarrow>
              (case sortOut env held chosen (unknown, None, [], []) of (left, leader, managers, agents) \<Rightarrow>
                (case agentWaves batch (sortPlanNodes agents) of
                   None \<Rightarrow> None
                 | Some ws \<Rightarrow> Some (Inr
                     (\<lparr>pl_waves = ws @ map (\<lambda>m. [m]) (sortPlanNodes managers) @ (case leader of None \<Rightarrow> [] | Some l \<Rightarrow> [[l]]),
                       pl_left = sortPlanNodes left\<rparr>, byID))))))"

section \<open>Verdicts\<close>

definition AllAddresses :: "(string \<Rightarrow> string option) \<Rightarrow> node \<Rightarrow> string list" where
  "AllAddresses host n =
     foldl (\<lambda>out a. if a \<in> set out then out else out @ [a])
       (case host (node_grpc_address n) of None \<Rightarrow> [] | Some h \<Rightarrow> [h])
       (case node_addresses n of None \<Rightarrow> [] | Some l \<Rightarrow> l)"

definition nodeVarsOf :: "(string \<Rightarrow> string option) \<Rightarrow> node \<Rightarrow> nodeVars" where
  "nodeVarsOf host n = \<lparr>nv_name = node_name n, nv_address = (case AllAddresses host n of [] \<Rightarrow> [] | a # _ \<Rightarrow> a)\<rparr>"

text \<open>A node that is in no map reads as the zero \<^verbatim>\<open>cluster.Node\<close>.\<close>

definition zeroNode :: node where
  "zeroNode = \<lparr>node_id = [], node_name = [], node_api_address = [], node_grpc_address = [], node_addresses = None, node_role = [],
     node_kind = [], node_status = [], node_labels = None, node_joined_at = 0, node_last_seen = 0\<rparr>"

definition nodeOf :: "(string \<rightharpoonup> node) \<Rightarrow> string \<Rightarrow> node" where
  "nodeOf byID i = (case byID i of None \<Rightarrow> zeroNode | Some n \<Rightarrow> n)"

definition renderPlan :: "(string \<Rightarrow> string option) \<Rightarrow> task \<Rightarrow> (string \<rightharpoonup> string) \<Rightarrow> (string \<rightharpoonup> node) \<Rightarrow> plan \<Rightarrow>
    renderError + (plan_node \<times> job_spec list) list list" where
  "renderPlan host t inputs byID plan =
     map_result (map_result (\<lambda>pn. case Render t inputs (nodeVarsOf host (nodeOf byID (pn_id pn))) of
        Inl e \<Rightarrow> Inl e | Inr specs \<Rightarrow> Inr (pn, specs))) (pl_waves plan)"

definition checkNode :: "plan_env \<Rightarrow> string \<Rightarrow> plan_node \<times> job_spec list \<Rightarrow> plan_node" where
  "checkNode env username j = (case j of (pn, specs) \<Rightarrow>
     (case pe_check env (pn_id pn) specs username of
        Inl e \<Rightarrow> pn\<lparr>pn_check_error := e\<rparr> | Inr v \<Rightarrow> pn\<lparr>pn_verdicts := v\<rparr>))"

definition checkPlan :: "plan_env \<Rightarrow> task \<Rightarrow> (string \<rightharpoonup> string) \<Rightarrow> (string \<rightharpoonup> node) \<Rightarrow> plan \<Rightarrow> string \<Rightarrow> planError + plan" where
  "checkPlan env t inputs byID plan username = (case renderPlan (pe_host env) t inputs byID plan of
     Inl e \<Rightarrow> Inl (PlanRender e)
   | Inr jobs \<Rightarrow> Inr (plan\<lparr>pl_waves := map (map (checkNode env username)) jobs\<rparr>))"

definition planRun :: "plan_env \<Rightarrow> task \<Rightarrow> targets \<Rightarrow> (string \<rightharpoonup> string) \<Rightarrow> int \<Rightarrow> string \<Rightarrow> (planError + plan) option" where
  "planRun env t targets inputs batch username = (case orderRun env targets (runBatch t batch) of
     None \<Rightarrow> None
   | Some (Inl e) \<Rightarrow> Some (Inl e)
   | Some (Inr (plan, byID)) \<Rightarrow> Some (checkPlan env t inputs byID plan username))"

section \<open>Running again\<close>

fun firstUnsuccessfulFrom :: "int \<Rightarrow> run_step_record list \<Rightarrow> int" where
  "firstUnsuccessfulFrom i [] = 0"
| "firstUnsuccessfulFrom i (s # ss) = (if sr_status s \<noteq> RunStepSucceeded then i else firstUnsuccessfulFrom (i + 1) ss)"

definition firstUnsuccessful :: "run_node_record \<Rightarrow> int" where
  "firstUnsuccessful rec = firstUnsuccessfulFrom 0 (nr_steps rec)"

definition zeroRunNode :: run_node_record where
  "zeroRunNode = \<lparr>nr_status = [], nr_reason = [], nr_reason_details = fmempty, nr_steps = [], nr_host = [], nr_ip = [], nr_name = [],
     nr_group = [], nr_node_id = [], nr_sfpanel_before = False, nr_awaiting = [], nr_host_key = [], nr_check_url = [], nr_host_key_tailscale = []\<rparr>"

definition recOf :: "run_node_record gomap \<Rightarrow> string \<Rightarrow> run_node_record" where
  "recOf recs i = (case fmlookup recs i of None \<Rightarrow> zeroRunNode | Some r \<Rightarrow> r)"

definition rerunWaves :: "run_record \<Rightarrow> string list \<Rightarrow> string list list" where
  "rerunWaves src only = filter (\<lambda>w. w \<noteq> []) (map (filter (\<lambda>i. i \<in> set only)) (rr_waves src))"

definition rerunFrom :: "run_record \<Rightarrow> run_node_record gomap \<Rightarrow> string list \<Rightarrow> run_record \<times> int gomap" where
  "rerunFrom src nodes only =
     (let order = concat (rerunWaves src only);
          startAt = foldl (\<lambda>m i. fmupd i (firstUnsuccessful (recOf nodes i)) m) fmempty order
      in (\<lparr>rr_id = [], rr_kind = [], rr_task_id = rr_task_id src, rr_task_name = rr_task_name src, rr_rev = rr_rev src, rr_inputs = rr_inputs src,
           rr_nodes = order, rr_waves = rerunWaves src only, rr_confirmed = rr_confirmed src, rr_batch = rr_batch src,
           rr_stop_on_failure = rr_stop_on_failure src, rr_status = RunRunning, rr_reason = [], rr_force = False, rr_stopped_by = [],
           rr_started_by = [], rr_started_at = 0, rr_ended_at = 0, rr_rerun_of = rr_id src, rr_start_at = startAt, rr_credentials_until = 0\<rparr>,
          startAt))"

section \<open>The loops return\<close>

lemma agentWaves_Nil [simp]: "agentWaves batch [] = Some []"
  by (simp add: agentWaves.simps)

lemma agentWaves_cut:
  assumes "1 \<le> batch"
  shows "\<exists>ws. agentWaves batch agents = Some ws \<and> concat ws = agents \<and> (\<forall>w\<in>set ws. w \<noteq> [] \<and> int (length w) \<le> batch)"
proof (induction agents rule: length_induct)
  case (1 agents)
  show ?case
  proof (cases "agents = []")
    case False
    let ?k = "nat (min batch (int (length agents)))"
    have "length (drop ?k agents) < length agents" using False assms by simp
    then obtain ws where ws: "agentWaves batch (drop ?k agents) = Some ws" "concat ws = drop ?k agents"
      "\<forall>w\<in>set ws. w \<noteq> [] \<and> int (length w) \<le> batch" using 1 by blast
    then have "agentWaves batch agents = Some (take ?k agents # ws)" using False by (subst agentWaves.simps) simp
    moreover have "take ?k agents \<noteq> []" using False assms by (simp add: min_def)
    ultimately show ?thesis using ws assms by (intro exI [of _ "take ?k agents # ws"]) auto
  qed simp
qed

lemma runBatch_pos: "1 \<le> runBatch t batch"
  by (simp add: runBatch_def Let_def)

lemma orderRun_returns: "1 \<le> batch \<Longrightarrow> \<exists>r. orderRun env targets batch = Some r"
proof -
  assume "1 \<le> batch"
  then have "\<exists>g. \<forall>xs. agentWaves batch xs = Some (g xs)" using agentWaves_cut [of batch] by metis
  then obtain g where g: "\<And>xs. agentWaves batch xs = Some (g xs)" by blast
  have "orderRun env targets batch \<noteq> None" unfolding orderRun_def Let_def by (simp add: g split: sum.split prod.split)
  then show ?thesis by blast
qed

text \<open>Planning always returns, whatever batch the operator or the task gave.\<close>

theorem planRun_returns: "\<exists>r. planRun env t targets inputs batch username = Some r"
  using orderRun_returns [OF runBatch_pos, of env targets t batch] by (auto simp: planRun_def split: sum.split)

section \<open>Who is in the plan, and in which order\<close>

definition ready :: "plan_env \<Rightarrow> string gomap \<Rightarrow> node \<Rightarrow> bool" where
  "ready env held n \<longleftrightarrow> fmlookup (pe_health env) (node_id n) = Some StatusOnline \<and> pe_capable env (node_id n) \<and>
     \<not> pe_unreachable env (node_id n) \<and> heldRun held (node_id n) = []"

lemma planNode_simps [simp]:
  "pn_id (planNode env held n) = node_id n" "pn_leader (planNode env held n) \<longleftrightarrow> node_id n = pe_local env"
  "pn_kind (planNode env held n) = kindOf n" "pn_name (planNode env held n) = node_name n"
  by (simp_all add: planNode_def Let_def)

lemma planNode_reason: "pn_reason (planNode env held n) = [] \<longleftrightarrow> ready env held n"
  by (simp add: planNode_def ready_def Let_def left_defs)

lemma sortOut_result:
  "sortOut env held ns (left, leader, managers, agents) =
     (left @ map (planNode env held) (filter (\<lambda>n. \<not> ready env held n) ns),
      (case filter (\<lambda>n. ready env held n \<and> node_id n = pe_local env) ns of [] \<Rightarrow> leader | xs \<Rightarrow> Some (planNode env held (last xs))),
      managers @ map (planNode env held) (filter (\<lambda>n. ready env held n \<and> node_id n \<noteq> pe_local env \<and> IsManager n) ns),
      agents @ map (planNode env held) (filter (\<lambda>n. ready env held n \<and> node_id n \<noteq> pe_local env \<and> \<not> IsManager n) ns))"
  by (induction ns arbitrary: left leader managers agents)
    (auto simp: planNode_reason Let_def split: list.split)

lemma distinct_filter_one:
  assumes "distinct (map f xs)"
  shows "length (filter (\<lambda>x. P x \<and> f x = a) xs) \<le> 1"
  using assms
proof (induction xs)
  case (Cons x xs)
  then have "filter (\<lambda>y. P y \<and> f y = f x) xs = []" by (auto simp: filter_empty_conv image_iff)
  then show ?case using Cons by auto
qed simp

lemma orderRunE:
  assumes o: "orderRun env targets batch = Some (Inr (plan, byID))" and b: "1 \<le> batch"
    and d: "distinct (map node_id (pe_nodes env))" and h: "heldNodes (pe_runs env) = Inr held"
  obtains ws ls where "pl_waves plan = ws @ map (\<lambda>n. [n]) (sortPlanNodes (map (planNode env held)
        (filter (\<lambda>n. targeted n targets \<and> ready env held n \<and> node_id n \<noteq> pe_local env \<and> IsManager n) (pe_nodes env)))) @ map (\<lambda>n. [n]) ls"
    "concat ws = sortPlanNodes (map (planNode env held)
        (filter (\<lambda>n. targeted n targets \<and> ready env held n \<and> node_id n \<noteq> pe_local env \<and> \<not> IsManager n) (pe_nodes env)))"
    "\<forall>w\<in>set ws. w \<noteq> [] \<and> int (length w) \<le> batch"
    "ls = map (planNode env held) (filter (\<lambda>n. targeted n targets \<and> ready env held n \<and> node_id n = pe_local env) (pe_nodes env))" "length ls \<le> 1"
    "length (filter (\<lambda>n. targeted n targets) (pe_nodes env)) \<le> MaxTargets"
    "byID = map_of (rev (map (\<lambda>n. (node_id n, n)) (pe_nodes env)))"
    "pn_id ` set (pl_left plan) = node_id ` {n \<in> set (pe_nodes env). targeted n targets \<and> \<not> ready env held n} \<union>
        {i. contains_opt (tgt_nodes targets) i \<and> i \<notin> node_id ` set (pe_nodes env)}"
proof -
  let ?m = "sortPlanNodes (map (planNode env held) (filter (\<lambda>n. targeted n targets \<and> ready env held n \<and> node_id n \<noteq> pe_local env \<and> IsManager n) (pe_nodes env)))"
  let ?a = "sortPlanNodes (map (planNode env held) (filter (\<lambda>n. targeted n targets \<and> ready env held n \<and> node_id n \<noteq> pe_local env \<and> \<not> IsManager n) (pe_nodes env)))"
  define L where "L = filter (\<lambda>n. targeted n targets \<and> ready env held n \<and> node_id n = pe_local env) (pe_nodes env)"
  have L1: "length L \<le> 1" using distinct_filter_one [OF d, of "\<lambda>n. targeted n targets \<and> ready env held n"] by (simp add: L_def conj_assoc)
  obtain ws where ws: "agentWaves batch ?a = Some ws" "concat ws = ?a" "\<forall>w\<in>set ws. w \<noteq> [] \<and> int (length w) \<le> batch"
    using agentWaves_cut [OF b, of ?a] by blast
  have lead: "(case filter (\<lambda>n. targeted n targets \<and> ready env held n \<and> node_id n = pe_local env) (pe_nodes env) of
      [] \<Rightarrow> None | xs \<Rightarrow> Some (planNode env held (last xs))) = (case L of [] \<Rightarrow> None | x # _ \<Rightarrow> Some (planNode env held x))"
    using L1 by (auto simp: L_def [symmetric] split: list.split)
  have c: "\<not> length (filter (\<lambda>n. targeted n targets) (pe_nodes env)) > MaxTargets"
    using o by (auto simp: orderRun_def Let_def split: if_splits)
  have dom: "map_of (rev (map (\<lambda>n. (node_id n, n)) (pe_nodes env))) i = None \<longleftrightarrow> i \<notin> node_id ` set (pe_nodes env)" for i
    by (simp add: map_of_eq_None_iff image_image)
  have p: "pl_waves plan = ws @ map (\<lambda>n. [n]) ?m @ map (\<lambda>n. [n]) (map (planNode env held) L)"
    "pl_left plan = sortPlanNodes (map (\<lambda>i. \<lparr>pn_id = i, pn_name = i, pn_kind = [], pn_leader = False, pn_reason = LeftUnknown, pn_run_id = [],
                              pn_verdicts = [], pn_check_error = []\<rparr>)
        (filter (\<lambda>i. map_of (rev (map (\<lambda>n. (node_id n, n)) (pe_nodes env))) i = None) (case tgt_nodes targets of None \<Rightarrow> [] | Some l \<Rightarrow> l)) @
        map (planNode env held) (filter (\<lambda>n. targeted n targets \<and> \<not> ready env held n) (pe_nodes env)))"
    "byID = map_of (rev (map (\<lambda>n. (node_id n, n)) (pe_nodes env)))"
    using o c h ws L1
    by (auto simp: orderRun_def Let_def sortOut_result lead conj_commute conj_left_commute length_Suc_conv le_Suc_eq split: list.splits)
  have "pn_id ` set (pl_left plan) = node_id ` {n \<in> set (pe_nodes env). targeted n targets \<and> \<not> ready env held n} \<union>
        {i. contains_opt (tgt_nodes targets) i \<and> i \<notin> node_id ` set (pe_nodes env)}"
    unfolding p(2) sortPlanNodes_def by (auto simp: dom image_Un image_image contains_opt_def split: option.splits)
  then show thesis using that [OF p(1) ws(2,3), of] p L1 c by (simp add: L_def)
qed

lemma sortPlanNodes_set [simp]: "set (sortPlanNodes xs) = set xs" "distinct (map f (sortPlanNodes xs)) = distinct (map f xs)"
  "length (sortPlanNodes xs) = length xs"
  by (simp_all add: sortPlanNodes_def distinct_map_sort)

lemma distinct_map_node: "distinct (map node_id xs) \<Longrightarrow> distinct (map pn_id (map (planNode env held) (filter P xs)))"
  by (simp add: comp_def distinct_map_filter)

lemma NodeIDs_split:
  assumes "pl_waves plan = ws @ map (\<lambda>n. [n]) ms @ map (\<lambda>n. [n]) ls"
  shows "NodeIDs plan = map pn_id (concat ws) @ map pn_id ms @ map pn_id ls"
proof -
  have one: "concat (map (map pn_id) (map (\<lambda>n. [n]) xs)) = map pn_id xs" for xs :: "plan_node list" by (induction xs) auto
  show ?thesis by (simp only: NodeIDs_def WaveIDs_def assms map_append concat_append one) (simp add: map_concat)
qed

text \<open>A plan takes each targeted node exactly once when it is online, reports the task capability, is within reach and is in no run
  under way, at most \<open>MaxTargets\<close> of them; every other target, and every ID that no node has, is listed as left out.\<close>

theorem orderRun_targets:
  assumes "orderRun env targets batch = Some (Inr (plan, byID))" "1 \<le> batch" "distinct (map node_id (pe_nodes env))"
    "heldNodes (pe_runs env) = Inr held"
  shows "distinct (NodeIDs plan) \<and> length (NodeIDs plan) \<le> MaxTargets \<and>
    set (NodeIDs plan) = node_id ` {n \<in> set (pe_nodes env). targeted n targets \<and> ready env held n} \<and>
    pn_id ` set (pl_left plan) = node_id ` {n \<in> set (pe_nodes env). targeted n targets \<and> \<not> ready env held n} \<union>
      {i. contains_opt (tgt_nodes targets) i \<and> i \<notin> node_id ` set (pe_nodes env)}"
proof -
  let ?f = "\<lambda>P. filter (\<lambda>n. targeted n targets \<and> ready env held n \<and> P n) (pe_nodes env)"
  from assms obtain ws ls where o: "pl_waves plan = ws @ map (\<lambda>n. [n]) (sortPlanNodes (map (planNode env held) (?f (\<lambda>n. node_id n \<noteq> pe_local env \<and> IsManager n)))) @ map (\<lambda>n. [n]) ls"
    "concat ws = sortPlanNodes (map (planNode env held) (?f (\<lambda>n. node_id n \<noteq> pe_local env \<and> \<not> IsManager n)))"
    "ls = map (planNode env held) (?f (\<lambda>n. node_id n = pe_local env))"
    "length (filter (\<lambda>n. targeted n targets) (pe_nodes env)) \<le> MaxTargets"
    "pn_id ` set (pl_left plan) = node_id ` {n \<in> set (pe_nodes env). targeted n targets \<and> \<not> ready env held n} \<union>
        {i. contains_opt (tgt_nodes targets) i \<and> i \<notin> node_id ` set (pe_nodes env)}"
    by (rule orderRunE)
  have ids: "NodeIDs plan = map pn_id (concat ws) @ map pn_id (sortPlanNodes (map (planNode env held) (?f (\<lambda>n. node_id n \<noteq> pe_local env \<and> IsManager n)))) @ map pn_id ls"
    using o(1) by (rule NodeIDs_split)
  have inj: "n = n'" if "n \<in> set (pe_nodes env)" "n' \<in> set (pe_nodes env)" "node_id n = node_id n'" for n n'
    using assms(3) that by (auto simp: distinct_map dest: inj_onD)
  have dist: "distinct (NodeIDs plan)"
    unfolding ids o(2,3) distinct_append set_append
  proof (intro conjI)
    show "set (map pn_id (sortPlanNodes (map (planNode env held) (?f (\<lambda>n. node_id n \<noteq> pe_local env \<and> \<not> IsManager n))))) \<inter>
        (set (map pn_id (sortPlanNodes (map (planNode env held) (?f (\<lambda>n. node_id n \<noteq> pe_local env \<and> IsManager n))))) \<union>
         set (map pn_id (map (planNode env held) (?f (\<lambda>n. node_id n = pe_local env))))) = {}"
      by (auto simp: image_image) (metis inj)
    show "set (map pn_id (sortPlanNodes (map (planNode env held) (?f (\<lambda>n. node_id n \<noteq> pe_local env \<and> IsManager n))))) \<inter>
         set (map pn_id (map (planNode env held) (?f (\<lambda>n. node_id n = pe_local env)))) = {}" by (auto simp: image_image)
  qed (simp_all only: sortPlanNodes_set distinct_map_node [OF assms(3)])
  moreover have st: "set (NodeIDs plan) = node_id ` {n \<in> set (pe_nodes env). targeted n targets \<and> ready env held n}"
    unfolding ids o(2,3) by (auto simp: image_image image_iff) metis
  moreover have "length (NodeIDs plan) \<le> MaxTargets"
  proof -
    have "length (NodeIDs plan) = card (node_id ` {n \<in> set (pe_nodes env). targeted n targets \<and> ready env held n})"
      using distinct_card [OF dist] by (simp add: st)
    also have "\<dots> \<le> card (set (filter (\<lambda>n. targeted n targets) (pe_nodes env)))"
      by (rule order_trans [OF card_image_le card_mono]) auto
    also have "\<dots> \<le> length (filter (\<lambda>n. targeted n targets) (pe_nodes env))" by (rule card_length)
    finally show ?thesis using o(4) by simp
  qed
  ultimately show ?thesis using o(5) by blast
qed

text \<open>C27: agents go first, at most a batch of them at a time, then every other manager alone, then the leader alone and last; agents and
  managers each by name, then ID.\<close>

theorem orderRun_order:
  assumes "orderRun env targets batch = Some (Inr (plan, byID))" "1 \<le> batch" "distinct (map node_id (pe_nodes env))"
    "heldNodes (pe_runs env) = Inr held"
  shows "\<exists>ws ms ls. pl_waves plan = ws @ map (\<lambda>n. [n]) ms @ map (\<lambda>n. [n]) ls \<and> length ls \<le> 1 \<and>
    (\<forall>w\<in>set ws. w \<noteq> [] \<and> int (length w) \<le> batch \<and> (\<forall>n\<in>set w. pn_kind n = KindAgent \<and> \<not> pn_leader n)) \<and>
    (\<forall>n\<in>set ms. pn_kind n = KindManager \<and> \<not> pn_leader n) \<and> (\<forall>n\<in>set ls. pn_leader n) \<and>
    sorted (map (\<lambda>n. (pn_name n, pn_id n)) (concat ws)) \<and> sorted (map (\<lambda>n. (pn_name n, pn_id n)) ms)"
  using assms
proof (rule orderRunE)
  fix ws ls
  let ?ms = "sortPlanNodes (map (planNode env held) (filter (\<lambda>n. targeted n targets \<and> ready env held n \<and> node_id n \<noteq> pe_local env \<and> IsManager n) (pe_nodes env)))"
  assume o: "pl_waves plan = ws @ map (\<lambda>n. [n]) ?ms @ map (\<lambda>n. [n]) ls"
    "concat ws = sortPlanNodes (map (planNode env held) (filter (\<lambda>n. targeted n targets \<and> ready env held n \<and> node_id n \<noteq> pe_local env \<and> \<not> IsManager n) (pe_nodes env)))"
    "\<forall>w\<in>set ws. w \<noteq> [] \<and> int (length w) \<le> batch"
    "ls = map (planNode env held) (filter (\<lambda>n. targeted n targets \<and> ready env held n \<and> node_id n = pe_local env) (pe_nodes env))" "length ls \<le> 1"
  have "pn_kind n = KindAgent \<and> \<not> pn_leader n" if "w \<in> set ws" "n \<in> set w" for w n
  proof -
    have "n \<in> set (concat ws)" using that by auto
    then show ?thesis unfolding o(2) by (auto simp: kindOf_def)
  qed
  moreover have "\<forall>n\<in>set ?ms. pn_kind n = KindManager \<and> \<not> pn_leader n" by (auto simp: kindOf_def)
  moreover have "\<forall>n\<in>set ls. pn_leader n" using o(4) by auto
  ultimately show ?thesis using o(1,3,5)
    by (intro exI [of _ ws] exI [of _ ?ms] exI [of _ ls]) (auto simp: o(2) sortPlanNodes_def)
qed

section \<open>A node is in one run at a time\<close>

lemma heldBy_fold: "fmlookup (foldl (\<lambda>h i. fmupd i r h) held ids) j = (if j \<in> set ids then Some r else fmlookup held j)"
  by (induction ids arbitrary: held) auto

lemma heldBy_some:
  "(\<exists>r\<in>set rs. Active r \<and> j \<in> set (rr_nodes r)) \<or> fmlookup held j \<noteq> None \<Longrightarrow>
   \<exists>x. fmlookup (heldBy rs held) j = Some x \<and> (x \<in> rr_id ` {r \<in> set rs. Active r} \<or> fmlookup held j = Some x)"
proof (induction rs arbitrary: held)
  case (Cons r rs)
  let ?h = "if Active r then foldl (\<lambda>h i. fmupd i (rr_id r) h) held (rr_nodes r) else held"
  have "(\<exists>r\<in>set rs. Active r \<and> j \<in> set (rr_nodes r)) \<or> fmlookup ?h j \<noteq> None"
    using Cons.prems by (auto simp: heldBy_fold)
  from Cons.IH [OF this] show ?case by (auto simp: heldBy_fold split: if_splits)
qed auto

text \<open>C17: no node is planned into a run while another run under way has it.\<close>

theorem orderRun_exclusive:
  assumes "orderRun env targets batch = Some (Inr (plan, byID))" "1 \<le> batch" "distinct (map node_id (pe_nodes env))"
    "pe_runs env = Inr runs" "\<forall>r\<in>set runs. rr_id r \<noteq> []" "r \<in> set runs" "Active r"
  shows "set (NodeIDs plan) \<inter> set (rr_nodes r) = {}"
proof -
  let ?held = "heldBy runs fmempty"
  let ?f = "\<lambda>P. filter (\<lambda>n. targeted n targets \<and> ready env ?held n \<and> P n) (pe_nodes env)"
  have h: "heldNodes (pe_runs env) = Inr ?held" using assms(4) by (simp add: heldNodes_def)
  from assms(1-3) h obtain ws ls where o: "pl_waves plan = ws @ map (\<lambda>n. [n]) (sortPlanNodes (map (planNode env ?held) (?f (\<lambda>n. node_id n \<noteq> pe_local env \<and> IsManager n)))) @ map (\<lambda>n. [n]) ls"
    "concat ws = sortPlanNodes (map (planNode env ?held) (?f (\<lambda>n. node_id n \<noteq> pe_local env \<and> \<not> IsManager n)))"
    "ls = map (planNode env ?held) (?f (\<lambda>n. node_id n = pe_local env))"
    by (rule orderRunE)
  have free: "heldRun ?held i = []" if "i \<in> set (NodeIDs plan)" for i
    using that unfolding NodeIDs_split [OF o(1)] o(2,3) by (auto simp: image_image ready_def)
  have "heldRun ?held i \<noteq> []" if "i \<in> set (rr_nodes r)" for i
  proof -
    have "\<exists>r\<in>set runs. Active r \<and> i \<in> set (rr_nodes r)" using that assms(6,7) by blast
    then obtain x where "fmlookup ?held i = Some x" "x \<in> rr_id ` {r \<in> set runs. Active r}" using heldBy_some [of runs i fmempty] by auto
    then show ?thesis using assms(5) by (auto simp: heldRun_def)
  qed
  then show ?thesis using free by blast
qed

section \<open>Running again\<close>

lemma firstUnsuccessfulFrom_spec:
  "(if \<forall>s\<in>set ss. sr_status s = RunStepSucceeded then firstUnsuccessfulFrom i ss = 0
    else \<exists>j < length ss. firstUnsuccessfulFrom i ss = i + int j \<and> sr_status (ss ! j) \<noteq> RunStepSucceeded \<and> (\<forall>k < j. sr_status (ss ! k) = RunStepSucceeded))"
proof (induction ss arbitrary: i)
  case (Cons s ss)
  show ?case
  proof (cases "sr_status s = RunStepSucceeded")
    case True
    show ?thesis
    proof (cases "\<forall>s\<in>set ss. sr_status s = RunStepSucceeded")
      case False
      then obtain j where j: "j < length ss" "firstUnsuccessfulFrom (i + 1) ss = i + 1 + int j" "sr_status (ss ! j) \<noteq> RunStepSucceeded"
        "\<forall>k < j. sr_status (ss ! k) = RunStepSucceeded" using Cons.IH [of "i + 1"] by (simp only: if_False) blast
      have "\<exists>j < length (s # ss). firstUnsuccessfulFrom i (s # ss) = i + int j \<and> sr_status ((s # ss) ! j) \<noteq> RunStepSucceeded \<and>
          (\<forall>k < j. sr_status ((s # ss) ! k) = RunStepSucceeded)"
        by (rule exI [of _ "Suc j"]) (use j True in \<open>auto simp: less_Suc_eq_0_disj\<close>)
      moreover have "\<not> (\<forall>x\<in>set (s # ss). sr_status x = RunStepSucceeded)" using False by auto
      ultimately show ?thesis by (simp only: if_False)
    qed (use True Cons.IH [of "i + 1"] in auto)
  qed (auto intro!: exI [of _ 0])
qed simp

lemma startAt_fold: "fmlookup (foldl (\<lambda>m i. fmupd i (g i) m) m0 ids) j = (if j \<in> set ids then Some (g j) else fmlookup m0 j)"
  by (induction ids arbitrary: m0) auto

text \<open>A rerun runs the chosen nodes that the run had, in the run's own order and waves, from the same document with the same inputs and
  confirmed steps; each node starts at its first step that did not succeed there, or at the first when all did.\<close>

theorem rerunFrom_spec:
  assumes "rerunFrom src nodes only = (r, startAt)"
  shows "rr_nodes r = filter (\<lambda>i. i \<in> set only) (concat (rr_waves src)) \<and> concat (rr_waves r) = rr_nodes r \<and> [] \<notin> set (rr_waves r) \<and>
    rr_start_at r = startAt \<and> fmdom' startAt = set (rr_nodes r) \<and> Active r \<and>
    rr_rev r = rr_rev src \<and> rr_inputs r = rr_inputs src \<and> rr_confirmed r = rr_confirmed src \<and> rr_rerun_of r = rr_id src \<and>
    (\<forall>i k. fmlookup startAt i = Some k \<longrightarrow> (let ss = nr_steps (recOf nodes i) in
       (if \<forall>s\<in>set ss. sr_status s = RunStepSucceeded then k = 0
        else \<exists>j < length ss. k = int j \<and> sr_status (ss ! j) \<noteq> RunStepSucceeded \<and> (\<forall>l < j. sr_status (ss ! l) = RunStepSucceeded))))"
proof -
  have order: "concat (rerunWaves src only) = filter (\<lambda>i. i \<in> set only) (concat (rr_waves src))"
  proof -
    have "concat (filter (\<lambda>w. w \<noteq> []) xs) = concat xs" for xs :: "string list list" by (induction xs) auto
    then show ?thesis by (simp add: rerunWaves_def filter_concat)
  qed
  have r: "rr_nodes r = concat (rerunWaves src only)" "rr_waves r = rerunWaves src only" "rr_start_at r = startAt"
    "startAt = foldl (\<lambda>m i. fmupd i (firstUnsuccessful (recOf nodes i)) m) fmempty (concat (rerunWaves src only))"
    "rr_status r = RunRunning" "rr_rev r = rr_rev src" "rr_inputs r = rr_inputs src" "rr_confirmed r = rr_confirmed src" "rr_rerun_of r = rr_id src"
    using assms by (auto simp: rerunFrom_def Let_def)
  have dom: "fmdom' startAt = set (rr_nodes r)" by (auto simp: r fmlookup_dom'_iff startAt_fold split: if_splits)
  have "let ss = nr_steps (recOf nodes i) in
       (if \<forall>s\<in>set ss. sr_status s = RunStepSucceeded then k = 0
        else \<exists>j < length ss. k = int j \<and> sr_status (ss ! j) \<noteq> RunStepSucceeded \<and> (\<forall>l < j. sr_status (ss ! l) = RunStepSucceeded))"
    if "fmlookup startAt i = Some k" for i k
  proof -
    have "k = firstUnsuccessfulFrom 0 (nr_steps (recOf nodes i))" using that by (simp add: r startAt_fold firstUnsuccessful_def split: if_splits)
    then show ?thesis using firstUnsuccessfulFrom_spec [of "nr_steps (recOf nodes i)" 0] by (simp only: Let_def add_0)
  qed
  moreover have "[] \<notin> set (rr_waves r)" unfolding r(2) by (simp add: rerunWaves_def)
  moreover have "concat (rr_waves r) = rr_nodes r" unfolding r(1,2) ..
  moreover have "Active r" by (simp add: Active_def r(5))
  ultimately show ?thesis using r(1,3,6-9) dom order by simp
qed

section \<open>Witnesses\<close>

definition sampleNode :: "string \<Rightarrow> string \<Rightarrow> node" where
  "sampleNode i kind = zeroNode\<lparr>node_id := i, node_name := i, node_kind := kind\<rparr>"

definition sampleEnv :: plan_env where
  "sampleEnv = \<lparr>pe_local = ''m1'', pe_nodes = [sampleNode ''m1'' KindManager, sampleNode ''a2'' KindAgent, sampleNode ''a1'' KindAgent],
     pe_health = fmupd ''m1'' StatusOnline (fmupd ''a1'' StatusOnline (fmupd ''a2'' StatusOnline fmempty)),
     pe_capable = (\<lambda>_. True), pe_unreachable = (\<lambda>_. False), pe_runs = Inr [sampleRun], pe_check = (\<lambda>_ _ _. Inr []), pe_host = (\<lambda>_. None)\<rparr>"

definition sampleTargets :: targets where
  "sampleTargets = \<lparr>tgt_groups = None, tgt_kinds = Some [KindAgent], tgt_nodes = Some [''m1'', ''gone'']\<rparr>"

lemma sample_held: "heldNodes (pe_runs sampleEnv) = Inr (fmupd ''n1'' (rr_id sampleRun) fmempty)"
  by (simp add: sampleEnv_def heldNodes_def sampleRun_def Active_def)

lemma sample_distinct: "distinct (map node_id (pe_nodes sampleEnv))"
  by (simp add: sampleEnv_def sampleNode_def zeroNode_def)

lemma sample_order: "\<exists>plan byID. orderRun sampleEnv sampleTargets 1 = Some (Inr (plan, byID))"
proof -
  have "\<not> MaxTargets < length (filter (\<lambda>n. targeted n sampleTargets) (pe_nodes sampleEnv))"
    by (simp add: MaxTargets_def sampleEnv_def)
  moreover obtain r where "orderRun sampleEnv sampleTargets 1 = Some r" using orderRun_returns [of 1] by auto
  ultimately show ?thesis using sample_held by (auto simp: orderRun_def Let_def split: if_splits sum.splits prod.splits option.splits)
qed

theorem orderRun_targets_witness:
  "\<exists>plan byID. orderRun sampleEnv sampleTargets 1 = Some (Inr (plan, byID)) \<and> set (NodeIDs plan) = {''m1'', ''a1'', ''a2''} \<and>
     pn_id ` set (pl_left plan) = {''gone''}"
proof -
  obtain plan byID where o: "orderRun sampleEnv sampleTargets 1 = Some (Inr (plan, byID))" using sample_order by blast
  have t: "targeted (sampleNode ''m1'' KindManager) sampleTargets" "targeted (sampleNode ''a1'' KindAgent) sampleTargets"
    "targeted (sampleNode ''a2'' KindAgent) sampleTargets"
    by (simp_all add: sampleTargets_def sampleNode_def zeroNode_def targeted_def kindOf_def IsManager_def KindAgent_def KindManager_def lookup_opt_def)
  have n: "set (pe_nodes sampleEnv) = {sampleNode ''m1'' KindManager, sampleNode ''a2'' KindAgent, sampleNode ''a1'' KindAgent}" by (simp add: sampleEnv_def)
  have i: "node_id (sampleNode x k) = x" for x k by (simp add: sampleNode_def)
  have rd: "ready sampleEnv (fmupd ''n1'' (rr_id sampleRun) fmempty) (sampleNode x k)" if "x \<in> {''m1'', ''a1'', ''a2''}" for x k
    using that by (auto simp: ready_def i sampleEnv_def heldRun_def)
  have g: "contains_opt (tgt_nodes sampleTargets) x \<longleftrightarrow> x = ''m1'' \<or> x = ''gone''" for x by (simp add: sampleTargets_def)
  have e: "{n \<in> set (pe_nodes sampleEnv). targeted n sampleTargets \<and> ready sampleEnv (fmupd ''n1'' (rr_id sampleRun) fmempty) n} = set (pe_nodes sampleEnv)"
    "{n \<in> set (pe_nodes sampleEnv). targeted n sampleTargets \<and> \<not> ready sampleEnv (fmupd ''n1'' (rr_id sampleRun) fmempty) n} = {}"
    unfolding n using t rd by auto
  have ids: "node_id ` set (pe_nodes sampleEnv) = {''m1'', ''a1'', ''a2''}" unfolding n image_insert i by blast
  have left: "{x. (x = ''m1'' \<or> x = ''gone'') \<and> x \<notin> {''m1'', ''a1'', ''a2''}} = {''gone''}" by force
  note T = orderRun_targets [OF o order_refl sample_distinct sample_held, THEN conjunct2, THEN conjunct2]
  have "set (NodeIDs plan) = {''m1'', ''a1'', ''a2''}" using T [THEN conjunct1] unfolding e ids .
  moreover have "pn_id ` set (pl_left plan) = {''gone''}" using T [THEN conjunct2] unfolding e g ids left image_empty Un_empty_left .
  ultimately show ?thesis using o by (intro exI conjI)
qed

theorem orderRun_order_witness:
  "\<exists>plan byID ws ms ls. orderRun sampleEnv sampleTargets 1 = Some (Inr (plan, byID)) \<and>
     pl_waves plan = ws @ map (\<lambda>n. [n]) ms @ map (\<lambda>n. [n]) ls \<and> (\<forall>n\<in>set ls. pn_leader n)"
proof -
  obtain plan byID where o: "orderRun sampleEnv sampleTargets 1 = Some (Inr (plan, byID))" using sample_order by blast
  from orderRun_order [OF o _ sample_distinct sample_held] o show ?thesis by auto
qed

text \<open>The same nodes while another run has one of those that are asked for.\<close>

definition busyRun :: run_record where
  "busyRun = sampleRun\<lparr>rr_nodes := [''a2'']\<rparr>"

definition busyEnv :: plan_env where
  "busyEnv = sampleEnv\<lparr>pe_runs := Inr [busyRun]\<rparr>"

theorem orderRun_exclusive_witness:
  "\<exists>plan byID. orderRun busyEnv sampleTargets 1 = Some (Inr (plan, byID)) \<and> ''a2'' \<in> set (map node_id (pe_nodes busyEnv)) \<and> ''a2'' \<notin> set (NodeIDs plan)"
proof -
  have r: "pe_runs busyEnv = Inr [busyRun]" "rr_id busyRun \<noteq> []" "Active busyRun" "rr_nodes busyRun = [''a2'']"
    by (simp_all add: busyEnv_def busyRun_def sampleRun_def Active_def)
  have d: "distinct (map node_id (pe_nodes busyEnv))" "''a2'' \<in> set (map node_id (pe_nodes busyEnv))"
    using sample_distinct by (simp_all add: busyEnv_def sampleEnv_def sampleNode_def zeroNode_def)
  have "\<not> MaxTargets < length (filter (\<lambda>n. targeted n sampleTargets) (pe_nodes busyEnv))" by (simp add: MaxTargets_def busyEnv_def sampleEnv_def)
  moreover obtain x where "orderRun busyEnv sampleTargets 1 = Some x" using orderRun_returns [of 1] by auto
  moreover have "heldNodes (pe_runs busyEnv) = Inr (fmupd ''a2'' (rr_id busyRun) fmempty)" using r by (simp add: heldNodes_def)
  ultimately obtain plan byID where o: "orderRun busyEnv sampleTargets 1 = Some (Inr (plan, byID))"
    by (auto simp: orderRun_def Let_def split: if_splits sum.splits prod.splits option.splits)
  from orderRun_exclusive [OF o _ d(1) r(1), of busyRun] o r d(2) show ?thesis by auto
qed

theorem rerunFrom_spec_witness:
  "\<exists>r startAt. rerunFrom sampleRun fmempty [''n1''] = (r, startAt) \<and> rr_nodes r = [''n1''] \<and> rr_rerun_of r = rr_id sampleRun"
proof -
  obtain r startAt where r: "rerunFrom sampleRun fmempty [''n1''] = (r, startAt)" by (metis surj_pair)
  from rerunFrom_spec [OF r] r show ?thesis by (auto simp: sampleRun_def)
qed

end
