(* ===== verification/Task_Run.thy ===== *)
theory Task_Run
  imports Task_Format Task_Plan
begin

text \<open>
  Running a task on the leader: \<^verbatim>\<open>src/internal/feature/tasks/run.go\<close>, over the interfaces of
  \<^verbatim>\<open>env.go\<close>.  The runner's state is its own fields, the store it writes to and a log of what it did.  Everything that is
  outside (the clock, the context, leadership, health, the nodes' answers, Raft's answers, and what others do to the store between two of
  its steps) is the environment, which may answer call number \<open>t\<close> differently from any other: \<open>rs_tick\<close> counts the calls.

  The nodes of a wave run at once in the code, each over its own record; the model takes them in order, and an environment that answers as
  it likes stands for the others' progress.  The one loop without a bound of its own, \<^verbatim>\<open>wait\<close>, is a partial
  function: \<open>None\<close> is a wait that never ends, and \<open>wait_returns\<close> says when it does.  Waiting itself (\<^verbatim>\<open>Sleep\<close>), call time limits and
  logging are left out; the wording of an error is a parameter.
\<close>

section \<open>Constants\<close>

definition pollInterval :: duration where "pollInterval = 2 * second"
definition startAttempts :: nat where "startAttempts = 3"
definition lostAfter :: duration where "lostAfter = 5 * minute"
definition keepRuns :: int where "keepRuns = 200"
definition maxSummary :: nat where "maxSummary = 200"

definition reasonQuorum :: string where "reasonQuorum = ''quorum''"
definition reasonProxmoxHost :: string where "reasonProxmoxHost = ''Proxmox host''"
definition reasonStopped :: string where "reasonStopped = ''stopped by the operator''"
definition reasonEarlierFail :: string where
  "reasonEarlierFail = ''a node failed and the run stops on failure: no further nodes were started''"
definition reasonNotHandedOff :: string where "reasonNotHandedOff = ''leadership could not be handed over''"

definition ErrTaskNodeBusy :: string where "ErrTaskNodeBusy = ''TASK_NODE_BUSY''"
definition ErrTaskJobNotFound :: string where "ErrTaskJobNotFound = ''TASK_JOB_NOT_FOUND''"
definition ErrTaskRebootPVEHost :: string where "ErrTaskRebootPVEHost = ''TASK_REBOOT_PVE_HOST''"

definition RoleVoter :: string where "RoleVoter = ''voter''"

section \<open>The environment\<close>

datatype jobError = Refusal string string "string gomap" | CallError string

definition jobErrorText :: "jobError \<Rightarrow> string" where
  "jobErrorText e = (case e of Refusal code msg _ \<Rightarrow> code @ '': '' @ msg | CallError m \<Rightarrow> m)"

definition refusalCode :: "jobError \<Rightarrow> string" where
  "refusalCode e = (case e of Refusal code _ _ \<Rightarrow> code | CallError _ \<Rightarrow> [])"

text \<open>The store as the runner sees it; \<open>so_others\<close> is what others do to it before call \<open>t\<close>.\<close>

record 'st store_ops =
  so_TaskRevision :: "string \<Rightarrow> 'st \<Rightarrow> storeError + string"
  so_GetRun :: "string \<Rightarrow> 'st \<Rightarrow> storeError + run_record \<times> run_node_record gomap"
  so_ListRuns :: "'st \<Rightarrow> storeError + run_record list"
  so_PutRun :: "nat \<Rightarrow> run_record \<Rightarrow> 'st \<Rightarrow> 'st \<times> storeError option"
  so_PutRunNode :: "nat \<Rightarrow> string \<Rightarrow> string \<Rightarrow> run_node_record \<Rightarrow> 'st \<Rightarrow> 'st \<times> storeError option"
  so_PruneRuns :: "nat \<Rightarrow> int \<Rightarrow> 'st \<Rightarrow> 'st \<times> storeError option"
  so_others :: "nat \<Rightarrow> 'st \<Rightarrow> 'st"

record 'st run_env =
  re_store :: "'st store_ops"
  re_local :: string
  re_done :: "nat \<Rightarrow> bool"
  re_isLeader :: "nat \<Rightarrow> bool"
  re_now :: "nat \<Rightarrow> time"
  re_nodes :: "nat \<Rightarrow> node list"
  re_health :: "nat \<Rightarrow> string gomap"
  re_unreachable :: "nat \<Rightarrow> string \<Rightarrow> bool"
  re_StartJob :: "nat \<Rightarrow> string \<Rightarrow> job_spec \<Rightarrow> string \<Rightarrow> jobError + job_view"
  re_GetJob :: "nat \<Rightarrow> string \<Rightarrow> string \<Rightarrow> jobError + job_view"
  re_CancelJob :: "nat \<Rightarrow> string \<Rightarrow> string \<Rightarrow> string \<Rightarrow> jobError option"
  re_HandOver :: "nat \<Rightarrow> string \<times> string option"
  re_yaml :: yaml_lib
  re_host :: "string \<Rightarrow> string option"
  re_storeText :: "storeError \<Rightarrow> string"
  re_renderText :: "renderError \<Rightarrow> string"
  re_messageText :: "message \<Rightarrow> string"

datatype event =
    NodeWritten string run_node_record bool
  | HeadWritten run_record bool
  | JobPosted string job_spec
  | JobCancel string string string
  | HandedOver string

record 'st runner =
  rs_run :: run_record
  rs_task :: "task option"
  rs_nodes :: "string \<rightharpoonup> node"
  rs_recs :: "run_node_record gomap"
  rs_head :: run_record
  rs_headAt :: time
  rs_store :: 'st
  rs_tick :: nat
  rs_log :: "event list"

datatype nodeOutcome = nodeDone | nodeFailed | nodeStopped | nodeQuorum | nodeAbandoned
datatype startingAnswer = startingRepost | startingFollow | startingFresh | startingAbandoned
datatype stepResult = stepDone | stepFailed | stepBusy | stepCancelled | stepUnknown | stepAbandoned

text \<open>How \<^verbatim>\<open>runTask\<close> returns: nil, \<^verbatim>\<open>errAbandoned\<close>, or the run could not be read.\<close>

datatype runEnd = Ended | Abandoned | ReadRunError storeError

definition tick :: "'st runner \<Rightarrow> 'st runner" where
  "tick s = s\<lparr>rs_tick := Suc (rs_tick s)\<rparr>"

definition logged :: "event \<Rightarrow> 'st runner \<Rightarrow> 'st runner" where
  "logged e s = s\<lparr>rs_log := rs_log s @ [e]\<rparr>"

definition Now :: "'st run_env \<Rightarrow> 'st runner \<Rightarrow> time \<times> 'st runner" where
  "Now env s = (re_now env (rs_tick s), tick s)"

definition theTask :: "'st runner \<Rightarrow> task" where
  "theTask s = (case rs_task s of Some t \<Rightarrow> t | None \<Rightarrow>
     \<lparr>task_name = [], task_description = [], task_inputs = [], task_targets = \<lparr>tgt_groups = None, tgt_kinds = None, tgt_nodes = None\<rparr>,
      task_batch = 0, task_stop_on_failure = False, task_steps = []\<rparr>)"

section \<open>Small functions\<close>

definition jobID :: "string \<Rightarrow> nat \<Rightarrow> string" where
  "jobID runID step = runID @ ''-'' @ itoa (int step)"

definition stopReason :: "run_record \<Rightarrow> string" where
  "stopReason head = (if rr_reason head \<noteq> [] then rr_reason head else reasonStopped)"

definition nameOf :: "'st runner \<Rightarrow> string \<Rightarrow> string" where
  "nameOf s i = (case rs_nodes s i of None \<Rightarrow> i | Some n \<Rightarrow> if node_name n \<noteq> [] then node_name n else i)"

definition inFlight :: "string \<Rightarrow> bool" where
  "inFlight status \<longleftrightarrow> status = RunStepStarting \<or> status = RunStepRunning"

definition stepName :: "step \<Rightarrow> string" where
  "stepName s = (if step_name s \<noteq> [] then step_name s else step_kind s)"

definition active :: "string \<Rightarrow> bool" where
  "active status \<longleftrightarrow> status = JobRunning \<or> status = JobRebooting"

definition cancellable :: "string \<Rightarrow> bool" where
  "cancellable kind \<longleftrightarrow> kind = StepCommand \<or> kind = StepReboot"

definition failedView :: "job_view \<Rightarrow> string \<Rightarrow> job_view" where
  "failedView view summary = view\<lparr>view_status := JobFailed, view_summary := summary\<rparr>"

definition failSummary :: "job_view \<Rightarrow> string" where
  "failSummary v = (if view_summary v \<noteq> [] then view_summary v
     else (case view_exit_code v of Some c \<Rightarrow> ''exit code '' @ itoa c | None \<Rightarrow> ''failed''))"

text \<open>\<^verbatim>\<open>utf8.RuneStart\<close>: not a continuation byte.\<close>

definition RuneStart :: "char \<Rightarrow> bool" where
  "RuneStart c \<longleftrightarrow> \<not> (0x80 \<le> (of_char c :: nat) \<and> (of_char c :: nat) < 0xC0)"

fun cutAt :: "string \<Rightarrow> nat \<Rightarrow> nat" where
  "cutAt s 0 = 0"
| "cutAt s (Suc n) = (if RuneStart (s ! Suc n) then Suc n else cutAt s n)"

definition capSummary :: "string \<Rightarrow> string" where
  "capSummary s = (if length s \<le> maxSummary then s else take (cutAt s maxSummary) s)"

definition quorumWithout :: "string gomap \<Rightarrow> node list \<Rightarrow> string \<Rightarrow> bool" where
  "quorumWithout health nodes i =
     (let vs = filter (\<lambda>n. IsManager n \<and> node_role n = RoleVoter) nodes;
          voters = length vs;
          voter = list_ex (\<lambda>n. node_id n = i) vs;
          online = length (filter (\<lambda>n. node_id n \<noteq> i \<and> fmlookup health (node_id n) = Some StatusOnline) vs)
      in if voter \<and> voters = 1 then True else online \<ge> voters div 2 + 1)"

section \<open>Records\<close>

definition record_of :: "'st runner \<Rightarrow> string \<Rightarrow> run_node_record" where
  "record_of s i = recOf (rs_recs s) i"

definition zeroStep :: run_step_record where
  "zeroStep = \<lparr>sr_status = [], sr_job_id = [], sr_summary = [], sr_changed = False, sr_started_at = 0, sr_ended_at = 0\<rparr>"

definition newStep :: "'st runner \<Rightarrow> int \<Rightarrow> nat \<Rightarrow> run_step_record \<Rightarrow> run_step_record" where
  "newStep s start i st =
     (if int i < start \<and> (sr_status st = [] \<or> sr_status st = RunStepPending)
      then zeroStep\<lparr>sr_status := RunStepSucceeded, sr_summary := ''succeeded in run '' @ rr_rerun_of (rs_run s)\<rparr>
      else if sr_status st = [] then st\<lparr>sr_status := RunStepPending\<rparr> else st)"

definition newRecord :: "'st runner \<Rightarrow> string \<Rightarrow> run_node_record" where
  "newRecord s i =
     (let rec = record_of s i;
          n = length (task_steps (theTask s));
          steps = take n (nr_steps rec) @ replicate (n - length (nr_steps rec)) zeroStep;
          start = (case fmlookup (rr_start_at (rs_run s)) i of None \<Rightarrow> 0 | Some k \<Rightarrow> k)
      in rec\<lparr>nr_steps := map (\<lambda>(j, st). newStep s start j st) (enumerate 0 steps)\<rparr>)"

definition writeNode :: "'st run_env \<Rightarrow> string \<Rightarrow> run_node_record \<Rightarrow> 'st runner \<Rightarrow> storeError option \<times> 'st runner" where
  "writeNode env i rec s =
     (let t = rs_tick s; ops = re_store env in
      case so_PutRunNode ops t (rr_id (rs_run s)) i rec (so_others ops t (rs_store s)) of (st, e) \<Rightarrow>
        (e, logged (NodeWritten i rec (e = None)) (tick (s\<lparr>rs_recs := fmupd i rec (rs_recs s), rs_store := st\<rparr>))))"

definition failNode :: "'st run_env \<Rightarrow> string \<Rightarrow> run_node_record \<Rightarrow> string \<Rightarrow> string \<Rightarrow> 'st runner \<Rightarrow> nodeOutcome \<times> 'st runner" where
  "failNode env i rec status reason s =
     (case writeNode env i (rec\<lparr>nr_status := status, nr_reason := reason\<rparr>) s of (e, s1) \<Rightarrow>
        (if e \<noteq> None then nodeAbandoned
         else if status = RunNodeStopped then nodeStopped
         else if status = RunNodeSkipped then nodeQuorum
         else nodeFailed, s1))"

definition readHead :: "'st run_env \<Rightarrow> bool \<Rightarrow> 'st runner \<Rightarrow> (storeError + run_record) \<times> 'st runner" where
  "readHead env fresh s = (case Now env s of (now, s1) \<Rightarrow>
     if \<not> fresh \<and> now - rs_headAt s1 < pollInterval then (Inr (rs_head s1), s1)
     else (let t = rs_tick s1; ops = re_store env; st = so_others ops t (rs_store s1); s2 = tick (s1\<lparr>rs_store := st\<rparr>) in
       case so_GetRun ops (rr_id (rs_run s)) st of
         Inl e \<Rightarrow> (Inl e, s2)
       | Inr (head, _) \<Rightarrow> (Inr head, s2\<lparr>rs_head := head, rs_headAt := now\<rparr>)))"

text \<open>Writing the head with a change, which may look at the clock.\<close>

definition putHead :: "'st run_env \<Rightarrow> (time \<Rightarrow> run_record \<Rightarrow> run_record) \<Rightarrow> 'st runner \<Rightarrow> storeError option \<times> 'st runner" where
  "putHead env change s = (case readHead env True s of
     (Inl e, s1) \<Rightarrow> (Some e, s1)
   | (Inr head, s1) \<Rightarrow> (case Now env s1 of (now, s2) \<Rightarrow>
       (let h = change now head; t = rs_tick s2; ops = re_store env in
        case so_PutRun ops t h (so_others ops t (rs_store s2)) of (st, e) \<Rightarrow>
          (let s3 = logged (HeadWritten h (e = None)) (tick (s2\<lparr>rs_store := st\<rparr>)) in
           (e, if e = None then s3\<lparr>rs_head := h\<rparr> else s3)))))"


section \<open>One step\<close>

definition setStep :: "run_node_record \<Rightarrow> nat \<Rightarrow> run_step_record \<Rightarrow> run_node_record" where
  "setStep rec i st = rec\<lparr>nr_steps := (nr_steps rec)[i := st]\<rparr>"

definition endStep :: "'st run_env \<Rightarrow> run_step_record \<Rightarrow> string \<Rightarrow> string \<Rightarrow> bool \<Rightarrow> 'st runner \<Rightarrow> run_step_record \<times> 'st runner" where
  "endStep env step status summary changed s = (case Now env s of (now, s1) \<Rightarrow>
     (step\<lparr>sr_status := status, sr_summary := capSummary summary, sr_changed := changed, sr_ended_at := now\<rparr>, s1))"

definition ctxDone :: "'st run_env \<Rightarrow> 'st runner \<Rightarrow> bool \<times> 'st runner" where
  "ctxDone env s = (re_done env (rs_tick s), tick s)"

definition askStarting :: "'st run_env \<Rightarrow> string \<Rightarrow> run_node_record \<Rightarrow> nat \<Rightarrow> job_spec \<Rightarrow> 'st runner \<Rightarrow>
    startingAnswer \<times> run_node_record \<times> job_spec \<times> 'st runner" where
  "askStarting env i rec k spec s =
     (let step = nr_steps rec ! k;
          spec1 = (if sr_job_id step \<noteq> [] then spec\<lparr>spec_id := sr_job_id step\<rparr> else spec);
          s1 = tick s
      in case re_GetJob env (rs_tick s) i (spec_id spec1) of
           Inr _ \<Rightarrow>
             (case (if sr_started_at step = 0 then Now env s1 else (sr_started_at step, s1)) of (at, s2) \<Rightarrow>
               (let rec1 = setStep rec k (step\<lparr>sr_status := RunStepRunning, sr_started_at := at\<rparr>) in
                case writeNode env i rec1 s2 of (e, s3) \<Rightarrow>
                  (if e \<noteq> None then startingAbandoned else startingFollow, rec1, spec1, s3)))
         | Inl e \<Rightarrow>
             if refusalCode e = ErrTaskJobNotFound then
               (let rec1 = setStep rec k (zeroStep\<lparr>sr_status := RunStepPending\<rparr>) in
                case writeNode env i rec1 s1 of (e, s2) \<Rightarrow>
                  (if e \<noteq> None then startingAbandoned else startingFresh, rec1, spec1, s2))
             else (startingRepost, rec, spec1, s1))"

text \<open>Posting the job, at most \<open>startAttempts\<close> times while the node does not answer; \<open>Inl None\<close> is the ended context.\<close>

fun startLoop :: "nat \<Rightarrow> 'st run_env \<Rightarrow> string \<Rightarrow> job_spec \<Rightarrow> jobError option \<Rightarrow> 'st runner \<Rightarrow> (jobError option + job_view) \<times> 'st runner" where
  "startLoop 0 env i spec err s = (Inl err, s)"
| "startLoop (Suc n) env i spec err s = (case ctxDone env s of (d, s1) \<Rightarrow>
     if d then (Inl None, s1)
     else (case re_StartJob env (rs_tick s1) i spec (rr_started_by (rs_run s1)) of
       Inr v \<Rightarrow> (Inr v, logged (JobPosted i spec) (tick s1))
     | Inl (Refusal c m d) \<Rightarrow> (Inl (Some (Refusal c m d)), logged (JobPosted i spec) (tick s1))
     | Inl (CallError m) \<Rightarrow> startLoop n env i spec (Some (CallError m)) (logged (JobPosted i spec) (tick s1))))"

definition startJob :: "'st run_env \<Rightarrow> string \<Rightarrow> job_spec \<Rightarrow> 'st runner \<Rightarrow> (jobError option + job_view) \<times> 'st runner" where
  "startJob env i spec s = startLoop startAttempts env i spec None s"

definition rebootBy :: "job_spec \<Rightarrow> time \<Rightarrow> time" where
  "rebootBy spec started = started + (case spec_reboot spec of Some b \<Rightarrow> if rb_wait b > 0 then rb_wait b else DefaultRebootWait | None \<Rightarrow> DefaultRebootWait)"

definition notBack :: "job_spec \<Rightarrow> time \<Rightarrow> string" where
  "notBack spec started = ''did not come back within '' @ Duration_String (rebootBy spec started - started)"

definition emptyView :: "string \<Rightarrow> job_view" where
  "emptyView summary = \<lparr>view_id = [], view_kind = [], view_status = [], view_changed = False, view_exit_code = None, view_summary = summary\<rparr>"

text \<open>The forced stop in a turn of \<^verbatim>\<open>wait\<close>: it cancels the job once.\<close>

definition waitCancel :: "'st run_env \<Rightarrow> string \<Rightarrow> job_spec \<Rightarrow> bool \<Rightarrow> 'st runner \<Rightarrow> bool \<times> 'st runner" where
  "waitCancel env i spec cancelled s =
     (if cancelled \<or> \<not> cancellable (spec_kind spec) then (cancelled, s)
      else (case readHead env False s of
        (Inl _, s1) \<Rightarrow> (cancelled, s1)
      | (Inr head, s1) \<Rightarrow>
          if rr_status head = RunStopping \<and> rr_force head then
            (let who = (if rr_stopped_by head = [] then rr_started_by (rs_run s1) else rr_stopped_by head) in
             (re_CancelJob env (rs_tick s1) i (spec_id spec) who = None, logged (JobCancel i (spec_id spec) who) (tick s1)))
          else (cancelled, s1)))"

text \<open>One turn of the loop of \<^verbatim>\<open>wait\<close>: how it ended, or the view, when the node was last heard and whether the job was cancelled.\<close>

definition waitStep :: "'st run_env \<Rightarrow> string \<Rightarrow> job_spec \<Rightarrow> time \<Rightarrow> job_view \<times> time \<times> bool \<Rightarrow> 'st runner \<Rightarrow>
    (job_view \<times> stepResult) \<times> 'st runner + (job_view \<times> time \<times> bool) \<times> 'st runner" where
  "waitStep env i spec started l s = (case l of (view, lastHeard, cancelled) \<Rightarrow>
     if \<not> active (view_status view) then Inl ((view, stepDone), s)
     else (case ctxDone env s of (d, s1) \<Rightarrow>
       if d then Inl ((view, stepAbandoned), s1)
       else (case waitCancel env i spec cancelled s1 of (c, s2) \<Rightarrow>
         (case Now env (tick s2) of (now, s3) \<Rightarrow>
           (case re_GetJob env (rs_tick s2) i (spec_id spec) of
              Inr v \<Rightarrow>
                if spec_kind spec = StepReboot \<and> view_status v = JobRebooting \<and> \<not> now < rebootBy spec started
                then Inl ((failedView v (notBack spec started), stepDone), s3)
                else Inr ((v, now, c), s3)
            | Inl e \<Rightarrow> (case ctxDone env s3 of (d2, s4) \<Rightarrow>
                if d2 then Inl ((view, stepAbandoned), s4)
                else if refusalCode e = ErrTaskJobNotFound then Inl ((emptyView ''the node has no record of the job'', stepUnknown), s4)
                else if spec_kind spec = StepReboot then
                  (if \<not> now < rebootBy spec started then Inl ((failedView view (notBack spec started), stepDone), s4)
                   else Inr ((view, lastHeard, c), s4))
                else if now - lastHeard \<ge> lostAfter
                then Inl ((emptyView (''the node stopped answering: '' @ jobErrorText e), stepUnknown), s4)
                else Inr ((view, lastHeard, c), s4)))))))"

partial_function (option) waitLoop :: "'st run_env \<Rightarrow> string \<Rightarrow> job_spec \<Rightarrow> time \<Rightarrow> job_view \<times> time \<times> bool \<Rightarrow> 'st runner \<Rightarrow>
    ((job_view \<times> stepResult) \<times> 'st runner) option" where
  "waitLoop env i spec started l s = (case waitStep env i spec started l s of
     Inl r \<Rightarrow> Some r
   | Inr (l', s') \<Rightarrow> waitLoop env i spec started l' s')"

declare waitLoop.simps [code]

definition waitJob :: "'st run_env \<Rightarrow> string \<Rightarrow> job_spec \<Rightarrow> job_view \<Rightarrow> time \<Rightarrow> 'st runner \<Rightarrow> ((job_view \<times> stepResult) \<times> 'st runner) option" where
  "waitJob env i spec view started s = (case Now env s of (now, s1) \<Rightarrow> waitLoop env i spec started (view, now, False) s1)"

definition followEnd :: "'st run_env \<Rightarrow> run_step_record \<Rightarrow> job_view \<Rightarrow> stepResult \<Rightarrow> 'st runner \<Rightarrow> run_step_record \<times> stepResult \<times> 'st runner" where
  "followEnd env step view res s =
     (if res = stepUnknown then (case endStep env step RunStepUnknown (view_summary view) False s of (st, s1) \<Rightarrow> (st, res, s1))
      else if view_status view = JobSucceeded then
        (case endStep env step RunStepSucceeded (view_summary view) (view_changed view) s of (st, s1) \<Rightarrow> (st, res, s1))
      else if view_status view = JobFailed then
        (case endStep env step RunStepFailed (failSummary view) (view_changed view) s of (st, s1) \<Rightarrow> (st, stepFailed, s1))
      else if view_status view = JobCancelled then
        (case endStep env step RunStepCancelled (view_summary view) (view_changed view) s of (st, s1) \<Rightarrow> (st, stepCancelled, s1))
      else (case endStep env step RunStepUnknown (''the job's result is not known ('' @ view_status view @ '')'') (view_changed view) s of
         (st, s1) \<Rightarrow> (st, stepUnknown, s1)))"

definition follow :: "'st run_env \<Rightarrow> string \<Rightarrow> run_node_record \<Rightarrow> nat \<Rightarrow> job_spec \<Rightarrow> job_view \<Rightarrow> 'st runner \<Rightarrow>
    (stepResult \<times> run_node_record \<times> 'st runner) option" where
  "follow env i rec k spec view s =
     (case waitJob env i spec view (sr_started_at (nr_steps rec ! k)) s of
        None \<Rightarrow> None
      | Some ((v, res), s1) \<Rightarrow> Some
          (if res = stepAbandoned then (stepAbandoned, rec, s1)
           else (case followEnd env (nr_steps rec ! k) v res s1 of (st, res1, s2) \<Rightarrow>
             (let rec1 = setStep rec k st in
              case writeNode env i rec1 s2 of (e, s3) \<Rightarrow> (if e \<noteq> None then stepAbandoned else res1, rec1, s3)))))"

text \<open>The job was not taken: refused, or the node did not answer.\<close>

definition refusedStep :: "'st run_env \<Rightarrow> run_node_record \<Rightarrow> nat \<Rightarrow> job_spec \<Rightarrow> jobError \<Rightarrow> 'st runner \<Rightarrow> stepResult \<times> run_node_record \<times> 'st runner" where
  "refusedStep env rec k spec err s =
     (let step = nr_steps rec ! k in
      case err of
        Refusal code msg details \<Rightarrow>
          if code = ErrTaskRebootPVEHost \<and> spec_kind spec = StepReboot then
            (case endStep env step RunStepSkipped reasonProxmoxHost False s of (st, s1) \<Rightarrow> (stepDone, setStep rec k st, s1))
          else if code = ErrTaskNodeBusy then
            (case endStep env step RunStepFailed (jobErrorText err) False s of (st, s1) \<Rightarrow>
              (let d = (\<lambda>x. case fmlookup details x of None \<Rightarrow> [] | Some v \<Rightarrow> v) in
               (stepBusy, (setStep rec k st)\<lparr>nr_reason := ''busy with job '' @ d ''job_id'' @ '' of run '' @ d ''run_id'' @ '' ('' @ d ''task'' @ '')''\<rparr>, s1)))
          else (case endStep env step RunStepFailed (jobErrorText err) False s of (st, s1) \<Rightarrow> (stepFailed, setStep rec k st, s1))
      | CallError m \<Rightarrow>
          (case endStep env step RunStepUnknown (''the node did not answer: '' @ m) False s of (st, s1) \<Rightarrow> (stepUnknown, setStep rec k st, s1)))"

text \<open>The end of \<^verbatim>\<open>runStep\<close>: the job is posted, and followed when the node took it.\<close>

definition postStep :: "'st run_env \<Rightarrow> string \<Rightarrow> run_node_record \<Rightarrow> nat \<Rightarrow> job_spec \<Rightarrow> 'st runner \<Rightarrow>
    (stepResult \<times> run_node_record \<times> 'st runner) option" where
  "postStep env i rec k spec s = (case startJob env i spec s of
     (Inl err, s1) \<Rightarrow> (case ctxDone env s1 of (d, s2) \<Rightarrow>
       (case err of
          None \<Rightarrow> Some (stepAbandoned, rec, s2)
        | Some x \<Rightarrow>
            if d then Some (stepAbandoned, rec, s2)
            else (case refusedStep env rec k spec x s2 of (res, rec1, s3) \<Rightarrow>
              (case writeNode env i rec1 s3 of (e, s4) \<Rightarrow> Some (if e \<noteq> None then stepAbandoned else res, rec1, s4)))))
   | (Inr view, s1) \<Rightarrow>
       (let rec1 = setStep rec k ((nr_steps rec ! k)\<lparr>sr_status := RunStepRunning\<rparr>) in
        case writeNode env i rec1 s1 of (e, s2) \<Rightarrow>
          if e \<noteq> None then Some (stepAbandoned, rec1, s2) else follow env i rec1 k spec view s2))"

definition runStep :: "'st run_env \<Rightarrow> string \<Rightarrow> run_node_record \<Rightarrow> nat \<Rightarrow> job_spec \<Rightarrow> 'st runner \<Rightarrow>
    (stepResult \<times> run_node_record \<times> 'st runner) option" where
  "runStep env i rec k spec s =
     (let step = nr_steps rec ! k;
          prep = (if inFlight (sr_status step) then
              (case (if sr_started_at step = 0 then Now env s else (sr_started_at step, s)) of (at, s1) \<Rightarrow>
                (None, setStep rec k (step\<lparr>sr_started_at := at\<rparr>), (if sr_job_id step \<noteq> [] then spec\<lparr>spec_id := sr_job_id step\<rparr> else spec), s1))
            else (case Now env s of (at, s1) \<Rightarrow>
              (let rec1 = setStep rec k (zeroStep\<lparr>sr_status := RunStepStarting, sr_job_id := spec_id spec, sr_started_at := at\<rparr>) in
               case writeNode env i rec1 s1 of (e, s2) \<Rightarrow> (e, rec1, spec, s2))))
      in case prep of (e, rec1, spec1, s1) \<Rightarrow>
        if e \<noteq> None then Some (stepAbandoned, rec1, s1)
        else if sr_status (nr_steps rec1 ! k) = RunStepRunning then
          follow env i rec1 k spec1 \<lparr>view_id = spec_id spec1, view_kind = spec_kind spec1,
            view_status = (if spec_kind spec1 = StepReboot then JobRebooting else JobRunning), view_changed = False, view_exit_code = None,
            view_summary = []\<rparr> s1
        else postStep env i rec1 k spec1 s1)"


section \<open>One node\<close>

definition stepFailedText :: "'st runner \<Rightarrow> nat \<Rightarrow> string" where
  "stepFailedText s k = ''step '' @ itoa (int k + 1) @ '' ('' @ stepName (task_steps (theTask s) ! k) @ '') failed''"

definition stepUnknownText :: "nat \<Rightarrow> string \<Rightarrow> string" where
  "stepUnknownText k summary = ''step '' @ itoa (int k + 1) @ '': '' @ summary"

definition continueOnError :: "'st runner \<Rightarrow> nat \<Rightarrow> bool" where
  "continueOnError s k = step_continue_on_error (task_steps (theTask s) ! k)"

definition succeedNode :: "'st run_env \<Rightarrow> string \<Rightarrow> run_node_record \<Rightarrow> 'st runner \<Rightarrow> nodeOutcome \<times> 'st runner" where
  "succeedNode env i rec s =
     (case writeNode env i (rec\<lparr>nr_status := RunNodeSucceeded, nr_reason := []\<rparr>) s of (e, s1) \<Rightarrow>
        (if e \<noteq> None then nodeAbandoned else nodeDone, s1))"

text \<open>\<^verbatim>\<open>closeFromRecord\<close>: \<open>None\<close> is not closed.\<close>

fun closeSteps :: "'st run_env \<Rightarrow> string \<Rightarrow> run_node_record \<Rightarrow> nat \<Rightarrow> run_step_record list \<Rightarrow> 'st runner \<Rightarrow> (nodeOutcome \<times> 'st runner) option" where
  "closeSteps env i rec k [] s = Some (succeedNode env i rec s)"
| "closeSteps env i rec k (st # sts) s =
     (if sr_status st = RunStepFailed then
        (if continueOnError s k then closeSteps env i rec (Suc k) sts s
         else Some (failNode env i rec RunNodeFailed (stepFailedText s k) s))
      else if sr_status st = RunStepUnknown then Some (failNode env i rec RunNodeUnknown (stepUnknownText k (sr_summary st)) s)
      else if sr_status st = RunStepCancelled then Some (failNode env i rec RunNodeStopped reasonStopped s)
      else if sr_status st = RunStepSucceeded \<or> sr_status st = RunStepSkipped then closeSteps env i rec (Suc k) sts s
      else None)"

definition closeFromRecord :: "'st run_env \<Rightarrow> string \<Rightarrow> run_node_record \<Rightarrow> 'st runner \<Rightarrow> (nodeOutcome \<times> 'st runner) option" where
  "closeFromRecord env i rec s = closeSteps env i rec 0 (nr_steps rec) s"

text \<open>What follows a step: \<open>None\<close> goes on to the next one.\<close>

definition afterStep :: "'st run_env \<Rightarrow> string \<Rightarrow> run_node_record \<Rightarrow> nat \<Rightarrow> stepResult \<Rightarrow> 'st runner \<Rightarrow> (nodeOutcome \<times> 'st runner) option" where
  "afterStep env i rec k res s = (case res of
     stepAbandoned \<Rightarrow> Some (nodeAbandoned, s)
   | stepDone \<Rightarrow> None
   | stepBusy \<Rightarrow> Some (failNode env i rec RunNodeFailed (nr_reason rec) s)
   | stepCancelled \<Rightarrow> Some (failNode env i rec RunNodeStopped reasonStopped s)
   | stepUnknown \<Rightarrow> Some (failNode env i rec RunNodeUnknown (stepUnknownText k (sr_summary (nr_steps rec ! k))) s)
   | stepFailed \<Rightarrow> if continueOnError s k then None
                   else Some (failNode env i rec RunNodeFailed (stepFailedText s k) s))"

text \<open>The part of the loop body before \<^verbatim>\<open>runStep\<close>: the node ended here, or the step's job is to be run.\<close>

definition quorumNow :: "'st run_env \<Rightarrow> string \<Rightarrow> 'st runner \<Rightarrow> bool \<times> 'st runner" where
  "quorumNow env i s = (quorumWithout (re_health env (rs_tick s)) (re_nodes env (Suc (rs_tick s))) i, tick (tick s))"

definition judgeStep :: "'st run_env \<Rightarrow> string \<Rightarrow> node \<Rightarrow> run_node_record \<Rightarrow> nat \<Rightarrow> job_spec \<Rightarrow> bool \<Rightarrow> 'st runner \<Rightarrow>
    nodeOutcome \<times> 'st runner + run_node_record \<times> job_spec \<times> 'st runner" where
  "judgeStep env i n rec k spec resume s = (case readHead env True s of
     (Inl e, s1) \<Rightarrow> Inl (nodeAbandoned, s1)
   | (Inr head, s1) \<Rightarrow>
       if \<not> resume \<and> rr_status head = RunStopping then Inl (failNode env i rec RunNodeStopped (stopReason head) s1)
       else (let spec1 = spec\<lparr>spec_confirmed := List.member (rr_confirmed (rs_run s1)) (int k)\<rparr> in
         if \<not> resume \<and> spec_kind spec1 = StepReboot \<and> IsManager n then
           (case quorumNow env i s1 of (q, s2) \<Rightarrow>
             if q then Inr (rec, spec1, s2)
             else (case Now env s2 of (now, s3) \<Rightarrow>
               Inl (failNode env i (setStep rec k (zeroStep\<lparr>sr_status := RunStepSkipped, sr_summary := reasonQuorum, sr_ended_at := now\<rparr>))
                      RunNodeSkipped reasonQuorum s3)))
         else Inr (rec, spec1, s1)))"

definition prepareStep :: "'st run_env \<Rightarrow> string \<Rightarrow> node \<Rightarrow> run_node_record \<Rightarrow> nat \<Rightarrow> job_spec \<Rightarrow> 'st runner \<Rightarrow>
    nodeOutcome \<times> 'st runner + run_node_record \<times> job_spec \<times> 'st runner" where
  "prepareStep env i n rec k spec0 s =
     (let spec = spec0\<lparr>spec_id := jobID (rr_id (rs_run s)) k, spec_run_id := rr_id (rs_run s)\<rparr>;
          resume = inFlight (sr_status (nr_steps rec ! k))
      in case ctxDone env s of (d, s1) \<Rightarrow>
        if d then Inl (nodeAbandoned, s1)
        else if sr_status (nr_steps rec ! k) = RunStepStarting then
          (case askStarting env i rec k spec s1 of (ans, rec1, spec1, s2) \<Rightarrow>
            if ans = startingAbandoned then Inl (nodeAbandoned, s2)
            else judgeStep env i n rec1 k spec1 (ans \<noteq> startingFresh) s2)
        else judgeStep env i n rec k spec resume s1)"

fun runSteps :: "'st run_env \<Rightarrow> string \<Rightarrow> node \<Rightarrow> nat \<Rightarrow> job_spec list \<Rightarrow> run_node_record \<Rightarrow> 'st runner \<Rightarrow> (nodeOutcome \<times> 'st runner) option" where
  "runSteps env i n k [] rec s = Some (succeedNode env i rec s)"
| "runSteps env i n k (spec # specs) rec s =
     (if \<not> inFlight (sr_status (nr_steps rec ! k)) \<and> sr_status (nr_steps rec ! k) \<noteq> RunStepPending
      then runSteps env i n (Suc k) specs rec s
      else (case prepareStep env i n rec k spec s of
        Inl out \<Rightarrow> Some out
      | Inr (rec1, spec1, s1) \<Rightarrow> (case runStep env i rec1 k spec1 s1 of
          None \<Rightarrow> None
        | Some (res, rec2, s2) \<Rightarrow> (case afterStep env i rec2 k res s2 of
            Some out \<Rightarrow> Some out
          | None \<Rightarrow> runSteps env i n (Suc k) specs rec2 s2))))"

text \<open>Whether the node can be run at all; \<open>Some\<close> is why not.\<close>

definition nodeRefused :: "'st run_env \<Rightarrow> string \<Rightarrow> run_node_record \<Rightarrow> 'st runner \<Rightarrow> string option \<times> 'st runner" where
  "nodeRefused env i rec s =
     (if rs_nodes s i = None then (Some ''the node is no longer in the cluster'', s)
      else if list_ex (\<lambda>st. inFlight (sr_status st)) (nr_steps rec) then (None, s)
      else if i \<noteq> re_local env \<and> fmlookup (re_health env (rs_tick s)) i \<noteq> Some StatusOnline
      then (Some ''the node was offline when its turn came'', tick s)
      else if re_unreachable env (Suc (rs_tick s)) i then (Some ''this leader does not reach the node'', tick (tick s))
      else (None, tick (tick s)))"

definition runNode :: "'st run_env \<Rightarrow> string \<Rightarrow> 'st runner \<Rightarrow> (nodeOutcome \<times> 'st runner) option" where
  "runNode env i s = (let rec = newRecord s i in
     case closeFromRecord env i rec s of
       Some out \<Rightarrow> Some out
     | None \<Rightarrow> (case nodeRefused env i rec s of
         (Some why, s1) \<Rightarrow> Some (failNode env i rec RunNodeFailed why s1)
       | (None, s1) \<Rightarrow> (case Render (theTask s1) (fmlookup (rr_inputs (rs_run s1))) (nodeVarsOf (re_host env) (the (rs_nodes s1 i))) of
           Inl e \<Rightarrow> Some (failNode env i rec RunNodeFailed (re_renderText env e) s1)
         | Inr specs \<Rightarrow> (let rec1 = rec\<lparr>nr_status := RunNodeRunning, nr_reason := []\<rparr> in
             case writeNode env i rec1 s1 of (e, s2) \<Rightarrow>
               if e \<noteq> None then Some (nodeAbandoned, s2)
               else runSteps env i (the (rs_nodes s1 i)) 0 specs rec1 s2))))"

fun runNodes :: "'st run_env \<Rightarrow> string list \<Rightarrow> 'st runner \<Rightarrow> (nodeOutcome list \<times> 'st runner) option" where
  "runNodes env [] s = Some ([], s)"
| "runNodes env (i # ids) s = (case runNode env i s of
     None \<Rightarrow> None
   | Some (o1, s1) \<Rightarrow> (case runNodes env ids s1 of None \<Rightarrow> None | Some (os, s2) \<Rightarrow> Some (o1 # os, s2)))"

section \<open>One run\<close>

fun finishNodes :: "'st run_env \<Rightarrow> string \<Rightarrow> string list \<Rightarrow> 'st runner \<Rightarrow> bool \<times> 'st runner" where
  "finishNodes env reason [] s = (True, s)"
| "finishNodes env reason (i # ids) s =
     (let rec = record_of s i in
      if nr_status rec \<noteq> [] \<and> nr_status rec \<noteq> RunNodePending then finishNodes env reason ids s
      else (let rec1 = (if rs_task s \<noteq> None then newRecord s i else rec) in
        case writeNode env i (rec1\<lparr>nr_status := RunNodeStopped, nr_reason := reason\<rparr>) s of (e, s1) \<Rightarrow>
          if e \<noteq> None then (False, s1) else finishNodes env reason ids s1))"

definition pruneRuns :: "'st run_env \<Rightarrow> 'st runner \<Rightarrow> 'st runner" where
  "pruneRuns env s = (let t = rs_tick s; ops = re_store env in
     tick (s\<lparr>rs_store := fst (so_PruneRuns ops t keepRuns (so_others ops t (rs_store s)))\<rparr>))"

definition finish :: "'st run_env \<Rightarrow> string \<Rightarrow> string \<Rightarrow> 'st runner \<Rightarrow> runEnd \<times> 'st runner" where
  "finish env status reason s =
     (case finishNodes env (if reason = [] then ''the run ended before the node's turn'' else reason) (rr_nodes (rs_run s)) s of (ok, s1) \<Rightarrow>
       if \<not> ok then (Abandoned, s1)
       else (case putHead env (\<lambda>now h. h\<lparr>rr_status := status, rr_reason := reason, rr_ended_at := now\<rparr>) s1 of (e, s2) \<Rightarrow>
         if e \<noteq> None then (Abandoned, s2) else (Ended, pruneRuns env s2)))"

definition stop :: "'st run_env \<Rightarrow> run_record \<Rightarrow> 'st runner \<Rightarrow> (runEnd \<times> 'st runner) option" where
  "stop env head s =
     (case runNodes env (filter (\<lambda>i. nr_status (record_of s i) = RunNodeRunning) (rr_nodes (rs_run s))) s of
        None \<Rightarrow> None
      | Some (os, s1) \<Rightarrow> Some (if List.member os nodeAbandoned then (Abandoned, s1) else finish env RunStopped (stopReason head) s1))"

definition headMoves :: "string \<Rightarrow> string \<Rightarrow> time \<Rightarrow> run_record \<Rightarrow> run_record" where
  "headMoves src dst now h = (if rr_status h = src then h\<lparr>rr_status := dst\<rparr> else h)"

text \<open>The leader's turn: an error abandons the run, otherwise whether the leadership was handed over.\<close>

definition handOver :: "'st run_env \<Rightarrow> 'st runner \<Rightarrow> (storeError + bool) \<times> 'st runner" where
  "handOver env s = (case putHead env (headMoves RunRunning RunHandingOver) s of
     (Some e, s1) \<Rightarrow> (Inl e, s1)
   | (None, s1) \<Rightarrow> (case readHead env False s1 of (h, s2) \<Rightarrow>
       if (case h of Inl _ \<Rightarrow> True | Inr head \<Rightarrow> rr_status head \<noteq> RunHandingOver) then (Inr False, s2)
       else (case re_HandOver env (rs_tick s2) of (target, herr) \<Rightarrow>
         (let s3 = logged (HandedOver target) (tick s2) in
          if target \<noteq> [] \<and> herr = None then (Inr True, s3)
          else (case putHead env (headMoves RunHandingOver RunRunning) s3 of
            (Some e, s4) \<Rightarrow> (Inl e, s4)
          | (None, s4) \<Rightarrow> (case herr of
              None \<Rightarrow> (Inr False, s4)
            | Some m \<Rightarrow> (case writeNode env (re_local env)
                  ((newRecord s4 (re_local env))\<lparr>nr_status := RunNodeFailed,
                    nr_reason := reasonNotHandedOff @ '' to '' @ nameOf s4 target @ '': '' @ m\<rparr>) s4 of
                (Some e, s5) \<Rightarrow> (Inl e, s5)
              | (None, s5) \<Rightarrow> (Inr False, s5))))))))"

definition nodeFailedStatus :: "string \<Rightarrow> bool" where
  "nodeFailedStatus st \<longleftrightarrow> st = RunNodeFailed \<or> st = RunNodeUnknown"

definition nodeEnded :: "string \<Rightarrow> bool" where
  "nodeEnded st \<longleftrightarrow> nodeFailedStatus st \<or> st = RunNodeSucceeded \<or> st = RunNodeSkipped \<or> st = RunNodeStopped"

text \<open>The wave's nodes once the leader's own turn is settled: \<open>Inl\<close> returns from the run.\<close>

definition ownTurn :: "'st run_env \<Rightarrow> string list \<Rightarrow> bool \<Rightarrow> 'st runner \<Rightarrow> (runEnd \<times> 'st runner) + (string list \<times> bool \<times> 'st runner)" where
  "ownTurn env todo failed s =
     (if \<not> List.member todo (re_local env) then Inr (todo, failed, s)
      else (case handOver env s of
        (Inl e, s1) \<Rightarrow> Inl (Abandoned, s1)
      | (Inr handed, s1) \<Rightarrow>
          if handed then Inl (Ended, s1)
          else if nr_status (record_of s1 (re_local env)) = RunNodeFailed then Inr (filter (\<lambda>i. i \<noteq> re_local env) todo, True, s1)
          else Inr (todo, failed, s1)))"

text \<open>The last of a wave's nodes whose reboot would have cost the quorum.\<close>

definition quorumNode :: "string list \<Rightarrow> nodeOutcome list \<Rightarrow> string" where
  "quorumNode todo os = (case filter (\<lambda>(i, out). out = nodeQuorum) (zip todo os) of [] \<Rightarrow> [] | xs \<Rightarrow> fst (last xs))"

definition quorumText :: "'st runner \<Rightarrow> string \<Rightarrow> string" where
  "quorumText s i = reasonQuorum @ '': rebooting '' @ nameOf s i @ '' would leave the managers without a quorum''"

fun runWaves :: "'st run_env \<Rightarrow> string list list \<Rightarrow> bool \<Rightarrow> 'st runner \<Rightarrow> (runEnd \<times> 'st runner) option" where
  "runWaves env [] failed s = (case readHead env True s of (h, s1) \<Rightarrow>
     (case h of
        Inr head \<Rightarrow> if rr_status head = RunStopping then stop env head s1
                    else Some (finish env (if failed then RunFailed else RunSucceeded) [] s1)
      | Inl _ \<Rightarrow> Some (finish env (if failed then RunFailed else RunSucceeded) [] s1)))"
| "runWaves env (wave # waves) failed s =
     (if re_done env (rs_tick s) \<or> \<not> re_isLeader env (Suc (rs_tick s)) then Some (Abandoned, tick (tick s))
      else (case readHead env True (tick (tick s)) of
        (Inl e, s1) \<Rightarrow> Some (Abandoned, s1)
      | (Inr head, s1) \<Rightarrow>
          if rr_status head = RunStopping then stop env head s1
          else if failed \<and> rr_stop_on_failure (rs_run s1) then Some (finish env RunFailed reasonEarlierFail s1)
          else (let failed1 = (failed \<or> list_ex (\<lambda>i. nodeFailedStatus (nr_status (record_of s1 i))) wave);
                    todo = filter (\<lambda>i. \<not> nodeEnded (nr_status (record_of s1 i))) wave
            in if todo = [] then runWaves env waves failed1 s1
               else (case ownTurn env todo failed1 s1 of
                 Inl out \<Rightarrow> Some out
               | Inr (todo2, failed2, s2) \<Rightarrow> (case runNodes env todo2 s2 of
                   None \<Rightarrow> None
                 | Some (os, s3) \<Rightarrow>
                     if List.member os nodeAbandoned then Some (Abandoned, s3)
                     else if quorumNode todo2 os \<noteq> [] then Some (finish env RunStopped (quorumText s3 (quorumNode todo2 os)) s3)
                     else runWaves env waves (failed2 \<or> List.member os nodeFailed) s3)))))"

text \<open>The run once its head and records are read: its document, the nodes, the waves.\<close>

definition runRevision :: "'st run_env \<Rightarrow> 'st runner \<Rightarrow> (runEnd \<times> 'st runner) option" where
  "runRevision env s =
     (let ops = re_store env;
          s1 = tick (s\<lparr>rs_store := so_others ops (rs_tick s) (rs_store s)\<rparr>)
      in case so_TaskRevision ops (rr_rev (rs_run s)) (rs_store s1) of
           Inl e \<Rightarrow> Some (finish env RunFailed (''the task's document could not be read: '' @ re_storeText env e) s1)
         | Inr doc \<Rightarrow> (case Parse (re_yaml env) doc of
             (None, problems) \<Rightarrow> Some (finish env RunFailed
                (''the task's document does not parse'' @
                 (case problems of [] \<Rightarrow> []
                  | p # _ \<Rightarrow> '': line '' @ itoa (prob_line p) @ '': '' @ re_messageText env (prob_msg p))) s1)
           | (Some t, _) \<Rightarrow> runWaves env (rr_waves (rs_run s)) False
               (tick (s1\<lparr>rs_task := Some t, rs_nodes := map_of (rev (map (\<lambda>n. (node_id n, n)) (re_nodes env (rs_tick s1))))\<rparr>))))"

definition runTask :: "'st run_env \<Rightarrow> run_record \<Rightarrow> nat \<Rightarrow> 'st \<Rightarrow> (runEnd \<times> 'st runner) option" where
  "runTask env run t0 st0 =
     (let ops = re_store env;
          s0 = \<lparr>rs_run = run, rs_task = None, rs_nodes = Map.empty, rs_recs = fmempty, rs_head = run, rs_headAt = 0,
                rs_store = so_others ops t0 st0, rs_tick = Suc t0, rs_log = []\<rparr>
      in case so_GetRun ops (rr_id run) (rs_store s0) of
           Inl e \<Rightarrow> Some (ReadRunError e, s0)
         | Inr (head, recs) \<Rightarrow> (case Now env s0 of (now, s1) \<Rightarrow>
             runRevision env (s1\<lparr>rs_head := head, rs_headAt := now, rs_recs := recs\<rparr>)))"

end
