(* ===== verification/Run_Log.thy ===== *)
theory Run_Log
  imports Task_Run
begin

text \<open>
  The log of a run: what it writes to the nodes' records and when it posts a job.  The invariant of the runner (\<open>runInv\<close>) is that
  the records it holds and has written have their steps in order, and that every job posted belongs to a step that the latest record
  written for its node has as starting; it is shown for every operation of \<^verbatim>\<open>run.go\<close>, from the step to the run.
\<close>

section \<open>What a record may look like\<close>

definition stepGood :: "task \<Rightarrow> nat \<Rightarrow> run_step_record \<Rightarrow> bool" where
  "stepGood t j st \<longleftrightarrow> sr_status st = RunStepSucceeded \<or> sr_status st = RunStepSkipped \<or>
     sr_status st = RunStepFailed \<and> step_continue_on_error (task_steps t ! j)"

definition stepWaiting :: "run_step_record \<Rightarrow> bool" where
  "stepWaiting st \<longleftrightarrow> sr_status st = [] \<or> sr_status st = RunStepPending"

definition stepKnown :: "run_step_record \<Rightarrow> bool" where
  "stepKnown st \<longleftrightarrow> stepWaiting st \<or> inFlight (sr_status st) \<or> sr_status st \<in> {RunStepSucceeded, RunStepSkipped, RunStepFailed, RunStepUnknown, RunStepCancelled}"

definition around :: "task \<Rightarrow> nat \<Rightarrow> run_step_record list \<Rightarrow> bool" where
  "around t m sts \<longleftrightarrow> (\<forall>j < length sts. (j < m \<longrightarrow> stepGood t j (sts ! j)) \<and> (j = m \<longrightarrow> stepKnown (sts ! j)) \<and> (m < j \<longrightarrow> stepWaiting (sts ! j)))"

definition ordered :: "task \<Rightarrow> nat \<Rightarrow> run_step_record list \<Rightarrow> bool" where
  "ordered t start sts \<longleftrightarrow> (\<forall>j < length sts. j < start \<longrightarrow> stepGood t j (sts ! j)) \<and> (\<exists>m. around t m sts)"

definition startOf :: "run_record \<Rightarrow> string \<Rightarrow> nat" where
  "startOf run i = nat (case fmlookup (rr_start_at run) i of None \<Rightarrow> 0 | Some k \<Rightarrow> k)"

definition recordOk :: "task \<Rightarrow> run_record \<Rightarrow> string \<Rightarrow> run_node_record \<Rightarrow> bool" where
  "recordOk t run i rec \<longleftrightarrow> nr_steps rec = [] \<or> length (nr_steps rec) = length (task_steps t) \<and> ordered t (startOf run i) (nr_steps rec)"

section \<open>What a log may look like\<close>

fun writtenBy :: "string \<Rightarrow> event \<Rightarrow> (run_node_record \<times> bool) option" where
  "writtenBy i (NodeWritten j rec ok) = (if i = j then Some (rec, ok) else None)"
| "writtenBy i (HeadWritten h ok) = None"
| "writtenBy i (JobPosted j spec) = None"
| "writtenBy i (JobCancel j job who) = None"
| "writtenBy i (HandedOver target) = None"

definition lastWritten :: "string \<Rightarrow> event list \<Rightarrow> (run_node_record \<times> bool) option" where
  "lastWritten i L = foldl (\<lambda>a e. case writtenBy i e of None \<Rightarrow> a | Some x \<Rightarrow> Some x) None L"

definition recordedJob :: "run_record \<Rightarrow> nat \<Rightarrow> run_step_record \<Rightarrow> string" where
  "recordedJob run k st = (if sr_job_id st \<noteq> [] then sr_job_id st else jobID (rr_id run) k)"

definition stepReady :: "task \<Rightarrow> run_record \<Rightarrow> run_node_record \<Rightarrow> nat \<Rightarrow> string \<Rightarrow> bool" where
  "stepReady t run rec k job \<longleftrightarrow> k < length (nr_steps rec) \<and> sr_status (nr_steps rec ! k) = RunStepStarting \<and>
     recordedJob run k (nr_steps rec ! k) = job \<and>
     (\<forall>j < k. stepGood t j (nr_steps rec ! j)) \<and> (\<forall>j < length (nr_steps rec). k < j \<longrightarrow> stepWaiting (nr_steps rec ! j))"

text \<open>What may happen after the log \<open>L\<close>: a job is posted only when the node's latest record, written with no error, has its step starting.\<close>

fun allowed :: "task \<Rightarrow> run_record \<Rightarrow> event list \<Rightarrow> event \<Rightarrow> bool" where
  "allowed t run L (NodeWritten i rec ok) = recordOk t run i rec"
| "allowed t run L (JobPosted i spec) = (\<exists>rec k. lastWritten i L = Some (rec, True) \<and> stepReady t run rec k (spec_id spec))"
| "allowed t run L _ = True"

definition logOk :: "task \<Rightarrow> run_record \<Rightarrow> event list \<Rightarrow> bool" where
  "logOk t run L \<longleftrightarrow> (\<forall>p < length L. allowed t run (take p L) (L ! p))"

lemma logOk_Nil [simp]: "logOk t run []"
  by (simp add: logOk_def)

lemma logOk_snoc [simp]: "logOk t run (L @ [e]) \<longleftrightarrow> logOk t run L \<and> allowed t run L e"
  by (auto simp: logOk_def less_Suc_eq nth_append)

lemma lastWritten_snoc [simp]: "lastWritten i (L @ [e]) = (case writtenBy i e of None \<Rightarrow> lastWritten i L | Some x \<Rightarrow> Some x)"
  by (simp add: lastWritten_def split: option.split)

section \<open>Steps that write no record and post no job\<close>

fun harmless :: "event \<Rightarrow> bool" where
  "harmless (NodeWritten i rec ok) = False"
| "harmless (JobPosted i spec) = False"
| "harmless _ = True"

definition quiet :: "'st runner \<Rightarrow> 'st runner \<Rightarrow> bool" where
  "quiet s s' \<longleftrightarrow> rs_run s' = rs_run s \<and> rs_task s' = rs_task s \<and> rs_nodes s' = rs_nodes s \<and> rs_recs s' = rs_recs s \<and>
     (\<exists>es. rs_log s' = rs_log s @ es \<and> list_all harmless es) \<and> rs_tick s \<le> rs_tick s'"

lemma quiet_refl [simp]: "quiet s s"
  by (simp add: quiet_def)

lemma quiet_trans [trans]: "quiet s s1 \<Longrightarrow> quiet s1 s2 \<Longrightarrow> quiet s s2"
  by (auto simp: quiet_def)

lemma quiet_tick [simp]: "quiet s (tick s')" if "quiet s s'"
  using that by (auto simp: quiet_def tick_def)

lemma quiet_head [simp]: "quiet s (s'\<lparr>rs_head := h\<rparr>)" "quiet s (s'\<lparr>rs_headAt := a\<rparr>)" "quiet s (s'\<lparr>rs_store := st\<rparr>)" if "quiet s s'"
  using that by (simp_all add: quiet_def)

lemma quiet_logged [simp]: "quiet s (logged e s')" if "quiet s s'" "harmless e"
  using that by (auto simp: quiet_def logged_def)

lemma quiet_Now: "Now env s = (x, s') \<Longrightarrow> quiet s s'"
  by (auto simp: Now_def)

lemma quiet_ctxDone: "ctxDone env s = (x, s') \<Longrightarrow> quiet s s'"
  by (auto simp: ctxDone_def)

lemma quiet_readHead: "readHead env fresh s = (x, s') \<Longrightarrow> quiet s s'"
  by (auto simp: readHead_def Now_def Let_def split: prod.splits if_splits sum.splits)

lemma quiet_putHead: "putHead env change s = (x, s') \<Longrightarrow> quiet s s'"
  by (auto simp: putHead_def Now_def Let_def split: prod.splits if_splits sum.splits dest!: quiet_readHead)

lemma quiet_endStep: "endStep env st status summary changed s = (x, s') \<Longrightarrow> quiet s s'"
  by (auto simp: endStep_def Now_def)

lemma quiet_quorumNow: "quorumNow env i s = (x, s') \<Longrightarrow> quiet s s'"
  by (auto simp: quorumNow_def)

lemma quiet_nodeRefused: "nodeRefused env i rec s = (x, s') \<Longrightarrow> quiet s s'"
  by (auto simp: nodeRefused_def split: if_splits)

lemma quiet_waitCancel: "waitCancel env i spec c s = (x, s') \<Longrightarrow> quiet s s'"
  by (auto simp: waitCancel_def Let_def split: prod.splits if_splits sum.splits dest!: quiet_readHead)

lemma quiet_followEnd: "followEnd env st v res s = (x, y, s') \<Longrightarrow> quiet s s'"
  by (auto simp: followEnd_def split: prod.splits if_splits dest!: quiet_endStep)

lemma quiet_refusedStep: "refusedStep env rec k spec err s = (x, y, s') \<Longrightarrow> quiet s s'"
  by (auto simp: refusedStep_def Let_def split: prod.splits if_splits jobError.splits dest!: quiet_endStep)


lemma quiet_waitStep:
  "waitStep env i spec started l s = Inl (x, s') \<Longrightarrow> quiet s s'" (is "?A \<Longrightarrow> ?Q")
  "waitStep env i spec started l s = Inr (l', s') \<Longrightarrow> quiet s s'" (is "?B \<Longrightarrow> ?Q")
proof -
  obtain view heard c where l: "l = (view, heard, c)" by (cases l)
  obtain d s1 where 1: "ctxDone env s = (d, s1)" by fastforce
  obtain c2 s2 where 2: "waitCancel env i spec c s1 = (c2, s2)" by fastforce
  obtain now s3 where 3: "Now env (tick s2) = (now, s3)" by fastforce
  obtain d2 s4 where 4: "ctxDone env s3 = (d2, s4)" by fastforce
  have q1: "quiet s s1" using 1 by (rule quiet_ctxDone)
  then have "quiet s s2" using 2 quiet_waitCancel quiet_trans by blast
  then have "quiet s (tick s2)" by simp
  then have q3: "quiet s s3" using 3 quiet_Now quiet_trans by blast
  then have q4: "quiet s s4" using 4 quiet_ctxDone quiet_trans by blast
  show "?A \<Longrightarrow> ?Q" "?B \<Longrightarrow> ?Q"
    using q1 q3 q4 by (auto simp: waitStep_def l 1 2 3 4 split: if_splits sum.splits)
qed

lemma waitStep_result: "waitStep env i spec started l s = Inl ((v, res), s') \<Longrightarrow> res = stepDone \<or> res = stepUnknown \<or> res = stepAbandoned"
  by (auto simp: waitStep_def split: prod.splits if_splits sum.splits)

lemma waitLoop_end:
  assumes "waitLoop env i spec started l s = Some r"
  shows "\<exists>l' s1. quiet s s1 \<and> waitStep env i spec started l' s1 = Inl r"
proof (rule waitLoop.raw_induct [where P = "\<lambda>env i spec started l s r. \<exists>l' s1. quiet s s1 \<and> waitStep env i spec started l' s1 = Inl r", OF _ assms], goal_cases)
  case (1 loop env i spec started l s r)
  show ?case
  proof (cases "waitStep env i spec started l s")
    case (Inl out)
    then show ?thesis using 1(2) quiet_refl by fastforce
  next
    case (Inr nx)
    obtain l' s' where n: "nx = (l', s')" by (cases nx)
    have "loop env i spec started l' s' = Some r" using 1(2) by (simp add: Inr n)
    then obtain l2 s2 where "quiet s' s2" "waitStep env i spec started l2 s2 = Inl r" using 1(1) by blast
    moreover have "quiet s s'" using quiet_waitStep(2) [of env i spec started l s l' s'] by (simp add: Inr n)
    ultimately show ?thesis using quiet_trans by blast
  qed
qed

lemma waitJob_end:
  assumes "waitJob env i spec view started s = Some ((v, res), s')"
  shows "quiet s s'" "res = stepDone \<or> res = stepUnknown \<or> res = stepAbandoned"
proof -
  obtain now s0 where n: "Now env s = (now, s0)" by fastforce
  then have "waitLoop env i spec started (view, now, False) s0 = Some ((v, res), s')" using assms by (simp add: waitJob_def)
  then obtain l s1 where l: "quiet s0 s1" "waitStep env i spec started l s1 = Inl ((v, res), s')" using waitLoop_end by blast
  show "quiet s s'" using quiet_Now [OF n] l(1) quiet_waitStep(1) [OF l(2)] quiet_trans by blast
  show "res = stepDone \<or> res = stepUnknown \<or> res = stepAbandoned" by (rule waitStep_result [OF l(2)])
qed

section \<open>The invariant of a run\<close>

definition runInv :: "task \<Rightarrow> run_record \<Rightarrow> task option \<Rightarrow> 'st runner \<Rightarrow> bool" where
  "runInv t run tk s \<longleftrightarrow> rs_run s = run \<and> rs_task s = tk \<and> (\<forall>i. recordOk t run i (record_of s i)) \<and> logOk t run (rs_log s)"

lemma harmless_log: "logOk t run (L @ es)" "lastWritten i (L @ es) = lastWritten i L" if "logOk t run L" "list_all harmless es"
proof -
  have "logOk t run (L @ es) \<and> lastWritten i (L @ es) = lastWritten i L" using that(2)
  proof (induction es rule: rev_induct)
    case (snoc e es)
    then have "logOk t run (L @ es)" "lastWritten i (L @ es) = lastWritten i L" "harmless e" by simp_all
    then have "logOk t run ((L @ es) @ [e]) \<and> lastWritten i ((L @ es) @ [e]) = lastWritten i L"
      unfolding logOk_snoc lastWritten_snoc by (cases e) simp_all
    then show ?case by simp
  qed (use that(1) in simp)
  then show "logOk t run (L @ es)" "lastWritten i (L @ es) = lastWritten i L" by simp_all
qed

lemma quiet_inv: "quiet s s' \<Longrightarrow> runInv t run tk s \<Longrightarrow> runInv t run tk s'"
  by (auto simp: quiet_def runInv_def record_of_def harmless_log)

lemma quiet_written: "quiet s s' \<Longrightarrow> runInv t run tk s \<Longrightarrow> lastWritten i (rs_log s') = lastWritten i (rs_log s)"
  by (auto simp: quiet_def runInv_def harmless_log)

lemma recOf_upd: "recOf (fmupd i rec recs) j = (if i = j then rec else recOf recs j)"
  by (simp add: recOf_def)

lemma writeNode_inv:
  assumes "writeNode env i rec s = (e, s')" "runInv t run tk s" "recordOk t run i rec"
  shows "runInv t run tk s'" "lastWritten i (rs_log s') = Some (rec, e = None)" "rs_nodes s' = rs_nodes s"
  using assms by (auto simp: writeNode_def runInv_def Let_def logged_def tick_def record_of_def recOf_upd split: prod.splits)

lemma failNode_inv:
  assumes "failNode env i rec status reason s = (out, s')" "runInv t run tk s" "recordOk t run i rec"
  shows "runInv t run tk s'"
  using assms by (auto simp: failNode_def recordOk_def split: prod.splits dest!: writeNode_inv(1))

lemma succeedNode_inv:
  assumes "succeedNode env i rec s = (out, s')" "runInv t run tk s" "recordOk t run i rec"
  shows "runInv t run tk s'"
  using assms by (auto simp: succeedNode_def recordOk_def split: prod.splits dest!: writeNode_inv(1))

section \<open>The step at hand\<close>

definition atStep :: "task \<Rightarrow> run_record \<Rightarrow> string \<Rightarrow> nat \<Rightarrow> run_node_record \<Rightarrow> bool" where
  "atStep t run i k rec \<longleftrightarrow> length (nr_steps rec) = length (task_steps t) \<and> k < length (nr_steps rec) \<and> startOf run i \<le> k \<and> (\<forall>j < k. stepGood t j (nr_steps rec ! j)) \<and>
     (\<forall>j < length (nr_steps rec). k < j \<longrightarrow> sr_status (nr_steps rec ! j) = RunStepPending)"

lemma atStep_set [simp]: "atStep t run i k (setStep rec k st) = atStep t run i k rec"
  by (auto simp: atStep_def setStep_def)

lemma atStep_reason [simp]: "atStep t run i k (rec\<lparr>nr_reason := r\<rparr>) = atStep t run i k rec"
  by (simp add: atStep_def)

lemma setStep_nth: "atStep t run i k rec \<Longrightarrow> nr_steps (setStep rec k st) ! k = st"
  by (simp add: atStep_def setStep_def)

lemma atStep_ok: "atStep t run i k rec \<Longrightarrow> stepKnown (nr_steps rec ! k) \<Longrightarrow> recordOk t run i rec"
  unfolding atStep_def recordOk_def ordered_def around_def
  by (intro disjI2 conjI exI [of _ k] allI impI) (auto simp: stepWaiting_def)

lemma stepKnown_status [simp]:
  "sr_status st = RunStepPending \<Longrightarrow> stepKnown st" "sr_status st = RunStepStarting \<Longrightarrow> stepKnown st" "sr_status st = RunStepRunning \<Longrightarrow> stepKnown st"
  "sr_status st = RunStepSucceeded \<Longrightarrow> stepKnown st" "sr_status st = RunStepSkipped \<Longrightarrow> stepKnown st" "sr_status st = RunStepFailed \<Longrightarrow> stepKnown st"
  "sr_status st = RunStepUnknown \<Longrightarrow> stepKnown st" "sr_status st = RunStepCancelled \<Longrightarrow> stepKnown st"
  by (simp_all add: stepKnown_def stepWaiting_def inFlight_def)

lemma inFlight_known: "inFlight (sr_status st) \<Longrightarrow> stepKnown st"
  by (simp add: stepKnown_def)

text \<open>The state of a runner that holds \<open>rec\<close> as node \<open>i\<close>'s record, at step \<open>k\<close>.\<close>

definition holds :: "task \<Rightarrow> run_record \<Rightarrow> task option \<Rightarrow> string \<Rightarrow> nat \<Rightarrow> run_node_record \<Rightarrow> 'st runner \<Rightarrow> bool" where
  "holds t run tk i k rec s \<longleftrightarrow> runInv t run tk s \<and> lastWritten i (rs_log s) = Some (rec, True) \<and> atStep t run i k rec \<and> stepKnown (nr_steps rec ! k)"

lemma quiet_holds: "quiet s s' \<Longrightarrow> holds t run tk i k rec s \<Longrightarrow> holds t run tk i k rec s'"
  by (auto simp: holds_def quiet_inv quiet_written)

lemma write_holds:
  assumes "writeNode env i rec s = (e, s')" "runInv t run tk s" "atStep t run i k rec" "stepKnown (nr_steps rec ! k)"
  shows "runInv t run tk s'" "e = None \<Longrightarrow> holds t run tk i k rec s'"
proof -
  note w = writeNode_inv [OF assms(1,2) atStep_ok [OF assms(3,4)]]
  show "runInv t run tk s'" by (rule w)
  show "holds t run tk i k rec s'" if "e = None"
    using w that assms(3,4) by (simp add: holds_def)
qed


section \<open>One step\<close>

definition stepPost :: "task \<Rightarrow> run_record \<Rightarrow> task option \<Rightarrow> string \<Rightarrow> nat \<Rightarrow> stepResult \<Rightarrow> run_node_record \<Rightarrow> 'st runner \<Rightarrow> bool" where
  "stepPost t run tk i k res rec s \<longleftrightarrow> runInv t run tk s \<and> (res \<noteq> stepAbandoned \<longrightarrow> holds t run tk i k rec s \<and>
     (res = stepDone \<longrightarrow> stepGood t k (nr_steps rec ! k)) \<and> (res = stepFailed \<longrightarrow> sr_status (nr_steps rec ! k) = RunStepFailed))"

lemma holdsD: "holds t run tk i k rec s \<Longrightarrow> runInv t run tk s" "holds t run tk i k rec s \<Longrightarrow> atStep t run i k rec"
  "holds t run tk i k rec s \<Longrightarrow> lastWritten i (rs_log s) = Some (rec, True)"
  by (simp_all add: holds_def)

text \<open>A step's end, written: what the step says decides whether the node goes on.\<close>

lemma write_stepPost:
  assumes "writeNode env i rec s = (e, s')" "runInv t run tk s" "atStep t run i k rec" "stepKnown (nr_steps rec ! k)"
    "res = stepDone \<Longrightarrow> stepGood t k (nr_steps rec ! k)" "res = stepFailed \<Longrightarrow> sr_status (nr_steps rec ! k) = RunStepFailed"
  shows "stepPost t run tk i k (if e \<noteq> None then stepAbandoned else res) rec s'"
  using write_holds [OF assms(1-4)] assms(5,6) by (auto simp: stepPost_def)

lemma followEnd_status:
  assumes "followEnd env step v res s = (st, res1, s')" "res = stepDone \<or> res = stepUnknown \<or> res = stepAbandoned"
  shows "stepKnown st" "res1 = stepDone \<Longrightarrow> stepGood t k st" "res1 = stepFailed \<Longrightarrow> sr_status st = RunStepFailed"
proof -
  show "stepKnown st"
    using assms(1) by (auto simp: followEnd_def endStep_def Now_def split: if_splits)
  show "stepGood t k st" if "res1 = stepDone"
    using assms that by (auto simp: followEnd_def endStep_def Now_def stepGood_def split: if_splits)
  show "sr_status st = RunStepFailed" if "res1 = stepFailed"
    using assms that by (auto simp: followEnd_def endStep_def Now_def split: if_splits)
qed

lemma follow_inv:
  assumes "follow env i rec k spec view s = Some (res, rec', s')" "runInv t run tk s" "atStep t run i k rec"
  shows "stepPost t run tk i k res rec' s'"
proof -
  obtain v r s1 where w: "waitJob env i spec view (sr_started_at (nr_steps rec ! k)) s = Some ((v, r), s1)"
    using assms(1) by (auto simp: follow_def split: option.splits)
  note q = waitJob_end [OF w]
  have i1: "runInv t run tk s1" using q(1) assms(2) by (rule quiet_inv)
  show ?thesis
  proof (cases "r = stepAbandoned")
    case True
    then show ?thesis using assms(1) i1 by (auto simp: follow_def w stepPost_def)
  next
    case False
    obtain st r1 s2 where f: "followEnd env (nr_steps rec ! k) v r s1 = (st, r1, s2)" by (metis prod_cases3)
    obtain e s3 where wr: "writeNode env i (setStep rec k st) s2 = (e, s3)" by fastforce
    have "runInv t run tk s2" using quiet_followEnd [OF f] i1 by (rule quiet_inv)
    moreover have "atStep t run i k (setStep rec k st)" using assms(3) by simp
    ultimately have "stepPost t run tk i k (if e \<noteq> None then stepAbandoned else r1) (setStep rec k st) s3"
      using followEnd_status [OF f q(2)] by (intro write_stepPost [OF wr]) (simp_all add: setStep_nth [OF assms(3)])
    then show ?thesis using assms(1) False by (auto simp: follow_def w f wr Let_def)
  qed
qed

lemma refusedStep_rec:
  assumes "refusedStep env rec k spec err s = (res, rec', s')" "atStep t run i k rec"
  shows "atStep t run i k rec'" "stepKnown (nr_steps rec' ! k)" "res = stepDone \<Longrightarrow> stepGood t k (nr_steps rec' ! k)"
    "res = stepFailed \<Longrightarrow> sr_status (nr_steps rec' ! k) = RunStepFailed"
proof -
  note n = setStep_nth [OF assms(2)]
  show "atStep t run i k rec'" "stepKnown (nr_steps rec' ! k)"
    using assms by (auto simp: refusedStep_def Let_def endStep_def Now_def n split: jobError.splits if_splits)
  show "stepGood t k (nr_steps rec' ! k)" if "res = stepDone"
    using assms that by (auto simp: refusedStep_def Let_def endStep_def Now_def n stepGood_def split: jobError.splits if_splits)
  show "sr_status (nr_steps rec' ! k) = RunStepFailed" if "res = stepFailed"
    using assms that by (auto simp: refusedStep_def Let_def endStep_def Now_def n split: jobError.splits if_splits)
qed

lemma post_inv:
  assumes "runInv t run tk s" "lastWritten i (rs_log s) = Some (rec, True)" "stepReady t run rec k (spec_id spec)"
  shows "runInv t run tk (logged (JobPosted i spec) (tick s))"
    "lastWritten i (rs_log (logged (JobPosted i spec) (tick s))) = Some (rec, True)"
  using assms by (auto simp: runInv_def logged_def tick_def record_of_def)

lemma startLoop_inv:
  "startLoop n env i spec err s = (x, s') \<Longrightarrow> runInv t run tk s \<Longrightarrow> lastWritten i (rs_log s) = Some (rec, True) \<Longrightarrow>
    stepReady t run rec k (spec_id spec) \<Longrightarrow> runInv t run tk s' \<and> lastWritten i (rs_log s') = Some (rec, True)"
proof (induction n arbitrary: err s)
  case (Suc n)
  obtain d s1 where c: "ctxDone env s = (d, s1)" by fastforce
  have 1: "runInv t run tk s1" "lastWritten i (rs_log s1) = Some (rec, True)"
    using quiet_inv [OF quiet_ctxDone [OF c] Suc.prems(2)] quiet_written [OF quiet_ctxDone [OF c] Suc.prems(2)] Suc.prems(3) by simp_all
  note p = post_inv [OF 1 Suc.prems(4)]
  show ?case
    using Suc.prems(1) 1 p Suc.IH [OF _ p Suc.prems(4)] by (auto simp: c split: if_splits sum.splits jobError.splits)
qed simp

definition jobFits :: "run_record \<Rightarrow> nat \<Rightarrow> run_node_record \<Rightarrow> job_spec \<Rightarrow> bool" where
  "jobFits run k rec spec \<longleftrightarrow> spec_id spec \<noteq> [] \<and>
     (inFlight (sr_status (nr_steps rec ! k)) \<and> sr_job_id (nr_steps rec ! k) = [] \<longrightarrow> spec_id spec = jobID (rr_id run) k)"

lemma askStarting_spec:
  assumes "askStarting env i rec k spec s = (ans, rec', spec', s')"
  shows "spec' = spec\<lparr>spec_id := (if sr_job_id (nr_steps rec ! k) \<noteq> [] then sr_job_id (nr_steps rec ! k) else spec_id spec)\<rparr>"
  using assms by (auto simp: askStarting_def Let_def split: sum.splits prod.splits if_splits)

lemma askStarting_inv:
  assumes "askStarting env i rec k spec s = (ans, rec', spec', s')" "holds t run tk i k rec s"
    "sr_status (nr_steps rec ! k) = RunStepStarting"
  shows "runInv t run tk s' \<and> (ans \<noteq> startingAbandoned \<longrightarrow> holds t run tk i k rec' s') \<and>
    (ans = startingFresh \<longrightarrow> sr_status (nr_steps rec' ! k) = RunStepPending) \<and>
    (ans = startingFollow \<or> ans = startingRepost \<longrightarrow> inFlight (sr_status (nr_steps rec' ! k)) \<and> sr_job_id (nr_steps rec' ! k) = sr_job_id (nr_steps rec ! k))"
proof -
  note at = holdsD(2) [OF assms(2)] and n = setStep_nth [OF holdsD(2) [OF assms(2)]]
  have h1: "holds t run tk i k rec (tick s)" by (rule quiet_holds [OF _ assms(2)]) simp
  have w: "runInv t run tk s2 \<and> (e = None \<longrightarrow> holds t run tk i k (setStep rec k st) s2)"
    if "writeNode env i (setStep rec k st) s1 = (e, s2)" "quiet s s1" "stepKnown st" for st s1 e s2
    using write_holds [OF that(1) quiet_inv [OF that(2) holdsD(1) [OF assms(2)]], where k = k] at that(3) n by simp
  let ?job = "if sr_job_id (nr_steps rec ! k) \<noteq> [] then sr_job_id (nr_steps rec ! k) else spec_id spec"
  show ?thesis
  proof (cases "re_GetJob env (rs_tick s) i ?job")
    case (Inl e)
    then show ?thesis using assms(1,3) h1 holdsD(1) [OF h1] at n
      by (auto simp: askStarting_def Let_def inFlight_def split: prod.splits if_splits dest!: w)
  next
    case (Inr v)
    then show ?thesis using assms(1) n quiet_Now [of env "tick s"] quiet_trans [of s "tick s"]
      by (auto simp: askStarting_def Let_def inFlight_def split: prod.splits if_splits dest!: w)
  qed
qed

lemma stepReadyI:
  assumes "atStep t run i k rec" "sr_status (nr_steps rec ! k) = RunStepStarting" "recordedJob run k (nr_steps rec ! k) = job"
  shows "stepReady t run rec k job"
  using assms by (auto simp: stepReady_def atStep_def stepWaiting_def)

text \<open>The part of \<^verbatim>\<open>runStep\<close> that posts the job, from a state where the latest written record has the step starting.\<close>

lemma posted_inv:
  assumes "startJob env i spec s = (x, s2)" "runInv t run tk s" "lastWritten i (rs_log s) = Some (recW, True)"
    "stepReady t run recW k (spec_id spec)" "atStep t run i k rec"
  shows "runInv t run tk s2"
    "\<And>e s3. x = Inr view \<Longrightarrow> writeNode env i (setStep rec k ((nr_steps rec ! k)\<lparr>sr_status := RunStepRunning\<rparr>)) s2 = (e, s3) \<Longrightarrow> runInv t run tk s3"
    "\<And>s3 s4 s5 d err res rec2 e. ctxDone env s2 = (d, s3) \<Longrightarrow> refusedStep env rec k spec err s3 = (res, rec2, s4) \<Longrightarrow> writeNode env i rec2 s4 = (e, s5) \<Longrightarrow>
      stepPost t run tk i k (if e \<noteq> None then stepAbandoned else res) rec2 s5"
proof -
  show i2: "runInv t run tk s2"
    using startLoop_inv [OF assms(1) [unfolded startJob_def] assms(2-4)] by simp
  show "runInv t run tk s3" if "x = Inr view" "writeNode env i (setStep rec k ((nr_steps rec ! k)\<lparr>sr_status := RunStepRunning\<rparr>)) s2 = (e, s3)" for e s3
    using write_holds(1) [OF that(2) i2, where k = k] assms(5) by (simp add: setStep_nth [OF assms(5)])
  show "stepPost t run tk i k (if e \<noteq> None then stepAbandoned else res) rec2 s5"
    if "ctxDone env s2 = (d, s3)" "refusedStep env rec k spec err s3 = (res, rec2, s4)" "writeNode env i rec2 s4 = (e, s5)" for s3 s4 s5 d err res rec2 e
  proof -
    have "quiet s2 s4" using quiet_ctxDone [OF that(1)] quiet_refusedStep [OF that(2)] by (rule quiet_trans)
    then have "runInv t run tk s4" using i2 by (rule quiet_inv)
    then show ?thesis using refusedStep_rec [OF that(2) assms(5)] by (intro write_stepPost [OF that(3)])
  qed
qed

lemma postStep_inv:
  assumes "runInv t run tk s" "lastWritten i (rs_log s) = Some (recW, True)" "stepReady t run recW k (spec_id spec)" "atStep t run i k rec"
    "postStep env i rec k spec s = Some (res, rec', s')"
  shows "stepPost t run tk i k res rec' s'"
proof -
  obtain x s2 where st: "startJob env i spec s = (x, s2)" by fastforce
  obtain d s3 where c: "ctxDone env s2 = (d, s3)" by fastforce
  note p = posted_inv [OF st assms(1-4)]
  have a: "stepPost t run tk i k stepAbandoned rec s3" using quiet_inv [OF quiet_ctxDone [OF c] p(1)] by (simp add: stepPost_def)
  show ?thesis
  proof (cases x)
    case (Inl err)
    show ?thesis
    proof (cases "d \<or> err = None")
      case True
      then have "res = stepAbandoned" "s' = s3" using assms(5) by (auto simp: postStep_def st c Inl split: option.splits)
      then show ?thesis using a by (simp add: stepPost_def)
    next
      case False
      then obtain y where y: "err = Some y" by blast
      obtain r rec2 s4 where f: "refusedStep env rec k spec y s3 = (r, rec2, s4)" by (metis prod_cases3)
      obtain e s5 where w: "writeNode env i rec2 s4 = (e, s5)" by fastforce
      have "res = (if e \<noteq> None then stepAbandoned else r)" "rec' = rec2" "s' = s5"
        using assms(5) False by (simp_all add: postStep_def st c Inl y f w)
      then show ?thesis using p(3) [OF c f w] by simp
    qed
  next
    case (Inr view)
    let ?rec2 = "setStep rec k ((nr_steps rec ! k)\<lparr>sr_status := RunStepRunning\<rparr>)"
    obtain e s4 where w: "writeNode env i ?rec2 s2 = (e, s4)" by fastforce
    have i4: "runInv t run tk s4" by (rule p(2) [OF Inr w])
    have r: "(if e \<noteq> None then Some (stepAbandoned, ?rec2, s4) else follow env i ?rec2 k spec view s4) = Some (res, rec', s')"
      using assms(5) by (simp add: postStep_def st Inr Let_def w)
    show ?thesis
    proof (cases "e = None")
      case True
      then have "follow env i ?rec2 k spec view s4 = Some (res, rec', s')" using r by simp
      then show ?thesis using i4 by (rule follow_inv) (simp add: assms(4))
    next
      case False
      then have "res = stepAbandoned" "s' = s4" using r by simp_all
      then show ?thesis using i4 by (simp add: stepPost_def)
    qed
  qed
qed

lemma runStep_inv:
  assumes "runStep env i rec k spec s = Some (res, rec', s')" "holds t run tk i k rec s" "jobFits run k rec spec"
    "inFlight (sr_status (nr_steps rec ! k)) \<or> sr_status (nr_steps rec ! k) = RunStepPending"
  shows "stepPost t run tk i k res rec' s'"
proof (cases "inFlight (sr_status (nr_steps rec ! k))")
  case True
  let ?step = "nr_steps rec ! k"
  let ?spec = "if sr_job_id ?step \<noteq> [] then spec\<lparr>spec_id := sr_job_id ?step\<rparr> else spec"
  obtain a s1 where n: "(if sr_started_at ?step = 0 then Now env s else (sr_started_at ?step, s)) = (a, s1)" by fastforce
  let ?rec1 = "setStep rec k (?step\<lparr>sr_started_at := a\<rparr>)"
  have "quiet s s1" using n by (auto split: if_splits dest: quiet_Now)
  then have h: "holds t run tk i k rec s1" using assms(2) by (rule quiet_holds)
  note at = holdsD(2) [OF h]
  have st: "nr_steps ?rec1 ! k = ?step\<lparr>sr_started_at := a\<rparr>" by (rule setStep_nth [OF at])
  show ?thesis
  proof (cases "sr_status ?step = RunStepRunning")
    case True
    obtain view where "follow env i ?rec1 k ?spec view s1 = Some (res, rec', s')"
      using assms(1) \<open>inFlight (sr_status ?step)\<close> True by (simp add: runStep_def n st Let_def)
    then show ?thesis using holdsD(1) [OF h] by (rule follow_inv) (simp add: at)
  next
    case False
    then have starting: "sr_status ?step = RunStepStarting" using True by (simp add: inFlight_def)
    have "postStep env i ?rec1 k ?spec s1 = Some (res, rec', s')"
      using assms(1) False True by (simp add: runStep_def n st Let_def)
    moreover have "recordedJob run k ?step = spec_id ?spec" using assms(3) True by (auto simp: recordedJob_def jobFits_def)
    then have "stepReady t run rec k (spec_id ?spec)" by (rule stepReadyI [OF at starting])
    ultimately show ?thesis using at by (intro postStep_inv [OF holdsD(1) [OF h] holdsD(3) [OF h]]) simp_all
  qed
next
  case False
  obtain now s1 where n: "Now env s = (now, s1)" by fastforce
  let ?st = "zeroStep\<lparr>sr_status := RunStepStarting, sr_job_id := spec_id spec, sr_started_at := now\<rparr>"
  obtain e s2 where w: "writeNode env i (setStep rec k ?st) s1 = (e, s2)" by fastforce
  note at = holdsD(2) [OF assms(2)]
  have i1: "runInv t run tk s1" using quiet_Now [OF n] holdsD(1) [OF assms(2)] by (rule quiet_inv)
  note wh = write_holds [OF w i1, where k = k, unfolded atStep_set setStep_nth [OF at], OF at]
  show ?thesis
  proof (cases "e = None")
    case True
    then have h: "holds t run tk i k (setStep rec k ?st) s2" using wh by simp
    have "RunStepStarting \<noteq> RunStepRunning" by (simp add: step_status_defs)
    then have "postStep env i (setStep rec k ?st) k spec s2 = Some (res, rec', s')"
      using assms(1) False True by (simp add: runStep_def n w Let_def setStep_nth [OF at])
    moreover have "recordedJob run k ?st = spec_id spec" using assms(3) by (simp add: recordedJob_def jobFits_def)
    then have "stepReady t run (setStep rec k ?st) k (spec_id spec)"
      using at by (intro stepReadyI [where i = i]) (simp_all add: setStep_nth [OF at])
    ultimately show ?thesis using at by (intro postStep_inv [OF holdsD(1) [OF h] holdsD(3) [OF h]]) simp_all
  next
    case e: False
    then have "res = stepAbandoned" "s' = s2" using assms(1) False by (simp_all add: runStep_def n w Let_def)
    then show ?thesis using wh(1) by (simp add: stepPost_def)
  qed
qed


section \<open>One node\<close>

lemma judgeStep_inv:
  assumes "holds t run tk i k rec s"
  shows "judgeStep env i n rec k spec resume s = Inl (out, s') \<Longrightarrow> runInv t run tk s'"
    "judgeStep env i n rec k spec resume s = Inr (rec', spec', s') \<Longrightarrow>
      holds t run tk i k rec s' \<and> rec' = rec \<and> spec' = spec\<lparr>spec_confirmed := List.member (rr_confirmed run) (int k)\<rparr>"
proof -
  obtain x s1 where r: "readHead env True s = (x, s1)" by fastforce
  obtain q s2 where q: "quorumNow env i s1 = (q, s2)" by fastforce
  obtain now s3 where nw: "Now env s2 = (now, s3)" by fastforce
  have h1: "holds t run tk i k rec s1" using quiet_readHead [OF r] assms by (rule quiet_holds)
  have h2: "holds t run tk i k rec s2" using quiet_quorumNow [OF q] h1 by (rule quiet_holds)
  have i3: "runInv t run tk s3" using quiet_Now [OF nw] holdsD(1) [OF h2] by (rule quiet_inv)
  note at = holdsD(2) [OF assms]
  have ok: "recordOk t run i rec" using assms atStep_ok by (auto simp: holds_def)
  have skip: "recordOk t run i (setStep rec k st)" if "stepKnown st" for st
    using at that setStep_nth [OF at] by (intro atStep_ok [where k = k]) simp_all
  have run1: "rs_run s1 = run" using h1 by (simp add: holds_def runInv_def)
  note f = failNode_inv [OF _ holdsD(1) [OF h1] ok] failNode_inv [OF _ i3 skip]
  show "runInv t run tk s'" if "judgeStep env i n rec k spec resume s = Inl (out, s')"
    using that f holdsD(1) [OF h1]
    by (fastforce simp: judgeStep_def r q nw Let_def split: sum.splits if_splits)
  show "holds t run tk i k rec s' \<and> rec' = rec \<and> spec' = spec\<lparr>spec_confirmed := List.member (rr_confirmed run) (int k)\<rparr>"
    if "judgeStep env i n rec k spec resume s = Inr (rec', spec', s')"
    using that h1 h2 by (auto simp: judgeStep_def r q nw Let_def run1 split: sum.splits if_splits)
qed

definition stepOpen :: "run_step_record \<Rightarrow> bool" where
  "stepOpen st \<longleftrightarrow> sr_status st = RunStepPending \<or> inFlight (sr_status st)"

lemma stepOpen_known: "stepOpen st \<Longrightarrow> stepKnown st"
  by (auto simp: stepOpen_def inFlight_known)

lemma jobID_nonempty: "jobID r k \<noteq> []"
  by (simp add: jobID_def)

lemma prepareStep_inv:
  assumes "holds t run tk i k rec s" "stepOpen (nr_steps rec ! k)"
  shows "prepareStep env i n rec k spec s = Inl (out, s') \<Longrightarrow> runInv t run tk s'"
    "prepareStep env i n rec k spec s = Inr (rec', spec', s') \<Longrightarrow>
      holds t run tk i k rec' s' \<and> stepOpen (nr_steps rec' ! k) \<and> jobFits run k rec' spec'"
proof -
  let ?spec = "spec\<lparr>spec_id := jobID (rr_id (rs_run s)) k, spec_run_id := rr_id (rs_run s)\<rparr>"
  obtain d s1 where c: "ctxDone env s = (d, s1)" by fastforce
  obtain ans rec1 spec1 s2 where a: "askStarting env i rec k ?spec s1 = (ans, rec1, spec1, s2)" by (metis prod_cases4)
  have h1: "holds t run tk i k rec s1" using quiet_ctxDone [OF c] assms(1) by (rule quiet_holds)
  have r: "rs_run s = run" using assms(1) by (simp add: holds_def runInv_def)
  note ask = askStarting_inv [OF a h1] and sp = askStarting_spec [OF a]
  have go: "holds t run tk i k rec1 s2 \<and> stepOpen (nr_steps rec1 ! k) \<and> jobFits run k rec1 spec1"
    if "sr_status (nr_steps rec ! k) = RunStepStarting" "ans \<noteq> startingAbandoned"
    using ask [OF that(1)] that(2) sp
    by (cases ans) (auto simp: stepOpen_def jobFits_def r inFlight_def jobID_nonempty step_status_defs)
  have fit: "jobFits run k rec ?spec" by (simp add: jobFits_def r jobID_nonempty)
  have i2: "runInv t run tk s2" if "sr_status (nr_steps rec ! k) = RunStepStarting" using ask [OF that] by simp
  let ?starting = "sr_status (nr_steps rec ! k) = RunStepStarting"
  have eq: "prepareStep env i n rec k spec s =
      (if d then Inl (nodeAbandoned, s1) else if ?starting then (if ans = startingAbandoned then Inl (nodeAbandoned, s2)
         else judgeStep env i n rec1 k spec1 (ans \<noteq> startingFresh) s2)
       else judgeStep env i n rec k ?spec (inFlight (sr_status (nr_steps rec ! k))) s1)"
    by (simp only: prepareStep_def Let_def c a prod.case)
  show "runInv t run tk s'" if "prepareStep env i n rec k spec s = Inl (out, s')"
  proof (cases "?starting \<and> ans \<noteq> startingAbandoned")
    case True
    then show ?thesis using that go holdsD(1) [OF h1] judgeStep_inv(1) [of t run tk i k rec1 s2] by (simp add: eq split: if_splits)
  next
    case False
    then show ?thesis using that i2 holdsD(1) [OF h1] judgeStep_inv(1) [OF h1] by (simp add: eq split: if_splits)
  qed
  show "holds t run tk i k rec' s' \<and> stepOpen (nr_steps rec' ! k) \<and> jobFits run k rec' spec'"
    if p: "prepareStep env i n rec k spec s = Inr (rec', spec', s')"
  proof (cases ?starting)
    case True
    then have g: "holds t run tk i k rec1 s2" "stepOpen (nr_steps rec1 ! k)" "jobFits run k rec1 spec1"
      using go p by (simp_all add: eq split: if_splits)
    have "judgeStep env i n rec1 k spec1 (ans \<noteq> startingFresh) s2 = Inr (rec', spec', s')" using p True by (simp add: eq split: if_splits)
    from judgeStep_inv(2) [OF g(1) this] show ?thesis using g by (simp add: jobFits_def)
  next
    case False
    then have "judgeStep env i n rec k ?spec (inFlight (sr_status (nr_steps rec ! k))) s1 = Inr (rec', spec', s')" using p by (simp add: eq split: if_splits)
    from judgeStep_inv(2) [OF h1 this] show ?thesis using assms(2) fit by (simp add: jobFits_def)
  qed
qed


lemma continueOnError_of: "runInv t run (Some t) s \<Longrightarrow> continueOnError s k = step_continue_on_error (task_steps t ! k)"
  by (simp add: runInv_def continueOnError_def theTask_def)

lemma afterStep_inv:
  assumes "stepPost t run (Some t) i k res rec s"
  shows "afterStep env i rec k res s = Some (out, s') \<Longrightarrow> runInv t run (Some t) s'"
    "afterStep env i rec k res s = None \<Longrightarrow> holds t run (Some t) i k rec s \<and> stepGood t k (nr_steps rec ! k)"
proof -
  have i: "runInv t run (Some t) s" and h: "res \<noteq> stepAbandoned \<Longrightarrow> holds t run (Some t) i k rec s"
    and g: "res = stepDone \<Longrightarrow> stepGood t k (nr_steps rec ! k)" and f: "res = stepFailed \<Longrightarrow> sr_status (nr_steps rec ! k) = RunStepFailed"
    using assms by (auto simp: stepPost_def)
  have ok: "recordOk t run i rec" if "res \<noteq> stepAbandoned" using h [OF that] atStep_ok by (auto simp: holds_def)
  note c = continueOnError_of [OF i]
  show "runInv t run (Some t) s'" if "afterStep env i rec k res s = Some (out, s')"
    using that i ok failNode_inv [OF _ i] by (cases res) (auto simp: afterStep_def split: if_splits)
  show "holds t run (Some t) i k rec s \<and> stepGood t k (nr_steps rec ! k)" if "afterStep env i rec k res s = None"
    using that h g f by (cases res) (auto simp: afterStep_def c stepGood_def split: if_splits)
qed

text \<open>Between two steps: the steps are good up to some \<open>m\<close> not before \<open>k\<close>, that one is open and the others are pending.\<close>

definition openAt :: "task \<Rightarrow> run_record \<Rightarrow> string \<Rightarrow> nat \<Rightarrow> run_node_record \<Rightarrow> bool" where
  "openAt t run i m rec \<longleftrightarrow> (startOf run i \<le> m \<or> length (nr_steps rec) \<le> m) \<and> (\<forall>j < length (nr_steps rec).
     (j < m \<longrightarrow> stepGood t j (nr_steps rec ! j)) \<and> (j = m \<longrightarrow> stepOpen (nr_steps rec ! j)) \<and>
     (m < j \<longrightarrow> sr_status (nr_steps rec ! j) = RunStepPending))"

definition loopAt :: "task \<Rightarrow> run_record \<Rightarrow> string \<Rightarrow> nat \<Rightarrow> run_node_record \<Rightarrow> bool" where
  "loopAt t run i k rec \<longleftrightarrow> length (nr_steps rec) = length (task_steps t) \<and> (\<exists>m \<ge> k. openAt t run i m rec)"

lemma stepGood_not_open: "stepGood t j st \<Longrightarrow> \<not> stepOpen st"
  by (auto simp: stepGood_def stepOpen_def inFlight_def step_status_defs)

lemma openAt_ordered: "openAt t run i m rec \<Longrightarrow> ordered t (startOf run i) (nr_steps rec)"
  unfolding openAt_def ordered_def around_def by (intro conjI exI [of _ m]) (auto simp: stepOpen_known stepWaiting_def)

lemma loopAt_ok: "loopAt t run i k rec \<Longrightarrow> recordOk t run i rec"
  by (auto simp: loopAt_def recordOk_def openAt_ordered)

lemma openAt_le: "openAt t run i m rec \<Longrightarrow> k < length (nr_steps rec) \<Longrightarrow> k \<le> m \<Longrightarrow> stepOpen (nr_steps rec ! k) \<longleftrightarrow> m = k"
  by (auto simp: openAt_def le_less stepGood_not_open)

lemma loopAt_open:
  assumes "loopAt t run i k rec" "k < length (nr_steps rec)" "stepOpen (nr_steps rec ! k)"
  shows "atStep t run i k rec"
proof -
  obtain m where "k \<le> m" "openAt t run i m rec" using assms(1) by (auto simp: loopAt_def)
  then have "openAt t run i k rec" using openAt_le assms(2,3) by metis
  then show ?thesis using assms(1,2) by (simp add: atStep_def openAt_def loopAt_def)
qed

lemma loopAt_closed:
  assumes "loopAt t run i k rec" "k < length (nr_steps rec)" "\<not> stepOpen (nr_steps rec ! k)"
  shows "loopAt t run i (Suc k) rec"
proof -
  obtain m where m: "k \<le> m" "openAt t run i m rec" using assms(1) by (auto simp: loopAt_def)
  then have "Suc k \<le> m" using openAt_le [OF m(2) assms(2) m(1)] assms(3) by simp
  then show ?thesis using assms(1) m(2) by (auto simp: loopAt_def)
qed

lemma loopAt_next:
  assumes "atStep t run i k rec" "stepGood t k (nr_steps rec ! k)"
  shows "loopAt t run i (Suc k) rec"
proof -
  have "openAt t run i (Suc k) rec" using assms by (auto simp: openAt_def atStep_def stepOpen_def less_Suc_eq)
  then show ?thesis using assms(1) by (auto simp: loopAt_def atStep_def)
qed

lemma runSteps_inv:
  "runSteps env i n k specs rec s = Some (out, s') \<Longrightarrow> runInv t run (Some t) s \<Longrightarrow> lastWritten i (rs_log s) = Some (rec, True) \<Longrightarrow>
    loopAt t run i k rec \<Longrightarrow> k + length specs = length (nr_steps rec) \<Longrightarrow> runInv t run (Some t) s'"
proof (induction specs arbitrary: k rec s)
  case Nil
  then show ?case using succeedNode_inv loopAt_ok by (metis option.inject runSteps.simps(1))
next
  case (Cons spec specs)
  have k: "k < length (nr_steps rec)" using Cons.prems(5) by simp
  show ?case
  proof (cases "stepOpen (nr_steps rec ! k)")
    case False
    then have "runSteps env i n (Suc k) specs rec s = Some (out, s')" using Cons.prems(1) by (simp add: stepOpen_def)
    then show ?thesis using Cons.prems(5) by (intro Cons.IH [OF _ Cons.prems(2,3) loopAt_closed [OF Cons.prems(4) k False]]) simp_all
  next
    case True
    have h: "holds t run (Some t) i k rec s" using Cons.prems loopAt_open [OF Cons.prems(4) k True] stepOpen_known [OF True] by (simp add: holds_def)
    note p = prepareStep_inv [OF h True]
    have e: "(case prepareStep env i n rec k spec s of
        Inl out \<Rightarrow> Some out
      | Inr (rec1, spec1, s1) \<Rightarrow> (case runStep env i rec1 k spec1 s1 of
          None \<Rightarrow> None
        | Some (res, rec2, s2) \<Rightarrow> (case afterStep env i rec2 k res s2 of
            Some out \<Rightarrow> Some out
          | None \<Rightarrow> runSteps env i n (Suc k) specs rec2 s2))) = Some (out, s')"
      using Cons.prems(1) True by (auto simp: stepOpen_def)
    show ?thesis
    proof (cases "prepareStep env i n rec k spec s")
      case (Inl o1)
      then show ?thesis using e p(1) by (cases o1) simp
    next
      case (Inr r1)
      obtain rec1 spec1 s1 where r1: "r1 = (rec1, spec1, s1)" by (cases r1)
      obtain res rec2 s2 where r2: "runStep env i rec1 k spec1 s1 = Some (res, rec2, s2)" using e by (auto simp: Inr r1 split: option.splits)
      have "stepPost t run (Some t) i k res rec2 s2"
        using p(2) [OF Inr [unfolded r1]] by (intro runStep_inv [OF r2]) (auto simp: stepOpen_def)
      note a = afterStep_inv [OF this]
      show ?thesis
      proof (cases "afterStep env i rec2 k res s2")
        case (Some o2)
        then show ?thesis using e a(1) by (cases o2) (simp add: Inr r1 r2)
      next
        case None
        then have "runSteps env i n (Suc k) specs rec2 s2 = Some (out, s')" using e by (simp add: Inr r1 r2)
        moreover have h2: "holds t run (Some t) i k rec2 s2" "stepGood t k (nr_steps rec2 ! k)" using a(2) None by blast+
        have "length (nr_steps rec2) = length (nr_steps rec)"
          using holdsD(2) [OF h2(1)] holdsD(2) [OF h] by (simp add: atStep_def)
        ultimately show ?thesis using Cons.prems(5)
          by (intro Cons.IH [OF _ holdsD(1,3) [OF h2(1)] loopAt_next [OF holdsD(2) [OF h2(1)] h2(2)]]) simp_all
      qed
    qed
  qed
qed


lemma renderSteps_length: "renderSteps r t i ss = Inr specs \<Longrightarrow> length specs = length ss"
  by (induction ss arbitrary: i specs) (auto split: prod.splits option.splits sum.splits)

lemma Render_length: "Render t inputs node = Inr specs \<Longrightarrow> length specs = length (task_steps t)"
  by (auto simp: Render_def renderSteps_length split: sum.splits)

lemma closeSteps_inv:
  "closeSteps env i rec k sts s = Some (out, s') \<Longrightarrow> runInv t run tk s \<Longrightarrow> recordOk t run i rec \<Longrightarrow> runInv t run tk s'"
  by (induction env i rec k sts s rule: closeSteps.induct) (auto split: if_splits dest: failNode_inv succeedNode_inv)

lemma closeSteps_None:
  "closeSteps env i rec k sts s = None \<Longrightarrow> runInv t run (Some t) s \<Longrightarrow>
    \<exists>m < length sts. (\<forall>j < m. stepGood t (k + j) (sts ! j)) \<and>
      sr_status (sts ! m) \<notin> {RunStepSucceeded, RunStepSkipped, RunStepFailed, RunStepUnknown, RunStepCancelled}"
proof (induction sts arbitrary: k)
  case (Cons st sts)
  show ?case
  proof (cases "stepGood t k st")
    case True
    then have "closeSteps env i rec (Suc k) sts s = None"
      using Cons.prems by (auto simp: stepGood_def continueOnError_of [OF Cons.prems(2)] split: if_splits)
    from Cons.IH [OF this Cons.prems(2)] obtain m where m: "m < length sts" "\<forall>j < m. stepGood t (Suc k + j) (sts ! j)"
      "sr_status (sts ! m) \<notin> {RunStepSucceeded, RunStepSkipped, RunStepFailed, RunStepUnknown, RunStepCancelled}" by blast
    show ?thesis using m True by (intro exI [of _ "Suc m"]) (auto simp: less_Suc_eq_0_disj)
  next
    case False
    then show ?thesis using Cons.prems(1)
      by (intro exI [of _ 0]) (auto simp: stepGood_def continueOnError_of [OF Cons.prems(2)] split: if_splits)
  qed
qed simp

lemma newStep_status:
  "stepWaiting st \<Longrightarrow> int j < start \<Longrightarrow> sr_status (newStep s start j st) = RunStepSucceeded"
  "stepWaiting st \<Longrightarrow> \<not> int j < start \<Longrightarrow> sr_status (newStep s start j st) = RunStepPending"
  "\<not> stepWaiting st \<Longrightarrow> newStep s start j st = st"
  "sr_status (newStep s start j st) \<noteq> []"
  by (auto simp: newStep_def stepWaiting_def step_status_defs)

lemma stepGood_not_waiting: "stepGood t j st \<Longrightarrow> \<not> stepWaiting st"
  by (auto simp: stepGood_def stepWaiting_def step_status_defs)

lemma newStep_good: "stepGood t j (newStep s start j st)" if "stepGood t j st \<or> stepWaiting st \<and> int j < start"
  using that newStep_status(1,3) stepGood_not_waiting by (metis stepGood_def)

lemma newRecord_steps:
  assumes "runInv t run (Some t) s" "nr_steps (record_of s i) = [] \<or> length (nr_steps (record_of s i)) = length (task_steps t)"
  shows "length (nr_steps (newRecord s i)) = length (task_steps t)"
    "j < length (task_steps t) \<Longrightarrow> nr_steps (newRecord s i) ! j =
      newStep s (case fmlookup (rr_start_at run) i of None \<Rightarrow> 0 | Some k \<Rightarrow> k) j (if nr_steps (record_of s i) = [] then zeroStep else nr_steps (record_of s i) ! j)"
proof -
  have t: "theTask s = t" "rs_run s = run" using assms(1) by (simp_all add: runInv_def theTask_def)
  show "length (nr_steps (newRecord s i)) = length (task_steps t)" using assms(2) by (auto simp: newRecord_def Let_def t)
  show "nr_steps (newRecord s i) ! j =
      newStep s (case fmlookup (rr_start_at run) i of None \<Rightarrow> 0 | Some k \<Rightarrow> k) j (if nr_steps (record_of s i) = [] then zeroStep else nr_steps (record_of s i) ! j)"
    if "j < length (task_steps t)"
    using assms(2) that by (auto simp: newRecord_def Let_def t nth_enumerate_eq simp del: take_all_iff)
qed

lemma newRecord_ordered:
  assumes "runInv t run (Some t) s"
  shows "ordered t (startOf run i) (nr_steps (newRecord s i))" "length (nr_steps (newRecord s i)) = length (task_steps t)"
    "j < length (task_steps t) \<Longrightarrow> sr_status (nr_steps (newRecord s i) ! j) \<noteq> []"
proof -
  let ?start = "case fmlookup (rr_start_at run) i of None \<Rightarrow> 0 | Some k \<Rightarrow> k"
  have ok: "recordOk t run i (record_of s i)" using assms by (simp add: runInv_def)
  then have l: "nr_steps (record_of s i) = [] \<or> length (nr_steps (record_of s i)) = length (task_steps t)" by (auto simp: recordOk_def)
  note n = newRecord_steps [OF assms l]
  show "length (nr_steps (newRecord s i)) = length (task_steps t)" by (rule n)
  show "j < length (task_steps t) \<Longrightarrow> sr_status (nr_steps (newRecord s i) ! j) \<noteq> []" by (simp add: n(2) newStep_status(4))
  have st: "int j < ?start \<longleftrightarrow> j < startOf run i" for j by (auto simp: startOf_def)
  show "ordered t (startOf run i) (nr_steps (newRecord s i))"
  proof (cases "nr_steps (record_of s i) = []")
    case True
    have z: "stepWaiting zeroStep" by (simp add: stepWaiting_def zeroStep_def)
    have "around t (startOf run i) (nr_steps (newRecord s i))"
      using z newStep_good [where st = zeroStep and s = s and start = ?start and t = t] newStep_status(2) [OF z, where start = ?start and s = s]
      by (auto simp: around_def n True st stepWaiting_def)
    then show ?thesis by (auto simp: ordered_def around_def)
  next
    case False
    then obtain m where m: "\<forall>j < length (task_steps t). j < startOf run i \<longrightarrow> stepGood t j (nr_steps (record_of s i) ! j)"
      "around t m (nr_steps (record_of s i))" using ok by (auto simp: recordOk_def ordered_def)
    have k: "stepKnown (newStep s ?start j st)" if "stepKnown st" for j st
      using that newStep_status [where st = st and j = j and start = ?start and s = s] by (cases "stepWaiting st"; cases "int j < ?start") simp_all
    have w: "stepWaiting (newStep s ?start j st)" if "stepWaiting st" "\<not> j < startOf run i" for j st
      using that newStep_status(2) [where st = st and j = j and start = ?start and s = s] by (simp add: st stepWaiting_def)
    show ?thesis using m False l
      by (auto simp: ordered_def around_def n newStep_good intro!: exI [of _ m] k w) (blast dest: stepGood_not_waiting)
  qed
qed

lemma newRecord_ok: "runInv t run (Some t) s \<Longrightarrow> recordOk t run i (newRecord s i)"
  using newRecord_ordered by (auto simp: recordOk_def)

text \<open>A node whose record does not close it has its first step that is not good open, and the ones after it pending.\<close>

lemma notClosed_loopAt:
  assumes "runInv t run (Some t) s" "closeFromRecord env i (newRecord s i) s = None"
  shows "loopAt t run i 0 (newRecord s i)"
proof -
  let ?sts = "nr_steps (newRecord s i)"
  note o = newRecord_ordered [OF assms(1), where i = i]
  obtain m where m: "m < length ?sts" "\<forall>j < m. stepGood t j (?sts ! j)"
    "sr_status (?sts ! m) \<notin> {RunStepSucceeded, RunStepSkipped, RunStepFailed, RunStepUnknown, RunStepCancelled}"
    using closeSteps_None [OF assms(2) [unfolded closeFromRecord_def] assms(1)] by auto
  have ng: "\<not> stepGood t m (?sts ! m)" using m(3) by (auto simp: stepGood_def)
  obtain a where a: "around t a ?sts" using o(1) by (auto simp: ordered_def)
  have am: "a = m \<or> Suc a = m"
  proof -
    have "\<not> m < a" using a ng m(1) by (auto simp: around_def)
    moreover have "\<not> Suc a < m"
    proof
      assume "Suc a < m"
      then have "stepGood t (Suc a) (?sts ! Suc a)" "stepWaiting (?sts ! Suc a)" using m(1,2) a by (simp_all add: around_def)
      then show False using stepGood_not_waiting by blast
    qed
    ultimately show ?thesis by linarith
  qed
  have pend: "sr_status (?sts ! j) = RunStepPending" if "j < length ?sts" "stepWaiting (?sts ! j)" for j
    using that o(2,3) by (simp add: stepWaiting_def)
  have "stepOpen (?sts ! m)"
  proof (cases "stepWaiting (?sts ! m)")
    case True
    then show ?thesis using pend m(1) by (simp add: stepOpen_def)
  next
    case False
    then have "a = m" using am a m(1) by (auto simp: around_def)
    then have "stepKnown (?sts ! m)" using a m(1) by (simp add: around_def)
    then show ?thesis using False m(3) by (auto simp: stepKnown_def stepOpen_def)
  qed
  moreover have "startOf run i \<le> m" using o(1) ng m(1) by (meson not_less ordered_def)
  moreover have "sr_status (?sts ! j) = RunStepPending" if "m < j" "j < length ?sts" for j
    using pend [OF that(2)] a am that by (auto simp: around_def)
  ultimately have "openAt t run i m (newRecord s i)" using m(2) by (simp add: openAt_def)
  then show ?thesis using o(2) by (auto simp: loopAt_def)
qed

lemma loopAt_status [simp]: "loopAt t run i k (rec\<lparr>nr_status := a, nr_reason := b\<rparr>) = loopAt t run i k rec"
  by (simp add: loopAt_def openAt_def)

lemma runNode_inv:
  assumes "runNode env i s = Some (out, s')" "runInv t run (Some t) s"
  shows "runInv t run (Some t) s'"
proof (cases "closeFromRecord env i (newRecord s i) s")
  case (Some o1)
  then show ?thesis using assms closeSteps_inv [OF _ assms(2) newRecord_ok [OF assms(2)]]
    by (cases o1) (simp add: runNode_def Let_def closeFromRecord_def)
next
  case None
  let ?rec = "newRecord s i"
  let ?rec1 = "?rec\<lparr>nr_status := RunNodeRunning, nr_reason := []\<rparr>"
  obtain why s1 where r: "nodeRefused env i ?rec s = (why, s1)" by fastforce
  have i1: "runInv t run (Some t) s1" using quiet_nodeRefused [OF r] assms(2) by (rule quiet_inv)
  have t: "theTask s1 = t" "rs_run s1 = run" using i1 by (simp_all add: runInv_def theTask_def)
  obtain e s2 where w: "writeNode env i ?rec1 s1 = (e, s2)" by fastforce
  have l: "loopAt t run i 0 ?rec1" using notClosed_loopAt [OF assms(2) None] by simp
  note wi = writeNode_inv [OF w i1 loopAt_ok [OF l]]
  note f = failNode_inv [OF _ i1 newRecord_ok [OF assms(2)]]
  show ?thesis
  proof (cases "Render t (fmlookup (rr_inputs run)) (nodeVarsOf (re_host env) (the (rs_nodes s1 i)))")
    case (Inl err)
    then show ?thesis using assms(1) f by (cases why) (auto simp: runNode_def Let_def None r t)
  next
    case (Inr specs)
    have "length specs = length (nr_steps ?rec1)" using Render_length [OF Inr] newRecord_ordered(2) [OF assms(2)] by simp
    then have "runInv t run (Some t) s'" if "e = None" "runSteps env i (the (rs_nodes s1 i)) 0 specs ?rec1 s2 = Some (out, s')"
      using wi that l by (intro runSteps_inv [OF that(2)]) simp_all
    then show ?thesis using assms(1) f wi(1) Inr by (cases why) (auto simp: runNode_def Let_def None r t w split: if_splits)
  qed
qed

lemma runNodes_inv: "runNodes env ids s = Some (outs, s') \<Longrightarrow> runInv t run (Some t) s \<Longrightarrow> runInv t run (Some t) s'"
  by (induction ids arbitrary: outs s) (auto split: option.splits, metis runNode_inv)


section \<open>One run\<close>

lemma recordOk_status [simp]: "recordOk t run i (rec\<lparr>nr_status := a, nr_reason := b\<rparr>) = recordOk t run i rec"
  by (simp add: recordOk_def)

lemma finishNodes_inv:
  "finishNodes env reason ids s = (ok, s') \<Longrightarrow> runInv t run tk s \<Longrightarrow> tk = None \<or> tk = Some t \<Longrightarrow> runInv t run tk s'"
proof (induction ids arbitrary: s)
  case (Cons i ids)
  let ?rec = "record_of s i"
  let ?rec1 = "(if rs_task s \<noteq> None then newRecord s i else ?rec)\<lparr>nr_status := RunNodeStopped, nr_reason := reason\<rparr>"
  obtain e s1 where w: "writeNode env i ?rec1 s = (e, s1)" by fastforce
  have "recordOk t run i ?rec1" using Cons.prems(2,3) newRecord_ok by (auto simp: runInv_def)
  then have "runInv t run tk s1" by (rule writeNode_inv(1) [OF w Cons.prems(2)])
  then show ?case using Cons.prems Cons.IH w by (auto simp: Let_def split: if_splits)
qed simp

lemma quiet_pruneRuns: "quiet s (pruneRuns env s)"
  by (simp add: pruneRuns_def Let_def)

lemma finish_inv:
  assumes "finish env status reason s = (out, s')" "runInv t run tk s" "tk = None \<or> tk = Some t"
  shows "runInv t run tk s'"
proof -
  obtain ok s1 where f: "finishNodes env (if reason = [] then ''the run ended before the node's turn'' else reason) (rr_nodes (rs_run s)) s = (ok, s1)" by fastforce
  obtain e s2 where p: "putHead env (\<lambda>now h. h\<lparr>rr_status := status, rr_reason := reason, rr_ended_at := now\<rparr>) s1 = (e, s2)" by fastforce
  have i1: "runInv t run tk s1" by (rule finishNodes_inv [OF f assms(2,3)])
  have i2: "runInv t run tk s2" using quiet_putHead [OF p] i1 by (rule quiet_inv)
  then have "runInv t run tk (pruneRuns env s2)" using quiet_pruneRuns quiet_inv by blast
  then show ?thesis using assms(1) i1 i2 by (auto simp: finish_def f p split: if_splits)
qed

lemma stop_inv:
  assumes "stop env head s = Some (out, s')" "runInv t run (Some t) s"
  shows "runInv t run (Some t) s'"
  using assms finish_inv [where tk = "Some t"] runNodes_inv by (fastforce simp: stop_def split: option.splits if_splits)

lemma handOver_inv:
  assumes "handOver env s = (x, s')" "runInv t run (Some t) s"
  shows "runInv t run (Some t) s'"
proof -
  obtain e1 s1 where 1: "putHead env (headMoves RunRunning RunHandingOver) s = (e1, s1)" by fastforce
  obtain h s2 where 2: "readHead env False s1 = (h, s2)" by fastforce
  obtain target herr where t: "re_HandOver env (rs_tick s2) = (target, herr)" by fastforce
  let ?s3 = "logged (HandedOver target) (tick s2)"
  obtain e4 s4 where 4: "putHead env (headMoves RunHandingOver RunRunning) ?s3 = (e4, s4)" by fastforce
  have i1: "runInv t run (Some t) s1" using quiet_putHead [OF 1] assms(2) by (rule quiet_inv)
  have i2: "runInv t run (Some t) s2" using quiet_readHead [OF 2] i1 by (rule quiet_inv)
  have i3: "runInv t run (Some t) ?s3" by (rule quiet_inv [OF _ i2]) simp
  have i4: "runInv t run (Some t) s4" using quiet_putHead [OF 4] i3 by (rule quiet_inv)
  have w: "runInv t run (Some t) s5" if "writeNode env i ((newRecord s4 i)\<lparr>nr_status := a, nr_reason := b\<rparr>) s4 = (e5, s5)" for i a b e5 s5
    using writeNode_inv(1) [OF that i4] newRecord_ok [OF i4] by simp
  show ?thesis using assms(1) i1 i2 i3 i4
    by (auto simp: handOver_def 1 2 t 4 Let_def split: option.splits if_splits sum.splits prod.splits dest!: w)
qed

lemma ownTurn_inv:
  assumes "runInv t run (Some t) s"
  shows "ownTurn env todo failed s = Inl (out, s') \<Longrightarrow> runInv t run (Some t) s'"
    "ownTurn env todo failed s = Inr (todo', failed', s') \<Longrightarrow> runInv t run (Some t) s'"
  using assms handOver_inv by (auto simp: ownTurn_def split: if_splits prod.splits sum.splits)

lemma runWaves_inv:
  "runWaves env waves failed s = Some (out, s') \<Longrightarrow> runInv t run (Some t) s \<Longrightarrow> runInv t run (Some t) s'"
proof (induction waves arbitrary: failed s)
  case Nil
  obtain h s1 where r: "readHead env True s = (h, s1)" by fastforce
  have i1: "runInv t run (Some t) s1" using quiet_readHead [OF r] Nil.prems(2) by (rule quiet_inv)
  then show ?case using Nil.prems(1) finish_inv [OF _ i1] stop_inv [OF _ i1] by (auto simp: r split: sum.splits if_splits)
next
  case (Cons wave waves)
  obtain h s1 where r: "readHead env True (tick (tick s)) = (h, s1)" by fastforce
  have "quiet s (tick (tick s))" by simp
  then have i0: "runInv t run (Some t) (tick (tick s))" using Cons.prems(2) quiet_inv by blast
  have i1: "runInv t run (Some t) s1" using quiet_readHead [OF r] i0 by (rule quiet_inv)
  let ?failed = "failed \<or> list_ex (\<lambda>i. nodeFailedStatus (nr_status (record_of s1 i))) wave"
  let ?todo = "filter (\<lambda>i. \<not> nodeEnded (nr_status (record_of s1 i))) wave"
  have own: "runInv t run (Some t) s'"
    if "ownTurn env ?todo ?failed s1 = Inr (todo2, failed2, s2)" "runNodes env todo2 s2 = Some (outs, s3)"
      "(if List.member outs nodeAbandoned then Some (Abandoned, s3)
        else if quorumNode todo2 outs \<noteq> [] then Some (finish env RunStopped (quorumText s3 (quorumNode todo2 outs)) s3)
        else runWaves env waves (failed2 \<or> List.member outs nodeFailed) s3) = Some (out, s')" for todo2 failed2 s2 outs s3
  proof -
    have i3: "runInv t run (Some t) s3" using that(2) ownTurn_inv(2) [OF i1 that(1)] by (rule runNodes_inv)
    then show ?thesis using that(3) finish_inv [OF _ i3] Cons.IH [OF _ i3] by (auto split: if_splits)
  qed
  show ?case using Cons.prems(1) i0 i1 finish_inv [OF _ i1] stop_inv [OF _ i1] Cons.IH [OF _ i1] ownTurn_inv(1) [OF i1] own
    by (auto simp: r Let_def split: if_splits sum.splits option.splits)
qed

end
