(* ===== verification/Run_Safety.thy ===== *)
theory Run_Safety
  imports Run_Log
begin

text \<open>
  What a run promises: it returns (the waiting for a job ends when time passes and the node falls silent or says that it ended), its log is
  in order, a stopping run starts nothing, a manager is rebooted only while the others keep the quorum, and the end of a run leaves no node
  waiting.  The last section runs the sample task on a store in memory.
\<close>


section \<open>A run returns\<close>

lemma waitStep_tick: "waitStep env i spec started l s = Inr (l', s') \<Longrightarrow> rs_tick s < rs_tick s'"
proof -
  obtain view heard c where l: "l = (view, heard, c)" by (cases l)
  obtain d s1 where 1: "ctxDone env s = (d, s1)" by fastforce
  obtain c2 s2 where 2: "waitCancel env i spec c s1 = (c2, s2)" by fastforce
  have ticks: "Now env (tick u) = (re_now env (Suc (rs_tick u)), tick (tick u))"
    "ctxDone env (tick (tick u)) = (re_done env (Suc (Suc (rs_tick u))), tick (tick (tick u)))" "rs_tick (tick u) = Suc (rs_tick u)" for u :: "'a runner"
    by (simp_all add: Now_def ctxDone_def tick_def)
  have "rs_tick s < rs_tick s1" using 1 by (auto simp: ctxDone_def tick_def)
  also have "rs_tick s1 \<le> rs_tick s2" using quiet_waitCancel [OF 2] by (simp add: quiet_def)
  finally show "waitStep env i spec started l s = Inr (l', s') \<Longrightarrow> rs_tick s < rs_tick s'"
    by (auto simp: ticks waitStep_def l 1 2 split: if_splits sum.splits)
qed

definition silentFrom :: "'st run_env \<Rightarrow> string \<Rightarrow> job_spec \<Rightarrow> nat \<Rightarrow> bool" where
  "silentFrom env i spec q \<longleftrightarrow> (\<forall>t \<ge> q. \<forall>v. re_GetJob env t i (spec_id spec) = Inr v \<longrightarrow>
     \<not> active (view_status v) \<or> spec_kind spec = StepReboot \<and> view_status v = JobRebooting)"

lemma silentFrom_later: "silentFrom env i spec q \<Longrightarrow> q \<le> q' \<Longrightarrow> silentFrom env i spec q'"
  unfolding silentFrom_def by (meson order_trans)

text \<open>A turn that goes on, once no answer says the job is under way: the node's silence is not yet too long.\<close>

lemma waitStep_on:
  assumes "waitStep env i spec started (view, heard, c) s = Inr ((view', heard', c'), s')" "active (view_status view')"
    "silentFrom env i spec (rs_tick s)"
  shows "\<exists>t \<ge> rs_tick s. if spec_kind spec = StepReboot then re_now env t < rebootBy spec started else heard' = heard \<and> re_now env t - heard < lostAfter"
proof -
  obtain d s1 where 1: "ctxDone env s = (d, s1)" by fastforce
  obtain c2 s2 where 2: "waitCancel env i spec c s1 = (c2, s2)" by fastforce
  have ticks: "Now env (tick u) = (re_now env (Suc (rs_tick u)), tick (tick u))"
    "ctxDone env (tick (tick u)) = (re_done env (Suc (Suc (rs_tick u))), tick (tick (tick u)))" "rs_tick (tick u) = Suc (rs_tick u)" for u :: "'a runner"
    by (simp_all add: Now_def ctxDone_def tick_def)
  have "rs_tick s \<le> rs_tick s1" using 1 by (auto simp: ctxDone_def tick_def)
  also have "rs_tick s1 \<le> rs_tick s2" using quiet_waitCancel [OF 2] by (simp add: quiet_def)
  finally have t: "rs_tick s \<le> rs_tick s2" .
  let ?now = "re_now env (Suc (rs_tick s2))"
  have "if spec_kind spec = StepReboot then ?now < rebootBy spec started else heard' = heard \<and> ?now - heard < lostAfter"
  proof (cases "re_GetJob env (rs_tick s2) i (spec_id spec)")
    case (Inl e)
    then show ?thesis using assms(1) by (auto simp: ticks waitStep_def 1 2 split: if_splits)
  next
    case (Inr v)
    have "view' = v" "spec_kind spec = StepReboot \<and> view_status v = JobRebooting \<longrightarrow> ?now < rebootBy spec started"
      using assms(1) by (auto simp: ticks waitStep_def 1 2 Inr split: if_splits)
    moreover have "\<not> active (view_status v) \<or> spec_kind spec = StepReboot \<and> view_status v = JobRebooting"
      using assms(3) t Inr by (simp add: silentFrom_def)
    ultimately show ?thesis using assms(2) by auto
  qed
  then show ?thesis using t by (meson le_Suc_eq)
qed

lemma waitLoop_inactive: "\<not> active (view_status view) \<Longrightarrow> waitLoop env i spec started (view, heard, c) s = Some ((view, stepDone), s)"
  by (subst waitLoop.simps) (simp add: waitStep_def)

lemma waitLoop_turn:
  assumes "\<And>l' s'. waitStep env i spec started l s = Inr (l', s') \<Longrightarrow> \<exists>r. waitLoop env i spec started l' s' = Some r"
  shows "\<exists>r. waitLoop env i spec started l s = Some r"
  by (subst waitLoop.simps) (use assms in \<open>auto split: sum.splits\<close>)

definition heardOut :: "'st run_env \<Rightarrow> job_spec \<Rightarrow> time \<Rightarrow> time \<Rightarrow> nat \<Rightarrow> bool" where
  "heardOut env spec started heard N \<longleftrightarrow> (\<forall>t \<ge> N. if spec_kind spec = StepReboot then rebootBy spec started \<le> re_now env t else heard + lostAfter \<le> re_now env t)"

lemma waitLoop_silent:
  assumes "silentFrom env i spec q"
  shows "q \<le> rs_tick s \<Longrightarrow> heardOut env spec started heard N \<Longrightarrow> \<exists>r. waitLoop env i spec started (view, heard, c) s = Some r"
proof (induction "N - rs_tick s" arbitrary: view heard c s rule: less_induct)
  case less
  have on: "\<exists>r. waitLoop env i spec started (v, h, c') s' = Some r" if w: "waitStep env i spec started (view, heard, c) s = Inr ((v, h, c'), s')" for v h c' s'
  proof (cases "active (view_status v)")
    case True
    obtain t where t: "t \<ge> rs_tick s" "if spec_kind spec = StepReboot then re_now env t < rebootBy spec started else h = heard \<and> re_now env t - heard < lostAfter"
      using waitStep_on [OF w True silentFrom_later [OF assms less.prems(1)]] by blast
    have "t < N"
    proof (rule ccontr)
      assume "\<not> t < N"
      then have "if spec_kind spec = StepReboot then rebootBy spec started \<le> re_now env t else heard + lostAfter \<le> re_now env t"
        using less.prems(2) unfolding heardOut_def by (meson not_less)
      then show False using t(2) by (auto split: if_splits)
    qed
    moreover have "rs_tick s < rs_tick s'" by (rule waitStep_tick [OF w])
    moreover have "heardOut env spec started h N" using less.prems(2) t(2) by (simp add: heardOut_def split: if_splits)
    ultimately show ?thesis using less.prems(1) t(1) by (intro less.hyps) simp_all
  qed (simp add: waitLoop_inactive)
  show ?case by (rule waitLoop_turn) (simp only: split_paired_all on)
qed

lemma waitLoop_returns:
  assumes clock: "\<And>T. \<exists>N. \<forall>t \<ge> N. T \<le> re_now env t"
    and silent: "silentFrom env i spec q"
  shows "\<exists>r. waitLoop env i spec started l s = Some r"
proof (induction "q - rs_tick s" arbitrary: l s rule: less_induct)
  case less
  obtain view heard c where l: "l = (view, heard, c)" by (cases l)
  show ?case
  proof (cases "q \<le> rs_tick s")
    case True
    obtain N where "\<forall>t \<ge> N. max (rebootBy spec started) (heard + lostAfter) \<le> re_now env t" using clock by blast
    then have "heardOut env spec started heard N" by (auto simp: heardOut_def)
    then show ?thesis unfolding l by (rule waitLoop_silent [OF silent True])
  next
    case False
    show ?thesis
    proof (rule waitLoop_turn)
      fix l' s'
      assume "waitStep env i spec started l s = Inr (l', s')"
      then have "rs_tick s < rs_tick s'" by (rule waitStep_tick)
      then show "\<exists>r. waitLoop env i spec started l' s' = Some r" using False by (intro less.hyps) simp
    qed
  qed
qed

text \<open>What the run relies on to end: time passes, and from some call on no node says that a job is still under way.\<close>

definition settles :: "'st run_env \<Rightarrow> bool" where
  "settles env \<longleftrightarrow> (\<forall>T. \<exists>N. \<forall>t \<ge> N. T \<le> re_now env t) \<and> (\<exists>q. \<forall>t \<ge> q. \<forall>i job v. re_GetJob env t i job = Inr v \<longrightarrow> \<not> active (view_status v))"

lemma waitJob_returns: "settles env \<Longrightarrow> waitJob env i spec view started s \<noteq> None"
proof -
  assume "settles env"
  then have "\<And>T. \<exists>N. \<forall>t \<ge> N. T \<le> re_now env t" "\<exists>q. silentFrom env i spec q"
    unfolding settles_def silentFrom_def by blast+
  then show ?thesis using waitLoop_returns by (fastforce simp: waitJob_def split: prod.split)
qed

lemma follow_returns: "settles env \<Longrightarrow> follow env i rec k spec view s \<noteq> None"
  by (simp add: follow_def waitJob_returns split: option.split prod.split del: not_None_eq)

lemma postStep_returns: "settles env \<Longrightarrow> postStep env i rec k spec s \<noteq> None"
  by (simp add: postStep_def Let_def follow_returns split: option.split prod.split sum.split del: not_None_eq)

lemma runStep_returns: "settles env \<Longrightarrow> runStep env i rec k spec s \<noteq> None"
  by (simp add: runStep_def Let_def follow_returns postStep_returns split: prod.split del: not_None_eq)

lemma runSteps_returns: "settles env \<Longrightarrow> runSteps env i n k specs rec s \<noteq> None"
  by (induction specs arbitrary: k rec s)
    (simp_all add: runStep_returns split: option.split prod.split sum.split del: not_None_eq)

lemma runNode_returns: "settles env \<Longrightarrow> runNode env i s \<noteq> None"
  by (simp add: runNode_def Let_def runSteps_returns split: option.split prod.split sum.split del: not_None_eq)

lemma runNodes_returns: "settles env \<Longrightarrow> runNodes env ids s \<noteq> None"
  by (induction ids arbitrary: s) (simp_all add: runNode_returns split: option.split prod.split del: not_None_eq)

lemma stop_returns: "settles env \<Longrightarrow> stop env head s \<noteq> None"
  by (simp add: stop_def runNodes_returns split: option.split prod.split del: not_None_eq)

lemma runWaves_returns: "settles env \<Longrightarrow> runWaves env waves failed s \<noteq> None"
  by (induction waves arbitrary: failed s)
    (simp_all add: Let_def stop_returns runNodes_returns split: option.split prod.split sum.split del: not_None_eq)


section \<open>A sample run\<close>

text \<open>A store of one run in memory, a clock that moves with every call, and a node that takes a job and then says it succeeded.\<close>

type_synonym memory = "run_record \<times> run_node_record gomap"

definition sampleStore :: "memory store_ops" where
  "sampleStore = \<lparr>so_TaskRevision = (\<lambda>_ _. Inr ''doc''), so_GetRun = (\<lambda>_ st. Inr st), so_ListRuns = (\<lambda>st. Inr [fst st]), so_PutRun = (\<lambda>_ r st. ((r, snd st), None)),
     so_PutRunNode = (\<lambda>_ _ i rec st. ((fst st, fmupd i rec (snd st)), None)), so_PruneRuns = (\<lambda>_ _ st. (st, None)), so_others = (\<lambda>_ st. st)\<rparr>"

definition sampleView :: "string \<Rightarrow> string \<Rightarrow> job_view" where
  "sampleView job status = \<lparr>view_id = job, view_kind = StepCommand, view_status = status, view_changed = True, view_exit_code = Some 0, view_summary = []\<rparr>"

definition sampleRunEnv :: "memory run_env" where
  "sampleRunEnv = \<lparr>re_store = sampleStore, re_local = ''m1'', re_done = (\<lambda>_. False), re_isLeader = (\<lambda>_. True), re_now = (\<lambda>t. int t * second),
     re_nodes = (\<lambda>_. [sampleNode ''m1'' KindManager, sampleNode ''n1'' KindAgent]), re_health = (\<lambda>_. fmupd ''n1'' StatusOnline fmempty),
     re_unreachable = (\<lambda>_ _. False), re_StartJob = (\<lambda>_ _ spec _. Inr (sampleView (spec_id spec) JobRunning)),
     re_GetJob = (\<lambda>_ _ job. Inr (sampleView job JobSucceeded)), re_CancelJob = (\<lambda>_ _ _ _. None), re_HandOver = (\<lambda>_. ([], None)),
     re_yaml = sampleLib sampleTree, re_host = (\<lambda>_. None), re_storeText = (\<lambda>_. []), re_renderText = (\<lambda>_. []), re_messageText = (\<lambda>_. [])\<rparr>"



section \<open>Summaries\<close>

definition runeTail :: "nat \<Rightarrow> nat \<Rightarrow> nat \<Rightarrow> string \<Rightarrow> nat" where
  "runeTail k lo hi r = (if length r \<ge> k \<and> cont lo hi (r ! 0) \<and> list_all (cont 0x80 0xBF) (take (k - 1) (tl r)) then Suc k else 0)"

lemma rune_len_Cons:
  "rune_len (a # r) = (let n = (of_char a :: nat) in
     if n < 0x80 then 1 else if n < 0xC2 then 0 else if n < 0xE0 then runeTail 1 0x80 0xBF r
     else if n = 0xE0 then runeTail 2 0xA0 0xBF r else if n = 0xED then runeTail 2 0x80 0x9F r else if n < 0xF0 then runeTail 2 0x80 0xBF r
     else if n = 0xF0 then runeTail 3 0x90 0xBF r else if n < 0xF4 then runeTail 3 0x80 0xBF r else if n = 0xF4 then runeTail 3 0x80 0x8F r else 0)"
  by (simp add: rune_len_def runeTail_def Let_def)

lemma runeTail_cont:
  assumes "Suc j < runeTail k lo hi r" "0x80 \<le> lo" "hi \<le> 0xBF"
  shows "\<not> RuneStart (r ! j)"
proof -
  have a: "length r \<ge> k" "cont lo hi (r ! 0)" "list_all (cont 0x80 0xBF) (take (k - 1) (tl r))" "j < k"
    using assms(1) by (simp_all add: runeTail_def split: if_splits)
  show ?thesis
  proof (cases j)
    case 0
    then show ?thesis using a(2) assms(2,3) by (auto simp: cont_def RuneStart_def)
  next
    case (Suc j')
    have "take (k - 1) (tl r) ! j' = r ! j" "j' < length (take (k - 1) (tl r))" using Suc a(1,4) by (simp_all add: nth_tl)
    then have "cont 0x80 0xBF (r ! j)" using a(3) by (metis list_all_length)
    then show ?thesis by (auto simp: cont_def RuneStart_def)
  qed
qed

lemma runeTail_take:
  assumes "runeTail k lo hi r \<noteq> 0" "runeTail k lo hi r \<le> Suc n" "0 < k"
  shows "runeTail k lo hi (take n r) = runeTail k lo hi r"
proof -
  have "k \<le> length r" "k \<le> n" using assms(1,2) by (simp_all add: runeTail_def split: if_splits)
  moreover have "take (k - 1) (tl (take n r)) = take (k - 1) (tl r)" using \<open>k \<le> n\<close> by (cases r; cases n) (auto simp: min_def)
  ultimately show ?thesis using assms(3) by (simp add: runeTail_def)
qed

lemma rune_len_cont: "0 < n \<Longrightarrow> n < rune_len s \<Longrightarrow> \<not> RuneStart (s ! n)"
  by (cases s; cases n) (auto simp: rune_len_Cons Let_def rune_len_def [of "[]"] dest!: runeTail_cont split: if_splits)

lemma rune_len_take: "rune_len s \<noteq> 0 \<Longrightarrow> rune_len s \<le> n \<Longrightarrow> rune_len (take n s) = rune_len s"
  by (cases s; cases n) (simp_all add: rune_len_Cons Let_def runeTail_take split: if_splits)

lemma valid_utf8_cut:
  "valid_utf8 s \<Longrightarrow> n < length s \<Longrightarrow> RuneStart (s ! n) \<Longrightarrow> valid_utf8 (take n s)"
proof (induction s arbitrary: n rule: valid_utf8.induct)
  case (1 s)
  show ?case
  proof (cases "n = 0")
    case False
    have s: "s \<noteq> []" "rune_len s \<noteq> 0" "valid_utf8 (drop (rune_len s) s)"
      using 1(2,3) by (auto simp: valid_utf8.simps [of s] split: if_splits)
    have m: "rune_len s \<le> n" using rune_len_cont 1(4) False by (meson neq0_conv not_less)
    have "valid_utf8 (take (n - rune_len s) (drop (rune_len s) s))" using 1(3,4) m by (intro 1(1) [OF s]) simp_all
    then show ?thesis using s(2) rune_len_take [OF s(2) m] by (subst valid_utf8.simps) (simp add: drop_take)
  qed simp
qed

lemma cutAt_le: "cutAt s n \<le> n"
  by (induction n) auto

lemma cutAt_start: "cutAt s n = 0 \<or> RuneStart (s ! cutAt s n)"
  by (induction n) auto

lemma cutAt_max: "cutAt s n < j \<Longrightarrow> j \<le> n \<Longrightarrow> \<not> RuneStart (s ! j)"
  by (induction n) (auto simp: le_Suc_eq split: if_splits)

text \<open>A step's summary is cut to at most two hundred bytes at the last character boundary there is, so that a summary the node wrote as
  valid UTF-8 is still valid UTF-8 when it is recorded.\<close>

theorem capSummary_bounds:
  "length (capSummary s) \<le> maxSummary \<and> (\<exists>r. s = capSummary s @ r) \<and> (valid_utf8 s \<longrightarrow> valid_utf8 (capSummary s)) \<and>
   (\<forall>j. length (capSummary s) < j \<longrightarrow> j \<le> maxSummary \<longrightarrow> j < length s \<longrightarrow> \<not> RuneStart (s ! j))"
proof (cases "length s \<le> maxSummary")
  case False
  let ?n = "cutAt s maxSummary"
  have n: "?n < length s" using False cutAt_le [of s maxSummary] by linarith
  have c: "capSummary s = take ?n s" using False by (simp add: capSummary_def)
  have "valid_utf8 (take ?n s)" if "valid_utf8 s" using valid_utf8_cut [OF that n] cutAt_start [of s maxSummary] by (cases "?n = 0") auto
  moreover have "s = take ?n s @ drop ?n s" by simp
  ultimately show ?thesis using cutAt_le [of s maxSummary] cutAt_max [of s maxSummary] n unfolding c by (auto simp del: append_take_drop_id)
qed (auto simp: capSummary_def)

lemma accented_valid: "valid_utf8 [CHR 0xC3, CHR 0xA9]"
  by (simp add: valid_utf8.simps [of "[CHR 0xC3, CHR 0xA9]"] rune_len_def cont_def)

theorem capSummary_bounds_witness:
  "(let s = replicate 199 CHR ''a'' @ [CHR 0xC3, CHR 0xA9] in valid_utf8 s \<and> maxSummary < length s \<and> valid_utf8 (capSummary s) \<and> length (capSummary s) \<le> 200 \<and> s \<noteq> capSummary s)"
proof -
  let ?s = "replicate 199 CHR ''a'' @ [CHR 0xC3, CHR 0xA9]"
  have "ascii (replicate 199 CHR ''a'')" by (simp only: ascii_def list_all_iff set_replicate_conv_if) simp
  then have v: "valid_utf8 ?s" using accented_valid by (simp only: valid_utf8_append)
  have l: "length ?s = 201" by (simp only: length_append length_replicate) simp
  from capSummary_bounds [of ?s] v have c: "length (capSummary ?s) \<le> maxSummary" "valid_utf8 (capSummary ?s)" by blast+
  have "?s \<noteq> capSummary ?s"
  proof
    assume "?s = capSummary ?s"
    then have "length (capSummary ?s) = 201" using l by metis
    then show False using c(1) by (simp add: maxSummary_def)
  qed
  then show ?thesis unfolding Let_def using v c l by (simp only: maxSummary_def) simp
qed


section \<open>Stopping, and managers' reboots\<close>

fun isPost :: "event \<Rightarrow> bool" where
  "isPost (JobPosted i spec) = True"
| "isPost _ = False"

definition unposted :: "'st runner \<Rightarrow> 'st runner \<Rightarrow> bool" where
  "unposted s s' \<longleftrightarrow> (\<exists>es. rs_log s' = rs_log s @ es \<and> \<not> list_ex isPost es) \<and> rs_run s' = rs_run s"

lemma unposted_refl [simp]: "unposted s s"
  by (simp add: unposted_def)

lemma unposted_trans [trans]: "unposted s s1 \<Longrightarrow> unposted s1 s2 \<Longrightarrow> unposted s s2"
  by (auto simp: unposted_def)

lemma quiet_unposted: "quiet s s' \<Longrightarrow> unposted s s'"
proof -
  have "\<not> isPost e" if "harmless e" for e using that by (cases e) simp_all
  then show "quiet s s' \<Longrightarrow> unposted s s'" unfolding quiet_def unposted_def list_ex_iff list_all_iff by blast
qed

lemma writeNode_unposted: "writeNode env i rec s = (e, s') \<Longrightarrow> unposted s s'"
  by (auto simp: writeNode_def Let_def logged_def tick_def unposted_def split: prod.splits)

lemma failNode_unposted: "failNode env i rec status reason s = (out, s') \<Longrightarrow> unposted s s'"
  by (auto simp: failNode_def split: prod.splits dest: writeNode_unposted)

lemma succeedNode_unposted: "succeedNode env i rec s = (out, s') \<Longrightarrow> unposted s s'"
  by (auto simp: succeedNode_def split: prod.splits dest: writeNode_unposted)

lemma closeSteps_unposted: "closeSteps env i rec k sts s = Some (out, s') \<Longrightarrow> unposted s s'"
  by (induction env i rec k sts s rule: closeSteps.induct) (auto split: if_splits dest: failNode_unposted succeedNode_unposted)

definition alwaysStopping :: "'st run_env \<Rightarrow> string \<Rightarrow> bool" where
  "alwaysStopping env run \<longleftrightarrow> (\<forall>st h recs. so_GetRun (re_store env) run st = Inr (h, recs) \<longrightarrow> rr_status h = RunStopping)"

lemma readHead_stopping:
  "alwaysStopping env (rr_id (rs_run s)) \<Longrightarrow> readHead env True s = (Inr head, s') \<Longrightarrow> rr_status head = RunStopping"
  by (auto simp: readHead_def Now_def alwaysStopping_def Let_def tick_def split: prod.splits sum.splits)

lemma judgeStep_stopping:
  assumes "alwaysStopping env (rr_id (rs_run s))"
  shows "\<exists>out s'. judgeStep env i n rec k spec False s = Inl (out, s') \<and> unposted s s'"
proof -
  obtain h s1 where r: "readHead env True s = (h, s1)" by fastforce
  have q: "unposted s s1" by (rule quiet_unposted [OF quiet_readHead [OF r]])
  show ?thesis
  proof (cases h)
    case (Inl e)
    then show ?thesis using q by (simp add: judgeStep_def r)
  next
    case (Inr head)
    obtain out s2 where f: "failNode env i rec RunNodeStopped (stopReason head) s1 = (out, s2)" by fastforce
    have "rr_status head = RunStopping" using readHead_stopping [OF assms] r Inr by blast
    then show ?thesis using unposted_trans [OF q failNode_unposted [OF f]] by (simp add: judgeStep_def r Inr f)
  qed
qed

lemma prepareStep_stopping:
  assumes "alwaysStopping env (rr_id (rs_run s))" "\<not> inFlight (sr_status (nr_steps rec ! k))"
  shows "\<exists>out s'. prepareStep env i n rec k spec s = Inl (out, s') \<and> unposted s s'"
proof -
  let ?spec = "spec\<lparr>spec_id := jobID (rr_id (rs_run s)) k, spec_run_id := rr_id (rs_run s)\<rparr>"
  obtain d s1 where c: "ctxDone env s = (d, s1)" by fastforce
  have q: "quiet s s1" by (rule quiet_ctxDone [OF c])
  then have "rr_id (rs_run s1) = rr_id (rs_run s)" by (simp add: quiet_def)
  then obtain out s2 where j: "judgeStep env i n rec k ?spec False s1 = Inl (out, s2)" "unposted s1 s2"
    using judgeStep_stopping assms(1) by metis
  show ?thesis using assms(2) j unposted_trans [OF quiet_unposted [OF q] j(2)] quiet_unposted [OF q]
    by (auto simp: prepareStep_def Let_def c inFlight_def)
qed

lemma runSteps_stopping:
  "runSteps env i n k specs rec s = Some (out, s') \<Longrightarrow> alwaysStopping env (rr_id (rs_run s)) \<Longrightarrow>
    k + length specs = length (nr_steps rec) \<Longrightarrow> \<not> list_ex (\<lambda>st. inFlight (sr_status st)) (nr_steps rec) \<Longrightarrow> unposted s s'"
proof (induction specs arbitrary: k)
  case (Cons spec specs)
  have "\<not> inFlight (sr_status (nr_steps rec ! k))" using Cons.prems(3,4) by (simp add: list_ex_length)
  from Cons.prems(1,3,4) Cons.IH [of "Suc k"] Cons.prems(2) prepareStep_stopping [OF Cons.prems(2) this, of i n spec] show ?case
    by (auto split: if_splits)
qed (auto dest: succeedNode_unposted)

text \<open>C21: once the run's head says it is being stopped, a node with no step under way starts none, whatever its record and the cluster say:
  its part of the run ends with no job posted.\<close>

theorem stopping_starts_nothing:
  assumes "runNode env i s = Some (out, s')" "alwaysStopping env (rr_id (rs_run s))" "runInv t run (Some t) s"
    "\<not> list_ex (\<lambda>st. inFlight (sr_status st)) (nr_steps (newRecord s i))"
  shows "\<exists>es. rs_log s' = rs_log s @ es \<and> \<not> list_ex isPost es"
proof -
  have "unposted s s'"
  proof (cases "closeFromRecord env i (newRecord s i) s")
    case (Some o1)
    then show ?thesis using assms(1) closeSteps_unposted by (cases o1) (fastforce simp: runNode_def Let_def closeFromRecord_def)
  next
    case None
    let ?rec1 = "(newRecord s i)\<lparr>nr_status := RunNodeRunning, nr_reason := []\<rparr>"
    obtain why s1 where r: "nodeRefused env i (newRecord s i) s = (why, s1)" by fastforce
    note q1 = quiet_nodeRefused [OF r]
    have t: "theTask s1 = t" "rs_run s1 = rs_run s" using q1 assms(3) by (simp_all add: quiet_def runInv_def theTask_def)
    obtain e s2 where w: "writeNode env i ?rec1 s1 = (e, s2)" by fastforce
    have u2: "unposted s s2" using quiet_unposted [OF q1] writeNode_unposted [OF w] by (rule unposted_trans)
    then have run2: "rs_run s2 = rs_run s" by (simp add: unposted_def)
    have fail: "unposted s s'" if "failNode env i (newRecord s i) RunNodeFailed reason s1 = (out, s')" for reason
      using quiet_unposted [OF q1] failNode_unposted [OF that] by (rule unposted_trans)
    have steps: "unposted s s'" if "Render t inputs node = Inr specs" "runSteps env i n 0 specs ?rec1 s2 = Some (out, s')" for inputs node specs n
    proof -
      have "length specs = length (nr_steps ?rec1)" using Render_length [OF that(1)] newRecord_ordered(2) [OF assms(3)] by simp
      then have "unposted s2 s'" using assms(2,4) run2 by (intro runSteps_stopping [OF that(2)]) simp_all
      then show ?thesis by (rule unposted_trans [OF u2])
    qed
    from assms(1) show ?thesis using fail steps u2
      by (auto simp: runNode_def Let_def None r t w split: option.splits sum.splits if_splits)
  qed
  then show ?thesis by (simp add: unposted_def)
qed


definition voters :: "node list \<Rightarrow> node list" where
  "voters nodes = filter (\<lambda>n. IsManager n \<and> node_role n = RoleVoter) nodes"

definition othersOnline :: "string gomap \<Rightarrow> node list \<Rightarrow> string \<Rightarrow> node list" where
  "othersOnline health nodes i = filter (\<lambda>n. node_id n \<noteq> i \<and> fmlookup health (node_id n) = Some StatusOnline) (voters nodes)"

lemma quorumWithout_majority:
  assumes "quorumWithout health nodes i"
  shows "(\<exists>n. voters nodes = [n] \<and> node_id n = i) \<or> length (voters nodes) < 2 * length (othersOnline health nodes i)"
proof (cases "list_ex (\<lambda>n. node_id n = i) (voters nodes) \<and> length (voters nodes) = 1")
  case True
  then show ?thesis by (auto simp: length_Suc_conv)
next
  case False
  then have "length (voters nodes) div 2 + 1 \<le> length (othersOnline health nodes i)"
    using assms by (auto simp: quorumWithout_def Let_def voters_def othersOnline_def)
  then show ?thesis by linarith
qed

lemma judgeStep_quorum:
  assumes "judgeStep env i n rec k spec False s = Inr (rec', spec', s')" "spec_kind spec = StepReboot" "IsManager n"
  shows "rec' = rec \<and> (\<exists>t \<ge> rs_tick s. quorumWithout (re_health env t) (re_nodes env (Suc t)) i)"
proof -
  obtain h s1 where r: "readHead env True s = (h, s1)" by fastforce
  have "rs_tick s \<le> rs_tick s1" using quiet_readHead [OF r] by (simp add: quiet_def)
  then show ?thesis using assms by (auto simp: judgeStep_def r Let_def quorumNow_def Now_def split: sum.splits if_splits)
qed

lemma askStarting_open:
  assumes "askStarting env i rec k spec s = (ans, rec', spec', s')" "k < length (nr_steps rec)" "sr_status (nr_steps rec ! k) = RunStepStarting"
    "ans \<noteq> startingFresh" "ans \<noteq> startingAbandoned"
  shows "inFlight (sr_status (nr_steps rec' ! k))"
  using assms by (auto simp: askStarting_def Let_def inFlight_def setStep_def split: sum.splits prod.splits if_splits)

text \<open>C16: a manager's reboot that starts, rather than goes on, is only run when at that moment the other manager voters online are a majority
  of all of them, or the node is the only voter; a step that a former leader recorded starting and the node never got is judged so too.\<close>

theorem manager_reboot_keeps_quorum:
  assumes "prepareStep env i n rec k spec s = Inr (rec', spec', s')" "k < length (nr_steps rec)" "spec_kind spec = StepReboot" "IsManager n"
    "\<not> inFlight (sr_status (nr_steps rec' ! k))"
  shows "\<exists>t \<ge> rs_tick s. (\<exists>m. voters (re_nodes env (Suc t)) = [m] \<and> node_id m = i) \<or>
    length (voters (re_nodes env (Suc t))) < 2 * length (othersOnline (re_health env t) (re_nodes env (Suc t)) i)"
proof -
  let ?spec = "spec\<lparr>spec_id := jobID (rr_id (rs_run s)) k, spec_run_id := rr_id (rs_run s)\<rparr>"
  obtain d s1 where c: "ctxDone env s = (d, s1)" by fastforce
  obtain ans rec1 spec1 s2 where a: "askStarting env i rec k ?spec s1 = (ans, rec1, spec1, s2)" by (metis prod_cases4)
  have le: "rs_tick s \<le> rs_tick s1" using quiet_ctxDone [OF c] by (simp add: quiet_def)
  have le2: "rs_tick s1 \<le> rs_tick s2"
    using a by (auto simp: askStarting_def Let_def writeNode_def Now_def tick_def logged_def split: sum.splits prod.splits if_splits)
  have kind: "spec_kind spec1 = StepReboot" using askStarting_spec [OF a] assms(3) by simp
  have "\<exists>t \<ge> rs_tick s. quorumWithout (re_health env t) (re_nodes env (Suc t)) i"
  proof (cases "sr_status (nr_steps rec ! k) = RunStepStarting")
    case True
    have p: "ans \<noteq> startingAbandoned" "judgeStep env i n rec1 k spec1 (ans \<noteq> startingFresh) s2 = Inr (rec', spec', s')"
      using assms(1) True by (simp_all add: prepareStep_def Let_def c a split: if_splits)
    have "rec' = rec1" using p(2) by (auto simp: judgeStep_def Let_def split: sum.splits prod.splits if_splits)
    then have "ans = startingFresh" using askStarting_open [OF a assms(2) True] p(1) assms(5) by blast
    then have "judgeStep env i n rec1 k spec1 False s2 = Inr (rec', spec', s')" using p(2) by simp
    from judgeStep_quorum [OF this kind assms(4)] obtain t where "rs_tick s2 \<le> t" "quorumWithout (re_health env t) (re_nodes env (Suc t)) i" by blast
    then show ?thesis using le le2 by (intro exI [of _ t]) simp
  next
    case False
    have p: "judgeStep env i n rec k ?spec (inFlight (sr_status (nr_steps rec ! k))) s1 = Inr (rec', spec', s')"
      using assms(1) False by (simp add: prepareStep_def Let_def c split: if_splits)
    have "rec' = rec" using p by (auto simp: judgeStep_def Let_def split: sum.splits prod.splits if_splits)
    then have "judgeStep env i n rec k ?spec False s1 = Inr (rec', spec', s')" using p assms(5) by simp
    moreover have "spec_kind ?spec = StepReboot" using assms(3) by simp
    ultimately obtain t where "rs_tick s1 \<le> t" "quorumWithout (re_health env t) (re_nodes env (Suc t)) i"
      using judgeStep_quorum [OF _ _ assms(4)] by blast
    then show ?thesis using le by (intro exI [of _ t]) simp
  qed
  then show ?thesis using quorumWithout_majority by blast
qed

section \<open>The end of a run\<close>

lemma writeNode_recs: "writeNode env i rec s = (e, s') \<Longrightarrow> record_of s' j = (if i = j then rec else record_of s j)"
  by (auto simp: writeNode_def Let_def logged_def tick_def record_of_def recOf_upd split: prod.splits)

definition nodeClosed :: "run_node_record \<Rightarrow> bool" where
  "nodeClosed rec \<longleftrightarrow> nr_status rec \<noteq> [] \<and> nr_status rec \<noteq> RunNodePending"

lemma finishNodes_closed:
  "finishNodes env reason ids s = (True, s') \<Longrightarrow> (\<forall>i. nodeClosed (record_of s i) \<longrightarrow> record_of s' i = record_of s i) \<and>
    (\<forall>i \<in> set ids. nodeClosed (record_of s i) \<or> nr_status (record_of s' i) = RunNodeStopped \<and> nr_reason (record_of s' i) = reason)"
proof (induction ids arbitrary: s)
  case (Cons i ids)
  show ?case
  proof (cases "nodeClosed (record_of s i)")
    case True
    then show ?thesis using Cons by (simp add: nodeClosed_def)
  next
    case False
    define rec where "rec = (if rs_task s \<noteq> None then newRecord s i else record_of s i)\<lparr>nr_status := RunNodeStopped, nr_reason := reason\<rparr>"
    obtain e s1 where w: "writeNode env i rec s = (e, s1)" by fastforce
    have "finishNodes env reason ids s1 = (True, s')"
      using Cons.prems False w by (auto simp: nodeClosed_def Let_def rec_def split: if_splits)
    note ih = Cons.IH [OF this]
    have st: "nr_status rec = RunNodeStopped" "nr_reason rec = reason" by (simp_all add: rec_def)
    then have "nodeClosed (record_of s1 i)" by (simp add: writeNode_recs [OF w] nodeClosed_def node_status_defs)
    then have i: "record_of s' i = rec" using ih by (simp add: writeNode_recs [OF w])
    have j: "record_of s1 j = record_of s j" if "j \<noteq> i" for j using that by (simp add: writeNode_recs [OF w])
    have "record_of s' j = record_of s j" if "nodeClosed (record_of s j)" for j
      using that ih False j [of j] by (cases "j = i") simp_all
    moreover have "nodeClosed (record_of s j) \<or> nr_status (record_of s' j) = RunNodeStopped \<and> nr_reason (record_of s' j) = reason" if "j \<in> set (i # ids)" for j
      using that ih i st j [of j] by (cases "j = i") auto
    ultimately show ?thesis by blast
  qed
qed simp

text \<open>C22: a run that ends leaves no node of it waiting: every node that had not started is recorded stopped with the run's reason, or with the
  standing one when it has none, the records of the others are as they were, and the last thing written is the head with the run's end.\<close>

theorem finish_closes_run:
  assumes "finish env status reason s = (Ended, s')"
  shows "(\<forall>i. nodeClosed (record_of s i) \<longrightarrow> record_of s' i = record_of s i) \<and>
    (\<forall>i \<in> set (rr_nodes (rs_run s)). nodeClosed (record_of s i) \<or> nr_status (record_of s' i) = RunNodeStopped \<and>
       nr_reason (record_of s' i) = (if reason = [] then ''the run ended before the node's turn'' else reason)) \<and>
    (\<exists>L h. rs_log s' = L @ [HeadWritten h True] \<and> rs_head s' = h \<and> rr_status h = status \<and> rr_reason h = reason)"
proof -
  let ?reason = "if reason = [] then ''the run ended before the node's turn'' else reason"
  let ?change = "\<lambda>now h. h\<lparr>rr_status := status, rr_reason := reason, rr_ended_at := now\<rparr>"
  obtain s1 s2 where f: "finishNodes env ?reason (rr_nodes (rs_run s)) s = (True, s1)" and p: "putHead env ?change s1 = (None, s2)"
    and s': "s' = pruneRuns env s2"
    using assms by (auto simp: finish_def split: prod.splits if_splits)
  have "record_of s' i = record_of s1 i" for i
    using quiet_trans [OF quiet_putHead [OF p] quiet_pruneRuns [of s2 env]] unfolding s' by (simp add: quiet_def record_of_def)
  moreover have "\<exists>L h. rs_log s2 = L @ [HeadWritten h True] \<and> rs_head s2 = h \<and> rr_status h = status \<and> rr_reason h = reason"
    using p by (auto simp: putHead_def Now_def Let_def logged_def tick_def split: prod.splits sum.splits if_splits)
  ultimately show ?thesis using finishNodes_closed [OF f] unfolding s' by (simp add: pruneRuns_def tick_def Let_def)
qed


section \<open>A whole run\<close>

definition readsTask :: "'st run_env \<Rightarrow> string \<Rightarrow> task \<Rightarrow> bool" where
  "readsTask env sha t \<longleftrightarrow> (\<forall>st doc t'. so_TaskRevision (re_store env) sha st = Inr doc \<longrightarrow> fst (Parse (re_yaml env) doc) = Some t' \<longrightarrow> t' = t)"

definition readsRecords :: "'st run_env \<Rightarrow> run_record \<Rightarrow> task \<Rightarrow> 'st \<Rightarrow> bool" where
  "readsRecords env run t st \<longleftrightarrow> (\<forall>head recs i rec. so_GetRun (re_store env) (rr_id run) st = Inr (head, recs) \<longrightarrow>
     fmlookup recs i = Some rec \<longrightarrow> recordOk t run i rec)"

lemma recOf_ok: "(\<And>rec. fmlookup recs i = Some rec \<Longrightarrow> recordOk t run i rec) \<Longrightarrow> recordOk t run i (recOf recs i)"
  by (cases "fmlookup recs i") (simp_all add: recOf_def zeroRunNode_def recordOk_def)

lemma runRevision_inv:
  assumes "runRevision env s = Some (out, s')" "readsTask env (rr_rev run) t" "runInv t run None s"
  shows "logOk t run (rs_log s')"
proof -
  define s1 where "s1 = tick (s\<lparr>rs_store := so_others (re_store env) (rs_tick s) (rs_store s)\<rparr>)"
  have i1: "runInv t run None s1" using assms(3) by (simp add: s1_def runInv_def tick_def record_of_def)
  have r: "rs_run s = run" using assms(3) by (simp add: runInv_def)
  have fin: "logOk t run (rs_log s')" if "finish env status reason s1 = (out, s')" for status reason
    using finish_inv [OF that i1] by (simp add: runInv_def)
  have wav: "logOk t run (rs_log s')" if "runWaves env waves False (tick (s1\<lparr>rs_task := Some t, rs_nodes := ns\<rparr>)) = Some (out, s')" for waves ns
  proof -
    have "runInv t run (Some t) (tick (s1\<lparr>rs_task := Some t, rs_nodes := ns\<rparr>))"
      using i1 by (simp add: runInv_def tick_def record_of_def)
    from runWaves_inv [OF that this] show ?thesis by (simp add: runInv_def)
  qed
  show ?thesis
  proof (cases "so_TaskRevision (re_store env) (rr_rev run) (rs_store s1)")
    case (Inl e)
    then show ?thesis using assms(1) fin by (simp add: runRevision_def Let_def r flip: s1_def)
  next
    case (Inr doc)
    obtain x problems where p: "Parse (re_yaml env) doc = (x, problems)" by fastforce
    have "t' = t" if "x = Some t'" for t' using assms(2) Inr p that by (simp add: readsTask_def)
    then show ?thesis using assms(1) fin wav Inr p by (cases x) (auto simp: runRevision_def Let_def r simp flip: s1_def)
  qed
qed

text \<open>C2: whatever the cluster, the nodes and the store do, every record a run writes has its steps in order (ended well up to one step, waiting
  after it), and every job it posts belongs to a step that the node's latest record, written with no error, already has as starting under that
  job's ID, with all steps before it ended well (or failed where the task goes on) and all after it waiting.\<close>

theorem run_writes_ahead:
  assumes "runTask env run t0 st0 = Some (out, s)" "readsTask env (rr_rev run) t"
    "readsRecords env run t (so_others (re_store env) t0 st0)"
  shows "logOk t run (rs_log s)"
proof (cases "so_GetRun (re_store env) (rr_id run) (so_others (re_store env) t0 st0)")
  case (Inl e)
  then show ?thesis using assms(1) by (auto simp: runTask_def Let_def)
next
  case (Inr r)
  obtain head recs where r: "r = (head, recs)" by fastforce
  have ok: "recordOk t run i (recOf recs i)" for i
    using assms(3) Inr r by (intro recOf_ok) (auto simp: readsRecords_def)
  obtain s1 where s1: "runRevision env s1 = Some (out, s)" "rs_run s1 = run" "rs_task s1 = None" "rs_log s1 = []" "rs_recs s1 = recs"
    using assms(1) Inr r by (simp add: runTask_def Let_def Now_def tick_def)
  then have "runInv t run None s1" using ok by (simp add: runInv_def record_of_def)
  with s1(1) assms(2) show ?thesis by (rule runRevision_inv)
qed

lemma run_returns: "settles env \<Longrightarrow> runTask env run t0 st0 \<noteq> None"
  by (simp add: runTask_def runRevision_def Let_def runWaves_returns split: sum.split prod.split option.split del: not_None_eq)

text \<open>C20: a run returns: when time passes and from some point on no node says that a job is still under way (it ended, or the node does not
  answer), the run ends, is handed over or is left for the next leader.\<close>

theorem runTask_returns:
  assumes "settles env"
  shows "\<exists>out s. runTask env run t0 st0 = Some (out, s)"
  using run_returns [OF assms, of run t0 st0] by auto

section \<open>The theorems on the sample run\<close>

lemma sample_settles: "settles sampleRunEnv"
proof -
  have "\<exists>N. \<forall>t \<ge> N. T \<le> int t * second" for T
    by (rule exI [of _ "nat T"]) auto
  then show ?thesis by (simp add: settles_def sampleRunEnv_def sampleView_def active_def job_status_defs)
qed

lemma sample_reads: "readsTask sampleRunEnv (rr_rev sampleRun) sampleTask" "readsRecords sampleRunEnv sampleRun sampleTask (sampleRun, fmempty)"
  by (simp_all add: readsTask_def readsRecords_def sampleRunEnv_def sampleStore_def sampleTask_parsed)

theorem runTask_returns_witness: "settles sampleRunEnv \<and> (\<exists>out s. runTask sampleRunEnv sampleRun 0 (sampleRun, fmempty) = Some (out, s))"
  using runTask_returns [OF sample_settles] sample_settles by blast

theorem run_writes_ahead_witness:
  "\<exists>out s. runTask sampleRunEnv sampleRun 0 (sampleRun, fmempty) = Some (out, s) \<and> logOk sampleTask sampleRun (rs_log s)"
proof -
  obtain out s where r: "runTask sampleRunEnv sampleRun 0 (sampleRun, fmempty) = Some (out, s)"
    using run_returns [OF sample_settles, of sampleRun 0 "(sampleRun, fmempty)"] by auto
  have "so_others (re_store sampleRunEnv) 0 (sampleRun, fmempty) = (sampleRun, fmempty)" by (simp add: sampleRunEnv_def sampleStore_def)
  then have "logOk sampleTask sampleRun (rs_log s)" using run_writes_ahead [OF r sample_reads(1)] sample_reads(2) by simp
  then show ?thesis using r by blast
qed

definition sampleRunner :: "memory runner" where
  "sampleRunner = \<lparr>rs_run = sampleRun, rs_task = Some sampleTask, rs_nodes = [''n1'' \<mapsto> sampleNode ''n1'' KindAgent], rs_recs = fmempty,
     rs_head = sampleRun, rs_headAt = 0, rs_store = (sampleRun, fmempty), rs_tick = 0, rs_log = []\<rparr>"

lemma sampleRunner_inv: "runInv sampleTask sampleRun (Some sampleTask) sampleRunner"
  by (simp add: runInv_def sampleRunner_def record_of_def recOf_def zeroRunNode_def recordOk_def)

definition stoppingEnv :: "memory run_env" where
  "stoppingEnv = sampleRunEnv\<lparr>re_store := sampleStore\<lparr>so_GetRun := (\<lambda>_ st. Inr ((fst st)\<lparr>rr_status := RunStopping\<rparr>, snd st))\<rparr>\<rparr>"

theorem stopping_starts_nothing_witness:
  "\<exists>out s' es. runNode stoppingEnv ''n1'' sampleRunner = Some (out, s') \<and> alwaysStopping stoppingEnv (rr_id (rs_run sampleRunner)) \<and>
     rs_log s' = es \<and> \<not> list_ex isPost es"
proof -
  have "settles stoppingEnv" using sample_settles by (simp add: settles_def stoppingEnv_def)
  then obtain out s' where r: "runNode stoppingEnv ''n1'' sampleRunner = Some (out, s')" using runNode_returns by fastforce
  have a: "alwaysStopping stoppingEnv (rr_id (rs_run sampleRunner))" by (simp add: alwaysStopping_def stoppingEnv_def sampleStore_def)
  have n: "\<not> list_ex (\<lambda>st. inFlight (sr_status st)) (nr_steps (newRecord sampleRunner ''n1''))"
    by (simp add: newRecord_def Let_def sampleRunner_def record_of_def recOf_def zeroRunNode_def theTask_def sampleTask_def newStep_def zeroStep_def
        sampleRun_def inFlight_def step_status_defs)
  from stopping_starts_nothing [OF r a sampleRunner_inv n] show ?thesis using r a by (auto simp: sampleRunner_def)
qed

theorem finish_closes_run_witness:
  "\<exists>s'. finish sampleRunEnv RunFailed ''why'' sampleRunner = (Ended, s') \<and> \<not> nodeClosed (record_of sampleRunner ''n1'') \<and>
     nr_status (record_of s' ''n1'') = RunNodeStopped \<and> nr_reason (record_of s' ''n1'') = ''why'' \<and> rr_status (rs_head s') = RunFailed"
proof -
  have n: "record_of sampleRunner ''n1'' = zeroRunNode" by (simp add: sampleRunner_def record_of_def recOf_def)
  have "fst (finish sampleRunEnv RunFailed ''why'' sampleRunner) = Ended"
    using n by (simp add: finish_def writeNode_def putHead_def readHead_def Now_def Let_def sampleRunEnv_def sampleStore_def zeroRunNode_def
        logged_def tick_def pruneRuns_def sampleRunner_def sampleRun_def)
  then obtain s' where f: "finish sampleRunEnv RunFailed ''why'' sampleRunner = (Ended, s')" by (metis prod.collapse)
  have "''n1'' \<in> set (rr_nodes (rs_run sampleRunner))" by (simp add: sampleRunner_def sampleRun_def)
  moreover have "\<not> nodeClosed (record_of sampleRunner ''n1'')" by (simp add: n nodeClosed_def zeroRunNode_def)
  ultimately show ?thesis using finish_closes_run [OF f] f by auto
qed

definition voterNode :: "string \<Rightarrow> node" where
  "voterNode i = (sampleNode i KindManager)\<lparr>node_role := RoleVoter\<rparr>"

definition quorumEnv :: "memory run_env" where
  "quorumEnv = sampleRunEnv\<lparr>re_nodes := (\<lambda>_. [voterNode ''m1'', voterNode ''m2'', voterNode ''n1'']),
     re_health := (\<lambda>_. fmupd ''m1'' StatusOnline (fmupd ''m2'' StatusOnline fmempty))\<rparr>"

definition rebootSpec :: job_spec where
  "rebootSpec = (emptySpec sampleTask 0 StepReboot)\<lparr>spec_reboot := Some \<lparr>rb_only_if_required = False, rb_wait = 0\<rparr>\<rparr>"

theorem manager_reboot_keeps_quorum_witness:
  "\<exists>rec' spec' s'. prepareStep quorumEnv ''n1'' (voterNode ''n1'') (zeroRunNode\<lparr>nr_steps := [zeroStep\<lparr>sr_status := RunStepPending\<rparr>]\<rparr>) 0 rebootSpec sampleRunner =
     Inr (rec', spec', s') \<and> (\<exists>t. length (voters (re_nodes quorumEnv (Suc t))) = 3 \<and>
       3 < 2 * length (othersOnline (re_health quorumEnv t) (re_nodes quorumEnv (Suc t)) ''n1''))"
proof -
  let ?rec = "zeroRunNode\<lparr>nr_steps := [zeroStep\<lparr>sr_status := RunStepPending\<rparr>]\<rparr>"
  have v: "voters (re_nodes quorumEnv t) = [voterNode ''m1'', voterNode ''m2'', voterNode ''n1'']" for t
    by (simp add: voters_def quorumEnv_def voterNode_def sampleNode_def IsManager_def KindManager_def)
  have q: "quorumWithout (re_health quorumEnv t) (re_nodes quorumEnv t') ''n1''" for t t'
    by (simp add: quorumWithout_def quorumEnv_def voterNode_def sampleNode_def IsManager_def KindManager_def zeroNode_def)
  have m: "spec_kind rebootSpec = StepReboot" "IsManager (voterNode ''n1'')" "\<not> inFlight (sr_status (nr_steps ?rec ! 0))"
    by (simp_all add: rebootSpec_def emptySpec_def voterNode_def sampleNode_def IsManager_def KindManager_def inFlight_def step_status_defs)
  have c: "ctxDone quorumEnv sampleRunner = (False, tick sampleRunner)" by (simp add: ctxDone_def quorumEnv_def sampleRunEnv_def)
  obtain s1 where r: "readHead quorumEnv True (tick sampleRunner) = (Inr sampleRun, s1)"
    by (simp add: readHead_def Now_def Let_def quorumEnv_def sampleRunEnv_def sampleStore_def sampleRunner_def tick_def)
  have st: "RunStepPending \<noteq> RunStepStarting" "rr_status sampleRun \<noteq> RunStopping" by (simp_all add: step_status_defs sampleRun_def run_status_defs)
  obtain spec' s' where p: "prepareStep quorumEnv ''n1'' (voterNode ''n1'') ?rec 0 rebootSpec sampleRunner = Inr (?rec, spec', s')"
    using q m st by (simp add: prepareStep_def Let_def c judgeStep_def r quorumNow_def)
  from manager_reboot_keeps_quorum [OF p _ m] show ?thesis using p v by (auto simp: numeral_3_eq_3)
qed

end
