(* ===== verification/Task_Supervise.thy ===== *)
theory Task_Supervise
  imports Run_Safety
begin

text \<open>
  The supervisor of the runs: \<^verbatim>\<open>src/internal/feature/tasks/supervise.go\<close> and \<^verbatim>\<open>launch\<close> of \<^verbatim>\<open>handler.go\<close>.  Its state is the runners
  this node has (\<^verbatim>\<open>h.runners\<close>, by run ID), the store and a log of what it did.  As in \<open>Task_Run\<close> the environment may answer every
  call differently.  Which installs a session on this node owns (\<^verbatim>\<open>h.installRuns()\<close>) is the environment's; an address is
  read by \<^verbatim>\<open>net.ParseIP\<close>, a parameter that gives equal addresses the same value.  The tick of \<^verbatim>\<open>supervise\<close> itself, its wait for the
  runners and logging are left out.
\<close>

section \<open>Data\<close>

definition ErrAgentInstallLeaderChanged :: string where "ErrAgentInstallLeaderChanged = ''AGENT_INSTALL_LEADER_CHANGED''"

record ('st, 'ip) sup_env =
  se_store :: "'st store_ops"
  se_local :: string
  se_env :: "nat \<Rightarrow> bool"
  se_done :: "nat \<Rightarrow> bool"
  se_caughtUp :: "nat \<Rightarrow> bool"
  se_now :: "nat \<Rightarrow> time"
  se_nodes :: "nat \<Rightarrow> node list"
  se_owns :: "nat \<Rightarrow> string \<Rightarrow> bool"
  se_host :: "string \<Rightarrow> string option"
  se_parseIP :: "string \<Rightarrow> 'ip option"

datatype supEvent = RunnerCancelled string | RunnerStarted run_record | RowPut string string run_node_record bool | HeadPut run_record bool
  | EndAudited string run_record

record 'st supervisor =
  sv_runners :: "string list"
  sv_store :: 'st
  sv_tick :: nat
  sv_log :: "supEvent list"

definition sv_next :: "'st supervisor \<Rightarrow> 'st supervisor" where
  "sv_next s = s\<lparr>sv_tick := Suc (sv_tick s)\<rparr>"

definition sv_event :: "supEvent \<Rightarrow> 'st supervisor \<Rightarrow> 'st supervisor" where
  "sv_event e s = s\<lparr>sv_log := sv_log s @ [e]\<rparr>"

definition sv_get :: "('st, 'ip) sup_env \<Rightarrow> string \<Rightarrow> 'st supervisor \<Rightarrow> (storeError + run_record \<times> run_node_record gomap) \<times> 'st supervisor" where
  "sv_get env i s = (let st = so_others (se_store env) (sv_tick s) (sv_store s) in
     (so_GetRun (se_store env) i st, sv_next (s\<lparr>sv_store := st\<rparr>)))"

definition sv_put :: "('st, 'ip) sup_env \<Rightarrow> run_record \<Rightarrow> 'st supervisor \<Rightarrow> storeError option \<times> 'st supervisor" where
  "sv_put env head s = (case so_PutRun (se_store env) (sv_tick s) head (so_others (se_store env) (sv_tick s) (sv_store s)) of (st, e) \<Rightarrow>
     (e, sv_event (HeadPut head (e = None)) (sv_next (s\<lparr>sv_store := st\<rparr>))))"

definition sv_putRow :: "('st, 'ip) sup_env \<Rightarrow> string \<Rightarrow> string \<Rightarrow> run_node_record \<Rightarrow> 'st supervisor \<Rightarrow> storeError option \<times> 'st supervisor" where
  "sv_putRow env i key rec s = (case so_PutRunNode (se_store env) (sv_tick s) i key rec (so_others (se_store env) (sv_tick s) (sv_store s)) of (st, e) \<Rightarrow>
     (e, sv_event (RowPut i key rec (e = None)) (sv_next (s\<lparr>sv_store := st\<rparr>))))"

definition sv_prune :: "('st, 'ip) sup_env \<Rightarrow> 'st supervisor \<Rightarrow> 'st supervisor" where
  "sv_prune env s = sv_next (s\<lparr>sv_store := fst (so_PruneRuns (se_store env) (sv_tick s) keepRuns (so_others (se_store env) (sv_tick s) (sv_store s)))\<rparr>)"

section \<open>Installs left behind\<close>

definition AgentAt :: "(string \<Rightarrow> 'ip option) \<Rightarrow> (string \<Rightarrow> string option) \<Rightarrow> node list \<Rightarrow> 'ip option \<Rightarrow> node option" where
  "AgentAt parse host nodes ip = (case ip of None \<Rightarrow> None
     | Some a \<Rightarrow> find (\<lambda>n. \<not> IsManager n \<and> list_ex (\<lambda>x. parse x = Some a) (AllAddresses host n)) nodes)"

definition installBegan :: "run_node_record \<Rightarrow> bool" where
  "installBegan rec \<longleftrightarrow> 2 < length (nr_steps rec) \<and>
     sr_status (nr_steps rec ! 2) \<noteq> RunStepPending \<and> sr_status (nr_steps rec ! 2) \<noteq> RunStepSkipped"

definition leftStep :: "time \<Rightarrow> run_step_record \<Rightarrow> run_step_record" where
  "leftStep now st = (if sr_status st = RunStepStarting \<or> sr_status st = RunStepRunning
     then st\<lparr>sr_status := RunStepUnknown, sr_ended_at := now\<rparr> else st)"

text \<open>A row that had not ended, failed for the leader change.\<close>

definition leftRow :: "('st, 'ip) sup_env \<Rightarrow> time \<Rightarrow> run_node_record \<Rightarrow> 'st supervisor \<Rightarrow> run_node_record \<times> 'st supervisor" where
  "leftRow env now rec s =
     (let (rec1, s1) = (if nr_node_id rec = [] \<and> installBegan rec
            then (case AgentAt (se_parseIP env) (se_host env) (se_nodes env (sv_tick s)) (se_parseIP env (nr_ip rec)) of
                    None \<Rightarrow> rec | Some a \<Rightarrow> rec\<lparr>nr_node_id := node_id a\<rparr>, sv_next s)
            else (rec, s))
      in (rec1\<lparr>nr_status := RunNodeFailed, nr_reason := ErrAgentInstallLeaderChanged, nr_awaiting := [], nr_check_url := [],
            nr_steps := map (leftStep now) (nr_steps rec1)\<rparr>, s1))"

definition rowEnded :: "run_node_record gomap \<Rightarrow> string \<Rightarrow> bool" where
  "rowEnded recs key = (case fmlookup recs key of None \<Rightarrow> False
     | Some rec \<Rightarrow> nr_status rec \<noteq> RunNodePending \<and> nr_status rec \<noteq> RunNodeRunning)"

fun leftRows :: "('st, 'ip) sup_env \<Rightarrow> string \<Rightarrow> time \<Rightarrow> run_node_record gomap \<Rightarrow> string list \<Rightarrow> 'st supervisor \<Rightarrow> storeError option \<times> 'st supervisor" where
  "leftRows env i now recs [] s = (None, s)"
| "leftRows env i now recs (key # keys) s =
     (if rowEnded recs key then leftRows env i now recs keys s
      else (case leftRow env now (recOf recs key) s of (rec, s1) \<Rightarrow>
        (case sv_putRow env i key rec s1 of
           (Some e, s2) \<Rightarrow> (Some e, s2)
         | (None, s2) \<Rightarrow> leftRows env i now recs keys s2)))"

definition endLeftInstall :: "('st, 'ip) sup_env \<Rightarrow> string \<Rightarrow> 'st supervisor \<Rightarrow> storeError option \<times> 'st supervisor" where
  "endLeftInstall env i s = (case sv_get env i s of
     (Inl e, s1) \<Rightarrow> (Some e, s1)
   | (Inr (head, recs), s1) \<Rightarrow>
       if \<not> Active head then (None, s1)
       else if se_owns env (sv_tick s1) i then (None, sv_next s1)
       else (let now = se_now env (Suc (sv_tick s1)) in
         case leftRows env i now recs (rr_nodes head) (sv_next (sv_next s1)) of
           (Some e, s2) \<Rightarrow> (Some e, s2)
         | (None, s2) \<Rightarrow>
             (let head1 = head\<lparr>rr_status := RunFailed, rr_reason := ErrAgentInstallLeaderChanged, rr_ended_at := now, rr_credentials_until := 0\<rparr> in
              case sv_put env head1 s2 of
                (Some e, s3) \<Rightarrow> (Some e, s3)
              | (None, s3) \<Rightarrow> (None, sv_event (EndAudited (se_local env) head1) (sv_prune env s3)))))"

definition clearLeftCredentials :: "('st, 'ip) sup_env \<Rightarrow> string \<Rightarrow> 'st supervisor \<Rightarrow> storeError option \<times> 'st supervisor" where
  "clearLeftCredentials env i s = (case sv_get env i s of
     (Inl e, s1) \<Rightarrow> (Some e, s1)
   | (Inr (head, _), s1) \<Rightarrow>
       if Active head \<or> rr_credentials_until head = 0 then (None, s1)
       else if se_owns env (sv_tick s1) i then (None, sv_next s1)
       else sv_put env (head\<lparr>rr_credentials_until := 0\<rparr>) (sv_next s1))"

section \<open>Runners\<close>

definition resumeHandedOver :: "('st, 'ip) sup_env \<Rightarrow> run_record \<Rightarrow> 'st supervisor \<Rightarrow> (storeError + run_record) \<times> 'st supervisor" where
  "resumeHandedOver env run s = (case sv_get env (rr_id run) s of
     (Inl e, s1) \<Rightarrow> (Inl e, s1)
   | (Inr (head, _), s1) \<Rightarrow>
       if rr_status head = RunHandingOver then
         (let head1 = head\<lparr>rr_status := RunRunning\<rparr> in
          case sv_put env head1 s1 of (Some e, s2) \<Rightarrow> (Inl e, s2) | (None, s2) \<Rightarrow> (Inr head1, s2))
       else (Inr head, s1))"

definition hasRunner :: "'st supervisor \<Rightarrow> string \<Rightarrow> bool" where
  "hasRunner s i \<longleftrightarrow> i \<in> set (sv_runners s)"

definition launch :: "('st, 'ip) sup_env \<Rightarrow> run_record \<Rightarrow> 'st supervisor \<Rightarrow> bool \<times> 'st supervisor" where
  "launch env run s =
     (if \<not> se_env env (sv_tick s) then (False, sv_next s)
      else if se_done env (Suc (sv_tick s)) then (False, sv_next (sv_next s))
      else if hasRunner s (rr_id run) then (False, sv_next (sv_next s))
      else (True, sv_event (RunnerStarted run) (sv_next (sv_next (s\<lparr>sv_runners := rr_id run # sv_runners s\<rparr>)))))"

definition stopRunners :: "'st supervisor \<Rightarrow> nat \<times> 'st supervisor" where
  "stopRunners s = (length (sv_runners s), foldl (\<lambda>s i. sv_event (RunnerCancelled i) s) s (sv_runners s))"

text \<open>The runner that \<^verbatim>\<open>launch\<close> starts: the run it audits the end of, if any.\<close>

definition launched :: "'st run_env \<Rightarrow> run_record \<Rightarrow> nat \<Rightarrow> 'st \<Rightarrow> (run_record option \<times> 'st) option" where
  "launched env run t0 st0 =
     (let ops = re_store env; st = so_others ops t0 st0 in
      case so_GetRun ops (rr_id run) st of
        Inl _ \<Rightarrow> Some (None, st)
      | Inr (head, _) \<Rightarrow>
          if \<not> Active head then Some (None, st)
          else (case runTask env run (Suc t0) st of
            None \<Rightarrow> None
          | Some (out, s) \<Rightarrow>
              if out \<noteq> Ended then Some (None, rs_store s)
              else (let st1 = so_others ops (rs_tick s) (rs_store s) in
                case so_GetRun ops (rr_id run) st1 of
                  Inl _ \<Rightarrow> Some (None, st1)
                | Inr (head1, _) \<Rightarrow> Some (if Active head1 then None else Some head1, st1))))"

section \<open>One look at the runs\<close>

definition superviseRun :: "('st, 'ip) sup_env \<Rightarrow> run_record \<Rightarrow> 'st supervisor \<Rightarrow> 'st supervisor" where
  "superviseRun env run s =
     (if \<not> Active run \<and> rr_kind run = RunKindAgentInstall \<and> rr_credentials_until run \<noteq> 0 then snd (clearLeftCredentials env (rr_id run) s)
      else if \<not> Active run \<or> hasRunner s (rr_id run) then s
      else if rr_kind run = RunKindAgentInstall then
        (if se_owns env (sv_tick s) (rr_id run) then sv_next s else snd (endLeftInstall env (rr_id run) (sv_next s)))
      else if rr_status run = RunHandingOver then
        (case resumeHandedOver env run s of (Inl e, s1) \<Rightarrow> s1 | (Inr run1, s1) \<Rightarrow> snd (launch env run1 s1))
      else snd (launch env run s))"

definition superviseOnce :: "('st, 'ip) sup_env \<Rightarrow> 'st supervisor \<Rightarrow> 'st supervisor" where
  "superviseOnce env s =
     (if \<not> se_caughtUp env (sv_tick s) then snd (stopRunners (sv_next s))
      else (let s1 = sv_next s; st = so_others (se_store env) (sv_tick s1) (sv_store s1); s2 = sv_next (s1\<lparr>sv_store := st\<rparr>) in
        case so_ListRuns (se_store env) st of
          Inl e \<Rightarrow> s2
        | Inr runs \<Rightarrow> foldl (\<lambda>s run. superviseRun env run s) s2 runs))"


section \<open>What a look does\<close>

fun startedBy :: "supEvent \<Rightarrow> string list" where
  "startedBy (RunnerStarted r) = [rr_id r]"
| "startedBy _ = []"

fun resumed :: "supEvent \<Rightarrow> bool" where
  "resumed (RunnerStarted r) \<longleftrightarrow> rr_status r \<noteq> RunHandingOver"
| "resumed _ \<longleftrightarrow> True"

text \<open>From \<open>s\<close> to \<open>s'\<close> runners were only added, each for a run without one, and none for a run still handing over.\<close>

definition grows :: "'st supervisor \<Rightarrow> 'st supervisor \<Rightarrow> bool" where
  "grows s s' \<longleftrightarrow> (\<exists>es. sv_log s' = sv_log s @ es \<and> sv_runners s' = rev (concat (map startedBy es)) @ sv_runners s \<and> list_all resumed es) \<and>
     (distinct (sv_runners s) \<longrightarrow> distinct (sv_runners s'))"

lemma grows_refl [simp]: "grows s s"
  by (auto simp: grows_def intro: exI [of _ "[]"])

lemma grows_trans [trans]: "grows s s1 \<Longrightarrow> grows s1 s2 \<Longrightarrow> grows s s2"
  by (auto simp: grows_def)

lemma grows_next [simp]: "grows s (sv_next s') = grows s s'"
  by (simp add: grows_def sv_next_def)

lemma grows_store [simp]: "grows s (s'\<lparr>sv_store := st\<rparr>) = grows s s'"
  by (simp add: grows_def)

lemma grows_event [simp]: "grows s (sv_event e s')" if "grows s s'" "startedBy e = []"
proof -
  have "resumed e" using that(2) by (cases e) simp_all
  then show ?thesis using that by (auto simp: grows_def sv_event_def)
qed

lemma grows_get: "sv_get env i s = (x, s') \<Longrightarrow> grows s s'"
  by (auto simp: sv_get_def Let_def)

lemma grows_put: "sv_put env h s = (e, s') \<Longrightarrow> grows s s'"
  by (auto simp: sv_put_def split: prod.splits)

lemma grows_putRow: "sv_putRow env i key rec s = (e, s') \<Longrightarrow> grows s s'"
  by (auto simp: sv_putRow_def split: prod.splits)

lemma grows_leftRow: "leftRow env now rec s = (r, s') \<Longrightarrow> grows s s'"
  by (auto simp: leftRow_def Let_def split: if_splits)

lemma grows_leftRows: "leftRows env i now recs keys s = (e, s') \<Longrightarrow> grows s s'"
proof (induction keys arbitrary: s)
  case (Cons key keys)
  obtain rec s1 where r: "leftRow env now (recOf recs key) s = (rec, s1)" by fastforce
  obtain e2 s2 where p: "sv_putRow env i key rec s1 = (e2, s2)" by fastforce
  have g: "grows s s2" using grows_leftRow [OF r] grows_putRow [OF p] by (rule grows_trans)
  show ?case using Cons.prems g grows_trans [OF g Cons.IH [of s2]] Cons.IH [of s] by (auto simp: r p split: if_splits option.splits)
qed simp

lemma grows_prune: "grows s (sv_prune env s)"
  by (simp add: sv_prune_def)

lemma grows_endLeftInstall: "grows s (snd (endLeftInstall env i s))"
proof -
  obtain x s1 where g: "sv_get env i s = (x, s1)" by fastforce
  note g1 = grows_get [OF g]
  show ?thesis
  proof (cases x)
    case (Inl e)
    then show ?thesis using g1 by (simp add: endLeftInstall_def g)
  next
    case (Inr hr)
    obtain head recs where h: "hr = (head, recs)" by fastforce
    let ?now = "se_now env (Suc (sv_tick s1))"
    let ?head = "head\<lparr>rr_status := RunFailed, rr_reason := ErrAgentInstallLeaderChanged, rr_ended_at := ?now, rr_credentials_until := 0\<rparr>"
    obtain e2 s2 where l: "leftRows env i ?now recs (rr_nodes head) (sv_next (sv_next s1)) = (e2, s2)" by fastforce
    obtain e3 s3 where p: "sv_put env ?head s2 = (e3, s3)" by fastforce
    have "grows s (sv_next (sv_next s1))" using g1 by simp
    then have g2: "grows s s2" using grows_leftRows [OF l] by (rule grows_trans)
    then have g3: "grows s s3" using grows_put [OF p] by (rule grows_trans)
    then have "grows s (sv_prune env s3)" using grows_prune by (rule grows_trans)
    then show ?thesis using g1 g2 g3 by (simp add: endLeftInstall_def g Inr h Let_def l p split: option.split)
  qed
qed

lemma grows_clearLeftCredentials: "grows s (snd (clearLeftCredentials env i s))"
proof -
  obtain x s1 where g: "sv_get env i s = (x, s1)" by fastforce
  note g1 = grows_get [OF g]
  have "grows s (snd (sv_put env h (sv_next s1)))" for h
    using g1 grows_put [of env h "sv_next s1"] grows_trans [of s "sv_next s1"] by (metis grows_next prod.collapse)
  then show ?thesis using g1 by (simp add: clearLeftCredentials_def g split: sum.split prod.split)
qed

lemma resumeHandedOver_grows:
  assumes "resumeHandedOver env run s = (x, s')"
  shows "grows s s'" "x = Inr r \<Longrightarrow> rr_status r \<noteq> RunHandingOver"
proof -
  obtain y s1 where g: "sv_get env (rr_id run) s = (y, s1)" by fastforce
  note g1 = grows_get [OF g]
  have "grows s s2" if "sv_put env h s1 = (e, s2)" for h e s2 using g1 grows_put [OF that] by (rule grows_trans)
  then show "grows s s'" using assms g1 by (auto simp: resumeHandedOver_def g Let_def split: sum.splits if_splits prod.splits option.splits)
  show "x = Inr r \<Longrightarrow> rr_status r \<noteq> RunHandingOver"
    using assms by (auto simp: resumeHandedOver_def g Let_def run_status_defs split: sum.splits if_splits prod.splits option.splits)
qed

lemma launch_grows: "rr_status run \<noteq> RunHandingOver \<Longrightarrow> grows s (snd (launch env run s))"
  by (auto simp: launch_def grows_def sv_event_def sv_next_def hasRunner_def)

lemma launch_runs:
  "(\<And>t. se_env env t) \<Longrightarrow> (\<And>t. \<not> se_done env t) \<Longrightarrow> hasRunner (snd (launch env run s)) (rr_id run)"
  by (simp add: launch_def sv_event_def sv_next_def hasRunner_def)

lemma superviseRun_grows: "grows s (superviseRun env run s)"
proof (cases "rr_status run = RunHandingOver")
  case True
  obtain x s1 where r: "resumeHandedOver env run s = (x, s1)" by fastforce
  note g = resumeHandedOver_grows [OF r]
  have "grows s (snd (launch env run1 s1))" if "x = Inr run1" for run1
    using g(1) launch_grows [OF g(2) [OF that]] by (rule grows_trans)
  then show ?thesis
    using g(1) grows_endLeftInstall [of "sv_next s" env "rr_id run"] grows_clearLeftCredentials [of s env "rr_id run"] grows_trans [of s "sv_next s"]
    by (simp add: superviseRun_def True r split: sum.split)
next
  case False
  then show ?thesis
    using launch_grows [OF False, of s env] grows_endLeftInstall [of "sv_next s" env "rr_id run"] grows_clearLeftCredentials [of s env "rr_id run"]
      grows_trans [of s "sv_next s"]
    by (simp add: superviseRun_def)
qed

lemma foldl_superviseRun_grows: "grows s (foldl (\<lambda>s run. superviseRun env run s) s runs)"
  by (induction runs arbitrary: s) (auto intro: grows_trans [OF superviseRun_grows])

lemma grows_hasRunner: "grows s s' \<Longrightarrow> hasRunner s i \<Longrightarrow> hasRunner s' i"
  by (auto simp: grows_def hasRunner_def)


section \<open>Properties\<close>

lemma stopRunners_log: "snd (stopRunners s) = s\<lparr>sv_log := sv_log s @ map RunnerCancelled (sv_runners s)\<rparr>"
proof -
  have "foldl (\<lambda>s i. sv_event (RunnerCancelled i) s) s is = s\<lparr>sv_log := sv_log s @ map RunnerCancelled is\<rparr>" for "is" and s :: "'a supervisor"
    by (induction "is" arbitrary: s) (simp_all add: sv_event_def)
  then show ?thesis by (simp add: stopRunners_def)
qed

text \<open>A node that is not the caught-up leader cancels all its runners and touches neither the store nor any run.\<close>

lemma superviseOnce_not_leading:
  assumes "\<not> se_caughtUp env (sv_tick s)"
  shows "superviseOnce env s = s\<lparr>sv_tick := Suc (sv_tick s), sv_log := sv_log s @ map RunnerCancelled (sv_runners s)\<rparr>"
  using assms by (simp add: superviseOnce_def stopRunners_log sv_next_def)

text \<open>On the caught-up leader a look gives every run of a task that is under way a runner (one left handing over once it was put back to
  running, and only then), starts none twice, none for a run that has one and none as handing over, and stops none.\<close>

theorem superviseOnce_takes_over:
  assumes "se_caughtUp env (sv_tick s)" "\<And>t. se_env env t" "\<And>t. \<not> se_done env t"
    and runs: "so_ListRuns (se_store env) (so_others (se_store env) (Suc (sv_tick s)) (sv_store s)) = Inr runs"
    and s': "s' = superviseOnce env s"
  shows "(\<forall>run \<in> set runs. Active run \<and> rr_kind run \<noteq> RunKindAgentInstall \<and> rr_status run \<noteq> RunHandingOver \<longrightarrow> hasRunner s' (rr_id run)) \<and>
    (\<exists>es. sv_log s' = sv_log s @ es \<and> sv_runners s' = rev (concat (map startedBy es)) @ sv_runners s \<and>
       (\<forall>r. RunnerStarted r \<in> set es \<longrightarrow> rr_status r \<noteq> RunHandingOver)) \<and>
    (distinct (sv_runners s) \<longrightarrow> distinct (sv_runners s'))"
proof -
  obtain s2 where e: "s' = foldl (\<lambda>s run. superviseRun env run s) s2 runs" "grows s s2"
    using assms by (simp add: superviseOnce_def Let_def sv_next_def) (simp add: grows_def)
  have g: "grows s s'" using e foldl_superviseRun_grows grows_trans by blast
  have "hasRunner (foldl (\<lambda>s run. superviseRun env run s) s2 runs) (rr_id run)"
    if "run \<in> set runs" "Active run" "rr_kind run \<noteq> RunKindAgentInstall" "rr_status run \<noteq> RunHandingOver" for run
    using that(1)
  proof (induction runs arbitrary: s2)
    case (Cons r rs)
    have "hasRunner (superviseRun env run s2) (rr_id run)"
      using that launch_runs [OF assms(2,3)] by (auto simp: superviseRun_def)
    then show ?case using Cons grows_hasRunner [OF foldl_superviseRun_grows] by auto
  qed simp
  moreover have "rr_status r \<noteq> RunHandingOver" if "RunnerStarted r \<in> set es" "list_all resumed es" for r es
    using that by (auto simp: list_all_iff)
  ultimately show ?thesis using g unfolding e(1) grows_def by blast
qed

text \<open>What \<^verbatim>\<open>endLeftInstall\<close> wrote of row \<open>key\<close>: the row failed, no step under way, the node it named kept.\<close>

definition rowClosed :: "string \<Rightarrow> run_node_record gomap \<Rightarrow> string \<Rightarrow> supEvent \<Rightarrow> bool" where
  "rowClosed i recs key e \<longleftrightarrow> (\<exists>rec. e = RowPut i key rec True \<and> nr_status rec = RunNodeFailed \<and> nr_reason rec = ErrAgentInstallLeaderChanged \<and>
     \<not> list_ex (\<lambda>st. inFlight (sr_status st)) (nr_steps rec) \<and> length (nr_steps rec) = length (nr_steps (recOf recs key)) \<and>
     (nr_node_id (recOf recs key) \<noteq> [] \<longrightarrow> nr_node_id rec = nr_node_id (recOf recs key)))"

lemma leftRow_closed:
  assumes "leftRow env now (recOf recs key) s = (rec, s')"
  shows "rowClosed i recs key (RowPut i key rec True) \<and> sv_log s' = sv_log s"
proof -
  have "\<not> inFlight (sr_status (leftStep now st))" for st by (simp add: leftStep_def inFlight_def step_status_defs)
  then show ?thesis using assms
    by (auto simp: rowClosed_def leftRow_def sv_next_def Let_def list_ex_iff split: if_splits option.splits)
qed

lemma leftRows_closed:
  "leftRows env i now recs keys s = (None, s') \<Longrightarrow>
    \<exists>es. sv_log s' = sv_log s @ es \<and> list_all2 (rowClosed i recs) (filter (\<lambda>key. \<not> rowEnded recs key) keys) es"
proof (induction keys arbitrary: s)
  case (Cons key keys)
  show ?case
  proof (cases "rowEnded recs key")
    case False
    obtain rec s1 where r: "leftRow env now (recOf recs key) s = (rec, s1)" by fastforce
    obtain s2 where p: "sv_putRow env i key rec s1 = (None, s2)" and n: "leftRows env i now recs keys s2 = (None, s')"
      using Cons.prems False by (auto simp: r split: prod.splits option.splits)
    obtain es where es: "sv_log s' = sv_log s2 @ es" "list_all2 (rowClosed i recs) (filter (\<lambda>key. \<not> rowEnded recs key) keys) es"
      using Cons.IH [OF n] by blast
    have "sv_log s2 = sv_log s @ [RowPut i key rec True]"
      using p leftRow_closed [OF r, of i] by (auto simp: sv_putRow_def sv_event_def sv_next_def split: prod.splits)
    then show ?thesis using es leftRow_closed [OF r, of i] False by (intro exI [of _ "RowPut i key rec True # es"]) simp
  qed (use Cons in simp)
qed simp

text \<open>An install left behind by a leader change is closed: the rows that had not ended, and no others, are written as failed for the
  leader change with no step under way and the node they had become kept; then the run is written as failed with no time for its
  credentials, and its end is audited.\<close>

theorem endLeftInstall_closes:
  assumes "so_GetRun (se_store env) i (so_others (se_store env) (sv_tick s) (sv_store s)) = Inr (head, recs)"
    "Active head" "\<not> se_owns env (Suc (sv_tick s)) i" "endLeftInstall env i s = (None, s')"
  shows "\<exists>es h. sv_log s' = sv_log s @ es @ [HeadPut h True, EndAudited (se_local env) h] \<and>
    list_all2 (rowClosed i recs) (filter (\<lambda>key. \<not> rowEnded recs key) (rr_nodes head)) es \<and>
    \<not> Active h \<and> rr_status h = RunFailed \<and> rr_credentials_until h = 0 \<and> rr_id h = rr_id head"
proof -
  obtain s1 where g: "sv_get env i s = (Inr (head, recs), s1)" "sv_tick s1 = Suc (sv_tick s)" "sv_log s1 = sv_log s"
    using assms(1) by (simp add: sv_get_def Let_def sv_next_def)
  let ?now = "se_now env (Suc (sv_tick s1))"
  let ?head = "head\<lparr>rr_status := RunFailed, rr_reason := ErrAgentInstallLeaderChanged, rr_ended_at := ?now, rr_credentials_until := 0\<rparr>"
  obtain s2 s3 where l: "leftRows env i ?now recs (rr_nodes head) (sv_next (sv_next s1)) = (None, s2)" and p: "sv_put env ?head s2 = (None, s3)"
    and s': "s' = sv_event (EndAudited (se_local env) ?head) (sv_prune env s3)"
    using assms(2-4) g by (auto simp: endLeftInstall_def Let_def split: prod.splits option.splits)
  obtain es where es: "sv_log s2 = sv_log s @ es" "list_all2 (rowClosed i recs) (filter (\<lambda>key. \<not> rowEnded recs key) (rr_nodes head)) es"
    using leftRows_closed [OF l] g(3) by (auto simp: sv_next_def)
  have "sv_log s3 = sv_log s2 @ [HeadPut ?head True]" using p by (auto simp: sv_put_def sv_event_def sv_next_def split: prod.splits)
  then have "sv_log s' = sv_log s @ es @ [HeadPut ?head True, EndAudited (se_local env) ?head]"
    using es(1) by (simp add: s' sv_event_def sv_prune_def sv_next_def)
  moreover have "\<not> Active ?head" by (simp add: Active_def run_status_defs)
  ultimately show ?thesis using es(2) by (intro exI [of _ es] exI [of _ ?head]) simp
qed

text \<open>A run's end is audited by the runner that ended it, and only with a head that the store says is over.\<close>

lemma launched_audits_ended:
  assumes "launched env run t0 st0 = Some (Some head, st)"
  shows "\<not> Active head \<and> (\<exists>recs. so_GetRun (re_store env) (rr_id run) st = Inr (head, recs))"
  using assms by (auto simp: launched_def Let_def split: sum.splits prod.splits if_splits option.splits)

section \<open>The theorems on a sample\<close>

definition sampleSupEnv :: "(memory, string) sup_env" where
  "sampleSupEnv = \<lparr>se_store = sampleStore, se_local = ''m1'', se_env = (\<lambda>_. True), se_done = (\<lambda>_. False), se_caughtUp = (\<lambda>_. True), se_now = (\<lambda>_. 9),
     se_nodes = (\<lambda>_. []), se_owns = (\<lambda>_ _. False), se_host = (\<lambda>_. None), se_parseIP = (\<lambda>_. None)\<rparr>"

definition sampleSupervisor :: "memory supervisor" where
  "sampleSupervisor = \<lparr>sv_runners = [], sv_store = (sampleRun, fmempty), sv_tick = 0, sv_log = []\<rparr>"

theorem superviseOnce_takes_over_witness:
  "hasRunner (superviseOnce sampleSupEnv sampleSupervisor) (rr_id sampleRun) \<and> Active sampleRun \<and> distinct (sv_runners (superviseOnce sampleSupEnv sampleSupervisor))"
proof -
  have "sampleRun \<in> set [sampleRun]" "Active sampleRun" "rr_kind sampleRun \<noteq> RunKindAgentInstall" "rr_status sampleRun \<noteq> RunHandingOver"
    by (simp_all add: Active_def sampleRun_def run_status_defs RunKindAgentInstall_def)
  moreover have "so_ListRuns (se_store sampleSupEnv) (so_others (se_store sampleSupEnv) (Suc (sv_tick sampleSupervisor)) (sv_store sampleSupervisor)) = Inr [sampleRun]"
    by (simp add: sampleSupEnv_def sampleStore_def sampleSupervisor_def)
  moreover have "se_caughtUp sampleSupEnv t" "se_env sampleSupEnv t" "\<not> se_done sampleSupEnv t" for t by (simp_all add: sampleSupEnv_def)
  moreover have "distinct (sv_runners sampleSupervisor)" by (simp add: sampleSupervisor_def)
  ultimately show ?thesis using superviseOnce_takes_over [of sampleSupEnv sampleSupervisor "[sampleRun]", OF _ _ _ _ refl] by blast
qed

theorem endLeftInstall_closes_witness:
  "\<exists>s' es h. endLeftInstall sampleSupEnv (rr_id sampleRun) sampleSupervisor = (None, s') \<and> sv_log s' = es @ [HeadPut h True, EndAudited ''m1'' h] \<and>
     list_all2 (rowClosed (rr_id sampleRun) fmempty) [''n1''] es \<and> rr_status h = RunFailed"
proof -
  have a: "Active sampleRun" by (simp add: Active_def sampleRun_def)
  have "fst (endLeftInstall sampleSupEnv (rr_id sampleRun) sampleSupervisor) = None"
    using a by (simp add: endLeftInstall_def sv_get_def sv_put_def sv_putRow_def Let_def sampleSupEnv_def sampleStore_def sampleSupervisor_def sampleRun_def
        sv_next_def sv_event_def leftRow_def rowEnded_def recOf_def zeroRunNode_def installBegan_def)
  then obtain s' where s': "endLeftInstall sampleSupEnv (rr_id sampleRun) sampleSupervisor = (None, s')" by (metis prod.collapse)
  have g: "so_GetRun (se_store sampleSupEnv) (rr_id sampleRun) (so_others (se_store sampleSupEnv) (sv_tick sampleSupervisor) (sv_store sampleSupervisor)) = Inr (sampleRun, fmempty)"
    by (simp add: sampleSupEnv_def sampleStore_def sampleSupervisor_def)
  have "\<not> se_owns sampleSupEnv t i" for t i by (simp add: sampleSupEnv_def)
  from endLeftInstall_closes [OF g a this s'] obtain es h where "sv_log s' = sv_log sampleSupervisor @ es @ [HeadPut h True, EndAudited (se_local sampleSupEnv) h]"
    "list_all2 (rowClosed (rr_id sampleRun) fmempty) (filter (\<lambda>key. \<not> rowEnded fmempty key) (rr_nodes sampleRun)) es" "rr_status h = RunFailed" by blast
  moreover have "filter (\<lambda>key. \<not> rowEnded fmempty key) (rr_nodes sampleRun) = [''n1'']" by (simp add: sampleRun_def rowEnded_def)
  ultimately show ?thesis using s' by (intro exI [of _ s'] exI [of _ es] exI [of _ h]) (simp add: sampleSupervisor_def sampleSupEnv_def)
qed

end
