(* ===== verification/Job_Output.thy ===== *)
theory Job_Output
  imports Run_Safety
begin

text \<open>
  A job's output on the node: \<^verbatim>\<open>src/internal/feature/taskjob/store.go\<close>, \<^verbatim>\<open>readOutput\<close>, \<^verbatim>\<open>cutPiece\<close>,
  \<^verbatim>\<open>safeCut\<close> and \<^verbatim>\<open>exitFromLog\<close>, with \<^verbatim>\<open>strconv.Atoi\<close>.  What a log reads as once secrets and
  escape sequences are taken out (\<^verbatim>\<open>response.SanitizeLogPiece\<close>) is an argument \<open>san\<close>: the theorems hold for every
  such function, so for the one the panel has.  A log file is its bytes.
\<close>

section \<open>Cutting a log into pieces\<close>

definition outputPiece :: nat where "outputPiece = 262144"
definition cutContext :: nat where "cutContext = 4096"
definition cutTries :: nat where "cutTries = 64"

definition newline :: char where "newline = CHR 0x0A"

text \<open>\<^verbatim>\<open>bytes.LastIndexByte\<close>.\<close>

fun lastIndexByte :: "string \<Rightarrow> char \<Rightarrow> nat option" where
  "lastIndexByte [] c = None"
| "lastIndexByte (a # s) c = (case lastIndexByte s c of Some j \<Rightarrow> Some (Suc j) | None \<Rightarrow> if a = c then Some 0 else None)"

definition safeCut :: "(string \<Rightarrow> string) \<Rightarrow> string \<Rightarrow> nat \<Rightarrow> bool \<Rightarrow> bool \<Rightarrow> bool" where
  "safeCut san buf c atEOF final =
     (let before = take (c - (c - cutContext)) (drop (c - cutContext) buf);
          after = take (min (length buf) (c + cutContext) - c) (drop c buf)
      in if atEOF \<and> \<not> final \<and> c + length after = length buf \<and> trim_space after = [] then False
         else san (before @ after) = san before @ san after)"

text \<open>The loop over line breaks: \<open>Inl\<close> is a cut it returns, \<open>Inr\<close> the lst line break it saw.\<close>

fun lineCut :: "nat \<Rightarrow> (string \<Rightarrow> string) \<Rightarrow> string \<Rightarrow> bool \<Rightarrow> bool \<Rightarrow> nat \<Rightarrow> nat option \<Rightarrow> nat + nat option" where
  "lineCut 0 san buf atEOF final i lst = Inr lst"
| "lineCut (Suc tries) san buf atEOF final i lst =
     (case lastIndexByte (take i buf) newline of
        None \<Rightarrow> Inr lst
      | Some j \<Rightarrow>
          (let lst = (case lst of None \<Rightarrow> Some (j + 1) | Some l \<Rightarrow> Some l)
           in if safeCut san buf (j + 1) atEOF final then Inl (j + 1) else lineCut tries san buf atEOF final j lst))"

text \<open>The loop over the characters of a line that fills the piece.\<close>

fun charCut :: "nat \<Rightarrow> (string \<Rightarrow> string) \<Rightarrow> string \<Rightarrow> bool \<Rightarrow> bool \<Rightarrow> nat \<Rightarrow> nat option" where
  "charCut tries san buf atEOF final 0 = None"
| "charCut tries san buf atEOF final (Suc c) =
     (if tries = 0 then None
      else if RuneStart (buf ! Suc c)
      then if safeCut san buf (Suc c) atEOF final then Some (Suc c) else charCut (tries - 1) san buf atEOF final c
      else charCut tries san buf atEOF final c)"

definition cutPiece :: "(string \<Rightarrow> string) \<Rightarrow> string \<Rightarrow> bool \<Rightarrow> bool \<Rightarrow> nat" where
  "cutPiece san buf atEOF final =
     (if atEOF \<and> final \<and> length buf \<le> outputPiece then length buf
      else let full = length buf \<ge> outputPiece; limit = min (length buf) outputPiece
      in case lineCut cutTries san buf atEOF final limit None of
           Inl c \<Rightarrow> c
         | Inr lst \<Rightarrow>
             if \<not> full then 0
             else (case lst of
                 Some l \<Rightarrow> l
               | None \<Rightarrow> (case charCut cutTries san buf atEOF final (min limit (length buf - 1)) of
                     Some c \<Rightarrow> c
                   | None \<Rightarrow> cutAt buf (min limit (length buf - 1)))))"

text \<open>What opening and reading a log comes to: it is not there, it cannot be opened, it cannot be read, or its bytes.\<close>

datatype logFile = NoLog | Unopened | Unread nat | Log string

definition readOutput :: "(string \<Rightarrow> string) \<Rightarrow> logFile \<Rightarrow> nat \<Rightarrow> bool \<Rightarrow> string \<times> nat \<times> bool \<times> bool" where
  "readOutput san f skip final = (case f of
     NoLog \<Rightarrow> ([], skip, True, False)
   | Unopened \<Rightarrow> ([], skip, False, True)
   | Unread sz \<Rightarrow> ([], min skip sz, False, True)
   | Log text \<Rightarrow>
       (let size = length text; skip = min skip size;
            buf = take (min (size - skip) (outputPiece + cutContext)) (drop skip text);
            stop = cutPiece san buf (skip + length buf = size) final; nxt = skip + stop
        in (san (take stop buf), nxt, nxt = size, False)))"

section \<open>The exit marker\<close>

definition exitMarker :: string where "exitMarker = ''[sfpanel-task] exit=''"

text \<open>\<^verbatim>\<open>strconv.Atoi\<close>: an optional sign, digits, within 64 bits.\<close>

definition atoi :: "string \<Rightarrow> int option" where
  "atoi s = (let (neg, ds) = (case s of c # r \<Rightarrow> if c = CHR ''-'' then (True, r) else if c = CHR ''+'' then (False, r) else (False, s)
                              | [] \<Rightarrow> (False, s));
                 v = (if neg then - int (digits_value ds) else int (digits_value ds))
             in if ds \<noteq> [] \<and> list_all Go_Duration.is_digit ds \<and> - (2 ^ 63) \<le> v \<and> v < 2 ^ 63 then Some v else None)"

definition afterLast :: "string \<Rightarrow> char \<Rightarrow> string" where
  "afterLast s c = (case lastIndexByte s c of None \<Rightarrow> s | Some j \<Rightarrow> drop (Suc j) s)"

definition exitFromLog :: "logFile \<Rightarrow> int option" where
  "exitFromLog f = (case f of
     Log data \<Rightarrow>
       (let tail = (if length data > 4096 then drop (length data - 4096) data else data);
            text = rev (dropWhile (\<lambda>c. c \<in> {CHR 0x0D, CHR 0x0A, CHR 0x09, CHR '' ''}) (rev tail));
            line = trim_space (afterLast text newline)
        in if has_prefix line exitMarker then atoi (trim_prefix line exitMarker) else None)
   | _ \<Rightarrow> None)"

section \<open>Where a piece ends\<close>

lemma lastIndexByte_Some: "lastIndexByte s c = Some j \<Longrightarrow> j < length s \<and> s ! j = c \<and> c \<notin> set (drop (Suc j) s)"
proof (induction s arbitrary: j)
  case (Cons a s)
  show ?case
  proof (cases "lastIndexByte s c")
    case None
    then have "c \<notin> set s" by (induction s) (auto split: option.splits if_splits)
    then show ?thesis using Cons.prems None by (simp split: if_splits)
  next
    case (Some k)
    then show ?thesis using Cons by auto
  qed
qed simp

lemma lastIndexByte_None: "lastIndexByte s c = None \<longleftrightarrow> c \<notin> set s"
  by (induction s) (auto split: option.splits)

lemma lastIndexByte_append:
  "c \<notin> set b \<Longrightarrow> lastIndexByte (a @ c # b) c = Some (length a)"
proof (induction a)
  case Nil
  then have "lastIndexByte b c = None" by (simp only: lastIndexByte_None not_False_eq_True)
  then show ?case by simp
qed simp

lemma afterLast_append: "c \<notin> set b \<Longrightarrow> afterLast (a @ c # b) c = b"
  by (simp add: afterLast_def lastIndexByte_append)

lemma afterLast_absent: "c \<notin> set b \<Longrightarrow> afterLast b c = b"
  using lastIndexByte_None [of b c] by (simp add: afterLast_def)

lemma outputPiece_pos: "8 < outputPiece"
  by (simp add: outputPiece_def)

definition after_break :: "string \<Rightarrow> nat \<Rightarrow> nat \<Rightarrow> bool" where
  "after_break buf i c \<longleftrightarrow> 0 < c \<and> c \<le> i \<and> c \<le> length buf \<and> buf ! (c - 1) = newline"

lemma after_break_mono: "after_break buf j c \<Longrightarrow> j \<le> i \<Longrightarrow> after_break buf i c"
  by (simp add: after_break_def)

lemma lastIndexByte_take: "lastIndexByte (take i buf) newline = Some j \<Longrightarrow> j < i \<and> after_break buf i (j + 1)"
  using lastIndexByte_Some [of "take i buf" newline j] by (auto simp: after_break_def)

lemma lineCut_break:
  assumes "\<And>l. lst = Some l \<Longrightarrow> after_break buf m l" and "i \<le> m"
  shows "(lineCut tries san buf atEOF final i lst = Inl c \<longrightarrow> after_break buf m c) \<and>
         (lineCut tries san buf atEOF final i lst = Inr (Some l) \<longrightarrow> after_break buf m l)"
  using assms
proof (induction tries arbitrary: i lst)
  case (Suc tries)
  show ?case
  proof (cases "lastIndexByte (take i buf) newline")
    case (Some j)
    from lastIndexByte_take [OF Some] have j: "j < i" "after_break buf m (j + 1)"
      using Suc.prems(2) after_break_mono by blast+
    let ?l = "case lst of None \<Rightarrow> Some (j + 1) | Some l \<Rightarrow> Some l"
    have l: "after_break buf m k" if "?l = Some k" for k
      using that j(2) Suc.prems(1) by (cases lst) auto
    from Suc.IH [where i = j, OF l] j Suc.prems(2) show ?thesis using Some j(2) by (auto simp: Let_def)
  qed (use Suc.prems in auto)
qed simp

lemma lineCut_absent: "newline \<notin> set (take i buf) \<Longrightarrow> lineCut tries san buf atEOF final i None = Inr None"
  using lastIndexByte_None [of "take i buf" newline] by (cases tries) simp_all

lemma charCut_Some: "charCut tries san buf atEOF final n = Some c \<Longrightarrow> 0 < c \<and> c \<le> n \<and> RuneStart (buf ! c)"
proof (induction n arbitrary: tries)
  case (Suc n)
  then show ?case by (auto split: if_splits dest!: Suc.IH)
qed simp

lemma charCut_absent: "(\<And>k. 0 < k \<Longrightarrow> k \<le> n \<Longrightarrow> \<not> RuneStart (buf ! k)) \<Longrightarrow> charCut tries san buf atEOF final n = None"
  by (induction n) simp_all

text \<open>The cut of a piece that is not the rest of a finished log.\<close>

lemma cutPiece_cases:
  assumes "\<not> (atEOF \<and> final \<and> length buf \<le> outputPiece)"
  obtains (zero) "cutPiece san buf atEOF final = 0" "length buf < outputPiece"
  | (broken) c where "cutPiece san buf atEOF final = c" "after_break buf (min (length buf) outputPiece) c"
  | (char) c where "cutPiece san buf atEOF final = c" "0 < c" "c \<le> outputPiece" "c < length buf" "RuneStart (buf ! c)"
  | (cut) "cutPiece san buf atEOF final = cutAt buf (min (min (length buf) outputPiece) (length buf - 1))" "outputPiece \<le> length buf"
proof -
  let ?m = "min (length buf) outputPiece"
  let ?r = "lineCut cutTries san buf atEOF final ?m None"
  have br: "?r = Inl c \<Longrightarrow> after_break buf ?m c" "?r = Inr (Some l) \<Longrightarrow> after_break buf ?m l" for c l
    using lineCut_break [where lst = None and m = ?m and i = ?m] by blast+
  have d: "cutPiece san buf atEOF final = (case ?r of Inl c \<Rightarrow> c | Inr lst \<Rightarrow> if \<not> outputPiece \<le> length buf then 0
     else (case lst of Some l \<Rightarrow> l | None \<Rightarrow> (case charCut cutTries san buf atEOF final (min ?m (length buf - 1)) of
       Some c \<Rightarrow> c | None \<Rightarrow> cutAt buf (min ?m (length buf - 1)))))"
    unfolding cutPiece_def Let_def using assms by (simp only: if_False)
  show thesis
  proof (cases ?r)
    case (Inl c)
    then show thesis using br(1) [OF Inl] broken by (simp add: d)
  next
    case (Inr l)
    show thesis
    proof (cases "length buf \<ge> outputPiece")
      case False
      then show thesis using Inr zero by (simp add: d)
    next
      case True
      show thesis
      proof (cases l)
        case (Some k)
        then show thesis using True Inr br(2) broken by (simp add: d)
      next
        case None
        have "length buf > 0" using True outputPiece_pos by linarith
        then have m: "c \<le> min ?m (length buf - 1) \<Longrightarrow> c \<le> outputPiece \<and> c < length buf" for c by linarith
        show thesis
        proof (cases "charCut cutTries san buf atEOF final (min ?m (length buf - 1))")
          case None
          then show thesis using True \<open>l = None\<close> Inr by (intro cut) (simp_all only: d sum.case option.case not_True_eq_False if_False)
        next
          case (Some c)
          from charCut_Some [OF Some] m show thesis using True None Inr Some
            by (intro char [of c]) (simp_all only: d sum.case option.case not_True_eq_False if_False)
        qed
      qed
    qed
  qed
qed

lemma cutPiece_le: "cutPiece san buf atEOF final \<le> min (length buf) outputPiece"
proof (cases "atEOF \<and> final \<and> length buf \<le> outputPiece")
  case False
  then show ?thesis
  proof (cases rule: cutPiece_cases [where san = san])
    case cut
    show ?thesis using cut(1) cutAt_le [of buf "min (min (length buf) outputPiece) (length buf - 1)"] by linarith
  qed (auto simp: after_break_def)
qed (simp add: cutPiece_def)

text \<open>A piece of a job's output is never longer than the piece a call may carry, nor than what was read, and it ends at the start,
  at the end of what was read, after a line break, or before a byte that starts a character: a cut splits no character of a text that is UTF-8.\<close>

theorem cutPiece_bounds:
  "cutPiece san buf atEOF final \<le> min (length buf) outputPiece \<and>
   (let c = cutPiece san buf atEOF final in c = 0 \<or> c = length buf \<or> buf ! (c - 1) = newline \<or> RuneStart (buf ! c))"
proof (cases "atEOF \<and> final \<and> length buf \<le> outputPiece")
  case True
  then show ?thesis by (simp add: cutPiece_def)
next
  case False
  then show ?thesis
  proof (cases rule: cutPiece_cases [where san = san])
    case cut
    let ?n = "min (min (length buf) outputPiece) (length buf - 1)"
    show ?thesis using cut cutAt_start [of buf ?n] cutPiece_le [of san buf atEOF final] by (auto simp: Let_def)
  qed (use cutPiece_le [of san buf atEOF final] in \<open>auto simp: after_break_def Let_def\<close>)
qed

section \<open>Reading a finished log to its end\<close>

lemma rune_len_start: "rune_len s \<noteq> 0 \<Longrightarrow> RuneStart (s ! 0) \<and> s \<noteq> []"
  by (cases s) (auto simp: rune_len_def RuneStart_def Let_def split: if_splits)

lemma rune_len_bound: "rune_len s \<le> 4"
  by (cases s) (auto simp: rune_len_def Let_def)

lemma valid_utf8_starts:
  assumes "valid_utf8 s" and "i + 4 < length s"
  shows "\<exists>k. i < k \<and> k \<le> i + 4 \<and> RuneStart (s ! k)"
  using assms
proof (induction s arbitrary: i rule: valid_utf8.induct)
  case (1 s)
  let ?n = "rune_len s"
  from "1.prems" have s: "s \<noteq> []" "?n \<noteq> 0" "valid_utf8 (drop ?n s)" by (auto simp: valid_utf8.simps [of s] split: if_splits)
  show ?case
  proof (cases "i < ?n")
    case True
    then have n: "?n \<le> i + 4" "?n < length s" using rune_len_bound [of s] "1.prems"(2) by linarith+
    from s(3) n(2) have "rune_len (drop ?n s) \<noteq> 0" by (auto simp: valid_utf8.simps [of "drop ?n s"] split: if_splits)
    then have "RuneStart (s ! ?n)" using rune_len_start [of "drop ?n s"] n(2) by simp
    then show ?thesis using True n(1) by blast
  next
    case False
    then obtain j where i: "i = ?n + j" by (metis le_add_diff_inverse not_less)
    have "j + 4 < length (drop ?n s)" using "1.prems"(2) i by simp
    from "1.IH" [OF s(1,2) s(3) this] obtain k where k: "j < k" "k \<le> j + 4" "RuneStart (drop ?n s ! k)" by blast
    have "?n + k < length s" using k(2) "1.prems"(2) i by linarith
    then show ?thesis using k i by (intro exI [of _ "?n + k"]) simp
  qed
qed

lemma cutAt_pos: "0 < k \<Longrightarrow> k \<le> n \<Longrightarrow> RuneStart (s ! k) \<Longrightarrow> 0 < cutAt s n"
  using cutAt_max [of s n k] by (cases "cutAt s n = 0") auto

lemma cutPiece_moves:
  assumes "buf \<noteq> []" and "atEOF \<and> final \<or> outputPiece \<le> length buf"
    and "outputPiece \<le> length buf \<Longrightarrow> \<exists>k. 0 < k \<and> k < outputPiece \<and> RuneStart (buf ! k)"
  shows "0 < cutPiece san buf atEOF final"
proof (cases "atEOF \<and> final \<and> length buf \<le> outputPiece")
  case True
  then show ?thesis using assms(1) by (simp add: cutPiece_def)
next
  case False
  then show ?thesis
  proof (cases rule: cutPiece_cases [where san = san])
    case cut
    with assms(3) obtain k where k: "0 < k" "k < outputPiece" "RuneStart (buf ! k)" by blast
    then have "0 < cutAt buf (min (min (length buf) outputPiece) (length buf - 1))" using cut(2) by (intro cutAt_pos [of k]) auto
    then show ?thesis using cut(1) by simp
  next
    case zero
    then show ?thesis using False assms(2) by auto
  qed (auto simp: after_break_def)
qed

definition nextSkip :: "(string \<Rightarrow> string) \<Rightarrow> string \<Rightarrow> nat \<Rightarrow> nat" where
  "nextSkip san log skip = fst (snd (readOutput san (Log log) skip True))"

lemma nextSkip_moves:
  assumes "\<And>i. i + outputPiece \<le> length log \<Longrightarrow> \<exists>k. i < k \<and> k < i + outputPiece \<and> RuneStart (log ! k)" and "skip < length log"
  shows "skip < nextSkip san log skip \<and> nextSkip san log skip \<le> length log"
proof -
  define buf where "buf = take (min (length log - skip) (outputPiece + cutContext)) (drop skip log)"
  let ?e = "skip + length buf = length log"
  have n: "nextSkip san log skip = skip + cutPiece san buf ?e True"
    using assms(2) by (simp only: nextSkip_def readOutput_def Let_def logFile.case fst_conv snd_conv min_absorb1 [OF less_imp_le] buf_def)
  have b: "length buf = min (length log - skip) (outputPiece + cutContext)" by (simp add: buf_def)
  have nth: "k < length buf \<Longrightarrow> buf ! k = log ! (skip + k)" for k using assms(2) by (simp add: buf_def less_imp_le)
  have "0 < length buf" unfolding b using assms(2) outputPiece_pos by simp
  then have ne: "buf \<noteq> []" by (rule length_greater_0_conv [THEN iffD1])
  have eof: "?e \<and> True \<or> outputPiece \<le> length buf" unfolding b using assms(2) by (simp add: min_def)
  have start: "\<exists>k. 0 < k \<and> k < outputPiece \<and> RuneStart (buf ! k)" if "outputPiece \<le> length buf"
  proof -
    have "skip + outputPiece \<le> length log" using that assms(2) unfolding b by (simp only: min.bounded_iff) linarith
    from assms(1) [OF this] obtain k where k: "skip < k" "k < skip + outputPiece" "RuneStart (log ! k)" by blast
    then obtain j where j: "k = skip + j" "0 < j" "j < outputPiece" by (metis add_less_cancel_left less_imp_add_positive)
    then show ?thesis using nth [of j] that k(3) by (intro exI [of _ j]) simp
  qed
  have "cutPiece san buf ?e True \<le> length buf" using cutPiece_le [of san buf ?e True] by (simp only: min.bounded_iff)
  moreover have "length buf \<le> length log - skip" unfolding b by simp
  moreover have "0 < cutPiece san buf ?e True" by (rule cutPiece_moves [OF ne eof start])
  ultimately show ?thesis using assms(2) unfolding n by linarith
qed

lemma cutPiece_rest: "length buf \<le> outputPiece \<Longrightarrow> cutPiece san buf True True = length buf"
  by (simp only: cutPiece_def simp_thms if_True)

lemma readOutput_end: "readOutput san (Log log) (length log) True = (san [], length log, True, False)"
  using cutPiece_rest [of "[]" san] by (simp add: readOutput_def)

lemma nextSkip_end: "nextSkip san log (length log) = length log"
  by (simp only: nextSkip_def readOutput_end fst_conv snd_conv)

lemma nextSkip_reaches:
  assumes "\<And>skip. skip < length log \<Longrightarrow> skip < nextSkip san log skip \<and> nextSkip san log skip \<le> length log"
  shows "min n (length log) \<le> (nextSkip san log ^^ n) 0 \<and> (nextSkip san log ^^ n) 0 \<le> length log"
proof (induction n)
  case (Suc n)
  let ?s = "(nextSkip san log ^^ n) 0"
  show ?case
  proof (cases "?s = length log")
    case True
    then show ?thesis by (simp add: nextSkip_end)
  next
    case False
    then have "?s < nextSkip san log ?s" "nextSkip san log ?s \<le> length log" using Suc assms [of ?s] by auto
    then show ?thesis using Suc by (simp add: min_def split: if_splits)
  qed
qed simp

text \<open>A reader that asks a node for the rest of a finished job's log, each time from where the last answer said to go on, has the whole of it
  after finitely many answers, when the log is UTF-8 text: every answer but the last moves on.\<close>

theorem finished_log_is_read:
  assumes "valid_utf8 log"
  shows "(nextSkip san log ^^ length log) 0 = length log \<and>
         (\<forall>skip < length log. skip < nextSkip san log skip) \<and>
         snd (snd (readOutput san (Log log) (length log) True)) = (True, False)"
proof -
  have st: "\<exists>k. i < k \<and> k < i + outputPiece \<and> RuneStart (log ! k)" if "i + outputPiece \<le> length log" for i
  proof -
    have "i + 4 < length log" using that outputPiece_pos by linarith
    from valid_utf8_starts [OF assms this] obtain k where k: "i < k" "k \<le> i + 4" "RuneStart (log ! k)" by blast
    have "k < i + outputPiece" using k(2) outputPiece_pos by linarith
    then show ?thesis using k by blast
  qed
  note mv = nextSkip_moves [where log = log and san = san, OF st]
  from nextSkip_reaches [OF mv, of "length log"] have "(nextSkip san log ^^ length log) 0 = length log" by simp
  moreover have "snd (snd (readOutput san (Log log) (length log) True)) = (True, False)"
    by (simp only: readOutput_end snd_conv)
  ultimately show ?thesis using mv by blast
qed

theorem finished_log_is_read_witness:
  "valid_utf8 ''done'' \<and> (nextSkip id ''done'' ^^ 4) 0 = 4"
proof -
  have "valid_utf8 ''done''" by (rule ascii_valid) code_simp
  then show ?thesis using finished_log_is_read [of "''done''" id] by (simp add: eval_nat_numeral)
qed

text \<open>C30: a finished log longer than a piece made of nothing but UTF-8 continuation bytes is never read: the answer to every read from its start is
  an empty piece that says to go on from the start.\<close>

theorem binary_log_never_moves:
  assumes "outputPiece < length log" and "\<forall>c\<in>set log. \<not> RuneStart c"
  shows "readOutput san (Log log) 0 True = (san [], 0, False, False)"
proof -
  let ?buf = "take (min (length log) (outputPiece + cutContext)) log"
  let ?e = "length ?buf = length log"
  have l: "outputPiece < length ?buf" using assms(1) by (simp add: cutContext_def)
  have none: "\<not> RuneStart (?buf ! k)" if "k < length ?buf" for k
    using that assms(2) by (auto dest: nth_mem in_set_takeD)
  have "newline \<notin> set ?buf" using assms(2) by (auto simp: newline_def RuneStart_def dest!: in_set_takeD bspec)
  then have line: "lineCut cutTries san ?buf ?e True (min (length ?buf) outputPiece) None = Inr None"
    by (intro lineCut_absent) (meson in_set_takeD)
  have char: "charCut cutTries san ?buf ?e True n = None \<and> cutAt ?buf n = 0" if "n < length ?buf" for n
    using that none cutAt_start [of ?buf n] cutAt_le [of ?buf n] by (metis charCut_absent le_less_trans)
  have "\<not> length ?buf \<le> outputPiece" "min (min (length ?buf) outputPiece) (length ?buf - 1) < length ?buf" using l by linarith+
  then have "cutPiece san ?buf ?e True = 0" using line char l
    unfolding cutPiece_def Let_def by (simp only: sum.case option.case less_imp_le if_False if_True not_True_eq_False simp_thms)
  moreover have "log \<noteq> []" using assms(1) by auto
  ultimately show ?thesis unfolding readOutput_def Let_def by (simp del: length_take)
qed

theorem binary_log_never_moves_witness:
  "readOutput id (Log (replicate (Suc outputPiece) (CHR 0x80))) 0 True = ([], 0, False, False)"
  using binary_log_never_moves [of "replicate (Suc outputPiece) (CHR 0x80)" id]
  by (simp add: RuneStart_def)

section \<open>Reading how a command ended\<close>

definition plain :: "char \<Rightarrow> bool" where
  "plain c \<longleftrightarrow> 0x21 \<le> (of_char c :: nat) \<and> (of_char c :: nat) \<le> 0x7E"

lemma space_not_plain: "list_all (\<lambda>r. r \<noteq> [] \<and> \<not> plain (hd r)) (space_runes @ map rev space_runes)"
  by code_simp

lemma trim_runes_plain:
  assumes "list_all (\<lambda>r. r \<noteq> [] \<and> \<not> plain (hd r)) rs" and "plain c"
  shows "trim_runes rs (c # s) = c # s"
proof -
  have "find (\<lambda>r. r \<noteq> [] \<and> take (length r) (c # s) = r) rs = None"
    unfolding find_None_iff
  proof (rule notI, elim exE conjE)
    fix r assume "r \<in> set rs" "r \<noteq> []" "take (length r) (c # s) = r"
    then have "hd r = c" by (metis hd_take length_greater_0_conv list.sel(1))
    then show False using \<open>r \<in> set rs\<close> assms by (auto simp: list_all_iff)
  qed
  then show ?thesis by (simp add: trim_runes.simps [of rs "c # s"])
qed

lemma trim_space_plain:
  assumes "plain c" and "plain d"
  shows "trim_space (c # s @ [d]) = c # s @ [d]"
proof -
  have sp: "list_all (\<lambda>r. r \<noteq> [] \<and> \<not> plain (hd r)) space_runes"
    "list_all (\<lambda>r. r \<noteq> [] \<and> \<not> plain (hd r)) (map rev space_runes)"
    using space_not_plain by (simp_all only: list_all_append)
  show ?thesis using trim_runes_plain [OF sp(1) assms(1), of "s @ [d]"] trim_runes_plain [OF sp(2) assms(2), of "rev (c # s)"]
    by (simp add: trim_space_def)
qed

lemma is_digit_plain: "Go_Duration.is_digit c \<Longrightarrow> plain c"
  by (auto simp: Go_Duration.is_digit_def plain_def)

lemma nat_digits_digits: "list_all Go_Duration.is_digit (nat_digits n)"
  using dval_nat_digits [of n] by (simp add: list_all_iff)

lemma atoi_itoa: "0 \<le> rc \<Longrightarrow> rc < 2 ^ 63 \<Longrightarrow> atoi (itoa rc) = Some rc"
proof -
  assume rc: "0 \<le> rc" "rc < 2 ^ 63"
  obtain c r where ds: "nat_digits (nat rc) = c # r" by (meson nat_digits_nonempty list.exhaust)
  then have "Go_Duration.is_digit c" using nat_digits_digits [of "nat rc"] by simp
  then have "c \<noteq> CHR ''-''" "c \<noteq> CHR ''+''" by (auto simp: Go_Duration.is_digit_def)
  then show ?thesis using rc ds nat_digits_digits [of "nat rc"] digits_value_nat_digits [of "nat rc"]
    by (simp add: atoi_def itoa_def Let_def)
qed

text \<open>The line the wrapper script writes last, and what a log that ends with it reads as.\<close>

definition markerLine :: "int \<Rightarrow> string" where
  "markerLine rc = exitMarker @ itoa rc @ [newline]"

lemma markerLine_short:
  assumes "0 \<le> rc" and "rc \<le> 255"
  shows "length (markerLine rc) < 90"
proof -
  have "length (nat_digits n) \<le> 3" if "n < 1000" for n
    using that by (subst nat_digits.simps, subst nat_digits.simps, subst nat_digits.simps) auto
  then have "length (nat_digits (nat rc)) \<le> 3" using assms by simp
  then show ?thesis using assms by (simp add: markerLine_def exitMarker_def itoa_def)
qed

lemma marker_shape:
  assumes "0 \<le> rc"
  obtains s d where "exitMarker @ itoa rc = CHR ''['' # s @ [d]" "Go_Duration.is_digit d" "newline \<notin> set (CHR ''['' # s @ [d])"
proof -
  obtain s d where sd: "nat_digits (nat rc) = s @ [d]" by (meson nat_digits_nonempty rev_exhaust)
  have dg: "list_all Go_Duration.is_digit (s @ [d])" using nat_digits_digits [of "nat rc"] sd by simp
  have "newline \<notin> set (tl exitMarker)" "\<not> Go_Duration.is_digit newline" by code_simp+
  then have "newline \<notin> set (tl exitMarker @ s @ [d])" using dg by (auto simp: list_all_iff)
  moreover have "newline \<noteq> CHR ''[''" by (simp add: newline_def)
  moreover have "exitMarker @ itoa rc = CHR ''['' # (tl exitMarker @ s) @ [d]" using sd assms by (simp add: exitMarker_def itoa_def)
  ultimately show thesis using dg by (intro that [of "tl exitMarker @ s" d]) auto
qed

lemma exitFromLog_line:
  assumes "0 \<le> rc" and "newline \<notin> set l" and "out = [] \<or> (\<exists>a. out = a @ [newline])" and "length l + length (markerLine rc) < 4096"
  shows "exitFromLog (Log (out @ l @ markerLine rc)) =
    (let line = trim_space (l @ exitMarker @ itoa rc)
     in if has_prefix line exitMarker then atoi (trim_prefix line exitMarker) else None)"
proof -
  let ?data = "out @ l @ markerLine rc"
  define tail where "tail = (if length ?data > 4096 then drop (length ?data - 4096) ?data else ?data)"
  obtain s d where m: "exitMarker @ itoa rc = CHR ''['' # s @ [d]" "Go_Duration.is_digit d" "newline \<notin> set (CHR ''['' # s @ [d])"
    using marker_shape [OF assms(1)] .
  have ml: "markerLine rc = CHR ''['' # s @ [d, newline]" using m(1) unfolding markerLine_def by (metis append.assoc append_Cons append_Nil)
  have "\<exists>p. tail = p @ l @ markerLine rc \<and> (p = [] \<or> (\<exists>a. p = a @ [newline]))"
  proof (cases "length ?data > 4096")
    case True
    then obtain a where a: "out = a @ [newline]" using assms(3,4) by auto
    have "length ?data - 4096 \<le> length a" using assms(4) True unfolding a by simp
    then have "tail = drop (length ?data - 4096) a @ [newline] @ l @ markerLine rc" using True unfolding tail_def a by simp
    then show ?thesis by (metis append.assoc)
  qed (use assms(3) in \<open>auto simp: tail_def\<close>)
  then obtain p where p: "tail = p @ l @ markerLine rc" "p = [] \<or> (\<exists>a. p = a @ [newline])" by blast
  have dns: "d \<notin> {CHR 0x0D, CHR 0x0A, CHR 0x09, CHR '' ''}" using m(2) by (auto simp: Go_Duration.is_digit_def)
  have "rev tail = newline # d # rev (p @ l @ CHR ''['' # s)" unfolding p(1) ml by simp
  then have "rev (dropWhile (\<lambda>c. c \<in> {CHR 0x0D, CHR 0x0A, CHR 0x09, CHR '' ''}) (rev tail)) = p @ l @ exitMarker @ itoa rc"
    unfolding m(1) using dns by (simp add: newline_def)
  moreover have "afterLast (p @ l @ exitMarker @ itoa rc) newline = l @ exitMarker @ itoa rc"
  proof -
    have n: "newline \<notin> set (l @ exitMarker @ itoa rc)" using assms(2) m(1,3) by simp
    from p(2) show ?thesis
    proof
      assume "p = []"
      then show ?thesis using afterLast_absent [OF n] by simp
    next
      assume "\<exists>a. p = a @ [newline]"
      then obtain a where "p = a @ [newline]" by blast
      then show ?thesis using afterLast_append [OF n, of a] by simp
    qed
  qed
  ultimately show ?thesis unfolding exitFromLog_def logFile.case Let_def tail_def by simp
qed

text \<open>When what a command wrote ends with a line break, or it wrote nothing, the exit status its wrapper script writes to the log is the one read
  back from it, however long the log is.\<close>

theorem exit_marker_round_trip:
  assumes "0 \<le> rc" and "rc \<le> 255" and "out = [] \<or> (\<exists>a. out = a @ [newline])"
  shows "exitFromLog (Log (out @ markerLine rc)) = Some rc"
proof -
  obtain s d where m: "exitMarker @ itoa rc = CHR ''['' # s @ [d]" "Go_Duration.is_digit d" "newline \<notin> set (CHR ''['' # s @ [d])"
    using marker_shape [OF assms(1)] .
  have "plain (CHR ''['')" by (simp add: plain_def)
  then have t: "trim_space (exitMarker @ itoa rc) = exitMarker @ itoa rc"
    unfolding m(1) by (rule trim_space_plain [OF _ is_digit_plain [OF m(2)]])
  have "length (markerLine rc) < 4096" using markerLine_short [OF assms(1,2)] by linarith
  then show ?thesis using exitFromLog_line [of rc "[]" out] assms t atoi_itoa [of rc] by (simp add: Let_def)
qed

theorem exit_marker_round_trip_witness:
  "exitFromLog (Log (''ok'' @ [newline] @ markerLine 3)) = Some 3"
  using exit_marker_round_trip [of 3 "''ok'' @ [newline]"] by auto

lemma trim_runes_blank:
  assumes "c = CHR 0x09 \<or> c = CHR '' ''"
  shows "trim_runes space_runes (c # s) = trim_runes space_runes s"
proof -
  obtain rest where rest: "space_runes = [CHR 0x09] # [CHR 0x0A] # [CHR 0x0B] # [CHR 0x0C] # [CHR 0x0D] # [CHR 0x20] # rest"
    unfolding space_runes_def by simp
  have "find (\<lambda>r. r \<noteq> [] \<and> take (length r) (c # s) = r) space_runes = Some [c]" unfolding rest using assms by auto
  then show ?thesis by (simp add: trim_runes.simps [of space_runes "c # s"])
qed

lemma trim_space_blanks: "list_all (\<lambda>c. c = CHR 0x09 \<or> c = CHR '' '') ws \<Longrightarrow> trim_space (ws @ s) = trim_space s"
  by (induction ws) (auto simp: trim_space_def trim_runes_blank)

text \<open>C31: when the last line a command wrote has no line break after it, how the command ended is not read from its log: the wrapper's marker is
  then in the middle of that line, and the job counts as interrupted although the command ended.  The line has at most four thousand bytes; after the blanks and
  tabs it may start with comes a printable ASCII character other than an opening bracket, and after that anything but a line break.\<close>

theorem unfinished_line_hides_exit:
  assumes "0 \<le> rc" and "rc \<le> 255" and "out = [] \<or> (\<exists>a. out = a @ [newline])"
    and "l = ws @ c # r" and "list_all (\<lambda>b. b = CHR 0x09 \<or> b = CHR '' '') ws" and "plain c" and "c \<noteq> CHR ''[''" and "newline \<notin> set r" and "length l \<le> 4000"
  shows "exitFromLog (Log (out @ l @ markerLine rc)) = None"
proof -
  obtain s d where m: "exitMarker @ itoa rc = CHR ''['' # s @ [d]" "Go_Duration.is_digit d" "newline \<notin> set (CHR ''['' # s @ [d])"
    using marker_shape [OF assms(1)] .
  have "\<not> plain newline" "newline \<noteq> CHR 0x09" "newline \<noteq> CHR '' ''" by code_simp+
  then have n: "newline \<notin> set l" using assms(4-6,8) by (auto simp: list_all_iff)
  have t: "trim_space (l @ exitMarker @ itoa rc) = c # r @ exitMarker @ itoa rc"
    unfolding assms(4) m(1) using trim_space_blanks [OF assms(5), of "c # r @ CHR ''['' # s @ [d]"]
      trim_space_plain [OF assms(6) is_digit_plain [OF m(2)], of "r @ CHR ''['' # s"] by simp
  have "\<not> has_prefix (c # r @ exitMarker @ itoa rc) exitMarker"
    using assms(7) by (auto simp: has_prefix_iff exitMarker_def)
  moreover have "length l + length (markerLine rc) < 4096" using markerLine_short [OF assms(1,2)] assms(9) by linarith
  ultimately show ?thesis using exitFromLog_line [OF assms(1) n assms(3)] t by (simp add: Let_def)
qed

theorem unfinished_line_hides_exit_witness:
  "exitFromLog (Log (''  hello world '' @ markerLine 0)) = None"
  using unfinished_line_hides_exit [of 0 "[]" "''  hello world ''" "''  ''" "CHR ''h''" "''ello world ''"] by (simp add: plain_def newline_def)

end
