(* ===== verification/Job_Node.thy ===== *)
theory Job_Node
  imports Job_Output
begin

text \<open>
  A node's half of a group task: \<^verbatim>\<open>src/internal/feature/taskjob/handler.go\<close> and \<^verbatim>\<open>store.go\<close>, with the parts of
  \<^verbatim>\<open>reboot.go\<close> that settle a reboot.  The state of a node is its table \<^verbatim>\<open>task_jobs\<close> (a list of rows in \<^verbatim>\<open>rowid\<close> order,
  with the primary key enforced on insertion), the jobs whose contexts this process can end, and a log of the jobs it started, took back, waited on,
  cancelled or dropped.  What is outside (the database driver's failures, the clock, the boot ID, the file system, systemd and the runners' answers) is the
  environment, indexed by a call counter.  Times are kept as times: \<^verbatim>\<open>formatTime\<close> writes them with nine fractional digits in UTC, which
  sorts as they do and is read back exactly.  A job's goroutine shows as the calls it makes: finishing, recording its unit, waiting on a reboot.
\<close>

section \<open>The table of jobs\<close>

record job_row =
  row_id :: string
  row_run_id :: string
  row_task :: string
  row_step :: nat
  row_kind :: string
  row_spec :: string
  row_status :: string
  row_changed :: bool
  row_exit_code :: "int option"
  row_summary :: string
  row_unit :: string
  row_boot_id :: string
  row_username :: string
  row_started_at :: time
  row_ended_at :: "time option"

record job_record =
  jr_spec :: job_spec
  jr_status :: string
  jr_changed :: bool
  jr_exitCode :: "int option"
  jr_summary :: string
  jr_unit :: string
  jr_bootID :: string
  jr_username :: string
  jr_startedAt :: time
  jr_endedAt :: "time option"

record job_result =
  res_status :: string
  res_changed :: bool
  res_exitCode :: "int option"
  res_summary :: string

record refusal =
  ref_status :: nat
  ref_code :: string
  ref_message :: string

text \<open>A runner as the handler sees it: what it refuses before a job is recorded (none for a runner that is no \<^verbatim>\<open>Refuser\<close>), its
  cheap verdict, whether it is a \<^verbatim>\<open>Resumer\<close> and whether it is the \<^verbatim>\<open>RebootRunner\<close>.\<close>

record job_runner =
  rn_Refuse :: "nat \<Rightarrow> job_spec \<Rightarrow> refusal option"
  rn_Check :: "nat \<Rightarrow> job_spec \<Rightarrow> check_verdict"
  rn_resumer :: bool
  rn_reboot :: bool

record node_env =
  ne_encode :: "job_spec \<Rightarrow> string"
  ne_decode :: "string \<Rightarrow> job_spec option"
  ne_dbFails :: "nat \<Rightarrow> bool"
  ne_now :: "nat \<Rightarrow> time"
  ne_bootID :: "nat \<Rightarrow> string"
  ne_createLog :: "nat \<Rightarrow> bool"
  ne_removeLog :: "nat \<Rightarrow> bool"
  ne_logFile :: "nat \<Rightarrow> string \<Rightarrow> logFile"
  ne_isActive :: "nat \<Rightarrow> string \<Rightarrow> string"
  ne_runners :: "string \<Rightarrow> job_runner option"
  ne_sanitize :: "string \<Rightarrow> string"
  ne_quote :: "string \<Rightarrow> string"

datatype jobEvent = Started string | Resumed string | Awaited string | ContextEnded string | Dropped string

record job_node =
  jn_rows :: "job_row list"
  jn_cancels :: "string list"
  jn_tick :: nat
  jn_log :: "jobEvent list"

definition ask :: "(nat \<Rightarrow> 'a) \<Rightarrow> job_node \<Rightarrow> 'a \<times> job_node" where
  "ask f n = (f (jn_tick n), n\<lparr>jn_tick := Suc (jn_tick n)\<rparr>)"

definition noted :: "jobEvent \<Rightarrow> job_node \<Rightarrow> job_node" where
  "noted e n = n\<lparr>jn_log := jn_log n @ [e]\<rparr>"

datatype jobStoreError = errNotFound | DBError

definition keepJobs :: nat where "keepJobs = 200"
definition keepFor :: duration where "keepFor = 30 * 24 * 60 * minute"

definition rowOf :: "node_env \<Rightarrow> job_record \<Rightarrow> job_row" where
  "rowOf env r = \<lparr>row_id = spec_id (jr_spec r), row_run_id = spec_run_id (jr_spec r), row_task = spec_task (jr_spec r),
     row_step = spec_step (jr_spec r), row_kind = spec_kind (jr_spec r), row_spec = ne_encode env (jr_spec r),
     row_status = jr_status r, row_changed = jr_changed r, row_exit_code = jr_exitCode r, row_summary = jr_summary r, row_unit = jr_unit r,
     row_boot_id = jr_bootID r, row_username = jr_username r, row_started_at = jr_startedAt r, row_ended_at = jr_endedAt r\<rparr>"

text \<open>Each database operation answers whether it failed.\<close>

definition insert_record :: "node_env \<Rightarrow> job_record \<Rightarrow> job_node \<Rightarrow> bool \<times> job_node" where
  "insert_record env r n =
     (let (failed, n) = ask (ne_dbFails env) n
      in if failed \<or> spec_id (jr_spec r) \<in> row_id ` set (jn_rows n) then (True, n)
         else (False, n\<lparr>jn_rows := jn_rows n @ [rowOf env r]\<rparr>))"

definition scanRecord :: "node_env \<Rightarrow> job_row \<Rightarrow> jobStoreError + job_record" where
  "scanRecord env row = (case ne_decode env (row_spec row) of
     None \<Rightarrow> Inl DBError
   | Some spec \<Rightarrow> Inr \<lparr>jr_spec = spec, jr_status = row_status row, jr_changed = row_changed row, jr_exitCode = row_exit_code row,
       jr_summary = row_summary row, jr_unit = row_unit row, jr_bootID = row_boot_id row, jr_username = row_username row,
       jr_startedAt = row_started_at row, jr_endedAt = row_ended_at row\<rparr>)"

definition get_record :: "node_env \<Rightarrow> string \<Rightarrow> job_node \<Rightarrow> (jobStoreError + job_record) \<times> job_node" where
  "get_record env jid n =
     (let (failed, n) = ask (ne_dbFails env) n
      in (if failed then Inl DBError
          else (case find (\<lambda>r. row_id r = jid) (jn_rows n) of None \<Rightarrow> Inl errNotFound | Some row \<Rightarrow> scanRecord env row), n))"

definition active_record :: "node_env \<Rightarrow> job_node \<Rightarrow> (jobStoreError + job_record option) \<times> job_node" where
  "active_record env n =
     (let (failed, n) = ask (ne_dbFails env) n
      in (if failed then Inl DBError
          else (case sort_key row_started_at (filter (\<lambda>r. active (row_status r)) (jn_rows n)) of
              [] \<Rightarrow> Inr None
            | row # _ \<Rightarrow> (case scanRecord env row of Inl e \<Rightarrow> Inl e | Inr r \<Rightarrow> Inr (Some r))), n))"

definition endStatuses :: "string list" where
  "endStatuses = [JobSucceeded, JobFailed, JobInterrupted, JobCancelled]"

definition endRow :: "job_result \<Rightarrow> time \<Rightarrow> job_row \<Rightarrow> job_row" where
  "endRow r now row = row\<lparr>row_status := res_status r, row_changed := res_changed r, row_exit_code := res_exitCode r,
     row_summary := res_summary r, row_ended_at := Some now\<rparr>"

definition endContext :: "string \<Rightarrow> job_node \<Rightarrow> job_node" where
  "endContext jid n = (if jid \<in> set (jn_cancels n) then noted (ContextEnded jid) n else n)"

definition finish :: "node_env \<Rightarrow> string \<Rightarrow> job_result \<Rightarrow> job_node \<Rightarrow> bool \<times> job_node" where
  "finish env jid r n =
     (if res_status r \<notin> set endStatuses then (True, n)
      else let n = (endContext jid n)\<lparr>jn_cancels := removeAll jid (jn_cancels n)\<rparr>;
               (now, n) = ask (ne_now env) n;
               (failed, n) = ask (ne_dbFails env) n
      in if failed then (True, n)
         else (False, n\<lparr>jn_rows := map (\<lambda>row. if row_id row = jid \<and> active (row_status row) then endRow r now row else row) (jn_rows n)\<rparr>))"

definition newestIDs :: "job_row list \<Rightarrow> string list" where
  "newestIDs rows = take keepJobs (map row_id (sort_key (\<lambda>r. - row_started_at r) (rev rows)))"

definition sweptIDs :: "time \<Rightarrow> job_row list \<Rightarrow> string list" where
  "sweptIDs now rows = map row_id (filter (\<lambda>r. \<not> active (row_status r) \<and>
     (row_started_at r < now - keepFor \<or> row_id r \<notin> set (newestIDs rows))) rows)"

fun sweepLoop :: "node_env \<Rightarrow> string list \<Rightarrow> job_node \<Rightarrow> bool \<times> job_node" where
  "sweepLoop env [] n = (False, n)"
| "sweepLoop env (jid # ids) n =
     (let (removed, n) = ask (ne_removeLog env) n
      in if \<not> removed then sweepLoop env ids n
         else let (failed, n) = ask (ne_dbFails env) n
         in if failed then (True, n)
            else sweepLoop env ids (noted (Dropped jid) (n\<lparr>jn_rows := filter (\<lambda>r. row_id r \<noteq> jid) (jn_rows n)\<rparr>)))"

definition sweep :: "node_env \<Rightarrow> job_node \<Rightarrow> bool \<times> job_node" where
  "sweep env n =
     (let (now, n) = ask (ne_now env) n; (failed, n) = ask (ne_dbFails env) n
      in if failed then (True, n) else sweepLoop env (sweptIDs now (jn_rows n)) n)"

definition SetUnit :: "node_env \<Rightarrow> string \<Rightarrow> string \<Rightarrow> job_node \<Rightarrow> bool \<times> job_node" where
  "SetUnit env jid unit n =
     (let (failed, n) = ask (ne_dbFails env) n
      in if failed then (True, n)
         else (False, n\<lparr>jn_rows := map (\<lambda>row. if row_id row = jid then row\<lparr>row_unit := unit\<rparr> else row) (jn_rows n)\<rparr>))"

definition setRebooting :: "node_env \<Rightarrow> string \<Rightarrow> string \<Rightarrow> job_node \<Rightarrow> bool \<times> job_node" where
  "setRebooting env jid unit n =
     (let (boot, n) = ask (ne_bootID env) n; (failed, n) = ask (ne_dbFails env) n;
          hit = (\<lambda>row. row_id row = jid \<and> row_status row = JobRunning)
      in if failed then (True, n)
         else if \<not> list_ex hit (jn_rows n) then (True, n)
         else (False, n\<lparr>jn_rows := map (\<lambda>row. if hit row then row\<lparr>row_status := JobRebooting, row_unit := unit, row_boot_id := boot\<rparr> else row) (jn_rows n)\<rparr>))"

section \<open>Answers\<close>

text \<open>A job as the API answers it, with the fields the engine does not read.\<close>

record node_view = job_view +
  nv_run_id :: string
  nv_output :: string
  nv_next_skip :: nat
  nv_done :: bool
  nv_started_at :: time
  nv_ended_at :: "time option"

datatype jobAnswer =
    Fail nat string string "(string \<times> string) list"
  | AnswerView nat node_view
  | AnswerVerdicts "check_verdict list"

definition ErrTaskJobClusterOnly :: string where "ErrTaskJobClusterOnly = ''TASK_JOB_CLUSTER_ONLY''"
definition ErrTaskJobRunning :: string where "ErrTaskJobRunning = ''TASK_JOB_RUNNING''"
definition ErrInvalidRequest :: string where "ErrInvalidRequest = ''INVALID_REQUEST''"
definition ErrDBError :: string where "ErrDBError = ''DB_ERROR''"
definition ErrInternalError :: string where "ErrInternalError = ''INTERNAL_ERROR''"

definition refuseNotCluster :: jobAnswer where
  "refuseNotCluster = Fail 403 ErrTaskJobClusterOnly ''Task jobs are started by the cluster's task engine only'' []"

definition dbAnswer :: jobAnswer where
  "dbAnswer = Fail 500 ErrDBError ''Could not read the node's jobs'' []"

definition view :: "node_env \<Rightarrow> job_record \<Rightarrow> nat \<Rightarrow> bool \<Rightarrow> job_node \<Rightarrow> node_view \<times> job_node" where
  "view env r skip withOutput n =
     (let v = \<lparr>view_id = spec_id (jr_spec r), view_kind = spec_kind (jr_spec r), view_status = jr_status r,
            view_changed = jr_changed r, view_exit_code = jr_exitCode r, view_summary = jr_summary r, nv_run_id = spec_run_id (jr_spec r),
            nv_output = [], nv_next_skip = skip, nv_done = False, nv_started_at = jr_startedAt r, nv_ended_at = jr_endedAt r\<rparr>
      in if \<not> withOutput then (v, n)
         else let final = \<not> active (jr_status r);
                  (f, n) = ask (\<lambda>t. ne_logFile env t (spec_id (jr_spec r))) n;
                  (out, nxt, atEnd, err) = readOutput (ne_sanitize env) f skip final
         in (v\<lparr>nv_output := out, nv_next_skip := nxt, nv_done := final \<and> atEnd \<and> \<not> err\<rparr>, n))"

section \<open>The requests\<close>

definition idPattern :: "string \<Rightarrow> bool" where
  "idPattern s \<longleftrightarrow> 24 \<le> length s \<and> length s \<le> 25 \<and> runIDPattern (take 22 s) \<and> s ! 22 = CHR ''-'' \<and> list_all Tasks_Store.is_digit (drop 23 s)"

text \<open>Go's iteration order over the settings is not fixed; the model names the first kind of \<^verbatim>\<open>stepKinds\<close> that should not be there.\<close>

definition settingsSet :: "job_spec \<Rightarrow> (string \<times> bool) list" where
  "settingsSet s = [(StepPackages, spec_packages s \<noteq> None), (StepService, spec_service s \<noteq> None), (StepCommand, spec_command s \<noteq> None),
     (StepFile, spec_file s \<noteq> None), (StepStack, spec_stack s \<noteq> None), (StepReboot, spec_reboot s \<noteq> None)]"

definition checkSettings :: "job_spec \<Rightarrow> string" where
  "checkSettings s =
     (if map_of (settingsSet s) (spec_kind s) \<noteq> Some True then ''The job has no '' @ spec_kind s @ '' settings''
      else (case find (\<lambda>(kind, ok). ok \<and> kind \<noteq> spec_kind s) (settingsSet s) of
          Some (kind, _) \<Rightarrow> ''A '' @ spec_kind s @ '' job carries '' @ kind @ '' settings''
        | None \<Rightarrow> []))"

text \<open>A step number that is read as negative is refused by the second check too: no text the pattern accepts has two hyphens in a row.\<close>

definition validate :: "node_env \<Rightarrow> job_spec \<Rightarrow> string + job_runner" where
  "validate env s =
     (if \<not> idPattern (spec_id s) then Inl ''Invalid job ID''
      else if spec_id s \<noteq> spec_run_id s @ ''-'' @ itoa (int (spec_step s)) then Inl ''The job ID does not name its run and step''
      else if spec_step s \<ge> MaxSteps then Inl ''Invalid step''
      else if trim_space (spec_task s) = [] then Inl ''The job names no task''
      else (case ne_runners env (spec_kind s) of
          None \<Rightarrow> Inl (''This node does not run '' @ ne_quote env (spec_kind s) @ '' steps'')
        | Some runner \<Rightarrow> if checkSettings s \<noteq> [] then Inl (checkSettings s) else Inr runner))"

text \<open>\<^verbatim>\<open>launch\<close>: the context is registered and the goroutine starts; \<open>e\<close> says what it does.\<close>

definition launch :: "jobEvent \<Rightarrow> string \<Rightarrow> job_node \<Rightarrow> job_node" where
  "launch e jid n = noted e (n\<lparr>jn_cancels := jid # removeAll jid (jn_cancels n)\<rparr>)"

text \<open>What \<^verbatim>\<open>StartJob\<close> does under \<^verbatim>\<open>startMu\<close>: an answer, or the record of the job it started.\<close>

definition recordJob :: "node_env \<Rightarrow> job_spec \<Rightarrow> string \<Rightarrow> job_node \<Rightarrow> (jobAnswer + job_record) \<times> job_node" where
  "recordJob env spec username n =
     (let (boot, n) = ask (ne_bootID env) n; (now, n) = ask (ne_now env) n;
          r = \<lparr>jr_spec = spec, jr_status = JobRunning, jr_changed = False, jr_exitCode = None, jr_summary = [], jr_unit = [],
               jr_bootID = boot, jr_username = username, jr_startedAt = now, jr_endedAt = None\<rparr>;
          (created, n) = ask (ne_createLog env) n
      in if \<not> created then (Inl (Fail 500 ErrInternalError ''Could not create the job's log'' []), n)
         else let (failed, n) = insert_record env r n
         in if failed then (Inl (Fail 500 ErrDBError ''Could not record the job'' []), n)
            else (Inr r, launch (Started (spec_id spec)) (spec_id spec) n))"

definition freeJob :: "node_env \<Rightarrow> job_spec \<Rightarrow> string \<Rightarrow> job_node \<Rightarrow> (jobAnswer + job_record) \<times> job_node" where
  "freeJob env spec username n =
     (case active_record env n of
        (Inl e, n) \<Rightarrow> (Inl dbAnswer, n)
      | (Inr (Some holder), n) \<Rightarrow>
          (Inl (Fail 409 ErrTaskNodeBusy ''This node is running another task job''
             [(''job_id'', spec_id (jr_spec holder)), (''run_id'', spec_run_id (jr_spec holder)), (''task'', spec_task (jr_spec holder))]), n)
      | (Inr None, n) \<Rightarrow> recordJob env spec username n)"

definition startLocked :: "node_env \<Rightarrow> job_runner \<Rightarrow> job_spec \<Rightarrow> string \<Rightarrow> job_node \<Rightarrow> (jobAnswer + job_record) \<times> job_node" where
  "startLocked env runner spec username n =
     (case get_record env (spec_id spec) n of
        (Inr r, n) \<Rightarrow> (case view env r 0 False n of (v, n) \<Rightarrow> (Inl (AnswerView 200 v), n))
      | (Inl DBError, n) \<Rightarrow> (Inl dbAnswer, n)
      | (Inl errNotFound, n) \<Rightarrow>
          (case ask (\<lambda>t. rn_Refuse runner t spec) n of
             (Some ref, n) \<Rightarrow> (Inl (Fail (ref_status ref) (ref_code ref) (ref_message ref) []), n)
           | (None, n) \<Rightarrow> freeJob env spec username n))"

definition StartJob :: "node_env \<Rightarrow> bool \<Rightarrow> job_spec option \<Rightarrow> string \<Rightarrow> job_node \<Rightarrow> jobAnswer \<times> job_node" where
  "StartJob env verified body username n =
     (if \<not> verified then (refuseNotCluster, n)
      else (case body of
        None \<Rightarrow> (Fail 400 ErrInvalidRequest ''Invalid job'' [], n)
      | Some spec \<Rightarrow> (case validate env spec of
            Inl msg \<Rightarrow> (Fail 400 ErrInvalidRequest msg [], n)
          | Inr runner \<Rightarrow> (case startLocked env runner spec username n of
                (Inl a, n) \<Rightarrow> (a, n)
              | (Inr r, n) \<Rightarrow> (case view env r 0 False (snd (sweep env n)) of (v, n) \<Rightarrow> (AnswerView 201 v, n))))))"

definition lookup :: "node_env \<Rightarrow> string \<Rightarrow> job_node \<Rightarrow> (jobAnswer + job_record) \<times> job_node" where
  "lookup env jid n =
     (if \<not> idPattern jid then (Inl (Fail 400 ErrInvalidRequest ''Invalid job ID'' []), n)
      else (case get_record env jid n of
          (Inl errNotFound, n) \<Rightarrow> (Inl (Fail 404 ErrTaskJobNotFound ''No such task job on this node'' []), n)
        | (Inl DBError, n) \<Rightarrow> (Inl dbAnswer, n)
        | (Inr r, n) \<Rightarrow> (Inr r, n)))"

text \<open>\<^verbatim>\<open>skip\<close> is the query parameter's text; \<^verbatim>\<open>strconv.ParseInt\<close> reads what \<^verbatim>\<open>Atoi\<close> reads.\<close>

definition GetJob :: "node_env \<Rightarrow> bool \<Rightarrow> string \<Rightarrow> string \<Rightarrow> job_node \<Rightarrow> jobAnswer \<times> job_node" where
  "GetJob env verified jid skip n =
     (if \<not> verified then (refuseNotCluster, n)
      else (case lookup env jid n of
        (Inl a, n) \<Rightarrow> (a, n)
      | (Inr r, n) \<Rightarrow>
          (case (if skip = [] then Some 0 else atoi skip) of
             None \<Rightarrow> (Fail 400 ErrInvalidRequest ''Invalid skip'' [], n)
           | Some v \<Rightarrow> if v < 0 then (Fail 400 ErrInvalidRequest ''Invalid skip'' [], n)
               else (case view env r (nat v) True n of (v, n) \<Rightarrow> (AnswerView 200 v, n)))))"

definition CancelJob :: "node_env \<Rightarrow> bool \<Rightarrow> bool option \<Rightarrow> string \<Rightarrow> job_node \<Rightarrow> jobAnswer \<times> job_node" where
  "CancelJob env verified body jid n =
     (if \<not> verified then (refuseNotCluster, n)
      else (case body of
        None \<Rightarrow> (Fail 400 ErrInvalidRequest ''Invalid request'' [], n)
      | Some force \<Rightarrow> (case lookup env jid n of
            (Inl a, n) \<Rightarrow> (a, n)
          | (Inr r, n) \<Rightarrow>
              if \<not> active (jr_status r) then (case view env r 0 False n of (v, n) \<Rightarrow> (AnswerView 200 v, n))
              else if \<not> force then (Fail 409 ErrTaskJobRunning ''The job is running; it is stopped only when forced'' [], n)
              else (case view env r 0 False (endContext (spec_id (jr_spec r)) n) of (v, n) \<Rightarrow> (AnswerView 200 v, n)))))"

definition refusedVerdict :: "string \<Rightarrow> check_verdict" where
  "refusedVerdict reason = \<lparr>cv_step = 0, cv_refused = True, cv_code = ErrInvalidRequest, cv_reason = reason, cv_needs_confirm = False\<rparr>"

fun checkSpecs :: "node_env \<Rightarrow> job_spec list \<Rightarrow> job_node \<Rightarrow> check_verdict list \<times> job_node" where
  "checkSpecs env [] n = ([], n)"
| "checkSpecs env (s # specs) n =
     (let (v, n) = (case ne_runners env (spec_kind s) of
            None \<Rightarrow> (refusedVerdict (''this node does not run '' @ ne_quote env (spec_kind s) @ '' steps''), n)
          | Some runner \<Rightarrow> if checkSettings s \<noteq> [] then (refusedVerdict (checkSettings s), n) else ask (\<lambda>t. rn_Check runner t s) n);
          (vs, n) = checkSpecs env specs n
      in (v\<lparr>cv_step := int (spec_step s)\<rparr> # vs, n))"

definition CheckJobs :: "node_env \<Rightarrow> bool \<Rightarrow> job_spec list option \<Rightarrow> job_node \<Rightarrow> jobAnswer \<times> job_node" where
  "CheckJobs env verified body n =
     (if \<not> verified then (refuseNotCluster, n)
      else (case body of
        None \<Rightarrow> (Fail 400 ErrInvalidRequest ''Invalid steps'' [], n)
      | Some specs \<Rightarrow>
          if length specs > MaxSteps then (Fail 400 ErrInvalidRequest ''Too many steps'' [], n)
          else (case checkSpecs env specs n of (vs, n) \<Rightarrow> (AnswerVerdicts vs, n))))"

section \<open>A panel that starts\<close>

definition unitRunning :: "string \<Rightarrow> bool" where
  "unitRunning state \<longleftrightarrow> state \<in> set [''active'', ''activating'', ''deactivating'', ''reloading'', ''refreshing'']"

definition failedScan :: "jobStoreError + job_record \<Rightarrow> job_record list" where
  "failedScan x = (case x of Inl _ \<Rightarrow> [] | Inr r \<Rightarrow> [r])"

definition leftIn :: "node_env \<Rightarrow> string \<Rightarrow> job_row list \<Rightarrow> job_record list" where
  "leftIn env status rows = concat (map (\<lambda>row. failedScan (scanRecord env row)) (filter (\<lambda>row. row_status row = status) rows))"

definition interruptedResult :: "string \<Rightarrow> job_result" where
  "interruptedResult summary = \<lparr>res_status = JobInterrupted, res_changed = False, res_exitCode = None, res_summary = summary\<rparr>"

definition unitEnd :: "int option \<Rightarrow> job_result" where
  "unitEnd x = (case x of
     Some code \<Rightarrow> \<lparr>res_status = (if code \<noteq> 0 then JobFailed else JobSucceeded), res_changed = False, res_exitCode = Some code,
        res_summary = (if code \<noteq> 0 then ''exit '' @ itoa code else ''exit 0'')\<rparr>
   | None \<Rightarrow> interruptedResult ''the job's unit ended without saying how'')"

definition resumes :: "node_env \<Rightarrow> job_record \<Rightarrow> bool" where
  "resumes env r \<longleftrightarrow> (case ne_runners env (spec_kind (jr_spec r)) of None \<Rightarrow> False | Some rn \<Rightarrow> rn_resumer rn) \<and> jr_unit r \<noteq> []"

definition recoverOne :: "node_env \<Rightarrow> job_record \<Rightarrow> job_node \<Rightarrow> job_node" where
  "recoverOne env r n =
     (let jid = spec_id (jr_spec r)
      in if resumes env r then launch (Resumed jid) jid n
         else if jr_unit r = [] then snd (finish env jid (interruptedResult ''the panel stopped while the job ran'') n)
         else let (out, n) = ask (\<lambda>t. ne_isActive env t (jr_unit r)) n
         in if unitRunning (trim_space out) then n
            else let (f, n) = ask (\<lambda>t. ne_logFile env t jid) n in snd (finish env jid (unitEnd (exitFromLog f)) n))"

definition rebooted :: job_result where
  "rebooted = \<lparr>res_status = JobSucceeded, res_changed = True, res_exitCode = None, res_summary = ''rebooted''\<rparr>"

definition settleReboot :: "node_env \<Rightarrow> job_record \<Rightarrow> job_node \<Rightarrow> bool \<times> job_node" where
  "settleReboot env r n =
     (let (now, n) = ask (ne_bootID env) n
      in if jr_bootID r = [] \<or> now = [] \<or> now = jr_bootID r then (False, n)
         else (True, snd (finish env (spec_id (jr_spec r)) rebooted n)))"

definition awaits :: "node_env \<Rightarrow> bool" where
  "awaits env \<longleftrightarrow> (case ne_runners env StepReboot of None \<Rightarrow> False | Some rn \<Rightarrow> rn_reboot rn)"

definition recoverReboot :: "node_env \<Rightarrow> job_record \<Rightarrow> job_node \<Rightarrow> job_node" where
  "recoverReboot env r n =
     (case settleReboot env r n of
        (True, n) \<Rightarrow> n
      | (False, n) \<Rightarrow> if awaits env then launch (Awaited (spec_id (jr_spec r))) (spec_id (jr_spec r)) n else n)"

definition recoverRebooting :: "node_env \<Rightarrow> job_node \<Rightarrow> job_node" where
  "recoverRebooting env n =
     (let (failed, n) = ask (ne_dbFails env) n
      in if failed then n else fold (recoverReboot env) (leftIn env JobRebooting (jn_rows n)) n)"

definition Recover :: "node_env \<Rightarrow> job_node \<Rightarrow> job_node" where
  "Recover env n =
     (let (failed, n) = ask (ne_dbFails env) n
      in if failed then n
         else snd (sweep env (recoverRebooting env (fold (recoverOne env) (leftIn env JobRunning (jn_rows n)) n))))"

text \<open>A process that starts has no contexts of the one before it.\<close>

definition restart :: "node_env \<Rightarrow> job_node \<Rightarrow> job_node" where
  "restart env n = Recover env (n\<lparr>jn_cancels := []\<rparr>)"

end
