(* ===== verification/Unit_Guard.thy ===== *)
theory Unit_Guard
  imports Job_Node
begin

text \<open>
  Which units of a host the panel does not touch: \<^verbatim>\<open>src/internal/common/sysguard\<close> (\<^verbatim>\<open>sysguard.go\<close>, \<^verbatim>\<open>hostunits.go\<close>), what it
  reads of \<^verbatim>\<open>src/internal/common/platform/platform.go\<close>, and the guard the Services page and a task's service step share,
  \<^verbatim>\<open>UnitGuard\<close> of \<^verbatim>\<open>src/internal/feature/services/handler.go\<close>.  \<^verbatim>\<open>strings.ToLower\<close> is modelled on ASCII, all that a unit name
  the guard lets through has; \<open>quote\<close> is how \<^verbatim>\<open>fmt\<close> prints a text with \<^verbatim>\<open>%q\<close>.
\<close>

section \<open>The platform\<close>

definition StackIfupdown :: string where "StackIfupdown = ''ifupdown''"
definition StackIfupdown2 :: string where "StackIfupdown2 = ''ifupdown2''"

record platform_info =
  pi_OSID :: string
  pi_OSVersionID :: string
  pi_OSCodename :: string
  pi_OSPrettyName :: string
  pi_PVE :: bool
  pi_PVEVersion :: string
  pi_NetworkStack :: string
  pi_JournalOnly :: bool
  pi_Resolver :: string

definition IfupdownNetworking :: "platform_info \<Rightarrow> bool" where
  "IfupdownNetworking i \<longleftrightarrow> pi_NetworkStack i = StackIfupdown \<or> pi_NetworkStack i = StackIfupdown2"

section \<open>The policy\<close>

definition toLower :: "string \<Rightarrow> string" where
  "toLower s = map (\<lambda>c. if 65 \<le> (of_char c :: nat) \<and> (of_char c :: nat) \<le> 90 then char_of (of_char c + 32 :: nat) else c) s"

definition serviceSuffix :: string where "serviceSuffix = ''.service''"

definition protectedSystemdUnits :: "string list" where
  "protectedSystemdUnits = [''sfpanel.service'', ''dbus.service'', ''systemd-journald.service'']"

definition normalizeUnit :: "string \<Rightarrow> string" where
  "normalizeUnit name = (let name = toLower name in if has_suffix name serviceSuffix then name else name @ serviceSuffix)"

definition IsProtectedSystemdUnit :: "string \<Rightarrow> bool" where
  "IsProtectedSystemdUnit name \<longleftrightarrow> (if name = [] then False else
     (let name = toLower name; name = (if has_suffix name serviceSuffix then name else name @ serviceSuffix)
      in name \<in> set protectedSystemdUnits))"

definition ActionStop :: string where "ActionStop = ''stop''"
definition ActionRestart :: string where "ActionRestart = ''restart''"
definition ActionDisable :: string where "ActionDisable = ''disable''"
definition TierConfirm :: string where "TierConfirm = ''confirm''"
definition TierRefuse :: string where "TierRefuse = ''refuse''"

record unit_rule =
  ur_stop :: string
  ur_restart :: string
  ur_disable :: string
  ur_hint :: string
  ur_signals :: bool

definition refuseAll :: unit_rule where
  "refuseAll = \<lparr>ur_stop = TierRefuse, ur_restart = TierRefuse, ur_disable = TierRefuse, ur_hint = [], ur_signals = False\<rparr>"
definition confirmAll :: unit_rule where
  "confirmAll = \<lparr>ur_stop = TierConfirm, ur_restart = TierConfirm, ur_disable = TierConfirm, ur_hint = [], ur_signals = False\<rparr>"
definition refuseStopOff :: unit_rule where
  "refuseStopOff = \<lparr>ur_stop = TierRefuse, ur_restart = [], ur_disable = TierRefuse, ur_hint = [], ur_signals = False\<rparr>"
definition confirmStopOff :: unit_rule where
  "confirmStopOff = \<lparr>ur_stop = TierConfirm, ur_restart = [], ur_disable = TierConfirm, ur_hint = [], ur_signals = False\<rparr>"
definition clusterStack :: unit_rule where
  "clusterStack = \<lparr>ur_stop = TierRefuse, ur_restart = TierConfirm, ur_disable = TierRefuse, ur_hint = [], ur_signals = True\<rparr>"
definition haService :: unit_rule where
  "haService = \<lparr>ur_stop = TierConfirm, ur_restart = TierConfirm, ur_disable = TierConfirm, ur_hint = [], ur_signals = True\<rparr>"
definition ifupdownNetwork :: unit_rule where
  "ifupdownNetwork = \<lparr>ur_stop = TierRefuse, ur_restart = TierRefuse, ur_disable = TierRefuse, ur_hint = ''ifreload -a'', ur_signals = False\<rparr>"

lemmas unit_rule_defs = refuseAll_def confirmAll_def refuseStopOff_def confirmStopOff_def clusterStack_def haService_def ifupdownNetwork_def

definition pveUnits :: "(string \<times> unit_rule) list" where
  "pveUnits =
     [(''pve-cluster.service'', clusterStack), (''corosync.service'', clusterStack),
      (''watchdog-mux.service'', \<lparr>ur_stop = TierRefuse, ur_restart = TierRefuse, ur_disable = TierRefuse, ur_hint = [], ur_signals = True\<rparr>),
      (''pve-firewall.service'', refuseStopOff), (''proxmox-firewall.service'', refuseStopOff),
      (''pve-guests.service'', \<lparr>ur_stop = [], ur_restart = [], ur_disable = TierRefuse, ur_hint = [], ur_signals = False\<rparr>),
      (''pve-ha-lrm.service'', haService), (''pve-ha-crm.service'', haService),
      (''pveproxy.service'', confirmAll), (''pvedaemon.service'', confirmAll), (''pvestatd.service'', confirmAll),
      (''pvescheduler.service'', confirmAll), (''spiceproxy.service'', confirmAll), (''qmeventd.service'', confirmAll),
      (''lxcfs.service'', confirmAll), (''lxc.service'', confirmAll)]"

definition hostUnitRule :: "platform_info \<Rightarrow> string \<Rightarrow> unit_rule option" where
  "hostUnitRule info unit =
     (if unit \<in> set protectedSystemdUnits then Some refuseAll
      else if unit = ''networking.service'' \<and> IfupdownNetworking info then Some ifupdownNetwork
      else if unit = ''ssh.service'' \<or> unit = ''sshd.service'' then Some confirmStopOff
      else if pi_PVE info then map_of pveUnits unit
      else None)"

definition ruleTier :: "unit_rule \<Rightarrow> string \<Rightarrow> string" where
  "ruleTier r action = (if action = ActionStop then ur_stop r else if action = ActionRestart then ur_restart r
     else if action = ActionDisable then ur_disable r else [])"

definition UnitPolicy :: "platform_info \<Rightarrow> string \<Rightarrow> string \<Rightarrow> string \<times> string" where
  "UnitPolicy info unit action = (case hostUnitRule info (normalizeUnit unit) of
     None \<Rightarrow> ([], [])
   | Some r \<Rightarrow> if ruleTier r action = [] then ([], []) else (ruleTier r action, ur_hint r))"

definition UnitProtection :: "platform_info \<Rightarrow> string \<Rightarrow> (string \<times> string) list" where
  "UnitProtection info unit =
     concat (map (\<lambda>action. case UnitPolicy info unit action of (tier, _) \<Rightarrow> if tier \<noteq> [] then [(action, tier)] else [])
       [ActionStop, ActionRestart, ActionDisable])"

section \<open>The cgroup of a process\<close>

record process_guard =
  pg_VMID :: int
  pg_Protected :: bool

definition Refused :: "process_guard \<Rightarrow> bool" where
  "Refused g \<longleftrightarrow> pg_VMID g \<noteq> 0 \<or> pg_Protected g"

text \<open>\<^verbatim>\<open>strings.Split\<close> and \<^verbatim>\<open>strings.Trim\<close> for one byte.\<close>

fun splitByte :: "char \<Rightarrow> string \<Rightarrow> string list" where
  "splitByte c [] = [[]]"
| "splitByte c (a # s) = (if a = c then [] # splitByte c s else (case splitByte c s of p # ps \<Rightarrow> (a # p) # ps | [] \<Rightarrow> [[a]]))"

definition trimByte :: "char \<Rightarrow> string \<Rightarrow> string" where
  "trimByte c s = rev (dropWhile (\<lambda>x. x = c) (rev (dropWhile (\<lambda>x. x = c) s)))"

definition vmOf :: "string list \<Rightarrow> int option" where
  "vmOf parts = (case parts of
     a # b # _ \<Rightarrow> if a = ''qemu.slice'' \<and> has_suffix b ''.scope''
       then (case atoi (trim_suffix b ''.scope'') of Some n \<Rightarrow> if n > 0 then Some n else None | None \<Rightarrow> None) else None
   | _ \<Rightarrow> None)"

definition ClassifyCgroup :: "platform_info \<Rightarrow> string \<Rightarrow> process_guard" where
  "ClassifyCgroup info path =
     (let parts = splitByte CHR ''/'' (trimByte CHR ''/'' path)
      in case vmOf parts of
           Some n \<Rightarrow> \<lparr>pg_VMID = n, pg_Protected = False\<rparr>
         | None \<Rightarrow> (case find (\<lambda>p. has_suffix p serviceSuffix) parts of
               Some p \<Rightarrow> \<lparr>pg_VMID = 0, pg_Protected = (case hostUnitRule info p of Some r \<Rightarrow> ur_signals r | None \<Rightarrow> False)\<rparr>
             | None \<Rightarrow> \<lparr>pg_VMID = 0, pg_Protected = False\<rparr>))"

text \<open>\<^verbatim>\<open>strings.Cut\<close> at a text.\<close>

fun cutAfter :: "string \<Rightarrow> string \<Rightarrow> string option" where
  "cutAfter sep s = (if has_prefix s sep then Some (drop (length sep) s) else (case s of [] \<Rightarrow> None | _ # r \<Rightarrow> cutAfter sep r))"

fun cgroupLines :: "string \<Rightarrow> string list \<Rightarrow> string" where
  "cgroupLines v1 [] = v1"
| "cgroupLines v1 (line # rest) =
     (if has_prefix line ''0::'' then trim_space (trim_prefix line ''0::'')
      else cgroupLines (case cutAfter '':name=systemd:'' line of Some p \<Rightarrow> trim_space p | None \<Rightarrow> v1) rest)"

definition parseCgroup :: "string \<Rightarrow> string" where
  "parseCgroup data = cgroupLines [] (splitByte newline data)"

section \<open>The guard of a unit\<close>

definition ErrInvalidName :: string where "ErrInvalidName = ''INVALID_NAME''"
definition ErrPermissionDenied :: string where "ErrPermissionDenied = ''PERMISSION_DENIED''"
definition ErrServiceProtected :: string where "ErrServiceProtected = ''SERVICE_PROTECTED''"
definition ErrServiceConfirmRequired :: string where "ErrServiceConfirmRequired = ''SERVICE_CONFIRM_REQUIRED''"

record unit_refusal = refusal +
  ref_details :: "(string \<times> string) list"

definition alnum :: "char \<Rightarrow> bool" where
  "alnum c \<longleftrightarrow> c \<in> set ''ABCDEFGHIJKLMNOPQRSTUVWXYZabcdefghijklmnopqrstuvwxyz0123456789''"

definition validServiceName :: "string \<Rightarrow> bool" where
  "validServiceName s \<longleftrightarrow> has_suffix s serviceSuffix \<and>
     (case trim_suffix s serviceSuffix of [] \<Rightarrow> False | c # r \<Rightarrow> alnum c \<and> list_all (\<lambda>c. alnum c \<or> c \<in> set ''@._:-'') r)"

definition UnitGuard :: "(string \<Rightarrow> string) \<Rightarrow> platform_info \<Rightarrow> string \<Rightarrow> string \<Rightarrow> bool \<Rightarrow> unit_refusal option" where
  "UnitGuard quote info name action confirmed =
     (let refuse = (\<lambda>st code msg details. Some \<lparr>ref_status = st, ref_code = code, ref_message = msg, ref_details = details\<rparr>)
      in if \<not> validServiceName name then refuse 400 ErrInvalidName ''Invalid service name'' []
         else if action = ''start'' \<or> action = ''enable'' then None
         else if action \<notin> set [ActionStop, ActionRestart, ActionDisable]
         then refuse 400 ErrInvalidRequest (''Unknown service action '' @ quote action) []
         else if IsProtectedSystemdUnit name
         then refuse 403 ErrPermissionDenied (''Refusing to '' @ action @ '' protected unit '' @ quote name @ '' via the panel API'') []
         else (case UnitPolicy info name action of (tier, hint) \<Rightarrow>
           if tier = TierRefuse
           then refuse 403 ErrServiceProtected (''Refusing to '' @ action @ '' '' @ name @ '': the host, its cluster or its guests depend on it'' @
             (if hint \<noteq> [] then ''. To apply network changes, run '' @ [CHR 0x27] @ hint @ [CHR 0x27] @ '' instead'' else [])) [(''unit'', name), (''hint'', hint)]
           else if tier = TierConfirm \<and> \<not> confirmed
           then refuse 409 ErrServiceConfirmRequired (''Type '' @ name @ '' to confirm: it is needed to manage this host or run its guests'') [(''unit'', name)]
           else None))"

section \<open>What the services list says is what the guard does\<close>

lemma protected_rule: "unit \<in> set protectedSystemdUnits \<Longrightarrow> hostUnitRule info unit = Some refuseAll"
  by (simp add: hostUnitRule_def)

lemma tiers_nonempty: "TierRefuse \<noteq> []" "TierConfirm \<noteq> []"
  by (simp_all add: TierRefuse_def TierConfirm_def)

lemma pve_tiers: "list_all (\<lambda>(u, r). set [ur_stop r, ur_restart r, ur_disable r] \<subseteq> {[], TierRefuse, TierConfirm}) pveUnits"
  by (simp add: pveUnits_def unit_rule_defs)

lemma rule_tiers:
  assumes "hostUnitRule info u = Some r"
  shows "ruleTier r a \<in> {[], TierRefuse, TierConfirm}"
proof (cases "map_of pveUnits u = Some r")
  case True
  then have "(u, r) \<in> set pveUnits" by (rule map_of_SomeD)
  then show ?thesis using pve_tiers unfolding list_all_iff ruleTier_def by (auto split: if_splits)
next
  case False
  then have "r = refuseAll \<or> r = ifupdownNetwork \<or> r = confirmStopOff"
    using assms unfolding hostUnitRule_def by (metis option.distinct(1) option.inject)
  then show ?thesis by (elim disjE) (simp_all add: ruleTier_def unit_rule_defs)
qed

text \<open>An unconfirmed stop, restart or disable of a unit is turned down exactly when the services list marks it.\<close>

lemma protection_matches_guard:
  assumes "validServiceName name" and "a \<in> {ActionStop, ActionRestart, ActionDisable}"
  shows "UnitGuard quote info name a False = None \<longleftrightarrow> a \<notin> fst ` set (UnitProtection info name)"
proof -
  have ne: "name \<noteq> []" using assms(1) by (auto simp: validServiceName_def has_suffix_def serviceSuffix_def)
  have d: "ActionStop \<noteq> ''start''" "ActionStop \<noteq> ''enable''" "ActionRestart \<noteq> ''start''" "ActionRestart \<noteq> ''enable''" "ActionDisable \<noteq> ''start''" "ActionDisable \<noteq> ''enable''"
    by (simp_all add: ActionStop_def ActionRestart_def ActionDisable_def)
  obtain tier hint where p: "UnitPolicy info name a = (tier, hint)" by fastforce
  have tier: "tier \<in> {[], TierRefuse, TierConfirm}"
    using p rule_tiers [of info "normalizeUnit name"] by (auto simp: UnitPolicy_def split: option.splits if_splits)
  have refuse: "ruleTier refuseAll a = TierRefuse"
    using assms(2) by (auto simp: ruleTier_def refuseAll_def)
  have prot: "tier = TierRefuse" if "IsProtectedSystemdUnit name"
  proof -
    have "normalizeUnit name \<in> set protectedSystemdUnits" using that ne by (simp add: IsProtectedSystemdUnit_def normalizeUnit_def Let_def)
    then show ?thesis using p refuse tiers_nonempty by (simp add: UnitPolicy_def protected_rule)
  qed
  have listed: "a \<in> fst ` set (UnitProtection info name) \<longleftrightarrow> tier \<noteq> []"
    using p assms(2) by (auto simp: UnitProtection_def split_def image_iff)
  have "UnitGuard quote info name a False = None \<longleftrightarrow> \<not> IsProtectedSystemdUnit name \<and> tier \<noteq> TierRefuse \<and> tier \<noteq> TierConfirm"
    using assms d p unfolding UnitGuard_def Let_def by auto
  then show ?thesis using tier prot listed tiers_nonempty by auto
qed

end
