(* ===== verification/Job_Runners.thy ===== *)
theory Job_Runners
  imports Unit_Guard
begin

text \<open>
  What a node does for a step, by its kind: \<^verbatim>\<open>src/internal/feature/taskjob/command.go\<close>, \<^verbatim>\<open>service.go\<close>, \<^verbatim>\<open>reboot.go\<close> and
  \<^verbatim>\<open>packages.go\<close>.  A runner works on the host through interfaces (the \<^verbatim>\<open>Commander\<close>, the packages module's \<^verbatim>\<open>PackageTransactions\<close>, the
  file system, its context); their answers are the world, indexed by a call counter, and what the runner did is a list of events.  A runner's
  \<^verbatim>\<open>Start\<close> ends with the result it hands to \<^verbatim>\<open>Finish\<close> or with an error, which \<^verbatim>\<open>launch\<close> makes a failed job.  The two loops that wait for
  something to end, \<^verbatim>\<open>watch\<close> and \<^verbatim>\<open>wait\<close>, are partial functions: \<open>None\<close> is a wait that never ends.  \<^verbatim>\<open>RuntimeMaxSec\<close> is rounded up in exact
  arithmetic.  Sleeping, time limits of single calls and logging are left out.
\<close>

section \<open>A runner's world\<close>

datatype directEnd = LogUnopened | NotStarted string | ScriptEnded | ScriptCancelled | ScriptTimedOut

datatype txError = TxRefused string string | TxError string

record job_world =
  jw_exec :: "nat \<Rightarrow> string list \<Rightarrow> string \<times> string option"
  jw_exists :: "nat \<Rightarrow> string \<Rightarrow> bool"
  jw_systemd :: "nat \<Rightarrow> bool"
  jw_required :: "nat \<Rightarrow> bool"
  jw_platform :: "nat \<Rightarrow> platform_info"
  jw_cancelled :: "nat \<Rightarrow> bool"
  jw_now :: "nat \<Rightarrow> time"
  jw_writeScript :: "nat \<Rightarrow> string option"
  jw_chmodScript :: "nat \<Rightarrow> string option"
  jw_logOpens :: "nat \<Rightarrow> bool"
  jw_logFile :: "nat \<Rightarrow> logFile"
  jw_direct :: "nat \<Rightarrow> directEnd"
  jw_setUnit :: "nat \<Rightarrow> string option"
  jw_setRebooting :: "nat \<Rightarrow> string option"
  jw_startTx :: "nat \<Rightarrow> string \<Rightarrow> string list \<Rightarrow> txError + string"
  jw_tx :: "nat \<Rightarrow> string \<Rightarrow> (bool \<times> string \<times> int \<times> string) option"
  jw_changed :: "nat \<Rightarrow> string \<Rightarrow> nat option"
  jw_sanitize :: "string \<Rightarrow> string"
  jw_quote :: "string \<Rightarrow> string"

datatype runEvent = Ran "string list" | UnitSet string | RebootSet string | Appended string
  | ScriptWritten string | ScriptRemoved | TxStarted string "string list" string

record job_run =
  jx_tick :: nat
  jx_unit :: string
  jx_events :: "runEvent list"

text \<open>The job a runner gets: \<^verbatim>\<open>Job\<close> without its unit, which the run carries.\<close>

record started_job =
  sj_spec :: job_spec
  sj_logPath :: string
  sj_startedAt :: time

definition asked :: "(nat \<Rightarrow> 'a) \<Rightarrow> job_run \<Rightarrow> 'a \<times> job_run" where
  "asked f s = (f (jx_tick s), s\<lparr>jx_tick := Suc (jx_tick s)\<rparr>)"

definition did :: "runEvent \<Rightarrow> job_run \<Rightarrow> job_run" where
  "did e s = s\<lparr>jx_events := jx_events s @ [e]\<rparr>"

definition runCmd :: "job_world \<Rightarrow> string list \<Rightarrow> job_run \<Rightarrow> (string \<times> string option) \<times> job_run" where
  "runCmd W argv s = (let (r, s) = asked (\<lambda>t. jw_exec W t argv) s in (r, did (Ran argv) s))"

definition appendLog :: "job_world \<Rightarrow> string \<Rightarrow> job_run \<Rightarrow> job_run" where
  "appendLog W text s =
     (if text = [] then s
      else let (opens, s) = asked (jw_logOpens W) s
      in if \<not> opens then s else did (Appended (if has_suffix text [newline] then text else text @ [newline])) s)"

fun firstNonEmpty :: "string list \<Rightarrow> string" where
  "firstNonEmpty [] = []"
| "firstNonEmpty (v # vs) = (if trim_space v \<noteq> [] then v else firstNonEmpty vs)"

definition result :: "string \<Rightarrow> bool \<Rightarrow> int option \<Rightarrow> string \<Rightarrow> job_result" where
  "result status changed exit summary = \<lparr>res_status = status, res_changed = changed, res_exitCode = exit, res_summary = summary\<rparr>"

definition setUnit :: "job_world \<Rightarrow> string \<Rightarrow> job_run \<Rightarrow> string option \<times> job_run" where
  "setUnit W unit s =
     (let (err, s) = asked (jw_setUnit W) s
      in case err of Some e \<Rightarrow> (Some e, s) | None \<Rightarrow> (None, did (UnitSet unit) (s\<lparr>jx_unit := unit\<rparr>)))"

text \<open>What \<^verbatim>\<open>launch\<close> makes of what a runner returned.\<close>

definition launchResult :: "job_world \<Rightarrow> string + job_result \<Rightarrow> job_result" where
  "launchResult W x = (case x of Inl err \<Rightarrow> result JobFailed False None (jw_sanitize W err) | Inr r \<Rightarrow> r)"

section \<open>Command steps\<close>

definition commandUnitPrefix :: string where "commandUnitPrefix = ''sfpanel-task-''"
definition unknownLimit :: nat where "unknownLimit = 30"

definition commandScript :: string where
  "commandScript = [CHR 0x22, CHR 0x24, CHR 0x40, CHR 0x22] @ ''; rc=$?; echo '' @ [CHR 0x22] @ ''[sfpanel-task] exit=$rc'' @ [CHR 0x22] @ ''; exit $rc''"

definition commandTimeout :: "command_step \<Rightarrow> duration" where
  "commandTimeout step = (if cs_timeout step > 0 then cs_timeout step else DefaultCommandTimeout)"

definition scriptPath :: "string \<Rightarrow> string" where
  "scriptPath logPath = trim_suffix logPath ''.log'' @ ''.sh''"

definition commandUnitArgv :: "started_job \<Rightarrow> string \<Rightarrow> string \<Rightarrow> duration \<Rightarrow> string list" where
  "commandUnitArgv job unit script timeout =
     [''--unit='' @ unit, ''--collect'', ''--quiet'',
      ''-p'', ''RuntimeMaxSec='' @ itoa (- ((- timeout) div second)),
      ''-p'', ''StandardOutput=append:'' @ sj_logPath job,
      ''-p'', ''StandardError=inherit'',
      ''--'', ''/bin/sh'', ''-c'', commandScript, ''sh'', ''/bin/sh'', script]"

definition timedOut :: "duration \<Rightarrow> job_result" where
  "timedOut timeout = result JobFailed True None (''timed out after '' @ shortDuration timeout)"

definition exitResult :: "int \<Rightarrow> job_result" where
  "exitResult code = result (if code \<noteq> 0 then JobFailed else JobSucceeded) True (Some code) (''exit '' @ itoa code)"

definition settle :: "job_world \<Rightarrow> started_job \<Rightarrow> duration \<Rightarrow> job_run \<Rightarrow> job_result \<times> job_run" where
  "settle W job timeout s =
     (let ((out, _), s) = runCmd W [''systemctl'', ''show'', ''-p'', ''Result'', ''--value'', jx_unit s] s
      in if trim_space out = ''timeout'' then (timedOut timeout, s)
         else let (f, s) = asked (jw_logFile W) s
         in case exitFromLog f of
              Some code \<Rightarrow> (exitResult code, s)
            | None \<Rightarrow> (let (now, s) = asked (jw_now W) s
                in if now - sj_startedAt job \<ge> timeout then (timedOut timeout, s)
                   else (result JobInterrupted True None ''the command stopped without saying how it ended: its unit was stopped or killed'', s)))"

datatype watchNext = UnitGone bool | WatchOn bool bool nat

text \<open>One round of the loop: \<open>pending\<close> says the cancel was not seen yet.\<close>

definition watchStep :: "job_world \<Rightarrow> bool \<Rightarrow> bool \<Rightarrow> nat \<Rightarrow> job_run \<Rightarrow> watchNext \<times> job_run" where
  "watchStep W pending cancelled unknown s =
     (let ((out, _), s) = runCmd W [''systemctl'', ''is-active'', jx_unit s] s; state = trim_space out
      in if state = ''inactive'' \<or> state = ''failed'' then (UnitGone cancelled, s)
         else let unknown = (if unitRunning state then 0 else unknown + 1)
         in if \<not> unitRunning state \<and> unknown \<ge> unknownLimit then (UnitGone cancelled, s)
            else let (ended, s) = asked (jw_cancelled W) s
            in if pending \<and> ended
               then (let (_, s) = runCmd W [''systemctl'', ''stop'', jx_unit s] s in (WatchOn False True unknown, s))
               else (WatchOn pending cancelled unknown, s))"

partial_function (option) watchLoop :: "job_world \<Rightarrow> bool \<Rightarrow> bool \<Rightarrow> nat \<Rightarrow> job_run \<Rightarrow> (bool \<times> job_run) option" where
  "watchLoop W pending cancelled unknown s =
     (case watchStep W pending cancelled unknown s of
        (UnitGone c, s) \<Rightarrow> Some (c, s)
      | (WatchOn p c u, s) \<Rightarrow> watchLoop W p c u s)"

definition watch :: "job_world \<Rightarrow> started_job \<Rightarrow> duration \<Rightarrow> job_run \<Rightarrow> (job_result \<times> job_run) option" where
  "watch W job timeout s =
     (case watchLoop W True False 0 s of
        None \<Rightarrow> None
      | Some (cancelled, s) \<Rightarrow>
          (case settle W job timeout s of (res, s) \<Rightarrow>
             Some (if cancelled then result JobCancelled True None ''cancelled: its unit was stopped'' else res, did ScriptRemoved s)))"

definition runDirect :: "job_world \<Rightarrow> duration \<Rightarrow> job_run \<Rightarrow> job_result \<times> job_run" where
  "runDirect W timeout s =
     (case asked (jw_direct W) s of
        (LogUnopened, s) \<Rightarrow> (result JobFailed False None ''could not open the job's log'', s)
      | (NotStarted err, s) \<Rightarrow> (result JobFailed False None (''the command could not be started: '' @ jw_sanitize W err), s)
      | (ScriptCancelled, s) \<Rightarrow> (result JobCancelled True None ''cancelled: the command was killed'', s)
      | (ScriptTimedOut, s) \<Rightarrow> (timedOut timeout, s)
      | (ScriptEnded, s) \<Rightarrow>
          (let (f, s) = asked (jw_logFile W) s
           in case exitFromLog f of
                Some code \<Rightarrow> (exitResult code, s)
              | None \<Rightarrow> (result JobInterrupted True None ''the command stopped without saying how it ended'', s)))"

definition scriptBody :: "command_step \<Rightarrow> string" where
  "scriptBody step = (let body = (if cs_script step = [] then cs_run step else cs_script step)
     in if has_suffix body [newline] then body else body @ [newline])"

definition startUnit :: "job_world \<Rightarrow> started_job \<Rightarrow> string \<Rightarrow> duration \<Rightarrow> job_run \<Rightarrow> ((string + job_result) \<times> job_run) option" where
  "startUnit W job script timeout s =
     (let unit = commandUnitPrefix @ spec_id (sj_spec job) @ serviceSuffix
      in case setUnit W unit s of
           (Some err, s) \<Rightarrow> Some (Inl (''record the job's unit: '' @ err), did ScriptRemoved s)
         | (None, s) \<Rightarrow>
             (case runCmd W (''systemd-run'' # commandUnitArgv job unit script timeout) s of
                ((out, Some err), s) \<Rightarrow>
                  Some (Inl (''systemd-run: '' @ trim_space (firstNonEmpty [out, err])), appendLog W (trim_space out) (did ScriptRemoved s))
              | ((out, None), s) \<Rightarrow> map_option (\<lambda>(res, s). (Inr res, s)) (watch W job timeout s)))"

definition command_Start :: "job_world \<Rightarrow> started_job \<Rightarrow> command_step \<Rightarrow> job_run \<Rightarrow> ((string + job_result) \<times> job_run) option" where
  "command_Start W job step s =
     (let timeout = commandTimeout step; script = scriptPath (sj_logPath job); (err, s) = asked (jw_writeScript W) s
      in case err of
           Some e \<Rightarrow> Some (Inl (''write the job's script: '' @ e), s)
         | None \<Rightarrow>
             (let (err, s) = asked (jw_chmodScript W) (did (ScriptWritten (scriptBody step)) s)
              in case err of
                   Some e \<Rightarrow> Some (Inl (''write the job's script: '' @ e), did ScriptRemoved s)
                 | None \<Rightarrow>
                     (let (active, s) = asked (jw_systemd W) s; (there, s) = asked (\<lambda>t. jw_exists W t ''systemd-run'') s
                      in if \<not> active \<or> \<not> there
                         then (case runDirect W timeout s of (res, s) \<Rightarrow> Some (Inr res, did ScriptRemoved s))
                         else startUnit W job script timeout s)))"

definition command_Resume :: "job_world \<Rightarrow> started_job \<Rightarrow> command_step \<Rightarrow> job_run \<Rightarrow> ((string + job_result) \<times> job_run) option" where
  "command_Resume W job step s = map_option (\<lambda>(res, s). (Inr res, s)) (watch W job (commandTimeout step) s)"

section \<open>Service steps\<close>

definition firstLine :: "string \<Rightarrow> string" where
  "firstLine s = (let s = trim_space s; s = (case index_byte s newline of Some i \<Rightarrow> trim_space (take i s) | None \<Rightarrow> s)
     in if s = [] then ''unknown'' else s)"

definition unitState :: "job_world \<Rightarrow> string \<Rightarrow> job_run \<Rightarrow> string \<times> job_run" where
  "unitState W unit s =
     (let ((a, _), s) = runCmd W [''systemctl'', ''is-active'', unit] s; ((e, _), s) = runCmd W [''systemctl'', ''is-enabled'', unit] s
      in (firstLine a @ '', '' @ firstLine e, s))"

definition service_Check :: "job_world \<Rightarrow> nat \<Rightarrow> service_step \<Rightarrow> check_verdict" where
  "service_Check W t step =
     (let v = (\<lambda>refused confirm code reason. \<lparr>cv_step = 0, cv_refused = refused, cv_code = code, cv_reason = reason, cv_needs_confirm = confirm\<rparr>)
      in case UnitGuard (jw_quote W) (jw_platform W t) (ss_name step) (ss_action step) False of
           None \<Rightarrow> v False False [] []
         | Some ref \<Rightarrow> if ref_code ref = ErrServiceConfirmRequired then v False True (ref_code ref) (ref_message ref)
             else v True False (ref_code ref) (ref_message ref))"

definition service_run :: "job_world \<Rightarrow> service_step \<Rightarrow> job_run \<Rightarrow> job_result \<times> job_run" where
  "service_run W step s =
     (let (before, s) = unitState W (ss_name step) s;
          s = appendLog W (''$ systemctl '' @ ss_action step @ '' '' @ ss_name step) s;
          ((out, err), s) = runCmd W [''systemctl'', ss_action step, ss_name step] s;
          s = appendLog W (trim_space out) s;
          (after, s) = unitState W (ss_name step) s;
          s = appendLog W (ss_name step @ '': '' @ after) s;
          changed = (after \<noteq> before \<or> ss_action step = ''restart'')
      in case err of
           Some e \<Rightarrow> (result JobFailed changed None (''systemctl '' @ ss_action step @ '' failed: '' @ jw_sanitize W (trim_space (firstNonEmpty [out, e]))), s)
         | None \<Rightarrow>
             (result JobSucceeded changed None
                (if ss_action step = ''restart'' \<and> after = before then ss_name step @ '': restarted ('' @ after @ '')''
                 else if \<not> changed then ss_name step @ '': already '' @ after
                 else ss_name step @ '': '' @ before @ '' '' @ [CHR 0xE2, CHR 0x86, CHR 0x92] @ '' '' @ after), s))"

definition service_Start :: "job_world \<Rightarrow> started_job \<Rightarrow> service_step \<Rightarrow> job_run \<Rightarrow> job_result \<times> job_run" where
  "service_Start W job step s =
     (let (info, s) = asked (jw_platform W) s
      in case UnitGuard (jw_quote W) info (ss_name step) (ss_action step) (spec_confirmed (sj_spec job)) of
           Some ref \<Rightarrow> (result JobFailed False None (ref_code ref @ '': '' @ ref_message ref), s)
         | None \<Rightarrow> service_run W step s)"

section \<open>Reboot steps\<close>

definition rebootUnitPrefix :: string where "rebootUnitPrefix = ''sfpanel-task-reboot-''"
definition ErrTaskRebootUnsupported :: string where "ErrTaskRebootUnsupported = ''TASK_REBOOT_UNSUPPORTED''"

definition refusePVE :: "job_world \<Rightarrow> job_run \<Rightarrow> refusal option \<times> job_run" where
  "refusePVE W s =
     (let (info, s) = asked (jw_platform W) s
      in (if pi_PVE info then Some \<lparr>ref_status = 409, ref_code = ErrTaskRebootPVEHost,
            ref_message = ''This is a Proxmox VE host; the panel does not reboot one, since it does not know the guests running on it''\<rparr> else None, s))"

definition reboot_Check :: "job_world \<Rightarrow> job_run \<Rightarrow> check_verdict \<times> job_run" where
  "reboot_Check W s =
     (case refusePVE W s of
        (Some ref, s) \<Rightarrow> (\<lparr>cv_step = 0, cv_refused = True, cv_code = ref_code ref, cv_reason = ref_message ref, cv_needs_confirm = False\<rparr>, s)
      | (None, s) \<Rightarrow> (\<lparr>cv_step = 0, cv_refused = False, cv_code = [], cv_reason = [], cv_needs_confirm = False\<rparr>, s))"

text \<open>\<^verbatim>\<open>OnlyIfRequired && !required()\<close>: the file is looked for only when the step asks.\<close>

definition notRequired :: "job_world \<Rightarrow> reboot_step \<Rightarrow> job_run \<Rightarrow> bool \<times> job_run" where
  "notRequired W step s =
     (if \<not> rb_only_if_required step then (False, s) else (case asked (jw_required W) s of (req, s) \<Rightarrow> (\<not> req, s)))"

definition reboot_Refuse :: "job_world \<Rightarrow> reboot_step \<Rightarrow> job_run \<Rightarrow> refusal option \<times> job_run" where
  "reboot_Refuse W step s =
     (case refusePVE W s of
        (Some ref, s) \<Rightarrow> (Some ref, s)
      | (None, s) \<Rightarrow>
          (case notRequired W step s of
             (True, s) \<Rightarrow> (None, s)
           | (False, s) \<Rightarrow>
               (let (active, s) = asked (jw_systemd W) s; (there, s) = asked (\<lambda>t. jw_exists W t ''systemd-run'') s
                in (if \<not> active \<or> \<not> there then Some \<lparr>ref_status = 409, ref_code = ErrTaskRebootUnsupported,
                       ref_message = ''This node has no systemd to schedule a reboot with''\<rparr> else None, s))))"

definition rebootWait :: "reboot_step \<Rightarrow> duration" where
  "rebootWait step = (if rb_wait step > 0 then rb_wait step else DefaultRebootWait)"

definition goingDown :: "job_world \<Rightarrow> job_run \<Rightarrow> bool \<times> job_run" where
  "goingDown W s = (let ((out, _), s) = runCmd W [''systemctl'', ''is-system-running''] s in (trim_space out = ''stopping'', s))"

text \<open>\<^verbatim>\<open>await\<close> either sees its context end before the timer or the timer itself.\<close>

definition await :: "job_world \<Rightarrow> reboot_step \<Rightarrow> job_run \<Rightarrow> job_result \<times> job_run" where
  "await W step s =
     (let didNotReboot = result JobFailed False None (''the node did not reboot within '' @ shortDuration (rebootWait step));
          (ended, s) = asked (jw_cancelled W) s;
          (res, s) =
            (if \<not> ended then (didNotReboot, s)
             else let (_, s) = runCmd W [''systemctl'', ''stop'', jx_unit s] s; (down, s) = goingDown W s
             in if down then (didNotReboot, appendLog W ''cancel asked after the reboot had begun: it cannot be called off'' s)
                else (result JobCancelled False None ''cancelled: the reboot was called off'', s))
      in (res, appendLog W (res_summary res) s))"

definition schedule :: "job_world \<Rightarrow> string \<Rightarrow> reboot_step \<Rightarrow> job_run \<Rightarrow> (string + job_result) \<times> job_run" where
  "schedule W unit step s =
     (case asked (jw_setRebooting W) s of
        (Some err, s) \<Rightarrow> (Inl err, s)
      | (None, s) \<Rightarrow>
          (case runCmd W [''systemd-run'', ''--on-active=5'', ''--unit='' @ unit, ''systemctl'', ''reboot'']
                  (did (RebootSet (unit @ ''.timer'')) (s\<lparr>jx_unit := unit @ ''.timer''\<rparr>)) of
             ((out, Some err), s) \<Rightarrow>
               (Inr (result JobFailed False None (''systemd-run: '' @ jw_sanitize W (trim_space (firstNonEmpty [out, err])))),
                appendLog W (trim_space out) s)
           | ((out, None), s) \<Rightarrow>
               (case await W step (appendLog W (''reboot scheduled in 5 seconds ('' @ unit @ '')'') s) of (res, s) \<Rightarrow> (Inr res, s))))"

definition reboot_Start :: "job_world \<Rightarrow> started_job \<Rightarrow> reboot_step \<Rightarrow> job_run \<Rightarrow> (string + job_result) \<times> job_run" where
  "reboot_Start W job step s =
     (case reboot_Refuse W step s of
        (Some ref, s) \<Rightarrow> (Inr (result JobFailed False None (ref_code ref @ '': '' @ ref_message ref)), s)
      | (None, s) \<Rightarrow>
          (case notRequired W step s of
             (True, s) \<Rightarrow> (Inr (result JobSucceeded False None ''not required''), appendLog W ''no reboot is required'' s)
           | (False, s) \<Rightarrow>
               (let (ended, s) = asked (jw_cancelled W) s
                in if ended then (Inr (result JobCancelled False None ''cancelled before the reboot was scheduled''), s)
                   else schedule W (rebootUnitPrefix @ spec_id (sj_spec job)) step s)))"

section \<open>Packages steps\<close>

definition aptUnitPrefix :: string where "aptUnitPrefix = ''sfpanel-apt-''"
definition pkgUpdate :: string where "pkgUpdate = ''update''"
definition phaseMarker :: string where "phaseMarker = ''[sfpanel-task] phase=''"

type_synonym pkgPhase = "string \<times> string list"

definition listed :: "string list option \<Rightarrow> string list" where
  "listed xs = (case xs of None \<Rightarrow> [] | Some l \<Rightarrow> l)"

definition packagePhases :: "packages_step \<Rightarrow> pkgPhase list" where
  "packagePhases p =
     (if ps_update p then [(pkgUpdate, [])] else []) @
     (if ps_upgrade_all p then [(''upgrade'', [])]
      else if listed (ps_upgrade p) \<noteq> [] then [(''upgrade'', listed (ps_upgrade p))] else []) @
     (if listed (ps_install p) \<noteq> [] then [(''install'', listed (ps_install p))] else []) @
     (if listed (ps_remove p) \<noteq> [] then [(''remove'', listed (ps_remove p))] else [])"

text \<open>How many packages the transactions before the end changed: \<open>None\<close> when apt's summary of one of them is missing.\<close>

fun countChanged :: "job_world \<Rightarrow> string list \<Rightarrow> nat \<Rightarrow> bool \<Rightarrow> job_run \<Rightarrow> (nat \<times> bool) \<times> job_run" where
  "countChanged W [] n counted s = ((n, counted), s)"
| "countChanged W (tx # done) n counted s =
     (let (view, s) = asked (\<lambda>t. jw_tx W t tx) s;
          (c, s) = (case view of
              None \<Rightarrow> (None, s)
            | Some (_, _, _, logPath) \<Rightarrow> asked (\<lambda>t. jw_changed W t logPath) s)
      in case c of
           None \<Rightarrow> countChanged W done n False s
         | Some k \<Rightarrow> countChanged W done (n + k) counted s)"

definition ended :: "job_world \<Rightarrow> string \<Rightarrow> string \<Rightarrow> int option \<Rightarrow> string list \<Rightarrow> job_run \<Rightarrow> job_result \<times> job_run" where
  "ended W status summary exit done s =
     (if done = [] then (result status False exit (if status = JobSucceeded then ''package lists updated'' else summary), s)
      else let ((n, counted), s) = countChanged W done 0 True s;
               (changed, what) =
                 (if \<not> counted then (True, ''packages changed; apt printed no summary, so they were not counted'')
                  else if n = 0 then (False, ''no packages changed'')
                  else if n = 1 then (True, ''1 package changed'')
                  else (True, itoa (int n) @ '' packages changed''))
      in (result status changed exit (if summary = [] then what else summary @ '' ('' @ what @ '')''), s))"

datatype txNext = TxGone bool | TxEnded string int bool | TxOn bool bool

text \<open>One round of \<^verbatim>\<open>wait\<close>: the transaction's record is gone, it ended, or it runs on.\<close>

definition txStep :: "job_world \<Rightarrow> string \<Rightarrow> bool \<Rightarrow> bool \<Rightarrow> job_run \<Rightarrow> txNext \<times> job_run" where
  "txStep W tx pending cancelled s =
     (case asked (\<lambda>t. jw_tx W t tx) s of
        (None, s) \<Rightarrow> (TxGone cancelled, s)
      | (Some (running, res, code, logPath), s) \<Rightarrow>
          if \<not> running then (TxEnded res code cancelled, s)
          else (case asked (jw_cancelled W) s of (seen, s) \<Rightarrow>
            if pending \<and> seen then (TxOn False True, s) else (TxOn pending cancelled, s)))"

partial_function (option) txLoop :: "job_world \<Rightarrow> string \<Rightarrow> bool \<Rightarrow> bool \<Rightarrow> job_run \<Rightarrow>
    ((bool \<times> (string \<times> int) option) \<times> job_run) option" where
  "txLoop W tx pending cancelled s =
     (case txStep W tx pending cancelled s of
        (TxGone c, s) \<Rightarrow> Some ((c, None), s)
      | (TxEnded res code c, s) \<Rightarrow> Some ((c, Some (res, code)), s)
      | (TxOn p c, s) \<Rightarrow> txLoop W tx p c s)"

declare watchLoop.simps [code] txLoop.simps [code]

text \<open>Starting the transaction of a phase: its ID, or the result the step ends with.\<close>

definition startTx :: "job_world \<Rightarrow> nat \<Rightarrow> pkgPhase \<Rightarrow> string list \<Rightarrow> job_run \<Rightarrow> (job_result + string) \<times> job_run" where
  "startTx W i ph done s =
     (let (seen, s) = asked (jw_cancelled W) s
      in if seen then (case ended W JobCancelled (''cancelled before the '' @ fst ph @ '' transaction'') None done s of (r, s) \<Rightarrow> (Inl r, s))
         else (case asked (\<lambda>t. jw_startTx W t (fst ph) (snd ph)) s of
             (Inl (TxRefused code msg), s) \<Rightarrow> (case ended W JobFailed (code @ '': '' @ msg) None done s of (r, s) \<Rightarrow> (Inl r, s))
           | (Inl (TxError err), s) \<Rightarrow> (case ended W JobFailed (jw_sanitize W err) None done s of (r, s) \<Rightarrow> (Inl r, s))
           | (Inr tx, s) \<Rightarrow>
               (Inr tx, appendLog W (phaseMarker @ itoa (int i) @ '' tx='' @ tx)
                  (snd (setUnit W (if fst ph \<noteq> pkgUpdate then aptUnitPrefix @ tx @ serviceSuffix else [])
                    (did (TxStarted (fst ph) (snd ph) tx) s))))))"

text \<open>What a phase that is over means for the step: its result, or nothing when the step goes on.\<close>

definition phaseEnd :: "job_world \<Rightarrow> string \<Rightarrow> bool \<Rightarrow> (string \<times> int) option \<Rightarrow> string list \<Rightarrow> job_run \<Rightarrow> job_result option \<times> job_run" where
  "phaseEnd W kind cancelled x done s =
     (let finish = (\<lambda>status summary exit. case ended W status summary exit done s of (r, s) \<Rightarrow> (Some r, s))
      in if cancelled
         then finish JobCancelled (''cancelled; the '' @ kind @ '' transaction ran to its end ('' @ (case x of None \<Rightarrow> [] | Some (res, _) \<Rightarrow> res) @ '')'') None
         else (case x of
             None \<Rightarrow> finish JobInterrupted (''the '' @ kind @ '' transaction's record is gone'') None
           | Some (res, code) \<Rightarrow>
               if res = ''success'' then (None, s)
               else if res = ''failed''
               then finish JobFailed (kind @ '' failed with exit status '' @ itoa code) (if code \<ge> 0 then Some code else None)
               else finish JobInterrupted (''the '' @ kind @ '' transaction stopped without saying how it ended'') None))"

text \<open>The loop of \<^verbatim>\<open>run\<close> over the phases that are left; \<open>tx\<close> is the transaction the first of them is in already, if it is.\<close>

fun phasesLoop :: "job_world \<Rightarrow> nat \<Rightarrow> pkgPhase list \<Rightarrow> string option \<Rightarrow> string list \<Rightarrow> job_run \<Rightarrow> (job_result \<times> job_run) option" where
  "phasesLoop W i [] tx done s = Some (ended W JobSucceeded [] (Some 0) done s)"
| "phasesLoop W i (ph # phases) tx done s =
     (case (case tx of Some t \<Rightarrow> (Inr t, s) | None \<Rightarrow> startTx W i ph done s) of
        (Inl r, s) \<Rightarrow> Some (r, s)
      | (Inr t, s) \<Rightarrow>
          (case txLoop W t True False s of
             None \<Rightarrow> None
           | Some ((cancelled, x), s) \<Rightarrow>
               (let done = (if fst ph \<noteq> pkgUpdate then done @ [t] else done)
                in case phaseEnd W (fst ph) cancelled x done s of
                     (Some r, s) \<Rightarrow> Some (r, s)
                   | (None, s) \<Rightarrow> phasesLoop W (Suc i) phases None done s)))"

definition packages_Start :: "job_world \<Rightarrow> packages_step \<Rightarrow> job_run \<Rightarrow> (job_result \<times> job_run) option" where
  "packages_Start W step s = phasesLoop W 0 (packagePhases step) None [] s"

definition ErrInvalidPackageName :: string where "ErrInvalidPackageName = ''INVALID_PACKAGE_NAME''"

text \<open>The packages module's rule for a name, which \<^verbatim>\<open>tasks\<close> has a copy of, is the copy.\<close>

definition packages_Check :: "job_world \<Rightarrow> packages_step \<Rightarrow> check_verdict" where
  "packages_Check W p =
     (case find (\<lambda>name. \<not> validPackageName name) (listed (ps_upgrade p) @ listed (ps_install p) @ listed (ps_remove p)) of
        Some name \<Rightarrow> \<lparr>cv_step = 0, cv_refused = True, cv_code = ErrInvalidPackageName,
          cv_reason = ''invalid package name '' @ jw_quote W name, cv_needs_confirm = False\<rparr>
      | None \<Rightarrow> \<lparr>cv_step = 0, cv_refused = False, cv_code = [], cv_reason = [], cv_needs_confirm = False\<rparr>)"

section \<open>Taking a packages job back\<close>

record phase_mark =
  pm_phase :: nat
  pm_tx :: string
  pm_end :: nat

definition txID :: "string \<Rightarrow> bool" where
  "txID s \<longleftrightarrow> length s = 20 \<and> list_all Tasks_Store.is_digit (take 8 s) \<and> s ! 8 = CHR ''-'' \<and>
     list_all Tasks_Store.is_digit (take 6 (drop 9 s)) \<and> s ! 15 = CHR ''-'' \<and> list_all lower_hex (drop 16 s)"

text \<open>The phase number is read with \<^verbatim>\<open>strconv.Atoi\<close>, which gives its largest int for a number past it.\<close>

definition phaseLine :: "string \<Rightarrow> (nat \<times> string) option" where
  "phaseLine line =
     (if \<not> has_prefix line phaseMarker then None
      else let rest = trim_prefix line phaseMarker; ds = takeWhile Tasks_Store.is_digit rest; tail = dropWhile Tasks_Store.is_digit rest
      in if ds \<noteq> [] \<and> has_prefix tail '' tx='' \<and> txID (trim_prefix tail '' tx='')
         then Some (min (digits_value ds) (2 ^ 63 - 1), trim_prefix tail '' tx='') else None)"

text \<open>The lines that end with a line break, each with the offset after it; what comes after the last of them is no line yet.\<close>

fun scanMarks :: "nat \<Rightarrow> string list \<Rightarrow> phase_mark list" where
  "scanMarks pos [] = []"
| "scanMarks pos [unfinished] = []"
| "scanMarks pos (line # l # rest) =
     (let after = pos + length line + 1
      in (case phaseLine line of Some (phase, tx) \<Rightarrow> [\<lparr>pm_phase = phase, pm_tx = tx, pm_end = after\<rparr>] | None \<Rightarrow> []) @ scanMarks after (l # rest))"

definition readPhaseMarks :: "logFile \<Rightarrow> (phase_mark list \<times> nat) option" where
  "readPhaseMarks f = (case f of Log data \<Rightarrow> Some (scanMarks 0 (splitByte newline data), length data) | _ \<Rightarrow> None)"

definition unitTx :: "string \<Rightarrow> string option" where
  "unitTx unit =
     (if has_prefix unit aptUnitPrefix \<and> has_suffix (trim_prefix unit aptUnitPrefix) serviceSuffix
      then Some (trim_suffix (trim_prefix unit aptUnitPrefix) serviceSuffix) else None)"

definition countedBefore :: "pkgPhase list \<Rightarrow> phase_mark list \<Rightarrow> string list" where
  "countedBefore phases marks =
     map pm_tx (filter (\<lambda>m. pm_phase m < length phases \<and> fst (phases ! pm_phase m) \<noteq> pkgUpdate) marks)"

definition packages_Resume :: "job_world \<Rightarrow> packages_step \<Rightarrow> job_run \<Rightarrow> ((string + job_result) \<times> job_run) option" where
  "packages_Resume W step s =
     (let phases = packagePhases step; (f, s) = asked (jw_logFile W) s
      in case (unitTx (jx_unit s), readPhaseMarks f) of
           (Some tx, Some (marks, _)) \<Rightarrow>
             (let inMark = (marks \<noteq> [] \<and> pm_tx (last marks) = tx);
                  start = (if inMark then pm_phase (last marks) else if marks \<noteq> [] then pm_phase (last marks) + 1 else 0);
                  s = (if \<not> inMark \<and> start < length phases then appendLog W (phaseMarker @ itoa (int start) @ '' tx='' @ tx) s else s);
                  done = countedBefore phases (if inMark then butlast marks else marks)
              in if start \<ge> length phases \<or> fst (phases ! start) = pkgUpdate
                 then Some (Inl (''the job's log does not say which transaction '' @ tx @ '' was''), s)
                 else map_option (\<lambda>(r, s). (Inr r, s)) (phasesLoop W start (drop start phases) (Some tx) done s))
         | _ \<Rightarrow> Some (Inl (''the job's transaction could not be found again (unit '' @ jw_quote W (jx_unit s) @ '')''), s))"

end
