(* ===== verification/Job_Safety.thy ===== *)
theory Job_Safety
  imports Job_Node
begin

text \<open>
  What a node's half of a group task guarantees.  The statuses of the jobs in the table refine an abstract slot that holds one job at a time; a job is started
  once; the sweep, the answers and the recovery at boot do what their comments say; and the jobs the leader's engine sends are ones the node takes.
\<close>

section \<open>What a node promises: one slot\<close>

text \<open>The abstract state of a node is the status of each job it knows.  A job is started when it is not known and none holds the node; only a job
  that holds it ends or goes on to wait for its reboot; only one that is over is forgotten.\<close>

type_synonym slots = "string \<rightharpoonup> string"

definition held :: "slots \<Rightarrow> bool" where
  "held m \<longleftrightarrow> (\<exists>j s. m j = Some s \<and> active s)"

datatype slot_event = Starts string | Ends string string | Reboots string | Forgets string

definition isEnd :: "slot_event \<Rightarrow> bool" where "isEnd e = (case e of Ends j s \<Rightarrow> True | _ \<Rightarrow> False)"
definition isForget :: "slot_event \<Rightarrow> bool" where "isForget e = (case e of Forgets j \<Rightarrow> True | _ \<Rightarrow> False)"

inductive slot_step :: "slots \<Rightarrow> slot_event \<Rightarrow> slots \<Rightarrow> bool" where
  slot_start: "m j = None \<Longrightarrow> \<not> held m \<Longrightarrow> slot_step m (Starts j) (m(j \<mapsto> JobRunning))"
| slot_end: "m j = Some s \<Longrightarrow> active s \<Longrightarrow> e \<in> set endStatuses \<Longrightarrow> slot_step m (Ends j e) (m(j \<mapsto> e))"
| slot_reboot: "m j = Some JobRunning \<Longrightarrow> slot_step m (Reboots j) (m(j \<mapsto> JobRebooting))"
| slot_drop: "m j = Some s \<Longrightarrow> \<not> active s \<Longrightarrow> slot_step m (Forgets j) (m(j := None))"

text \<open>The events of a stretch of time, one after another.\<close>

inductive slot_run :: "slots \<Rightarrow> slot_event list \<Rightarrow> slots \<Rightarrow> bool" where
  run_none: "slot_run m [] m"
| run_more: "slot_step m e m1 \<Longrightarrow> slot_run m1 es m2 \<Longrightarrow> slot_run m (e # es) m2"

inductive_cases slot_run_Cons: "slot_run m (e # es) m2"

lemma run_one: "slot_step m e m' \<Longrightarrow> slot_run m [e] m'"
  by (blast intro: slot_run.intros)

lemma slot_run_append: "slot_run m es m1 \<Longrightarrow> slot_run m1 fs m2 \<Longrightarrow> slot_run m (es @ fs) m2"
  by (induction rule: slot_run.induct) (auto intro: slot_run.intros)

definition one_holder :: "slots \<Rightarrow> bool" where
  "one_holder m \<longleftrightarrow> (\<forall>j k s t. m j = Some s \<and> active s \<and> m k = Some t \<and> active t \<longrightarrow> j = k)"

lemma end_not_active: "e \<in> set endStatuses \<Longrightarrow> \<not> active e"
  unfolding endStatuses_def active_def job_status_defs by auto

lemma active_statuses [simp]: "active JobRunning" "active JobRebooting"
  by (simp_all add: active_def)

lemma one_holder_step:
  assumes "slot_step m ev m'" and "one_holder m"
  shows "one_holder m'"
  using assms
proof cases
  case (slot_start j)
  then show ?thesis using assms(2) by (auto simp: one_holder_def held_def)
next
  case (slot_end j s e)
  then show ?thesis using assms(2) end_not_active [of e] by (auto simp: one_holder_def split: if_splits)
next
  case (slot_reboot j)
  then show ?thesis using assms(2) active_statuses(1) unfolding one_holder_def by (metis fun_upd_apply)
next
  case (slot_drop j s)
  then show ?thesis using assms(2) by (auto simp: one_holder_def split: if_splits)
qed

lemma one_holder_run: "slot_run m es m' \<Longrightarrow> one_holder m \<Longrightarrow> one_holder m'"
  by (induction rule: slot_run.induct) (auto intro: one_holder_step)

text \<open>The interface of a simulation: from states the invariant covers, every concrete operation is a run of abstract events that its contract permits.\<close>

locale simulation =
  fixes cinit :: "'c \<Rightarrow> bool" and perf :: "'q \<Rightarrow> 'c \<Rightarrow> 'c" and cinv :: "'c \<Rightarrow> bool"
    and abs :: "'c \<Rightarrow> 'a" and ainit :: "'a \<Rightarrow> bool" and arun :: "'a \<Rightarrow> 'e list \<Rightarrow> 'a \<Rightarrow> bool" and may :: "'q \<Rightarrow> 'e list \<Rightarrow> bool"
  assumes sim_init: "cinit c \<Longrightarrow> cinv c \<and> ainit (abs c)"
    and sim_op: "cinv c \<Longrightarrow> cinv (perf q c) \<and> (\<exists>es. may q es \<and> arun (abs c) es (abs (perf q c)))"
begin

lemma reaches:
  assumes "(\<lambda>c c'. \<exists>q. c' = perf q c)\<^sup>*\<^sup>* c c'" and "cinit c"
  shows "cinv c'"
  using assms by (induction rule: rtranclp_induct) (use sim_init sim_op in blast)+

lemma refines:
  assumes "(\<lambda>c c'. \<exists>q. c' = perf q c)\<^sup>*\<^sup>* c c'" and "cinit c"
  shows "\<exists>es. may q es \<and> arun (abs c') es (abs (perf q c'))"
  using sim_op [OF reaches [OF assms]] by blast

lemma transfers:
  assumes "(\<lambda>c c'. \<exists>q. c' = perf q c)\<^sup>*\<^sup>* c c'" and "cinit c" and "\<And>a. ainit a \<Longrightarrow> P a" and "\<And>a es b. arun a es b \<Longrightarrow> P a \<Longrightarrow> P b"
  shows "P (abs c')"
  using assms(1,2)
proof (induction rule: rtranclp_induct)
  case base
  then show ?case using sim_init assms(3) by blast
next
  case (step y z)
  then show ?case using sim_op [OF reaches [OF step.hyps(1) assms(2)]] assms(4) by blast
qed

end

section \<open>The node refines the slot\<close>

definition jobs_of :: "job_node \<Rightarrow> slots" where
  "jobs_of n = map_of (map (\<lambda>r. (row_id r, row_status r)) (jn_rows n))"

definition ids_of :: "job_node \<Rightarrow> string list" where
  "ids_of n = map row_id (jn_rows n)"

lemma jobs_of_None: "jobs_of n j = None \<longleftrightarrow> j \<notin> set (ids_of n)"
  by (simp add: jobs_of_def ids_of_def map_of_eq_None_iff image_image)

lemma held_iff:
  assumes "distinct (ids_of n)"
  shows "held (jobs_of n) \<longleftrightarrow> (\<exists>r\<in>set (jn_rows n). active (row_status r))"
proof -
  let ?ps = "map (\<lambda>r. (row_id r, row_status r)) (jn_rows n)"
  have "distinct (map fst ?ps)" using assms by (simp add: ids_of_def comp_def)
  then have "jobs_of n j = Some s \<longleftrightarrow> (j, s) \<in> set ?ps" for j s unfolding jobs_of_def by (rule map_of_eq_Some_iff)
  then show ?thesis unfolding held_def by auto
qed

text \<open>An update that keeps the IDs changes the one job it hits.\<close>

lemma map_rows_jobs:
  assumes "distinct (map row_id rows)" and "\<And>r. row_id (g r) = row_id r" and "\<And>r. row_status (g r) = h (row_status r)"
  shows "map_of (map (\<lambda>r. (row_id r, row_status r)) (map (\<lambda>r. if row_id r = j \<and> P (row_status r) then g r else r) rows)) =
    (let m = map_of (map (\<lambda>r. (row_id r, row_status r)) rows)
     in case m j of Some s \<Rightarrow> if P s then m(j \<mapsto> h s) else m | None \<Rightarrow> m)"
  using assms(1)
proof (induction rows)
  case (Cons r rows)
  let ?f = "\<lambda>r. if row_id r = j \<and> P (row_status r) then g r else r"
  show ?case
  proof (cases "row_id r = j")
    case True
    then have "j \<notin> row_id ` set rows" using Cons.prems by auto
    then have "map ?f rows = rows" by (intro map_idI) auto
    then show ?thesis using True assms(2,3) by (auto simp: Let_def)
  next
    case False
    then show ?thesis using Cons by (auto simp: Let_def fun_eq_iff split: option.splits)
  qed
qed simp

lemma map_rows_ids: "(\<And>r. row_id (g r) = row_id r) \<Longrightarrow> map row_id (map (\<lambda>r. if P r then g r else r) rows) = map row_id rows"
  by simp

lemma filter_rows_jobs:
  "map_of (map (\<lambda>r. (row_id r, row_status r)) (filter (\<lambda>r. row_id r \<noteq> j) rows)) =
   (map_of (map (\<lambda>r. (row_id r, row_status r)) rows))(j := None)"
  by (induction rows) (auto simp: fun_eq_iff)

text \<open>What an operation does to the table and to the count of starts and drops: it keeps the IDs apart, the jobs move by steps of the slot, and
  a job is started only when it was dropped as often as it was started before.\<close>

definition shadow :: "job_node \<Rightarrow> job_row list \<times> (string \<Rightarrow> nat) \<times> (string \<Rightarrow> nat)" where
  "shadow n = (jn_rows n, (\<lambda>j. count_list (jn_log n) (Started j)), (\<lambda>j. count_list (jn_log n) (Dropped j)))"

definition tally :: "job_node \<Rightarrow> string \<Rightarrow> int" where
  "tally n j = int (count_list (jn_log n) (Dropped j)) + (if j \<in> set (ids_of n) then 1 else 0) - int (count_list (jn_log n) (Started j))"

definition moves_by :: "(slot_event list \<Rightarrow> bool) \<Rightarrow> job_node \<Rightarrow> job_node \<Rightarrow> bool" where
  "moves_by P n n' \<longleftrightarrow> (distinct (ids_of n) \<longrightarrow> distinct (ids_of n') \<and> (\<exists>es. P es \<and> slot_run (jobs_of n) es (jobs_of n')) \<and>
     (\<forall>j. tally n j \<le> tally n' j))"

abbreviation idles :: "slot_event list \<Rightarrow> bool" where "idles es \<equiv> es = []"
abbreviation ends :: "slot_event list \<Rightarrow> bool" where "ends es \<equiv> list_all isEnd es"
abbreviation forgets :: "slot_event list \<Rightarrow> bool" where "forgets es \<equiv> list_all isForget es"

named_theorems moves \<open>operations whose effect on the table is made of slot steps\<close>

lemma shadow_simps [simp]:
  "shadow (n\<lparr>jn_tick := t\<rparr>) = shadow n"
  "shadow (n\<lparr>jn_cancels := c\<rparr>) = shadow n"
  "shadow (endContext j n) = shadow n"
  "(\<And>k. e \<noteq> Started k \<and> e \<noteq> Dropped k) \<Longrightarrow> shadow (launch e j n) = shadow n"
  by (auto simp: shadow_def endContext_def noted_def launch_def)

lemma shadow_rows: "shadow a = shadow b \<Longrightarrow> jobs_of a = jobs_of b \<and> ids_of a = ids_of b \<and> tally a = tally b \<and> jn_rows a = jn_rows b"
  by (simp add: shadow_def jobs_of_def ids_of_def tally_def fun_eq_iff)

lemma moves_refl: "shadow n' = shadow n \<Longrightarrow> P [] \<Longrightarrow> moves_by P n n'"
  using run_none by (auto simp: moves_by_def shadow_rows [of n' n])

lemma moves_trans: "moves_by P a b \<Longrightarrow> moves_by Q b c \<Longrightarrow> (\<And>es fs. P es \<Longrightarrow> Q fs \<Longrightarrow> R (es @ fs)) \<Longrightarrow> moves_by R a c"
  unfolding moves_by_def by (meson order_trans slot_run_append)

lemma moves_mono: "moves_by P a b \<Longrightarrow> (\<And>es. P es \<Longrightarrow> Q es) \<Longrightarrow> moves_by Q a b"
  unfolding moves_by_def by blast

lemma moves_cong: "shadow a = shadow a' \<Longrightarrow> shadow b = shadow b' \<Longrightarrow> moves_by P a b = moves_by P a' b'"
  by (simp add: moves_by_def shadow_rows [of a a'] shadow_rows [of b b'])

lemma view_shadow [simp]: "shadow (snd (view env r skip wo n)) = shadow n"
  by (simp add: view_def ask_def Let_def split: prod.splits)

lemma shadow_set_rows: "snd (shadow (n\<lparr>jn_rows := rows\<rparr>)) = snd (shadow n)"
  by (simp add: shadow_def)

lemma endContext_rows [simp]: "jn_rows (endContext j n) = jn_rows n"
  by (simp add: endContext_def noted_def)

lemma moves_update:
  assumes "\<And>r. row_id (g r) = row_id r" and "\<And>r. row_status (g r) = h (row_status r)"
    and "\<And>s m. m j = Some s \<Longrightarrow> P s \<Longrightarrow> slot_run m es (m(j \<mapsto> h s))"
    and "jn_rows n' = map (\<lambda>r. if row_id r = j \<and> P (row_status r) then g r else r) (jn_rows n)"
    and "snd (shadow n') = snd (shadow n)"
  shows "moves_by (\<lambda>fs. fs = [] \<or> fs = es) n n'"
  unfolding moves_by_def
proof (intro impI conjI allI)
  show "tally n k \<le> tally n' k" for k
    using assms(5) unfolding tally_def ids_of_def assms(4) map_rows_ids [OF assms(1)] by (simp add: shadow_def fun_eq_iff)
next
  assume d: "distinct (ids_of n)"
  show "distinct (ids_of n')" using d unfolding ids_of_def assms(4) map_rows_ids [OF assms(1)] .
  have "jobs_of n' = (case jobs_of n j of Some s \<Rightarrow> if P s then (jobs_of n)(j \<mapsto> h s) else jobs_of n | None \<Rightarrow> jobs_of n)"
    unfolding jobs_of_def assms(4) using d map_rows_jobs [where j = j and g = g and h = h and P = P, OF _ assms(1,2)]
    by (simp add: ids_of_def Let_def)
  then have "slot_run (jobs_of n) [] (jobs_of n') \<or> slot_run (jobs_of n) es (jobs_of n')"
    using assms(3) [of "jobs_of n"] run_none by (simp split: option.splits)
  then show "\<exists>fs. (fs = [] \<or> fs = es) \<and> slot_run (jobs_of n) fs (jobs_of n')" by blast
qed

lemma finish_moves [moves]: "moves_by (\<lambda>es. es = [] \<or> es = [Ends j (res_status r)]) n (snd (finish env j r n))"
proof (cases "res_status r \<in> set endStatuses \<and> \<not> ne_dbFails env (Suc (jn_tick (endContext j n)))")
  case True
  show ?thesis
  proof (rule moves_update [where j = j and P = active and h = "\<lambda>_. res_status r" and g = "endRow r (ne_now env (jn_tick (endContext j n)))"])
    show "slot_run m [Ends j (res_status r)] (m(j \<mapsto> res_status r))" if "m j = Some s" "active s" for m :: slots and s
      using slot_end [of m j s "res_status r"] that True by (blast intro: run_one)
  qed (use True in \<open>simp_all add: finish_def endRow_def ask_def Let_def shadow_set_rows\<close>)
next
  case False
  then show ?thesis by (intro moves_refl) (auto simp: finish_def ask_def Let_def)
qed

lemma SetUnit_moves [moves]: "moves_by idles n (snd (SetUnit env j u n))"
proof (cases "ne_dbFails env (jn_tick n)")
  case False
  have "moves_by (\<lambda>fs. fs = [] \<or> fs = []) n (snd (SetUnit env j u n))"
    by (rule moves_update [where j = j and P = "\<lambda>_. True" and h = id and g = "\<lambda>row. row\<lparr>row_unit := u\<rparr>"])
      (use False in \<open>simp_all add: SetUnit_def ask_def Let_def map_upd_triv shadow_set_rows run_none\<close>)
  then show ?thesis by simp
qed (simp add: SetUnit_def ask_def Let_def moves_refl)

lemma setRebooting_moves [moves]: "moves_by (\<lambda>es. es = [] \<or> es = [Reboots j]) n (snd (setRebooting env j u n))"
proof (cases "ne_dbFails env (Suc (jn_tick n)) \<or> \<not> list_ex (\<lambda>row. row_id row = j \<and> row_status row = JobRunning) (jn_rows n)")
  case True
  then show ?thesis by (intro moves_refl) (auto simp: setRebooting_def ask_def Let_def)
next
  case False
  show ?thesis
  proof (rule moves_update [where j = j and P = "\<lambda>s. s = JobRunning" and h = "\<lambda>_. JobRebooting"
        and g = "\<lambda>row. row\<lparr>row_status := JobRebooting, row_unit := u, row_boot_id := ne_bootID env (jn_tick n)\<rparr>"])
    show "slot_run m [Reboots j] (m(j \<mapsto> JobRebooting))" if "m j = Some s" "s = JobRunning" for m :: slots and s
      by (rule run_one) (rule slot_reboot; use that in simp)
  qed (use False in \<open>simp_all add: setRebooting_def ask_def Let_def shadow_set_rows\<close>)
qed

lemma insert_moves:
  assumes "jr_status r = JobRunning" and "\<not> held (jobs_of n)" and "insert_record env r n = (False, n')" and "j = spec_id (jr_spec r)"
  shows "moves_by (\<lambda>es. es = [Starts j]) n (launch (Started j) j n')"
  unfolding moves_by_def
proof (intro impI conjI allI)
  let ?n = "launch (Started j) j n'"
  from assms(3,4) have j: "j \<notin> set (ids_of n)" and rows: "jn_rows ?n = jn_rows n @ [rowOf env r]" "jn_log ?n = jn_log n @ [Started j]"
    by (auto simp: insert_record_def ask_def Let_def ids_of_def launch_def noted_def split: if_splits)
  have s: "row_id (rowOf env r) = j" "row_status (rowOf env r) = JobRunning" using assms(1,4) by (simp_all add: rowOf_def)
  show "tally n k \<le> tally ?n k" for k using j by (auto simp: tally_def rows ids_of_def s)
  have "jobs_of ?n = (jobs_of n)(j \<mapsto> JobRunning)"
  proof
    fix k
    have "jobs_of ?n k = (case jobs_of n k of None \<Rightarrow> if k = j then Some JobRunning else None | Some x \<Rightarrow> Some x)"
      by (auto simp: jobs_of_def rows s map_add_def split: option.splits)
    then show "jobs_of ?n k = ((jobs_of n)(j \<mapsto> JobRunning)) k" using jobs_of_None [of n j] j by (auto split: option.splits)
  qed
  moreover have "slot_step (jobs_of n) (Starts j) ((jobs_of n)(j \<mapsto> JobRunning))"
    by (rule slot_start) (use j assms(2) in \<open>simp_all add: jobs_of_None\<close>)
  ultimately show "\<exists>es. es = [Starts j] \<and> slot_run (jobs_of n) es (jobs_of ?n)" using run_one by auto
  assume "distinct (ids_of n)"
  then show "distinct (ids_of ?n)" using j by (simp add: ids_of_def rows s)
qed

lemma active_record_free:
  assumes "active_record env n = (Inr None, n')" and "distinct (ids_of n)"
  shows "\<not> held (jobs_of n)"
proof -
  from assms(1) have "sort_key row_started_at (filter (\<lambda>r. active (row_status r)) (jn_rows n)) = []"
    by (auto simp: active_record_def ask_def Let_def split: if_splits list.splits sum.splits)
  then have "filter (\<lambda>r. active (row_status r)) (jn_rows n) = []" by (metis set_empty set_sort)
  then show ?thesis using held_iff [OF assms(2)] by (auto simp: filter_empty_conv)
qed

lemma get_record_shadow [simp]: "shadow (snd (get_record env j n)) = shadow n"
  by (simp add: get_record_def ask_def Let_def)

lemma active_record_shadow [simp]: "shadow (snd (active_record env n)) = shadow n"
  by (simp add: active_record_def ask_def Let_def)

lemma insert_refused: "insert_record env r n = (True, n') \<Longrightarrow> shadow n' = shadow n"
  by (auto simp: insert_record_def ask_def Let_def split: if_splits)

lemma recordJob_starts:
  assumes "\<not> held (jobs_of n)" and "recordJob env spec u n = (Inr r, n1)"
  shows "moves_by (\<lambda>es. es = [Starts (spec_id spec)]) n n1"
proof -
  define m where "m = n\<lparr>jn_tick := Suc (Suc (Suc (jn_tick n)))\<rparr>"
  have m: "shadow m = shadow n" by (simp add: m_def)
  obtain n2 where "insert_record env r m = (False, n2)" "n1 = launch (Started (spec_id spec)) (spec_id spec) n2" "jr_status r = JobRunning" "jr_spec r = spec"
    using assms(2) by (auto simp: recordJob_def ask_def Let_def m_def split: if_splits prod.splits)
  then have "moves_by (\<lambda>es. es = [Starts (spec_id spec)]) m n1" using insert_moves [of r m env n2 "spec_id spec"] assms(1) shadow_rows [OF m] by simp
  then show ?thesis using moves_cong [OF m refl] by simp
qed

lemma recordJob_refused: "recordJob env spec u n = (Inl a, n1) \<Longrightarrow> shadow n1 = shadow n"
  by (auto simp: recordJob_def ask_def Let_def dest: insert_refused split: if_splits prod.splits)

text \<open>A start gets to the record by way of two reads that change nothing.\<close>

lemma startLocked_starts:
  assumes "startLocked env rn spec u n = (Inr r, n1)"
  shows "moves_by (\<lambda>es. es = [Starts (spec_id spec)]) n n1"
proof (cases "distinct (ids_of n)")
  case True
  obtain g m where g: "get_record env (spec_id spec) n = (g, m)" by fastforce
  define n2 where "n2 = m\<lparr>jn_tick := Suc (jn_tick m)\<rparr>"
  have n2: "shadow n2 = shadow n" using g get_record_shadow [of env "spec_id spec" n] by (simp add: n2_def)
  have f: "freeJob env spec u n2 = (Inr r, n1)"
    using assms g by (auto simp: startLocked_def ask_def n2_def split: sum.splits jobStoreError.splits option.splits prod.splits)
  obtain n3 where n3: "active_record env n2 = (Inr None, n3)" "recordJob env spec u n3 = (Inr r, n1)"
    using f by (auto simp: freeJob_def split: prod.splits sum.splits option.splits)
  have sh: "shadow n3 = shadow n" using n3(1) n2 active_record_shadow [of env n2] by simp
  have "\<not> held (jobs_of n3)" using active_record_free [OF n3(1)] True shadow_rows [OF n2] shadow_rows [OF sh] by simp
  from recordJob_starts [OF this n3(2)] show ?thesis using moves_cong [OF sh refl] by simp
qed (simp add: moves_by_def)

lemma freeJob_refused:
  assumes "freeJob env spec u n = (Inl a, n1)"
  shows "shadow n1 = shadow n"
proof -
  obtain x m where "active_record env n = (x, m)" by fastforce
  then show ?thesis using assms active_record_shadow [of env n] recordJob_refused [of env spec u m a n1]
    by (auto simp: freeJob_def split: sum.splits option.splits)
qed

lemma startLocked_refused:
  assumes "startLocked env rn spec u n = (Inl a, n1)"
  shows "shadow n1 = shadow n"
proof -
  obtain g m where g: "get_record env (spec_id spec) n = (g, m)" by fastforce
  have m: "shadow m = shadow n" using g get_record_shadow [of env "spec_id spec" n] by simp
  have v: "shadow n1 = shadow m" if "view env r 0 False m = (x, n1)" for r x using that view_shadow [of env r 0 False m] by simp
  show ?thesis
  proof (cases "g = Inl errNotFound \<and> rn_Refuse rn (jn_tick m) spec = None")
    case True
    then have "freeJob env spec u (m\<lparr>jn_tick := Suc (jn_tick m)\<rparr>) = (Inl a, n1)" using assms g by (simp add: startLocked_def ask_def)
    from freeJob_refused [OF this] m show ?thesis by simp
  next
    case False
    then show ?thesis using assms g m v
      by (cases g) (auto simp: startLocked_def ask_def split: jobStoreError.splits option.splits prod.splits)
  qed
qed

lemma startLocked_moves [moves]: "moves_by (\<lambda>es. es = [] \<or> es = [Starts (spec_id spec)]) n (snd (startLocked env rn spec u n))"
proof (cases "startLocked env rn spec u n")
  case (Pair x n1)
  show ?thesis
  proof (cases x)
    case (Inl a)
    then show ?thesis using Pair startLocked_refused [of env rn spec u n a n1] by (simp add: moves_refl)
  next
    case (Inr r)
    then show ?thesis using Pair moves_mono [OF startLocked_starts [of env rn spec u n r n1]] by simp
  qed
qed

lemma sweepLoop_moves:
  assumes "\<And>j s. j \<in> set ids \<Longrightarrow> jobs_of n j = Some s \<Longrightarrow> \<not> active s"
  shows "moves_by forgets n (snd (sweepLoop env ids n))"
  using assms
proof (induction ids arbitrary: n)
  case (Cons j ids)
  let ?n1 = "n\<lparr>jn_tick := Suc (jn_tick n)\<rparr>" and ?n2 = "n\<lparr>jn_tick := Suc (Suc (jn_tick n))\<rparr>"
  let ?n3 = "noted (Dropped j) (?n2\<lparr>jn_rows := filter (\<lambda>r. row_id r \<noteq> j) (jn_rows n)\<rparr>)"
  have same: "jobs_of ?n1 = jobs_of n" by (simp add: jobs_of_def)
  have drop: "jobs_of ?n3 = (jobs_of n)(j := None)" by (simp add: jobs_of_def noted_def filter_rows_jobs)
  have "moves_by forgets ?n1 (snd (sweepLoop env ids ?n1))" by (rule Cons.IH) (use Cons.prems same in auto)
  then have keep: "moves_by forgets n (snd (sweepLoop env ids ?n1))" using moves_cong [OF _ refl, of ?n1 n] by simp
  have "moves_by forgets n ?n3"
    unfolding moves_by_def drop
  proof (intro impI conjI allI)
    assume "distinct (ids_of n)"
    then show "distinct (ids_of ?n3)" by (simp add: ids_of_def noted_def distinct_map_filter)
    show "tally n k \<le> tally ?n3 k" for k by (auto simp: tally_def noted_def ids_of_def)
    show "\<exists>es. forgets es \<and> slot_run (jobs_of n) es ((jobs_of n)(j := None))"
    proof (cases "jobs_of n j")
      case None
      then show ?thesis using run_none by (intro exI [of _ "[]"]) (simp add: fun_upd_idem)
    next
      case (Some s)
      then show ?thesis using slot_drop [of "jobs_of n" j s] Cons.prems [of j s] run_one by (intro exI [of _ "[Forgets j]"]) (auto simp: isForget_def)
    qed
  qed
  moreover have "moves_by forgets ?n3 (snd (sweepLoop env ids ?n3))" by (rule Cons.IH) (use Cons.prems drop in \<open>auto split: if_splits\<close>)
  ultimately have gone: "moves_by forgets n (snd (sweepLoop env ids ?n3))" by (rule moves_trans) simp
  show ?case using keep gone by (auto simp: ask_def Let_def intro: moves_refl)
qed (simp add: moves_refl)

lemma sweep_moves [moves]: "moves_by forgets n (snd (sweep env n))"
proof (cases "distinct (ids_of n) \<and> \<not> ne_dbFails env (Suc (jn_tick n))")
  case True
  let ?n = "n\<lparr>jn_tick := Suc (Suc (jn_tick n))\<rparr>"
  have "\<not> active s" if "j \<in> set (sweptIDs t (jn_rows n))" "jobs_of ?n j = Some s" for t j s
  proof -
    from that(1) obtain r where r: "r \<in> set (jn_rows n)" "row_id r = j" "\<not> active (row_status r)" by (auto simp: sweptIDs_def)
    have "distinct (map fst (map (\<lambda>r. (row_id r, row_status r)) (jn_rows n)))" using True by (simp add: ids_of_def comp_def)
    then have "jobs_of n j = Some (row_status r)" unfolding jobs_of_def using r by (intro map_of_is_SomeI) auto
    then show ?thesis using that(2) r(3) by (simp add: jobs_of_def)
  qed
  from sweepLoop_moves [OF this] have "moves_by forgets ?n (snd (sweepLoop env (sweptIDs (ne_now env (jn_tick n)) (jn_rows n)) ?n))" .
  then show ?thesis using True moves_cong [OF _ refl, of ?n n] by (simp add: sweep_def ask_def Let_def)
next
  case False
  show ?thesis
  proof (cases "distinct (ids_of n)")
    case True
    then show ?thesis using False by (intro moves_refl) (simp_all add: sweep_def ask_def Let_def)
  qed (simp add: moves_by_def)
qed

text \<open>A request that starts nothing forgets nothing either: the sweep comes only after a start.\<close>

definition startEvents :: "bool \<Rightarrow> job_spec option \<Rightarrow> slot_event list \<Rightarrow> bool" where
  "startEvents verified body es \<longleftrightarrow> es = [] \<or> (\<exists>spec fs. verified \<and> body = Some spec \<and> es = Starts (spec_id spec) # fs \<and> forgets fs)"

lemma StartJob_moves [moves]: "moves_by (startEvents v b) n (snd (StartJob env v b u n))"
proof (cases "\<exists>spec rn r n1. v \<and> b = Some spec \<and> validate env spec = Inr rn \<and> startLocked env rn spec u n = (Inr r, n1)")
  case True
  then obtain spec rn r n1 where b: "v" "b = Some spec" "validate env spec = Inr rn" and l: "startLocked env rn spec u n = (Inr r, n1)" by blast
  have "moves_by (startEvents v b) n (snd (sweep env n1))"
    by (rule moves_trans [OF startLocked_starts [OF l] sweep_moves]) (use b in \<open>auto simp: startEvents_def\<close>)
  moreover have "shadow (snd (StartJob env v b u n)) = shadow (snd (sweep env n1))" using b l by (simp add: StartJob_def split_def)
  ultimately show ?thesis by (simp add: moves_cong [OF refl, of "snd (StartJob env v b u n)" "snd (sweep env n1)"])
next
  case False
  show ?thesis
  proof (cases "\<exists>spec rn. v \<and> b = Some spec \<and> validate env spec = Inr rn")
    case True
    then obtain spec rn where b: "v" "b = Some spec" "validate env spec = Inr rn" by blast
    obtain a n1 where l: "startLocked env rn spec u n = (Inl a, n1)" using False b by (metis old.sum.exhaust surj_pair)
    have "moves_by (startEvents v b) n n1" by (rule moves_refl [OF startLocked_refused [OF l]]) (simp add: startEvents_def)
    then show ?thesis using l b by (simp add: StartJob_def)
  qed (auto simp: StartJob_def startEvents_def intro: moves_refl split: option.splits sum.splits)
qed

lemma lookup_shadow [simp]: "shadow (snd (lookup env j n)) = shadow n"
proof -
  obtain g n1 where g: "get_record env j n = (g, n1)" by fastforce
  then have "shadow n1 = shadow n" using get_record_shadow [of env j n] by simp
  then show ?thesis by (simp add: lookup_def g split: sum.splits jobStoreError.splits)
qed

lemma CancelJob_moves [moves]: "moves_by idles n (snd (CancelJob env v b j n))"
proof (rule moves_refl [OF _ refl])
  obtain l n1 where l: "lookup env j n = (l, n1)" by fastforce
  then have "shadow n1 = shadow n" using lookup_shadow [of env j n] by simp
  then show "shadow (snd (CancelJob env v b j n)) = shadow n"
    by (cases l) (simp_all add: CancelJob_def l split_def split: option.split)
qed

lemma GetJob_moves [moves]: "moves_by idles n (snd (GetJob env v j s n))"
proof (rule moves_refl [OF _ refl])
  obtain l n1 where l: "lookup env j n = (l, n1)" by fastforce
  then have "shadow n1 = shadow n" using lookup_shadow [of env j n] by simp
  then show "shadow (snd (GetJob env v j s n)) = shadow n"
    by (cases l) (simp_all add: GetJob_def l split_def split: option.split)
qed

lemma checkSpecs_shadow: "shadow (snd (checkSpecs env specs n)) = shadow n"
proof (induction specs arbitrary: n)
  case (Cons s specs)
  then show ?case by (auto simp: split_def Let_def ask_def split: option.splits)
qed simp

lemma CheckJobs_moves [moves]: "moves_by idles n (snd (CheckJobs env v b n))"
  by (rule moves_refl [OF _ refl]) (simp add: CheckJobs_def split_def checkSpecs_shadow split: option.split)

lemma moves_launch: "(\<And>k. e \<noteq> Started k \<and> e \<noteq> Dropped k) \<Longrightarrow> P [] \<Longrightarrow> moves_by P n (launch e j n)"
  by (rule moves_refl) simp_all

lemma moves_after: "shadow m = shadow n \<Longrightarrow> moves_by P m n' \<Longrightarrow> moves_by P n n'"
  using moves_cong [of m n n' n'] by simp

lemma finish_ends: "moves_by ends n (snd (finish env j r (n\<lparr>jn_tick := t\<rparr>)))"
  by (rule moves_after [OF _ moves_mono [OF finish_moves]]) (auto simp: isEnd_def)

lemma finish_ends_now: "moves_by ends n (snd (finish env j r n))"
  by (rule moves_mono [OF finish_moves]) (auto simp: isEnd_def)

lemma recoverOne_moves: "moves_by ends n (recoverOne env r n)"
  by (auto simp: recoverOne_def Let_def ask_def finish_ends finish_ends_now intro: moves_launch moves_refl)

lemma recoverReboot_moves: "moves_by ends n (recoverReboot env r n)"
proof -
  have l: "moves_by ends n (launch (Awaited j) j (n\<lparr>jn_tick := t\<rparr>))" for j t by (rule moves_refl) simp_all
  show ?thesis by (auto simp: recoverReboot_def settleReboot_def Let_def ask_def finish_ends l intro: moves_refl)
qed

lemma moves_fold: "(\<And>x n. moves_by ends n (f x n)) \<Longrightarrow> moves_by ends n (fold f xs n)"
proof (induction xs arbitrary: n)
  case (Cons x xs)
  then show ?case by (auto intro: moves_trans [of ends n "f x n" ends])
qed (simp add: moves_refl)

lemma recoverRebooting_moves: "moves_by ends n (recoverRebooting env n)"
  by (auto simp: recoverRebooting_def Let_def ask_def intro: moves_refl moves_after [OF _ moves_fold [OF recoverReboot_moves]])

definition bootEvents :: "slot_event list \<Rightarrow> bool" where
  "bootEvents es \<longleftrightarrow> (\<exists>as fs. es = as @ fs \<and> ends as \<and> forgets fs)"

lemma restart_moves [moves]: "moves_by bootEvents n (restart env n)"
proof -
  let ?n = "n\<lparr>jn_cancels := [], jn_tick := Suc (jn_tick n)\<rparr>"
  have e: "moves_by ends ?n (recoverRebooting env (fold (recoverOne env) rs ?n))" for rs
    by (rule moves_trans [OF moves_fold [OF recoverOne_moves] recoverRebooting_moves]) simp
  have "moves_by bootEvents ?n (snd (sweep env (recoverRebooting env (fold (recoverOne env) rs ?n))))" for rs
    by (rule moves_trans [OF e sweep_moves]) (auto simp: bootEvents_def)
  then have "moves_by bootEvents n (snd (sweep env (recoverRebooting env (fold (recoverOne env) rs ?n))))" for rs
    by (rule moves_after [rotated]) simp
  moreover have "bootEvents []" by (simp add: bootEvents_def)
  ultimately show ?thesis by (auto simp: restart_def Recover_def Let_def ask_def intro: moves_refl)
qed

section \<open>Everything that happens on a node\<close>

text \<open>The requests it is sent, the calls its jobs make while they run, and the panel starting again.  \<open>StartUnswept\<close> is what \<^verbatim>\<open>StartJob\<close> does before it gives
  up its lock, and \<open>Sweep\<close> what it does after, so that other operations can come between the two.\<close>

datatype node_op =
    StartRequest bool "job_spec option" string
  | StartUnswept job_runner job_spec string
  | Sweep
  | GetRequest bool string string
  | CancelRequest bool "bool option" string
  | CheckRequest bool "job_spec list option"
  | FinishCall string job_result
  | UnitCall string string
  | RebootingCall string string
  | PanelStarts

fun perform :: "node_env \<Rightarrow> node_op \<Rightarrow> job_node \<Rightarrow> job_node" where
  "perform env (StartRequest verified body username) n = snd (StartJob env verified body username n)"
| "perform env (StartUnswept runner spec username) n = snd (startLocked env runner spec username n)"
| "perform env Sweep n = snd (sweep env n)"
| "perform env (GetRequest verified jid skip) n = snd (GetJob env verified jid skip n)"
| "perform env (CancelRequest verified body jid) n = snd (CancelJob env verified body jid n)"
| "perform env (CheckRequest verified specs) n = snd (CheckJobs env verified specs n)"
| "perform env (FinishCall jid result) n = snd (finish env jid result n)"
| "perform env (UnitCall jid unit) n = snd (SetUnit env jid unit n)"
| "perform env (RebootingCall jid unit) n = snd (setRebooting env jid unit n)"
| "perform env PanelStarts n = restart env n"

text \<open>What each of them may do to the slot: a request starts at most the job it names, and only then is something forgotten; a call of a job ends or
  suspends that job and no other; a panel that starts ends jobs and then forgets some; nothing else touches the slot.\<close>

fun slot_contract :: "node_op \<Rightarrow> slot_event list \<Rightarrow> bool" where
  "slot_contract (StartRequest verified body username) es = startEvents verified body es"
| "slot_contract (StartUnswept runner spec username) es = (es = [] \<or> es = [Starts (spec_id spec)])"
| "slot_contract Sweep es = forgets es"
| "slot_contract (FinishCall jid result) es = (es = [] \<or> es = [Ends jid (res_status result)])"
| "slot_contract (RebootingCall jid unit) es = (es = [] \<or> es = [Reboots jid])"
| "slot_contract PanelStarts es = bootEvents es"
| "slot_contract _ es = (es = [])"

inductive node_step :: "node_env \<Rightarrow> job_node \<Rightarrow> job_node \<Rightarrow> bool" for env where
  performs: "node_step env n (perform env q n)"

lemma node_step_iff: "node_step env = (\<lambda>n n'. \<exists>q. n' = perform env q n)"
  by (auto simp: fun_eq_iff node_step.simps)

definition fresh_node :: "job_node \<Rightarrow> bool" where
  "fresh_node n \<longleftrightarrow> jn_rows n = [] \<and> jn_log n = []"

lemma perform_moves: "moves_by (slot_contract q) n (perform env q n)"
  by (cases q) (simp_all add: moves slot_contract.simps [abs_def])

definition node_ok :: "job_node \<Rightarrow> bool" where
  "node_ok n \<longleftrightarrow> distinct (ids_of n) \<and> (\<forall>j. 0 \<le> tally n j)"

interpretation slot: simulation fresh_node "perform env" node_ok jobs_of "\<lambda>m. m = Map.empty" slot_run slot_contract for env
proof
  show "node_ok n \<and> jobs_of n = Map.empty" if "fresh_node n" for n
    using that by (simp add: fresh_node_def node_ok_def ids_of_def tally_def jobs_of_def)
  show "node_ok (perform env q n) \<and> (\<exists>es. slot_contract q es \<and> slot_run (jobs_of n) es (jobs_of (perform env q n)))" if "node_ok n" for n q
    using perform_moves [of q n env] that unfolding node_ok_def moves_by_def by (meson order_trans)
qed

text \<open>C3: the node refines its contract, operation by operation.  In every state a node can be in, whatever requests it was sent, whatever its jobs did,
  however often its panel started again and whichever database calls failed, the next operation changes the jobs it knows by steps of the slot and only by
  those that operation may take: a request starts at most the job it names, when that job is unknown and nothing holds the node; a call of a job ends or suspends
  that job alone, while it holds the node; a sweep forgets only jobs that are over; a panel that starts ends jobs and then forgets some that are over; and
  every other operation leaves all jobs as they are.\<close>

theorem node_refines_slot:
  assumes "fresh_node n0" and "(node_step env)\<^sup>*\<^sup>* n0 n"
  shows "\<exists>es. slot_contract q es \<and> slot_run (jobs_of n) es (jobs_of (perform env q n))"
  using assms unfolding node_step_iff by (intro slot.refines)

text \<open>A node runs one job at a time.  No two jobs of its table are running or waiting on their reboot at once, and no ID is in it twice.\<close>

theorem one_job_at_a_time:
  assumes "fresh_node n" and "(node_step env)\<^sup>*\<^sup>* n n'"
  shows "distinct (ids_of n') \<and>
    (\<forall>r\<in>set (jn_rows n'). \<forall>q\<in>set (jn_rows n'). active (row_status r) \<and> active (row_status q) \<longrightarrow> r = q)"
proof -
  have r: "(\<lambda>n n'. \<exists>q. n' = perform env q n)\<^sup>*\<^sup>* n n'" using assms(2) unfolding node_step_iff .
  have d: "distinct (ids_of n')" using slot.reaches [OF r assms(1)] by (simp add: node_ok_def)
  have one: "one_holder (jobs_of n')"
    by (rule slot.transfers [OF r assms(1)]) (auto simp: one_holder_def intro: one_holder_run [unfolded one_holder_def, rule_format])
  have "distinct (map fst (map (\<lambda>r. (row_id r, row_status r)) (jn_rows n')))" using d by (simp add: ids_of_def comp_def)
  then have j: "jobs_of n' (row_id r) = Some (row_status r)" if "r \<in> set (jn_rows n')" for r
    unfolding jobs_of_def using that by (intro map_of_is_SomeI) auto
  have "r = q" if rq: "r \<in> set (jn_rows n')" "q \<in> set (jn_rows n')" "active (row_status r)" "active (row_status q)" for r q
  proof -
    have "row_id r = row_id q" using one j [OF rq(1)] j [OF rq(2)] rq(3,4) unfolding one_holder_def by blast
    then show ?thesis using d rq(1,2) by (auto simp: ids_of_def distinct_map inj_on_def)
  qed
  then show ?thesis using d by blast
qed

text \<open>C15: a job ID is started once.  However often an ID is sent, by one leader or by its successor, a node starts it again only after its record was
  dropped for being past what a node keeps.\<close>

theorem job_started_once:
  assumes "fresh_node n" and "(node_step env)\<^sup>*\<^sup>* n n'"
  shows "count_list (jn_log n') (Started j) \<le> count_list (jn_log n') (Dropped j) + (if j \<in> set (ids_of n') then 1 else 0)"
proof -
  have "0 \<le> tally n' j" using slot.reaches [OF assms(2) [unfolded node_step_iff] assms(1)] by (simp add: node_ok_def)
  then show ?thesis by (simp add: tally_def split: if_splits)
qed

section \<open>A sample node\<close>

definition sampleRunner :: job_runner where
  "sampleRunner = \<lparr>rn_Refuse = (\<lambda>_ _. None), rn_Check = (\<lambda>_ _. refusedVerdict []), rn_resumer = True, rn_reboot = True\<rparr>"

definition sampleSpec :: "string \<Rightarrow> job_spec" where
  "sampleSpec run = \<lparr>spec_id = run @ ''-0'', spec_run_id = run, spec_task = ''patch'', spec_step = 0, spec_kind = StepReboot,
     spec_confirmed = False, spec_packages = None, spec_service = None, spec_command = None, spec_file = None, spec_stack = None,
     spec_reboot = Some \<lparr>rb_only_if_required = False, rb_wait = 0\<rparr>\<rparr>"

definition runA :: string where "runA = ''20260101-000000-00000a''"
definition runB :: string where "runB = ''20260101-000000-00000b''"

definition sampleNodeEnv :: node_env where
  "sampleNodeEnv = \<lparr>ne_encode = spec_run_id, ne_decode = (\<lambda>s. Some (sampleSpec s)), ne_dbFails = (\<lambda>_. False), ne_now = int,
     ne_bootID = (\<lambda>_. ''boot-1''), ne_createLog = (\<lambda>_. True), ne_removeLog = (\<lambda>_. True), ne_logFile = (\<lambda>_ _. NoLog),
     ne_isActive = (\<lambda>_ _. []), ne_runners = (\<lambda>_. Some sampleRunner), ne_sanitize = id, ne_quote = id\<rparr>"

definition emptyNode :: job_node where
  "emptyNode = \<lparr>jn_rows = [], jn_cancels = [], jn_tick = 0, jn_log = []\<rparr>"

definition startedNode :: job_node where
  "startedNode = snd (StartJob sampleNodeEnv True (Some (sampleSpec runA)) ''admin'' emptyNode)"

definition againNode :: job_node where
  "againNode = snd (StartJob sampleNodeEnv True (Some (sampleSpec runA)) ''admin'' (restart sampleNodeEnv startedNode))"

lemma fresh_empty: "fresh_node emptyNode"
  by (simp add: fresh_node_def emptyNode_def)

lemma started_reached: "(node_step sampleNodeEnv)\<^sup>*\<^sup>* emptyNode startedNode"
  using performs [of sampleNodeEnv emptyNode "StartRequest True (Some (sampleSpec runA)) ''admin''"] by (auto simp: startedNode_def)

lemma again_reached: "(node_step sampleNodeEnv)\<^sup>*\<^sup>* emptyNode againNode"
  using started_reached performs [of sampleNodeEnv startedNode PanelStarts]
    performs [of sampleNodeEnv "restart sampleNodeEnv startedNode" "StartRequest True (Some (sampleSpec runA)) ''admin''"]
  unfolding againNode_def perform.simps by (meson rtranclp.rtrancl_into_rtrancl)

text \<open>The job that the sample node runs ends as it is told, and the slot with it.\<close>

theorem node_refines_slot_witness:
  "jobs_of startedNode (runA @ ''-0'') = Some JobRunning \<and> jobs_of (perform sampleNodeEnv (FinishCall (runA @ ''-0'') rebooted) startedNode) (runA @ ''-0'') = Some JobSucceeded \<and>
   slot_run (jobs_of startedNode) [Ends (runA @ ''-0'') JobSucceeded] (jobs_of (perform sampleNodeEnv (FinishCall (runA @ ''-0'') rebooted) startedNode))"
proof -
  have r: "jobs_of startedNode (runA @ ''-0'') = Some JobRunning" by code_simp
  have e: "jobs_of (perform sampleNodeEnv (FinishCall (runA @ ''-0'') rebooted) startedNode) (runA @ ''-0'') = Some JobSucceeded" by code_simp
  have ne: "JobRunning \<noteq> JobSucceeded" by code_simp
  have "\<not> slot_run m [] m'" if "m \<noteq> m'" for m m' using that by (auto elim: slot_run.cases)
  then have "\<not> slot_run (jobs_of startedNode) [] (jobs_of (perform sampleNodeEnv (FinishCall (runA @ ''-0'') rebooted) startedNode))" using r e ne by (metis option.inject)
  with node_refines_slot [OF fresh_empty started_reached, of "FinishCall (runA @ ''-0'') rebooted"] r e show ?thesis by (auto simp: rebooted_def)
qed

theorem one_job_at_a_time_witness:
  "distinct (ids_of againNode) \<and> ids_of againNode = [runA @ ''-0'']"
proof -
  have "ids_of againNode = [runA @ ''-0'']" by code_simp
  then show ?thesis using one_job_at_a_time [OF fresh_empty again_reached] by blast
qed

theorem job_started_once_witness:
  "count_list (jn_log againNode) (Started (runA @ ''-0'')) \<le> 1 \<and> count_list (jn_log againNode) (Dropped (runA @ ''-0'')) = 0"
proof -
  have "count_list (jn_log againNode) (Dropped (runA @ ''-0'')) = 0" "ids_of againNode = [runA @ ''-0'']" by code_simp+
  then show ?thesis using job_started_once [OF fresh_empty again_reached, of "runA @ ''-0''"] by simp
qed

section \<open>What the sweep drops\<close>

definition works :: "node_env \<Rightarrow> bool" where
  "works env \<longleftrightarrow> (\<forall>t. \<not> ne_dbFails env t \<and> ne_createLog env t \<and> ne_removeLog env t)"

lemma sweepLoop_rows:
  assumes "works env"
  shows "jn_rows (snd (sweepLoop env ids n)) = filter (\<lambda>r. row_id r \<notin> set ids) (jn_rows n)"
  using assms
proof (induction ids arbitrary: n)
  case (Cons j ids)
  then show ?case by (simp add: works_def ask_def Let_def noted_def conj_commute)
qed simp

lemma sweep_rows:
  assumes "works env" and "distinct (ids_of n)"
  shows "jn_rows (snd (sweep env n)) = filter (\<lambda>r. active (row_status r) \<or>
    (ne_now env (jn_tick n) - keepFor \<le> row_started_at r \<and> row_id r \<in> set (newestIDs (jn_rows n)))) (jn_rows n)"
proof -
  let ?now = "ne_now env (jn_tick n)"
  have "jn_rows (snd (sweep env n)) = filter (\<lambda>r. row_id r \<notin> set (sweptIDs ?now (jn_rows n))) (jn_rows n)"
    using assms(1) by (simp add: sweep_def ask_def Let_def works_def sweepLoop_rows [OF assms(1)])
  moreover have "row_id r \<in> set (sweptIDs ?now (jn_rows n)) \<longleftrightarrow>
      \<not> active (row_status r) \<and> (row_started_at r < ?now - keepFor \<or> row_id r \<notin> set (newestIDs (jn_rows n)))"
    if "r \<in> set (jn_rows n)" for r
    using that assms(2) unfolding sweptIDs_def ids_of_def distinct_map inj_on_def by auto
  ultimately show ?thesis by (auto simp: not_less intro: filter_cong)
qed

text \<open>A row the newest ones leave out has as many rows at least as new as it as are kept.\<close>

lemma newest_left_out:
  assumes "r \<in> set rows" and "row_id r \<notin> set (newestIDs rows)"
  shows "keepJobs \<le> length (filter (\<lambda>q. row_started_at r \<le> row_started_at q) rows)"
proof -
  let ?s = "sort_key (\<lambda>r. - row_started_at r) (rev rows)"
  have "r \<in> set ?s" using assms(1) by simp
  moreover have "r \<notin> set (take keepJobs ?s)" using assms(2) by (auto simp: newestIDs_def take_map)
  ultimately have "r \<in> set (drop keepJobs ?s)" by (metis Un_iff append_take_drop_id set_append)
  then have lt: "keepJobs < length ?s" by (cases "keepJobs < length ?s") auto
  have "sorted (map (\<lambda>r. - row_started_at r) (take keepJobs ?s @ drop keepJobs ?s))" by (simp only: append_take_drop_id sorted_sort_key)
  then have "\<forall>q\<in>set (take keepJobs ?s). row_started_at r \<le> row_started_at q"
    using \<open>r \<in> set (drop keepJobs ?s)\<close> by (simp only: map_append sorted_append) fastforce
  then have "filter (\<lambda>q. row_started_at r \<le> row_started_at q) (take keepJobs ?s) = take keepJobs ?s" by simp
  then have "keepJobs \<le> length (filter (\<lambda>q. row_started_at r \<le> row_started_at q) (take keepJobs ?s @ drop keepJobs ?s))"
    using lt by (simp only: filter_append length_append length_take)
  also have "\<dots> = length (filter (\<lambda>q. row_started_at r \<le> row_started_at q) rows)"
    by (simp only: append_take_drop_id filter_sort length_sort rev_filter [symmetric] length_rev)
  finally show ?thesis .
qed

lemma newest_bound:
  assumes "distinct (map row_id rows)"
  shows "length (filter (\<lambda>r. row_id r \<in> set (newestIDs rows)) rows) \<le> keepJobs"
proof -
  have "length (filter (\<lambda>r. row_id r \<in> set (newestIDs rows)) rows) = card (row_id ` set (filter (\<lambda>r. row_id r \<in> set (newestIDs rows)) rows))"
    using assms by (metis distinct_card distinct_map_filter length_map set_map)
  also have "\<dots> \<le> card (set (newestIDs rows))" by (rule card_mono) auto
  also have "\<dots> \<le> keepJobs" unfolding newestIDs_def using card_length [of "take keepJobs (map row_id (sort_key (\<lambda>r. - row_started_at r) (rev rows)))"] by simp
  finally show ?thesis .
qed

text \<open>A sweep that works keeps every job that holds the node, and of the others those no older than thirty days among the newest two hundred: at
  most two hundred of them stay, and one that is dropped is older than thirty days or has two hundred jobs at least as new.\<close>

theorem sweep_keeps:
  assumes "works env" and "distinct (ids_of n)"
  shows "(let now = ne_now env (jn_tick n); n' = snd (sweep env n) in
    (\<forall>r\<in>set (jn_rows n). active (row_status r) \<longrightarrow> r \<in> set (jn_rows n')) \<and>
    set (jn_rows n') \<subseteq> set (jn_rows n) \<and>
    (\<forall>r\<in>set (jn_rows n'). \<not> active (row_status r) \<longrightarrow> now - keepFor \<le> row_started_at r) \<and>
    length (filter (\<lambda>r. \<not> active (row_status r)) (jn_rows n')) \<le> keepJobs \<and>
    (\<forall>r\<in>set (jn_rows n) - set (jn_rows n'). row_started_at r < now - keepFor \<or>
       keepJobs \<le> length (filter (\<lambda>q. row_started_at r \<le> row_started_at q) (jn_rows n))))"
proof -
  let ?now = "ne_now env (jn_tick n)" and ?new = "newestIDs (jn_rows n)"
  have d: "distinct (map row_id (jn_rows n))" using assms(2) by (simp add: ids_of_def)
  have "length (filter (\<lambda>r. \<not> active (row_status r)) (jn_rows (snd (sweep env n)))) =
      length (filter (\<lambda>r. \<not> active (row_status r) \<and> ?now - keepFor \<le> row_started_at r) (filter (\<lambda>r. row_id r \<in> set ?new) (jn_rows n)))"
    unfolding sweep_rows [OF assms] filter_filter by (rule arg_cong [where f = length]) (auto intro: filter_cong)
  also have "\<dots> \<le> length (filter (\<lambda>r. row_id r \<in> set ?new) (jn_rows n))" by (rule length_filter_le)
  also have "\<dots> \<le> keepJobs" by (rule newest_bound [OF d])
  finally show ?thesis using newest_left_out [of _ "jn_rows n"] unfolding Let_def by (auto simp: sweep_rows [OF assms] not_le)
qed

theorem sweep_keeps_witness:
  "works sampleNodeEnv \<and> distinct (ids_of startedNode) \<and> jn_rows (snd (sweep sampleNodeEnv startedNode)) \<noteq> []"
proof -
  have "works sampleNodeEnv" by (simp add: works_def sampleNodeEnv_def)
  moreover have "ids_of startedNode = [runA @ ''-0'']" "list_all (\<lambda>r. active (row_status r)) (jn_rows startedNode)" by code_simp+
  moreover from this obtain r where "r \<in> set (jn_rows startedNode)" "active (row_status r)"
    by (auto simp: ids_of_def list_all_iff)
  ultimately show ?thesis using sweep_keeps [of sampleNodeEnv startedNode] unfolding Let_def by auto
qed

section \<open>What a request is answered\<close>

definition readable :: "node_env \<Rightarrow> job_node \<Rightarrow> bool" where
  "readable env n \<longleftrightarrow> (\<forall>row\<in>set (jn_rows n). \<exists>s. ne_decode env (row_spec row) = Some s \<and> spec_id s = row_id row)"

lemma jobs_of_row:
  assumes "distinct (ids_of n)"
  shows "jobs_of n j = Some s \<longleftrightarrow> (\<exists>r\<in>set (jn_rows n). row_id r = j \<and> row_status r = s)"
proof -
  have "distinct (map fst (map (\<lambda>r. (row_id r, row_status r)) (jn_rows n)))" using assms by (simp add: ids_of_def comp_def)
  then have "jobs_of n j = Some s \<longleftrightarrow> (j, s) \<in> set (map (\<lambda>r. (row_id r, row_status r)) (jn_rows n))"
    unfolding jobs_of_def by (rule map_of_eq_Some_iff)
  then show ?thesis by auto
qed

lemma get_record_known:
  assumes "works env" and "readable env n" and "distinct (ids_of n)" and "jobs_of n j = Some s"
  shows "\<exists>r. get_record env j n = (Inr r, n\<lparr>jn_tick := Suc (jn_tick n)\<rparr>) \<and> jr_status r = s \<and> spec_id (jr_spec r) = j"
proof -
  from assms(4) obtain q where q: "q \<in> set (jn_rows n)" "row_id q = j" "row_status q = s" using jobs_of_row [OF assms(3)] by blast
  then obtain r where r: "find (\<lambda>r. row_id r = j) (jn_rows n) = Some r" by (metis (mono_tags) find_None_iff not_Some_eq)
  then have "r \<in> set (jn_rows n)" "row_id r = j" by (auto simp: find_Some_iff)
  then have "r = q" using q assms(3) by (auto simp: ids_of_def distinct_map inj_on_def)
  then show ?thesis using r q assms(1,2) by (auto simp: get_record_def ask_def Let_def works_def readable_def scanRecord_def)
qed

lemma get_record_unknown:
  assumes "works env" and "jobs_of n j = None"
  shows "get_record env j n = (Inl errNotFound, n\<lparr>jn_tick := Suc (jn_tick n)\<rparr>)"
proof -
  have "find (\<lambda>r. row_id r = j) (jn_rows n) = None" using assms(2) by (auto simp: jobs_of_None ids_of_def find_None_iff)
  then show ?thesis using assms(1) by (simp add: get_record_def ask_def Let_def works_def)
qed

lemma active_record_held:
  assumes "works env" and "readable env n" and "distinct (ids_of n)" and "held (jobs_of n)"
  shows "\<exists>r s. active_record env n = (Inr (Some r), n\<lparr>jn_tick := Suc (jn_tick n)\<rparr>) \<and> jobs_of n (spec_id (jr_spec r)) = Some s \<and> active s"
proof -
  let ?l = "sort_key row_started_at (filter (\<lambda>r. active (row_status r)) (jn_rows n))"
  have "set ?l \<noteq> {}" using assms(4) held_iff [OF assms(3)] by auto
  then obtain q l where q: "?l = q # l" by (metis list.exhaust set_empty)
  then have "q \<in> set ?l" by simp
  then have m: "q \<in> set (jn_rows n)" "active (row_status q)" by auto
  then obtain s where s: "ne_decode env (row_spec q) = Some s" "spec_id s = row_id q" using assms(2) by (auto simp: readable_def)
  have "jobs_of n (row_id q) = Some (row_status q)" using m jobs_of_row [OF assms(3)] by blast
  then show ?thesis using q s m assms(1) by (simp add: active_record_def ask_def Let_def works_def scanRecord_def)
qed

lemma active_record_none:
  assumes "works env" and "distinct (ids_of n)" and "\<not> held (jobs_of n)"
  shows "active_record env n = (Inr None, n\<lparr>jn_tick := Suc (jn_tick n)\<rparr>)"
proof -
  have "filter (\<lambda>r. active (row_status r)) (jn_rows n) = []" using assms(3) held_iff [OF assms(2)] by (auto simp: filter_empty_conv)
  then show ?thesis using assms(1) by (simp add: active_record_def ask_def Let_def works_def)
qed

lemma sweep_jobs_active:
  assumes "works env" and "distinct (ids_of n)" and "jobs_of n j = Some s" and "active s"
  shows "jobs_of (snd (sweep env n)) j = Some s"
proof -
  have d: "distinct (ids_of (snd (sweep env n)))" using sweep_moves [of n env] assms(2) by (simp add: moves_by_def)
  from assms(3) obtain r where "r \<in> set (jn_rows n)" "row_id r = j" "row_status r = s" using jobs_of_row [OF assms(2)] by blast
  then have "r \<in> set (jn_rows (snd (sweep env n)))" using assms(4) by (simp add: sweep_rows [OF assms(1,2)])
  then show ?thesis using jobs_of_row [OF d] \<open>row_id r = j\<close> \<open>row_status r = s\<close> by blast
qed

lemma recordJob_free:
  assumes "works env" and "jobs_of n (spec_id spec) = None"
  shows "\<exists>r n1. recordJob env spec u n = (Inr r, n1) \<and> jr_spec r = spec \<and> jr_status r = JobRunning \<and>
    jobs_of n1 (spec_id spec) = Some JobRunning \<and> ids_of n1 = ids_of n @ [spec_id spec] \<and> jn_log n1 = jn_log n @ [Started (spec_id spec)]"
proof -
  have "spec_id spec \<notin> row_id ` set (jn_rows n)" using assms(2) by (simp add: jobs_of_None ids_of_def)
  moreover have "map_of (map (\<lambda>r. (row_id r, row_status r)) (jn_rows n)) (spec_id spec) = None" using assms(2) by (simp add: jobs_of_def)
  ultimately show ?thesis using assms(1)
    by (simp add: recordJob_def insert_record_def ask_def Let_def works_def launch_def noted_def jobs_of_def ids_of_def rowOf_def map_add_def)
qed

lemma view_quiet: "view env r skip False n = (v, n') \<Longrightarrow> n' = n \<and> view_status v = jr_status r \<and> view_id v = spec_id (jr_spec r)"
  by (auto simp: view_def)

lemma sweepLoop_log: "set (jn_log n) \<subseteq> set (jn_log (snd (sweepLoop env ids n)))"
proof (induction ids arbitrary: n)
  case (Cons j ids)
  have t: "set (jn_log n) \<subseteq> set (jn_log (snd (sweepLoop env ids m)))" if "set (jn_log n) \<subseteq> set (jn_log m)" for m
    using Cons [of m] that by blast
  show ?case by (auto simp: ask_def Let_def noted_def intro!: t [THEN subsetD])
qed simp

lemma sweep_log: "set (jn_log n) \<subseteq> set (jn_log (snd (sweep env n)))"
  using sweepLoop_log [of "n\<lparr>jn_tick := Suc (Suc (jn_tick n))\<rparr>" env] by (simp add: sweep_def ask_def Let_def)

text \<open>What a node whose disk and database work answers the engine's \<^verbatim>\<open>POST\<close> of a valid job its runner does not refuse.  An ID it knows:
  200, with the job as it stands, and nothing is started.  Otherwise, while a job holds the node: 409 \<^verbatim>\<open>TASK_NODE_BUSY\<close>, naming a
  job that holds it, and nothing is started.  Otherwise: 201, and the job is recorded as running and is started.\<close>

theorem StartJob_answers:
  assumes "works env" and "readable env n" and "distinct (ids_of n)"
    and "validate env spec = Inr rn" and "\<forall>t. rn_Refuse rn t spec = None"
  shows "case StartJob env True (Some spec) u n of (a, n') \<Rightarrow>
    (case jobs_of n (spec_id spec) of
       Some s \<Rightarrow> (\<exists>v. a = AnswerView 200 v \<and> view_id v = spec_id spec \<and> view_status v = s) \<and> jobs_of n' = jobs_of n \<and> jn_log n' = jn_log n
     | None \<Rightarrow>
         if held (jobs_of n)
         then (\<exists>j s rest. a = Fail 409 ErrTaskNodeBusy ''This node is running another task job'' ((''job_id'', j) # rest) \<and>
                jobs_of n j = Some s \<and> active s) \<and> jobs_of n' = jobs_of n \<and> jn_log n' = jn_log n
         else (\<exists>v. a = AnswerView 201 v \<and> view_id v = spec_id spec \<and> view_status v = JobRunning) \<and>
              jobs_of n' (spec_id spec) = Some JobRunning \<and> Started (spec_id spec) \<in> set (jn_log n'))"
proof (cases "jobs_of n (spec_id spec)")
  case (Some s)
  from get_record_known [OF assms(1-3) Some] obtain r where
    r: "get_record env (spec_id spec) n = (Inr r, n\<lparr>jn_tick := Suc (jn_tick n)\<rparr>)" "jr_status r = s" "spec_id (jr_spec r) = spec_id spec" by blast
  obtain v where v: "view env r 0 False (n\<lparr>jn_tick := Suc (jn_tick n)\<rparr>) = (v, n\<lparr>jn_tick := Suc (jn_tick n)\<rparr>)"
    by (metis surj_pair view_quiet)
  then show ?thesis using Some r view_quiet [OF v] assms(4) by (simp add: StartJob_def startLocked_def jobs_of_def)
next
  case None
  let ?n = "n\<lparr>jn_tick := Suc (Suc (jn_tick n))\<rparr>"
  have same: "jobs_of ?n = jobs_of n" "ids_of ?n = ids_of n" "readable env ?n = readable env n" "distinct (ids_of ?n)"
    using assms(3) by (simp_all add: jobs_of_def ids_of_def readable_def)
  have l: "startLocked env rn spec u n = freeJob env spec u ?n"
    using assms(5) by (simp add: startLocked_def get_record_unknown [OF assms(1) None] ask_def)
  show ?thesis
  proof (cases "held (jobs_of n)")
    case True
    from active_record_held [OF assms(1), of ?n] same True assms(2) obtain r s where
      r: "active_record env ?n = (Inr (Some r), ?n\<lparr>jn_tick := Suc (jn_tick ?n)\<rparr>)" "jobs_of n (spec_id (jr_spec r)) = Some s" "active s" by auto
    then show ?thesis using None True assms(4) l by (simp add: StartJob_def freeJob_def jobs_of_def)
  next
    case False
    let ?m = "?n\<lparr>jn_tick := Suc (jn_tick ?n)\<rparr>"
    have a: "active_record env ?n = (Inr None, ?m)" using active_record_none [OF assms(1) same(4)] same(1) False by simp
    have m: "jobs_of ?m (spec_id spec) = None" "ids_of ?m = ids_of n" using None by (simp_all add: jobs_of_def ids_of_def)
    from recordJob_free [OF assms(1) m(1), of u] obtain r n1 where
      r: "recordJob env spec u ?m = (Inr r, n1)" "jr_spec r = spec" "jr_status r = JobRunning" "jobs_of n1 (spec_id spec) = Some JobRunning"
         "ids_of n1 = ids_of n @ [spec_id spec]" "jn_log n1 = jn_log n @ [Started (spec_id spec)]" using m(2) by auto
    have d: "distinct (ids_of n1)" using r(5) assms(3) None by (simp add: jobs_of_None)
    obtain v where v: "view env r 0 False (snd (sweep env n1)) = (v, snd (sweep env n1))" by (metis surj_pair view_quiet)
    have "startLocked env rn spec u n = (Inr r, n1)" using l a r(1) by (simp add: freeJob_def)
    then have s: "StartJob env True (Some spec) u n = (AnswerView 201 v, snd (sweep env n1))" using v assms(4) by (simp add: StartJob_def)
    have "Started (spec_id spec) \<in> set (jn_log (snd (sweep env n1)))" using sweep_log [of n1 env] r(6) by auto
    then show ?thesis using s None False view_quiet [OF v] r(2,3) sweep_jobs_active [OF assms(1) d r(4)] by simp
  qed
qed

theorem StartJob_answers_witness:
  "(\<exists>v. fst (StartJob sampleNodeEnv True (Some (sampleSpec runA)) ''admin'' startedNode) = AnswerView 200 v \<and> view_status v = JobRunning) \<and>
   (\<exists>rest. fst (StartJob sampleNodeEnv True (Some (sampleSpec runB)) ''admin'' startedNode) =
      Fail 409 ErrTaskNodeBusy ''This node is running another task job'' rest)"
proof -
  have w: "works sampleNodeEnv" by (simp add: works_def sampleNodeEnv_def)
  have i: "ids_of startedNode = [runA @ ''-0'']" by code_simp
  have "list_all (\<lambda>row. row_spec row @ ''-0'' = row_id row) (jn_rows startedNode)" by code_simp
  then have rd: "readable sampleNodeEnv startedNode" by (auto simp: readable_def sampleNodeEnv_def sampleSpec_def list_all_iff)
  have d: "distinct (ids_of startedNode)" using i by simp
  have v: "validate sampleNodeEnv (sampleSpec runA) = Inr sampleRunner" "validate sampleNodeEnv (sampleSpec runB) = Inr sampleRunner"
    by (simp_all add: validate_def sampleNodeEnv_def) code_simp+
  have j: "jobs_of startedNode (spec_id (sampleSpec runA)) = Some JobRunning" "jobs_of startedNode (spec_id (sampleSpec runB)) = None" by code_simp+
  then have "held (jobs_of startedNode)" unfolding held_def using active_statuses(1) by blast
  moreover have "\<forall>t s. rn_Refuse sampleRunner t s = None" by (simp add: sampleRunner_def)
  ultimately show ?thesis
    using StartJob_answers [OF w rd d v(1), of "''admin''"] StartJob_answers [OF w rd d v(2), of "''admin''"] j
    by (auto simp: split_def)
qed

section \<open>A panel that starts again\<close>

definition rebootingNode :: job_node where
  "rebootingNode = snd (setRebooting sampleNodeEnv (runA @ ''-0'') ''u.timer'' startedNode)"

text \<open>Every job that holds the node is watched or still to be looked at.\<close>

definition watched :: "(string \<Rightarrow> bool) \<Rightarrow> string set \<Rightarrow> job_node \<Rightarrow> bool" where
  "watched P todo n \<longleftrightarrow> (\<forall>row\<in>set (jn_rows n). P (row_status row) \<longrightarrow> row_id row \<in> set (jn_cancels n) \<union> todo)"

lemma watched_tick [simp]: "watched P todo (n\<lparr>jn_tick := t\<rparr>) = watched P todo n"
  by (simp add: watched_def)

lemma watched_launch: "watched P (insert j todo) n \<Longrightarrow> watched P todo (launch e j n)"
  by (auto simp: watched_def launch_def noted_def)

lemma finish_effect:
  assumes "works env" and "res_status r \<in> set endStatuses"
  shows "\<exists>t. jn_rows (snd (finish env j r n)) = map (\<lambda>row. if row_id row = j \<and> active (row_status row) then endRow r t row else row) (jn_rows n) \<and>
    jn_cancels (snd (finish env j r n)) = removeAll j (jn_cancels n)"
  using assms by (auto simp: finish_def works_def ask_def Let_def)

lemma watched_finish:
  assumes "works env" and "res_status r \<in> set endStatuses" and "watched P (insert j todo) n" and "\<And>s. P s \<Longrightarrow> active s"
  shows "watched P todo (snd (finish env j r n))"
proof -
  have "\<not> P (res_status r)" using end_not_active [OF assms(2)] assms(4) by blast
  moreover obtain t where "jn_rows (snd (finish env j r n)) = map (\<lambda>row. if row_id row = j \<and> active (row_status row) then endRow r t row else row) (jn_rows n)"
    "jn_cancels (snd (finish env j r n)) = removeAll j (jn_cancels n)" using finish_effect [OF assms(1,2), of j n] by blast
  moreover have "row_id (endRow r t row) = row_id row" "row_status (endRow r t row) = res_status r" for t row by (simp_all add: endRow_def)
  ultimately show ?thesis using assms(3,4) by (auto simp: watched_def)
qed

lemma readable_finish:
  assumes "works env" and "res_status r \<in> set endStatuses" and "readable env n"
  shows "readable env (snd (finish env j r n))"
  using finish_effect [OF assms(1,2), of j n] assms(3) by (auto simp: readable_def endRow_def)

lemma end_results [simp]:
  "res_status (interruptedResult s) \<in> set endStatuses" "res_status (unitEnd x) \<in> set endStatuses" "res_status rebooted \<in> set endStatuses"
  by (auto simp: interruptedResult_def unitEnd_def rebooted_def endStatuses_def split: option.split)

text \<open>The record of a job whose unit only a runner that resumes it may have set.\<close>

definition resumable :: "node_env \<Rightarrow> job_record \<Rightarrow> bool" where
  "resumable env r \<longleftrightarrow> jr_unit r = [] \<or> resumes env r"

lemma watched_recoverOne:
  assumes "works env" and "resumable env r" and "watched P (insert (spec_id (jr_spec r)) todo) n" and "readable env n" and "\<And>s. P s \<Longrightarrow> active s"
  shows "watched P todo (recoverOne env r n) \<and> readable env (recoverOne env r n)"
proof (cases "resumes env r")
  case True
  then show ?thesis using watched_launch [OF assms(3)] assms(4) by (simp add: recoverOne_def Let_def readable_def launch_def noted_def)
next
  case False
  then have "jr_unit r = []" using assms(2) by (simp add: resumable_def)
  then show ?thesis using False watched_finish [OF assms(1) _ assms(3,5)] readable_finish [OF assms(1) _ assms(4)]
    by (simp add: recoverOne_def Let_def)
qed

lemma watched_recoverReboot:
  assumes "works env" and "awaits env" and "watched P (insert (spec_id (jr_spec r)) todo) n" and "readable env n" and "\<And>s. P s \<Longrightarrow> active s"
  shows "watched P todo (recoverReboot env r n) \<and> readable env (recoverReboot env r n)"
proof -
  let ?n = "n\<lparr>jn_tick := Suc (jn_tick n)\<rparr>" and ?j = "spec_id (jr_spec r)"
  have n: "watched P (insert ?j todo) ?n" "readable env ?n" using assms(3,4) by (simp_all add: readable_def)
  have l: "watched P todo (launch (Awaited ?j) ?j ?n)" "readable env (launch (Awaited ?j) ?j ?n)"
    using watched_launch [OF n(1)] n(2) by (simp_all add: readable_def launch_def noted_def)
  have f: "watched P todo (snd (finish env ?j rebooted ?n))" "readable env (snd (finish env ?j rebooted ?n))"
    using watched_finish [OF assms(1) end_results(3) n(1) assms(5)] readable_finish [OF assms(1) end_results(3) n(2)] by blast+
  show ?thesis using l f assms(2) by (simp add: recoverReboot_def settleReboot_def ask_def Let_def)
qed

lemma watched_fold:
  assumes "\<And>r todo n. r \<in> set rs \<Longrightarrow> watched P (insert (spec_id (jr_spec r)) todo) n \<Longrightarrow> readable env n \<Longrightarrow> watched P todo (f r n) \<and> readable env (f r n)"
    and "watched P ((\<lambda>r. spec_id (jr_spec r)) ` set rs \<union> todo) n" and "readable env n"
  shows "watched P todo (fold f rs n) \<and> readable env (fold f rs n)"
  using assms
proof (induction rs arbitrary: n)
  case (Cons r rs)
  have "watched P ((\<lambda>r. spec_id (jr_spec r)) ` set rs \<union> todo) (f r n) \<and> readable env (f r n)"
    by (rule Cons.prems(1)) (use Cons.prems(2,3) in simp_all)
  then show ?case using Cons by simp
qed simp

lemma leftIn_ids:
  assumes "readable env n"
  shows "(\<lambda>r. spec_id (jr_spec r)) ` set (leftIn env st (jn_rows n)) = row_id ` {row \<in> set (jn_rows n). row_status row = st}"
proof (intro equalityI subsetI)
  fix j assume "j \<in> row_id ` {row \<in> set (jn_rows n). row_status row = st}"
  then obtain row s where r: "row \<in> set (jn_rows n)" "row_status row = st" "j = row_id row" "ne_decode env (row_spec row) = Some s" "spec_id s = row_id row"
    using assms by (auto simp: readable_def)
  then obtain x where x: "scanRecord env row = Inr x" "jr_spec x = s" by (simp add: scanRecord_def)
  then have "x \<in> set (leftIn env st (jn_rows n))" using r(1,2) by (force simp: leftIn_def failedScan_def)
  then show "j \<in> (\<lambda>r. spec_id (jr_spec r)) ` set (leftIn env st (jn_rows n))" using x(2) r(3,5) by (intro image_eqI [of _ _ x]) simp_all
next
  fix j assume "j \<in> (\<lambda>r. spec_id (jr_spec r)) ` set (leftIn env st (jn_rows n))"
  then show "j \<in> row_id ` {row \<in> set (jn_rows n). row_status row = st}"
    using assms by (auto simp: leftIn_def failedScan_def scanRecord_def readable_def split: option.splits)
qed

lemma sweep_cancels [simp]: "jn_cancels (snd (sweep env n)) = jn_cancels n"
proof -
  have "jn_cancels (snd (sweepLoop env ids m)) = jn_cancels m" for ids m
    by (induction env ids m rule: sweepLoop.induct) (auto simp: ask_def Let_def noted_def)
  then show ?thesis by (simp add: sweep_def ask_def Let_def)
qed

lemma sweep_subset: "works env \<Longrightarrow> set (jn_rows (snd (sweep env n))) \<subseteq> set (jn_rows n)"
  by (auto simp: sweep_def ask_def Let_def sweepLoop_rows works_def)

text \<open>C29: a panel that starts again leaves no job unwatched.  When no call of its database fails, every row can be read, the running jobs that have a unit are of kinds
  whose runner takes them back, and it has the runner of reboots, every job that still holds the node afterwards is one whose runner is watching it again, so that the node
  is freed when the job ends; every other job is over.\<close>

theorem restart_leaves_no_job_unwatched:
  assumes "works env" and "awaits env" and "readable env n" and "\<forall>r\<in>set (leftIn env JobRunning (jn_rows n)). resumable env r"
  shows "\<forall>row\<in>set (jn_rows (restart env n)). active (row_status row) \<longrightarrow> row_id row \<in> set (jn_cancels (restart env n))"
proof -
  let ?n = "n\<lparr>jn_cancels := [], jn_tick := Suc (jn_tick n)\<rparr>"
  let ?running = "leftIn env JobRunning (jn_rows n)"
  define n1 where "n1 = fold (recoverOne env) ?running ?n"
  let ?m = "n1\<lparr>jn_tick := Suc (jn_tick n1)\<rparr>" and ?waiting = "leftIn env JobRebooting (jn_rows n1)"
  define n2 where "n2 = fold (recoverReboot env) ?waiting ?m"
  have rd: "readable env ?n" using assms(3) by (simp add: readable_def)
  have s: "active x" if "x = JobRunning" for x using that by simp
  have "watched (\<lambda>s. s = JobRunning) ((\<lambda>r. spec_id (jr_spec r)) ` set ?running \<union> {}) ?n"
    unfolding leftIn_ids [OF assms(3)] by (auto simp: watched_def)
  then have n1: "watched (\<lambda>s. s = JobRunning) {} n1 \<and> readable env n1"
    unfolding n1_def by (intro watched_fold [OF _ _ rd] watched_recoverOne [OF assms(1) _ _ _ s]) (use assms(4) in auto)
  then have rm: "readable env ?m" by (simp add: readable_def)
  have "watched active ((\<lambda>r. spec_id (jr_spec r)) ` set ?waiting \<union> {}) ?m"
    using n1 unfolding leftIn_ids [OF n1 [THEN conjunct2]] by (auto simp: watched_def active_def)
  then have n2: "watched active {} n2"
    unfolding n2_def by (intro watched_fold [OF _ _ rm, THEN conjunct1] watched_recoverReboot [OF assms(1,2)])
  have "restart env n = snd (sweep env n2)"
    using assms(1) by (simp add: restart_def Recover_def recoverRebooting_def ask_def Let_def works_def n1_def n2_def)
  then show ?thesis using n2 sweep_subset [OF assms(1), of n2] by (auto simp: watched_def)
qed

theorem restart_leaves_no_job_unwatched_witness:
  "jobs_of (restart sampleNodeEnv rebootingNode) (runA @ ''-0'') = Some JobRebooting \<and>
   runA @ ''-0'' \<in> set (jn_cancels (restart sampleNodeEnv rebootingNode))"
proof -
  have "works sampleNodeEnv" "awaits sampleNodeEnv" by (simp_all add: works_def sampleNodeEnv_def awaits_def sampleRunner_def)
  moreover have "list_all (\<lambda>row. row_spec row @ ''-0'' = row_id row) (jn_rows rebootingNode)" by code_simp
  then have "readable sampleNodeEnv rebootingNode" by (auto simp: readable_def sampleNodeEnv_def sampleSpec_def list_all_iff)
  moreover have "leftIn sampleNodeEnv JobRunning (jn_rows rebootingNode) = []" by code_simp
  moreover have "map (\<lambda>r. (row_id r, row_status r)) (jn_rows (restart sampleNodeEnv rebootingNode)) = [(runA @ ''-0'', JobRebooting)]" by code_simp
  ultimately show ?thesis using restart_leaves_no_job_unwatched [of sampleNodeEnv rebootingNode]
    unfolding jobs_of_def by (auto simp: map_eq_Cons_conv)
qed

section \<open>The engine's jobs are valid\<close>

lemma is_digit_same: "Tasks_Store.is_digit = Go_Duration.is_digit"
  by (auto simp: Tasks_Store.is_digit_def Go_Duration.is_digit_def fun_eq_iff)

lemma idPattern_jobID:
  assumes "runIDPattern rid" and "k < 100"
  shows "idPattern (jobID rid k)"
proof -
  have l: "length rid = 22" using assms(1) by (simp add: runIDPattern_def)
  have "length (nat_digits k) \<le> 2" using assms(2) by (subst nat_digits.simps, subst nat_digits.simps) auto
  moreover have "1 \<le> length (nat_digits k)" by (simp add: Suc_le_eq)
  moreover have "list_all Tasks_Store.is_digit (nat_digits k)" unfolding is_digit_same by (rule nat_digits_digits)
  ultimately show ?thesis using assms(1) l by (simp add: idPattern_def jobID_def itoa_def nth_append)
qed

lemma idPattern_hyphen:
  assumes "idPattern s" and "i < length s" and "s ! i = CHR ''-''"
  shows "i \<in> {8, 15, 22}"
proof (rule ccontr)
  assume "i \<notin> {8, 15, 22}"
  then have i: "i < 8 \<or> 9 \<le> i \<and> i < 15 \<or> 16 \<le> i \<and> i < 22 \<or> 23 \<le> i" by auto
  let ?r = "take 22 s"
  have l: "length ?r = 22" using assms(1) by (simp add: idPattern_def)
  have p: "list_all Tasks_Store.is_digit (take 8 ?r)" "list_all Tasks_Store.is_digit (take 6 (drop 9 ?r))" "list_all lower_hex (drop 16 ?r)"
    "list_all Tasks_Store.is_digit (drop 23 s)" using assms(1) unfolding idPattern_def runIDPattern_def by blast+
  have no: "\<not> Tasks_Store.is_digit CHR ''-''" "\<not> lower_hex CHR ''-''" by code_simp+
  from i consider "i < 8" | "9 \<le> i" "i < 15" | "16 \<le> i" "i < 22" | "23 \<le> i" by blast
  then show False
  proof cases
    case 1
    then show False using p(1) no assms(2,3) l by (auto simp: list_all_length dest: spec [of _ i])
  next
    case 2
    then show False using p(2) no assms(2,3) l by (auto simp: list_all_length dest: spec [of _ "i - 9"])
  next
    case 3
    then show False using p(3) no assms(2,3) l by (auto simp: list_all_length dest: spec [of _ "i - 16"])
  next
    case 4
    then show False using p(4) no assms(2,3) by (auto simp: list_all_length dest: spec [of _ "i - 23"])
  qed
qed

lemma double_hyphen_refused:
  assumes "m < 0"
  shows "\<not> idPattern (r @ ''-'' @ itoa m)"
proof
  let ?s = "r @ ''-'' @ itoa m"
  assume p: "idPattern ?s"
  have "itoa m = CHR ''-'' # nat_digits (nat (- m))" using assms by (simp add: itoa_def)
  then have "?s ! length r = CHR ''-''" "?s ! Suc (length r) = CHR ''-''" "Suc (length r) < length ?s" by (simp_all add: nth_append)
  then show False using idPattern_hyphen [OF p, of "length r"] idPattern_hyphen [OF p, of "Suc (length r)"] by auto
qed

lemma checkSettings_one:
  assumes "spec_kind s \<in> set stepKinds"
    and "spec_packages s \<noteq> None \<longleftrightarrow> spec_kind s = StepPackages" and "spec_service s \<noteq> None \<longleftrightarrow> spec_kind s = StepService"
    and "spec_command s \<noteq> None \<longleftrightarrow> spec_kind s = StepCommand" and "spec_file s \<noteq> None \<longleftrightarrow> spec_kind s = StepFile"
    and "spec_stack s \<noteq> None \<longleftrightarrow> spec_kind s = StepStack" and "spec_reboot s \<noteq> None \<longleftrightarrow> spec_kind s = StepReboot"
  shows "checkSettings s = []"
proof -
  have set: "settingsSet s = map (\<lambda>k. (k, spec_kind s = k)) stepKinds"
    unfolding settingsSet_def stepKinds_def using assms(2-7) by simp
  have "map_of (map (\<lambda>k. (k, spec_kind s = k)) stepKinds) (spec_kind s) = Some True"
    using assms(1) by (simp add: map_of_map_restrict)
  moreover have "find (\<lambda>(kind, ok). ok \<and> kind \<noteq> spec_kind s) (map (\<lambda>k. (k, spec_kind s = k)) stepKinds) = None"
    by (auto simp: find_None_iff)
  ultimately show ?thesis by (simp add: checkSettings_def set)
qed

lemma renderStep_settings:
  assumes "renderStep r t i s = (spec, None)" and "wf_step p s"
  shows "spec_task spec = task_name t \<and> spec_step spec = i \<and> spec_kind spec = step_kind s \<and> step_kind s \<in> set stepKinds \<and> checkSettings spec = []"
proof -
  have k: "step_kind s \<in> set stepKinds" using assms(2) by (simp add: wf_step_def)
  have f: "spec_task spec = task_name t \<and> spec_step spec = i \<and> spec_kind spec = step_kind s \<and>
     (spec_packages spec \<noteq> None \<longleftrightarrow> step_kind s = StepPackages) \<and> (spec_service spec \<noteq> None \<longleftrightarrow> step_kind s = StepService) \<and>
     (spec_command spec \<noteq> None \<longleftrightarrow> step_kind s = StepCommand) \<and> (spec_file spec \<noteq> None \<longleftrightarrow> step_kind s = StepFile) \<and>
     (spec_stack spec \<noteq> None \<longleftrightarrow> step_kind s = StepStack) \<and> (spec_reboot spec \<noteq> None \<longleftrightarrow> step_kind s = StepReboot)"
    using assms(1) k unfolding stepKinds_def set_simps
    by (elim insertE) (auto simp: renderStep_def Let_def emptySpec_def step_kind_defs split: option.splits prod.splits)
  then show ?thesis using k by (simp add: checkSettings_one)
qed

lemma renderSteps_settings:
  assumes "renderSteps r t i ss = Inr specs" and "list_all (wf_step p) ss" and "k < length specs"
  shows "length specs = length ss \<and> spec_task (specs ! k) = task_name t \<and> spec_step (specs ! k) = i + k \<and>
    spec_kind (specs ! k) \<in> set stepKinds \<and> checkSettings (specs ! k) = []"
  using assms
proof (induction ss arbitrary: i specs k)
  case (Cons s ss)
  from Cons.prems(1) obtain spec rest where r: "renderStep r t i s = (spec, None)" "renderSteps r t (i + 1) ss = Inr rest" "specs = spec # rest"
    by (auto split: prod.splits option.splits sum.splits)
  have len: "length rest = length ss"
    using r(2) by (induction ss arbitrary: i rest) (auto split: prod.splits option.splits sum.splits)
  show ?case
  proof (cases k)
    case 0
    then show ?thesis using renderStep_settings [OF r(1), of p] Cons.prems(2) r(3) len by simp
  next
    case (Suc m)
    then show ?thesis using Cons.IH [OF r(2), of m] Cons.prems(2,3) r(3) len by simp
  qed
qed simp

text \<open>C28: a node takes every job the engine sends it.  Each step of a task that was read without a problem and filled in for a node, with the job ID
  the engine gives it under a run's ID, passes every check of a node that has a runner for each kind of step.\<close>

theorem engine_jobs_are_valid:
  assumes "Parse Y doc = (Some t, ps)" and "Render t inputs node = Inr specs" and "k < length specs"
    and "runIDPattern rid" and "\<forall>kind\<in>set stepKinds. ne_runners env kind \<noteq> None"
  shows "\<exists>rn. validate env ((specs ! k)\<lparr>spec_id := jobID rid k, spec_run_id := rid\<rparr>) = Inr rn"
proof -
  have wf: "trim_space (task_name t) \<noteq> []" "length (task_steps t) \<le> MaxSteps" "list_all (wf_step (parserOf (task_inputs t))) (task_steps t)"
    using Parse_wf [OF assms(1)] by (simp_all add: wf_task_def)
  from assms(2) obtain r where "renderSteps r t 0 (task_steps t) = Inr specs" by (auto simp: Render_def split: sum.splits)
  from renderSteps_settings [OF this wf(3) assms(3)] have s: "length specs = length (task_steps t)" "spec_task (specs ! k) = task_name t"
    "spec_step (specs ! k) = k" "spec_kind (specs ! k) \<in> set stepKinds" "checkSettings (specs ! k) = []" by simp_all
  have k: "k < MaxSteps" "k < 100" using assms(3) s(1) wf(2) unfolding MaxSteps_def by linarith+
  from s(4) assms(5) obtain rn where rn: "ne_runners env (spec_kind (specs ! k)) = Some rn" by blast
  let ?s = "(specs ! k)\<lparr>spec_id := jobID rid k, spec_run_id := rid\<rparr>"
  have "settingsSet ?s = settingsSet (specs ! k)" "spec_kind ?s = spec_kind (specs ! k)" by (simp_all add: settingsSet_def)
  then have c: "checkSettings ?s = []" using s(5) by (simp only: checkSettings_def)
  have "\<not> MaxSteps \<le> spec_step ?s" "spec_id ?s = spec_run_id ?s @ ''-'' @ itoa (int (spec_step ?s))" "idPattern (spec_id ?s)"
    "trim_space (spec_task ?s) \<noteq> []" "ne_runners env (spec_kind ?s) = Some rn"
    using k(1) s(2,3) wf(1) rn idPattern_jobID [OF assms(4) k(2)] by (simp_all add: jobID_def)
  then have "validate env ?s = Inr rn" using c unfolding validate_def by (simp only: simp_thms if_False option.case if_True)
  then show ?thesis ..
qed

theorem engine_jobs_are_valid_witness:
  "\<exists>specs rn. Render sampleTask Map.empty \<lparr>nv_name = ''n1'', nv_address = ''10.0.0.1''\<rparr> = Inr specs \<and> specs \<noteq> [] \<and>
     validate sampleNodeEnv ((specs ! 0)\<lparr>spec_id := jobID runA 0, spec_run_id := runA\<rparr>) = Inr rn"
proof -
  let ?node = "\<lparr>nv_name = ''n1'', nv_address = ''10.0.0.1''\<rparr>"
  have "runIDPattern runA" by code_simp
  moreover have "\<forall>kind\<in>set stepKinds. ne_runners sampleNodeEnv kind \<noteq> None" by (simp add: sampleNodeEnv_def)
  moreover obtain specs where r: "Render sampleTask Map.empty ?node = Inr specs" using sampleTask_rendered by blast
  moreover have "map_sum id length (Render sampleTask Map.empty ?node) = Inr 1" by code_simp
  then have "0 < length specs" using r by simp
  ultimately obtain rn where "validate sampleNodeEnv ((specs ! 0)\<lparr>spec_id := jobID runA 0, spec_run_id := runA\<rparr>) = Inr rn"
    using engine_jobs_are_valid [OF sampleTask_parsed, of Map.empty ?node specs 0 runA sampleNodeEnv] by blast
  then show ?thesis using r \<open>0 < length specs\<close> by auto
qed

end
