(* ===== verification/Runner_Safety.thy ===== *)
theory Runner_Safety
  imports Job_Runners Job_Safety
begin

text \<open>
  What the runners of a node's jobs guarantee: the result of each is one the table takes, a unit the host depends on is not touched, a reboot is
  recorded before it is scheduled, a watched unit that is gone ends its job, the transactions of a packages step run in order up to the first that
  does not succeed, and its markers in the log are read back.
\<close>

section \<open>Results the table takes\<close>

definition ends :: "job_result \<Rightarrow> bool" where
  "ends r \<longleftrightarrow> res_status r \<in> set endStatuses"

lemma endStatuses_mem: "JobSucceeded \<in> set endStatuses" "JobFailed \<in> set endStatuses" "JobInterrupted \<in> set endStatuses" "JobCancelled \<in> set endStatuses"
  by (simp_all add: endStatuses_def)

lemma res_status_result [simp]: "res_status (result st c e m) = st"
  by (simp add: result_def)

lemma ends_result [simp]:
  "ends (result JobSucceeded c e m)" "ends (result JobFailed c e m)" "ends (result JobInterrupted c e m)" "ends (result JobCancelled c e m)"
  by (simp_all add: ends_def endStatuses_mem)

lemma ends_small [simp]: "ends (timedOut d)" "ends (exitResult k)"
  by (simp_all add: timedOut_def exitResult_def)

lemma ends_if: "ends (if b then x else y) = (if b then ends x else ends y)"
  by simp

lemma settle_ends: "ends (fst (settle W job d s))"
  unfolding settle_def Let_def split_def by (simp split: option.split)

lemma watch_ends: "watch W job d s = Some x \<Longrightarrow> ends (fst x)"
  using settle_ends [of W job d] unfolding watch_def split_def by (auto simp: ends_if split: option.splits)

lemma launch_ends [simp]: "ends (launchResult W (Inl e))" "launchResult W (Inr r) = r"
  by (simp_all add: launchResult_def)

lemma runDirect_ends: "ends (fst (runDirect W d s))"
  unfolding runDirect_def Let_def split_def by (simp split: directEnd.split option.split)

lemma map_Inr_ends: "map_option (\<lambda>(res, s). (Inr res, s)) y = Some x \<Longrightarrow> (\<And>z. y = Some z \<Longrightarrow> ends (fst z)) \<Longrightarrow> ends (launchResult W (fst x))"
  by (cases y) auto

lemma startUnit_ends: "startUnit W job script d s = Some x \<Longrightarrow> ends (launchResult W (fst x))"
  using map_Inr_ends [OF _ watch_ends] unfolding startUnit_def Let_def split_def by (auto split: option.splits)

lemma command_Start_ends: "command_Start W job step s = Some x \<Longrightarrow> ends (launchResult W (fst x))"
  using startUnit_ends runDirect_ends unfolding command_Start_def Let_def split_def by (auto split: option.splits if_splits)

lemma ends_pair: "ends (fst (case err of Some e \<Rightarrow> (result JobFailed a None (f e), s1) | None \<Rightarrow> (result JobSucceeded a None m, s2)))"
  by (cases err) simp_all

lemma service_run_ends: "ends (fst (service_run W step s))"
  unfolding service_run_def Let_def split_def by (rule ends_pair)

lemma service_Start_ends: "ends (fst (service_Start W job step s))"
  unfolding service_Start_def Let_def split_def by (simp add: service_run_ends split: option.split)

lemma await_ends: "ends (fst (await W step s))"
  unfolding await_def Let_def split_def by (simp add: ends_if)

lemma schedule_ends: "ends (launchResult W (fst (schedule W unit step s)))"
  using await_ends unfolding schedule_def split_def by (simp split: option.split)

lemma reboot_Start_ends: "ends (launchResult W (fst (reboot_Start W job step s)))"
  using schedule_ends unfolding reboot_Start_def Let_def split_def by (simp split: option.split bool.split)

lemma ended_status: "res_status (fst (ended W st m e dn s)) = st"
  unfolding ended_def Let_def split_def by simp

lemma status_ne: "JobCancelled \<noteq> JobSucceeded" "JobFailed \<noteq> JobSucceeded" "JobInterrupted \<noteq> JobSucceeded"
  by (simp_all add: job_status_defs)

lemma startTx_Inl: "fst (startTx W i ph dn s) = Inl r \<Longrightarrow> ends r \<and> res_status r \<noteq> JobSucceeded"
  unfolding startTx_def Let_def split_def ends_def
  by (auto simp: ended_status endStatuses_mem status_ne split: if_splits sum.splits txError.splits)

lemma phaseEnd_Some: "fst (phaseEnd W k c x dn s) = Some r \<Longrightarrow> ends r \<and> res_status r \<noteq> JobSucceeded"
  unfolding phaseEnd_def Let_def split_def ends_def
  by (auto simp: ended_status endStatuses_mem status_ne split: if_splits option.splits)

text \<open>The steps of the loop over the phases, one lemma each way it goes.\<close>

lemma phasesLoop_Cons:
  assumes "phasesLoop W i (ph # phases) tx dn s = Some x"
  obtains (refused) r s1 where "tx = None" "startTx W i ph dn s = (Inl r, s1)" "x = (r, s1)"
  | (over) t s1 c y s2 r s3 where "(case tx of Some t \<Rightarrow> (Inr t, s) | None \<Rightarrow> startTx W i ph dn s) = (Inr t, s1)"
      "txLoop W t True False s1 = Some ((c, y), s2)"
      "phaseEnd W (fst ph) c y (if fst ph \<noteq> pkgUpdate then dn @ [t] else dn) s2 = (Some r, s3)" "x = (r, s3)"
  | (on) t s1 c y s2 s3 where "(case tx of Some t \<Rightarrow> (Inr t, s) | None \<Rightarrow> startTx W i ph dn s) = (Inr t, s1)"
      "txLoop W t True False s1 = Some ((c, y), s2)"
      "phaseEnd W (fst ph) c y (if fst ph \<noteq> pkgUpdate then dn @ [t] else dn) s2 = (None, s3)"
      "phasesLoop W (Suc i) phases None (if fst ph \<noteq> pkgUpdate then dn @ [t] else dn) s3 = Some x"
proof -
  obtain a s1 where a: "(case tx of Some t \<Rightarrow> (Inr t, s) | None \<Rightarrow> startTx W i ph dn s) = (a, s1)" by fastforce
  show thesis
  proof (cases a)
    case (Inl r)
    then show thesis using a assms refused by (cases tx) auto
  next
    case (Inr t)
    obtain c y s2 where l: "txLoop W t True False s1 = Some ((c, y), s2)"
      using assms a Inr by (cases "txLoop W t True False s1") auto
    obtain e s3 where e: "phaseEnd W (fst ph) c y (if fst ph \<noteq> pkgUpdate then dn @ [t] else dn) s2 = (e, s3)" by fastforce
    have x: "(case e of Some r \<Rightarrow> Some (r, s3) | None \<Rightarrow> phasesLoop W (Suc i) phases None (if fst ph \<noteq> pkgUpdate then dn @ [t] else dn) s3) = Some x"
      using assms a Inr l e by (simp add: Let_def split: option.splits)
    show thesis
    proof (cases e)
      case None
      then show thesis using on [of t s1 c y s2 s3] a Inr l e x by simp
    next
      case (Some r)
      then show thesis using over [of t s1 c y s2 r s3] a Inr l e x by simp
    qed
  qed
qed

lemma phasesLoop_ends: "phasesLoop W i phases tx dn s = Some x \<Longrightarrow> ends (fst x)"
proof (induction phases arbitrary: i tx dn s)
  case Nil
  then have "fst x = fst (ended W JobSucceeded [] (Some 0) dn s)" by simp
  then show ?case by (simp add: ends_def ended_status endStatuses_mem)
next
  case (Cons ph phases)
  from Cons.prems show ?case
  proof (cases rule: phasesLoop_Cons)
    case (refused r s1)
    then show ?thesis using startTx_Inl [of W i ph dn s r] by simp
  next
    case (over t s1 c y s2 r s3)
    then show ?thesis using phaseEnd_Some [of W "fst ph" c y] by (metis fst_conv)
  next
    case (on t s1 c y s2 s3)
    then show ?thesis using Cons.IH by blast
  qed
qed

section \<open>A job's end is recorded\<close>

lemma finish_takes: "works env \<Longrightarrow> ends r \<Longrightarrow> \<not> fst (Job_Node.finish env j r n)"
  by (simp add: Job_Node.finish_def works_def ends_def ask_def Let_def)

lemma packages_Resume_ends: "packages_Resume W step s = Some x \<Longrightarrow> ends (launchResult W (fst x))"
  using map_Inr_ends [OF _ phasesLoop_ends] unfolding packages_Resume_def Let_def split_def
  by (auto split: option.splits if_splits)

lemma command_Resume_ends: "command_Resume W job step s = Some x \<Longrightarrow> ends (launchResult W (fst x))"
  unfolding command_Resume_def by (erule map_Inr_ends [OF _ watch_ends])

text \<open>Whatever the host answers, each runner that returns ends its job with a status the node's table takes, so that on a node whose database works the
  end is recorded: the job does not stay running, and the node is free again.\<close>

theorem runner_ends_are_recorded:
  assumes "works env"
  shows "(\<forall>x. command_Start W job c s = Some x \<longrightarrow> \<not> fst (Job_Node.finish env jid (launchResult W (fst x)) n)) \<and>
    (\<forall>x. command_Resume W job c s = Some x \<longrightarrow> \<not> fst (Job_Node.finish env jid (launchResult W (fst x)) n)) \<and>
    \<not> fst (Job_Node.finish env jid (fst (service_Start W job v s)) n) \<and>
    \<not> fst (Job_Node.finish env jid (launchResult W (fst (reboot_Start W job b s))) n) \<and>
    (\<forall>x. packages_Start W p s = Some x \<longrightarrow> \<not> fst (Job_Node.finish env jid (fst x) n)) \<and>
    (\<forall>x. packages_Resume W p s = Some x \<longrightarrow> \<not> fst (Job_Node.finish env jid (launchResult W (fst x)) n))"
  by (intro conjI allI impI finish_takes [OF assms] command_Start_ends command_Resume_ends service_Start_ends reboot_Start_ends packages_Resume_ends
      phasesLoop_ends [OF packages_Start_def [symmetric, THEN trans]])

section \<open>What a runner did\<close>

definition adds :: "(runEvent \<Rightarrow> bool) \<Rightarrow> job_run \<Rightarrow> job_run \<Rightarrow> bool" where
  "adds P s s' \<longleftrightarrow> (\<exists>es. jx_events s' = jx_events s @ es \<and> list_all P es)"

lemma adds_refl [simp]: "jx_events s' = jx_events s \<Longrightarrow> adds P s s'"
  by (simp add: adds_def)

lemma adds_trans: "adds P a b \<Longrightarrow> adds P b c \<Longrightarrow> adds P a c"
  unfolding adds_def by (metis append.assoc list_all_append)

lemma adds_mono: "adds P a b \<Longrightarrow> (\<And>e. P e \<Longrightarrow> Q e) \<Longrightarrow> adds Q a b"
  unfolding adds_def list_all_iff by blast

lemma asked_events [simp]: "jx_events (snd (asked f s)) = jx_events s"
  by (simp add: asked_def)

lemma did_events [simp]: "jx_events (did e s) = jx_events s @ [e]"
  by (simp add: did_def)

lemma runCmd_events [simp]: "jx_events (snd (runCmd W argv s)) = jx_events s @ [Ran argv]"
  by (simp add: runCmd_def Let_def split_def)

fun is_appended :: "runEvent \<Rightarrow> bool" where
  "is_appended (Appended _) = True"
| "is_appended _ = False"

lemma appendLog_adds: "adds is_appended s (appendLog W text s)"
  by (simp add: appendLog_def Let_def split_def adds_def)

lemma unitState_adds:
  "adds (\<lambda>e. e = Ran [''systemctl'', ''is-active'', u] \<or> e = Ran [''systemctl'', ''is-enabled'', u]) s (snd (unitState W u s))"
  by (simp add: unitState_def Let_def split_def adds_def)

definition service_event :: "service_step \<Rightarrow> runEvent \<Rightarrow> bool" where
  "service_event step e \<longleftrightarrow> is_appended e \<or> e = Ran [''systemctl'', ''is-active'', ss_name step] \<or>
     e = Ran [''systemctl'', ''is-enabled'', ss_name step] \<or> e = Ran [''systemctl'', ss_action step, ss_name step]"

lemma service_run_adds: "adds (service_event step) s (snd (service_run W step s))"
proof -
  have u: "adds (service_event step) a (snd (unitState W (ss_name step) a))" for a
    by (rule adds_mono [OF unitState_adds]) (auto simp: service_event_def)
  have l: "adds (service_event step) a (appendLog W t a)" for a t by (rule adds_mono [OF appendLog_adds]) (simp add: service_event_def)
  have c: "adds (service_event step) a (snd (runCmd W [''systemctl'', ss_action step, ss_name step] a))" for a
    by (simp add: adds_def service_event_def)
  have snd_case: "snd (case o1 of Some e \<Rightarrow> (f e, a) | None \<Rightarrow> (m, a)) = a" for o1 :: "string option" and f m and a :: job_run by (cases o1) simp_all
  show ?thesis unfolding service_run_def Let_def split_def snd_case
    by (rule adds_trans [OF u adds_trans [OF l adds_trans [OF c adds_trans [OF l adds_trans [OF u l]]]]])
qed

lemma IsProtected_normal: "name \<noteq> [] \<Longrightarrow> IsProtectedSystemdUnit name \<longleftrightarrow> normalizeUnit name \<in> set protectedSystemdUnits"
  by (simp add: IsProtectedSystemdUnit_def normalizeUnit_def Let_def)

text \<open>C19: a service step leaves alone what the host depends on.  When it runs \<^verbatim>\<open>systemctl\<close> to stop, restart or disable a unit, that unit is, however it is
  spelled, none of the panel's own, the message bus and the journal, the platform's policy does not refuse it, and where the policy asks for a
  confirmation the step was confirmed.\<close>

theorem service_step_respects_policy:
  assumes "jx_events s = []" and "a \<in> {ActionStop, ActionRestart, ActionDisable}"
    and "Ran [''systemctl'', a, u] \<in> set (jx_events (snd (service_Start W job step s)))"
  shows "u = ss_name step \<and> a = ss_action step \<and> normalizeUnit u \<notin> set protectedSystemdUnits \<and>
    fst (UnitPolicy (jw_platform W (jx_tick s)) u a) \<noteq> TierRefuse \<and>
    (fst (UnitPolicy (jw_platform W (jx_tick s)) u a) = TierConfirm \<longrightarrow> spec_confirmed (sj_spec job))"
proof -
  let ?info = "jw_platform W (jx_tick s)"
  let ?g = "UnitGuard (jw_quote W) ?info (ss_name step) (ss_action step) (spec_confirmed (sj_spec job))"
  let ?s = "snd (asked (jw_platform W) s)"
  have st: "service_Start W job step s = (case ?g of Some ref \<Rightarrow> (result JobFailed False None (ref_code ref @ '': '' @ ref_message ref), ?s) | None \<Rightarrow> service_run W step ?s)"
    unfolding service_Start_def asked_def Let_def prod.case snd_conv by (rule refl)
  have g: "?g = None"
  proof (rule ccontr)
    assume "?g \<noteq> None"
    then have "jx_events (snd (service_Start W job step s)) = []" using st assms(1) by auto
    then show False using assms(3) by simp
  qed
  have "adds (service_event step) ?s (snd (service_run W step ?s))" by (rule service_run_adds)
  then have "service_event step (Ran [''systemctl'', a, u])"
    using st g assms(1,3) by (auto simp: adds_def list_all_iff)
  moreover have "a \<noteq> ''is-active''" "a \<noteq> ''is-enabled''" using assms(2) by (auto simp: ActionStop_def ActionRestart_def ActionDisable_def)
  ultimately have ua: "u = ss_name step" "a = ss_action step" by (auto simp: service_event_def)
  have v: "validServiceName u" "\<not> (a = ''start'' \<or> a = ''enable'')"
    using g ua assms(2) by (auto simp: UnitGuard_def Let_def ActionStop_def ActionRestart_def ActionDisable_def split: if_splits)
  then have "u \<noteq> []" by (auto simp: validServiceName_def has_suffix_def serviceSuffix_def)
  obtain tier hint where p: "UnitPolicy ?info u a = (tier, hint)" by fastforce
  have "\<not> IsProtectedSystemdUnit u \<and> tier \<noteq> TierRefuse \<and> (tier = TierConfirm \<longrightarrow> spec_confirmed (sj_spec job))"
    using g v assms(2) p unfolding ua [symmetric] UnitGuard_def Let_def by (simp split: if_splits)
  then show ?thesis using ua p IsProtected_normal [OF \<open>u \<noteq> []\<close>] by simp
qed

section \<open>Reboots\<close>

lemma refusePVE_events [simp]: "jx_events (snd (refusePVE W s)) = jx_events s"
  by (simp add: refusePVE_def Let_def split_def)

lemma notRequired_events [simp]: "jx_events (snd (notRequired W step s)) = jx_events s"
  by (simp add: notRequired_def split_def)

lemma refusePVE_None: "fst (refusePVE W s) = None \<longleftrightarrow> \<not> pi_PVE (jw_platform W (jx_tick s))"
  by (simp add: refusePVE_def asked_def)

lemma reboot_Refuse_shape:
  "jx_events (snd (reboot_Refuse W step s)) = jx_events s \<and> (fst (reboot_Refuse W step s) = None \<longrightarrow> \<not> pi_PVE (jw_platform W (jx_tick s)))"
proof -
  obtain x s1 where x: "refusePVE W s = (x, s1)" by fastforce
  obtain b s2 where b: "notRequired W step s1 = (b, s2)" by fastforce
  have e: "jx_events s1 = jx_events s" "jx_events s2 = jx_events s1" using refusePVE_events [of W s] notRequired_events [of W step s1] x b by simp_all
  show ?thesis
  proof (cases x)
    case None
    then have "\<not> pi_PVE (jw_platform W (jx_tick s))" using refusePVE_None [of W s] x by simp
    then show ?thesis using e None by (cases b) (simp_all add: reboot_Refuse_def x b split_def Let_def)
  next
    case (Some r)
    then show ?thesis using e by (simp add: reboot_Refuse_def x)
  qed
qed

definition no_schedule :: "runEvent \<Rightarrow> bool" where
  "no_schedule e \<longleftrightarrow> (\<forall>a. e \<noteq> Ran (''systemd-run'' # a)) \<and> (\<forall>u. e \<noteq> RebootSet u)"

lemma appendLog_quiet: "adds no_schedule s (appendLog W text s)"
  by (rule adds_mono [OF appendLog_adds]) (auto simp: no_schedule_def elim: is_appended.elims)

lemma await_adds: "adds no_schedule s (snd (await W step s))"
proof -
  have r: "adds no_schedule a (snd (runCmd W (''systemctl'' # x) a))" for a x by (simp add: adds_def no_schedule_def)
  have k: "adds no_schedule a (snd (asked f a))" for a and f :: "nat \<Rightarrow> bool" by simp
  let ?s1 = "snd (asked (jw_cancelled W) s)"
  let ?s2 = "snd (runCmd W [''systemctl'', ''stop'', jx_unit ?s1] ?s1)"
  let ?s3 = "snd (runCmd W [''systemctl'', ''is-system-running''] ?s2)"
  have s3: "adds no_schedule s ?s3" by (rule adds_trans [OF k adds_trans [OF r r]])
  have f: "adds no_schedule s (appendLog W t ?s1)" "adds no_schedule s (appendLog W t ?s3)" "adds no_schedule s (appendLog W t (appendLog W t' ?s3))" for t t'
    by (rule adds_trans [OF k appendLog_quiet], rule adds_trans [OF s3 appendLog_quiet], rule adds_trans [OF s3 adds_trans [OF appendLog_quiet appendLog_quiet]])
  show ?thesis unfolding await_def goingDown_def Let_def split_def using f by simp
qed

text \<open>C24: a reboot is recorded before it is scheduled, and a Proxmox VE host is not rebooted.  When a reboot step hands \<^verbatim>\<open>systemd-run\<close> anything, the
  record of the job as rebooting was made right before it, it is the only thing handed over, and the host is none the panel does not reboot.\<close>

theorem reboot_recorded_first:
  assumes "jx_events s = []" and "Ran (''systemd-run'' # a) \<in> set (jx_events (snd (reboot_Start W job step s)))"
  shows "\<not> pi_PVE (jw_platform W (jx_tick s)) \<and>
    (let unit = rebootUnitPrefix @ spec_id (sj_spec job) in
     a = [''--on-active=5'', ''--unit='' @ unit, ''systemctl'', ''reboot''] \<and>
     (\<exists>post. jx_events (snd (reboot_Start W job step s)) = [RebootSet (unit @ ''.timer''), Ran (''systemd-run'' # a)] @ post \<and> list_all no_schedule post))"
proof -
  let ?unit = "rebootUnitPrefix @ spec_id (sj_spec job)"
  let ?run = "[''systemd-run'', ''--on-active=5'', ''--unit='' @ ?unit, ''systemctl'', ''reboot'']"
  obtain x s1 where x: "reboot_Refuse W step s = (x, s1)" by fastforce
  obtain b s2 where b: "notRequired W step s1 = (b, s2)" by fastforce
  let ?s3 = "snd (asked (jw_cancelled W) s2)"
  obtain err s4 where err: "asked (jw_setRebooting W) ?s3 = (err, s4)" by fastforce
  define s5 where "s5 = did (RebootSet (?unit @ ''.timer'')) (s4\<lparr>jx_unit := ?unit @ ''.timer''\<rparr>)"
  obtain out e s6 where r: "runCmd W ?run s5 = ((out, e), s6)" by (metis surj_pair)
  have ev: "jx_events s1 = []" "jx_events s2 = []" "jx_events s4 = []"
    using reboot_Refuse_shape [of W step s] notRequired_events [of W step s1] asked_events [of "jw_setRebooting W" ?s3] x b err assms(1) by simp_all
  have "jx_events s6 = jx_events (snd (runCmd W ?run s5))" unfolding r by simp
  also have "\<dots> = jx_events s5 @ [Ran ?run]" by (rule runCmd_events)
  finally have ev6: "jx_events s6 = [RebootSet (?unit @ ''.timer''), Ran ?run]" using ev(3) by (simp add: s5_def)
  have go: "x = None" "\<not> b" "\<not> jw_cancelled W (jx_tick s2)" "err = None"
    using assms(2) ev x b err by (auto simp: reboot_Start_def schedule_def Let_def split_def asked_def appendLog_def did_def split: option.splits bool.splits if_splits)
  have pve: "\<not> pi_PVE (jw_platform W (jx_tick s))" using reboot_Refuse_shape [of W step s] x go(1) by simp
  let ?final = "snd (reboot_Start W job step s)"
  have "adds no_schedule s6 ?final"
  proof (cases e)
    case (Some m)
    then have "?final = appendLog W (trim_space out) s6"
      using go x b err r by (simp add: reboot_Start_def schedule_def Let_def split_def asked_def s5_def)
    then show ?thesis by (simp only: appendLog_quiet)
  next
    case None
    then have "?final = snd (await W step (appendLog W (''reboot scheduled in 5 seconds ('' @ ?unit @ '')'') s6))"
      using go x b err r by (simp add: reboot_Start_def schedule_def Let_def split_def asked_def s5_def)
    then show ?thesis by (simp only: adds_trans [OF appendLog_quiet await_adds])
  qed
  then obtain post where post: "jx_events ?final = [RebootSet (?unit @ ''.timer''), Ran ?run] @ post" "list_all no_schedule post"
    using ev6 by (auto simp: adds_def)
  then have "Ran (''systemd-run'' # a) = Ran ?run" using assms(2) by (auto simp: list_all_iff no_schedule_def)
  then show ?thesis using pve post unfolding Let_def by auto
qed

section \<open>Watching a unit\<close>

lemma watchStep_on:
  assumes "watchStep W p c u s = (WatchOn p' c' u', s')"
  shows "jx_tick s < jx_tick s' \<and>
    (\<not> unitRunning (trim_space (fst (jw_exec W (jx_tick s) [''systemctl'', ''is-active'', jx_unit s]))) \<longrightarrow> u' = Suc u \<and> u' < unknownLimit)"
  using assms unfolding watchStep_def Let_def split_def
  by (auto simp: runCmd_def asked_def did_def Let_def not_le split: if_splits)

lemma watchLoop_round:
  "watchLoop W p c u s = (case watchStep W p c u s of (UnitGone c, s) \<Rightarrow> Some (c, s) | (WatchOn p c u, s) \<Rightarrow> watchLoop W p c u s)"
  by (rule watchLoop.simps)

lemma watchLoop_gone:
  assumes "\<And>t unit. T \<le> t \<Longrightarrow> \<not> unitRunning (trim_space (fst (jw_exec W t [''systemctl'', ''is-active'', unit])))" and "T \<le> jx_tick s"
  shows "\<exists>x. watchLoop W p c u s = Some x"
  using assms(2)
proof (induction "unknownLimit - u" arbitrary: p c u s rule: less_induct)
  case less
  show ?case
  proof (cases "fst (watchStep W p c u s)")
    case (UnitGone x)
    then show ?thesis by (subst watchLoop_round) (simp add: split_def)
  next
    case (WatchOn p' c' u')
    then obtain s' where st: "watchStep W p c u s = (WatchOn p' c' u', s')" by (metis prod.collapse)
    from watchStep_on [OF st] assms(1) [OF less.prems] have n: "jx_tick s < jx_tick s'" "u' = Suc u" "u' < unknownLimit" by blast+
    have "\<exists>x. watchLoop W p' c' u' s' = Some x" by (rule less.hyps) (use n less.prems in auto)
    then show ?thesis by (subst watchLoop_round) (simp add: st)
  qed
qed

text \<open>A job whose unit is gone ends.  When from some time on \<^verbatim>\<open>systemctl\<close> no longer says that the job's unit runs, whether it says it is gone or gives no
  usable answer at all, the watch returns with a result, cancelled or not.\<close>

theorem watch_returns:
  assumes "\<forall>t unit. T \<le> t \<longrightarrow> \<not> unitRunning (trim_space (fst (jw_exec W t [''systemctl'', ''is-active'', unit])))"
  shows "\<exists>r s'. watch W job timeout s = Some (r, s')"
proof -
  have "\<exists>x. watchLoop W p c u s = Some x" for p c u s
  proof (induction "T - jx_tick s" arbitrary: p c u s rule: less_induct)
    case less
    show ?case
    proof (cases "T \<le> jx_tick s")
      case True
      then show ?thesis using watchLoop_gone [of T W s] assms by blast
    next
      case False
      show ?thesis
      proof (cases "fst (watchStep W p c u s)")
        case (UnitGone x)
        then show ?thesis by (subst watchLoop_round) (simp add: split_def)
      next
        case (WatchOn p' c' u')
        then obtain s' where st: "watchStep W p c u s = (WatchOn p' c' u', s')" by (metis prod.collapse)
        have "jx_tick s < jx_tick s'" using watchStep_on [OF st] by blast
        then have "\<exists>x. watchLoop W p' c' u' s' = Some x" using False by (intro less.hyps) simp
        then show ?thesis by (subst watchLoop_round) (simp add: st)
      qed
    qed
  qed
  then show ?thesis unfolding watch_def by (auto split: option.split prod.split)
qed

section \<open>The transactions of a packages step\<close>

fun txStart :: "runEvent \<Rightarrow> pkgPhase list" where
  "txStart (TxStarted kind names _) = [(kind, names)]"
| "txStart _ = []"

definition starts :: "job_run \<Rightarrow> pkgPhase list" where
  "starts s = concat (map txStart (jx_events s))"

lemma starts_same: "jx_events s' = jx_events s \<Longrightarrow> starts s' = starts s"
  by (simp add: starts_def)

lemma appendLog_starts [simp]: "starts (appendLog W text s) = starts s"
  by (simp add: appendLog_def Let_def split_def starts_def)

lemma setUnit_starts [simp]: "starts (snd (setUnit W u s)) = starts s"
  by (simp add: setUnit_def Let_def split_def starts_def split: option.split)

lemma asked_starts [simp]: "starts (snd (asked f s)) = starts s"
  by (simp add: starts_def)

lemma countChanged_starts: "starts (snd (countChanged W dn n c s)) = starts s"
proof (induction dn arbitrary: n c s)
  case (Cons tx dn)
  then show ?case by (auto simp: Let_def split_def split: option.split)
qed simp

lemma ended_starts [simp]: "starts (snd (ended W st m e dn s)) = starts s"
  by (simp add: ended_def Let_def split_def countChanged_starts)

lemma startTx_starts: "startTx W i ph dn s = (x, s') \<Longrightarrow> starts s' = starts s @ (case x of Inl _ \<Rightarrow> [] | Inr _ \<Rightarrow> [ph])"
proof -
  assume "startTx W i ph dn s = (x, s')"
  moreover have "starts (did (TxStarted (fst ph) (snd ph) t) a) = starts a @ [ph]" for t a by (simp add: starts_def)
  ultimately show ?thesis by (auto simp: startTx_def Let_def split_def split: if_splits sum.splits txError.splits)
qed

lemma phaseEnd_starts: "starts (snd (phaseEnd W k c x dn s)) = starts s"
  by (simp add: phaseEnd_def Let_def split_def split: option.split)

lemma txStep_starts: "starts (snd (txStep W tx p c s)) = starts s"
  by (simp add: txStep_def split_def split: option.split)

lemma txLoop_starts:
  assumes "txLoop W tx p c s = Some x"
  shows "starts (snd x) = starts s"
proof (rule txLoop.raw_induct [where P = "\<lambda>W tx p c s x. starts (snd x) = starts s", OF _ assms], goal_cases)
  case (1 loop W tx p c s x)
  obtain y s1 where y: "txStep W tx p c s = (y, s1)" by fastforce
  then have "starts s1 = starts s" using txStep_starts [of W tx p c s] by simp
  then show ?case using 1(2) 1(1) [of W tx _ _ s1 x] y by (cases y) auto
qed

text \<open>The transactions a packages step starts are its phases in their order (lists, upgrade, install, removal), up to the one after which it ends;
  it ends succeeded only when all of them were started, each after the one before it succeeded.\<close>

theorem packages_in_order:
  assumes "packages_Start W step s = Some (r, s')"
  shows "\<exists>k \<le> length (packagePhases step). starts s' = starts s @ take k (packagePhases step) \<and>
    (res_status r = JobSucceeded \<longrightarrow> k = length (packagePhases step))"
proof -
  have "\<exists>k \<le> length phases. starts s' = starts s @ take k phases \<and> (res_status r = JobSucceeded \<longrightarrow> k = length phases)"
    if "phasesLoop W i phases None dn s = Some (r, s')" for i phases dn s
    using that
  proof (induction phases arbitrary: i dn s)
    case Nil
    then show ?case using ended_starts [of W JobSucceeded "[]" "Some 0" dn s] by simp
  next
    case (Cons ph phases)
    from Cons.prems show ?case
    proof (cases rule: phasesLoop_Cons)
      case (refused r' s1)
      then have "starts s' = starts s" "res_status r \<noteq> JobSucceeded"
        using startTx_starts [of W i ph dn s] startTx_Inl [of W i ph dn s r] by auto
      then show ?thesis by (intro exI [of _ 0]) simp
    next
      case (over t s1 c y s2 r' s3)
      let ?dn = "if fst ph \<noteq> pkgUpdate then dn @ [t] else dn"
      have "starts s1 = starts s @ [ph]" using over(1) startTx_starts [of W i ph dn s "Inr t" s1] by simp
      moreover have "starts s2 = starts s1" using txLoop_starts [OF over(2)] by simp
      moreover have "starts s3 = starts s2" using phaseEnd_starts [of W "fst ph" c y ?dn s2] over(3) by simp
      moreover have "res_status r \<noteq> JobSucceeded" using phaseEnd_Some [of W "fst ph" c y ?dn s2 r] over(3,4) by simp
      ultimately show ?thesis using over(4) by (intro exI [of _ 1]) simp
    next
      case (on t s1 c y s2 s3)
      let ?dn = "if fst ph \<noteq> pkgUpdate then dn @ [t] else dn"
      have e: "starts s1 = starts s @ [ph]" "starts s2 = starts s1" "starts s3 = starts s2"
        using on(1,3) startTx_starts [of W i ph dn s "Inr t" s1] txLoop_starts [OF on(2)] phaseEnd_starts [of W "fst ph" c y ?dn s2] by simp_all
      from Cons.IH [OF on(4)] obtain k where "k \<le> length phases" "starts s' = starts s3 @ take k phases"
        "res_status r = JobSucceeded \<longrightarrow> k = length phases" by blast
      then show ?thesis using e by (intro exI [of _ "Suc k"]) simp
    qed
  qed
  then show ?thesis using assms unfolding packages_Start_def by blast
qed

section \<open>The phase markers\<close>

lemma splitByte_line: "c \<notin> set a \<Longrightarrow> splitByte c (a @ c # b) = a # splitByte c b"
  by (induction a) auto

lemma splitByte_nonempty: "splitByte c s \<noteq> []"
  by (cases s) (auto split: list.splits)

lemma scanMarks_line:
  assumes "newline \<notin> set a"
  shows "scanMarks pos (splitByte newline (a @ newline # b)) =
    (case phaseLine a of Some (phase, tx) \<Rightarrow> [\<lparr>pm_phase = phase, pm_tx = tx, pm_end = pos + length a + 1\<rparr>] | None \<Rightarrow> []) @
    scanMarks (pos + length a + 1) (splitByte newline b)"
proof -
  obtain l rest where "splitByte newline b = l # rest" using splitByte_nonempty by (metis list.exhaust)
  then show ?thesis by (simp add: splitByte_line [OF assms] Let_def split: option.split)
qed

text \<open>Text that ends with a line break and has no marker in it.\<close>

definition plainText :: "string \<Rightarrow> bool" where
  "plainText out \<longleftrightarrow> (out = [] \<or> last out = newline) \<and> list_all (\<lambda>line. phaseLine line = None) (splitByte newline out)"

lemma scanMarks_plain:
  assumes "plainText out"
  shows "scanMarks pos (splitByte newline (out @ b)) = scanMarks (pos + length out) (splitByte newline b)"
  using assms
proof (induction "length out" arbitrary: out pos rule: less_induct)
  case less
  show ?case
  proof (cases "out = []")
    case False
    then have l: "last out = newline" using less.prems by (simp add: plainText_def)
    then have "newline \<in> set out" using False last_in_set by metis
    then obtain a r where o: "out = a @ newline # r" "newline \<notin> set a" by (metis split_list_first)
    have p: "plainText r" "phaseLine a = None" using less.prems l unfolding plainText_def o(1) splitByte_line [OF o(2)] by (auto split: if_splits)
    have "scanMarks (pos + length a + 1) (splitByte newline (r @ b)) = scanMarks (pos + length a + 1 + length r) (splitByte newline b)"
      by (rule less.hyps) (use o p in simp_all)
    then show ?thesis using scanMarks_line [OF o(2), of pos "r @ b"] p(2) by (simp add: o(1) add.assoc)
  qed simp
qed

definition markLine :: "nat \<Rightarrow> string \<Rightarrow> string" where
  "markLine i tx = phaseMarker @ itoa (int i) @ '' tx='' @ tx"

lemma takeWhile_digits: "list_all P a \<Longrightarrow> \<not> P c \<Longrightarrow> takeWhile P (a @ c # b) = a \<and> dropWhile P (a @ c # b) = c # b"
  by (induction a) auto

lemma phaseLine_markLine:
  assumes "txID tx" and "i < 2 ^ 63"
  shows "phaseLine (markLine i tx) = Some (i, tx)"
proof -
  let ?ds = "nat_digits i" and ?tail = "'' tx='' @ tx"
  have "list_all Tasks_Store.is_digit ?ds" unfolding is_digit_same by (rule nat_digits_digits)
  moreover have "\<not> Tasks_Store.is_digit CHR '' ''" by code_simp
  moreover have "?tail = CHR '' '' # ''tx='' @ tx" by simp
  ultimately have "takeWhile Tasks_Store.is_digit (?ds @ ?tail) = ?ds" "dropWhile Tasks_Store.is_digit (?ds @ ?tail) = ?tail"
    using takeWhile_digits [of Tasks_Store.is_digit ?ds "CHR '' ''" "''tx='' @ tx"] by simp_all
  moreover have "markLine i tx = phaseMarker @ ?ds @ ?tail" by (simp add: markLine_def itoa_def)
  moreover have "min i (2 ^ 63 - 1) = i" using assms(2) by simp
  ultimately show ?thesis using assms(1) unfolding phaseLine_def Let_def
    by (simp only: has_prefix_append trim_prefix_append digits_value_nat_digits nat_digits_nonempty simp_thms if_True if_False)
qed

lemma markLine_no_break:
  assumes "txID tx"
  shows "newline \<notin> set (markLine i tx)"
proof -
  have run: "length tx = 20" "list_all Tasks_Store.is_digit (take 8 tx)" "tx ! 8 = CHR ''-''" "list_all Tasks_Store.is_digit (take 6 (drop 9 tx))"
    "tx ! 15 = CHR ''-''" "list_all lower_hex (drop 16 tx)" using assms by (simp_all add: txID_def)
  have no: "\<not> Tasks_Store.is_digit newline" "\<not> lower_hex newline" "newline \<noteq> CHR ''-''" "newline \<notin> set phaseMarker" "newline \<notin> set '' tx=''" by code_simp+
  have "tx = take 8 tx @ [tx ! 8] @ take 6 (drop 9 tx) @ [tx ! 15] @ drop 16 tx"
  proof -
    have "drop 8 tx = tx ! 8 # drop 9 tx" "drop 15 tx = tx ! 15 # drop 16 tx" using run(1) Cons_nth_drop_Suc [of 8 tx] Cons_nth_drop_Suc [of 15 tx] by simp_all
    moreover have "drop 9 tx = take 6 (drop 9 tx) @ drop 15 tx" using append_take_drop_id [of 6 "drop 9 tx"] by (simp del: append_take_drop_id)
    ultimately show ?thesis using append_take_drop_id [of 8 tx] by simp
  qed
  then have "set tx \<subseteq> set (take 8 tx) \<union> {tx ! 8} \<union> set (take 6 (drop 9 tx)) \<union> {tx ! 15} \<union> set (drop 16 tx)" by (metis (no_types) Un_assoc equalityE list.simps(15) set_append empty_set)
  then have "newline \<notin> set tx" using run no by (auto simp: list_all_iff)
  moreover have "newline \<notin> set (itoa (int i))" using nat_digits_digits [of i] no(1) unfolding is_digit_same by (auto simp: itoa_def list_all_iff)
  ultimately show ?thesis using no(4,5) by (simp add: markLine_def)
qed

text \<open>A log as \<^verbatim>\<open>run\<close> leaves it: each transaction's marker and what was copied of its output.\<close>

definition phasesLog :: "(nat \<times> string \<times> string) list \<Rightarrow> string" where
  "phasesLog segs = concat (map (\<lambda>(i, tx, out). markLine i tx @ newline # out) segs)"

lemma scanMarks_phases:
  assumes "list_all (\<lambda>(i, tx, out). txID tx \<and> i < 2 ^ 63 \<and> plainText out) segs"
  shows "map (\<lambda>m. (pm_phase m, pm_tx m)) (scanMarks pos (splitByte newline (phasesLog segs))) = map (\<lambda>(i, tx, _). (i, tx)) segs \<and>
    (segs \<noteq> [] \<longrightarrow> pm_end (last (scanMarks pos (splitByte newline (phasesLog segs)))) = pos + length (phasesLog segs) - length (snd (snd (last segs))))"
  using assms
proof (induction segs arbitrary: pos)
  case (Cons g segs)
  obtain i tx out where g: "g = (i, tx, out)" by (cases g)
  from Cons.prems g have v: "txID tx" "i < 2 ^ 63" "plainText out" "list_all (\<lambda>(i, tx, out). txID tx \<and> i < 2 ^ 63 \<and> plainText out) segs" by simp_all
  let ?p = "pos + length (markLine i tx) + 1"
  have e: "scanMarks pos (splitByte newline (phasesLog (g # segs))) =
      \<lparr>pm_phase = i, pm_tx = tx, pm_end = ?p\<rparr> # scanMarks (?p + length out) (splitByte newline (phasesLog segs))"
    using scanMarks_line [OF markLine_no_break [OF v(1), of i], of pos "out @ phasesLog segs"] phaseLine_markLine [OF v(1,2)] scanMarks_plain [OF v(3)]
    by (simp add: phasesLog_def g)
  have len: "length (phasesLog (g # segs)) = length (markLine i tx) + 1 + length out + length (phasesLog segs)" by (simp add: phasesLog_def g)
  note ih = Cons.IH [OF v(4), of "?p + length out"]
  have "length (scanMarks (?p + length out) (splitByte newline (phasesLog segs))) = length segs"
    using arg_cong [where f = length, OF conjunct1 [OF ih]] by simp
  then have ne: "segs \<noteq> [] \<longleftrightarrow> scanMarks (?p + length out) (splitByte newline (phasesLog segs)) \<noteq> []" by (metis length_0_conv)
  show ?case
  proof (cases "segs = []")
    case True
    then show ?thesis using e len ne by (simp add: g phasesLog_def)
  next
    case False
    then show ?thesis using e len ne ih by (simp add: g)
  qed
qed (simp add: phasesLog_def)

text \<open>A packages job taken back finds its place.  The markers a step wrote to its log are read back, in order, with their numbers and transactions, and
  what follows the last of them is exactly what was copied of that transaction's output.\<close>

theorem phase_marks_round_trip:
  assumes "list_all (\<lambda>(i, tx, out). txID tx \<and> i < 2 ^ 63 \<and> plainText out) segs" and "segs \<noteq> []"
  shows "\<exists>marks. readPhaseMarks (Log (phasesLog segs)) = Some (marks, length (phasesLog segs)) \<and>
    map (\<lambda>m. (pm_phase m, pm_tx m)) marks = map (\<lambda>(i, tx, _). (i, tx)) segs \<and>
    length (phasesLog segs) - pm_end (last marks) = length (snd (snd (last segs)))"
proof -
  let ?l = "phasesLog segs"
  obtain pre g where pg: "segs = pre @ [g]" using assms(2) by (metis rev_exhaust)
  have "length (snd (snd (last segs))) \<le> length ?l" by (simp add: pg phasesLog_def split_def)
  then show ?thesis using scanMarks_phases [OF assms(1), of 0] assms(2) by (simp add: readPhaseMarks_def)
qed

section \<open>A sample host\<close>

definition sampleHost :: platform_info where
  "sampleHost = \<lparr>pi_OSID = ''debian'', pi_OSVersionID = ''12'', pi_OSCodename = ''bookworm'', pi_OSPrettyName = ''Debian'', pi_PVE = False,
     pi_PVEVersion = [], pi_NetworkStack = StackIfupdown, pi_JournalOnly = True, pi_Resolver = []\<rparr>"

definition sampleWorld :: job_world where
  "sampleWorld = \<lparr>jw_exec = (\<lambda>_ argv. (if argv ! 1 = ''is-active'' then ''inactive'' else [], None)), jw_exists = (\<lambda>_ _. True), jw_systemd = (\<lambda>_. True),
     jw_required = (\<lambda>_. True), jw_platform = (\<lambda>_. sampleHost), jw_cancelled = (\<lambda>_. False), jw_now = int, jw_writeScript = (\<lambda>_. None),
     jw_chmodScript = (\<lambda>_. None), jw_logOpens = (\<lambda>_. True), jw_logFile = (\<lambda>_. NoLog), jw_direct = (\<lambda>_. ScriptEnded), jw_setUnit = (\<lambda>_. None),
     jw_setRebooting = (\<lambda>_. None), jw_startTx = (\<lambda>_ _ _. Inr ''20260101-000000-00aa''), jw_tx = (\<lambda>_ _. Some (False, ''success'', 0, [])),
     jw_changed = (\<lambda>_ _. Some 1), jw_sanitize = id, jw_quote = id\<rparr>"

definition sampleRun :: job_run where
  "sampleRun = \<lparr>jx_tick = 0, jx_unit = ''u'', jx_events = []\<rparr>"

definition sampleJob :: started_job where
  "sampleJob = \<lparr>sj_spec = sampleSpec runA, sj_logPath = ''/l/a.log'', sj_startedAt = 0\<rparr>"

definition sampleService :: service_step where
  "sampleService = \<lparr>ss_name = ''nginx.service'', ss_action = ''restart''\<rparr>"

definition samplePackages :: packages_step where
  "samplePackages = \<lparr>ps_update = True, ps_upgrade_all = False, ps_upgrade = None, ps_install = Some [''nginx''], ps_remove = None\<rparr>"

theorem runner_ends_are_recorded_witness:
  "works sampleNodeEnv \<and> \<not> fst (Job_Node.finish sampleNodeEnv (runA @ ''-0'') (fst (service_Start sampleWorld sampleJob sampleService sampleRun)) startedNode)"
proof -
  have "works sampleNodeEnv" by (simp add: works_def sampleNodeEnv_def)
  then show ?thesis using runner_ends_are_recorded [of sampleNodeEnv sampleWorld sampleJob _ sampleRun "runA @ ''-0''" startedNode sampleService] by blast
qed

theorem service_step_respects_policy_witness:
  "Ran [''systemctl'', ''restart'', ''nginx.service''] \<in> set (jx_events (snd (service_Start sampleWorld sampleJob sampleService sampleRun))) \<and>
   normalizeUnit ''nginx.service'' \<notin> set protectedSystemdUnits"
proof -
  have "jx_events sampleRun = []" by (simp add: sampleRun_def)
  moreover have "list_ex (\<lambda>e. e = Ran [''systemctl'', ''restart'', ''nginx.service'']) (jx_events (snd (service_Start sampleWorld sampleJob sampleService sampleRun)))"
    by code_simp
  then have "Ran [''systemctl'', ''restart'', ''nginx.service''] \<in> set (jx_events (snd (service_Start sampleWorld sampleJob sampleService sampleRun)))"
    by (auto simp: list_ex_iff)
  moreover have "''restart'' \<in> {ActionStop, ActionRestart, ActionDisable}" by (simp add: ActionRestart_def)
  ultimately show ?thesis using service_step_respects_policy [of sampleRun "''restart''" "''nginx.service''" sampleWorld sampleJob sampleService] by blast
qed

theorem reboot_recorded_first_witness:
  "\<exists>post. jx_events (snd (reboot_Start sampleWorld sampleJob \<lparr>rb_only_if_required = True, rb_wait = 0\<rparr> sampleRun)) =
     [RebootSet (rebootUnitPrefix @ runA @ ''-0.timer''),
      Ran [''systemd-run'', ''--on-active=5'', ''--unit='' @ rebootUnitPrefix @ runA @ ''-0'', ''systemctl'', ''reboot'']] @ post"
proof -
  let ?step = "\<lparr>rb_only_if_required = True, rb_wait = 0\<rparr>"
  let ?a = "[''--on-active=5'', ''--unit='' @ rebootUnitPrefix @ runA @ ''-0'', ''systemctl'', ''reboot'']"
  let ?es = "jx_events (snd (reboot_Start sampleWorld sampleJob ?step sampleRun))"
  have e: "jx_events sampleRun = []" by (simp add: sampleRun_def)
  have "list_ex (\<lambda>e. e = Ran (''systemd-run'' # ?a)) ?es" by code_simp
  then have "Ran (''systemd-run'' # ?a) \<in> set ?es" unfolding list_ex_iff by blast
  from reboot_recorded_first [OF e this] show ?thesis unfolding Let_def by (auto simp: sampleJob_def sampleSpec_def)
qed

theorem watch_returns_witness: "\<exists>r s'. watch sampleWorld sampleJob second sampleRun = Some (r, s')"
proof -
  have "\<not> unitRunning (trim_space ''inactive'')" by code_simp
  then have "\<forall>t unit. 0 \<le> t \<longrightarrow> \<not> unitRunning (trim_space (fst (jw_exec sampleWorld t [''systemctl'', ''is-active'', unit])))"
    by (simp add: sampleWorld_def)
  then show ?thesis by (rule watch_returns)
qed

theorem packages_in_order_witness:
  "\<exists>r s'. packages_Start sampleWorld samplePackages sampleRun = Some (r, s') \<and> res_status r = JobSucceeded \<and>
     starts s' = [(''update'', []), (''install'', [''nginx''])]"
proof -
  have "map_option (\<lambda>x. res_status (fst x)) (packages_Start sampleWorld samplePackages sampleRun) = Some JobSucceeded" by code_simp
  then obtain r s' where r: "packages_Start sampleWorld samplePackages sampleRun = Some (r, s')" "res_status r = JobSucceeded" by auto
  have "starts sampleRun = []" "packagePhases samplePackages = [(''update'', []), (''install'', [''nginx''])]" by code_simp+
  then show ?thesis using packages_in_order [OF r(1)] r by auto
qed

theorem phase_marks_round_trip_witness:
  "\<exists>marks. readPhaseMarks (Log (phasesLog [(1, ''20260101-000000-00aa'', ''ok'' @ [newline])])) = Some (marks, 50) \<and>
     map (\<lambda>m. (pm_phase m, pm_tx m)) marks = [(1, ''20260101-000000-00aa'')]"
proof -
  let ?segs = "[(1 :: nat, ''20260101-000000-00aa'', ''ok'' @ [newline])]"
  have "txID ''20260101-000000-00aa''" "plainText (''ok'' @ [newline])" by code_simp+
  moreover have "length (phasesLog ?segs) = 50" by code_simp
  ultimately show ?thesis using phase_marks_round_trip [of ?segs] by auto
qed

end
