(* ===== verification/Go_Path.thy ===== *)
theory Go_Path
  imports Go_Prelude
begin

text \<open>
  What the code uses of Go's \<^verbatim>\<open>path\<close> and \<^verbatim>\<open>path/filepath\<close> on Unix: \<^verbatim>\<open>Clean\<close>, \<^verbatim>\<open>Join\<close>, \<^verbatim>\<open>Dir\<close>, \<^verbatim>\<open>Base\<close>, \<^verbatim>\<open>IsAbs\<close>.  A path is a text; its
  names are what \<^verbatim>\<open>strings.Split\<close> finds between slashes.  \<open>abs_path\<close> writes a list of names as an absolute path, \<open>proper\<close> names are those that
  name an entry (not empty, no \<^verbatim>\<open>.\<close>, no \<^verbatim>\<open>..\<close>), and the lemmas say what the functions do to the names.
\<close>

section \<open>The functions\<close>

definition slash :: char where "slash = CHR ''/''"

fun split_byte :: "char \<Rightarrow> string \<Rightarrow> string list" where
  "split_byte c [] = [[]]"
| "split_byte c (x # xs) =
     (if x = c then [] # split_byte c xs else (case split_byte c xs of h # t \<Rightarrow> (x # h) # t | [] \<Rightarrow> [[x]]))"

fun join_byte :: "char \<Rightarrow> string list \<Rightarrow> string" where
  "join_byte c [] = []"
| "join_byte c [s] = s"
| "join_byte c (s # t # ts) = s @ c # join_byte c (t # ts)"

definition IsAbs :: "string \<Rightarrow> bool" where
  "IsAbs p \<longleftrightarrow> has_prefix p [slash]"

text \<open>The names kept so far are the list in reverse.\<close>

definition cleanStep :: "bool \<Rightarrow> string list \<Rightarrow> string \<Rightarrow> string list" where
  "cleanStep rooted kept c =
     (if c = [] \<or> c = ''.'' then kept
      else if c = ''..''
      then (case kept of [] \<Rightarrow> if rooted then [] else [''..''] | x # r \<Rightarrow> if x = ''..'' then ''..'' # kept else r)
      else c # kept)"

definition cleanNames :: "bool \<Rightarrow> string list \<Rightarrow> string list" where
  "cleanNames rooted cs = rev (foldl (cleanStep rooted) [] cs)"

definition abs_path :: "string list \<Rightarrow> string" where
  "abs_path cs = slash # join_byte slash cs"

definition Clean :: "string \<Rightarrow> string" where
  "Clean p =
     (let cs = cleanNames (IsAbs p) (split_byte slash p)
      in if IsAbs p then abs_path cs else if cs = [] then ''.'' else join_byte slash cs)"

definition Dir :: "string \<Rightarrow> string" where
  "Dir p = Clean (rev (dropWhile (\<lambda>c. c \<noteq> slash) (rev p)))"

definition trim_right_byte :: "char \<Rightarrow> string \<Rightarrow> string" where
  "trim_right_byte c s = rev (dropWhile (\<lambda>x. x = c) (rev s))"

definition Base :: "string \<Rightarrow> string" where
  "Base p =
     (if p = [] then ''.''
      else let q = rev (takeWhile (\<lambda>c. c \<noteq> slash) (rev (trim_right_byte slash p)))
      in if q = [] then [slash] else q)"

definition Join :: "string list \<Rightarrow> string" where
  "Join es = (case dropWhile (\<lambda>e. e = []) es of [] \<Rightarrow> [] | es \<Rightarrow> Clean (join_byte slash es))"

section \<open>Names and paths\<close>

definition proper :: "string \<Rightarrow> bool" where
  "proper c \<longleftrightarrow> c \<noteq> [] \<and> c \<noteq> ''.'' \<and> c \<noteq> ''..'' \<and> slash \<notin> set c"

lemma split_byte_nonempty [simp]: "split_byte c s \<noteq> []"
  by (induction s) (auto split: list.splits)

lemma split_byte_names: "x \<in> set (split_byte c s) \<Longrightarrow> c \<notin> set x"
  by (induction s arbitrary: x) (auto split: if_splits list.splits)

lemma split_byte_single: "c \<notin> set s \<Longrightarrow> split_byte c s = [s]"
  by (induction s) auto

lemma split_byte_append: "c \<notin> set s \<Longrightarrow> split_byte c (s @ c # t) = s # split_byte c t"
  by (induction s) auto

lemma split_byte_glue: "split_byte c (s @ c # t) = split_byte c s @ split_byte c t"
proof (induction s)
  case (Cons a s)
  obtain h r where "split_byte c s = h # r" by (cases "split_byte c s") auto
  then show ?case using Cons by simp
qed simp

lemma join_byte_Cons: "join_byte c (s # ts) = s @ (if ts = [] then [] else c # join_byte c ts)"
  by (cases ts) auto

lemma join_byte_append: "xs \<noteq> [] \<Longrightarrow> ys \<noteq> [] \<Longrightarrow> join_byte c (xs @ ys) = join_byte c xs @ c # join_byte c ys"
  by (induction xs) (auto simp: join_byte_Cons)

lemma split_join: "cs \<noteq> [] \<Longrightarrow> (\<And>x. x \<in> set cs \<Longrightarrow> c \<notin> set x) \<Longrightarrow> split_byte c (join_byte c cs) = cs"
  by (induction c cs rule: join_byte.induct) (auto simp: split_byte_single split_byte_append)

lemma join_split [simp]: "join_byte c (split_byte c s) = s"
proof (induction s)
  case (Cons a s)
  obtain h r where "split_byte c s = h # r" by (cases "split_byte c s") auto
  then show ?case using Cons by (simp add: join_byte_Cons)
qed simp

lemma abs_path_is_abs [simp]: "IsAbs (abs_path cs)"
  by (simp add: IsAbs_def abs_path_def has_prefix_def)

lemma abs_path_Nil: "abs_path [] = [slash]"
  by (simp add: abs_path_def)

lemma split_abs_path: "list_all proper cs \<Longrightarrow> split_byte slash (abs_path cs) = [] # (if cs = [] then [[]] else cs)"
  using split_join [of cs slash] by (auto simp: abs_path_def list_all_iff proper_def)

lemma abs_path_inject: "list_all proper cs \<Longrightarrow> list_all proper ds \<Longrightarrow> abs_path cs = abs_path ds \<longleftrightarrow> cs = ds"
proof
  assume p: "list_all proper cs" "list_all proper ds" and "abs_path cs = abs_path ds"
  then have "(if cs = [] then [[]] else cs) = (if ds = [] then [[]] else ds)"
    using split_abs_path [OF p(1)] split_abs_path [OF p(2)] by simp
  then show "cs = ds" using p by (cases cs; cases ds) (simp_all add: proper_def)
qed simp

lemma cleanStep_skip [simp]: "cleanStep r kept [] = kept" "cleanStep r kept ''.'' = kept"
  by (simp_all add: cleanStep_def)

lemma cleanStep_name: "proper c \<Longrightarrow> cleanStep r kept c = c # kept"
  by (simp add: cleanStep_def proper_def)

lemma cleanStep_up: "list_all proper kept \<Longrightarrow> cleanStep True kept ''..'' = tl kept"
  by (auto simp: cleanStep_def proper_def split: list.splits)

lemma foldl_cleanStep_names: "list_all proper cs \<Longrightarrow> foldl (cleanStep r) kept cs = rev cs @ kept"
  by (induction cs arbitrary: kept) (auto simp: cleanStep_name)

lemma cleanStep_proper:
  "list_all proper kept \<Longrightarrow> slash \<notin> set c \<Longrightarrow> list_all proper (cleanStep True kept c)"
  by (cases kept) (auto simp: cleanStep_def proper_def)

lemma foldl_cleanStep_proper:
  "list_all proper kept \<Longrightarrow> list_all (\<lambda>c. slash \<notin> set c) cs \<Longrightarrow> list_all proper (foldl (cleanStep True) kept cs)"
  by (induction cs arbitrary: kept) (auto simp: cleanStep_proper)

lemma cleanNames_proper: "list_all (\<lambda>c. slash \<notin> set c) cs \<Longrightarrow> list_all proper (cleanNames True cs)"
  using foldl_cleanStep_proper [of "[]" cs] by (simp add: cleanNames_def)

lemma cleanNames_append:
  "list_all proper (cleanNames True xs) \<Longrightarrow> cleanNames True (xs @ ys) = cleanNames True (cleanNames True xs @ ys)"
  by (simp add: cleanNames_def foldl_cleanStep_names)

lemma cleanNames_id [simp]: "list_all proper cs \<Longrightarrow> cleanNames r cs = cs"
  by (simp add: cleanNames_def foldl_cleanStep_names)

lemma cleanNames_skip [simp]: "cleanNames r ([] # cs) = cleanNames r cs"
  by (simp add: cleanNames_def)

text \<open>The names of an absolute path once it is clean.\<close>

definition namesOf :: "string \<Rightarrow> string list" where
  "namesOf p = cleanNames True (split_byte slash p)"

lemma namesOf_proper [simp]: "list_all proper (namesOf p)"
  unfolding namesOf_def by (rule cleanNames_proper) (auto simp: list_all_iff dest: split_byte_names)

lemma Clean_abs: "IsAbs p \<Longrightarrow> Clean p = abs_path (namesOf p)"
  by (simp add: Clean_def namesOf_def)

lemma namesOf_abs_path [simp]: "list_all proper cs \<Longrightarrow> namesOf (abs_path cs) = cs"
  by (simp add: namesOf_def split_abs_path)

lemma Clean_abs_path [simp]: "list_all proper cs \<Longrightarrow> Clean (abs_path cs) = abs_path cs"
  by (simp add: Clean_abs)

lemma Join_abs: "cs = [] \<or> list_all proper cs \<Longrightarrow> es \<noteq> [] \<Longrightarrow> list_all (\<lambda>e. slash \<notin> set e) es \<Longrightarrow>
    Join (abs_path cs # es) = abs_path (cleanNames True (cs @ es))"
proof -
  assume a: "cs = [] \<or> list_all proper cs" "es \<noteq> []" "list_all (\<lambda>e. slash \<notin> set e) es"
  then have c: "list_all proper cs" by auto
  have p: "IsAbs (abs_path cs @ slash # join_byte slash es)" by (simp add: IsAbs_def abs_path_def has_prefix_def)
  have "split_byte slash (abs_path cs @ slash # join_byte slash es) = [] # (if cs = [] then [[]] else cs) @ es"
    using a split_join [of es slash] c by (simp add: split_byte_glue split_abs_path list_all_iff)
  then have "namesOf (abs_path cs @ slash # join_byte slash es) = cleanNames True (cs @ es)"
    by (simp add: namesOf_def)
  then show ?thesis using a(2) Clean_abs [OF p] by (cases es) (auto simp: Join_def abs_path_def join_byte_Cons)
qed

lemma Join_name: "list_all proper cs \<Longrightarrow> proper c \<Longrightarrow> Join [abs_path cs, c] = abs_path (cs @ [c])"
  by (subst Join_abs) (auto simp: proper_def)

lemma dropWhile_rev_last: "slash \<notin> set c \<Longrightarrow> dropWhile (\<lambda>x. x \<noteq> slash) (rev (s @ slash # c)) = slash # rev s"
  by (induction c rule: rev_induct) auto

lemma Dir_root: "Dir [slash] = [slash]"
  by (simp add: Dir_def Clean_def IsAbs_def has_prefix_def abs_path_def cleanNames_def)

lemma Dir_abs_path: "list_all proper cs \<Longrightarrow> proper c \<Longrightarrow> Dir (abs_path (cs @ [c])) = abs_path cs"
proof -
  assume a: "list_all proper cs" "proper c"
  have e: "abs_path (cs @ [c]) = (if cs = [] then [] else abs_path cs) @ slash # c"
    using join_byte_append [of cs "[c]" slash] by (auto simp: abs_path_def)
  have "dropWhile (\<lambda>x. x \<noteq> slash) (rev (abs_path (cs @ [c]))) = slash # rev (if cs = [] then [] else abs_path cs)"
    unfolding e using a(2) by (intro dropWhile_rev_last) (simp add: proper_def)
  then have d: "Dir (abs_path (cs @ [c])) = Clean ((if cs = [] then [] else abs_path cs) @ [slash])" by (simp add: Dir_def)
  have "namesOf (abs_path cs @ [slash]) = cs"
    using a(1) split_byte_glue [of slash "abs_path cs" "[]"] by (simp add: namesOf_def split_abs_path cleanNames_def foldl_cleanStep_names)
  moreover have "IsAbs (abs_path cs @ [slash])" by (simp add: IsAbs_def abs_path_def has_prefix_def)
  ultimately have "Clean (abs_path cs @ [slash]) = abs_path cs" by (simp add: Clean_abs)
  moreover have "Clean [slash] = abs_path []" by (simp add: Clean_def IsAbs_def has_prefix_def cleanNames_def)
  ultimately show ?thesis using d by auto
qed

lemma Dir_abs: "list_all proper cs \<Longrightarrow> Dir (abs_path cs) = abs_path (butlast cs)"
proof (cases cs rule: rev_cases)
  case Nil
  then show ?thesis by (simp add: abs_path_Nil Dir_root)
next
  case (snoc ds c)
  assume "list_all proper cs"
  then show ?thesis using snoc by (simp add: Dir_abs_path)
qed

section \<open>A path under another\<close>

text \<open>\<^verbatim>\<open>clean == b || strings.HasPrefix(clean, b + "/")\<close>, the check the guards make, is one on names.\<close>

lemma abs_path_under:
  assumes "list_all proper cs" and "list_all proper bs" and "bs \<noteq> []"
  shows "(abs_path cs = abs_path bs \<or> has_prefix (abs_path cs) (abs_path bs @ [slash])) \<longleftrightarrow> (\<exists>r. cs = bs @ r)"
proof
  assume "\<exists>r. cs = bs @ r"
  then obtain r where r: "cs = bs @ r" ..
  then show "abs_path cs = abs_path bs \<or> has_prefix (abs_path cs) (abs_path bs @ [slash])"
    using join_byte_append [of bs r slash] assms(3) by (cases r) (auto simp: abs_path_def has_prefix_iff)
next
  assume "abs_path cs = abs_path bs \<or> has_prefix (abs_path cs) (abs_path bs @ [slash])"
  then consider "cs = bs" | t where "abs_path cs = abs_path bs @ slash # t"
    using assms abs_path_inject by (auto simp: has_prefix_iff)
  then show "\<exists>r. cs = bs @ r"
  proof cases
    case 2
    then have "split_byte slash (abs_path cs) = split_byte slash (abs_path bs) @ split_byte slash t" by (simp add: split_byte_glue)
    then have "(if cs = [] then [[]] else cs) = bs @ split_byte slash t" using assms by (simp add: split_abs_path)
    then show ?thesis using assms(2,3) by (cases bs) (auto simp: proper_def split: if_splits)
  qed auto
qed

end
