(* ===== verification/File_Guard.thy ===== *)
theory File_Guard
  imports Go_Path Job_Output
begin

text \<open>
  The guard on paths that are written: \<^verbatim>\<open>src/internal/feature/files/handler.go\<close>, with the modes and owners of \<^verbatim>\<open>attrs.go\<close>.  The files of the
  host are a map from the names on the way down from the root to what is there (\<open>fsys\<close>), and \<open>kwalk\<close> is how the kernel finds the place of a path:
  name by name, following the links on the way (and the last one when \<open>fol\<close> is set), at most forty of them.  \<^verbatim>\<open>os.Lstat\<close>, \<^verbatim>\<open>os.Stat\<close>,
  \<^verbatim>\<open>os.Readlink\<close> and \<^verbatim>\<open>filepath.EvalSymlinks\<close> are read off it.  The panel runs as root, so looking an entry up is never refused.
\<close>

section \<open>The host's files\<close>

datatype inode = Regular (ino_content: string) (ino_mode: nat) (ino_uid: int) (ino_gid: int) | Directory | Symlink string | Special

type_synonym fsys = "string list \<rightharpoonup> inode"

text \<open>What a walk finds: the place, or the directory and the name that is missing in it with the names left, or an error.\<close>

datatype place = At "string list" | Missing "string list" string "string list" | NotDir | LinkLoop

definition maxLinks :: nat where "maxLinks = 40"

definition link_start :: "string \<Rightarrow> string list \<Rightarrow> string list" where
  "link_start target cur = (if IsAbs target then [] else cur)"

function kwalk :: "fsys \<Rightarrow> bool \<Rightarrow> nat \<Rightarrow> string list \<Rightarrow> string list \<Rightarrow> place" where
  "kwalk fs fol h cur [] = At cur"
| "kwalk fs fol h cur (c # rest) =
     (if c = [] \<or> c = ''.'' then kwalk fs fol h cur rest
      else if c = ''..'' then kwalk fs fol h (butlast cur) rest
      else case fs (cur @ [c]) of
        None \<Rightarrow> Missing cur c rest
      | Some Directory \<Rightarrow> kwalk fs fol h (cur @ [c]) rest
      | Some (Symlink target) \<Rightarrow>
          if rest = [] \<and> \<not> fol then At (cur @ [c])
          else if h \<ge> maxLinks then LinkLoop
          else kwalk fs fol (Suc h) (link_start target cur) (split_byte slash target @ rest)
      | Some _ \<Rightarrow> if rest = [] then At (cur @ [c]) else NotDir)"
  by pat_completeness auto
termination by (relation "measures [\<lambda>(fs, f, h, cur, rest). maxLinks - h, \<lambda>(fs, f, h, cur, rest). length rest]") auto

definition fs_wf :: "fsys \<Rightarrow> bool" where
  "fs_wf fs \<longleftrightarrow> fs [] = Some Directory \<and> (\<forall>cs c. fs (cs @ [c]) \<noteq> None \<longrightarrow> fs cs = Some Directory \<and> proper c)"

definition find_place :: "fsys \<Rightarrow> bool \<Rightarrow> string \<Rightarrow> place" where
  "find_place fs fol p = kwalk fs fol 0 [] (split_byte slash p)"

definition lstat :: "fsys \<Rightarrow> string \<Rightarrow> inode option" where
  "lstat fs p = (case find_place fs False p of At d \<Rightarrow> fs d | _ \<Rightarrow> None)"

definition readlink :: "fsys \<Rightarrow> string \<Rightarrow> string option" where
  "readlink fs p = (case lstat fs p of Some (Symlink t) \<Rightarrow> Some t | _ \<Rightarrow> None)"

definition maxEvalLinks :: nat where "maxEvalLinks = 255"

text \<open>\<^verbatim>\<open>filepath.EvalSymlinks\<close> of an absolute path.  A \<^verbatim>\<open>..\<close> right under the root is kept, as the library does, and cleaned away at the end.\<close>

function evalWalk :: "fsys \<Rightarrow> nat \<Rightarrow> string list \<Rightarrow> string list \<Rightarrow> string option" where
  "evalWalk fs n dest [] = Some (Clean (abs_path dest))"
| "evalWalk fs n dest (c # rest) =
     (if c = [] \<or> c = ''.'' then evalWalk fs n dest rest
      else if c = ''..'' then evalWalk fs n (if length dest \<le> 1 \<or> List.last dest = ''..'' then dest @ [''..''] else butlast dest) rest
      else case lstat fs (abs_path (dest @ [c])) of
        None \<Rightarrow> None
      | Some (Symlink target) \<Rightarrow>
          if n \<ge> maxEvalLinks then None else evalWalk fs (Suc n) (link_start target dest) (split_byte slash target @ rest)
      | Some i \<Rightarrow> if i \<noteq> Directory \<and> rest \<noteq> [] then None else evalWalk fs n (dest @ [c]) rest)"
  by pat_completeness auto
termination by (relation "measures [\<lambda>(fs, n, dest, rest). maxEvalLinks - n, \<lambda>(fs, n, dest, rest). length rest]") auto

definition evalSymlinks :: "fsys \<Rightarrow> string \<Rightarrow> string option" where
  "evalSymlinks fs p = evalWalk fs 0 [] (split_byte slash p)"

declare kwalk.simps(2) [simp del] evalWalk.simps(2) [simp del]

section \<open>The guard\<close>

definition validatePath :: "string \<Rightarrow> string option" where
  "validatePath p =
     (if p = [] then Some ''path is required''
      else if \<not> IsAbs p then Some ''path must be absolute''
      else let cleaned = Clean p; trimmed = trim_right_byte slash p; trimmed = (if trimmed = [] then [slash] else trimmed)
      in if cleaned \<noteq> trimmed then Some ''path contains traversal or redundant segments'' else None)"

definition readProtectedPaths :: "string list" where
  "readProtectedPaths =
     [''/etc/shadow'', ''/etc/gshadow'', ''/etc/sudoers'', ''/etc/sfpanel/config.yaml'',
      ''/var/lib/sfpanel/sfpanel.db'', ''/var/lib/sfpanel/sfpanel.db-wal'', ''/var/lib/sfpanel/sfpanel.db-shm'']"

definition writeProtectedPrefixes :: "string list" where
  "writeProtectedPrefixes = [''/etc/sfpanel/'', ''/root/.ssh/'', ''/etc/sudoers.d/'']"

definition isWriteProtectedPath :: "string \<Rightarrow> bool" where
  "isWriteProtectedPath p =
     (let cleaned = Clean p
      in cleaned \<in> set readProtectedPaths \<or>
         list_ex (\<lambda>prefix. cleaned = trim_suffix prefix [slash] \<or> has_prefix cleaned prefix) writeProtectedPrefixes)"

definition maxWriteLinkHops :: nat where "maxWriteLinkHops = 40"

function resolveLoop :: "fsys \<Rightarrow> nat \<Rightarrow> string \<Rightarrow> string list \<Rightarrow> string + string" where
  "resolveLoop fs hops cur [] = Inr cur"
| "resolveLoop fs hops cur (name # rest) =
     (if name = [] \<or> name = ''.'' then resolveLoop fs hops cur rest
      else if name = ''..'' then resolveLoop fs hops (Dir cur) rest
      else case lstat fs (Join [cur, name]) of
        None \<Rightarrow> Inr (Join (Join [cur, name] # rest))
      | Some (Symlink _) \<Rightarrow>
          if Suc hops > maxWriteLinkHops then Inl ''too many levels of symbolic links''
          else (case readlink fs (Join [cur, name]) of
              None \<Rightarrow> Inl (''read the symbolic link '' @ Join [cur, name] @ '': readlink '' @ Join [cur, name] @ '': invalid argument'')
            | Some target \<Rightarrow> resolveLoop fs (Suc hops) (if IsAbs target then [slash] else cur) (split_byte slash target @ rest))
      | Some _ \<Rightarrow> resolveLoop fs hops (Join [cur, name]) rest)"
  by pat_completeness auto
termination by (relation "measures [\<lambda>(fs, h, cur, rest). maxWriteLinkHops - h, \<lambda>(fs, h, cur, rest). length rest]") auto

declare resolveLoop.simps(2) [simp del]

definition resolveForWrite :: "fsys \<Rightarrow> string \<Rightarrow> string + string" where
  "resolveForWrite fs p = resolveLoop fs 0 [slash] (split_byte slash (Clean p))"

definition linkTarget :: "fsys \<Rightarrow> string \<Rightarrow> string list" where
  "linkTarget fs p =
     (case readlink fs p of
        None \<Rightarrow> []
      | Some target \<Rightarrow> [Clean (if IsAbs target then target else Join [Dir p, target])])"

definition ValidatePathForWrite :: "fsys \<Rightarrow> string \<Rightarrow> string option" where
  "ValidatePathForWrite fs p =
     (case validatePath p of
        Some err \<Rightarrow> Some err
      | None \<Rightarrow>
          (let candidates = Clean p # (case evalSymlinks fs p of Some resolved \<Rightarrow> [resolved] | None \<Rightarrow> linkTarget fs p)
           in case resolveForWrite fs p of
                Inl err \<Rightarrow> Some err
              | Inr reached \<Rightarrow>
                  if list_ex isWriteProtectedPath (candidates @ [reached])
                  then Some ''this path holds panel credentials and cannot be written through the file API'' else None))"

section \<open>Modes and owners\<close>

definition parseFileMode :: "string \<Rightarrow> string + nat" where
  "parseFileMode raw =
     (if raw = [] then Inl ''mode is required''
      else if length raw > 4 then Inl ''mode must be three or four octal digits''
      else if \<not> list_all is_octal raw then Inl ''mode must be octal, for example 0644''
      else if octal_value raw div 512 \<noteq> 0 then Inl ''only permission bits may be set; setuid, setgid and sticky are not settable here''
      else Inr (octal_value raw))"

text \<open>A name in the host's tables gives a text of digits; \<^verbatim>\<open>Atoi\<close> gives 0 with an error, which the code ignores.\<close>

definition idOf :: "(string \<Rightarrow> string option) \<Rightarrow> string \<Rightarrow> int option" where
  "idOf table ref =
     (case atoi ref of
        Some n \<Rightarrow> Some n
      | None \<Rightarrow> map_option (\<lambda>digits. case atoi digits of Some n \<Rightarrow> n | None \<Rightarrow> 0) (table ref))"

definition resolveOwner :: "(string \<Rightarrow> string option) \<Rightarrow> (string \<Rightarrow> string option) \<Rightarrow> (string \<Rightarrow> string) \<Rightarrow> string \<Rightarrow> string \<Rightarrow> string + (int \<times> int)" where
  "resolveOwner users groups quote userRef groupRef =
     (case (if userRef = [] then Some (- 1) else idOf users userRef) of
        None \<Rightarrow> Inl (''unknown user '' @ quote userRef)
      | Some uid \<Rightarrow>
          (case (if groupRef = [] then Some (- 1) else idOf groups groupRef) of
             None \<Rightarrow> Inl (''unknown group '' @ quote groupRef)
           | Some gid \<Rightarrow> if uid = - 1 \<and> gid = - 1 then Inl ''a user or a group is required'' else Inr (uid, gid)))"

text \<open>What the parser of tasks accepts as a mode, the node accepts, and the other way round.\<close>

lemma parseFileMode_checkFileMode: "checkFileMode raw = None \<longleftrightarrow> (\<exists>m. parseFileMode raw = Inr m)"
  by (simp add: checkFileMode_def parseFileMode_def)

end
