(* ===== verification/File_Safety.thy ===== *)
theory File_Safety
  imports File_Guard
begin

text \<open>
  The guard judges the place a write would reach: \<^verbatim>\<open>resolveForWrite\<close>, which works on texts and asks the host about each name, finds what the
  kernel finds, and a path the guard lets through does not lead to the panel's credentials, whatever links are on the way.
\<close>

section \<open>Well-formed file systems\<close>

lemma wf_parent: "fs_wf fs \<Longrightarrow> fs (cs @ [c]) = Some i \<Longrightarrow> fs cs = Some Directory \<and> proper c"
  by (auto simp: fs_wf_def)

lemma wf_upper: "fs_wf fs \<Longrightarrow> fs (xs @ ys) = Some i \<Longrightarrow> ys \<noteq> [] \<Longrightarrow> fs xs = Some Directory"
proof (induction ys arbitrary: i rule: rev_induct)
  case (snoc y ys)
  then have "fs (xs @ ys) = Some Directory" using wf_parent [of fs "xs @ ys" y] by simp
  then show ?case using snoc.IH [OF snoc.prems(1)] by (cases ys) auto
qed simp

lemma wf_names: "fs_wf fs \<Longrightarrow> fs cs = Some i \<Longrightarrow> list_all proper cs"
proof (induction cs arbitrary: i rule: rev_induct)
  case (snoc c cs)
  then show ?case using wf_parent [OF snoc.prems(1,2)] by auto
qed simp

lemma wf_butlast: "fs_wf fs \<Longrightarrow> fs cs = Some Directory \<Longrightarrow> fs (butlast cs) = Some Directory"
proof (cases cs rule: rev_cases)
  case (snoc ds c)
  assume "fs_wf fs" "fs cs = Some Directory"
  then show ?thesis using wf_parent [of fs ds c] snoc by simp
qed simp

lemma wf_root: "fs_wf fs \<Longrightarrow> fs [] = Some Directory"
  by (simp add: fs_wf_def)

lemma kwalk_skip: "c = [] \<or> c = ''.'' \<Longrightarrow> kwalk fs fol h cur (c # rest) = kwalk fs fol h cur rest"
  unfolding kwalk.simps by (rule if_P)

lemma kwalk_up: "kwalk fs fol h cur (''..'' # rest) = kwalk fs fol h (butlast cur) rest"
  unfolding kwalk.simps by simp

lemma kwalk_name:
  assumes "proper c"
  shows "fs (cur @ [c]) = None \<Longrightarrow> kwalk fs fol h cur (c # rest) = Missing cur c rest"
    and "fs (cur @ [c]) = Some Directory \<Longrightarrow> kwalk fs fol h cur (c # rest) = kwalk fs fol h (cur @ [c]) rest"
    and "fs (cur @ [c]) = Some (Symlink target) \<Longrightarrow> kwalk fs fol h cur (c # rest) =
      (if rest = [] \<and> \<not> fol then At (cur @ [c]) else if h \<ge> maxLinks then LinkLoop
       else kwalk fs fol (Suc h) (link_start target cur) (split_byte slash target @ rest))"
    and "fs (cur @ [c]) = Some (Regular d m u g) \<Longrightarrow> kwalk fs fol h cur (c # rest) = (if rest = [] then At (cur @ [c]) else NotDir)"
    and "fs (cur @ [c]) = Some Special \<Longrightarrow> kwalk fs fol h cur (c # rest) = (if rest = [] then At (cur @ [c]) else NotDir)"
  using assms unfolding kwalk.simps proper_def by simp_all

lemma name_cases:
  assumes "slash \<notin> set c"
  obtains "c = [] \<or> c = ''.''" | "c = ''..''" | "proper c"
  using assms unfolding proper_def by blast

lemma kwalk_down:
  "fs_wf fs \<Longrightarrow> fs (pre @ cs) = Some Directory \<Longrightarrow> kwalk fs fol h pre (cs @ rest) = kwalk fs fol h (pre @ cs) rest"
proof (induction cs arbitrary: pre)
  case (Cons c cs)
  have d: "fs (pre @ [c]) = Some Directory"
    using Cons.prems wf_upper [OF Cons.prems(1), of "pre @ [c]" cs Directory] by (cases cs) auto
  then have "proper c" using wf_parent [OF Cons.prems(1)] by blast
  then show ?case using Cons.IH [of "pre @ [c]"] Cons.prems d by (simp add: kwalk_name)
qed simp

lemma find_place_abs:
  assumes "list_all proper cs"
  shows "find_place fs fol (abs_path cs) = kwalk fs fol 0 [] cs"
  using assms by (simp add: find_place_def split_abs_path kwalk_skip)

lemma lstat_at:
  assumes "fs_wf fs" and "fs cur = Some Directory" and "proper c"
  shows "lstat fs (abs_path (cur @ [c])) = fs (cur @ [c])"
proof -
  have p: "list_all proper (cur @ [c])" using wf_names [OF assms(1,2)] assms(3) by simp
  have "kwalk fs False 0 [] (cur @ [c]) = kwalk fs False 0 cur [c]" using kwalk_down [OF assms(1), of "[]" cur] assms(2) by simp
  then have l: "lstat fs (abs_path (cur @ [c])) = (case kwalk fs False 0 cur [c] of At d \<Rightarrow> fs d | _ \<Rightarrow> None)"
    using find_place_abs [OF p] by (simp add: lstat_def)
  show ?thesis
  proof (cases "fs (cur @ [c])")
    case (Some i)
    then show ?thesis unfolding l using assms(3) by (cases i) (simp_all add: kwalk_name)
  qed (use l assms(3) in \<open>simp add: kwalk_name\<close>)
qed

section \<open>Resolving a path is what the kernel does\<close>

lemma Join_one: "list_all proper cs \<Longrightarrow> Join [abs_path cs] = abs_path cs"
  by (simp add: Join_def abs_path_def Clean_abs_path [unfolded abs_path_def])

lemma Join_rest:
  assumes "list_all proper cs" and "list_all (\<lambda>e. slash \<notin> set e) es"
  shows "Join (abs_path cs # es) = abs_path (cleanNames True (cs @ es))"
  using assms Join_abs [of cs es] by (cases es) (simp_all add: Join_one)

definition resolves :: "place \<Rightarrow> string + string \<Rightarrow> bool" where
  "resolves pl r = (case pl of
     At d \<Rightarrow> r = Inr (abs_path d)
   | Missing d c rest \<Rightarrow> r = Inr (abs_path (cleanNames True (d @ c # rest)))
   | LinkLoop \<Rightarrow> r = Inl ''too many levels of symbolic links''
   | NotDir \<Rightarrow> True)"

lemma resolveLoop_skip: "c = [] \<or> c = ''.'' \<Longrightarrow> resolveLoop fs h cur (c # rest) = resolveLoop fs h cur rest"
  unfolding resolveLoop.simps by (rule if_P)

lemma resolveLoop_up: "resolveLoop fs h cur (''..'' # rest) = resolveLoop fs h (Dir cur) rest"
  unfolding resolveLoop.simps by simp

lemma resolveLoop_name:
  assumes "proper c"
  shows "lstat fs (Join [cur, c]) = None \<Longrightarrow> resolveLoop fs h cur (c # rest) = Inr (Join (Join [cur, c] # rest))"
    and "lstat fs (Join [cur, c]) = Some (Symlink target) \<Longrightarrow> resolveLoop fs h cur (c # rest) =
      (if h \<ge> maxLinks then Inl ''too many levels of symbolic links''
       else resolveLoop fs (Suc h) (if IsAbs target then [slash] else cur) (split_byte slash target @ rest))"
    and "lstat fs (Join [cur, c]) = Some i \<Longrightarrow> \<forall>target. i \<noteq> Symlink target \<Longrightarrow> resolveLoop fs h cur (c # rest) = resolveLoop fs h (Join [cur, c]) rest"
  using assms unfolding resolveLoop.simps proper_def by (auto simp: readlink_def maxWriteLinkHops_def maxLinks_def split: inode.splits)

lemma split_no_slash: "list_all (\<lambda>e. slash \<notin> set e) (split_byte slash t)"
  by (auto simp: list_all_iff dest: split_byte_names)

lemma link_start_dir: "fs_wf fs \<Longrightarrow> fs cur = Some Directory \<Longrightarrow> fs (link_start t cur) = Some Directory"
  by (simp add: link_start_def wf_root)

lemma link_start_path: "(if IsAbs t then [slash] else abs_path cur) = abs_path (link_start t cur)"
  by (simp add: link_start_def abs_path_Nil)

lemma resolveLoop_kwalk:
  assumes "fs_wf fs" and "fs cur = Some Directory" and "list_all (\<lambda>e. slash \<notin> set e) rest"
  shows "resolves (kwalk fs True h cur rest) (resolveLoop fs h (abs_path cur) rest)"
  using assms
proof (induction fs True h cur rest rule: kwalk.induct)
  case (1 fs h cur)
  then show ?case by (simp add: resolves_def)
next
  case (2 fs h cur c rest)
  note wf = \<open>fs_wf fs\<close> and dir = \<open>fs cur = Some Directory\<close>
  have names: "list_all proper cur" using wf dir by (rule wf_names)
  have rest: "list_all (\<lambda>e. slash \<notin> set e) rest" and c: "slash \<notin> set c" using "2.prems"(3) by simp_all
  show ?case
  proof (rule name_cases [OF c], goal_cases)
    case skip: 1
    then show ?thesis using "2.hyps"(1) wf dir rest by (simp add: kwalk_skip resolveLoop_skip)
  next
    case up: 2
    have "fs (butlast cur) = Some Directory" using wf dir by (rule wf_butlast)
    then show ?thesis using "2.hyps"(2) up wf rest names by (simp add: Dir_abs kwalk_up resolveLoop_up)
  next
    case name: 3
    then have j: "Join [abs_path cur, c] = abs_path (cur @ [c])" using names by (simp add: Join_name)
    have l: "lstat fs (abs_path (cur @ [c])) = fs (cur @ [c])" using wf dir name by (rule lstat_at)
    have ne: "\<not> (c = [] \<or> c = ''.'')" "c \<noteq> ''..''" using name by (auto simp: proper_def)
    show ?thesis
    proof (cases "fs (cur @ [c])")
      case None
      then show ?thesis using name j l names rest by (simp add: kwalk_name resolveLoop_name resolves_def Join_rest)
    next
      case (Some i)
      show ?thesis
      proof (cases i)
        case Directory
        then show ?thesis using "2.hyps"(3) [OF ne] Some wf name rest j l by (simp add: kwalk_name resolveLoop_name)
      next
        case (Symlink t)
        have "fs (link_start t cur) = Some Directory" using wf dir by (rule link_start_dir)
        then have "\<not> maxLinks \<le> h \<Longrightarrow> resolves (kwalk fs True (Suc h) (link_start t cur) (split_byte slash t @ rest))
            (resolveLoop fs (Suc h) (abs_path (link_start t cur)) (split_byte slash t @ rest))"
          using "2.hyps"(4) [OF ne] Some Symlink wf rest split_no_slash by simp
        then show ?thesis using name Some Symlink l unfolding j [symmetric]
          by (cases "maxLinks \<le> h") (simp_all only: kwalk_name resolveLoop_name link_start_path if_True if_False simp_thms, simp add: resolves_def)
      qed (use Some name j l in \<open>simp_all add: kwalk_name resolveLoop_name resolves_def\<close>)
    qed
  qed
qed

lemma resolveForWrite_kwalk:
  assumes "fs_wf fs" and "IsAbs p"
  shows "resolves (find_place fs True (Clean p)) (resolveForWrite fs p)"
proof -
  have "resolves (kwalk fs True 0 [] (split_byte slash (Clean p))) (resolveLoop fs 0 (abs_path []) (split_byte slash (Clean p)))"
    using assms(1) wf_root [OF assms(1)] split_no_slash by (rule resolveLoop_kwalk)
  then show ?thesis by (simp add: resolveForWrite_def find_place_def abs_path_Nil)
qed

text \<open>C34: the guard looks where the kernel will.  Following a path name by name, asking the host about each and joining on what is missing, gives the
  place the kernel's own walk reaches, the directories and the name it misses with the rest joined on, or, where the kernel gives up after forty
  links, an error; only where a file stands in the place of a directory, so that nothing can be written, may the two differ.\<close>

theorem resolve_is_kernel_walk:
  assumes "fs_wf fs" and "IsAbs p"
  shows "case find_place fs True (Clean p) of
      At d \<Rightarrow> resolveForWrite fs p = Inr (abs_path d)
    | Missing d c rest \<Rightarrow> resolveForWrite fs p = Inr (abs_path (cleanNames True (d @ c # rest)))
    | LinkLoop \<Rightarrow> resolveForWrite fs p = Inl ''too many levels of symbolic links''
    | NotDir \<Rightarrow> True"
  using resolveForWrite_kwalk [OF assms] unfolding resolves_def .

section \<open>What a walk finds\<close>

lemma kwalk_found:
  assumes "fs_wf fs" and "fs cur = Some Directory" and "list_all (\<lambda>e. slash \<notin> set e) rest"
  shows "(\<forall>d. kwalk fs fol h cur rest = At d \<longrightarrow> fs d \<noteq> None) \<and>
    (\<forall>d c r. kwalk fs fol h cur rest = Missing d c r \<longrightarrow>
       fs d = Some Directory \<and> proper c \<and> fs (d @ [c]) = None \<and> list_all (\<lambda>e. slash \<notin> set e) r)"
  using assms
proof (induction fs fol h cur rest rule: kwalk.induct)
  case (2 fs fol h cur c rest)
  note wf = \<open>fs_wf fs\<close> and dir = \<open>fs cur = Some Directory\<close>
  have rest: "list_all (\<lambda>e. slash \<notin> set e) rest" and c: "slash \<notin> set c" using "2.prems"(3) by simp_all
  show ?case
  proof (rule name_cases [OF c], goal_cases)
    case skip: 1
    then show ?thesis using "2.IH"(1) wf dir rest by (simp add: kwalk_skip)
  next
    case up: 2
    then show ?thesis using "2.IH"(2) wf wf_butlast [OF wf dir] rest by (simp add: kwalk_up)
  next
    case name: 3
    then have ne: "\<not> (c = [] \<or> c = ''.'')" "c \<noteq> ''..''" by (auto simp: proper_def)
    show ?thesis
    proof (cases "fs (cur @ [c])")
      case None
      then show ?thesis using name dir rest by (simp add: kwalk_name)
    next
      case (Some i)
      show ?thesis
      proof (cases i)
        case Directory
        then show ?thesis using "2.IH"(3) [OF ne] Some wf name rest by (simp add: kwalk_name)
      next
        case (Symlink t)
        then show ?thesis using "2.IH"(4) [OF ne] Some wf name rest link_start_dir [OF wf dir, of t] split_no_slash [of t]
          by (simp add: kwalk_name)
      qed (use Some name in \<open>simp_all add: kwalk_name\<close>)
    qed
  qed
qed simp

lemma find_place_found:
  assumes "fs_wf fs"
  shows "find_place fs fol p = At d \<Longrightarrow> fs d \<noteq> None"
    and "find_place fs fol p = Missing d c r \<Longrightarrow>
      fs d = Some Directory \<and> proper c \<and> fs (d @ [c]) = None \<and> list_all (\<lambda>e. slash \<notin> set e) r"
  using kwalk_found [OF assms wf_root [OF assms] split_no_slash, of fol 0 p] by (auto simp: find_place_def)

text \<open>Where a write to \<open>p\<close> lands when the missing directories are made: the place found, or the names left joined on.\<close>

definition lands :: "fsys \<Rightarrow> string \<Rightarrow> string list option" where
  "lands fs p = (case find_place fs True p of
     At d \<Rightarrow> Some d
   | Missing d c rest \<Rightarrow> Some (cleanNames True (d @ c # rest))
   | _ \<Rightarrow> None)"

lemma lands_proper:
  assumes "fs_wf fs" and "lands fs p = Some d"
  shows "list_all proper d"
proof (cases "find_place fs True p")
  case (At e)
  then show ?thesis using assms find_place_found(1) [OF assms(1) At] wf_names [OF assms(1)] by (auto simp: lands_def)
next
  case (Missing e c r)
  note f = find_place_found(2) [OF assms(1) Missing]
  have "list_all proper e" using f wf_names [OF assms(1)] by blast
  then have "list_all (\<lambda>x. slash \<notin> set x) (e @ c # r)" using f by (auto simp: list_all_iff proper_def)
  then show ?thesis using assms(2) Missing cleanNames_proper by (auto simp: lands_def)
qed (use assms(2) in \<open>simp_all add: lands_def\<close>)

lemma resolveForWrite_lands:
  "fs_wf fs \<Longrightarrow> IsAbs p \<Longrightarrow> lands fs (Clean p) = Some d \<Longrightarrow> resolveForWrite fs p = Inr (abs_path d)"
  using resolveForWrite_kwalk [of fs p] by (auto simp: resolves_def lands_def split: place.splits)

section \<open>The panel's credentials\<close>

definition protectedFiles :: "string list list" where
  "protectedFiles =
     [[''etc'', ''shadow''], [''etc'', ''gshadow''], [''etc'', ''sudoers''], [''etc'', ''sfpanel'', ''config.yaml''],
      [''var'', ''lib'', ''sfpanel'', ''sfpanel.db''], [''var'', ''lib'', ''sfpanel'', ''sfpanel.db-wal''],
      [''var'', ''lib'', ''sfpanel'', ''sfpanel.db-shm'']]"

definition protectedTrees :: "string list list" where
  "protectedTrees = [[''etc'', ''sfpanel''], [''root'', ''.ssh''], [''etc'', ''sudoers.d'']]"

definition protectedNames :: "string list \<Rightarrow> bool" where
  "protectedNames ns \<longleftrightarrow> ns \<in> set protectedFiles \<or> list_ex (\<lambda>b. take (length b) ns = b) protectedTrees"

lemma protected_lists:
  "readProtectedPaths = map abs_path protectedFiles"
  "map (\<lambda>p. trim_suffix p [slash]) writeProtectedPrefixes = map abs_path protectedTrees"
  "writeProtectedPrefixes = map (\<lambda>b. abs_path b @ [slash]) protectedTrees"
  by code_simp+

lemma protected_proper: "b \<in> set protectedFiles \<union> set protectedTrees \<Longrightarrow> list_all proper b \<and> b \<noteq> []"
proof -
  have "list_all (\<lambda>b. list_all proper b \<and> b \<noteq> []) (protectedFiles @ protectedTrees)" by code_simp
  then show "b \<in> set protectedFiles \<union> set protectedTrees \<Longrightarrow> list_all proper b \<and> b \<noteq> []" unfolding list_all_iff [of _ "protectedFiles @ protectedTrees"] by auto
qed

lemma take_prefix_iff: "take (length b) ns = b \<longleftrightarrow> (\<exists>r. ns = b @ r)"
  by (metis append_eq_conv_conj append_take_drop_id)

lemma isWriteProtectedPath_names:
  assumes "list_all proper ns"
  shows "isWriteProtectedPath (abs_path ns) \<longleftrightarrow> protectedNames ns"
proof -
  have files: "abs_path ns \<in> set readProtectedPaths \<longleftrightarrow> ns \<in> set protectedFiles"
    unfolding protected_lists(1) using assms protected_proper by (auto simp: abs_path_inject)
  have "trim_suffix (abs_path b @ [slash]) [slash] = abs_path b" for b by (simp add: trim_suffix_def has_suffix_def)
  then have trees: "list_ex (\<lambda>p. abs_path ns = trim_suffix p [slash] \<or> has_prefix (abs_path ns) p) writeProtectedPrefixes
      \<longleftrightarrow> list_ex (\<lambda>b. take (length b) ns = b) protectedTrees"
    unfolding protected_lists(3) using assms protected_proper abs_path_under [of ns]
    by (auto simp: list_ex_iff take_prefix_iff)
  show ?thesis using assms files trees by (simp add: isWriteProtectedPath_def protectedNames_def)
qed

lemma ValidatePathForWrite_IsAbs: "ValidatePathForWrite fs p = None \<Longrightarrow> IsAbs p"
  by (auto simp: ValidatePathForWrite_def validatePath_def split: option.splits if_splits)

lemma guard_judges_landing:
  assumes "fs_wf fs" and "ValidatePathForWrite fs p = None" and "lands fs (Clean p) = Some d"
  shows "\<not> protectedNames d"
proof -
  have a: "IsAbs p" using assms(2) by (rule ValidatePathForWrite_IsAbs)
  have "resolveForWrite fs p = Inr (abs_path d)" using assms(1) a assms(3) by (rule resolveForWrite_lands)
  then have "\<not> isWriteProtectedPath (abs_path d)"
    using assms(2) by (auto simp: ValidatePathForWrite_def Let_def split: option.splits if_splits)
  then show ?thesis using isWriteProtectedPath_names [OF lands_proper [OF assms(1,3)]] by simp
qed

end
