(* ===== verification/File_Runner.thy ===== *)
theory File_Runner
  imports File_Safety Job_Runners
begin

text \<open>
  The runner of file steps: \<^verbatim>\<open>src/internal/feature/taskjob/file.go\<close>.  A run has the host's files, the number of the next call and what it wrote:
  the places it changed with what it put there, in order.  The n-th call may fail (\<open>fe_err\<close>: the error's text and whether it is one of
  permission); what the kernel itself refuses is worded by \<open>fe_text\<close>.  \<^verbatim>\<open>mkdirAll\<close> is a variable of the code too, which the tests replace: it may
  leave any files behind.  On Linux a file's owner is always known, so the code's case of a \<^verbatim>\<open>Sys\<close> that is not a \<^verbatim>\<open>Stat_t\<close> is left out.
\<close>

section \<open>The run of a file step\<close>

datatype fileError = FileError (err_text: string) (err_denied: bool)

record file_env =
  fe_err :: "nat \<Rightarrow> fileError option"
  fe_text :: "place \<Rightarrow> string"
  fe_partial :: "nat \<Rightarrow> nat"
  fe_random :: "nat \<Rightarrow> nat"
  fe_self :: "int \<times> int"
  fe_mkdirAll :: "fsys \<Rightarrow> string \<Rightarrow> fileError option \<times> fsys"
  fe_users :: "string \<Rightarrow> string option"
  fe_groups :: "string \<Rightarrow> string option"
  fe_sanitize :: "string \<Rightarrow> string"
  fe_quote :: "string \<Rightarrow> string"

record file_run =
  fr_fs :: fsys
  fr_tick :: nat
  fr_writes :: "(string list \<times> inode option) list"
  fr_log :: "string list"

definition tried :: "file_env \<Rightarrow> file_run \<Rightarrow> fileError option \<times> file_run" where
  "tried env s = (fe_err env (fr_tick s), s\<lparr>fr_tick := Suc (fr_tick s)\<rparr>)"

definition put :: "string list \<Rightarrow> inode option \<Rightarrow> file_run \<Rightarrow> file_run" where
  "put q i s = s\<lparr>fr_fs := (fr_fs s)(q := i), fr_writes := fr_writes s @ [(q, i)]\<rparr>"

definition maxFileContent :: int where "maxFileContent = 10485760"
definition ErrInvalidPath :: string where "ErrInvalidPath = ''INVALID_PATH''"
definition ErrFileError :: string where "ErrFileError = ''FILE_ERROR''"

definition refusedResult :: "string \<Rightarrow> string \<Rightarrow> job_result" where
  "refusedResult code msg = result JobFailed False None (code @ '': '' @ msg)"

definition fileFailed :: "file_env \<Rightarrow> fileError \<Rightarrow> bool \<Rightarrow> job_result" where
  "fileFailed env err changed =
     result JobFailed changed None ((if err_denied err then ErrPermissionDenied else ErrFileError) @ '': '' @ fe_sanitize env (err_text err))"

section \<open>Calls on files\<close>

text \<open>\<^verbatim>\<open>os.Chown\<close>: an id is read as 32 bits, and the largest means no change.\<close>

definition chownId :: "int \<Rightarrow> int \<Rightarrow> int" where
  "chownId old new = (let w = new mod 2 ^ 32 in if w = 2 ^ 32 - 1 then old else w)"

fun withMode :: "nat \<Rightarrow> inode \<Rightarrow> inode" where
  "withMode m (Regular c _ u g) = Regular c m u g"
| "withMode m i = i"

fun withOwner :: "int \<Rightarrow> int \<Rightarrow> inode \<Rightarrow> inode" where
  "withOwner uid gid (Regular c m u g) = Regular c m (chownId u uid) (chownId g gid)"
| "withOwner uid gid i = i"

text \<open>A call that changes the file at a place, open or named by its path.\<close>

definition changeAt :: "file_env \<Rightarrow> (inode \<Rightarrow> inode) \<Rightarrow> string list \<Rightarrow> file_run \<Rightarrow> fileError option \<times> file_run" where
  "changeAt env f q s =
     (case tried env s of
        (Some e, s) \<Rightarrow> (Some e, s)
      | (None, s) \<Rightarrow> (None, put q (map_option f (fr_fs s q)) s))"

definition changePath :: "file_env \<Rightarrow> (inode \<Rightarrow> inode) \<Rightarrow> string \<Rightarrow> file_run \<Rightarrow> fileError option \<times> file_run" where
  "changePath env f p s =
     (case find_place (fr_fs s) True p of
        At d \<Rightarrow> changeAt env f d s
      | pl \<Rightarrow> (Some (FileError (fe_text env pl) False), s))"

definition tempName :: "file_env \<Rightarrow> string \<Rightarrow> file_run \<Rightarrow> string" where
  "tempName env base s = ''.'' @ base @ ''.sfpanel-'' @ itoa (int (fe_random env (fr_tick s)))"

text \<open>\<^verbatim>\<open>os.CreateTemp\<close>: the name is one that is free, or it gives up.\<close>

definition createTemp :: "file_env \<Rightarrow> string \<Rightarrow> string \<Rightarrow> file_run \<Rightarrow> (fileError + string list) \<times> file_run" where
  "createTemp env dir base s =
     (case tried env s of
        (Some e, s) \<Rightarrow> (Inl e, s)
      | (None, s) \<Rightarrow>
          (case find_place (fr_fs s) True dir of
             At d \<Rightarrow>
               (let q = d @ [tempName env base s]
                in if fr_fs s d \<noteq> Some Directory then (Inl (FileError (fe_text env NotDir) False), s)
                   else if fr_fs s q \<noteq> None then (Inl (FileError (fe_text env (At q)) False), s)
                   else (Inr q, put q (Some (Regular [] 384 (fst (fe_self env)) (snd (fe_self env)))) s))
           | pl \<Rightarrow> (Inl (FileError (fe_text env pl) False), s)))"

definition withContent :: "string \<Rightarrow> inode \<Rightarrow> inode" where
  "withContent c i = (case i of Regular _ m u g \<Rightarrow> Regular c m u g | _ \<Rightarrow> i)"

definition writeContent :: "file_env \<Rightarrow> string list \<Rightarrow> string \<Rightarrow> file_run \<Rightarrow> fileError option \<times> file_run" where
  "writeContent env q content s =
     (case tried env s of
        (Some e, s) \<Rightarrow> (Some e, put q (map_option (withContent (take (fe_partial env (fr_tick s)) content)) (fr_fs s q)) s)
      | (None, s) \<Rightarrow> (None, put q (map_option (withContent content) (fr_fs s q)) s))"

definition removeTemp :: "file_env \<Rightarrow> string list \<Rightarrow> file_run \<Rightarrow> file_run" where
  "removeTemp env q s = (case tried env s of (Some e, s) \<Rightarrow> s | (None, s) \<Rightarrow> put q None s)"

text \<open>The entry \<^verbatim>\<open>os.Rename\<close> replaces: the last name of the path is not followed.\<close>

definition entryOf :: "fsys \<Rightarrow> string \<Rightarrow> place + string list" where
  "entryOf fs p =
     (case find_place fs False p of
        At r \<Rightarrow> if fs r = Some Directory then Inl (At r) else Inr r
      | Missing d c rest \<Rightarrow> if rest = [] then Inr (d @ [c]) else Inl (Missing d c rest)
      | pl \<Rightarrow> Inl pl)"

definition renameTemp :: "file_env \<Rightarrow> string list \<Rightarrow> string \<Rightarrow> file_run \<Rightarrow> fileError option \<times> file_run" where
  "renameTemp env q path s =
     (case tried env s of
        (Some e, s) \<Rightarrow> (Some e, s)
      | (None, s) \<Rightarrow>
          (case entryOf (fr_fs s) path of
             Inl pl \<Rightarrow> (Some (FileError (fe_text env pl) False), s)
           | Inr r \<Rightarrow> (None, put q None (put r (fr_fs s q) s))))"

section \<open>Writing a file\<close>

definition fillTemp :: "file_env \<Rightarrow> string list \<Rightarrow> string \<Rightarrow> nat \<Rightarrow> int \<Rightarrow> int \<Rightarrow> file_run \<Rightarrow> fileError option \<times> file_run" where
  "fillTemp env q content mode uid gid s =
     (case writeContent env q content s of
        (Some e, s) \<Rightarrow> (Some e, s)
      | (None, s) \<Rightarrow>
          (case changeAt env (withMode mode) q s of
             (Some e, s) \<Rightarrow> (Some e, s)
           | (None, s) \<Rightarrow>
               (case (if uid \<ge> 0 \<or> gid \<ge> 0 then changeAt env (withOwner uid gid) q s else (None, s)) of
                  (Some e, s) \<Rightarrow> (Some e, s)
                | (None, s) \<Rightarrow> tried env s)))"

definition writeAtomic :: "file_env \<Rightarrow> string \<Rightarrow> string \<Rightarrow> nat \<Rightarrow> int \<Rightarrow> int \<Rightarrow> file_run \<Rightarrow> fileError option \<times> file_run" where
  "writeAtomic env path content mode uid gid s =
     (case createTemp env (Dir path) (Base path) s of
        (Inl e, s) \<Rightarrow> (Some e, s)
      | (Inr q, s) \<Rightarrow>
          (case fillTemp env q content mode uid gid s of
             (Some e, s) \<Rightarrow> (Some e, removeTemp env q s)
           | (None, s) \<Rightarrow>
               (case tried env s of
                  (Some e, s) \<Rightarrow> (Some e, removeTemp env q s)
                | (None, s) \<Rightarrow>
                    (case renameTemp env q path s of
                       (Some e, s) \<Rightarrow> (Some e, removeTemp env q s)
                     | (None, s) \<Rightarrow> (None, s)))))"

definition setAttrs :: "file_env \<Rightarrow> string \<Rightarrow> bool \<Rightarrow> nat \<Rightarrow> int \<Rightarrow> int \<Rightarrow> file_run \<Rightarrow> job_result \<times> file_run" where
  "setAttrs env path setMode mode uid gid s =
     (case (if setMode then changePath env (withMode mode) path s else (None, s)) of
        (Some e, s) \<Rightarrow> (fileFailed env e False, s)
      | (None, s) \<Rightarrow>
          (case (if uid \<ge> 0 \<or> gid \<ge> 0 then changePath env (withOwner uid gid) path s else (None, s)) of
             (Some e, s) \<Rightarrow> (fileFailed env e setMode, s)
           | (None, s) \<Rightarrow> (result JobSucceeded True None ''mode or owner set'', s)))"

section \<open>The step\<close>

text \<open>\<^verbatim>\<open>holds\<close>: the file is read only when it has the content's size.\<close>

definition holdsContent :: "file_env \<Rightarrow> string \<Rightarrow> string \<Rightarrow> file_run \<Rightarrow> (fileError + bool) \<times> file_run" where
  "holdsContent env have content s =
     (if length have \<noteq> length content then (Inr False, s)
      else (case tried env s of (Some e, s) \<Rightarrow> (Inl e, s) | (None, s) \<Rightarrow> (Inr (have = content), s)))"

definition written :: "file_env \<Rightarrow> string \<Rightarrow> string \<Rightarrow> nat \<Rightarrow> int \<Rightarrow> int \<Rightarrow> file_run \<Rightarrow> job_result \<times> file_run" where
  "written env path content mode uid gid s =
     (case writeAtomic env path content mode uid gid s of
        (Some e, s) \<Rightarrow> (fileFailed env e False, s)
      | (None, s) \<Rightarrow> (result JobSucceeded True None ''written'', s))"

definition stepMode :: "file_step \<Rightarrow> string + (bool \<times> nat)" where
  "stepMode step = (if fs_mode step = [] then Inr (False, 420)
     else (case parseFileMode (fs_mode step) of Inl e \<Rightarrow> Inl e | Inr m \<Rightarrow> Inr (True, m)))"

definition stepOwner :: "file_env \<Rightarrow> file_step \<Rightarrow> string + (int \<times> int)" where
  "stepOwner env step = (if fs_owner step = [] then Inr (- 1, - 1)
     else (case cut_byte (fs_owner step) (CHR '':'') of (u, g, _) \<Rightarrow> resolveOwner (fe_users env) (fe_groups env) (fe_quote env) u g))"

text \<open>The file is there: nothing to do, only its mode or owner, or a new file in its place.\<close>

definition overExisting :: "file_env \<Rightarrow> file_step \<Rightarrow> bool \<Rightarrow> nat \<Rightarrow> int \<Rightarrow> int \<Rightarrow> string \<times> nat \<times> int \<times> int \<Rightarrow> file_run \<Rightarrow> job_result \<times> file_run" where
  "overExisting env step setMode mode uid gid st s =
     (case st of (have, perm, fuid, fgid) \<Rightarrow>
        (case holdsContent env have (fs_content step) s of
           (Inl e, s) \<Rightarrow> (fileFailed env e False, s)
         | (Inr same, s) \<Rightarrow>
             (let path = Clean (fs_path step);
                  modeOK = (\<not> setMode \<or> perm mod 512 = mode);
                  ownerOK = ((uid < 0 \<or> fuid = uid) \<and> (gid < 0 \<or> fgid = gid))
              in if same \<and> modeOK \<and> ownerOK then (result JobSucceeded False None ''unchanged'', s)
                 else if same then setAttrs env path setMode mode uid gid s
                 else written env path (fs_content step) (if setMode then mode else perm mod 512)
                        (if uid < 0 then fuid else uid) (if gid < 0 then fgid else gid) s)))"

definition newFile :: "file_env \<Rightarrow> file_step \<Rightarrow> nat \<Rightarrow> int \<Rightarrow> int \<Rightarrow> file_run \<Rightarrow> job_result \<times> file_run" where
  "newFile env step mode uid gid s =
     (case fe_mkdirAll env (fr_fs s) (Dir (Clean (fs_path step))) of
        (Some e, fs) \<Rightarrow> (fileFailed env e False, s\<lparr>fr_fs := fs\<rparr>)
      | (None, fs) \<Rightarrow>
          (case ValidatePathForWrite fs (fs_path step) of
             Some msg \<Rightarrow> (refusedResult ErrInvalidPath msg, s\<lparr>fr_fs := fs\<rparr>)
           | None \<Rightarrow> written env (Clean (fs_path step)) (fs_content step) mode uid gid (s\<lparr>fr_fs := fs\<rparr>)))"

definition writeFileStep :: "file_env \<Rightarrow> file_step \<Rightarrow> file_run \<Rightarrow> job_result \<times> file_run" where
  "writeFileStep env step s =
     (case ValidatePathForWrite (fr_fs s) (fs_path step) of
        Some msg \<Rightarrow> (refusedResult ErrInvalidPath msg, s)
      | None \<Rightarrow>
          if int (length (fs_content step)) > maxFileContent then (refusedResult ErrInvalidRequest ''the content is larger than 10 MiB'', s)
          else (case stepMode step of
            Inl msg \<Rightarrow> (refusedResult ErrInvalidRequest msg, s)
          | Inr (setMode, mode) \<Rightarrow>
              (case stepOwner env step of
                 Inl msg \<Rightarrow> (refusedResult ErrInvalidRequest msg, s)
               | Inr (uid, gid) \<Rightarrow>
                   (case tried env s of
                      (Some e, s) \<Rightarrow> (fileFailed env e False, s)
                    | (None, s) \<Rightarrow>
                        (case find_place (fr_fs s) True (Clean (fs_path step)) of
                           At d \<Rightarrow>
                             (case fr_fs s d of
                                Some (Regular have perm fuid fgid) \<Rightarrow> overExisting env step setMode mode uid gid (have, perm, fuid, fgid) s
                              | _ \<Rightarrow> (refusedResult ErrInvalidPath ''this path is not a regular file'', s))
                         | Missing _ _ _ \<Rightarrow> newFile env step mode uid gid s
                         | pl \<Rightarrow> (fileFailed env (FileError (fe_text env pl) False) False, s))))))"

definition file_Start :: "file_env \<Rightarrow> file_step \<Rightarrow> file_run \<Rightarrow> job_result \<times> file_run" where
  "file_Start env step s =
     (case writeFileStep env step s of
        (res, s) \<Rightarrow> (res, s\<lparr>fr_log := fr_log s @ [fs_path step @ '': '' @ res_summary res]\<rparr>))"

definition file_Check :: "fsys \<Rightarrow> file_step \<Rightarrow> check_verdict" where
  "file_Check fs step =
     (case ValidatePathForWrite fs (fs_path step) of
        Some msg \<Rightarrow> \<lparr>cv_step = 0, cv_refused = True, cv_code = ErrInvalidPath, cv_reason = msg, cv_needs_confirm = False\<rparr>
      | None \<Rightarrow> \<lparr>cv_step = 0, cv_refused = False, cv_code = [], cv_reason = [], cv_needs_confirm = False\<rparr>)"

end
