(* ===== verification/File_Writes.thy ===== *)
theory File_Writes
  imports File_Runner
begin

text \<open>
  How a file step changes the host: the writes of a run in order, the walks they leave alone, and the three outcomes of \<^verbatim>\<open>writeAtomic\<close>.
\<close>

section \<open>Walks that a change does not disturb\<close>

definition dirlike :: "inode option \<Rightarrow> bool" where
  "dirlike i \<longleftrightarrow> i = Some Directory \<or> (\<exists>t. i = Some (Symlink t))"

definition filelike :: "inode option \<Rightarrow> bool" where
  "filelike i \<longleftrightarrow> i \<noteq> None \<and> \<not> dirlike i"

lemma filelike_iff: "filelike i \<longleftrightarrow> i = Some Special \<or> (\<exists>c m u g. i = Some (Regular c m u g))"
  unfolding filelike_def dirlike_def by (cases i; cases "the i") auto

lemma kwalk_filelike:
  assumes "proper c" and "filelike (fs (cur @ [c]))"
  shows "kwalk fs fol h cur (c # rest) = (if rest = [] then At (cur @ [c]) else NotDir)"
  using assms by (auto simp: filelike_iff kwalk_name)

lemma kwalk_stable:
  assumes "kwalk fs True h cur xs = At d" and "list_all (\<lambda>e. slash \<notin> set e) xs"
    and "\<forall>q. dirlike (fs q) \<longrightarrow> fs' q = fs q" and "dirlike (fs d) \<or> filelike (fs' d)"
  shows "kwalk fs' True h cur xs = At d"
  using assms
proof (induction fs True h cur xs rule: kwalk.induct)
  case (2 fs h cur c rest)
  have rest: "list_all (\<lambda>e. slash \<notin> set e) rest" and c: "slash \<notin> set c" using "2.prems"(2) by simp_all
  show ?case
  proof (rule name_cases [OF c], goal_cases)
    case skip: 1
    then show ?thesis using "2.hyps"(1) "2.prems" rest by (simp add: kwalk_skip)
  next
    case up: 2
    then show ?thesis using "2.hyps"(2) "2.prems" rest by (simp add: kwalk_up)
  next
    case name: 3
    then have ne: "\<not> (c = [] \<or> c = ''.'')" "c \<noteq> ''..''" by (auto simp: proper_def)
    show ?thesis
    proof (cases "fs (cur @ [c])")
      case None
      then show ?thesis using "2.prems"(1) name by (simp add: kwalk_name)
    next
      case (Some i)
      show ?thesis
      proof (cases i)
        case Directory
        then have "fs' (cur @ [c]) = Some Directory" using "2.prems"(3) Some by (simp add: dirlike_def)
        then show ?thesis using "2.hyps"(3) [OF ne] Some Directory "2.prems" name rest by (simp add: kwalk_name)
      next
        case (Symlink t)
        then have l: "fs' (cur @ [c]) = Some (Symlink t)" using "2.prems"(3) Some by (simp add: dirlike_def)
        show ?thesis using "2.hyps"(4) [OF ne] Some Symlink "2.prems" name rest l split_no_slash [of t]
          by (simp add: kwalk_name split: if_splits)
      qed (use Some name "2.prems"(1,4) in \<open>auto simp: kwalk_name kwalk_filelike dirlike_def split: if_splits\<close>)
    qed
  qed
qed simp

lemma kwalk_split:
  assumes "kwalk fs True h cur xs = At d" and "list_all (\<lambda>e. slash \<notin> set e) xs" and "fs d = Some Directory"
  shows "\<exists>h'. kwalk fs fol h cur (xs @ [c]) = kwalk fs fol h' d [c]"
  using assms
proof (induction fs True h cur xs rule: kwalk.induct)
  case (2 fs h cur x rest)
  have rest: "list_all (\<lambda>e. slash \<notin> set e) rest" and x: "slash \<notin> set x" using "2.prems"(2) by simp_all
  show ?case
  proof (rule name_cases [OF x], goal_cases)
    case skip: 1
    then show ?thesis using "2.hyps"(1) "2.prems" rest by (simp add: kwalk_skip)
  next
    case up: 2
    then show ?thesis using "2.hyps"(2) "2.prems" rest by (simp add: kwalk_up)
  next
    case name: 3
    then have ne: "\<not> (x = [] \<or> x = ''.'')" "x \<noteq> ''..''" by (auto simp: proper_def)
    show ?thesis
    proof (cases "fs (cur @ [x])")
      case None
      then show ?thesis using "2.prems"(1) name by (simp add: kwalk_name)
    next
      case (Some i)
      show ?thesis
      proof (cases i)
        case Directory
        then show ?thesis using "2.hyps"(3) [OF ne] Some "2.prems" name rest by (simp add: kwalk_name)
      next
        case (Symlink t)
        then show ?thesis using "2.hyps"(4) [OF ne] Some "2.prems" name rest split_no_slash [of t]
          by (simp add: kwalk_name split: if_splits)
      qed (use Some name "2.prems" in \<open>auto simp: kwalk_name split: if_splits\<close>)
    qed
  qed
qed auto

section \<open>What a run wrote\<close>

definition replay :: "fsys \<Rightarrow> (string list \<times> inode option) list \<Rightarrow> fsys" where
  "replay fs ws = foldl (\<lambda>fs (q, i). fs(q := i)) fs ws"

lemma replay_simps [simp]:
  "replay fs [] = fs" "replay fs ((q, i) # ws) = replay (fs(q := i)) ws" "replay fs (vs @ ws) = replay (replay fs vs) ws"
  by (simp_all add: replay_def)

text \<open>From \<open>s\<close> to \<open>s'\<close> the run changed files by writes that all satisfy \<open>P\<close>.\<close>

definition wrote :: "(string list \<Rightarrow> inode option \<Rightarrow> bool) \<Rightarrow> file_run \<Rightarrow> file_run \<Rightarrow> bool" where
  "wrote P s s' \<longleftrightarrow> (\<exists>ws. fr_writes s' = fr_writes s @ ws \<and> fr_fs s' = replay (fr_fs s) ws \<and> list_all (\<lambda>(q, i). P q i) ws)"

lemma wrote_none: "fr_writes s' = fr_writes s \<Longrightarrow> fr_fs s' = fr_fs s \<Longrightarrow> wrote P s s'"
  unfolding wrote_def by (intro exI [of _ "[]"]) simp

lemma wrote_put: "P q i \<Longrightarrow> wrote P s (put q i s)"
  unfolding wrote_def put_def by (intro exI [of _ "[(q, i)]"]) simp

lemma wrote_trans: "wrote P s t \<Longrightarrow> wrote P t u \<Longrightarrow> wrote P s u"
proof -
  assume "wrote P s t" "wrote P t u"
  then obtain ws vs where "fr_writes t = fr_writes s @ ws" "fr_fs t = replay (fr_fs s) ws" "list_all (\<lambda>(q, i). P q i) ws"
    "fr_writes u = fr_writes t @ vs" "fr_fs u = replay (fr_fs t) vs" "list_all (\<lambda>(q, i). P q i) vs" unfolding wrote_def by blast
  then show ?thesis unfolding wrote_def by (intro exI [of _ "ws @ vs"]) simp
qed

lemma wrote_mono: "wrote P s t \<Longrightarrow> (\<And>q i. P q i \<Longrightarrow> Q q i) \<Longrightarrow> wrote Q s t"
  unfolding wrote_def list_all_iff by fast

lemma wrote_all: "wrote P s t \<Longrightarrow> fr_writes s = [] \<Longrightarrow> (q, i) \<in> set (fr_writes t) \<Longrightarrow> P q i"
  unfolding wrote_def by (auto simp: list_all_iff)

lemma replay_at: "list_all (\<lambda>(q, i). q = r \<longrightarrow> i = x) ws \<Longrightarrow> replay fs ws r \<in> {fs r, x}"
proof (induction ws arbitrary: fs)
  case (Cons w ws)
  obtain q i where w: "w = (q, i)" by fastforce
  then have "replay fs (w # ws) r \<in> {(fs(q := i)) r, x}" using Cons.IH [of "fs(q := i)"] Cons.prems by (simp del: fun_upd_apply)
  then show ?case using Cons.prems w by (auto split: if_splits)
qed simp

lemma wrote_keeps: "wrote P s t \<Longrightarrow> (\<And>i. \<not> P r i) \<Longrightarrow> fr_fs t r = fr_fs s r"
proof -
  assume "wrote P s t" and no: "\<And>i. \<not> P r i"
  then obtain ws where t: "fr_fs t = replay (fr_fs s) ws" and "list_all (\<lambda>(q, i). P q i) ws" unfolding wrote_def by blast
  then have "list_all (\<lambda>(q, i). q = r \<longrightarrow> i = fr_fs s r) ws" using no by (auto simp: list_all_iff)
  then show ?thesis using replay_at [of r "fr_fs s r" ws "fr_fs s"] t by simp
qed

lemma tried_frame [simp]: "fr_fs (snd (tried env s)) = fr_fs s" "fr_writes (snd (tried env s)) = fr_writes s"
  by (simp_all add: tried_def)

lemma tried_cases:
  "tried env s = (e, s') \<Longrightarrow> fr_fs s' = fr_fs s \<and> fr_writes s' = fr_writes s"
  by (auto simp: tried_def)

lemma wrote_tried: "tried env s = (e, s') \<Longrightarrow> wrote P s s'"
  using tried_cases by (intro wrote_none) auto

lemma put_frame [simp]: "fr_fs (put q i s) = (fr_fs s)(q := i)" "fr_writes (put q i s) = fr_writes s @ [(q, i)]"
  by (simp_all add: put_def)

section \<open>The temporary file\<close>

definition newOwner :: "file_env \<Rightarrow> int \<Rightarrow> int \<Rightarrow> int \<times> int" where
  "newOwner env uid gid = (if uid \<ge> 0 \<or> gid \<ge> 0 then (chownId (fst (fe_self env)) uid, chownId (snd (fe_self env)) gid) else fe_self env)"

definition newInode :: "file_env \<Rightarrow> string \<Rightarrow> nat \<Rightarrow> int \<Rightarrow> int \<Rightarrow> inode" where
  "newInode env content mode uid gid = Regular content mode (fst (newOwner env uid gid)) (snd (newOwner env uid gid))"

definition tempOf :: "string \<Rightarrow> nat \<Rightarrow> string" where
  "tempOf c n = ''.'' @ c @ ''.sfpanel-'' @ itoa (int n)"

lemma tempOf_other: "tempOf c n \<noteq> c"
proof
  assume "tempOf c n = c"
  then have "length (tempOf c n) = length c" by simp
  then show False by (simp add: tempOf_def)
qed

lemma tempName_tempOf: "tempName env base s = tempOf base (fe_random env (fr_tick s))"
  by (simp add: tempName_def tempOf_def)

lemma createTemp_cases:
  assumes "createTemp env dir base s = (x, s')"
  shows "(\<exists>e. x = Inl e \<and> fr_fs s' = fr_fs s \<and> fr_writes s' = fr_writes s) \<or>
    (\<exists>d n. x = Inr (d @ [tempOf base n]) \<and> find_place (fr_fs s) True dir = At d \<and> fr_fs s d = Some Directory \<and>
       fr_fs s (d @ [tempOf base n]) = None \<and>
       fr_fs s' = (fr_fs s)(d @ [tempOf base n] \<mapsto> Regular [] 384 (fst (fe_self env)) (snd (fe_self env))) \<and>
       fr_writes s' = fr_writes s @ [(d @ [tempOf base n], Some (Regular [] 384 (fst (fe_self env)) (snd (fe_self env))))])"
  using assms unfolding createTemp_def tempName_tempOf Let_def
  by (auto simp: tried_def split: option.splits place.splits if_splits)

lemma changeAt_cases:
  assumes "changeAt env f q s = (e, s')"
  shows "(e \<noteq> None \<and> fr_fs s' = fr_fs s \<and> fr_writes s' = fr_writes s) \<or>
    (e = None \<and> fr_fs s' = (fr_fs s)(q := map_option f (fr_fs s q)) \<and> fr_writes s' = fr_writes s @ [(q, map_option f (fr_fs s q))])"
  using assms unfolding changeAt_def by (auto simp: tried_def split: option.splits)

lemma writeContent_cases:
  assumes "writeContent env q content s = (e, s')" and "fr_fs s q = Some (Regular x m u g)"
  shows "\<exists>y. fr_fs s' = (fr_fs s)(q \<mapsto> Regular y m u g) \<and> fr_writes s' = fr_writes s @ [(q, Some (Regular y m u g))] \<and> (e = None \<longrightarrow> y = content)"
  using assms unfolding writeContent_def by (auto simp: tried_def withContent_def split: option.splits)

lemma wrote_step:
  "fr_fs t = (fr_fs s)(q := i) \<Longrightarrow> fr_writes t = fr_writes s @ [(q, i)] \<Longrightarrow> P q i \<Longrightarrow> wrote P s t"
  unfolding wrote_def by (intro exI [of _ "[(q, i)]"]) simp

lemma changeAt_temp:
  assumes "changeAt env f q s = (e, s')" and "fr_fs s q = Some (Regular x m u g)" and "\<exists>m' u' g'. f (Regular x m u g) = Regular x m' u' g'"
  shows "wrote (\<lambda>p i. p = q \<and> filelike i) s s' \<and> (e = None \<longrightarrow> fr_fs s' q = Some (f (Regular x m u g)))"
  using changeAt_cases [OF assms(1)]
proof
  assume a: "e \<noteq> None \<and> fr_fs s' = fr_fs s \<and> fr_writes s' = fr_writes s"
  then show ?thesis by (auto intro: wrote_none)
next
  assume a: "e = None \<and> fr_fs s' = (fr_fs s)(q := map_option f (fr_fs s q)) \<and> fr_writes s' = fr_writes s @ [(q, map_option f (fr_fs s q))]"
  have "wrote (\<lambda>p i. p = q \<and> filelike i) s s'"
    by (rule wrote_step [of s' s q "Some (f (Regular x m u g))"]) (use a assms(2,3) in \<open>auto simp: filelike_iff\<close>)
  then show ?thesis using a assms(2) by simp
qed

lemma fillTemp_spec:
  assumes "fillTemp env q content mode uid gid s = (e, s')" and "fr_fs s q = Some (Regular [] 384 (fst (fe_self env)) (snd (fe_self env)))"
  shows "wrote (\<lambda>p i. p = q \<and> filelike i) s s' \<and> (e = None \<longrightarrow> fr_fs s' q = Some (newInode env content mode uid gid))"
proof -
  let ?P = "\<lambda>p i. p = q \<and> filelike i"
  obtain e1 s1 where 1: "writeContent env q content s = (e1, s1)" by fastforce
  obtain y where y: "fr_fs s1 = (fr_fs s)(q \<mapsto> Regular y 384 (fst (fe_self env)) (snd (fe_self env)))"
    "fr_writes s1 = fr_writes s @ [(q, Some (Regular y 384 (fst (fe_self env)) (snd (fe_self env))))]" "e1 = None \<longrightarrow> y = content"
    using writeContent_cases [OF 1 assms(2)] by blast
  have w1: "wrote ?P s s1" by (rule wrote_step [OF y(1,2)]) (simp add: filelike_iff)
  obtain e2 s2 where 2: "changeAt env (withMode mode) q s1 = (e2, s2)" by fastforce
  have c2: "wrote ?P s1 s2 \<and> (e2 = None \<longrightarrow> fr_fs s2 q = Some (Regular y mode (fst (fe_self env)) (snd (fe_self env))))"
    using changeAt_temp [OF 2, of y 384 "fst (fe_self env)" "snd (fe_self env)"] y(1) by simp
  define r where "r = (if uid \<ge> 0 \<or> gid \<ge> 0 then changeAt env (withOwner uid gid) q s2 else (None, s2))"
  obtain e3 s3 where 3: "r = (e3, s3)" by fastforce
  have c3: "wrote ?P s2 s3 \<and> (e3 = None \<longrightarrow> fr_fs s3 q = Some (newInode env y mode uid gid))" if "e2 = None"
  proof (cases "uid \<ge> 0 \<or> gid \<ge> 0")
    case True
    then have "changeAt env (withOwner uid gid) q s2 = (e3, s3)" using 3 by (simp add: r_def)
    from changeAt_temp [OF this, of y mode "fst (fe_self env)" "snd (fe_self env)"] show ?thesis
      using c2 that True by (simp add: newInode_def newOwner_def)
  next
    case False
    then show ?thesis using 3 c2 that by (simp add: r_def newInode_def newOwner_def wrote_none)
  qed
  have f: "(e, s') = (case e1 of Some x \<Rightarrow> (Some x, s1) | None \<Rightarrow> (case e2 of Some x \<Rightarrow> (Some x, s2) | None \<Rightarrow> (case e3 of Some x \<Rightarrow> (Some x, s3) | None \<Rightarrow> tried env s3)))"
    using assms(1) 1 2 3 unfolding fillTemp_def r_def by (auto split: option.splits)
  show ?thesis
  proof (cases "e1 = None \<and> e2 = None \<and> e3 = None")
    case True
    then have t: "tried env s3 = (e, s')" using f by simp
    have "wrote ?P s s'" by (intro wrote_trans [OF w1] wrote_trans [OF conjunct1 [OF c2]] wrote_trans [OF conjunct1 [OF c3]] wrote_tried [OF t]) (use True in simp)
    then show ?thesis using c3 y(3) True tried_cases [OF t] by simp
  next
    case False
    then consider x where "e1 = Some x" | x where "e1 = None" "e2 = Some x" | x where "e1 = None" "e2 = None" "e3 = Some x" by fastforce
    then show ?thesis
      by cases (use f w1 wrote_trans [OF w1 conjunct1 [OF c2]] wrote_trans [OF wrote_trans [OF w1 conjunct1 [OF c2]] conjunct1 [OF c3]] in auto)
  qed
qed

section \<open>Replacing a file\<close>

lemma abs_path_snoc: "abs_path (ds @ [c]) = (if ds = [] then [] else abs_path ds) @ slash # c"
  using join_byte_append [of ds "[c]" slash] by (auto simp: abs_path_def)

lemma Base_abs_path:
  assumes "proper c"
  shows "Base (abs_path (ds @ [c])) = c"
proof -
  have c: "c \<noteq> []" "slash \<notin> set c" using assms by (auto simp: proper_def)
  then have "hd (rev c) \<noteq> slash" using hd_in_set [of "rev c"] by auto
  then have "trim_right_byte slash (abs_path (ds @ [c])) = abs_path (ds @ [c])"
    using c unfolding abs_path_snoc trim_right_byte_def by (cases "rev c") (auto simp: rev_swap)
  moreover have "takeWhile (\<lambda>x. x \<noteq> slash) (rev c @ slash # r) = rev c" for r
    using c(2) by (intro takeWhile_tail [THEN trans]) auto
  ultimately show ?thesis using c by (auto simp: Base_def Let_def abs_path_snoc)
qed

lemma find_last:
  assumes "list_all proper ds" and "proper c" and "find_place fs True (abs_path ds) = At d" and "fs d = Some Directory"
    and "\<forall>q. dirlike (fs q) \<longrightarrow> fs' q = fs q"
  shows "\<exists>h. find_place fs' fol (abs_path (ds @ [c])) = kwalk fs' fol h d [c]"
proof -
  have ns: "list_all (\<lambda>e. slash \<notin> set e) ds" using assms(1) by (auto simp: list_all_iff proper_def)
  have "kwalk fs True 0 [] ds = At d" using assms(1,3) by (simp add: find_place_abs)
  then have "kwalk fs' True 0 [] ds = At d" by (rule kwalk_stable) (use ns assms(4,5) in \<open>auto simp: dirlike_def\<close>)
  moreover have "fs' d = Some Directory" using assms(4,5) by (simp add: dirlike_def)
  ultimately obtain h where "kwalk fs' fol 0 [] (ds @ [c]) = kwalk fs' fol h d [c]" using kwalk_split [OF _ ns] by blast
  then show ?thesis using assms(1,2) by (auto simp: find_place_abs)
qed

text \<open>What is found at the last name, by what is there.\<close>

lemma kwalk_last:
  assumes "proper c"
  shows "(\<forall>t. fs (d @ [c]) = Some (Symlink t) \<longrightarrow> \<not> fol) \<Longrightarrow>
    kwalk fs fol h d [c] = (if fs (d @ [c]) = None then Missing d c [] else At (d @ [c]))"
proof (cases "fs (d @ [c])")
  case (Some i)
  assume "\<forall>t. fs (d @ [c]) = Some (Symlink t) \<longrightarrow> \<not> fol"
  then show ?thesis using Some assms by (cases i) (auto simp: kwalk_name)
qed (use assms in \<open>simp add: kwalk_name\<close>)

lemma entryOf_place:
  assumes "list_all proper ds" and "proper c" and "find_place fs True (abs_path ds) = At d" and "fs d = Some Directory"
    and "\<forall>q. dirlike (fs q) \<longrightarrow> fs' q = fs q"
  shows "entryOf fs' (abs_path (ds @ [c])) = (if fs' (d @ [c]) = Some Directory then Inl (At (d @ [c])) else Inr (d @ [c]))"
  using find_last [OF assms, of False] kwalk_last [OF assms(2), of fs' d False] by (auto simp: entryOf_def)

lemma lstat_entry:
  assumes "list_all proper ds" and "proper c" and "find_place fs True (abs_path ds) = At d" and "fs d = Some Directory"
  shows "lstat fs (abs_path (ds @ [c])) = fs (d @ [c])"
  using find_last [OF assms, of fs False] kwalk_last [OF assms(2), of fs d False] by (auto simp: lstat_def)

lemma removeTemp_wrote: "wrote (\<lambda>p i. p = q) s (removeTemp env q s)"
  unfolding removeTemp_def by (auto simp: tried_def split: option.splits intro: wrote_none wrote_step [of _ s q None])

text \<open>The three outcomes of \<^verbatim>\<open>writeAtomic\<close>: no temporary file was made, it was made and taken back, or it took the file's place.\<close>

inductive replaced :: "string list \<Rightarrow> string \<Rightarrow> inode \<Rightarrow> file_run \<Rightarrow> fileError option \<times> file_run \<Rightarrow> bool" where
  not_made: "fr_fs s' = fr_fs s \<Longrightarrow> fr_writes s' = fr_writes s \<Longrightarrow> replaced ds c new s (Some e, s')"
| taken_back: "find_place (fr_fs s) True (abs_path ds) = At d \<Longrightarrow> fr_fs s d = Some Directory \<Longrightarrow> fr_fs s (d @ [tempOf c n]) = None \<Longrightarrow>
    wrote (\<lambda>p i. p = d @ [tempOf c n]) s s' \<Longrightarrow> replaced ds c new s (Some e, s')"
| took_place: "find_place (fr_fs s) True (abs_path ds) = At d \<Longrightarrow> fr_fs s d = Some Directory \<Longrightarrow> fr_fs s (d @ [tempOf c n]) = None \<Longrightarrow>
    wrote (\<lambda>p i. p = d @ [tempOf c n]) s t \<Longrightarrow> fr_fs s (d @ [c]) \<noteq> Some Directory \<Longrightarrow>
    fr_writes s' = fr_writes t @ [(d @ [c], Some new), (d @ [tempOf c n], None)] \<Longrightarrow>
    fr_fs s' = (fr_fs t)(d @ [c] \<mapsto> new, d @ [tempOf c n] := None) \<Longrightarrow> replaced ds c new s (None, s')"

lemma writeAtomic_replaced:
  assumes "list_all proper ds" and "proper c"
  shows "replaced ds c (newInode env content mode uid gid) s (writeAtomic env (abs_path (ds @ [c])) content mode uid gid s)"
proof -
  let ?new = "newInode env content mode uid gid" and ?self = "Regular [] 384 (fst (fe_self env)) (snd (fe_self env))"
  have dir: "Dir (abs_path (ds @ [c])) = abs_path ds" and base: "Base (abs_path (ds @ [c])) = c"
    using assms Dir_abs_path Base_abs_path by simp_all
  obtain x s1 where 1: "createTemp env (abs_path ds) c s = (x, s1)" by fastforce
  show ?thesis
  proof (cases x)
    case (Inl e)
    then show ?thesis using createTemp_cases [OF 1] 1 unfolding writeAtomic_def dir base by (auto intro: not_made)
  next
    case (Inr q)
    then obtain d n where q: "q = d @ [tempOf c n]" and d: "find_place (fr_fs s) True (abs_path ds) = At d" "fr_fs s d = Some Directory"
      and free: "fr_fs s q = None" and fs1: "fr_fs s1 = (fr_fs s)(q \<mapsto> ?self)" and ws1: "fr_writes s1 = fr_writes s @ [(q, Some ?self)]"
      using createTemp_cases [OF 1] by auto
    obtain e2 s2 where 2: "fillTemp env q content mode uid gid s1 = (e2, s2)" by fastforce
    have f2: "wrote (\<lambda>p i. p = q \<and> filelike i) s1 s2" "e2 = None \<Longrightarrow> fr_fs s2 q = Some ?new"
      using fillTemp_spec [OF 2] fs1 by simp_all
    have w1: "wrote (\<lambda>p i. p = q \<and> filelike i) s s1" by (rule wrote_step [OF fs1 ws1]) (simp add: filelike_iff)
    have w2: "wrote (\<lambda>p i. p = q) s s2" by (rule wrote_mono [OF wrote_trans [OF w1 f2(1)]]) simp
    have undo: "replaced ds c ?new s (Some e, removeTemp env q t)" if "wrote (\<lambda>p i. p = q) s t" for e t
      using d free wrote_trans [OF that removeTemp_wrote] unfolding q by (rule taken_back)
    obtain e3 s3 where 3: "tried env s2 = (e3, s3)" by fastforce
    obtain e4 s4 where 4: "tried env s3 = (e4, s4)" by fastforce
    have w4: "wrote (\<lambda>p i. p = q) s s3" "wrote (\<lambda>p i. p = q) s s4"
      using wrote_trans [OF w2 wrote_tried [OF 3]] wrote_trans [OF wrote_trans [OF w2 wrote_tried [OF 3]] wrote_tried [OF 4]] by auto
    have fs4: "fr_fs s4 p = fr_fs s p" if "p \<noteq> q" for p using wrote_keeps [OF w4(2), of p] that by simp
    have new4: "fr_fs s4 q = Some ?new" if "e2 = None" using f2(2) that tried_cases [OF 3] tried_cases [OF 4] by simp
    have "\<forall>p. dirlike (fr_fs s p) \<longrightarrow> fr_fs s4 p = fr_fs s p" using fs4 free by (metis dirlike_def option.distinct(1))
    then have en: "entryOf (fr_fs s4) (abs_path (ds @ [c])) = (if fr_fs s (d @ [c]) = Some Directory then Inl (At (d @ [c])) else Inr (d @ [c]))"
      using entryOf_place [OF assms d] fs4 q tempOf_other by (metis last_snoc)
    have ren: "renameTemp env q (abs_path (ds @ [c])) s3 =
        (case e4 of Some e \<Rightarrow> (Some e, s4)
         | None \<Rightarrow> if fr_fs s (d @ [c]) = Some Directory then (Some (FileError (fe_text env (At (d @ [c]))) False), s4)
             else (None, put q None (put (d @ [c]) (fr_fs s4 q) s4)))"
      unfolding renameTemp_def 4 using en by (auto split: option.splits)
    have ended: "replaced ds c ?new s (None, put q None (put (d @ [c]) (fr_fs s4 q) s4))" if "e2 = None" "fr_fs s (d @ [c]) \<noteq> Some Directory"
      using d free [unfolded q] w4(2) [unfolded q] that(2) unfolding q
      by (rule took_place) (use new4 [OF that(1)] q in simp_all)
    show ?thesis using 1 2 3 undo w2 w4 ended ren Inr unfolding writeAtomic_def dir base by (auto split: option.splits)
  qed
qed

end
