(* ===== verification/File_Step_Safety.thy ===== *)
theory File_Step_Safety
  imports File_Writes
begin

text \<open>
  What a file step leaves behind.  It never writes where the panel keeps its credentials, unless a link stands in that very directory; the
  file it writes is replaced at once; and after a step that succeeded the file is what the step asks for.
\<close>

section \<open>Where a step writes\<close>

definition no_links_inside :: "fsys \<Rightarrow> bool" where
  "no_links_inside fs \<longleftrightarrow> (\<forall>q t. protectedNames q \<longrightarrow> fs q \<noteq> Some (Symlink t))"

lemma protected_last_names:
  "list_all (\<lambda>b. hd (List.last b) \<noteq> CHR ''.'' \<or> length (List.last b) < 9) (protectedFiles @ protectedTrees)"
  by code_simp

lemma tempOf_unprotected:
  assumes "\<not> protectedNames (d @ [c])"
  shows "\<not> protectedNames (d @ [tempOf c n])"
proof
  assume "protectedNames (d @ [tempOf c n])"
  then obtain b where b: "b \<in> set (protectedFiles @ protectedTrees)"
    "d @ [tempOf c n] = b \<or> b \<in> set protectedTrees \<and> take (length b) (d @ [tempOf c n]) = b"
    by (auto simp: protectedNames_def list_ex_iff)
  have no: "d @ [tempOf c n] \<noteq> b"
  proof
    assume "d @ [tempOf c n] = b"
    then have "List.last b = tempOf c n" by auto
    moreover have "hd (List.last b) \<noteq> CHR ''.'' \<or> length (List.last b) < 9" using protected_last_names b(1) unfolding list_all_iff by blast
    ultimately show False by (simp add: tempOf_def)
  qed
  then have b: "b \<in> set protectedTrees" "take (length b) (d @ [tempOf c n]) = b" using b(2) by auto
  then have "length b \<le> length d" using no by (metis length_append_singleton not_less_eq_eq take_all)
  then have "take (length b) (d @ [c]) = b" using b(2) by simp
  then show False using assms b(1) by (auto simp: protectedNames_def list_ex_iff)
qed

lemma lands_entry:
  assumes "list_all proper ds" and "proper c" and "find_place fs True (abs_path ds) = At d" and "fs d = Some Directory"
    and "\<forall>t. fs (d @ [c]) \<noteq> Some (Symlink t)" and "list_all proper d"
  shows "lands fs (abs_path (ds @ [c])) = Some (d @ [c])"
  using find_last [OF assms(1-4), of fs True] kwalk_last [OF assms(2), of fs d True] assms(2,5,6) by (auto simp: lands_def)

lemma entry_unprotected:
  assumes "fs_wf fs" and "no_links_inside fs" and "ValidatePathForWrite fs p = None" and "Clean p = abs_path (ds @ [c])"
    and "list_all proper ds" and "proper c" and "find_place fs True (abs_path ds) = At d" and "fs d = Some Directory"
  shows "\<not> protectedNames (d @ [c])"
proof (cases "\<exists>t. fs (d @ [c]) = Some (Symlink t)")
  case True
  then show ?thesis using assms(2) by (auto simp: no_links_inside_def)
next
  case False
  then have "lands fs (Clean p) = Some (d @ [c])" unfolding assms(4)
    using assms(5-8) wf_names [OF assms(1,8)] by (intro lands_entry) auto
  then show ?thesis using guard_judges_landing [OF assms(1,3)] by blast
qed

lemma written_spares:
  assumes "fs_wf (fr_fs s)" and "no_links_inside (fr_fs s)" and "ValidatePathForWrite (fr_fs s) p = None" and "namesOf p \<noteq> []"
  shows "wrote (\<lambda>q i. \<not> protectedNames q) s (snd (written env (Clean p) content mode uid gid s))"
proof -
  let ?new = "newInode env content mode uid gid"
  obtain ds c where dc: "namesOf p = ds @ [c]" using assms(4) by (cases "namesOf p" rule: rev_cases) auto
  have cl: "Clean p = abs_path (ds @ [c])" using Clean_abs [OF ValidatePathForWrite_IsAbs [OF assms(3)]] dc by simp
  have pr: "list_all proper ds" "proper c" using namesOf_proper [of p] dc by simp_all
  obtain e s' where w: "writeAtomic env (Clean p) content mode uid gid s = (e, s')" by fastforce
  have "replaced ds c ?new s (e, s')" using writeAtomic_replaced [OF pr] w cl by metis
  then have "wrote (\<lambda>q i. \<not> protectedNames q) s s'"
  proof cases
    case (taken_back d n)
    have "\<not> protectedNames (d @ [tempOf c n])" using entry_unprotected [OF assms(1-3) cl pr] taken_back tempOf_unprotected by blast
    then show ?thesis using taken_back wrote_mono by fastforce
  next
    case (took_place d n t)
    have u: "\<not> protectedNames (d @ [c])" using entry_unprotected [OF assms(1-3) cl pr] took_place by blast
    have "wrote (\<lambda>q i. \<not> protectedNames q) s t" using took_place tempOf_unprotected [OF u] wrote_mono by fastforce
    moreover have "wrote (\<lambda>q i. \<not> protectedNames q) t s'" unfolding wrote_def
      by (intro exI [of _ "[(d @ [c], Some ?new), (d @ [tempOf c n], None)]"]) (use took_place u tempOf_unprotected [OF u] in simp)
    ultimately show ?thesis by (rule wrote_trans)
  qed (auto intro: wrote_none)
  then show ?thesis using w by (auto simp: written_def split: option.splits)
qed

lemma find_place_changed:
  assumes "list_all proper ns" and "find_place fs True (abs_path ns) = At d" and "fs d = Some (Regular x m u g)"
  shows "find_place (fs(d \<mapsto> Regular x' m' u' g')) True (abs_path ns) = At d"
proof -
  have "kwalk (fs(d \<mapsto> Regular x' m' u' g')) True 0 [] ns = At d"
    by (rule kwalk_stable [of fs]) (use assms in \<open>auto simp: find_place_abs list_all_iff proper_def dirlike_def filelike_iff\<close>)
  then show ?thesis using assms(1) by (simp add: find_place_abs)
qed

lemma changePath_spec:
  assumes "list_all proper ns" and "find_place (fr_fs s) True (abs_path ns) = At d" and "fr_fs s d = Some (Regular x m u g)"
    and "changePath env f (abs_path ns) s = (e, s')" and "f (Regular x m u g) = Regular x m' u' g'"
  shows "wrote (\<lambda>p i. p = d) s s' \<and> find_place (fr_fs s') True (abs_path ns) = At d \<and>
    fr_fs s' d = Some (if e = None then Regular x m' u' g' else Regular x m u g)"
proof -
  have "changeAt env f d s = (e, s')" using assms(2,4) by (simp add: changePath_def)
  from changeAt_cases [OF this] show ?thesis
  proof
    assume a: "e \<noteq> None \<and> fr_fs s' = fr_fs s \<and> fr_writes s' = fr_writes s"
    then show ?thesis using assms(2,3) by (auto intro: wrote_none)
  next
    assume a: "e = None \<and> fr_fs s' = (fr_fs s)(d := map_option f (fr_fs s d)) \<and> fr_writes s' = fr_writes s @ [(d, map_option f (fr_fs s d))]"
    then have "wrote (\<lambda>p i. p = d) s s'" by (intro wrote_step [of s' s d]) auto
    then show ?thesis using a assms find_place_changed [OF assms(1-3)] by simp
  qed
qed

lemma setAttrs_spec:
  assumes "list_all proper ns" and "find_place (fr_fs s) True (abs_path ns) = At d" and "fr_fs s d = Some (Regular x m u g)"
    and "setAttrs env (abs_path ns) setMode mode uid gid s = (res, s')"
  shows "wrote (\<lambda>p i. p = d) s s' \<and> (res_status res = JobSucceeded \<longrightarrow> find_place (fr_fs s') True (abs_path ns) = At d \<and>
    fr_fs s' d = Some (Regular x (if setMode then mode else m) (if uid \<ge> 0 \<or> gid \<ge> 0 then chownId u uid else u)
      (if uid \<ge> 0 \<or> gid \<ge> 0 then chownId g gid else g)))"
proof -
  let ?m = "if setMode then mode else m"
  define r1 where "r1 = (if setMode then changePath env (withMode mode) (abs_path ns) s else (None, s))"
  obtain e1 s1 where 1: "r1 = (e1, s1)" by fastforce
  have c1: "wrote (\<lambda>p i. p = d) s s1 \<and> find_place (fr_fs s1) True (abs_path ns) = At d \<and> (e1 = None \<longrightarrow> fr_fs s1 d = Some (Regular x ?m u g))"
    using 1 assms(2,3) changePath_spec [OF assms(1-3), of env "withMode mode" e1 s1 mode u g]
    by (cases setMode) (auto simp: r1_def intro: wrote_none)
  define r2 where "r2 = (if uid \<ge> 0 \<or> gid \<ge> 0 then changePath env (withOwner uid gid) (abs_path ns) s1 else (None, s1))"
  obtain e2 s2 where 2: "r2 = (e2, s2)" by fastforce
  have c2: "wrote (\<lambda>p i. p = d) s1 s2 \<and> (e2 = None \<longrightarrow> find_place (fr_fs s2) True (abs_path ns) = At d \<and>
      fr_fs s2 d = Some (Regular x ?m (if uid \<ge> 0 \<or> gid \<ge> 0 then chownId u uid else u) (if uid \<ge> 0 \<or> gid \<ge> 0 then chownId g gid else g)))" if "e1 = None"
  proof (cases "uid \<ge> 0 \<or> gid \<ge> 0")
    case True
    then have "changePath env (withOwner uid gid) (abs_path ns) s1 = (e2, s2)" using 2 by (simp add: r2_def)
    from changePath_spec [OF assms(1) _ _ this, of d x ?m u g ?m "chownId u uid" "chownId g gid"] show ?thesis using c1 that True by auto
  next
    case False
    then show ?thesis using 2 c1 that by (auto simp: r2_def intro: wrote_none)
  qed
  have f: "(res, s') = (case e1 of Some e \<Rightarrow> (fileFailed env e False, s1)
      | None \<Rightarrow> (case e2 of Some e \<Rightarrow> (fileFailed env e setMode, s2) | None \<Rightarrow> (result JobSucceeded True None ''mode or owner set'', s2)))"
    using assms(4) 1 2 unfolding setAttrs_def r1_def r2_def by (auto split: option.splits)
  have fails: "res_status (fileFailed env e b) \<noteq> JobSucceeded" for e b by (simp add: fileFailed_def result_def JobFailed_def JobSucceeded_def)
  show ?thesis
  proof (cases e1)
    case (Some e)
    then show ?thesis using f c1 fails by simp
  next
    case None
    then show ?thesis using f c2 [OF None] fails wrote_trans [OF conjunct1 [OF c1] conjunct1 [OF c2 [OF None]]]
      by (cases e2) auto
  qed
qed

text \<open>The four ways a file step goes on once it has looked at its path: it ends there, only sets mode and owner, writes over a file, or makes a
  new one.  \<open>b\<close> is the run right before the first write.\<close>

inductive step_way :: "file_env \<Rightarrow> file_step \<Rightarrow> file_run \<Rightarrow> job_result \<times> file_run \<Rightarrow> bool" where
  ends: "fr_writes s' = fr_writes s \<Longrightarrow> res_status res \<noteq> JobSucceeded \<Longrightarrow> step_way env step s (res, s')"
| same: "ValidatePathForWrite (fr_fs s) (fs_path step) = None \<Longrightarrow> stepMode step = Inr (setMode, mode) \<Longrightarrow> stepOwner env step = Inr (uid, gid) \<Longrightarrow>
    fr_fs s' = fr_fs s \<Longrightarrow> fr_writes s' = fr_writes s \<Longrightarrow> find_place (fr_fs s) True (Clean (fs_path step)) = At d \<Longrightarrow>
    fr_fs s d = Some (Regular (fs_content step) m u g) \<Longrightarrow> \<not> setMode \<or> m mod 512 = mode \<Longrightarrow> uid < 0 \<or> u = uid \<Longrightarrow> gid < 0 \<or> g = gid \<Longrightarrow>
    step_way env step s (res, s')"
| attrs: "ValidatePathForWrite (fr_fs s) (fs_path step) = None \<Longrightarrow> stepMode step = Inr (setMode, mode) \<Longrightarrow> stepOwner env step = Inr (uid, gid) \<Longrightarrow>
    fr_fs b = fr_fs s \<Longrightarrow> fr_writes b = fr_writes s \<Longrightarrow> find_place (fr_fs s) True (Clean (fs_path step)) = At d \<Longrightarrow>
    fr_fs s d = Some (Regular (fs_content step) m u g) \<Longrightarrow>
    setAttrs env (Clean (fs_path step)) setMode mode uid gid b = r \<Longrightarrow> step_way env step s r"
| over: "ValidatePathForWrite (fr_fs s) (fs_path step) = None \<Longrightarrow> stepMode step = Inr (setMode, mode) \<Longrightarrow> stepOwner env step = Inr (uid, gid) \<Longrightarrow>
    fr_fs b = fr_fs s \<Longrightarrow> fr_writes b = fr_writes s \<Longrightarrow> find_place (fr_fs s) True (Clean (fs_path step)) = At d \<Longrightarrow>
    fr_fs s d = Some (Regular x m u g) \<Longrightarrow>
    written env (Clean (fs_path step)) (fs_content step) (if setMode then mode else m mod 512) (if uid < 0 then u else uid) (if gid < 0 then g else gid) b = r \<Longrightarrow>
    step_way env step s r"
| makes: "stepMode step = Inr (setMode, mode) \<Longrightarrow> stepOwner env step = Inr (uid, gid) \<Longrightarrow> find_place (fr_fs s) True (Clean (fs_path step)) = Missing d c l \<Longrightarrow>
    fr_fs b = snd (fe_mkdirAll env (fr_fs s) (Dir (Clean (fs_path step)))) \<Longrightarrow> fr_writes b = fr_writes s \<Longrightarrow>
    ValidatePathForWrite (fr_fs b) (fs_path step) = None \<Longrightarrow>
    written env (Clean (fs_path step)) (fs_content step) mode uid gid b = r \<Longrightarrow> step_way env step s r"

lemma refused_status: "res_status (refusedResult a b) \<noteq> JobSucceeded" "res_status (fileFailed env e ch) \<noteq> JobSucceeded"
  by (simp_all add: refusedResult_def fileFailed_def result_def JobFailed_def JobSucceeded_def)

lemma overExisting_way:
  assumes "ValidatePathForWrite (fr_fs s) (fs_path step) = None" and "stepMode step = Inr (setMode, mode)" and "stepOwner env step = Inr (uid, gid)"
    and "fr_fs s1 = fr_fs s" and "fr_writes s1 = fr_writes s" and "find_place (fr_fs s) True (Clean (fs_path step)) = At d"
    and "fr_fs s d = Some (Regular x m u g)"
  shows "step_way env step s (overExisting env step setMode mode uid gid (x, m, u, g) s1)"
proof -
  obtain a s2 where h: "holdsContent env x (fs_content step) s1 = (a, s2)" by fastforce
  have s2: "fr_fs s2 = fr_fs s" "fr_writes s2 = fr_writes s" and same: "a = Inr True \<Longrightarrow> x = fs_content step"
    using h assms(4,5) unfolding holdsContent_def by (auto simp: tried_def split: if_splits option.splits)
  show ?thesis
  proof (cases a)
    case (Inl e)
    then show ?thesis using h s2 refused_status(2) by (auto simp: overExisting_def intro: ends)
  next
    case (Inr t)
    note d = assms(1-3) s2 assms(6,7)
    consider "t" "\<not> setMode \<or> m mod 512 = mode" "(uid < 0 \<or> u = uid) \<and> (gid < 0 \<or> g = gid)"
      | "t" "\<not> ((\<not> setMode \<or> m mod 512 = mode) \<and> (uid < 0 \<or> u = uid) \<and> (gid < 0 \<or> g = gid))" | "\<not> t" by blast
    then show ?thesis
    proof cases
      case 1
      then have x: "fr_fs s d = Some (Regular (fs_content step) m u g)" using same Inr assms(7) by simp
      have "overExisting env step setMode mode uid gid (x, m, u, g) s1 = (result JobSucceeded False None ''unchanged'', s2)"
        using h Inr 1 by (simp add: overExisting_def Let_def)
      then show ?thesis using step_way.same [OF d(1-6) x] 1 by simp
    next
      case 2
      then have "overExisting env step setMode mode uid gid (x, m, u, g) s1 = setAttrs env (Clean (fs_path step)) setMode mode uid gid s2"
        using h Inr by (auto simp: overExisting_def Let_def)
      moreover have "fr_fs s d = Some (Regular (fs_content step) m u g)" using same Inr assms(7) 2(1) by simp
      ultimately show ?thesis using attrs [OF d(1-6) _ refl] by simp
    next
      case 3
      then show ?thesis using h Inr over [OF d refl] by (simp add: overExisting_def Let_def)
    qed
  qed
qed

lemma newFile_way:
  assumes "stepMode step = Inr (setMode, mode)" and "stepOwner env step = Inr (uid, gid)" and "fr_fs s1 = fr_fs s" and "fr_writes s1 = fr_writes s"
    and "find_place (fr_fs s) True (Clean (fs_path step)) = Missing d c l"
  shows "step_way env step s (newFile env step mode uid gid s1)"
proof -
  obtain e fs where m: "fe_mkdirAll env (fr_fs s) (Dir (Clean (fs_path step))) = (e, fs)" by fastforce
  let ?b = "s1\<lparr>fr_fs := fs\<rparr>"
  show ?thesis
  proof (cases "e = None \<and> ValidatePathForWrite fs (fs_path step) = None")
    case True
    then have "newFile env step mode uid gid s1 = written env (Clean (fs_path step)) (fs_content step) mode uid gid ?b"
      using m assms(3) by (simp add: newFile_def)
    then show ?thesis using makes [OF assms(1,2,5), of ?b] m assms(4) True by simp
  next
    case False
    then have "newFile env step mode uid gid s1 = ((case e of Some x \<Rightarrow> fileFailed env x False
        | None \<Rightarrow> refusedResult ErrInvalidPath (the (ValidatePathForWrite fs (fs_path step)))), ?b)"
      using m assms(3) by (auto simp: newFile_def split: option.splits)
    then show ?thesis using assms(4) refused_status by (auto intro!: ends split: option.splits)
  qed
qed

lemma writeFileStep_way: "step_way env step s (writeFileStep env step s)"
proof (cases "ValidatePathForWrite (fr_fs s) (fs_path step) = None \<and> int (length (fs_content step)) \<le> maxFileContent")
  case False
  then show ?thesis unfolding writeFileStep_def using refused_status by (auto intro!: ends split: option.splits)
next
  case True
  show ?thesis
  proof (cases "\<exists>setMode mode uid gid. stepMode step = Inr (setMode, mode) \<and> stepOwner env step = Inr (uid, gid)")
    case False
    then show ?thesis unfolding writeFileStep_def using True refused_status by (auto intro!: ends split: sum.splits)
  next
    case t: True
    then obtain setMode mode uid gid where mo: "stepMode step = Inr (setMode, mode)" "stepOwner env step = Inr (uid, gid)" by blast
    obtain e s1 where t: "tried env s = (e, s1)" by fastforce
    note s1 = tried_cases [OF t]
    show ?thesis
    proof (cases e)
      case (Some x)
      then show ?thesis unfolding writeFileStep_def using True mo t s1 refused_status(2) by (auto intro!: ends)
    next
      case None
      let ?pl = "find_place (fr_fs s) True (Clean (fs_path step))"
      have w: "writeFileStep env step s = (case ?pl of
          At d \<Rightarrow> (case fr_fs s d of Some (Regular have perm fuid fgid) \<Rightarrow> overExisting env step setMode mode uid gid (have, perm, fuid, fgid) s1
            | _ \<Rightarrow> (refusedResult ErrInvalidPath ''this path is not a regular file'', s1))
        | Missing _ _ _ \<Rightarrow> newFile env step mode uid gid s1
        | pl \<Rightarrow> (fileFailed env (FileError (fe_text env pl) False) False, s1))"
        unfolding writeFileStep_def using True mo t None s1 by (simp split: place.split)
      have refused: "step_way env step s (refusedResult a b, s1)" "step_way env step s (fileFailed env x c, s1)" for a b c x
        using s1 refused_status by (auto intro!: ends)
      show ?thesis
      proof (cases ?pl)
        case (At d)
        show ?thesis
        proof (cases "fr_fs s d")
          case (Some i)
          show ?thesis
          proof (cases i)
            case (Regular x m u g)
            then show ?thesis using overExisting_way [OF _ mo _ _ At, of s1 x m u g] True s1 Some w At by simp
          qed (use w At Some refused in simp_all)
        qed (use w At refused in simp)
      qed (use w refused newFile_way [OF mo] s1 in simp_all)
    qed
  qed
qed

lemma found_names: "find_place fs True (Clean p) \<noteq> At [] \<Longrightarrow> IsAbs p \<Longrightarrow> namesOf p \<noteq> []"
  using find_place_abs [of "[]" fs True] by (auto simp: Clean_abs)

text \<open>C4: a file step keeps away from what the write guard protects.  Nothing it writes, the temporary file included, is one of the places the guard lists: the host's
  shadow files and \<^verbatim>\<open>/etc/sudoers\<close>, the files of the panel's database, and everything under \<^verbatim>\<open>/etc/sfpanel\<close>, \<^verbatim>\<open>/root/.ssh\<close> and \<^verbatim>\<open>/etc/sudoers.d\<close>; however many links lead
  there and whatever is planted while its directories are made, as long as no symbolic link stands at such a place itself.  The list is the code's: the cluster's
  replicated state under \<^verbatim>\<open>/var/lib/sfpanel/cluster\<close> is not on it.\<close>

theorem file_step_spares_credentials:
  assumes "fs_wf (fr_fs s)" and "no_links_inside (fr_fs s)" and "fr_writes s = []"
    and mkdir: "\<forall>d. fs_wf (snd (fe_mkdirAll env (fr_fs s) d)) \<and> no_links_inside (snd (fe_mkdirAll env (fr_fs s) d))"
    and "(q, i) \<in> set (fr_writes (snd (writeFileStep env step s)))"
  shows "\<not> protectedNames q"
proof -
  have way: "step_way env step s (writeFileStep env step s)" by (rule writeFileStep_way)
  then have "wrote (\<lambda>q i. \<not> protectedNames q) s (snd (writeFileStep env step s)) \<or>
      (\<exists>b. fr_writes b = [] \<and> wrote (\<lambda>q i. \<not> protectedNames q) b (snd (writeFileStep env step s)))"
  proof cases
    case (ends s' res)
    then show ?thesis using assms(3) by (auto intro: wrote_none)
  next
    case (same setMode mode uid gid s' d m u g res)
    then show ?thesis by (auto intro: wrote_none)
  next
    case (attrs setMode mode uid gid b d m u g)
    have a: "IsAbs (fs_path step)" using attrs(1) by (rule ValidatePathForWrite_IsAbs)
    have "\<not> protectedNames d" using guard_judges_landing [OF assms(1) attrs(1), of d] attrs(6) by (simp add: lands_def)
    moreover have "wrote (\<lambda>p i. p = d) b (snd (writeFileStep env step s))"
      using setAttrs_spec [OF namesOf_proper, of b "fs_path step" d "fs_content step" m u g env setMode mode uid gid] attrs Clean_abs [OF a]
      by (metis prod.collapse)
    ultimately have "wrote (\<lambda>q i. \<not> protectedNames q) b (snd (writeFileStep env step s))" by (auto elim: wrote_mono)
    then show ?thesis using attrs(5) assms(3) by auto
  next
    case (over setMode mode uid gid b d x m u g)
    have a: "IsAbs (fs_path step)" using over(1) by (rule ValidatePathForWrite_IsAbs)
    have "d \<noteq> []" using over(7) wf_root [OF assms(1)] by auto
    then have "namesOf (fs_path step) \<noteq> []" using found_names [OF _ a, of "fr_fs s"] over(6) by simp
    then show ?thesis using written_spares [of b "fs_path step" env] over assms(1-3) by metis
  next
    case (makes setMode mode uid gid d c l b)
    have a: "IsAbs (fs_path step)" using makes(6) by (rule ValidatePathForWrite_IsAbs)
    then have "namesOf (fs_path step) \<noteq> []" using found_names [OF _ a, of "fr_fs s"] makes(3) by simp
    then show ?thesis using written_spares [of b "fs_path step" env] makes assms(3) mkdir by metis
  qed
  then show ?thesis using assms(3,5) wrote_all by blast
qed

section \<open>All or nothing\<close>

lemma took_place_fs:
  assumes "fr_fs s (d @ [tempOf c n]) = None" and "wrote (\<lambda>p i. p = d @ [tempOf c n]) s t"
  shows "(fr_fs t)(d @ [c] \<mapsto> new, d @ [tempOf c n] := None) = (fr_fs s)(d @ [c] \<mapsto> new)"
proof
  fix p
  have "fr_fs t p = fr_fs s p" if "p \<noteq> d @ [tempOf c n]" using wrote_keeps [OF assms(2), of p] that by simp
  then show "((fr_fs t)(d @ [c] \<mapsto> new, d @ [tempOf c n] := None)) p = ((fr_fs s)(d @ [c] \<mapsto> new)) p"
    using assms(1) tempOf_other by auto
qed

lemma list_all_take: "list_all P xs \<Longrightarrow> list_all P (take m xs)"
  by (auto simp: list_all_iff dest: in_set_takeD)

lemma only_temp: "list_all (\<lambda>(p, i). p = d @ [tempOf c n]) ws \<Longrightarrow> list_all (\<lambda>(p, i). p = d @ [c] \<longrightarrow> i = x) ws"
  using tempOf_other [of c n] by (auto simp: list_all_iff)

text \<open>C8: a file is replaced at once or not at all.  Whenever a reader looks at the entry of the path while \<^verbatim>\<open>writeAtomic\<close> is at work, it finds what was
  there before or the new file with all of its content, its mode and its owner; when the call fails the entry is as it was, and when it succeeds the entry
  is the new file and nothing else on the host has changed, so no temporary file is left.\<close>

theorem writeAtomic_all_or_nothing:
  assumes "list_all proper ds" and "proper c" and "find_place (fr_fs s) True (abs_path ds) = At d" and "fr_writes s = []"
    and "writeAtomic env (abs_path (ds @ [c])) content mode uid gid s = (e, s')"
  shows "(\<forall>n. replay (fr_fs s) (take n (fr_writes s')) (d @ [c]) \<in> {fr_fs s (d @ [c]), Some (newInode env content mode uid gid)}) \<and>
    fr_fs s' = replay (fr_fs s) (fr_writes s') \<and>
    (if e = None then fr_fs s' = (fr_fs s)(d @ [c] \<mapsto> newInode env content mode uid gid) else fr_fs s' (d @ [c]) = fr_fs s (d @ [c]))"
proof -
  let ?new = "newInode env content mode uid gid"
  have "replaced ds c ?new s (e, s')" using writeAtomic_replaced [OF assms(1,2)] assms(5) by metis
  then show ?thesis
  proof cases
    case not_made
    then show ?thesis using assms(4) by simp
  next
    case (taken_back d' n e')
    then have d: "d' = d" using assms(3) by simp
    obtain ws where ws: "fr_writes s' = ws" "fr_fs s' = replay (fr_fs s) ws" "list_all (\<lambda>(p, i). p = d @ [tempOf c n]) ws"
      using taken_back(5) assms(4) d unfolding wrote_def by auto
    have keeps: "replay (fr_fs s) (take m ws) (d @ [c]) = fr_fs s (d @ [c])" for m
      using replay_at [OF only_temp [OF list_all_take [OF ws(3)]], of "fr_fs s" m "fr_fs s (d @ [c])"] by simp
    then show ?thesis using ws keeps [of "length ws"] taken_back(1) by simp
  next
    case (took_place d' n t)
    then have d: "d' = d" using assms(3) by simp
    obtain ws where ws: "fr_writes t = ws" "fr_fs t = replay (fr_fs s) ws" "list_all (\<lambda>(p, i). p = d @ [tempOf c n]) ws"
      using took_place(5) assms(4) d unfolding wrote_def by auto
    have all: "fr_writes s' = ws @ [(d @ [c], Some ?new), (d @ [tempOf c n], None)]" using took_place ws d by simp
    have "list_all (\<lambda>(p, i). p = d @ [c] \<longrightarrow> i = Some ?new) (fr_writes s')"
      unfolding all using only_temp [OF ws(3)] tempOf_other [of c n] by simp
    then have "replay (fr_fs s) (take m (fr_writes s')) (d @ [c]) \<in> {fr_fs s (d @ [c]), Some ?new}" for m
      by (intro replay_at list_all_take)
    moreover have "fr_fs s' = replay (fr_fs s) (fr_writes s')" using took_place ws d all by simp
    moreover have "fr_fs s' = (fr_fs s)(d @ [c] \<mapsto> ?new)" using took_place took_place_fs [of s d c n t ?new] d by simp
    ultimately show ?thesis using took_place(1) by simp
  qed
qed

section \<open>After a step that succeeded\<close>

lemma find_new:
  assumes "list_all proper ds" and "proper c" and "find_place fs True (abs_path ds) = At d" and "fs d = Some Directory"
    and "fs (d @ [c]) \<noteq> Some Directory" and "\<forall>t. fs (d @ [c]) \<noteq> Some (Symlink t)"
  shows "find_place (fs(d @ [c] \<mapsto> Regular x m u g)) True (abs_path (ds @ [c])) = At (d @ [c])"
proof -
  define fs' where "fs' = fs(d @ [c] \<mapsto> Regular x m u g)"
  have "\<forall>q. dirlike (fs q) \<longrightarrow> fs' q = fs q" using assms(5,6) by (auto simp: dirlike_def fs'_def)
  moreover have "fs' (d @ [c]) = Some (Regular x m u g)" by (simp add: fs'_def)
  ultimately have "find_place fs' True (abs_path (ds @ [c])) = At (d @ [c])"
    using find_last [OF assms(1-4), of fs' True] kwalk_last [OF assms(2), of fs' d True] by auto
  then show ?thesis by (simp add: fs'_def)
qed

lemma written_establishes:
  assumes "ValidatePathForWrite (fr_fs s) p = None" and "namesOf p \<noteq> []" and "\<forall>t. lstat (fr_fs s) (Clean p) \<noteq> Some (Symlink t)"
    and "written env (Clean p) content mode uid gid s = (res, s')" and "res_status res = JobSucceeded"
  shows "\<exists>d. find_place (fr_fs s') True (Clean p) = At d \<and> fr_fs s' d = Some (newInode env content mode uid gid)"
proof -
  let ?new = "newInode env content mode uid gid"
  obtain ds c where dc: "namesOf p = ds @ [c]" using assms(2) by (cases "namesOf p" rule: rev_cases) auto
  have cl: "Clean p = abs_path (ds @ [c])" using Clean_abs [OF ValidatePathForWrite_IsAbs [OF assms(1)]] dc by simp
  have pr: "list_all proper ds" "proper c" using namesOf_proper [of p] dc by simp_all
  have w: "writeAtomic env (Clean p) content mode uid gid s = (None, s')"
    using assms(4,5) refused_status(2) unfolding written_def by (auto split: prod.splits option.splits)
  have "replaced ds c ?new s (None, s')" using writeAtomic_replaced [OF pr] w cl by metis
  then show ?thesis
  proof cases
    case (took_place d n t)
    have "\<forall>t. fr_fs s (d @ [c]) \<noteq> Some (Symlink t)" using assms(3) lstat_entry [OF pr took_place(1,2)] cl by simp
    then have "find_place ((fr_fs s)(d @ [c] \<mapsto> ?new)) True (Clean p) = At (d @ [c])"
      unfolding cl newInode_def by (intro find_new) (use pr took_place in auto)
    then show ?thesis using took_place_fs [OF took_place(3,4), of ?new] took_place(7) by auto
  qed
qed

lemma chownId_small: "0 \<le> new \<Longrightarrow> new < 2 ^ 32 - 1 \<Longrightarrow> chownId old new = new"
  by (simp add: chownId_def Let_def)

lemma newInode_owner:
  assumes "newInode env content mode uid gid = Regular x m u g"
  shows "x = content \<and> m = mode \<and> (0 \<le> uid \<and> uid < 2 ^ 32 - 1 \<longrightarrow> u = uid) \<and> (0 \<le> gid \<and> gid < 2 ^ 32 - 1 \<longrightarrow> g = gid)"
  using assms by (auto simp: newInode_def newOwner_def chownId_small)

lemma parseFileMode_small: "parseFileMode raw = Inr m \<Longrightarrow> m < 512"
  by (auto simp: parseFileMode_def split: if_splits)

lemma stepMode_cases: "stepMode step = Inr (setMode, mode) \<Longrightarrow> setMode \<longleftrightarrow> fs_mode step \<noteq> []"
  "stepMode step = Inr (True, mode) \<Longrightarrow> parseFileMode (fs_mode step) = Inr mode \<and> mode mod 512 = mode"
  using parseFileMode_small by (auto simp: stepMode_def split: if_splits sum.splits)

text \<open>The file is what the step asks for.\<close>

definition as_asked :: "file_env \<Rightarrow> file_step \<Rightarrow> inode \<Rightarrow> bool" where
  "as_asked env step i = (case i of
     Regular x m u g \<Rightarrow> x = fs_content step \<and> (fs_mode step \<noteq> [] \<longrightarrow> parseFileMode (fs_mode step) = Inr (m mod 512)) \<and>
       (case stepOwner env step of
          Inl _ \<Rightarrow> False
        | Inr (uid, gid) \<Rightarrow> (0 \<le> uid \<and> uid < 2 ^ 32 - 1 \<longrightarrow> u = uid) \<and> (0 \<le> gid \<and> gid < 2 ^ 32 - 1 \<longrightarrow> g = gid))
   | _ \<Rightarrow> False)"

lemma as_askedI:
  assumes "stepMode step = Inr (setMode, mode)" and "stepOwner env step = Inr (uid, gid)" and "setMode \<Longrightarrow> m mod 512 = mode"
    and "0 \<le> uid \<and> uid < 2 ^ 32 - 1 \<Longrightarrow> u = uid" and "0 \<le> gid \<and> gid < 2 ^ 32 - 1 \<Longrightarrow> g = gid"
  shows "as_asked env step (Regular (fs_content step) m u g)"
proof -
  have "parseFileMode (fs_mode step) = Inr (m mod 512)" if "fs_mode step \<noteq> []"
  proof -
    have t: "setMode" using stepMode_cases(1) [OF assms(1)] that by simp
    then show ?thesis using stepMode_cases(2) [of step mode] assms(1,3) by simp
  qed
  then show ?thesis using assms(2,4,5) by (simp add: as_asked_def)
qed

text \<open>C32: after a file step that succeeded, whether it found the file so, only set its mode or owner, or wrote it, the path leads to a regular file
  with the step's content, with its mode when it names one, and with its owner when it names one, as long as the path itself is not a symbolic link
  when the step writes.\<close>

theorem file_step_establishes:
  assumes "fs_wf (fr_fs s)" and "writeFileStep env step s = (res, s')" and "res_status res = JobSucceeded"
    and "\<forall>t. lstat (fr_fs s) (Clean (fs_path step)) \<noteq> Some (Symlink t)"
    and "\<forall>t. lstat (snd (fe_mkdirAll env (fr_fs s) (Dir (Clean (fs_path step))))) (Clean (fs_path step)) \<noteq> Some (Symlink t)"
  shows "\<exists>d i. find_place (fr_fs s') True (Clean (fs_path step)) = At d \<and> fr_fs s' d = Some i \<and> as_asked env step i"
proof -
  have "step_way env step s (res, s')" using writeFileStep_way [of env step s] assms(2) by simp
  then show ?thesis
  proof cases
    case ends
    then show ?thesis using assms(3) by simp
  next
    case (same setMode mode uid gid d m u g)
    have "as_asked env step (Regular (fs_content step) m u g)" by (rule as_askedI [OF same(2,3)]) (use same in auto)
    then show ?thesis using same by auto
  next
    case (attrs setMode mode uid gid b d m u g)
    have c: "Clean (fs_path step) = abs_path (namesOf (fs_path step))" using Clean_abs [OF ValidatePathForWrite_IsAbs [OF attrs(1)]] .
    let ?i = "Regular (fs_content step) (if setMode then mode else m) (if uid \<ge> 0 \<or> gid \<ge> 0 then chownId u uid else u)
      (if uid \<ge> 0 \<or> gid \<ge> 0 then chownId g gid else g)"
    have "find_place (fr_fs s') True (Clean (fs_path step)) = At d \<and> fr_fs s' d = Some ?i"
      using setAttrs_spec [OF namesOf_proper, of b "fs_path step" d "fs_content step" m u g env setMode mode uid gid res s'] attrs assms(3) c by simp
    moreover have "as_asked env step ?i"
      by (rule as_askedI [OF attrs(2,3)]) (use stepMode_cases(2) [of step mode] attrs(2) chownId_small in auto)
    ultimately show ?thesis by blast
  next
    case (over setMode mode uid gid b d x m u g)
    let ?mode = "if setMode then mode else m mod 512" and ?uid = "if uid < 0 then u else uid" and ?gid = "if gid < 0 then g else gid"
    have "d \<noteq> []" using over(7) wf_root [OF assms(1)] by auto
    then have n: "namesOf (fs_path step) \<noteq> []" using found_names [of "fr_fs s"] ValidatePathForWrite_IsAbs [OF over(1)] over(6) by simp
    obtain d' where d': "find_place (fr_fs s') True (Clean (fs_path step)) = At d'" "fr_fs s' d' = Some (newInode env (fs_content step) ?mode ?uid ?gid)"
      using written_establishes [OF _ n _ over(8) assms(3)] over(1,4) assms(4) by auto
    have "as_asked env step (newInode env (fs_content step) ?mode ?uid ?gid)" unfolding newInode_def
      by (rule as_askedI [OF over(2,3)]) (use stepMode_cases(2) [of step mode] over(2) chownId_small in \<open>auto simp: newOwner_def\<close>)
    then show ?thesis using d' by blast
  next
    case (makes setMode mode uid gid d c l b)
    have n: "namesOf (fs_path step) \<noteq> []" using found_names [of "fr_fs s"] ValidatePathForWrite_IsAbs [OF makes(6)] makes(3) by simp
    obtain d' where d': "find_place (fr_fs s') True (Clean (fs_path step)) = At d'" "fr_fs s' d' = Some (newInode env (fs_content step) mode uid gid)"
      using written_establishes [OF makes(6) n _ makes(7) assms(3)] makes(4) assms(5) by auto
    have "as_asked env step (newInode env (fs_content step) mode uid gid)" unfolding newInode_def
      by (rule as_askedI [OF makes(1,2)]) (use stepMode_cases(2) [of step mode] makes(1) chownId_small in \<open>auto simp: newOwner_def\<close>)
    then show ?thesis using d' by blast
  qed
qed

section \<open>When no call fails\<close>

lemma fillTemp_ok: "\<forall>n. fe_err env n = None \<Longrightarrow> fst (fillTemp env q content mode uid gid s) = None"
  by (simp add: fillTemp_def writeContent_def changeAt_def tried_def)

lemma writeAtomic_ok:
  assumes "\<forall>n. fe_err env n = None" and "list_all proper ds" and "proper c" and "find_place (fr_fs s) True (abs_path ds) = At d"
    and "fr_fs s d = Some Directory" and "fr_fs s (d @ [c]) \<noteq> Some Directory" and "\<forall>n. fr_fs s (d @ [tempOf c n]) = None"
  shows "fst (writeAtomic env (abs_path (ds @ [c])) content mode uid gid s) = None"
proof -
  have dir: "Dir (abs_path (ds @ [c])) = abs_path ds" and base: "Base (abs_path (ds @ [c])) = c"
    using assms(2,3) Dir_abs_path Base_abs_path by simp_all
  obtain x s1 where 1: "createTemp env (abs_path ds) c s = (x, s1)" by fastforce
  have "\<exists>q. x = Inr q" using 1 assms(1,4,5,7) by (auto simp: createTemp_def tried_def tempName_tempOf Let_def split: if_splits)
  then obtain n where x: "x = Inr (d @ [tempOf c n])" and fs1: "fr_fs s1 = (fr_fs s)(d @ [tempOf c n] \<mapsto> Regular [] 384 (fst (fe_self env)) (snd (fe_self env)))"
    using createTemp_cases [OF 1] assms(4) by fastforce
  have i: "fr_fs s1 (d @ [tempOf c n]) = Some (Regular [] 384 (fst (fe_self env)) (snd (fe_self env)))" using fs1 by simp
  obtain e2 s2 where 2: "fillTemp env (d @ [tempOf c n]) content mode uid gid s1 = (e2, s2)" by fastforce
  have e2: "e2 = None" using fillTemp_ok [OF assms(1), of "d @ [tempOf c n]" content mode uid gid s1] 2 by simp
  have "fr_fs s2 p = fr_fs s1 p" if "p \<noteq> d @ [tempOf c n]" for p
    using wrote_keeps [OF conjunct1 [OF fillTemp_spec [OF 2 i]], of p] that by simp
  then have same: "fr_fs s2 p = fr_fs s p" if "p \<noteq> d @ [tempOf c n]" for p using fs1 that by auto
  then have "\<forall>p. dirlike (fr_fs s p) \<longrightarrow> fr_fs s2 p = fr_fs s p" using assms(7) by (metis dirlike_def option.distinct(1))
  moreover have "fr_fs s2 (d @ [c]) = fr_fs s (d @ [c])" using same tempOf_other [of c n] by (metis last_snoc)
  ultimately have "entryOf (fr_fs s2) (abs_path (ds @ [c])) = Inr (d @ [c])" using entryOf_place [OF assms(2-5)] assms(6) by simp
  then show ?thesis unfolding writeAtomic_def dir base using 1 2 x e2 assms(1) by (simp add: tried_def renameTemp_def)
qed

lemma overwrites:
  assumes "\<forall>n. fe_err env n = None" and "ValidatePathForWrite (fr_fs s) (fs_path step) = None" and "int (length (fs_content step)) \<le> maxFileContent"
    and "stepMode step = Inr (setMode, mode)" and "stepOwner env step = Inr (uid, gid)" and "Clean (fs_path step) = abs_path (ds @ [c])"
    and "list_all proper ds" and "proper c" and "find_place (fr_fs s) True (abs_path ds) = At d"
    and "fr_fs s d = Some Directory" and "fr_fs s (d @ [c]) \<noteq> Some Directory" and "\<forall>n. fr_fs s (d @ [tempOf c n]) = None"
    and "find_place (fr_fs s) True (Clean (fs_path step)) = At e" and "fr_fs s e = Some (Regular x m u g)" and "x \<noteq> fs_content step"
  shows "res_status (fst (writeFileStep env step s)) = JobSucceeded \<and>
    (d @ [c], Some (newInode env (fs_content step) (if setMode then mode else m mod 512) (if uid < 0 then u else uid) (if gid < 0 then g else gid)))
      \<in> set (fr_writes (snd (writeFileStep env step s)))"
proof -
  let ?mode = "if setMode then mode else m mod 512" and ?uid = "if uid < 0 then u else uid" and ?gid = "if gid < 0 then g else gid"
  define s1 where "s1 = snd (tried env s)"
  obtain r s2 where h: "holdsContent env x (fs_content step) s1 = (r, s2)" by fastforce
  have r: "r = Inr False" and s2: "fr_fs s2 = fr_fs s" using h assms(1,15) by (auto simp: holdsContent_def s1_def tried_def split: if_splits)
  obtain w where w: "writeAtomic env (abs_path (ds @ [c])) (fs_content step) ?mode ?uid ?gid s2 = (None, w)"
    using writeAtomic_ok [OF assms(1,7,8), of s2 d "fs_content step" ?mode ?uid ?gid] assms(9-12) s2 by (metis prod.collapse)
  have "writeFileStep env step s = overExisting env step setMode mode uid gid (x, m, u, g) s1"
    unfolding writeFileStep_def using assms(1-5,13,14) by (simp add: s1_def tried_def)
  also have "\<dots> = (result JobSucceeded True None ''written'', w)"
    unfolding overExisting_def written_def Let_def using h r w assms(6) by simp
  finally have st: "writeFileStep env step s = (result JobSucceeded True None ''written'', w)" .
  have "replaced ds c (newInode env (fs_content step) ?mode ?uid ?gid) s2 (None, w)" using writeAtomic_replaced [OF assms(7,8)] w by metis
  then show ?thesis
  proof cases
    case (took_place d' n t)
    then have "d' = d" using assms(9) s2 by simp
    then show ?thesis using st took_place by (simp add: result_def)
  qed
qed

text \<open>C33: a link inside a protected directory opens it.  When the last name of a step's path is a symbolic link, the guard judges where the link leads,
  but the file is renamed over the link itself.  So where the guard lets the path through, the link leads to an existing regular file with other content than the
  step's, no temporary name is taken and no call fails, the step succeeds and the entry that is written is the link's own place, also when that place is one the guard protects.\<close>

theorem link_inside_is_replaced:
  assumes "\<forall>n. fe_err env n = None" and "ValidatePathForWrite (fr_fs s) (fs_path step) = None" and "int (length (fs_content step)) \<le> maxFileContent"
    and "stepMode step = Inr (setMode, mode)" and "stepOwner env step = Inr (uid, gid)" and "Clean (fs_path step) = abs_path (ds @ [c])"
    and "list_all proper ds" and "proper c" and "find_place (fr_fs s) True (abs_path ds) = At d" and "fr_fs s d = Some Directory"
    and "fr_fs s (d @ [c]) = Some (Symlink t)" and "\<forall>n. fr_fs s (d @ [tempOf c n]) = None"
    and "find_place (fr_fs s) True (Clean (fs_path step)) = At e" and "fr_fs s e = Some (Regular x m u g)" and "x \<noteq> fs_content step"
  shows "res_status (fst (writeFileStep env step s)) = JobSucceeded \<and>
    (\<exists>i. (d @ [c], Some i) \<in> set (fr_writes (snd (writeFileStep env step s))) \<and> ino_content i = fs_content step)"
  using overwrites [OF assms(1-10) _ assms(12-15)] assms(11) by (auto simp: newInode_def)

section \<open>A sample host\<close>

definition sampleEntries :: "(string list \<times> inode) list" where
  "sampleEntries =
     [([], Directory), ([''etc''], Directory), ([''etc'', ''sudoers.d''], Directory), ([''srv''], Directory),
      ([''srv'', ''app.conf''], Regular ''old'' 420 0 0), ([''srv'', ''d''], Symlink ''/etc/sudoers.d''), ([''srv'', ''new''], Symlink ''app'')]"

definition sampleFS :: fsys where
  "sampleFS = map_of sampleEntries"

definition linkedFS :: fsys where
  "linkedFS = map_of (([''etc'', ''sudoers.d'', ''ops''], Symlink ''/srv/app.conf'') # sampleEntries)"

definition sampleFileEnv :: file_env where
  "sampleFileEnv = \<lparr>fe_err = (\<lambda>_. None), fe_text = (\<lambda>_. ''error''), fe_partial = (\<lambda>_. 0), fe_random = (\<lambda>_. 7), fe_self = (0, 0),
     fe_mkdirAll = (\<lambda>fs _. (None, fs)), fe_users = (\<lambda>_. None), fe_groups = (\<lambda>_. None), fe_sanitize = (\<lambda>s. s), fe_quote = (\<lambda>s. s)\<rparr>"

definition sampleFileRun :: "fsys \<Rightarrow> file_run" where
  "sampleFileRun fs = \<lparr>fr_fs = fs, fr_tick = 0, fr_writes = [], fr_log = []\<rparr>"

definition sampleFileStep :: "string \<Rightarrow> file_step" where
  "sampleFileStep p = \<lparr>fs_path = p, fs_content = ''new'', fs_mode = ''0640'', fs_owner = ''33:33''\<rparr>"

text \<open>Files given as a list of entries.\<close>

definition entries_ok :: "(string list \<times> inode) list \<Rightarrow> bool" where
  "entries_ok es \<longleftrightarrow> map_of es [] = Some Directory \<and>
     list_all (\<lambda>(cs, i). cs = [] \<or> map_of es (butlast cs) = Some Directory \<and> proper (List.last cs)) es"

lemma entries_wf: "entries_ok es \<Longrightarrow> fs_wf (map_of es)"
  unfolding fs_wf_def
proof (intro conjI allI impI)
  fix cs c
  assume e: "entries_ok es" and "map_of es (cs @ [c]) \<noteq> None"
  then obtain i where "(cs @ [c], i) \<in> set es" by (meson map_of_SomeD not_None_eq)
  then have "map_of es (butlast (cs @ [c])) = Some Directory \<and> proper (List.last (cs @ [c]))"
    using e by (auto simp: entries_ok_def list_all_iff)
  then show "map_of es cs = Some Directory" "proper c" by simp_all
qed (simp add: entries_ok_def)

lemma sample_wf: "fs_wf sampleFS"
  unfolding sampleFS_def by (rule entries_wf) code_simp

lemma sample_no_links: "no_links_inside sampleFS"
proof -
  have "q \<in> {[''srv'', ''d''], [''srv'', ''new'']}" if "sampleFS q = Some (Symlink t)" for q t
    using that by (auto simp: sampleFS_def sampleEntries_def split: if_splits)
  moreover have "\<not> protectedNames [''srv'', ''d'']" "\<not> protectedNames [''srv'', ''new'']" by code_simp+
  ultimately show ?thesis unfolding no_links_inside_def by blast
qed

lemma sample_env_ok: "\<forall>n. fe_err sampleFileEnv n = None" "fe_mkdirAll sampleFileEnv fs d = (None, fs)"
  by (simp_all add: sampleFileEnv_def)

lemma sample_run [simp]: "fr_fs (sampleFileRun fs) = fs" "fr_writes (sampleFileRun fs) = []"
  by (simp_all add: sampleFileRun_def)

lemma sample_temp: "sampleFS (d @ [tempOf c n]) = None" "d \<noteq> [''etc'', ''sudoers.d''] \<Longrightarrow> linkedFS (d @ [tempOf c n]) = None"
  "c = ''ops'' \<Longrightarrow> linkedFS (d @ [tempOf c n]) = None"
  by (auto simp: sampleFS_def linkedFS_def sampleEntries_def tempOf_def)

lemma sample_step_written:
  "res_status (fst (writeFileStep sampleFileEnv (sampleFileStep ''/srv/app.conf'') (sampleFileRun sampleFS))) = JobSucceeded \<and>
   ([''srv'', ''app.conf''], Some (Regular ''new'' 416 33 33)) \<in>
     set (fr_writes (snd (writeFileStep sampleFileEnv (sampleFileStep ''/srv/app.conf'') (sampleFileRun sampleFS))))"
proof -
  let ?step = "sampleFileStep ''/srv/app.conf''" and ?s = "sampleFileRun sampleFS"
  have "ValidatePathForWrite (fr_fs ?s) (fs_path ?step) = None" "int (length (fs_content ?step)) \<le> maxFileContent"
    "stepMode ?step = Inr (True, 416)" "stepOwner sampleFileEnv ?step = Inr (33, 33)"
    "Clean (fs_path ?step) = abs_path ([''srv''] @ [''app.conf''])"
    "list_all proper [''srv'']" "proper ''app.conf''" "find_place (fr_fs ?s) True (abs_path [''srv'']) = At [''srv'']"
    "fr_fs ?s [''srv''] = Some Directory" "fr_fs ?s ([''srv''] @ [''app.conf'']) \<noteq> Some Directory"
    unfolding sample_run by code_simp+
  note facts = overwrites [OF sample_env_ok(1) this]
  have "find_place (fr_fs ?s) True (Clean (fs_path ?step)) = At [''srv'', ''app.conf'']"
    "fr_fs ?s [''srv'', ''app.conf''] = Some (Regular ''old'' 420 0 0)" "''old'' \<noteq> fs_content ?step"
    unfolding sample_run by code_simp+
  note facts = facts [OF _ this]
  have "newInode sampleFileEnv (fs_content ?step) 416 33 33 = Regular ''new'' 416 33 33" by code_simp
  then show ?thesis using facts sample_temp(1) [of "[''srv'']" "''app.conf''"] by simp
qed

theorem file_step_spares_credentials_witness:
  "([''srv'', ''app.conf''], Some (Regular ''new'' 416 33 33)) \<in>
     set (fr_writes (snd (writeFileStep sampleFileEnv (sampleFileStep ''/srv/app.conf'') (sampleFileRun sampleFS)))) \<and>
   \<not> protectedNames [''srv'', ''app.conf'']"
  using file_step_spares_credentials [of "sampleFileRun sampleFS" sampleFileEnv "[''srv'', ''app.conf'']"
      "Some (Regular ''new'' 416 33 33)" "sampleFileStep ''/srv/app.conf''"] sample_step_written sample_wf sample_no_links
  by (simp add: sample_env_ok(2))

theorem writeAtomic_all_or_nothing_witness:
  "\<exists>e s'. writeAtomic sampleFileEnv (abs_path ([''srv''] @ [''app.conf''])) ''new'' 416 33 33 (sampleFileRun sampleFS) = (e, s') \<and>
     (\<forall>n. replay sampleFS (take n (fr_writes s')) [''srv'', ''app.conf''] \<in> {Some (Regular ''old'' 420 0 0), Some (Regular ''new'' 416 33 33)})"
proof -
  obtain e s' where w: "writeAtomic sampleFileEnv (abs_path ([''srv''] @ [''app.conf''])) ''new'' 416 33 33 (sampleFileRun sampleFS) = (e, s')" by fastforce
  have "list_all proper [''srv'']" "proper ''app.conf''" "find_place (fr_fs (sampleFileRun sampleFS)) True (abs_path [''srv'']) = At [''srv'']"
    unfolding sample_run by code_simp+
  from writeAtomic_all_or_nothing [OF this _ w]
  have a: "replay sampleFS (take n (fr_writes s')) ([''srv''] @ [''app.conf'']) \<in> {sampleFS ([''srv''] @ [''app.conf'']), Some (newInode sampleFileEnv ''new'' 416 33 33)}" for n
    unfolding sample_run by blast
  have "newInode sampleFileEnv ''new'' 416 33 33 = Regular ''new'' 416 33 33" "sampleFS ([''srv''] @ [''app.conf'']) = Some (Regular ''old'' 420 0 0)"
    by code_simp+
  then show ?thesis using w a by (metis append_Cons append_Nil)
qed

theorem file_step_establishes_witness:
  "\<exists>res s' d i. writeFileStep sampleFileEnv (sampleFileStep ''/srv/app.conf'') (sampleFileRun sampleFS) = (res, s') \<and> res_status res = JobSucceeded \<and>
     find_place (fr_fs s') True ''/srv/app.conf'' = At d \<and> fr_fs s' d = Some i \<and> as_asked sampleFileEnv (sampleFileStep ''/srv/app.conf'') i"
proof -
  obtain res s' where w: "writeFileStep sampleFileEnv (sampleFileStep ''/srv/app.conf'') (sampleFileRun sampleFS) = (res, s')" by fastforce
  have r: "res_status res = JobSucceeded" using sample_step_written unfolding w by simp
  have c: "Clean (fs_path (sampleFileStep ''/srv/app.conf'')) = ''/srv/app.conf''" by code_simp
  have "lstat sampleFS ''/srv/app.conf'' = Some (Regular ''old'' 420 0 0)" by code_simp
  then have l: "\<forall>t. lstat sampleFS ''/srv/app.conf'' \<noteq> Some (Symlink t)" by simp
  have wf: "fs_wf (fr_fs (sampleFileRun sampleFS))" using sample_wf by simp
  show ?thesis using file_step_establishes [OF wf w r] w r l unfolding c sample_run sample_env_ok(2) snd_conv by blast
qed

lemma linked_wf: "fs_wf linkedFS"
  unfolding linkedFS_def by (rule entries_wf) code_simp

theorem link_inside_is_replaced_witness:
  "fs_wf linkedFS \<and> protectedNames [''etc'', ''sudoers.d'', ''ops''] \<and>
   (\<exists>i. ([''etc'', ''sudoers.d'', ''ops''], Some i) \<in>
      set (fr_writes (snd (writeFileStep sampleFileEnv (sampleFileStep ''/srv/d/ops'') (sampleFileRun linkedFS)))) \<and> ino_content i = ''new'')"
proof -
  let ?step = "sampleFileStep ''/srv/d/ops''" and ?s = "sampleFileRun linkedFS"
  have "ValidatePathForWrite (fr_fs ?s) (fs_path ?step) = None" "int (length (fs_content ?step)) \<le> maxFileContent"
    "stepMode ?step = Inr (True, 416)" "stepOwner sampleFileEnv ?step = Inr (33, 33)"
    "Clean (fs_path ?step) = abs_path ([''srv'', ''d''] @ [''ops''])"
    "list_all proper [''srv'', ''d'']" "proper ''ops''" "find_place (fr_fs ?s) True (abs_path [''srv'', ''d'']) = At [''etc'', ''sudoers.d'']"
    "fr_fs ?s [''etc'', ''sudoers.d''] = Some Directory" "fr_fs ?s ([''etc'', ''sudoers.d''] @ [''ops'']) = Some (Symlink ''/srv/app.conf'')"
    unfolding sample_run by code_simp+
  note facts = link_inside_is_replaced [OF sample_env_ok(1) this]
  have "find_place (fr_fs ?s) True (Clean (fs_path ?step)) = At [''srv'', ''app.conf'']"
    "fr_fs ?s [''srv'', ''app.conf''] = Some (Regular ''old'' 420 0 0)" "''old'' \<noteq> fs_content ?step"
    unfolding sample_run by code_simp+
  note facts = facts [OF _ this]
  have "protectedNames [''etc'', ''sudoers.d'', ''ops'']" "fs_content ?step = ''new''" by code_simp+
  then show ?thesis using facts sample_temp(3) [of "''ops''" "[''etc'', ''sudoers.d'']"] linked_wf by simp
qed

theorem resolve_is_kernel_walk_witness:
  "resolveForWrite sampleFS ''/srv/d/x'' = Inr (abs_path [''etc'', ''sudoers.d'', ''x''])"
proof -
  have "find_place sampleFS True (Clean ''/srv/d/x'') = Missing [''etc'', ''sudoers.d''] ''x'' []" "IsAbs ''/srv/d/x''"
    "cleanNames True ([''etc'', ''sudoers.d''] @ [''x'']) = [''etc'', ''sudoers.d'', ''x'']" by code_simp+
  then show ?thesis using resolve_is_kernel_walk [OF sample_wf, of "''/srv/d/x''"] by simp
qed

end
