(* ===== verification/Compose_Safety.thy ===== *)
theory Compose_Safety
  imports Go_Path
begin

text \<open>
  The analyser of compose documents: \<^verbatim>\<open>src/internal/composex/safety.go\<close>.  YAML is a parameter, a document's text to its values; a Go map is a
  list of entries with distinct keys, in the order the map happens to be walked.  A value of any other Go type, a map with keys that are not all texts
  among them, is \<open>YOther\<close>, for which every type assertion of the code fails.  \<open>quote\<close> is the verb \<^verbatim>\<open>%q\<close>.  The texts that are folded or changed in case are
  compared with ASCII words only: the folds below take every character that becomes an ASCII letter and leave the others as they are.
\<close>

section \<open>Letters\<close>

definition upper_ascii :: "char \<Rightarrow> bool" where "upper_ascii c \<longleftrightarrow> 65 \<le> (of_char c :: nat) \<and> (of_char c :: nat) \<le> 90"
definition lower_ascii :: "char \<Rightarrow> bool" where "lower_ascii c \<longleftrightarrow> 97 \<le> (of_char c :: nat) \<and> (of_char c :: nat) \<le> 122"

definition lower_char :: "char \<Rightarrow> char" where "lower_char c = (if upper_ascii c then char_of ((of_char c :: nat) + 32) else c)"
definition upper_char :: "char \<Rightarrow> char" where "upper_char c = (if lower_ascii c then char_of ((of_char c :: nat) - 32) else c)"

text \<open>The Kelvin sign and the dotted capital I become \<^verbatim>\<open>k\<close> and \<^verbatim>\<open>i\<close>; the long s and the dotless i become \<^verbatim>\<open>S\<close> and \<^verbatim>\<open>I\<close>; folding joins the Kelvin sign
  and the long s with their letters.\<close>

fun to_lower :: "string \<Rightarrow> string" where
  "to_lower [] = []"
| "to_lower (c # s) =
     (if c = CHR 0xE2 \<and> take 2 s = [CHR 0x84, CHR 0xAA] then CHR ''k'' # to_lower (drop 2 s)
      else if c = CHR 0xC4 \<and> take 1 s = [CHR 0xB0] then CHR ''i'' # to_lower (drop 1 s)
      else lower_char c # to_lower s)"

fun to_upper :: "string \<Rightarrow> string" where
  "to_upper [] = []"
| "to_upper (c # s) =
     (if c = CHR 0xC5 \<and> take 1 s = [CHR 0xBF] then CHR ''S'' # to_upper (drop 1 s)
      else if c = CHR 0xC4 \<and> take 1 s = [CHR 0xB1] then CHR ''I'' # to_upper (drop 1 s)
      else upper_char c # to_upper s)"

fun fold_case :: "string \<Rightarrow> string" where
  "fold_case [] = []"
| "fold_case (c # s) =
     (if c = CHR 0xE2 \<and> take 2 s = [CHR 0x84, CHR 0xAA] then CHR ''k'' # fold_case (drop 2 s)
      else if c = CHR 0xC5 \<and> take 1 s = [CHR 0xBF] then CHR ''s'' # fold_case (drop 1 s)
      else lower_char c # fold_case s)"

definition equal_fold :: "string \<Rightarrow> string \<Rightarrow> bool" where
  "equal_fold s t \<longleftrightarrow> fold_case s = fold_case t"

section \<open>Values and findings\<close>

datatype yval = YStr string | YBool bool | YSeq "yval list" | YMap "(string \<times> yval) list" | YOther

type_synonym ymap = "(string \<times> yval) list"

record finding =
  fd_service :: string
  fd_rule :: string
  fd_detail :: string
  fd_message :: string

record report =
  rp_forbidden :: "finding list"
  rp_risky :: "finding list"

record bind_mount =
  bm_source :: string
  bm_target :: string

definition newFinding :: "string \<Rightarrow> string \<Rightarrow> string \<Rightarrow> string \<Rightarrow> finding" where
  "newFinding service rule detail msg = \<lparr>fd_service = service, fd_rule = rule, fd_detail = detail, fd_message = msg\<rparr>"

definition risky :: "finding \<Rightarrow> report \<Rightarrow> report" where
  "risky f r = r\<lparr>rp_risky := rp_risky r @ [f]\<rparr>"

definition forbidden :: "finding \<Rightarrow> report \<Rightarrow> report" where
  "forbidden f r = r\<lparr>rp_forbidden := rp_forbidden r @ [f]\<rparr>"

text \<open>The type assertions \<^verbatim>\<open>v, ok := m[k].(T)\<close>; a text that is not there is empty.\<close>

definition str_at :: "ymap \<Rightarrow> string \<Rightarrow> string option" where
  "str_at m k = (case map_of m k of Some (YStr s) \<Rightarrow> Some s | _ \<Rightarrow> None)"

definition text_at :: "ymap \<Rightarrow> string \<Rightarrow> string" where
  "text_at m k = (case str_at m k of Some s \<Rightarrow> s | None \<Rightarrow> [])"

definition seq_at :: "ymap \<Rightarrow> string \<Rightarrow> yval list option" where
  "seq_at m k = (case map_of m k of Some (YSeq vs) \<Rightarrow> Some vs | _ \<Rightarrow> None)"

definition map_at :: "ymap \<Rightarrow> string \<Rightarrow> ymap option" where
  "map_at m k = (case map_of m k of Some (YMap e) \<Rightarrow> Some e | _ \<Rightarrow> None)"

definition as_text :: "yval \<Rightarrow> string" where
  "as_text v = (case v of YStr s \<Rightarrow> s | _ \<Rightarrow> [])"

definition sortedKeys :: "ymap \<Rightarrow> string list" where
  "sortedKeys m = sort (map fst m)"

section \<open>Paths that are bound\<close>

definition cleanBindPath :: "string \<Rightarrow> string" where
  "cleanBindPath p =
     (let clean = Clean (trim_space p); clean = (if clean = [] \<or> clean = ''.'' then [slash] else clean)
      in if clean = ''/var/run'' \<or> has_prefix clean ''/var/run/'' then drop 4 clean else clean)"

definition under :: "string \<Rightarrow> string \<Rightarrow> bool" where
  "under clean b \<longleftrightarrow> clean = b \<or> has_prefix clean (b @ [slash])"

definition panelDirs :: "string list" where
  "panelDirs = [''/etc/sfpanel'', ''/var/lib/sfpanel'', ''/root/.ssh'', ''/etc/sudoers.d'']"

definition forbiddenBind :: "string \<Rightarrow> bool" where
  "forbiddenBind p = list_ex (under (cleanBindPath p)) panelDirs"

definition dangerousDirs :: "string list" where
  "dangerousDirs =
     [''/etc'', ''/root'', ''/home'', ''/boot'', ''/proc'', ''/sys'', ''/dev'', ''/var/lib/sfpanel'', ''/etc/sfpanel'', ''/usr'', ''/bin'', ''/sbin'',
      ''/lib'', ''/lib64'', ''/var/lib/docker'', ''/run/containerd'']"

definition isDangerousBind :: "string \<Rightarrow> bool" where
  "isDangerousBind p = (let clean = cleanBindPath p in clean = [slash] \<or> list_ex (under clean) dangerousDirs \<or> clean = ''/run/docker.sock'')"

definition bind_message :: "(string \<Rightarrow> string) \<Rightarrow> bind_mount \<Rightarrow> string \<Rightarrow> string" where
  "bind_message quote b subject =
     subject @ '' binds sensitive host path '' @ quote (bm_source b) @ (if bm_target b = [] then [] else '' at '' @ quote (bm_target b))"

text \<open>\<^verbatim>\<open>strings.SplitN(e, ":", 3)\<close>: what is before the first colon, and between it and the second.\<close>

definition shortMount :: "string \<Rightarrow> bind_mount" where
  "shortMount e =
     (case cut_byte e (CHR '':'') of (source, rest, found) \<Rightarrow>
        \<lparr>bm_source = trim_space source, bm_target = (if found then trim_space (fst (cut_byte rest (CHR '':''))) else [])\<rparr>)"

definition longMount :: "ymap \<Rightarrow> bind_mount option" where
  "longMount e =
     (let t = text_at e ''type''
      in if \<not> equal_fold t ''bind'' \<and> t \<noteq> [] then None
         else Some \<lparr>bm_source = trim_space (text_at e ''source''), bm_target = trim_space (text_at e ''target'')\<rparr>)"

definition mountOf :: "yval \<Rightarrow> bind_mount option" where
  "mountOf v =
     (case (case v of YStr e \<Rightarrow> Some (shortMount e) | YMap e \<Rightarrow> longMount e | _ \<Rightarrow> Some \<lparr>bm_source = [], bm_target = []\<rparr>) of
        None \<Rightarrow> None
      | Some m \<Rightarrow> if bm_source m = [] \<or> \<not> has_prefix (bm_source m) [slash] then None else Some m)"

definition bindMounts :: "yval option \<Rightarrow> bind_mount list" where
  "bindMounts v = (case v of Some (YSeq vs) \<Rightarrow> List.map_filter mountOf vs | _ \<Rightarrow> [])"

definition judgeMount :: "(string \<Rightarrow> string) \<Rightarrow> string \<Rightarrow> string \<Rightarrow> bind_mount \<Rightarrow> report \<Rightarrow> report" where
  "judgeMount quote service subject m r =
     (let f = newFinding service ''bind'' (bm_source m) (bind_message quote m subject)
      in if forbiddenBind (bm_source m) then forbidden f r
         else if isDangerousBind (bm_source m) then risky f r else r)"

section \<open>A service\<close>

definition isPrivileged :: "yval option \<Rightarrow> bool" where
  "isPrivileged v = (case v of
     Some (YBool b) \<Rightarrow> b
   | Some (YStr s) \<Rightarrow> to_lower (trim_space s) \<in> set [''true'', ''1'', ''yes'', ''y'', ''on'']
   | _ \<Rightarrow> False)"

definition hostModeKeys :: "string list" where
  "hostModeKeys = [''pid'', ''network'', ''ipc'', ''uts'', ''pid_mode'', ''network_mode'', ''ipc_mode'', ''userns_mode'']"

definition judgeNamespace :: "string \<Rightarrow> string \<Rightarrow> ymap \<Rightarrow> string \<Rightarrow> report \<Rightarrow> report" where
  "judgeNamespace svcName subject svc key r =
     (case str_at svc key of
        Some v \<Rightarrow> if equal_fold v ''host'' then risky (newFinding svcName ''namespace'' (key @ '': host'') (subject @ '' sets '' @ key @ '': host'')) r else r
      | None \<Rightarrow> r)"

definition judgeCap :: "string \<Rightarrow> string \<Rightarrow> yval \<Rightarrow> report \<Rightarrow> report" where
  "judgeCap svcName subject c r =
     (let canon = trim_prefix (to_upper (trim_space (as_text c))) ''CAP_''
      in if canon \<in> set [''ALL'', ''SYS_ADMIN'', ''SYS_MODULE'', ''SYS_PTRACE'']
         then risky (newFinding svcName ''capability'' canon (subject @ '' requests disallowed capability '' @ canon)) r else r)"

definition judgeGroup :: "(string \<Rightarrow> string) \<Rightarrow> string \<Rightarrow> string \<Rightarrow> yval \<Rightarrow> report \<Rightarrow> report" where
  "judgeGroup quote svcName subject g r =
     (let name = to_lower (trim_space (as_text g))
      in if name \<in> set [''docker'', ''disk'', ''sudo'', ''wheel'', ''root'', ''kvm'']
         then risky (newFinding svcName ''group'' name (subject @ '' joins host group '' @ quote name @ '' via group_add'')) r else r)"

fun cut_any :: "string \<Rightarrow> string \<Rightarrow> string \<times> string" where
  "cut_any seps [] = ([], [])"
| "cut_any seps (c # s) = (if c \<in> set seps then ([], s) else (case cut_any seps s of (a, b) \<Rightarrow> (c # a, b)))"

definition judgeSecurity :: "(string \<Rightarrow> string) \<Rightarrow> string \<Rightarrow> string \<Rightarrow> yval \<Rightarrow> report \<Rightarrow> report" where
  "judgeSecurity quote svcName subject v r =
     (let trimmed = trim_space (as_text v);
          (key, val) = (if list_ex (\<lambda>c. c \<in> set '':='') trimmed then (case cut_any '':='' trimmed of (k, x) \<Rightarrow> (trim_space k, trim_space x)) else (trimmed, []))
      in if to_lower key \<in> set [''apparmor'', ''seccomp'', ''systempaths''] \<and> equal_fold val ''unconfined''
         then risky (newFinding svcName ''security-opt'' trimmed (subject @ '' disables '' @ quote trimmed @ '' sandbox'')) r else r)"

fun join_text :: "string \<Rightarrow> string list \<Rightarrow> string" where
  "join_text sep [] = []"
| "join_text sep [s] = s"
| "join_text sep (s # t # ts) = s @ sep @ join_text sep (t # ts)"

definition judgeDevices :: "string \<Rightarrow> string \<Rightarrow> yval list option \<Rightarrow> report \<Rightarrow> report" where
  "judgeDevices svcName subject devices r =
     (case devices of
        Some (d # ds) \<Rightarrow>
          (let listed = List.map_filter (\<lambda>v. case v of YStr s \<Rightarrow> Some (trim_space s) | _ \<Rightarrow> None) (d # ds)
           in risky (newFinding svcName ''device'' (join_text '', '' listed) (subject @ '' declares devices: passthrough not allowed'')) r)
      | _ \<Rightarrow> r)"

definition listed :: "yval list option \<Rightarrow> yval list" where
  "listed v = (case v of Some vs \<Rightarrow> vs | None \<Rightarrow> [])"

definition analyzeService :: "(string \<Rightarrow> string) \<Rightarrow> string \<Rightarrow> ymap \<Rightarrow> report \<Rightarrow> report" where
  "analyzeService quote svcName svc r =
     (let subject = ''service '' @ quote svcName;
          r = (if isPrivileged (map_of svc ''privileged'') then risky (newFinding svcName ''privileged'' ''true'' (subject @ '' sets privileged: true'')) r else r);
          r = fold (judgeNamespace svcName subject svc) hostModeKeys r;
          r = fold (judgeCap svcName subject) (listed (seq_at svc ''cap_add'')) r;
          r = fold (judgeGroup quote svcName subject) (listed (seq_at svc ''group_add'')) r;
          r = fold (judgeSecurity quote svcName subject) (listed (seq_at svc ''security_opt'')) r;
          r = fold (judgeMount quote svcName subject) (bindMounts (map_of svc ''volumes'')) r
      in judgeDevices svcName subject (seq_at svc ''devices'') r)"

section \<open>The document\<close>

definition forbiddenTopLevel :: "(string \<Rightarrow> string) \<Rightarrow> string \<Rightarrow> string \<Rightarrow> string \<Rightarrow> report \<Rightarrow> report" where
  "forbiddenTopLevel quote kind name hostPath r =
     (let p = trim_space hostPath
      in if \<not> has_prefix p [slash] \<or> \<not> forbiddenBind p then r
         else forbidden (newFinding name ''bind'' p (''top-level '' @ kind @ '' '' @ quote name @ '' binds sensitive host path '' @ quote p)) r)"

definition analyzeFiles :: "(string \<Rightarrow> string) \<Rightarrow> ymap \<Rightarrow> string \<Rightarrow> report \<Rightarrow> report" where
  "analyzeFiles quote doc kind r =
     (case map_at doc kind of
        None \<Rightarrow> r
      | Some entries \<Rightarrow>
          fold (\<lambda>name r. case map_at entries name of None \<Rightarrow> r | Some entry \<Rightarrow> forbiddenTopLevel quote kind name (text_at entry ''file'') r)
            (sortedKeys entries) r)"

definition analyzeVolumes :: "(string \<Rightarrow> string) \<Rightarrow> ymap \<Rightarrow> report \<Rightarrow> report" where
  "analyzeVolumes quote doc r =
     (case map_at doc ''volumes'' of
        None \<Rightarrow> r
      | Some volumes \<Rightarrow>
          fold (\<lambda>name r. case map_at volumes name of
              None \<Rightarrow> r
            | Some vol \<Rightarrow> (case map_at vol ''driver_opts'' of None \<Rightarrow> r | Some opts \<Rightarrow> forbiddenTopLevel quote ''volume'' name (text_at opts ''device'') r))
            (sortedKeys volumes) r)"

definition analyzeTopLevel :: "(string \<Rightarrow> string) \<Rightarrow> ymap \<Rightarrow> report \<Rightarrow> report" where
  "analyzeTopLevel quote doc r = analyzeVolumes quote doc (fold (analyzeFiles quote doc) [''secrets'', ''configs''] r)"

definition emptyReport :: report where "emptyReport = \<lparr>rp_forbidden = [], rp_risky = []\<rparr>"

definition analyzeDoc :: "(string \<Rightarrow> string) \<Rightarrow> ymap \<Rightarrow> string + report" where
  "analyzeDoc quote doc =
     (case map_at doc ''services'' of
        None \<Rightarrow> Inl ''compose YAML must contain a top-level 'services' map''
      | Some services \<Rightarrow>
          Inr (analyzeTopLevel quote doc
            (fold (\<lambda>name r. case map_at services name of None \<Rightarrow> r | Some svc \<Rightarrow> analyzeService quote name svc r) (sortedKeys services) emptyReport)))"

definition Analyze :: "(string \<Rightarrow> string) \<Rightarrow> (string \<Rightarrow> string + ymap) \<Rightarrow> string \<Rightarrow> string + report" where
  "Analyze quote yaml content =
     (case yaml content of
        Inl err \<Rightarrow> Inl (''compose YAML is invalid: '' @ err)
      | Inr doc \<Rightarrow> analyzeDoc quote doc)"

definition Report_Error :: "report \<Rightarrow> bool \<Rightarrow> string option" where
  "Report_Error r acknowledged =
     (let msgs = map fd_message (rp_forbidden r) @ (if acknowledged then [] else map fd_message (rp_risky r))
      in if msgs = [] then None else Some (join_text ''; '' msgs))"

definition ValidateAdvancedCompose :: "(string \<Rightarrow> string) \<Rightarrow> (string \<Rightarrow> string + ymap) \<Rightarrow> string \<Rightarrow> string option" where
  "ValidateAdvancedCompose quote yaml content = (case Analyze quote yaml content of Inl err \<Rightarrow> Some err | Inr r \<Rightarrow> Report_Error r True)"

definition AnalyzeCreate :: "(string \<Rightarrow> string) \<Rightarrow> string \<Rightarrow> string \<Rightarrow> string list \<Rightarrow> report" where
  "AnalyzeCreate quote name network binds =
     (let subject = (if trim_space name \<noteq> [] then ''container '' @ quote (trim_space name) else ''the new container'');
          r = fold (judgeMount quote name subject) (bindMounts (Some (YSeq (map YStr binds)))) emptyReport
      in if equal_fold (trim_space network) ''host''
         then risky (newFinding name ''namespace'' ''network: host'' (subject @ '' joins the host network'')) r else r)"

section \<open>Trimmed texts\<close>

lemma trim_runes_step: "find (\<lambda>r. r \<noteq> [] \<and> take (length r) s = r) rs = Some r \<Longrightarrow> trim_runes rs s = trim_runes rs (drop (length r) s)"
  by (simp add: trim_runes.simps [of rs s])

lemma trim_runes_stop: "find (\<lambda>r. r \<noteq> [] \<and> take (length r) s = r) rs = None \<Longrightarrow> trim_runes rs s = s"
  by (simp add: trim_runes.simps [of rs s])

lemma trim_runes_done: "find (\<lambda>r. r \<noteq> [] \<and> take (length r) (trim_runes rs s) = r) rs = None"
proof (induction rs s rule: trim_runes.induct)
  case (1 rs s)
  show ?case
  proof (cases "find (\<lambda>r. r \<noteq> [] \<and> take (length r) s = r) rs")
    case None
    then show ?thesis by (simp add: trim_runes_stop)
  next
    case (Some r)
    then show ?thesis using 1 [OF Some] by (simp add: trim_runes_step)
  qed
qed

lemma trim_runes_suffix: "\<exists>t. s = t @ trim_runes rs s"
proof (induction rs s rule: trim_runes.induct)
  case (1 rs s)
  show ?case
  proof (cases "find (\<lambda>r. r \<noteq> [] \<and> take (length r) s = r) rs")
    case None
    then show ?thesis by (simp add: trim_runes_stop)
  next
    case (Some r)
    then obtain t where "drop (length r) s = t @ trim_runes rs (drop (length r) s)" using 1 [OF Some] by blast
    then have "s = (take (length r) s @ t) @ trim_runes rs s" using Some by (simp add: trim_runes_step)
    then show ?thesis by blast
  qed
qed

lemma trim_runes_prefix:
  assumes "find (\<lambda>r. r \<noteq> [] \<and> take (length r) (s @ t) = r) rs = None"
  shows "trim_runes rs s = s"
proof -
  have "take (length r) s \<noteq> r" if "r \<in> set rs" "r \<noteq> []" for r
  proof
    assume e: "take (length r) s = r"
    have "min (length s) (length r) = length r" using e by (metis length_take)
    then have "length r \<le> length s" by linarith
    then have "take (length r) (s @ t) = r" using e by simp
    then show False using assms that unfolding find_None_iff by blast
  qed
  then have "find (\<lambda>r. r \<noteq> [] \<and> take (length r) s = r) rs = None" unfolding find_None_iff by blast
  then show ?thesis by (rule trim_runes_stop)
qed

lemma trim_space_idem [simp]: "trim_space (trim_space s) = trim_space s"
proof -
  define l where "l = trim_runes space_runes s"
  define r where "r = rev (trim_runes (map rev space_runes) (rev l))"
  obtain t where t: "rev l = t @ trim_runes (map rev space_runes) (rev l)" using trim_runes_suffix by blast
  have "rev (rev l) = r @ rev t" by (subst t) (simp add: r_def)
  then have "find (\<lambda>x. x \<noteq> [] \<and> take (length x) (r @ rev t) = x) space_runes = None"
    using trim_runes_done [of space_runes s] by (simp only: l_def [symmetric] rev_rev_ident)
  then have left: "trim_runes space_runes r = r" by (rule trim_runes_prefix)
  have "trim_runes (map rev space_runes) (rev r) = rev r"
    unfolding r_def rev_rev_ident by (rule trim_runes_stop [OF trim_runes_done])
  moreover have "trim_space s = r" by (simp add: trim_space_def r_def l_def)
  moreover have "trim_space r = rev (trim_runes (map rev space_runes) (rev r))" unfolding trim_space_def left ..
  ultimately show ?thesis by simp
qed

end
