(* ===== verification/Stack_Runner.thy ===== *)
theory Stack_Runner
  imports Compose_Safety File_Runner
begin

text \<open>
  The runner of stack steps: \<^verbatim>\<open>src/internal/feature/taskjob/stack.go\<close>, with the rule on names of \<^verbatim>\<open>src/internal/docker/compose.go\<close>.  The compose module is an
  interface of the code (\<^verbatim>\<open>StackRunner\<close>); its answers are the environment, by the number of the call, and the calls that change something are
  recorded.  The analyser of \<open>Compose_Safety\<close> decides what reaches it.
\<close>

section \<open>The compose module\<close>

datatype createError = ProjectExists | CreateFailed string

record stack_env =
  se_yaml :: "string \<Rightarrow> string + ymap"
  se_quote :: "string \<Rightarrow> string"
  se_sanitize :: "string \<Rightarrow> string"
  se_compose :: bool
  se_get :: "nat \<Rightarrow> string \<Rightarrow> string option"
  se_create :: "nat \<Rightarrow> createError option"
  se_update :: "nat \<Rightarrow> string option"
  se_up :: "nat \<Rightarrow> string list \<times> string option"
  se_cancelled :: "nat \<Rightarrow> bool"

datatype stackCall = Created string string | Updated string string | Up string

record stack_run =
  sr_tick :: nat
  sr_calls :: "stackCall list"
  sr_log :: "string list"

definition consulted :: "(nat \<Rightarrow> 'a) \<Rightarrow> stack_run \<Rightarrow> 'a \<times> stack_run" where
  "consulted f s = (f (sr_tick s), s\<lparr>sr_tick := Suc (sr_tick s)\<rparr>)"

definition called :: "stackCall \<Rightarrow> stack_run \<Rightarrow> stack_run" where
  "called c s = s\<lparr>sr_calls := sr_calls s @ [c]\<rparr>"

definition logged :: "string \<Rightarrow> stack_run \<Rightarrow> stack_run" where
  "logged line s = (if line = [] then s else s\<lparr>sr_log := sr_log s @ [line]\<rparr>)"

definition ErrInvalidYAML :: string where "ErrInvalidYAML = ''INVALID_YAML''"
definition ErrComposeForbidden :: string where "ErrComposeForbidden = ''COMPOSE_FORBIDDEN''"
definition ErrComposeRisky :: string where "ErrComposeRisky = ''COMPOSE_RISKY''"
definition ErrComposeError :: string where "ErrComposeError = ''COMPOSE_ERROR''"
definition ErrDockerUnavailable :: string where "ErrDockerUnavailable = ''DOCKER_UNAVAILABLE''"

section \<open>The guard\<close>

definition alnum_ascii :: "char \<Rightarrow> bool" where
  "alnum_ascii c \<longleftrightarrow> upper_ascii c \<or> lower_ascii c \<or> 48 \<le> (of_char c :: nat) \<and> (of_char c :: nat) \<le> 57"

definition validProjectName :: "string \<Rightarrow> bool" where
  "validProjectName name \<longleftrightarrow> name \<noteq> [] \<and> alnum_ascii (hd name) \<and> list_all (\<lambda>c. alnum_ascii c \<or> c \<in> set ''_.-'') (tl name)"

definition ValidateProjectName :: "(string \<Rightarrow> string) \<Rightarrow> string \<Rightarrow> string option" where
  "ValidateProjectName quote name =
     (if name = [] \<or> \<not> validProjectName name then Some (''invalid project name '' @ quote name)
      else if has_prefix name ''.'' \<or> has_suffix name ''.migbak'' then Some (''invalid project name '' @ quote name @ '': reserved'')
      else None)"

text \<open>The code, the reason and whether a confirmation lifts it; \<open>None\<close> is the empty code.  \<^verbatim>\<open>report.Error(true)\<close> is never nil where there is a forbidden finding.\<close>

definition stackGuard :: "stack_env \<Rightarrow> stack_step \<Rightarrow> (string \<times> string \<times> bool) option" where
  "stackGuard env step =
     (case ValidateProjectName (se_quote env) (st_name step) of
        Some err \<Rightarrow> Some (ErrInvalidName, err, False)
      | None \<Rightarrow>
          (case Analyze (se_quote env) (se_yaml env) (st_compose step) of
             Inl err \<Rightarrow> Some (ErrInvalidYAML, err, False)
           | Inr report \<Rightarrow>
               if rp_forbidden report \<noteq> [] then Some (ErrComposeForbidden, the (Report_Error report True), False)
               else (case Report_Error report False of
                   Some err \<Rightarrow> Some (ErrComposeRisky, err, True)
                 | None \<Rightarrow> None)))"

definition stack_Check :: "stack_env \<Rightarrow> stack_step \<Rightarrow> check_verdict" where
  "stack_Check env step =
     (case stackGuard env step of
        None \<Rightarrow> \<lparr>cv_step = 0, cv_refused = False, cv_code = [], cv_reason = [], cv_needs_confirm = False\<rparr>
      | Some (code, reason, confirm) \<Rightarrow> \<lparr>cv_step = 0, cv_refused = \<not> confirm, cv_code = code, cv_reason = reason, cv_needs_confirm = confirm\<rparr>)"

section \<open>What up changed\<close>

text \<open>\<^verbatim>\<open>upEvent\<close>: a line that starts with characters that belong to no word, a kind, a name and what happened to it.  Every part of the pattern
  ends where the next can start, so it is read without going back.\<close>

definition word_char :: "char \<Rightarrow> bool" where "word_char c \<longleftrightarrow> alnum_ascii c \<or> c = CHR ''_''"
definition re_space :: "char \<Rightarrow> bool" where "re_space c \<longleftrightarrow> c \<in> set [CHR 0x09, CHR 0x0A, CHR 0x0C, CHR 0x0D, CHR 0x20]"

definition eventAt :: "string \<Rightarrow> bool" where
  "eventAt line =
     (let t = dropWhile (\<lambda>c. \<not> word_char c) line
      in list_ex (\<lambda>kind. has_prefix t kind \<and>
           (let u = drop (length kind) t; v = dropWhile re_space u; w = dropWhile (\<lambda>c. \<not> re_space c) v; x = dropWhile re_space w
            in u \<noteq> v \<and> v \<noteq> w \<and> w \<noteq> x \<and>
               list_ex (\<lambda>verb. has_prefix x verb \<and> (let y = drop (length verb) x in y = [] \<or> \<not> word_char (hd y)))
                 [''Created'', ''Recreated'', ''Started'', ''Removed'']))
         [''Container'', ''Network'', ''Volume''])"

fun upScan :: "bool \<Rightarrow> string \<Rightarrow> bool" where
  "upScan lineStart [] = (lineStart \<and> eventAt [])"
| "upScan lineStart (c # s) = (lineStart \<and> eventAt (c # s) \<or> upScan (c = newline) s)"

definition upChanged :: "string \<Rightarrow> bool" where
  "upChanged out = upScan True out"

section \<open>The step\<close>

text \<open>Writing the compose file: what was done, or why not.\<close>

definition writeStack :: "stack_env \<Rightarrow> stack_step \<Rightarrow> stack_run \<Rightarrow> (string + bool) \<times> stack_run" where
  "writeStack env step s =
     (case consulted (\<lambda>t. se_get env t (st_name step)) s of
        (have, s) \<Rightarrow>
          if have = Some (st_compose step) then (Inr False, logged (''stack '' @ st_name step @ '': compose file unchanged'') s)
          else (case consulted (se_create env) (called (Created (st_name step) (st_compose step)) s) of
              (None, s) \<Rightarrow> (Inr True, logged (''stack '' @ st_name step @ '': compose file created'') s)
            | (Some (CreateFailed err), s) \<Rightarrow> (Inl err, s)
            | (Some ProjectExists, s) \<Rightarrow>
                (case consulted (se_update env) (called (Updated (st_name step) (st_compose step)) s) of
                   (Some err, s) \<Rightarrow> (Inl err, s)
                 | (None, s) \<Rightarrow> (Inr True, logged (''stack '' @ st_name step @ '': compose file updated'') s))))"

definition upStack :: "stack_env \<Rightarrow> stack_step \<Rightarrow> bool \<Rightarrow> stack_run \<Rightarrow> job_result \<times> stack_run" where
  "upStack env step wrote s =
     (let summary = (if wrote then ''compose file written'' else ''compose file unchanged'');
          ((lines, err), s) = consulted (se_up env) (called (Up (st_name step)) s);
          s = fold logged lines s;
          out = concat (map (\<lambda>l. l @ [newline]) lines);
          changed = (wrote \<or> upChanged out);
          (ended, s) = consulted (se_cancelled env) s
      in (if ended then result JobCancelled True None ''cancelled while the stack came up''
          else case err of
              Some e \<Rightarrow> result JobFailed changed None (ErrComposeError @ '': '' @ se_sanitize env (trim_space (firstNonEmpty [out, e])))
            | None \<Rightarrow> result JobSucceeded changed None (summary @ (if changed then '', up'' else '', already up'')), s))"

definition runGuarded :: "stack_env \<Rightarrow> stack_step \<Rightarrow> stack_run \<Rightarrow> job_result \<times> stack_run" where
  "runGuarded env step s =
     (if \<not> se_compose env then (refusedResult ErrDockerUnavailable ''Docker Compose is not available on this node'', s)
      else (case writeStack env step s of
          (Inl err, s) \<Rightarrow> (result JobFailed False None (ErrComposeError @ '': '' @ se_sanitize env err), s)
        | (Inr wrote, s) \<Rightarrow>
            if \<not> st_up step then (result JobSucceeded wrote None (if wrote then ''compose file written'' else ''compose file unchanged''), s)
            else upStack env step wrote s))"

definition runStack :: "stack_env \<Rightarrow> bool \<Rightarrow> stack_step \<Rightarrow> stack_run \<Rightarrow> job_result \<times> stack_run" where
  "runStack env confirmed step s =
     (case stackGuard env step of
        Some (code, reason, confirm) \<Rightarrow>
          if \<not> confirm \<or> \<not> confirmed then (refusedResult code reason, s) else runGuarded env step s
      | None \<Rightarrow> runGuarded env step s)"

text \<open>\<^verbatim>\<open>Start\<close> hands the result to \<^verbatim>\<open>Finish\<close>.\<close>

definition stack_Start :: "stack_env \<Rightarrow> job_spec \<Rightarrow> stack_step \<Rightarrow> stack_run \<Rightarrow> job_result \<times> stack_run" where
  "stack_Start env spec step s = runStack env (spec_confirmed spec) step s"

end
