(* ===== verification/Stack_Safety.thy ===== *)
theory Stack_Safety
  imports Stack_Runner
begin

text \<open>
  The forbidden tier of the analyser is exact for the host paths a document spells out: it has a forbidden finding just when one of the absolute paths it
  binds, with \<^verbatim>\<open>.\<close>, \<^verbatim>\<open>..\<close> and doubled slashes resolved, is one of the panel's own directories or under one.  A stack step hands compose no other document, and a
  risky one only when it was confirmed.  What a relative source or one with \<^verbatim>\<open>${VAR}\<close> leads to is known only when compose resolves it, and is not judged here.
\<close>

section \<open>The panel's own directories\<close>

definition panelTrees :: "string list list" where
  "panelTrees = [[''etc'', ''sfpanel''], [''var'', ''lib'', ''sfpanel''], [''root'', ''.ssh''], [''etc'', ''sudoers.d'']]"

definition inPanel :: "string list \<Rightarrow> bool" where
  "inPanel ns \<longleftrightarrow> list_ex (\<lambda>b. take (length b) ns = b) panelTrees"

lemma panelDirs_trees: "panelDirs = map abs_path panelTrees"
  by code_simp

lemma panelTrees_proper: "b \<in> set panelTrees \<Longrightarrow> list_all proper b \<and> b \<noteq> [] \<and> hd b \<noteq> ''run'' \<and> take 2 b \<noteq> [''var'', ''run'']"
proof -
  have "list_all (\<lambda>b. list_all proper b \<and> b \<noteq> [] \<and> hd b \<noteq> ''run'' \<and> take 2 b \<noteq> [''var'', ''run'']) panelTrees" by code_simp
  then show "b \<in> set panelTrees \<Longrightarrow> list_all proper b \<and> b \<noteq> [] \<and> hd b \<noteq> ''run'' \<and> take 2 b \<noteq> [''var'', ''run'']"
    unfolding list_all_iff [of _ panelTrees] by blast
qed

lemma under_names:
  assumes "list_all proper ns" and "list_all proper b" and "b \<noteq> []"
  shows "under (abs_path ns) (abs_path b) \<longleftrightarrow> take (length b) ns = b"
  using abs_path_under [OF assms] unfolding under_def by (metis append_eq_conv_conj append_take_drop_id)

lemma panel_names:
  assumes "list_all proper ns"
  shows "list_ex (under (abs_path ns)) panelDirs \<longleftrightarrow> inPanel ns"
  unfolding panelDirs_trees inPanel_def using assms panelTrees_proper under_names by (auto simp: list_ex_iff)

lemma take_two: "take 2 xs = [a, b] \<Longrightarrow> \<exists>r. xs = a # b # r"
  by (metis append_Cons append_Nil append_take_drop_id)

lemma cleanBindPath_names:
  assumes "IsAbs p" and "trim_space p = p"
  shows "cleanBindPath p = abs_path (if take 2 (namesOf p) = [''var'', ''run''] then tl (namesOf p) else namesOf p)"
proof -
  define ns where "ns = namesOf p"
  have pr: "list_all proper ns" by (simp add: ns_def)
  have c: "Clean (trim_space p) = abs_path ns" using assms by (simp add: Clean_abs ns_def)
  have ne: "abs_path ns \<noteq> []" "abs_path ns \<noteq> ''.''" by (simp_all add: abs_path_def slash_def)
  have vr: "''/var/run'' = abs_path [''var'', ''run'']" "''/var/run/'' = abs_path [''var'', ''run''] @ [slash]" "list_all proper [''var'', ''run'']"
    by code_simp+
  have "under (abs_path ns) (abs_path [''var'', ''run'']) \<longleftrightarrow> take 2 ns = [''var'', ''run'']"
    using under_names [OF pr vr(3)] by (simp add: numeral_2_eq_2)
  then have e: "cleanBindPath p = (if take 2 ns = [''var'', ''run''] then drop 4 (abs_path ns) else abs_path ns)"
    unfolding cleanBindPath_def c Let_def vr(1,2) under_def using ne by simp
  have "drop 4 (abs_path ns) = abs_path (tl ns)" if "take 2 ns = [''var'', ''run'']"
  proof -
    from take_two [OF that] obtain r where "ns = ''var'' # ''run'' # r" ..
    then show ?thesis by (simp add: abs_path_def slash_def)
  qed
  then show ?thesis using e by (simp add: ns_def)
qed

lemma forbiddenBind_iff:
  assumes "IsAbs p" and "trim_space p = p"
  shows "forbiddenBind p \<longleftrightarrow> inPanel (namesOf p)"
proof -
  define ns where "ns = namesOf p"
  have pr: "list_all proper ns" by (simp add: ns_def)
  show ?thesis
  proof (cases "take 2 ns = [''var'', ''run'']")
    case False
    then show ?thesis unfolding forbiddenBind_def cleanBindPath_names [OF assms] ns_def [symmetric] using panel_names [OF pr] by simp
  next
    case True
    from take_two [OF this] obtain r where r: "ns = ''var'' # ''run'' # r" ..
    have "\<not> inPanel (''run'' # r)"
    proof
      assume "inPanel (''run'' # r)"
      then obtain b where b: "b \<in> set panelTrees" "take (length b) (''run'' # r) = b" by (auto simp: inPanel_def list_ex_iff)
      then obtain h t where "b = h # t" using panelTrees_proper [OF b(1)] by (metis neq_Nil_conv)
      then show False using panelTrees_proper [OF b(1)] b(2) by simp
    qed
    moreover have "\<not> inPanel ns"
    proof
      assume "inPanel ns"
      then obtain b where b: "b \<in> set panelTrees" "take (length b) ns = b" by (auto simp: inPanel_def list_ex_iff)
      have "length b \<ge> 2" using b(1) by (auto simp: panelTrees_def)
      then have "take 2 b = take 2 ns" using b(2) by (metis min.absorb1 take_take)
      then show False using panelTrees_proper [OF b(1)] True by simp
    qed
    moreover have "list_all proper (''run'' # r)" using pr r by simp
    ultimately show ?thesis unfolding forbiddenBind_def cleanBindPath_names [OF assms] ns_def [symmetric] using panel_names r True by simp
  qed
qed

section \<open>What a document binds\<close>

text \<open>The host sides of what a document mounts, read from the rules of compose: a service's volume in the short form, \<^verbatim>\<open>SOURCE\<close> or \<^verbatim>\<open>SOURCE:TARGET...\<close>, or in the
  long form of type bind or of no type; the file of a secret or a config; the device of a volume's driver options.  Blanks around a path do not count.\<close>

inductive binds :: "ymap \<Rightarrow> string \<Rightarrow> bool" for doc where
  short_form: "map_at doc ''services'' = Some services \<Longrightarrow> map_at services name = Some svc \<Longrightarrow> seq_at svc ''volumes'' = Some vs \<Longrightarrow>
    YStr (source @ rest) \<in> set vs \<Longrightarrow> CHR '':'' \<notin> set source \<Longrightarrow> rest = [] \<or> hd rest = CHR '':'' \<Longrightarrow> binds doc (trim_space source)"
| long_form: "map_at doc ''services'' = Some services \<Longrightarrow> map_at services name = Some svc \<Longrightarrow> seq_at svc ''volumes'' = Some vs \<Longrightarrow>
    YMap e \<in> set vs \<Longrightarrow> text_at e ''type'' = [] \<or> equal_fold (text_at e ''type'') ''bind'' \<Longrightarrow> str_at e ''source'' = Some source \<Longrightarrow> binds doc (trim_space source)"
| secret_file: "map_at doc ''secrets'' = Some m \<Longrightarrow> map_at m name = Some e \<Longrightarrow> str_at e ''file'' = Some p \<Longrightarrow> binds doc (trim_space p)"
| config_file: "map_at doc ''configs'' = Some m \<Longrightarrow> map_at m name = Some e \<Longrightarrow> str_at e ''file'' = Some p \<Longrightarrow> binds doc (trim_space p)"
| device: "map_at doc ''volumes'' = Some m \<Longrightarrow> map_at m name = Some vol \<Longrightarrow> map_at vol ''driver_opts'' = Some opts \<Longrightarrow> str_at opts ''device'' = Some p \<Longrightarrow>
    binds doc (trim_space p)"

text \<open>The paths the analyser looks at, in its order.\<close>

definition servicePaths :: "ymap \<Rightarrow> string list" where
  "servicePaths svc = map bm_source (bindMounts (map_of svc ''volumes''))"

definition topPath :: "string \<Rightarrow> string list" where
  "topPath p = (if has_prefix (trim_space p) [slash] then [trim_space p] else [])"

definition boundPaths :: "ymap \<Rightarrow> string list" where
  "boundPaths doc =
     (case map_at doc ''services'' of None \<Rightarrow> [] | Some m \<Rightarrow> concat (map (\<lambda>n. case map_at m n of None \<Rightarrow> [] | Some svc \<Rightarrow> servicePaths svc) (sortedKeys m))) @
     concat (map (\<lambda>kind. case map_at doc kind of None \<Rightarrow> []
       | Some m \<Rightarrow> concat (map (\<lambda>n. case map_at m n of None \<Rightarrow> [] | Some e \<Rightarrow> topPath (text_at e ''file'')) (sortedKeys m))) [''secrets'', ''configs'']) @
     (case map_at doc ''volumes'' of None \<Rightarrow> [] | Some m \<Rightarrow>
        concat (map (\<lambda>n. case map_at m n of None \<Rightarrow> [] | Some vol \<Rightarrow> (case map_at vol ''driver_opts'' of None \<Rightarrow> [] | Some o' \<Rightarrow> topPath (text_at o' ''device''))) (sortedKeys m)))"

text \<open>The forbidden findings, as the paths they name: what each part adds.\<close>

definition fpaths :: "report \<Rightarrow> string list" where
  "fpaths r = map fd_detail (rp_forbidden r)"

lemma fold_adds:
  assumes "\<And>x r. h (f x r) = h r @ g x"
  shows "h (fold f xs r) = h r @ concat (map g xs)"
  by (induction xs arbitrary: r) (simp_all add: assms)

lemma fpaths_risky [simp]: "fpaths (risky f r) = fpaths r"
  by (simp add: fpaths_def risky_def)

lemma fpaths_forbidden [simp]: "fpaths (forbidden f r) = fpaths r @ [fd_detail f]"
  by (simp add: fpaths_def forbidden_def)

lemma fpaths_quiet:
  "fpaths (judgeNamespace a b svc k r) = fpaths r @ []" "fpaths (judgeCap a b v r) = fpaths r @ []" "fpaths (judgeGroup quote a b v r) = fpaths r @ []"
  "fpaths (judgeSecurity quote a b v r) = fpaths r @ []" "fpaths (judgeDevices a b vs r) = fpaths r @ []"
  unfolding judgeNamespace_def judgeCap_def judgeGroup_def judgeSecurity_def judgeDevices_def Let_def split_def
  by (simp_all split: option.splits list.splits)

lemma fpaths_mount: "fpaths (judgeMount quote a b m r) = fpaths r @ filter forbiddenBind [bm_source m]"
  by (simp add: judgeMount_def Let_def newFinding_def)

lemma fpaths_service: "fpaths (analyzeService quote name svc r) = fpaths r @ filter forbiddenBind (servicePaths svc)"
proof -
  have m: "concat (map (\<lambda>m. filter forbiddenBind [bm_source m]) ms) = filter forbiddenBind (map bm_source ms)" for ms by (induction ms) simp_all
  have e: "concat (map (\<lambda>x. []) xs) = ([] :: string list)" for xs :: "'x list" by (induction xs) simp_all
  show ?thesis unfolding analyzeService_def Let_def servicePaths_def
    by (simp only: fpaths_quiet fold_adds [of fpaths, OF fpaths_quiet(1)] fold_adds [of fpaths, OF fpaths_quiet(2)] fold_adds [of fpaths, OF fpaths_quiet(3)]
      fold_adds [of fpaths, OF fpaths_quiet(4)] fold_adds [of fpaths, OF fpaths_mount] e m append_Nil2 if_distrib [of fpaths] fpaths_risky if_cancel)
qed

lemma fpaths_top: "fpaths (forbiddenTopLevel quote kind name p r) = fpaths r @ filter forbiddenBind (topPath p)"
  by (simp add: forbiddenTopLevel_def topPath_def Let_def newFinding_def)

lemma filter_concat_map: "filter P (concat (map g xs)) = concat (map (\<lambda>x. filter P (g x)) xs)"
  by (induction xs) simp_all

lemma fpaths_files:
  "fpaths (analyzeFiles quote doc kind r) = fpaths r @ filter forbiddenBind (case map_at doc kind of None \<Rightarrow> []
     | Some m \<Rightarrow> concat (map (\<lambda>n. case map_at m n of None \<Rightarrow> [] | Some e \<Rightarrow> topPath (text_at e ''file'')) (sortedKeys m)))"
proof (cases "map_at doc kind")
  case (Some m)
  have "fpaths (case map_at m n of None \<Rightarrow> r | Some entry \<Rightarrow> forbiddenTopLevel quote kind n (text_at entry ''file'') r) =
      fpaths r @ filter forbiddenBind (case map_at m n of None \<Rightarrow> [] | Some e \<Rightarrow> topPath (text_at e ''file''))" for n r
    by (simp add: fpaths_top split: option.splits)
  from fold_adds [of fpaths, OF this] show ?thesis unfolding analyzeFiles_def Some by (simp add: filter_concat_map)
qed (simp add: analyzeFiles_def)

lemma fpaths_volumes:
  "fpaths (analyzeVolumes quote doc r) = fpaths r @ filter forbiddenBind (case map_at doc ''volumes'' of None \<Rightarrow> [] | Some m \<Rightarrow>
     concat (map (\<lambda>n. case map_at m n of None \<Rightarrow> [] | Some vol \<Rightarrow> (case map_at vol ''driver_opts'' of None \<Rightarrow> [] | Some o' \<Rightarrow> topPath (text_at o' ''device''))) (sortedKeys m)))"
proof (cases "map_at doc ''volumes''")
  case (Some m)
  have "fpaths (case map_at m n of None \<Rightarrow> r
      | Some vol \<Rightarrow> (case map_at vol ''driver_opts'' of None \<Rightarrow> r | Some opts \<Rightarrow> forbiddenTopLevel quote ''volume'' n (text_at opts ''device'') r)) =
      fpaths r @ filter forbiddenBind (case map_at m n of None \<Rightarrow> []
        | Some vol \<Rightarrow> (case map_at vol ''driver_opts'' of None \<Rightarrow> [] | Some o' \<Rightarrow> topPath (text_at o' ''device'')))" for n r
    by (simp add: fpaths_top split: option.splits)
  from fold_adds [of fpaths, OF this] show ?thesis unfolding analyzeVolumes_def Some by (simp add: filter_concat_map)
qed (simp add: analyzeVolumes_def)

lemma fpaths_doc:
  assumes "analyzeDoc quote doc = Inr r"
  shows "fpaths r = filter forbiddenBind (boundPaths doc)"
proof -
  obtain m where m: "map_at doc ''services'' = Some m" using assms by (auto simp: analyzeDoc_def split: option.splits)
  have "fpaths (case map_at m n of None \<Rightarrow> r | Some svc \<Rightarrow> analyzeService quote n svc r) =
      fpaths r @ filter forbiddenBind (case map_at m n of None \<Rightarrow> [] | Some svc \<Rightarrow> servicePaths svc)" for n r
    by (simp add: fpaths_service split: option.splits)
  note services = fold_adds [of fpaths, OF this]
  have z: "fpaths emptyReport = []" by (simp add: fpaths_def emptyReport_def)
  have "r = analyzeTopLevel quote doc
      (fold (\<lambda>name r. case map_at m name of None \<Rightarrow> r | Some svc \<Rightarrow> analyzeService quote name svc r) (sortedKeys m) emptyReport)"
    using assms m by (simp add: analyzeDoc_def)
  then show ?thesis unfolding boundPaths_def m analyzeTopLevel_def
    by (simp only: fpaths_volumes fold_adds [of fpaths, OF fpaths_files] services z filter_append filter_concat_map option.case append_Nil append_assoc)
qed

lemma bound_abs:
  assumes "p \<in> set (boundPaths doc)"
  shows "IsAbs p" and "trim_space p = p"
proof -
  have top: "q \<in> set (topPath x) \<Longrightarrow> IsAbs q \<and> trim_space q = q" for q x by (auto simp: topPath_def IsAbs_def split: if_splits)
  have trimmed: "mountOf v = Some m \<Longrightarrow> trim_space (bm_source m) = bm_source m \<and> IsAbs (bm_source m)" for v m
    by (auto simp: mountOf_def shortMount_def longMount_def Let_def IsAbs_def split: yval.splits option.splits if_splits prod.splits)
  have svc: "q \<in> set (servicePaths svc) \<Longrightarrow> IsAbs q \<and> trim_space q = q" for q svc
    using trimmed by (auto simp: servicePaths_def bindMounts_def List.map_filter_def split: option.splits yval.splits)
  have "IsAbs p \<and> trim_space p = p" using assms unfolding boundPaths_def
    by (auto split: option.splits if_splits dest: top svc)
  then show "IsAbs p" "trim_space p = p" by simp_all
qed

lemma analysis_paths:
  assumes "yaml content = Inr doc" and "Analyze quote yaml content = Inr r"
  shows "map fd_detail (rp_forbidden r) = filter (\<lambda>p. inPanel (namesOf p)) (boundPaths doc)"
proof -
  have "analyzeDoc quote doc = Inr r" using assms by (simp add: Analyze_def)
  from fpaths_doc [OF this] have "map fd_detail (rp_forbidden r) = filter forbiddenBind (boundPaths doc)" by (simp add: fpaths_def)
  moreover have "forbiddenBind p \<longleftrightarrow> inPanel (namesOf p)" if "p \<in> set (boundPaths doc)" for p
    using forbiddenBind_iff [OF bound_abs [OF that]] .
  ultimately show ?thesis by (simp cong: filter_cong)
qed

text \<open>What the analyser looks at are the absolute paths among what the document binds.\<close>

lemma map_at_key: "map_at m n = Some x \<Longrightarrow> n \<in> set (sortedKeys m)"
  by (force simp: map_at_def sortedKeys_def dest: map_of_SomeD split: option.splits yval.splits)

lemma cut_byte_parts: "cut_byte e c = (a, b, found) \<Longrightarrow> c \<notin> set a \<and> e = a @ (if found then c # b else [])"
  by (induction e arbitrary: a b found) (auto split: if_splits prod.splits)

lemma cut_byte_source: "c \<notin> set a \<Longrightarrow> rest = [] \<or> hd rest = c \<Longrightarrow> fst (cut_byte (a @ rest) c) = a"
  by (induction a) (cases rest; auto split: prod.splits)+

definition shortBind :: "yval \<Rightarrow> string \<Rightarrow> bool" where
  "shortBind v p \<longleftrightarrow> (\<exists>source rest. v = YStr (source @ rest) \<and> CHR '':'' \<notin> set source \<and> (rest = [] \<or> hd rest = CHR '':'') \<and> p = trim_space source)"

definition longBind :: "yval \<Rightarrow> string \<Rightarrow> bool" where
  "longBind v p \<longleftrightarrow> (\<exists>e source. v = YMap e \<and> (text_at e ''type'' = [] \<or> equal_fold (text_at e ''type'') ''bind'') \<and> str_at e ''source'' = Some source \<and> p = trim_space source)"

lemma not_abs_Nil [simp]: "\<not> IsAbs []" "\<not> IsAbs (trim_space [])" "\<not> has_prefix [] [slash]"
  by code_simp+

lemma text_at_abs: "IsAbs p \<Longrightarrow> p = trim_space (text_at e k) \<longleftrightarrow> (\<exists>x. str_at e k = Some x \<and> p = trim_space x)"
  by (auto simp: text_at_def split: option.splits)

lemma shortMount_source: "bm_source (shortMount e) = p \<longleftrightarrow> shortBind (YStr e) p"
proof
  assume "bm_source (shortMount e) = p"
  moreover obtain a b found where c: "cut_byte e (CHR '':'') = (a, b, found)" using prod_cases3 by blast
  ultimately show "shortBind (YStr e) p" using cut_byte_parts [OF c] unfolding shortBind_def
    by (intro exI [of _ a] exI [of _ "if found then CHR '':'' # b else []"]) (auto simp: shortMount_def)
next
  assume "shortBind (YStr e) p"
  then obtain source rest where "e = source @ rest" "CHR '':'' \<notin> set source" "rest = [] \<or> hd rest = CHR '':''" "p = trim_space source" by (auto simp: shortBind_def)
  then show "bm_source (shortMount e) = p" using cut_byte_source [of "CHR '':''" source rest] by (auto simp: shortMount_def split: prod.split)
qed

lemma mountOf_iff: "(\<exists>m. mountOf v = Some m \<and> bm_source m = p) \<longleftrightarrow> IsAbs p \<and> (shortBind v p \<or> longBind v p)"
proof (cases v)
  case (YStr e)
  then show ?thesis using shortMount_source [of e p] by (auto simp: mountOf_def longBind_def IsAbs_def)
next
  case (YMap e)
  then show ?thesis using text_at_abs [of p e "''source''"]
    by (auto simp: mountOf_def longMount_def shortBind_def longBind_def Let_def IsAbs_def)
qed (simp_all add: mountOf_def shortBind_def longBind_def)

lemma servicePaths_iff:
  "p \<in> set (servicePaths svc) \<longleftrightarrow> IsAbs p \<and> (\<exists>vs. seq_at svc ''volumes'' = Some vs \<and> (\<exists>v\<in>set vs. shortBind v p \<or> longBind v p))"
proof -
  have "p \<in> set (servicePaths svc) \<longleftrightarrow> (\<exists>vs. seq_at svc ''volumes'' = Some vs \<and> (\<exists>v\<in>set vs. \<exists>m. mountOf v = Some m \<and> bm_source m = p))"
    by (auto simp: servicePaths_def bindMounts_def seq_at_def List.map_filter_def image_iff split: option.splits yval.splits) (metis option.sel)+
  then show ?thesis unfolding mountOf_iff by blast
qed

lemma topPath_iff: "p \<in> set (topPath (text_at e k)) \<longleftrightarrow> IsAbs p \<and> (\<exists>x. str_at e k = Some x \<and> p = trim_space x)"
proof -
  have "p \<in> set (topPath (text_at e k)) \<longleftrightarrow> IsAbs p \<and> p = trim_space (text_at e k)" by (auto simp: topPath_def IsAbs_def)
  then show ?thesis using text_at_abs by blast
qed

lemma in_case: "p \<in> set (case x of None \<Rightarrow> [] | Some y \<Rightarrow> f y) \<longleftrightarrow> (\<exists>y. x = Some y \<and> p \<in> set (f y))"
  by (cases x) simp_all

lemma in_entries: "p \<in> set (concat (map (\<lambda>n. case map_at m n of None \<Rightarrow> [] | Some e \<Rightarrow> f e) (sortedKeys m))) \<longleftrightarrow> (\<exists>n e. map_at m n = Some e \<and> p \<in> set (f e))"
proof -
  have "p \<in> set (concat (map (\<lambda>n. case map_at m n of None \<Rightarrow> [] | Some e \<Rightarrow> f e) (sortedKeys m))) \<longleftrightarrow>
      (\<exists>n\<in>set (sortedKeys m). p \<in> set (case map_at m n of None \<Rightarrow> [] | Some e \<Rightarrow> f e))" by simp
  then show ?thesis unfolding in_case using map_at_key by blast
qed

lemma bound_parts:
  "p \<in> set (boundPaths doc) \<longleftrightarrow>
     (\<exists>m n svc. map_at doc ''services'' = Some m \<and> map_at m n = Some svc \<and> p \<in> set (servicePaths svc)) \<or>
     (\<exists>kind\<in>set [''secrets'', ''configs'']. \<exists>m n e. map_at doc kind = Some m \<and> map_at m n = Some e \<and> p \<in> set (topPath (text_at e ''file''))) \<or>
     (\<exists>m n vol opts. map_at doc ''volumes'' = Some m \<and> map_at m n = Some vol \<and> map_at vol ''driver_opts'' = Some opts \<and> p \<in> set (topPath (text_at opts ''device'')))"
proof -
  have k: "p \<in> set (concat (map g [''secrets'', ''configs''])) \<longleftrightarrow> (\<exists>kind\<in>set [''secrets'', ''configs'']. p \<in> set (g kind))" for g :: "string \<Rightarrow> string list" by simp
  show ?thesis unfolding boundPaths_def set_append Un_iff k in_case in_entries by blast
qed

lemma bound_iff: "p \<in> set (boundPaths doc) \<longleftrightarrow> IsAbs p \<and> binds doc p"
proof
  assume "p \<in> set (boundPaths doc)"
  then show "IsAbs p \<and> binds doc p" unfolding bound_parts servicePaths_iff topPath_iff
    by (auto simp: shortBind_def longBind_def intro: binds.intros)
next
  assume "IsAbs p \<and> binds doc p"
  then have a: "IsAbs p" and "binds doc p" by auto
  from this(2) show "p \<in> set (boundPaths doc)"
  proof cases
    case (short_form services name svc vs source rest)
    then have "shortBind (YStr (source @ rest)) p" by (auto simp: shortBind_def)
    then show ?thesis unfolding bound_parts servicePaths_iff using a short_form by blast
  next
    case (long_form services name svc vs e source)
    then have "longBind (YMap e) p" by (auto simp: longBind_def)
    then show ?thesis unfolding bound_parts servicePaths_iff using a long_form by blast
  next
    case (secret_file m name e x)
    then have "p \<in> set (topPath (text_at e ''file''))" using a by (auto simp: topPath_iff)
    then show ?thesis unfolding bound_parts using secret_file by auto
  next
    case (config_file m name e x)
    then have "p \<in> set (topPath (text_at e ''file''))" using a by (auto simp: topPath_iff)
    then show ?thesis unfolding bound_parts using config_file by auto
  next
    case (device m name vol opts x)
    then have "p \<in> set (topPath (text_at opts ''device''))" using a by (auto simp: topPath_iff)
    then show ?thesis unfolding bound_parts using device by blast
  qed
qed


section \<open>What a stack step hands over\<close>

lemma consulted_calls: "consulted f s = (x, s') \<Longrightarrow> sr_calls s' = sr_calls s"
  by (auto simp: consulted_def)

lemma called_calls [simp]: "sr_calls (called c s) = sr_calls s @ [c]"
  by (simp add: called_def)

lemma logged_calls [simp]: "sr_calls (logged l s) = sr_calls s"
  by (simp add: logged_def)

lemma fold_logged_calls [simp]: "sr_calls (fold logged ls s) = sr_calls s"
  by (induction ls arbitrary: s) simp_all

definition stepCalls :: "stack_step \<Rightarrow> stackCall set" where
  "stepCalls step = {Created (st_name step) (st_compose step), Updated (st_name step) (st_compose step), Up (st_name step)}"

lemma writeStack_calls: "set (sr_calls (snd (writeStack env step s))) \<subseteq> set (sr_calls s) \<union> stepCalls step"
  unfolding writeStack_def by (auto simp: stepCalls_def dest!: consulted_calls split: prod.splits option.splits createError.splits)

lemma upStack_calls: "set (sr_calls (snd (upStack env step wrote s))) \<subseteq> set (sr_calls s) \<union> stepCalls step"
  unfolding upStack_def Let_def by (auto simp: stepCalls_def dest!: consulted_calls split: prod.splits)

lemma runGuarded_calls: "set (sr_calls (snd (runGuarded env step s))) \<subseteq> set (sr_calls s) \<union> stepCalls step"
proof -
  obtain x s' where w: "writeStack env step s = (x, s')" by fastforce
  have a: "set (sr_calls s') \<subseteq> set (sr_calls s) \<union> stepCalls step" using writeStack_calls [of env step s] w by simp
  show ?thesis
  proof (cases x)
    case (Inr wrote)
    then show ?thesis using a upStack_calls [of env step wrote s'] w by (auto simp: runGuarded_def)
  qed (use a w in \<open>auto simp: runGuarded_def\<close>)
qed

lemma Report_Error_None: "Report_Error r ack = None \<longleftrightarrow> rp_forbidden r = [] \<and> (ack \<or> rp_risky r = [])"
  by (auto simp: Report_Error_def Let_def)

text \<open>C7: a stack step is behind the endpoints' guards.  Whatever it has compose create, update or bring up is the step's own stack under a name the
  compose module takes and with the step's own document; that document could be read, binds none of the panel's directories by an absolute path it spells
  out, and asks for nothing risky unless the step was confirmed.\<close>

theorem stack_step_guarded:
  assumes "sr_calls s = []" and "c \<in> set (sr_calls (snd (stack_Start env spec step s)))"
  shows "c \<in> stepCalls step \<and> ValidateProjectName (se_quote env) (st_name step) = None \<and>
    (\<exists>doc r. se_yaml env (st_compose step) = Inr doc \<and> Analyze (se_quote env) (se_yaml env) (st_compose step) = Inr r \<and>
      (\<forall>p. binds doc p \<and> IsAbs p \<longrightarrow> \<not> inPanel (namesOf p)) \<and> (rp_risky r = [] \<or> spec_confirmed spec))"
proof -
  have run: "snd (stack_Start env spec step s) = snd (runGuarded env step s)" and g: "stackGuard env step = None \<or> (\<exists>a b. stackGuard env step = Some (a, b, True)) \<and> spec_confirmed spec"
    using assms by (auto simp: stack_Start_def runStack_def split: option.splits if_splits)
  have v: "ValidateProjectName (se_quote env) (st_name step) = None" using g by (auto simp: stackGuard_def split: option.splits)
  have "\<exists>r. Analyze (se_quote env) (se_yaml env) (st_compose step) = Inr r \<and> rp_forbidden r = [] \<and> (rp_risky r = [] \<or> spec_confirmed spec)"
    using g v by (auto simp: stackGuard_def Report_Error_None split: sum.splits option.splits if_splits)
  then obtain r where r: "Analyze (se_quote env) (se_yaml env) (st_compose step) = Inr r" "rp_forbidden r = []" "rp_risky r = [] \<or> spec_confirmed spec" by blast
  obtain doc where doc: "se_yaml env (st_compose step) = Inr doc" using r(1) by (auto simp: Analyze_def split: sum.splits)
  have "filter (\<lambda>p. inPanel (namesOf p)) (boundPaths doc) = []" using analysis_paths [OF doc r(1)] r(2) by simp
  then have "\<forall>p. binds doc p \<and> IsAbs p \<longrightarrow> \<not> inPanel (namesOf p)" by (auto simp: filter_empty_conv bound_iff)
  moreover have "c \<in> stepCalls step" using runGuarded_calls [of env step s] run assms by auto
  ultimately show ?thesis using v doc r by blast
qed

section \<open>A sample stack\<close>

definition sampleDoc :: "string \<Rightarrow> ymap" where
  "sampleDoc src = [(''services'', YMap [(''web'', YMap [(''image'', YStr ''nginx''), (''volumes'', YSeq [YStr (src @ '':/data:ro'')])])])]"

definition sampleStackEnv :: stack_env where
  "sampleStackEnv = \<lparr>se_yaml = (\<lambda>text. Inr (sampleDoc text)), se_quote = (\<lambda>s. s), se_sanitize = (\<lambda>s. s), se_compose = True,
     se_get = (\<lambda>_ _. None), se_create = (\<lambda>_. None), se_update = (\<lambda>_. None),
     se_up = (\<lambda>_. ([''Container web-1  Started''], None)), se_cancelled = (\<lambda>_. False)\<rparr>"

definition sampleStackStep :: stack_step where
  "sampleStackStep = \<lparr>st_name = ''web'', st_compose = ''/srv/data'', st_up = True\<rparr>"

definition sampleStackSpec :: job_spec where
  "sampleStackSpec = \<lparr>spec_id = ''20260101-000000-00000a-0'', spec_run_id = ''20260101-000000-00000a'', spec_task = ''web'', spec_step = 0,
     spec_kind = StepStack, spec_confirmed = False, spec_packages = None, spec_service = None, spec_command = None, spec_file = None,
     spec_stack = Some sampleStackStep, spec_reboot = None\<rparr>"

definition sampleStackRun :: stack_run where "sampleStackRun = \<lparr>sr_tick = 0, sr_calls = [], sr_log = []\<rparr>"


theorem stack_step_guarded_witness:
  "Up ''web'' \<in> set (sr_calls (snd (stack_Start sampleStackEnv sampleStackSpec sampleStackStep sampleStackRun))) \<and>
   binds (sampleDoc ''/srv/data'') ''/srv/data'' \<and> \<not> inPanel (namesOf ''/srv/data'')"
proof -
  have c: "sr_calls (snd (stack_Start sampleStackEnv sampleStackSpec sampleStackStep sampleStackRun)) = [Created ''web'' ''/srv/data'', Up ''web'']" by code_simp
  have start: "sr_calls sampleStackRun = []" by (simp add: sampleStackRun_def)
  have up: "Up ''web'' \<in> set (sr_calls (snd (stack_Start sampleStackEnv sampleStackSpec sampleStackStep sampleStackRun)))" unfolding c by simp
  have d: "se_yaml sampleStackEnv (st_compose sampleStackStep) = Inr (sampleDoc ''/srv/data'')" by (simp add: sampleStackEnv_def sampleStackStep_def)
  have b: "binds (sampleDoc ''/srv/data'') (trim_space ''/srv/data'')"
    by (rule short_form [of _ _ "''web''" _ "[YStr (''/srv/data'' @ '':/data:ro'')]" _ "'':/data:ro''"]) (simp add: sampleDoc_def map_at_def seq_at_def)+
  have p: "trim_space ''/srv/data'' = ''/srv/data''" "IsAbs ''/srv/data''" by code_simp+
  show ?thesis using stack_step_guarded [OF start up] up b p unfolding d sum.inject by auto
qed

end
