(* ===== verification/Session_Auth.thy ===== *)
theory Session_Auth
  imports Compose_Safety Job_Node
begin

text \<open>
  Who a request comes from: \<^verbatim>\<open>src/internal/auth/proxyauth.go\<close> (the header with which panels of a cluster sign the requests they send each other),
  \<^verbatim>\<open>stepup.go\<close>, \<^verbatim>\<open>wsticket.go\<close>, \<^verbatim>\<open>wsauth.go\<close> and the middleware \<^verbatim>\<open>src/internal/api/middleware/auth.go\<close>.  The keyed hash \<open>mac\<close>, SHA-256 and the JWT
  library are parameters, randomness and the clock are arguments.  A time is in nanoseconds; every reading of the clock is its own.
\<close>

section \<open>The signed header\<close>

definition millisecond :: duration where "millisecond = 1000000"
definition proxyClockSkew :: duration where "proxyClockSkew = 30 * second"
definition nonceCacheTTL :: duration where "nonceCacheTTL = 2 * proxyClockSkew"
definition sameRequestWindow :: duration where "sameRequestWindow = 50 * millisecond"

definition UnixMilli :: "time \<Rightarrow> int" where "UnixMilli t = t div millisecond"

type_synonym nonce_cache = "(string, time) fmap"

record proxy_auth =
  pa_sign :: string
  pa_accept :: "string list"
  pa_nonces :: nonce_cache

definition SetProxySecrets :: "string \<Rightarrow> string list \<Rightarrow> proxy_auth \<Rightarrow> proxy_auth" where
  "SetProxySecrets sign accept a = a\<lparr>pa_sign := sign, pa_accept := accept\<rparr>"

definition SetClusterProxySecret :: "string \<Rightarrow> proxy_auth \<Rightarrow> proxy_auth" where
  "SetClusterProxySecret secret a = SetProxySecrets secret (if secret \<noteq> [] then [secret] else []) a"

definition storeNonce :: "time \<Rightarrow> string \<Rightarrow> nonce_cache \<Rightarrow> nonce_cache" where
  "storeNonce now nonce cache =
     (let cache = fmupd nonce now cache
      in if fcard (fmdom cache) > 2048
         then fmfilter (\<lambda>k. case fmlookup cache k of None \<Rightarrow> True | Some t \<Rightarrow> now - t \<le> nonceCacheTTL) cache else cache)"

definition registerNonce :: "time \<Rightarrow> string \<Rightarrow> nonce_cache \<Rightarrow> bool \<times> nonce_cache" where
  "registerNonce now nonce cache =
     (case fmlookup cache nonce of
        Some seen \<Rightarrow>
          if now - seen \<le> sameRequestWindow then (True, cache)
          else if now - seen \<le> nonceCacheTTL then (False, cache)
          else (True, storeNonce now nonce cache)
      | None \<Rightarrow> (True, storeNonce now nonce cache))"

text \<open>\<^verbatim>\<open>strings.SplitN(header, ":", 3)\<close> with three parts.\<close>

definition splitHeader :: "string \<Rightarrow> (string \<times> string \<times> string) option" where
  "splitHeader header =
     (case cut_byte header (CHR '':'') of
        (ts, rest, True) \<Rightarrow> (case cut_byte rest (CHR '':'') of (nonce, m, True) \<Rightarrow> Some (ts, nonce, m) | _ \<Rightarrow> None)
      | _ \<Rightarrow> None)"

definition signedText :: "string \<Rightarrow> string \<Rightarrow> string \<Rightarrow> string \<Rightarrow> string" where
  "signedText ts nonce method path = ts @ '':'' @ nonce @ '':'' @ method @ '':'' @ path"

text \<open>\<open>now\<close> is the clock when the stamp is judged and \<open>later\<close> when the nonce is recorded.\<close>

definition validateV2 :: "(string \<Rightarrow> string \<Rightarrow> string) \<Rightarrow> string \<Rightarrow> string \<Rightarrow> string \<Rightarrow> string \<Rightarrow> time \<Rightarrow> time \<Rightarrow> nonce_cache \<Rightarrow> bool \<times> nonce_cache" where
  "validateV2 mac secret header method path now later cache =
     (case splitHeader header of
        None \<Rightarrow> (False, cache)
      | Some (tsStr, nonce, providedMAC) \<Rightarrow>
          (case atoi tsStr of
             None \<Rightarrow> (False, cache)
           | Some ts \<Rightarrow>
               (let skewMs = proxyClockSkew div millisecond
                in if ts < UnixMilli now - skewMs \<or> ts > UnixMilli now + skewMs then (False, cache)
                   else if providedMAC \<noteq> hexEncode (mac secret (signedText tsStr nonce method path)) then (False, cache)
                   else registerNonce later nonce cache)))"

fun trySecrets :: "(string \<Rightarrow> string \<Rightarrow> string) \<Rightarrow> string list \<Rightarrow> string \<Rightarrow> string \<Rightarrow> string \<Rightarrow> (nat \<Rightarrow> time) \<Rightarrow> nat \<Rightarrow> nonce_cache \<Rightarrow> bool \<times> nonce_cache" where
  "trySecrets mac [] header method path clock i cache = (False, cache)"
| "trySecrets mac (secret # rest) header method path clock i cache =
     (if secret = [] then trySecrets mac rest header method path clock i cache
      else (case validateV2 mac secret header method path (clock i) (clock (Suc i)) cache of
          (True, cache) \<Rightarrow> (True, cache)
        | (False, cache) \<Rightarrow> trySecrets mac rest header method path clock (i + 2) cache))"

definition IsInternalProxyRequest :: "(string \<Rightarrow> string \<Rightarrow> string) \<Rightarrow> string \<Rightarrow> string \<Rightarrow> string \<Rightarrow> (nat \<Rightarrow> time) \<Rightarrow> proxy_auth \<Rightarrow> bool \<times> proxy_auth" where
  "IsInternalProxyRequest mac v2 method uri clock a =
     (if pa_accept a = [] \<or> v2 = [] then (False, a)
      else (case trySecrets mac (pa_accept a) v2 method uri clock 0 (pa_nonces a) of (ok, cache) \<Rightarrow> (ok, a\<lparr>pa_nonces := cache\<rparr>)))"

text \<open>\<open>random\<close> are the sixteen bytes read, unless reading them fails.\<close>

definition SignProxyRequestV2With :: "(string \<Rightarrow> string \<Rightarrow> string) \<Rightarrow> string \<Rightarrow> string \<Rightarrow> string \<Rightarrow> string option \<Rightarrow> time \<Rightarrow> string" where
  "SignProxyRequestV2With mac key method path random now =
     (if key = [] then []
      else (case random of
          None \<Rightarrow> []
        | Some bytes \<Rightarrow>
            (let nonce = hexEncode bytes; ts = itoa (UnixMilli now)
             in ts @ '':'' @ nonce @ '':'' @ hexEncode (mac key (signedText ts nonce method path)))))"

definition SignProxyRequestV2 :: "(string \<Rightarrow> string \<Rightarrow> string) \<Rightarrow> string \<Rightarrow> string \<Rightarrow> string option \<Rightarrow> time \<Rightarrow> proxy_auth \<Rightarrow> string" where
  "SignProxyRequestV2 mac method path random now a = SignProxyRequestV2With mac (pa_sign a) method path random now"

section \<open>The word of a manager\<close>

definition StepUpProofWith :: "(string \<Rightarrow> string \<Rightarrow> string) \<Rightarrow> (string \<Rightarrow> string) \<Rightarrow> string \<Rightarrow> string \<Rightarrow> string \<Rightarrow> string" where
  "StepUpProofWith mac sum256 key proxyHeader body =
     hexEncode (mac key (''step-up'' @ [newline] @ proxyHeader @ [newline] @ hexEncode (sum256 body)))"

definition VerifyStepUpProof :: "(string \<Rightarrow> string \<Rightarrow> string) \<Rightarrow> (string \<Rightarrow> string) \<Rightarrow> string \<Rightarrow> string \<Rightarrow> string \<Rightarrow> proxy_auth \<Rightarrow> bool" where
  "VerifyStepUpProof mac sum256 proxyHeader body proof' a =
     (proxyHeader \<noteq> [] \<and> proof' \<noteq> [] \<and> list_ex (\<lambda>key. key \<noteq> [] \<and> proof' = StepUpProofWith mac sum256 key proxyHeader body) (pa_accept a))"

section \<open>Tickets for streams\<close>

definition wsTicketTTL :: duration where "wsTicketTTL = 60 * second"

record ws_ticket =
  wt_username :: string
  wt_expires :: time

type_synonym ws_tickets = "(string, ws_ticket) fmap"

definition MintWSTicket :: "string \<Rightarrow> string option \<Rightarrow> time \<Rightarrow> ws_tickets \<Rightarrow> string \<times> ws_tickets" where
  "MintWSTicket username random now tickets =
     (case random of
        None \<Rightarrow> ([], tickets)
      | Some bytes \<Rightarrow>
          (let tickets' = (if fcard (fmdom tickets) > 1024
                 then fmfilter (\<lambda>k. case fmlookup tickets k of None \<Rightarrow> True | Some e \<Rightarrow> \<not> now > wt_expires e) tickets else tickets)
           in (hexEncode bytes, fmupd (hexEncode bytes) \<lparr>wt_username = username, wt_expires = now + wsTicketTTL\<rparr> tickets')))"

definition ConsumeWSTicket :: "string \<Rightarrow> time \<Rightarrow> ws_tickets \<Rightarrow> string option \<times> ws_tickets" where
  "ConsumeWSTicket ticket now tickets =
     (if ticket = [] then (None, tickets)
      else (case fmlookup tickets ticket of
          None \<Rightarrow> (None, tickets)
        | Some e \<Rightarrow> (if now > wt_expires e then None else Some (wt_username e), fmdrop ticket tickets)))"

definition ClearWSTickets :: "ws_tickets \<Rightarrow> ws_tickets" where "ClearWSTickets tickets = fmempty"

text \<open>\<open>parse\<close> is \<^verbatim>\<open>ParseToken\<close>, the JWT library's reading of a token under a key, which an empty key refuses.\<close>

definition ParseToken :: "(string \<Rightarrow> string \<Rightarrow> string option) \<Rightarrow> string \<Rightarrow> string \<Rightarrow> string option" where
  "ParseToken parse token secret = (if secret = [] then None else parse token secret)"

definition AuthenticateWSRequest :: "(string \<Rightarrow> string \<Rightarrow> string option) \<Rightarrow> string \<Rightarrow> string \<Rightarrow> string \<Rightarrow> bool \<Rightarrow> time \<Rightarrow> ws_tickets \<Rightarrow> string \<times> ws_tickets" where
  "AuthenticateWSRequest parse jwtSecret ticket token loopback now tickets =
     (if ticket \<noteq> []
      then (case ConsumeWSTicket ticket now tickets of (Some username, tickets) \<Rightarrow> (username, tickets) | (None, tickets) \<Rightarrow> ([], tickets))
      else if token = [] \<or> \<not> loopback then ([], tickets)
      else (case ParseToken parse token jwtSecret of None \<Rightarrow> ([], tickets) | Some username \<Rightarrow> (username, tickets)))"

section \<open>The middleware\<close>

record http_request =
  hr_method :: string
  hr_path :: string
  hr_uri :: string
  hr_proxyV2 :: string
  hr_originalUser :: string
  hr_authorization :: string
  hr_queryToken :: string

text \<open>The next handler runs with a user name and the mark that the request is a cluster call, or the request is answered 401.\<close>

datatype authVerdict = Passed string bool | Denied string string

definition ErrMissingToken :: string where "ErrMissingToken = ''MISSING_TOKEN''"
definition ErrInvalidToken :: string where "ErrInvalidToken = ''INVALID_TOKEN''"

definition allowsQueryToken :: "string \<Rightarrow> bool" where
  "allowsQueryToken path \<longleftrightarrow> path = ''/api/v1/files/download'' \<or> path = ''/api/v1/files/thumbnail'' \<or> path = ''/api/v1/system/backup''"

definition bearer :: "(string \<Rightarrow> string \<Rightarrow> string option) \<Rightarrow> string \<Rightarrow> string \<Rightarrow> authVerdict" where
  "bearer parse secret header =
     (case cut_byte header (CHR '' '') of
        (scheme, token, found) \<Rightarrow>
          if \<not> found \<or> to_lower scheme \<noteq> ''bearer'' then Denied ErrInvalidToken ''Invalid authorization header format''
          else (case ParseToken parse token secret of
              None \<Rightarrow> Denied ErrInvalidToken ''Invalid or expired token''
            | Some username \<Rightarrow> Passed username False))"

definition JWTMiddleware :: "(string \<Rightarrow> string \<Rightarrow> string) \<Rightarrow> (string \<Rightarrow> string \<Rightarrow> string option) \<Rightarrow> string \<Rightarrow> (nat \<Rightarrow> time) \<Rightarrow> http_request \<Rightarrow> proxy_auth \<Rightarrow> authVerdict \<times> proxy_auth" where
  "JWTMiddleware mac parse secret clock r a =
     (case IsInternalProxyRequest mac (hr_proxyV2 r) (hr_method r) (hr_uri r) clock a of
        (True, a) \<Rightarrow> (Passed (if hr_originalUser r = [] then ''admin'' else hr_originalUser r) True, a)
      | (False, a) \<Rightarrow>
          if hr_authorization r \<noteq> [] then (bearer parse secret (hr_authorization r), a)
          else if hr_queryToken r \<noteq> [] \<and> allowsQueryToken (hr_path r) then (bearer parse secret (''Bearer '' @ hr_queryToken r), a)
          else (Denied ErrMissingToken ''Authorization header is required'', a))"

end
