(* ===== verification/Event_Runs.thy ===== *)
theory Event_Runs
  imports Main
begin

text \<open>
  What stays true of a part of the program while events happen to it: the contract of one event, and what it gives for any number of them.  The parts
  interpret it on their own operations: the nonces of signed headers, the tickets for streams and the used codes of an authenticator.
\<close>

locale event_run =
  fixes happens :: "'s \<Rightarrow> 'e \<Rightarrow> 's" and allowed :: "'e \<Rightarrow> bool" and keeps :: "'s \<Rightarrow> bool"
  assumes keeps_one: "keeps s \<Longrightarrow> allowed e \<Longrightarrow> keeps (happens s e)"
begin

lemma keeps_all: "keeps s \<Longrightarrow> list_all allowed es \<Longrightarrow> keeps (foldl happens s es)"
  by (induction es arbitrary: s) (auto intro: keeps_one)

end

end
