(* ===== verification/Session_Safety.thy ===== *)
theory Session_Safety
  imports Session_Auth Job_Safety Event_Runs
begin

text \<open>
  A cluster call is one that a holder of the cluster's secret signed for this very endpoint a moment ago, and its header is taken once: again only
  within the fifty milliseconds a request's own checks need, or after the time the nonce is kept, which for a stamp thirty seconds ahead ends up to a
  millisecond too early.  A ticket opens one stream.
\<close>

section \<open>What an accepted header is\<close>

lemma fst_is: "fst x = v \<Longrightarrow> \<exists>y. x = (v, y)"
  by (cases x) simp

lemma registerNonce_False: "registerNonce now nonce cache = (False, c) \<Longrightarrow> c = cache"
  by (auto simp: registerNonce_def split: option.splits if_splits)

lemma validateV2_False: "validateV2 mac secret h m p now later cache = (False, c) \<Longrightarrow> c = cache"
  by (auto simp: validateV2_def Let_def dest: registerNonce_False split: option.splits prod.splits if_splits)

definition signedBy :: "(string \<Rightarrow> string \<Rightarrow> string) \<Rightarrow> string \<Rightarrow> string \<Rightarrow> string \<Rightarrow> string \<Rightarrow> string \<Rightarrow> time \<Rightarrow> bool" where
  "signedBy mac secret header method path nonce now \<longleftrightarrow>
     (\<exists>tsStr ts. splitHeader header = Some (tsStr, nonce, hexEncode (mac secret (signedText tsStr nonce method path))) \<and> atoi tsStr = Some ts \<and>
        \<bar>ts - UnixMilli now\<bar> \<le> 30000)"

lemma skew_ms: "proxyClockSkew div millisecond = 30000"
  by (simp add: proxyClockSkew_def millisecond_def)

lemma validateV2_True:
  "validateV2 mac secret h m p now later cache = (True, c) \<longleftrightarrow> (\<exists>nonce. signedBy mac secret h m p nonce now \<and> registerNonce later nonce cache = (True, c))"
  unfolding validateV2_def signedBy_def skew_ms Let_def
  by (auto split: option.splits if_splits)

lemma trySecrets_True:
  assumes "trySecrets mac secrets h m p clock i cache = (True, c)"
  shows "\<exists>secret\<in>set secrets. \<exists>k nonce. secret \<noteq> [] \<and> signedBy mac secret h m p nonce (clock k) \<and> registerNonce (clock (Suc k)) nonce cache = (True, c)"
  using assms
proof (induction secrets arbitrary: i)
  case (Cons secret rest)
  obtain ok c1 where v: "validateV2 mac secret h m p (clock i) (clock (Suc i)) cache = (ok, c1)" by fastforce
  show ?case
  proof (cases "secret \<noteq> [] \<and> ok")
    case True
    then show ?thesis using Cons.prems v validateV2_True [of mac secret h m p "clock i" "clock (Suc i)" cache c] by auto
  next
    case False
    then have "\<exists>j. trySecrets mac rest h m p clock j cache = (True, c)"
      using Cons.prems v validateV2_False [of mac secret h m p "clock i" "clock (Suc i)" cache c1] by (cases ok) (auto split: if_splits)
    then show ?thesis using Cons.IH by fastforce
  qed
qed simp

lemma trySecrets_takes:
  assumes "key \<in> set secrets" and "key \<noteq> []" and "\<And>i. signedBy mac key h m p nonce (clock i)" and "\<And>i. fst (registerNonce (clock i) nonce cache)"
  shows "fst (trySecrets mac secrets h m p clock i cache)"
  using assms(1)
proof (induction secrets arbitrary: i)
  case (Cons secret rest)
  obtain ok c1 where v: "validateV2 mac secret h m p (clock i) (clock (Suc i)) cache = (ok, c1)" by fastforce
  show ?case
  proof (cases "secret \<noteq> [] \<and> ok")
    case False
    have "secret \<noteq> key"
    proof
      assume k: "secret = key"
      obtain c where "registerNonce (clock (Suc i)) nonce cache = (True, c)" using assms(4) [of "Suc i"] by (metis eq_fst_iff)
      then have "validateV2 mac key h m p (clock i) (clock (Suc i)) cache = (True, c)"
        using validateV2_True [of mac key h m p "clock i" "clock (Suc i)" cache c] assms(3) [of i] by blast
      then show False using v k False assms(2) by simp
    qed
    then have "key \<in> set rest" using Cons.prems by simp
    from Cons.IH [OF this] have ih: "\<And>j. fst (trySecrets mac rest h m p clock j cache)" by simp
    show ?thesis using False v validateV2_False [of mac secret h m p "clock i" "clock (Suc i)" cache c1] ih by (cases ok) auto
  qed (use v in simp)
qed simp

lemma IsInternalProxyRequest_True:
  assumes "IsInternalProxyRequest mac h m u clock a = (True, a')"
  shows "\<exists>secret\<in>set (pa_accept a). \<exists>k nonce. secret \<noteq> [] \<and> signedBy mac secret h m u nonce (clock k) \<and>
    registerNonce (clock (Suc k)) nonce (pa_nonces a) = (True, pa_nonces a') \<and> pa_accept a' = pa_accept a"
proof -
  obtain ok c where t: "trySecrets mac (pa_accept a) h m u clock 0 (pa_nonces a) = (ok, c)" by fastforce
  then have "ok" "a' = a\<lparr>pa_nonces := c\<rparr>" using assms by (auto simp: IsInternalProxyRequest_def split: if_splits)
  then show ?thesis using trySecrets_True [of mac "pa_accept a" h m u clock 0 "pa_nonces a" c] t by auto
qed

text \<open>C9: only a cluster call starts a job.  When a request that the middleware let through changes the jobs of a node, its header was signed, with a
  secret this node accepts, for the method and the address of this very request, within thirty seconds of a reading of this node's clock.\<close>

theorem only_signed_requests_start_jobs:
  assumes "JWTMiddleware mac parse secret clock r a = (Passed username verified, a')" and "StartJob env verified body username n = (answer, n')" and "n' \<noteq> n"
  shows "\<exists>key\<in>set (pa_accept a). key \<noteq> [] \<and> (\<exists>k nonce. signedBy mac key (hr_proxyV2 r) (hr_method r) (hr_uri r) nonce (clock k))"
proof -
  have v: "verified" using assms(2,3) by (auto simp: StartJob_def split: if_splits)
  obtain ok a1 where i: "IsInternalProxyRequest mac (hr_proxyV2 r) (hr_method r) (hr_uri r) clock a = (ok, a1)" by fastforce
  have "ok"
  proof (rule ccontr)
    assume "\<not> ok"
    then have "fst (JWTMiddleware mac parse secret clock r a) \<noteq> Passed username True"
      using i by (auto simp: JWTMiddleware_def bearer_def split: prod.splits option.splits if_splits)
    then show False using assms(1) v by simp
  qed
  then obtain key k nonce where "key \<in> set (pa_accept a)" "key \<noteq> []" "signedBy mac key (hr_proxyV2 r) (hr_method r) (hr_uri r) nonce (clock k)"
    using IsInternalProxyRequest_True [of mac "hr_proxyV2 r" "hr_method r" "hr_uri r" clock a a1] i by metis
  then show ?thesis by (intro bexI [of _ key] conjI exI)
qed

section \<open>What one panel signs another takes\<close>

lemma hexEncode_no_colon: "CHR '':'' \<notin> set (hexEncode s)"
proof -
  have "list_all (\<lambda>d. CHR '':'' \<noteq> hexDigit d) [0..<16]" by code_simp
  then have h: "CHR '':'' \<noteq> hexDigit d" if "d < 16" for d using that unfolding list_all_iff by simp
  show ?thesis
  proof (induction s)
    case (Cons c s)
    have "CHR '':'' \<noteq> hexDigit (of_char c div 16)" "CHR '':'' \<noteq> hexDigit (of_char c mod 16)" by (rule h [OF of_char_div_16], rule h) simp
    then show ?case using Cons unfolding hexEncode_def list.simps concat.simps set_append set_simps by blast
  qed (simp add: hexEncode_def)
qed

lemma nat_digits_no_colon: "CHR '':'' \<notin> set (nat_digits n)"
proof (induction n rule: nat_digits.induct)
  case (1 n)
  have "list_all (\<lambda>d. CHR '':'' \<noteq> digit_char d) [0..<10]" by code_simp
  then have h: "CHR '':'' \<noteq> digit_char d" if "d < 10" for d using that unfolding list_all_iff by simp
  show ?case
  proof (cases "n < 10")
    case True
    then have "nat_digits n = [digit_char n]" by (subst nat_digits.simps) simp
    then show ?thesis using h [OF True] by (metis empty_iff insert_iff list.set)
  next
    case False
    then have "nat_digits n = nat_digits (n div 10) @ [digit_char (n mod 10)]" by (subst nat_digits.simps) simp
    moreover have "CHR '':'' \<noteq> digit_char (n mod 10)" by (rule h) simp
    ultimately show ?thesis using 1 [OF False] by (metis UnE empty_iff insert_iff list.set set_append)
  qed
qed

lemma splitHeader_signed: "CHR '':'' \<notin> set ts \<Longrightarrow> CHR '':'' \<notin> set nonce \<Longrightarrow> splitHeader (ts @ '':'' @ nonce @ '':'' @ x) = Some (ts, nonce, x)"
  by (simp add: splitHeader_def)

lemma signed_header:
  assumes "key \<noteq> []" and "0 \<le> UnixMilli sent" and "UnixMilli sent < 2 ^ 63" and "\<bar>UnixMilli sent - UnixMilli now\<bar> \<le> 30000"
  shows "signedBy mac key (SignProxyRequestV2With mac key method path (Some bytes) sent) method path (hexEncode bytes) now"
proof -
  have ts: "CHR '':'' \<notin> set (itoa (UnixMilli sent))" using nat_digits_no_colon assms(2) by (auto simp: itoa_def)
  have "splitHeader (SignProxyRequestV2With mac key method path (Some bytes) sent) =
      Some (itoa (UnixMilli sent), hexEncode bytes, hexEncode (mac key (signedText (itoa (UnixMilli sent)) (hexEncode bytes) method path)))"
    unfolding SignProxyRequestV2With_def Let_def using assms(1) splitHeader_signed [OF ts hexEncode_no_colon] by simp
  then show ?thesis unfolding signedBy_def using atoi_itoa [OF assms(2,3)] assms(4) by auto
qed

lemma signed_nonempty: "key \<noteq> [] \<Longrightarrow> SignProxyRequestV2With mac key method path (Some bytes) sent \<noteq> []"
  by (simp add: SignProxyRequestV2With_def Let_def)

lemma register_fresh: "fmlookup cache nonce = None \<Longrightarrow> fst (registerNonce now nonce cache)"
  by (simp add: registerNonce_def)

lemma signed_taken:
  assumes "key \<in> set (pa_accept a)" and "key \<noteq> []" and "0 \<le> UnixMilli sent" and "UnixMilli sent < 2 ^ 63"
    and "\<And>i. \<bar>UnixMilli sent - UnixMilli (clock i)\<bar> \<le> 30000" and "\<And>i. fst (registerNonce (clock i) (hexEncode bytes) (pa_nonces a))"
  shows "fst (IsInternalProxyRequest mac (SignProxyRequestV2With mac key method path (Some bytes) sent) method path clock a)"
proof -
  let ?h = "SignProxyRequestV2With mac key method path (Some bytes) sent"
  have "fst (trySecrets mac (pa_accept a) ?h method path clock 0 (pa_nonces a))"
    by (rule trySecrets_takes [OF assms(1,2) signed_header [OF assms(2-5)] assms(6)])
  then show ?thesis using assms(1,2) signed_nonempty by (auto simp: IsInternalProxyRequest_def split: prod.splits)
qed

text \<open>C35: what one panel signs another takes.  The middleware lets a request through as a cluster call, in the name of the user it says it is sent for, when it is
  signed with a key the node accepts, whichever of its accepted keys are tried before, as long as the two clocks are within thirty seconds of each other
  and the nonce is new.\<close>

theorem signed_request_is_taken:
  assumes "hr_proxyV2 r = SignProxyRequestV2With mac key (hr_method r) (hr_uri r) (Some bytes) sent"
    and "key \<in> set (pa_accept a)" and "key \<noteq> []" and "0 \<le> UnixMilli sent" and "UnixMilli sent < 2 ^ 63"
    and "\<forall>i. \<bar>UnixMilli sent - UnixMilli (clock i)\<bar> \<le> 30000" and "fmlookup (pa_nonces a) (hexEncode bytes) = None"
  shows "fst (JWTMiddleware mac parse secret clock r a) = Passed (if hr_originalUser r = [] then ''admin'' else hr_originalUser r) True"
proof -
  have "fst (IsInternalProxyRequest mac (hr_proxyV2 r) (hr_method r) (hr_uri r) clock a)" unfolding assms(1)
    by (rule signed_taken [OF assms(2-5)]) (use assms(6) register_fresh [OF assms(7)] in auto)
  then show ?thesis by (auto simp: JWTMiddleware_def split: prod.splits)
qed

section \<open>A header is taken once\<close>

text \<open>What happens at a node between two requests: other requests carry headers, and the keys change.\<close>

datatype proxy_event = Asked string string string "nat \<Rightarrow> time" | Keys string "string list"

fun happen :: "(string \<Rightarrow> string \<Rightarrow> string) \<Rightarrow> proxy_auth \<Rightarrow> proxy_event \<Rightarrow> proxy_auth" where
  "happen mac a (Asked h m u clock) = snd (IsInternalProxyRequest mac h m u clock a)"
| "happen mac a (Keys sign accept) = SetProxySecrets sign accept a"

fun readings :: "proxy_event \<Rightarrow> (nat \<Rightarrow> time) option" where
  "readings (Asked h m u clock) = Some clock"
| "readings (Keys sign accept) = None"

lemma storeNonce_keeps:
  assumes "fmlookup cache nonce = Some t" and "now \<le> t + nonceCacheTTL" and "other \<noteq> nonce"
  shows "fmlookup (storeNonce now other cache) nonce = Some t"
  using assms by (auto simp: storeNonce_def Let_def)

lemma storeNonce_stores: "fmlookup (storeNonce now nonce cache) nonce = Some now"
  by (simp add: storeNonce_def Let_def nonceCacheTTL_def proxyClockSkew_def)

lemma registerNonce_keeps:
  assumes "fmlookup cache nonce = Some t" and "now \<le> t + nonceCacheTTL"
  shows "fmlookup (snd (registerNonce now other cache)) nonce = Some t"
proof (cases "other = nonce")
  case True
  then show ?thesis using assms by (auto simp: registerNonce_def)
next
  case False
  then show ?thesis using assms(1) storeNonce_keeps [OF assms False] by (auto simp: registerNonce_def split: option.splits)
qed

lemma validateV2_keeps:
  assumes "fmlookup cache nonce = Some t" and "later \<le> t + nonceCacheTTL"
  shows "fmlookup (snd (validateV2 mac secret h m p now later cache)) nonce = Some t"
  using assms registerNonce_keeps [OF assms] by (auto simp: validateV2_def Let_def split: option.splits)

lemma trySecrets_keeps:
  assumes "fmlookup cache nonce = Some t" and "\<And>i. clock i \<le> t + nonceCacheTTL"
  shows "fmlookup (snd (trySecrets mac secrets h m p clock i cache)) nonce = Some t"
  using assms(1)
proof (induction secrets arbitrary: i cache)
  case (Cons secret rest)
  have k: "fmlookup (snd (validateV2 mac secret h m p (clock i) (clock (Suc i)) cache)) nonce = Some t"
    by (rule validateV2_keeps [OF Cons.prems assms(2)])
  obtain ok c where v: "validateV2 mac secret h m p (clock i) (clock (Suc i)) cache = (ok, c)" by fastforce
  then show ?case using Cons k by (cases ok) auto
qed simp

lemma IsInternalProxyRequest_keeps:
  assumes "fmlookup (pa_nonces a) nonce = Some t" and "\<And>i. clock i \<le> t + nonceCacheTTL"
  shows "fmlookup (pa_nonces (snd (IsInternalProxyRequest mac h m u clock a))) nonce = Some t"
  using assms(1) trySecrets_keeps [where clock = clock, OF assms, of mac "pa_accept a" h m u 0] by (auto simp: IsInternalProxyRequest_def split: prod.splits)

definition readBefore :: "time \<Rightarrow> proxy_event \<Rightarrow> bool" where
  "readBefore limit e \<longleftrightarrow> (\<forall>clock. readings e = Some clock \<longrightarrow> (\<forall>i. clock i \<le> limit))"

interpretation nonce_run: event_run "happen mac" "readBefore (t + nonceCacheTTL)" "\<lambda>a. fmlookup (pa_nonces a) nonce = Some t" for mac t nonce
proof
  fix a :: proxy_auth and e
  assume "fmlookup (pa_nonces a) nonce = Some t" "readBefore (t + nonceCacheTTL) e"
  then show "fmlookup (pa_nonces (happen mac a e)) nonce = Some t"
    using IsInternalProxyRequest_keeps by (cases e) (auto simp: SetProxySecrets_def readBefore_def)
qed

lemma kept_nonce_refused:
  assumes "fmlookup (pa_nonces a) nonce = Some t" and "splitHeader h = Some (ts, nonce, x)"
    and "\<forall>i. t + sameRequestWindow < clock i \<and> clock i \<le> t + nonceCacheTTL"
  shows "\<not> fst (IsInternalProxyRequest mac h m u clock a)"
proof
  assume f: "fst (IsInternalProxyRequest mac h m u clock a)"
  obtain ok a' where r: "IsInternalProxyRequest mac h m u clock a = (ok, a')" by fastforce
  with f have "ok" by simp
  then obtain key k n where s: "signedBy mac key h m u n (clock k)" and g: "registerNonce (clock (Suc k)) n (pa_nonces a) = (True, pa_nonces a')"
    using IsInternalProxyRequest_True [of mac h m u clock a a'] r by metis
  have "n = nonce" using s assms(2) by (auto simp: signedBy_def)
  moreover have "t + sameRequestWindow < clock (Suc k)" "clock (Suc k) \<le> t + nonceCacheTTL" using assms(3) by auto
  ultimately show False using g assms(1) by (simp add: registerNonce_def)
qed

text \<open>C10: a header is taken once.  After a node took a header with a nonce it did not hold, it refuses every request with the same nonce, for whichever
  endpoint, from fifty milliseconds after it recorded the nonce to the time the nonce is kept, whatever else it was asked and however its keys changed in between.\<close>

theorem header_is_taken_once:
  assumes "IsInternalProxyRequest mac h m u clock a = (True, a1)" and "splitHeader h = Some (ts, nonce, x)" and "fmlookup (pa_nonces a) nonce = None"
  shows "\<exists>k. \<forall>events. list_all (readBefore (clock k + nonceCacheTTL)) events \<longrightarrow>
    (\<forall>h' ts' x' m' u' clock'. splitHeader h' = Some (ts', nonce, x') \<longrightarrow>
       (\<forall>i. clock k + sameRequestWindow < clock' i \<and> clock' i \<le> clock k + nonceCacheTTL) \<longrightarrow>
       \<not> fst (IsInternalProxyRequest mac h' m' u' clock' (foldl (happen mac) a1 events)))"
proof -
  obtain key k n where s: "signedBy mac key h m u n (clock k)" and g: "registerNonce (clock (Suc k)) n (pa_nonces a) = (True, pa_nonces a1)"
    using IsInternalProxyRequest_True [OF assms(1)] by metis
  have "n = nonce" using s assms(2) by (auto simp: signedBy_def)
  with g assms(3) have "pa_nonces a1 = storeNonce (clock (Suc k)) nonce (pa_nonces a)" by (simp add: registerNonce_def)
  then have "fmlookup (pa_nonces a1) nonce = Some (clock (Suc k))" using storeNonce_stores by simp
  from kept_nonce_refused [OF nonce_run.keeps_all [OF this]] show ?thesis by blast
qed

text \<open>How a header held back is taken again.  A stamp is compared in whole milliseconds and the age of a nonce in nanoseconds: a header whose stamp is thirty
  seconds ahead of the node's clock is taken at once, and once more half a millisecond after its nonce's sixty seconds, when the stamp still counts as
  thirty seconds old.\<close>

theorem held_back_header_is_taken_again:
  assumes "key \<in> set (pa_accept a)" and "key \<noteq> []" and "0 \<le> now" and "UnixMilli now + 30000 < 2 ^ 63" and "millisecond dvd now"
    and "fmlookup (pa_nonces a) (hexEncode bytes) = None" and "h = SignProxyRequestV2With mac key method path (Some bytes) (now + proxyClockSkew)"
  shows "\<exists>a1. IsInternalProxyRequest mac h method path (\<lambda>_. now) a = (True, a1) \<and>
    fst (IsInternalProxyRequest mac h method path (\<lambda>_. now + nonceCacheTTL + 500000) a1)"
proof -
  obtain q where q: "now = 1000000 * q" using assms(5) by (auto simp: millisecond_def dvd_def)
  have u: "UnixMilli (now + proxyClockSkew) = q + 30000" "UnixMilli now = q" "UnixMilli (now + nonceCacheTTL + 500000) = q + 60000"
    by (simp_all add: q UnixMilli_def millisecond_def proxyClockSkew_def nonceCacheTTL_def)
  have b: "0 \<le> UnixMilli (now + proxyClockSkew)" "UnixMilli (now + proxyClockSkew) < 2 ^ 63" using assms(3,4) q u by auto
  have one: "fst (IsInternalProxyRequest mac h method path (\<lambda>_. now) a)" unfolding assms(7)
    by (rule signed_taken [OF assms(1,2) b]) (use u register_fresh [OF assms(6)] in auto)
  then obtain a1 where a1: "IsInternalProxyRequest mac h method path (\<lambda>_. now) a = (True, a1)" by (metis eq_fst_iff)
  have sp: "signedBy mac key h method path (hexEncode bytes) now" unfolding assms(7) by (rule signed_header [OF assms(2) b]) (simp add: u)
  obtain k n where s: "signedBy mac k h method path n now" and g: "registerNonce now n (pa_nonces a) = (True, pa_nonces a1)" "pa_accept a1 = pa_accept a"
    using IsInternalProxyRequest_True [OF a1] by metis
  have "n = hexEncode bytes" using s sp by (auto simp: signedBy_def)
  with g assms(6) have "fmlookup (pa_nonces a1) (hexEncode bytes) = Some now" using storeNonce_stores [of now "hexEncode bytes" "pa_nonces a"] by (simp add: registerNonce_def)
  then have r: "fst (registerNonce (now + nonceCacheTTL + 500000) (hexEncode bytes) (pa_nonces a1))" by (simp add: registerNonce_def)
  have "key \<in> set (pa_accept a1)" using assms(1) g(2) by simp
  from signed_taken [OF this assms(2) b, where clock = "\<lambda>_. now + nonceCacheTTL + 500000", OF _ r] u a1 show ?thesis unfolding assms(7) by auto
qed

section \<open>A ticket opens one stream\<close>

datatype ticket_event = Mint string "string option" time | Consume string time | Clear

fun ticketed :: "ws_tickets \<Rightarrow> ticket_event \<Rightarrow> ws_tickets" where
  "ticketed ts (Mint username random now) = snd (MintWSTicket username random now ts)"
| "ticketed ts (Consume ticket now) = snd (ConsumeWSTicket ticket now ts)"
| "ticketed ts Clear = ClearWSTickets ts"

fun mints :: "string \<Rightarrow> ticket_event \<Rightarrow> bool" where
  "mints ticket (Mint username (Some bytes) now) \<longleftrightarrow> hexEncode bytes = ticket"
| "mints ticket e \<longleftrightarrow> False"

lemma ticketed_gone: "fmlookup ts ticket = None \<Longrightarrow> \<not> mints ticket e \<Longrightarrow> fmlookup (ticketed ts e) ticket = None"
  by (cases "(ticket, e)" rule: mints.cases) (auto simp: MintWSTicket_def ConsumeWSTicket_def ClearWSTickets_def Let_def split: option.splits)

interpretation ticket_run: event_run ticketed "\<lambda>e. \<not> mints ticket e" "\<lambda>ts. fmlookup ts ticket = None" for ticket
  by unfold_locales (rule ticketed_gone)

text \<open>C: a ticket opens one stream.  Once a ticket was presented, whether it opened a stream or had expired, presenting it again opens none, with any token
  beside it, until the same sixteen random bytes come up again.\<close>

theorem ticket_opens_one_stream:
  assumes "ticket \<noteq> []" and "AuthenticateWSRequest parse secret ticket token loopback now tickets = (username, tickets')"
    and "list_all (\<lambda>e. \<not> mints ticket e) es"
  shows "fst (AuthenticateWSRequest parse secret' ticket token' loopback' now' (foldl ticketed tickets' es)) = []"
proof -
  have "fmlookup tickets' ticket = None" using assms(1,2)
    by (auto simp: AuthenticateWSRequest_def ConsumeWSTicket_def split: option.splits if_splits)
  from ticket_run.keeps_all [OF this assms(3)] show ?thesis using assms(1) by (simp add: AuthenticateWSRequest_def ConsumeWSTicket_def)
qed

section \<open>A panel asks another\<close>

definition panelMac :: "string \<Rightarrow> string \<Rightarrow> string" where "panelMac key text = key @ text"

definition sampleNow :: time where "sampleNow = 100 * second"

definition samplePanel :: proxy_auth where "samplePanel = \<lparr>pa_sign = ''new'', pa_accept = [''old'', ''new''], pa_nonces = fmempty\<rparr>"

definition opsNode :: job_node where "opsNode = snd (StartJob sampleNodeEnv True (Some (sampleSpec runA)) ''ops'' emptyNode)"

definition sampleHeader :: string where
  "sampleHeader = SignProxyRequestV2With panelMac ''new'' ''POST'' ''/api/v1/taskjobs'' (Some ''0123456789abcdef'') (sampleNow + proxyClockSkew)"

definition sampleRequest :: http_request where
  "sampleRequest = \<lparr>hr_method = ''POST'', hr_path = ''/api/v1/taskjobs'', hr_uri = ''/api/v1/taskjobs'', hr_proxyV2 = sampleHeader, hr_originalUser = ''ops'',
     hr_authorization = [], hr_queryToken = []\<rparr>"

lemma sample_millis: "UnixMilli (sampleNow + proxyClockSkew) = 130000" "UnixMilli (sampleNow) = 100000"
  by (simp_all add: UnixMilli_def proxyClockSkew_def millisecond_def sampleNow_def)

lemma sample_new: "''new'' \<in> set (pa_accept samplePanel)" "fmlookup (pa_nonces samplePanel) nonce = None"
  by (simp_all add: samplePanel_def)

lemma sample_taken: "fst (IsInternalProxyRequest panelMac sampleHeader ''POST'' ''/api/v1/taskjobs'' (\<lambda>_. sampleNow) samplePanel)"
  unfolding sampleHeader_def by (rule signed_taken [OF sample_new(1)]) (simp_all add: sample_millis register_fresh sample_new)

lemma sample_passed: "fst (JWTMiddleware panelMac (\<lambda>_ _. None) ''s'' (\<lambda>_. sampleNow) sampleRequest samplePanel) = Passed ''ops'' True"
  using sample_taken by (auto simp: JWTMiddleware_def sampleRequest_def split: prod.splits)

lemma sample_split: "\<exists>ts x. splitHeader sampleHeader = Some (ts, hexEncode ''0123456789abcdef'', x)"
  using signed_header [of "''new''" "sampleNow + proxyClockSkew" "sampleNow" panelMac "''POST''" "''/api/v1/taskjobs''" "''0123456789abcdef''"]
  by (auto simp: sample_millis sampleHeader_def signedBy_def)

theorem only_signed_requests_start_jobs_witness:
  "opsNode \<noteq> emptyNode \<and> (\<exists>key\<in>{''old'', ''new''}. \<exists>nonce. signedBy panelMac key sampleHeader ''POST'' ''/api/v1/taskjobs'' nonce (sampleNow))"
proof -
  obtain a1 where a1: "JWTMiddleware panelMac (\<lambda>_ _. None) ''s'' (\<lambda>_. sampleNow) sampleRequest samplePanel = (Passed ''ops'' True, a1)"
    using fst_is [OF sample_passed] by (elim exE)
  obtain ans where st: "StartJob sampleNodeEnv True (Some (sampleSpec runA)) ''ops'' emptyNode = (ans, opsNode)" unfolding opsNode_def by (metis eq_snd_iff)
  have "ids_of opsNode \<noteq> ids_of emptyNode" by code_simp
  then have ne: "opsNode \<noteq> emptyNode" by metis
  have "\<exists>key\<in>set (pa_accept samplePanel). key \<noteq> [] \<and>
      (\<exists>k nonce. signedBy panelMac key (hr_proxyV2 sampleRequest) (hr_method sampleRequest) (hr_uri sampleRequest) nonce sampleNow)"
    using only_signed_requests_start_jobs [OF a1, where n = emptyNode and n' = opsNode] st ne by blast
  then show ?thesis using ne by (auto simp: samplePanel_def sampleRequest_def)
qed

theorem signed_request_is_taken_witness:
  "fst (JWTMiddleware panelMac (\<lambda>_ _. None) ''s'' (\<lambda>_. sampleNow) sampleRequest samplePanel) = Passed ''ops'' True"
  using signed_request_is_taken [of sampleRequest panelMac "''new''" "''0123456789abcdef''" "sampleNow + proxyClockSkew" samplePanel "\<lambda>_. sampleNow" "\<lambda>_ _. None" "''s''"]
  by (simp add: sampleRequest_def sampleHeader_def sample_new sample_millis)

lemma sample_times: "sampleNow + sameRequestWindow < sampleNow + second" "sampleNow + second \<le> sampleNow + nonceCacheTTL" "millisecond dvd sampleNow" "0 \<le> sampleNow"
  by (simp_all add: sameRequestWindow_def nonceCacheTTL_def proxyClockSkew_def millisecond_def sampleNow_def)

theorem header_is_taken_once_witness:
  "\<not> fst (IsInternalProxyRequest panelMac sampleHeader ''POST'' ''/api/v1/taskjobs'' (\<lambda>_. sampleNow + second)
     (happen panelMac (snd (IsInternalProxyRequest panelMac sampleHeader ''POST'' ''/api/v1/taskjobs'' (\<lambda>_. sampleNow) samplePanel)) (Keys ''newer'' [''new'', ''newer''])))"
proof -
  define es where "es = [Keys ''newer'' [''new'', ''newer'']]"
  obtain a1 where a1: "IsInternalProxyRequest panelMac sampleHeader ''POST'' ''/api/v1/taskjobs'' (\<lambda>_. sampleNow) samplePanel = (True, a1)"
    using fst_is [OF iffD2 [OF eq_True sample_taken]] by (elim exE)
  obtain ts x where sp: "splitHeader sampleHeader = Some (ts, hexEncode ''0123456789abcdef'', x)" using sample_split by blast
  have e: "list_all (readBefore (sampleNow + nonceCacheTTL)) es" by (simp add: es_def readBefore_def)
  have "\<not> fst (IsInternalProxyRequest panelMac sampleHeader ''POST'' ''/api/v1/taskjobs'' (\<lambda>_. sampleNow + second) (foldl (happen panelMac) a1 es))"
  proof -
    from header_is_taken_once [OF a1 sp sample_new(2)] obtain k :: nat where
      "\<forall>events. list_all (readBefore (sampleNow + nonceCacheTTL)) events \<longrightarrow>
        (\<forall>h' ts' x' m' u' clock'. splitHeader h' = Some (ts', hexEncode ''0123456789abcdef'', x') \<longrightarrow>
           (\<forall>i. sampleNow + sameRequestWindow < clock' i \<and> clock' i \<le> sampleNow + nonceCacheTTL) \<longrightarrow>
           \<not> fst (IsInternalProxyRequest panelMac h' m' u' clock' (foldl (happen panelMac) a1 events)))" by (elim exE)
    from this [THEN spec, THEN mp, OF e, THEN spec, THEN spec, THEN spec, THEN spec, THEN spec, THEN spec, THEN mp, OF sp, THEN mp] sample_times(1,2)
    show ?thesis by simp
  qed
  then show ?thesis using a1 by (simp add: es_def)
qed

theorem held_back_header_is_taken_again_witness:
  "\<exists>a1. IsInternalProxyRequest panelMac sampleHeader ''POST'' ''/api/v1/taskjobs'' (\<lambda>_. sampleNow) samplePanel = (True, a1) \<and>
     fst (IsInternalProxyRequest panelMac sampleHeader ''POST'' ''/api/v1/taskjobs'' (\<lambda>_. sampleNow + nonceCacheTTL + 500000) a1)"
  by (rule held_back_header_is_taken_again [of "''new''" _ _ "''0123456789abcdef''"])
    (simp_all add: sample_new sample_millis sample_times sampleHeader_def)

theorem ticket_opens_one_stream_witness:
  "fst (AuthenticateWSRequest (\<lambda>_ _. Some ''admin'') ''s'' ''30'' [] False 5 (fmupd ''30'' \<lparr>wt_username = ''ops'', wt_expires = 9\<rparr> fmempty)) = ''ops'' \<and>
   fst (AuthenticateWSRequest (\<lambda>_ _. Some ''admin'') ''s'' ''30'' ''jwt'' True 6 (foldl ticketed fmempty [Mint ''ops'' (Some ''1'') 5])) = []"
  using ticket_opens_one_stream [of "''30''" "\<lambda>_ _. Some ''admin''" "''s''" "[]" False 5 "fmupd ''30'' \<lparr>wt_username = ''ops'', wt_expires = 9\<rparr> fmempty" "''ops''" fmempty
      "[Mint ''ops'' (Some ''1'') 5]" "''s''" "''jwt''" True 6]
  by (simp add: AuthenticateWSRequest_def ConsumeWSTicket_def hexEncode_def hexDigit_def fmap_ext)

end
