(* ===== verification/Accounts.thy ===== *)
theory Accounts
  imports Session_Auth Tasks_Store Go_Duration
begin

text \<open>
  The accounts of a panel and their sessions: \<^verbatim>\<open>src/internal/feature/auth\<close> (\<^verbatim>\<open>handler.go\<close>, \<^verbatim>\<open>recovery.go\<close>, \<^verbatim>\<open>refresh.go\<close>, \<^verbatim>\<open>sessions.go\<close>, \<^verbatim>\<open>bounds.go\<close>)
  and \<^verbatim>\<open>src/internal/auth/totp.go\<close>.  An account is in the cluster's state machine or in the panel's own table.  \<open>auth_env\<close> is what one request meets: which
  calls of the database fail, how Raft answers, what the clock reads, what the random source gives; bcrypt, SHA-256, the TOTP library, the JWT library and
  JSON are its functions.  A row's time is kept to the second, as \<^verbatim>\<open>time.RFC3339\<close> writes it; such texts sort as the times do.  The cookies an answer
  sets repeat its refresh token; rows of the audit log are listed in order.
\<close>

section \<open>State\<close>

record admin_row =
  ar_password :: string
  ar_totp :: "string option"
  ar_codes :: "string option"

record login_attempt =
  la_count :: int
  la_firstAt :: time
  la_blockedUntil :: "time option"

text \<open>A time column: a time, or a text \<^verbatim>\<open>time.Parse\<close> does not read.\<close>

datatype stored_time = Stamp int | Unread string

record refresh_row =
  rt_username :: string
  rt_family :: string
  rt_expires :: stored_time
  rt_consumed :: "stored_time option"

type_synonym refresh_table = "(string, refresh_row) fmap"

record auth_panel =
  ap_admin :: "admin_row gomap"
  ap_mgr :: "manager option"
  ap_attempts :: "login_attempt gomap"
  ap_setup :: "time list gomap"
  ap_used :: "int gomap"
  ap_tokens :: refresh_table
  ap_tickets :: ws_tickets
  ap_audit :: "(string \<times> string \<times> nat) list"

datatype dbCall =
    SelectAccount | UpdateAccount | SelectForSync | SelectCodes | UpdateCodes | CountAdmin | InsertAdmin
  | BeginTx | SelectToken | DeleteTokens | UpdateToken | InsertToken | CommitTx | SelectFamily

datatype clockSite = AtLimiter | AtWrite | AtCode | AtVerify | AtSign | AtExpiry | AtConsume | AtIssue

datatype raftSite = ForAccount | ForSync | ForCodes

record auth_env =
  ae_fails :: "dbCall \<Rightarrow> bool"
  ae_reply :: "raftSite \<Rightarrow> raftReply"
  ae_now :: "clockSite \<Rightarrow> time"
  ae_token :: "string option"
  ae_family :: "string option"
  ae_wire :: wire
  ae_encAccount :: "admin_account \<Rightarrow> string"
  ae_encCodes :: "string list \<Rightarrow> string"
  ae_checkPassword :: "string \<Rightarrow> string \<Rightarrow> bool"
  ae_hashPassword :: "string \<Rightarrow> string option"
  ae_totp :: "string \<Rightarrow> string \<Rightarrow> int \<Rightarrow> bool"
  ae_sum :: "string \<Rightarrow> string"
  ae_sign :: "string \<Rightarrow> string \<Rightarrow> duration \<Rightarrow> time \<Rightarrow> string option"
  ae_secret :: string
  ae_float :: "int \<Rightarrow> nat \<Rightarrow> int \<Rightarrow> nat"
  ae_tokenExpiry :: string
  ae_forwarded :: bool
  ae_unreadBefore :: "string \<Rightarrow> int \<Rightarrow> bool"

datatype authAnswer =
    AuthFail nat string string
  | Tokens string string int
  | Message string
  | Codes "string list"
  | Counted bool nat
  | Forwarded

section \<open>Bounds\<close>

definition maxUsernameBytes :: nat where "maxUsernameBytes = 64"
definition maxPasswordBytes :: nat where "maxPasswordBytes = 256"
definition maxTOTPCodeBytes :: nat where "maxTOTPCodeBytes = 16"

definition totpCodeRe :: "string \<Rightarrow> bool" where
  "totpCodeRe s \<longleftrightarrow> 6 \<le> length s \<and> length s \<le> 8 \<and> list_all (\<lambda>c. c \<in> set ''0123456789'') s"

definition validCredentialBounds :: "string \<Rightarrow> string \<Rightarrow> string \<Rightarrow> bool" where
  "validCredentialBounds username password totp \<longleftrightarrow>
     \<not> (username = [] \<or> length username > maxUsernameBytes) \<and> \<not> (password = [] \<or> length password > maxPasswordBytes) \<and>
     (totp = [] \<or> \<not> (length totp > maxTOTPCodeBytes \<or> \<not> totpCodeRe totp))"

definition minPasswordLen :: nat where "minPasswordLen = 12"

definition commonPasswords :: "string list" where
  "commonPasswords =
     [''password'', ''password1'', ''password123'', ''passw0rd'', ''passw0rd123'', ''p@ssw0rd'', ''p@ssword1'', ''12345678'', ''123456789'', ''1234567890'',
      ''qwertyuiop'', ''qwerty123'', ''admin123'', ''administrator'', ''letmein123'', ''welcome123'', ''iloveyou1'', ''sunshine1'', ''princess1'',
      ''changeme123'', ''baseball1'', ''football1'', ''superman1'', ''abcd1234'', ''abc123456'', ''1q2w3e4r5t'', ''zaq12wsx'', ''qazwsxedc'',
      ''1qaz2wsx3edc'', ''trustno1!'', ''sfpanel123'']"

definition validatePassword :: "string \<Rightarrow> string option" where
  "validatePassword pw =
     (if length pw < minPasswordLen then Some ''Password must be at least 12 characters.''
      else if to_lower pw \<in> set commonPasswords
      then Some (''Password is too common '' @ [CHR 0xE2, CHR 0x80, CHR 0x94] @ '' choose something less guessable.'') else None)"

section \<open>The limit on attempts\<close>

definition rateLimitMaxAttempts :: int where "rateLimitMaxAttempts = 5"
definition rateLimitWindow :: duration where "rateLimitWindow = 60 * second"
definition rateLimitBlockDuration :: duration where "rateLimitBlockDuration = 300 * second"

definition attemptNow :: "time \<Rightarrow> login_attempt \<Rightarrow> bool \<times> login_attempt" where
  "attemptNow now a =
     (if (case la_blockedUntil a of Some t \<Rightarrow> now < t | None \<Rightarrow> False) then (True, a)
      else if now - la_firstAt a > rateLimitWindow then (False, \<lparr>la_count = 1, la_firstAt = now, la_blockedUntil = None\<rparr>)
      else (let a = a\<lparr>la_count := la_count a + 1\<rparr>
            in (False, if la_count a \<ge> rateLimitMaxAttempts then a\<lparr>la_blockedUntil := Some (now + rateLimitBlockDuration)\<rparr> else a)))"

definition preRecordLoginAttempt :: "time \<Rightarrow> string \<Rightarrow> login_attempt gomap \<Rightarrow> bool \<times> login_attempt gomap" where
  "preRecordLoginAttempt now ip attempts =
     (case fmlookup attempts ip of
        None \<Rightarrow> (False, fmupd ip \<lparr>la_count = 1, la_firstAt = now, la_blockedUntil = None\<rparr> attempts)
      | Some a \<Rightarrow> (case attemptNow now a of (blocked, a) \<Rightarrow> (blocked, fmupd ip a attempts)))"

definition pruneLoginAttempts :: "time \<Rightarrow> login_attempt gomap \<Rightarrow> login_attempt gomap" where
  "pruneLoginAttempts now attempts =
     fmfilter (\<lambda>ip. case fmlookup attempts ip of
         None \<Rightarrow> True
       | Some a \<Rightarrow> \<not> (now - la_firstAt a > 2 * rateLimitWindow \<and> (case la_blockedUntil a of Some t \<Rightarrow> now > t | None \<Rightarrow> True))) attempts"

section \<open>Codes of an authenticator\<close>

definition totpPeriod :: int where "totpPeriod = 30"

definition codeKey :: "string \<Rightarrow> string \<Rightarrow> int \<Rightarrow> string" where
  "codeKey secret code period = secret @ '':'' @ code @ '':'' @ itoa period"

text \<open>\<open>now\<close> is when the slot is taken and \<open>later\<close> when the library looks at the clock, both in seconds since 1970.\<close>

definition ValidateCode :: "(string \<Rightarrow> string \<Rightarrow> int \<Rightarrow> bool) \<Rightarrow> int \<Rightarrow> int \<Rightarrow> string \<Rightarrow> string \<Rightarrow> int gomap \<Rightarrow> bool \<times> int gomap" where
  "ValidateCode totp now later secret code used =
     (let period = now div totpPeriod; key = codeKey secret code period;
          used = fmfilter (\<lambda>k. case fmlookup used k of None \<Rightarrow> True | Some expiry \<Rightarrow> \<not> now > expiry) used
      in if fmlookup used key \<noteq> None then (False, used)
         else if \<not> totp secret code later then (False, used)
         else (True, fmupd key ((period + 2) * totpPeriod) used))"

definition Unix :: "time \<Rightarrow> int" where "Unix t = t div second"

definition validCode :: "auth_env \<Rightarrow> string \<Rightarrow> string \<Rightarrow> auth_panel \<Rightarrow> bool \<times> auth_panel" where
  "validCode env secret code st =
     (case ValidateCode (ae_totp env) (Unix (ae_now env AtCode)) (Unix (ae_now env AtVerify)) secret code (ap_used st) of
        (ok, used) \<Rightarrow> (ok, st\<lparr>ap_used := used\<rparr>))"

section \<open>Accounts\<close>

datatype authError = NoRows | DBFailed | NoManager | Store storeError

definition getClusterAccount :: "auth_panel \<Rightarrow> string \<Rightarrow> admin_account option" where
  "getClusterAccount st username =
     (case ap_mgr st of
        None \<Rightarrow> None
      | Some m \<Rightarrow> (case mg_raft m of None \<Rightarrow> None | Some f \<Rightarrow> GetAccount f username))"

definition clusterHasAdmin :: "auth_panel \<Rightarrow> bool" where
  "clusterHasAdmin st =
     (case ap_mgr st of
        None \<Rightarrow> False
      | Some m \<Rightarrow> (case mg_raft m of None \<Rightarrow> False | Some f \<Rightarrow> (case cs_accounts (GetState f) of None \<Rightarrow> False | Some a \<Rightarrow> fcard (fmdom a) > 0)))"

definition withMgr :: "(manager \<Rightarrow> manager \<times> storeError option) \<Rightarrow> auth_panel \<Rightarrow> authError option \<times> auth_panel" where
  "withMgr f st =
     (case ap_mgr st of
        None \<Rightarrow> (Some NoManager, st)
      | Some m \<Rightarrow> (case f m of (m', e) \<Rightarrow> (map_option Store e, st\<lparr>ap_mgr := Some m'\<rparr>)))"

definition SetAccount :: "auth_env \<Rightarrow> raftSite \<Rightarrow> string \<Rightarrow> string \<Rightarrow> string \<Rightarrow> manager \<Rightarrow> manager \<times> storeError option" where
  "SetAccount env site username password totp m =
     managerApply (ae_wire env) (ae_reply env site)
       \<lparr>cmd_type = CmdSetAccount, cmd_key = username,
        cmd_value = ae_encAccount env \<lparr>acct_username = username, acct_password = password, acct_totp_secret = totp, acct_updated_at = Unix (ae_now env AtWrite)\<rparr>\<rparr> m"

definition SetRecoveryCodes :: "auth_env \<Rightarrow> string \<Rightarrow> string list \<Rightarrow> manager \<Rightarrow> manager \<times> storeError option" where
  "SetRecoveryCodes env username hashes m =
     managerApply (ae_wire env) (ae_reply env ForCodes) \<lparr>cmd_type = CmdSetRecoveryCodes, cmd_key = username, cmd_value = ae_encCodes env hashes\<rparr> m"

definition nullText :: "string option \<Rightarrow> string" where "nullText t = (case t of None \<Rightarrow> [] | Some s \<Rightarrow> s)"

text \<open>The hash, the secret and whether the account is the cluster's.\<close>

definition loadAdminAccount :: "auth_env \<Rightarrow> string \<Rightarrow> auth_panel \<Rightarrow> authError + (string \<times> string \<times> bool)" where
  "loadAdminAccount env username st =
     (case getClusterAccount st username of
        Some acct \<Rightarrow> Inr (acct_password acct, acct_totp_secret acct, True)
      | None \<Rightarrow>
          if ae_fails env SelectAccount then Inl DBFailed
          else (case fmlookup (ap_admin st) username of
              None \<Rightarrow> Inl NoRows
            | Some row \<Rightarrow> Inr (ar_password row, nullText (ar_totp row), False)))"

definition syncAccountToCluster :: "auth_env \<Rightarrow> string \<Rightarrow> auth_panel \<Rightarrow> auth_panel" where
  "syncAccountToCluster env username st =
     (if ap_mgr st = None \<or> ae_fails env SelectForSync then st
      else (case fmlookup (ap_admin st) username of
          None \<Rightarrow> st
        | Some row \<Rightarrow> snd (withMgr (SetAccount env ForSync username (ar_password row) (nullText (ar_totp row))) st)))"

definition persistAdminAccount :: "auth_env \<Rightarrow> string \<Rightarrow> string \<Rightarrow> string \<Rightarrow> bool \<Rightarrow> auth_panel \<Rightarrow> authError option \<times> auth_panel" where
  "persistAdminAccount env username passwordHash totpSecret fromCluster st =
     (if fromCluster then withMgr (SetAccount env ForAccount username passwordHash totpSecret) st
      else if ae_fails env UpdateAccount then (Some DBFailed, st)
      else (None, syncAccountToCluster env username
        (case fmlookup (ap_admin st) username of
           None \<Rightarrow> st
         | Some row \<Rightarrow>
             st\<lparr>ap_admin := fmupd username (row\<lparr>ar_password := passwordHash, ar_totp := (if totpSecret \<noteq> [] then Some totpSecret else None)\<rparr>) (ap_admin st)\<rparr>)))"

text \<open>\<^verbatim>\<open>errors.Is(err, cluster.ErrNotLeader)\<close>, and the answer to an account that could not be written; \<open>hint\<close> is the sentence naming the leader.\<close>

definition notLeader :: "authError \<Rightarrow> bool" where "notLeader e \<longleftrightarrow> e = Store ErrNotLeader"

definition failClusterPersist :: "string \<Rightarrow> authError \<Rightarrow> authAnswer" where
  "failClusterPersist hint e =
     (if notLeader e then AuthFail 503 ErrInternalError (''Account changes for cluster admins must run on the leader node.'' @ hint)
      else AuthFail 500 ErrDBError ''Failed to persist account changes'')"

section \<open>Recovery codes\<close>

definition normalizeRecoveryCode :: "string \<Rightarrow> string" where
  "normalizeRecoveryCode code = filter (\<lambda>c. c \<noteq> CHR ''-'' \<and> c \<noteq> CHR '' '') (to_lower (trim_space code))"

definition hashRecoveryCode :: "auth_env \<Rightarrow> string \<Rightarrow> string" where
  "hashRecoveryCode env code = hexEncode (ae_sum env (normalizeRecoveryCode code))"

definition recoveryCodeCount :: nat where "recoveryCodeCount = 10"
definition recoveryCodeAlphabet :: string where "recoveryCodeAlphabet = ''abcdefghjkmnpqrstuvwxyz23456789''"

definition codeLetter :: "char \<Rightarrow> char" where
  "codeLetter b = recoveryCodeAlphabet ! ((of_char b :: nat) mod length recoveryCodeAlphabet)"

definition recoveryCode :: "string \<Rightarrow> string" where
  "recoveryCode raw = map codeLetter (take 5 raw) @ (if length raw > 5 then ''-'' else []) @ map codeLetter (drop 5 raw)"

text \<open>The bytes are those of the ten reads of the random source, ten at a time, unless one fails.\<close>

definition generateRecoveryCodes :: "auth_env \<Rightarrow> string list option \<Rightarrow> (string list \<times> string list) option" where
  "generateRecoveryCodes env random =
     (case random of
        None \<Rightarrow> None
      | Some raws \<Rightarrow> (let plaintext = map recoveryCode (take recoveryCodeCount raws) in Some (plaintext, map (hashRecoveryCode env) plaintext)))"

text \<open>A text that is no JSON list gives no codes.\<close>

definition loadRecoveryCodes :: "auth_env \<Rightarrow> string \<Rightarrow> auth_panel \<Rightarrow> authError + (string list \<times> bool)" where
  "loadRecoveryCodes env username st =
     (case getClusterAccount st username of
        Some acct \<Rightarrow>
          (case ap_mgr st of
             Some m \<Rightarrow> Inr (case mg_raft m of None \<Rightarrow> [] | Some f \<Rightarrow> GetRecoveryCodes f username, True)
           | None \<Rightarrow> Inr ([], True))
      | None \<Rightarrow>
          if ae_fails env SelectCodes then Inl DBFailed
          else (case fmlookup (ap_admin st) username of
              None \<Rightarrow> Inl NoRows
            | Some row \<Rightarrow>
                Inr (case ar_codes row of
                    Some raw \<Rightarrow> if raw = [] then [] else (case dec_codes (w_codec (ae_wire env)) raw of Inr hashes \<Rightarrow> hashes | Inl _ \<Rightarrow> [])
                  | None \<Rightarrow> [], False)))"

definition persistRecoveryCodes :: "auth_env \<Rightarrow> string \<Rightarrow> string list \<Rightarrow> bool \<Rightarrow> auth_panel \<Rightarrow> authError option \<times> auth_panel" where
  "persistRecoveryCodes env username hashes fromCluster st =
     (if fromCluster then withMgr (SetRecoveryCodes env username hashes) st
      else if ae_fails env UpdateCodes then (Some DBFailed, st)
      else (None, case fmlookup (ap_admin st) username of
          None \<Rightarrow> st
        | Some row \<Rightarrow> st\<lparr>ap_admin := fmupd username (row\<lparr>ar_codes := (if hashes = [] then None else Some (ae_encCodes env hashes))\<rparr>) (ap_admin st)\<rparr>))"

text \<open>The second half of \<^verbatim>\<open>consumeRecoveryCode\<close>, over the list the first half read.\<close>

definition consumeFrom :: "auth_env \<Rightarrow> string \<Rightarrow> string \<Rightarrow> string list \<Rightarrow> bool \<Rightarrow> auth_panel \<Rightarrow> (authError + bool) \<times> auth_panel" where
  "consumeFrom env username code hashes fromCluster st =
     (let target = hashRecoveryCode env code
      in if target \<notin> set hashes then (Inr False, st)
         else (case persistRecoveryCodes env username (remove1 target hashes) fromCluster st of
             (Some e, st) \<Rightarrow> (Inl e, st)
           | (None, st) \<Rightarrow> (Inr True, st)))"

definition consumeRecoveryCode :: "auth_env \<Rightarrow> string \<Rightarrow> string \<Rightarrow> auth_panel \<Rightarrow> (authError + bool) \<times> auth_panel" where
  "consumeRecoveryCode env username code st =
     (case loadRecoveryCodes env username st of
        Inl e \<Rightarrow> (Inl e, st)
      | Inr (hashes, fromCluster) \<Rightarrow> consumeFrom env username code hashes fromCluster st)"

end
