(* ===== verification/Account_Handlers.thy ===== *)
theory Account_Handlers
  imports Accounts Unit_Guard
begin

text \<open>
  The handlers of \<^verbatim>\<open>src/internal/feature/auth\<close>: refresh tokens with their rotation (\<^verbatim>\<open>refresh.go\<close>), signing in, changing a password or the second factor,
  the first account, and the end of every session (\<^verbatim>\<open>sessions.go\<close>).  A database transaction is a copy of the table that a commit puts in the table's
  place; a commit that fails leaves the table as it was, and so does a statement that fails.  A request's body that could not be read is \<open>None\<close>.
\<close>

section \<open>Error codes\<close>

definition ErrMissingFields :: string where "ErrMissingFields = ''MISSING_FIELDS''"
definition ErrInvalidCredentials :: string where "ErrInvalidCredentials = ''INVALID_CREDENTIALS''"
definition ErrTokenError :: string where "ErrTokenError = ''TOKEN_ERROR''"
definition ErrTOTPRequired :: string where "ErrTOTPRequired = ''TOTP_REQUIRED''"
definition ErrInvalidTOTP :: string where "ErrInvalidTOTP = ''INVALID_TOTP''"
definition ErrInvalidPassword :: string where "ErrInvalidPassword = ''INVALID_PASSWORD''"
definition ErrWeakPassword :: string where "ErrWeakPassword = ''WEAK_PASSWORD''"
definition ErrHashError :: string where "ErrHashError = ''HASH_ERROR''"
definition ErrAlreadySetup :: string where "ErrAlreadySetup = ''ALREADY_SETUP''"
definition ErrNoUser :: string where "ErrNoUser = ''NO_USER''"
definition ErrUserNotFound :: string where "ErrUserNotFound = ''USER_NOT_FOUND''"
definition ErrRateLimited :: string where "ErrRateLimited = ''RATE_LIMITED''"

section \<open>Refresh tokens\<close>

definition refreshTokenLifetime :: duration where "refreshTokenLifetime = 7 * 24 * 3600 * second"

definition sha256Hex :: "auth_env \<Rightarrow> string \<Rightarrow> string" where
  "sha256Hex env s = hexEncode (ae_sum env s)"

text \<open>\<^verbatim>\<open>INSERT\<close> of a row: it fails when the call does and when the key is taken.\<close>

definition insertToken :: "auth_env \<Rightarrow> string \<Rightarrow> string \<Rightarrow> string \<Rightarrow> refresh_table \<Rightarrow> refresh_table option" where
  "insertToken env hash username family table =
     (if ae_fails env InsertToken \<or> fmlookup table hash \<noteq> None then None
      else Some (fmupd hash \<lparr>rt_username = username, rt_family = family,
          rt_expires = Stamp (Unix (ae_now env AtIssue + refreshTokenLifetime)), rt_consumed = None\<rparr> table))"

definition issueRefreshToken :: "auth_env \<Rightarrow> string \<Rightarrow> refresh_table \<Rightarrow> string option \<times> refresh_table" where
  "issueRefreshToken env username table =
     (case (ae_token env, ae_family env) of
        (Some raw, Some fid) \<Rightarrow>
          (let tok = hexEncode raw
           in case insertToken env (sha256Hex env tok) username (hexEncode fid) table of None \<Rightarrow> (None, table) | Some t \<Rightarrow> (Some tok, t))
      | _ \<Rightarrow> (None, table))"

definition defaultExpiry :: duration where "defaultExpiry = 24 * 3600 * second"

definition tokenExpiry :: "auth_env \<Rightarrow> duration" where
  "tokenExpiry env =
     (if ae_tokenExpiry env = [] then defaultExpiry
      else (case ParseDuration (ae_float env) (ae_tokenExpiry env) of None \<Rightarrow> defaultExpiry | Some d \<Rightarrow> if d \<le> 0 then defaultExpiry else d))"

definition loginExpiry :: "auth_env \<Rightarrow> duration" where
  "loginExpiry env = (case ParseDuration (ae_float env) (ae_tokenExpiry env) of None \<Rightarrow> defaultExpiry | Some d \<Rightarrow> d)"

text \<open>\<^verbatim>\<open>int(d.Seconds())\<close> rounds towards zero.\<close>

definition wholeSeconds :: "duration \<Rightarrow> int" where
  "wholeSeconds d = (if d \<ge> 0 then d div second else - ((- d) div second))"

definition GenerateToken :: "auth_env \<Rightarrow> string \<Rightarrow> duration \<Rightarrow> string option" where
  "GenerateToken env username expiry = (if ae_secret env = [] then None else ae_sign env username (ae_secret env) expiry (ae_now env AtSign))"

definition committed :: "auth_env \<Rightarrow> refresh_table \<Rightarrow> refresh_table \<Rightarrow> refresh_table" where
  "committed env tx table = (if ae_fails env CommitTx then table else tx)"

definition deleteWhere :: "auth_env \<Rightarrow> (string \<Rightarrow> refresh_row \<Rightarrow> bool) \<Rightarrow> refresh_table \<Rightarrow> refresh_table" where
  "deleteWhere env p table =
     (if ae_fails env DeleteTokens then table
      else fmfilter (\<lambda>h. case fmlookup table h of None \<Rightarrow> True | Some row \<Rightarrow> \<not> p h row) table)"

definition expired :: "auth_env \<Rightarrow> refresh_row \<Rightarrow> bool" where
  "expired env row = (case rt_expires row of Unread _ \<Rightarrow> True | Stamp t \<Rightarrow> ae_now env AtExpiry > t * second)"

definition reused :: "auth_env \<Rightarrow> refresh_row \<Rightarrow> refresh_table \<Rightarrow> authAnswer \<times> refresh_table" where
  "reused env row table =
     (let tx = (if rt_family row \<noteq> [] then deleteWhere env (\<lambda>_ r. rt_family r = rt_family row) table
                else deleteWhere env (\<lambda>_ r. rt_username r = rt_username row) table)
      in if ae_fails env CommitTx then (AuthFail 500 ErrDBError ''Database error'', table)
         else (AuthFail 401 ErrInvalidToken ''Session revoked'', tx))"

definition rotate :: "auth_env \<Rightarrow> string \<Rightarrow> refresh_row \<Rightarrow> string \<Rightarrow> refresh_table \<Rightarrow> authAnswer \<times> refresh_table" where
  "rotate env hash row family table =
     (let accessExpiry = tokenExpiry env
      in case GenerateToken env (rt_username row) accessExpiry of
           None \<Rightarrow> (AuthFail 500 ErrInternalError ''Failed to issue access token'', table)
         | Some accessTok \<Rightarrow>
             if ae_fails env UpdateToken then (AuthFail 500 ErrDBError ''Database error'', table)
             else (case ae_token env of
                 None \<Rightarrow> (AuthFail 500 ErrInternalError ''rand failed'', table)
               | Some newRaw \<Rightarrow>
                   (let newTok = hexEncode newRaw; tx = fmupd hash (row\<lparr>rt_consumed := Some (Stamp (Unix (ae_now env AtConsume)))\<rparr>) table
                    in case insertToken env (sha256Hex env newTok) (rt_username row) family tx of
                         None \<Rightarrow> (AuthFail 500 ErrDBError ''Database error'', table)
                       | Some tx \<Rightarrow>
                           if ae_fails env CommitTx then (AuthFail 500 ErrDBError ''Database error'', table)
                           else (Tokens accessTok newTok (wholeSeconds accessExpiry), tx))))"

definition userExists :: "auth_env \<Rightarrow> string \<Rightarrow> auth_panel \<Rightarrow> bool" where
  "userExists env username st \<longleftrightarrow>
     getClusterAccount st username \<noteq> None \<or> \<not> ae_fails env CountAdmin \<and> fmlookup (ap_admin st) username \<noteq> None"

definition redeem :: "auth_env \<Rightarrow> string \<Rightarrow> auth_panel \<Rightarrow> authAnswer \<times> refresh_table" where
  "redeem env hash st =
     (let table = ap_tokens st
      in if ae_fails env SelectToken then (AuthFail 500 ErrDBError ''Database error'', table)
         else (case fmlookup table hash of
             None \<Rightarrow> (AuthFail 401 ErrInvalidToken ''Invalid refresh token'', table)
           | Some row \<Rightarrow>
               if rt_consumed row \<noteq> None then reused env row table
               else if expired env row
               then (AuthFail 401 ErrInvalidToken ''Refresh token expired'', committed env (deleteWhere env (\<lambda>h _. h = hash) table) table)
               else if \<not> userExists env (rt_username row) st
               then (AuthFail 401 ErrInvalidToken ''User no longer exists'', committed env (deleteWhere env (\<lambda>h _. h = hash) table) table)
               else if rt_family row \<noteq> [] then rotate env hash row (rt_family row) table
               else (case ae_family env of
                   None \<Rightarrow> (AuthFail 500 ErrInternalError ''rand failed'', table)
                 | Some fid \<Rightarrow> rotate env hash row (hexEncode fid) table)))"

text \<open>A cookie that is not there is empty, and so is a body that could not be read.\<close>

definition Refresh :: "auth_env \<Rightarrow> string \<Rightarrow> string \<Rightarrow> auth_panel \<Rightarrow> authAnswer \<times> auth_panel" where
  "Refresh env cookie body st =
     (let raw = (if cookie \<noteq> [] then cookie else body)
      in if raw = [] then (AuthFail 400 ErrInvalidRequest ''Missing refresh_token'', st)
         else if ae_fails env BeginTx then (AuthFail 500 ErrDBError ''Database error'', st)
         else (case redeem env (sha256Hex env raw) st of (a, t) \<Rightarrow> (a, st\<lparr>ap_tokens := t\<rparr>)))"

definition revokeOtherSessions :: "auth_env \<Rightarrow> string \<Rightarrow> string \<Rightarrow> auth_panel \<Rightarrow> auth_panel" where
  "revokeOtherSessions env cookie username st =
     (let hash = sha256Hex env cookie; table = ap_tokens st;
          own = (if cookie = [] \<or> ae_fails env SelectFamily then None
                 else (case fmlookup table hash of Some row \<Rightarrow> if rt_username row = username then Some (rt_family row) else None | None \<Rightarrow> None))
      in st\<lparr>ap_tokens := (case own of
           Some family \<Rightarrow>
             if family \<noteq> [] then deleteWhere env (\<lambda>_ r. rt_username r = username \<and> rt_family r \<noteq> family) table
             else deleteWhere env (\<lambda>h r. rt_username r = username \<and> h \<noteq> hash) table
         | None \<Rightarrow> deleteWhere env (\<lambda>_ r. rt_username r = username) table)\<rparr>)"

definition before :: "auth_env \<Rightarrow> stored_time \<Rightarrow> int \<Rightarrow> bool" where
  "before env t cutoff = (case t of Stamp s \<Rightarrow> s < cutoff | Unread x \<Rightarrow> ae_unreadBefore env x cutoff)"

definition pruneRefreshTokens :: "auth_env \<Rightarrow> auth_panel \<Rightarrow> auth_panel" where
  "pruneRefreshTokens env st =
     (let now = ae_now env AtExpiry
      in st\<lparr>ap_tokens := deleteWhere env (\<lambda>_ r. before env (rt_expires r) (Unix now) \<or>
           (case rt_consumed r of None \<Rightarrow> False | Some t \<Rightarrow> before env t (Unix (now - 24 * 3600 * second)))) (ap_tokens st)\<rparr>)"

definition Logout :: "auth_env \<Rightarrow> string \<Rightarrow> auth_panel \<Rightarrow> authAnswer \<times> auth_panel" where
  "Logout env cookie st =
     (Message ''logged out'', if cookie = [] then st else st\<lparr>ap_tokens := deleteWhere env (\<lambda>h _. h = sha256Hex env cookie) (ap_tokens st)\<rparr>)"

text \<open>\<^verbatim>\<open>EndSessions\<close>; \<open>swap\<close> installs the new key.\<close>

definition EndSessions :: "auth_env \<Rightarrow> (auth_panel \<Rightarrow> auth_panel) \<Rightarrow> auth_panel \<Rightarrow> bool \<times> auth_panel" where
  "EndSessions env swap st =
     (let st = swap (st\<lparr>ap_tokens := deleteWhere env (\<lambda>_ _. True) (ap_tokens st)\<rparr>)
      in (\<not> ae_fails env DeleteTokens, st\<lparr>ap_tickets := ClearWSTickets (ap_tickets st)\<rparr>))"

section \<open>Signing in\<close>

record login_request =
  lr_username :: string
  lr_password :: string
  lr_totp :: string
  lr_recovery :: string

definition audited :: "string \<Rightarrow> string \<Rightarrow> nat \<Rightarrow> auth_panel \<Rightarrow> auth_panel" where
  "audited username event status st = st\<lparr>ap_audit := ap_audit st @ [(username, event, status)]\<rparr>"

definition recordLoginEvent :: "string \<Rightarrow> nat \<Rightarrow> string \<Rightarrow> auth_panel \<Rightarrow> auth_panel" where
  "recordLoginEvent username status reason st = audited username (''/api/v1/auth/login#'' @ reason) status st"

definition recordSecurityEvent :: "string \<Rightarrow> string \<Rightarrow> string \<Rightarrow> nat \<Rightarrow> auth_panel \<Rightarrow> auth_panel" where
  "recordSecurityEvent username action reason status st = audited username (''/api/v1/auth/'' @ action @ ''#'' @ reason) status st"

definition limited :: "auth_env \<Rightarrow> string \<Rightarrow> auth_panel \<Rightarrow> bool \<times> auth_panel" where
  "limited env ip st = (case preRecordLoginAttempt (ae_now env AtLimiter) ip (ap_attempts st) of (b, m) \<Rightarrow> (b, st\<lparr>ap_attempts := m\<rparr>))"

definition issue :: "auth_env \<Rightarrow> string \<Rightarrow> auth_panel \<Rightarrow> string \<times> auth_panel" where
  "issue env username st =
     (case issueRefreshToken env username (ap_tokens st) of (tok, t) \<Rightarrow> (case tok of None \<Rightarrow> [] | Some x \<Rightarrow> x, st\<lparr>ap_tokens := t\<rparr>))"

definition signIn :: "auth_env \<Rightarrow> string \<Rightarrow> string \<Rightarrow> auth_panel \<Rightarrow> authAnswer \<times> auth_panel" where
  "signIn env ip username st =
     (let expiry = loginExpiry env
      in case GenerateToken env username expiry of
           None \<Rightarrow> (AuthFail 500 ErrTokenError ''Failed to generate token'', st)
         | Some token \<Rightarrow>
             (case issue env username st of (refreshTok, st) \<Rightarrow>
                (Tokens token refreshTok (wholeSeconds expiry), recordLoginEvent username 200 ''success'' (st\<lparr>ap_attempts := fmdrop ip (ap_attempts st)\<rparr>))))"

text \<open>The second factor: \<open>None\<close> when it is passed.\<close>

definition secondFactor :: "auth_env \<Rightarrow> string \<Rightarrow> login_request \<Rightarrow> auth_panel \<Rightarrow> authAnswer option \<times> auth_panel" where
  "secondFactor env secret req st =
     (if secret = [] then (None, st)
      else if lr_recovery req \<noteq> [] then
        (if length (lr_recovery req) > 64
         then (Some (AuthFail 401 ErrInvalidTOTP ''Invalid recovery code''), recordLoginEvent (lr_username req) 401 ''invalid_recovery'' st)
         else (case consumeRecoveryCode env (lr_username req) (lr_recovery req) st of
             (Inl e, st) \<Rightarrow>
               (Some (if notLeader e then AuthFail 503 ErrInternalError ''Recovery login must be performed on the cluster leader node''
                      else AuthFail 500 ErrDBError ''Recovery code check failed''), st)
           | (Inr False, st) \<Rightarrow> (Some (AuthFail 401 ErrInvalidTOTP ''Invalid recovery code''), recordLoginEvent (lr_username req) 401 ''invalid_recovery'' st)
           | (Inr True, st) \<Rightarrow> (None, st)))
      else if lr_totp req = [] then (Some (AuthFail 400 ErrTOTPRequired ''2FA code is required''), st)
      else (case validCode env secret (lr_totp req) st of
          (True, st) \<Rightarrow> (None, st)
        | (False, st) \<Rightarrow> (Some (AuthFail 401 ErrInvalidTOTP ''Invalid 2FA code''), recordLoginEvent (lr_username req) 401 ''invalid_totp'' st)))"

definition Login :: "auth_env \<Rightarrow> string \<Rightarrow> login_request option \<Rightarrow> auth_panel \<Rightarrow> authAnswer \<times> auth_panel" where
  "Login env ip body st =
     (case body of
        None \<Rightarrow> (AuthFail 400 ErrInvalidRequest ''Invalid request body'', st)
      | Some req \<Rightarrow>
          if lr_username req = [] \<or> lr_password req = [] then (AuthFail 400 ErrMissingFields ''Username and password are required'', st)
          else if \<not> validCredentialBounds (lr_username req) (lr_password req) (lr_totp req)
          then (AuthFail 400 ErrInvalidRequest ''Credential field exceeds bounds'', st)
          else (case limited env ip st of
              (True, st) \<Rightarrow> (AuthFail 429 ErrRateLimited ''Too many login attempts. Try again later.'', st)
            | (False, st) \<Rightarrow>
                (case loadAdminAccount env (lr_username req) st of
                   Inl NoRows \<Rightarrow>
                     (AuthFail 401 ErrInvalidCredentials ''Invalid username or password'', recordLoginEvent (lr_username req) 401 ''unknown_user'' st)
                 | Inl _ \<Rightarrow> (AuthFail 500 ErrDBError ''Database error'', st)
                 | Inr (hash, secret, _) \<Rightarrow>
                     if \<not> ae_checkPassword env (lr_password req) hash
                     then (AuthFail 401 ErrInvalidCredentials ''Invalid username or password'', recordLoginEvent (lr_username req) 401 ''invalid_password'' st)
                     else (case secondFactor env secret req st of
                         (Some a, st) \<Rightarrow> (a, st)
                       | (None, st) \<Rightarrow> signIn env ip (lr_username req) st))))"

section \<open>Changing an account\<close>

definition accountError :: "authError \<Rightarrow> authAnswer" where
  "accountError e = (if e = NoRows then AuthFail 404 ErrUserNotFound ''User not found'' else AuthFail 500 ErrDBError ''Database error'')"

definition ChangePassword :: "auth_env \<Rightarrow> string \<Rightarrow> string \<Rightarrow> string \<Rightarrow> string \<Rightarrow> (string \<times> string) option \<Rightarrow> auth_panel \<Rightarrow> authAnswer \<times> auth_panel" where
  "ChangePassword env hint ip cookie username body st =
     (if ae_forwarded env then (Forwarded, st)
      else (case limited env ip st of
          (True, st) \<Rightarrow> (AuthFail 429 ErrRateLimited ''Too many attempts, try again later'', st)
        | (False, st) \<Rightarrow>
            (case body of
               None \<Rightarrow> (AuthFail 400 ErrInvalidRequest ''Invalid request body'', st)
             | Some (current, new) \<Rightarrow>
                 if current = [] \<or> new = [] then (AuthFail 400 ErrMissingFields ''Current password and new password are required'', st)
                 else (case validatePassword new of
                     Some msg \<Rightarrow> (AuthFail 400 ErrWeakPassword msg, st)
                   | None \<Rightarrow>
                       if username = [] then (AuthFail 401 ErrNoUser ''No authenticated user'', st)
                       else (case loadAdminAccount env username st of
                           Inl e \<Rightarrow> (accountError e, st)
                         | Inr (hash, secret, fromCluster) \<Rightarrow>
                             if \<not> ae_checkPassword env current hash
                             then (AuthFail 401 ErrInvalidPassword ''Current password is incorrect'', recordSecurityEvent username ''password_change'' ''invalid_password'' 401 st)
                             else (case ae_hashPassword env new of
                                 None \<Rightarrow> (AuthFail 500 ErrHashError ''Failed to hash new password'', st)
                               | Some newHash \<Rightarrow>
                                   (case persistAdminAccount env username newHash secret fromCluster st of
                                      (Some e, st) \<Rightarrow> (failClusterPersist hint e, st)
                                    | (None, st) \<Rightarrow>
                                        (Message ''Password changed successfully'',
                                         recordSecurityEvent username ''password_change'' ''success'' 200
                                           ((revokeOtherSessions env cookie username st)\<lparr>ap_attempts := fmdrop ip (ap_attempts st)\<rparr>)))))))))"

definition Verify2FA :: "auth_env \<Rightarrow> string \<Rightarrow> string \<Rightarrow> string \<Rightarrow> (string \<times> string) option \<Rightarrow> auth_panel \<Rightarrow> authAnswer \<times> auth_panel" where
  "Verify2FA env hint cookie username body st =
     (if ae_forwarded env then (Forwarded, st)
      else if username = [] then (AuthFail 401 ErrNoUser ''No authenticated user'', st)
      else (case body of
          None \<Rightarrow> (AuthFail 400 ErrInvalidRequest ''Invalid request body'', st)
        | Some (secret, code) \<Rightarrow>
            if secret = [] \<or> code = [] then (AuthFail 400 ErrMissingFields ''Secret and code are required'', st)
            else (case validCode env secret code st of
                (False, st) \<Rightarrow> (AuthFail 400 ErrInvalidTOTP ''Invalid 2FA code'', recordSecurityEvent username ''2fa_verify'' ''invalid_code'' 400 st)
              | (True, st) \<Rightarrow>
                  (case loadAdminAccount env username st of
                     Inl e \<Rightarrow> (accountError e, if e = NoRows then recordSecurityEvent username ''2fa_verify'' ''user_not_found'' 404 st else st)
                   | Inr (hash, _, fromCluster) \<Rightarrow>
                       (case persistAdminAccount env username hash secret fromCluster st of
                          (Some e, st) \<Rightarrow> (failClusterPersist hint e, st)
                        | (None, st) \<Rightarrow>
                            (Message ''2FA enabled successfully'', recordSecurityEvent username ''2fa_verify'' ''success'' 200 (revokeOtherSessions env cookie username st)))))))"

definition Disable2FA :: "auth_env \<Rightarrow> string \<Rightarrow> string \<Rightarrow> string \<Rightarrow> string \<Rightarrow> (string \<times> string) option \<Rightarrow> auth_panel \<Rightarrow> authAnswer \<times> auth_panel" where
  "Disable2FA env hint ip cookie username body st =
     (if ae_forwarded env then (Forwarded, st)
      else (case limited env ip st of
          (True, st) \<Rightarrow> (AuthFail 429 ErrRateLimited ''Too many attempts, try again later'', st)
        | (False, st) \<Rightarrow>
            if username = [] then (AuthFail 401 ErrNoUser ''No authenticated user'', st)
            else (case body of
                None \<Rightarrow> (AuthFail 400 ErrInvalidRequest ''Invalid request body'', st)
              | Some (password, code) \<Rightarrow>
                  if password = [] then (AuthFail 400 ErrMissingFields ''Password is required'', st)
                  else (case loadAdminAccount env username st of
                      Inl e \<Rightarrow> (accountError e, st)
                    | Inr (hash, secret, fromCluster) \<Rightarrow>
                        if \<not> ae_checkPassword env password hash
                        then (AuthFail 401 ErrInvalidPassword ''Invalid password'', recordSecurityEvent username ''2fa_disable'' ''invalid_password'' 401 st)
                        else if secret \<noteq> [] \<and> code = []
                        then (AuthFail 400 ErrTOTPRequired ''Current 2FA code is required to disable 2FA'', recordSecurityEvent username ''2fa_disable'' ''totp_required'' 400 st)
                        else (case (if secret \<noteq> [] then validCode env secret code st else (True, st)) of
                            (False, st) \<Rightarrow> (AuthFail 401 ErrInvalidTOTP ''Invalid 2FA code'', recordSecurityEvent username ''2fa_disable'' ''invalid_totp'' 401 st)
                          | (True, st) \<Rightarrow>
                              (case persistAdminAccount env username hash [] fromCluster st of
                                 (Some e, st) \<Rightarrow> (failClusterPersist hint e, st)
                               | (None, st) \<Rightarrow>
                                   (let st = snd (persistRecoveryCodes env username [] fromCluster st);
                                        st = revokeOtherSessions env cookie username st
                                    in (Message ''2FA disabled successfully'',
                                        recordSecurityEvent username ''2fa_disable'' ''success'' 200 (st\<lparr>ap_attempts := fmdrop ip (ap_attempts st)\<rparr>)))))))))"

definition RegenerateRecoveryCodes :: "auth_env \<Rightarrow> string \<Rightarrow> string list option \<Rightarrow> string \<Rightarrow> auth_panel \<Rightarrow> authAnswer \<times> auth_panel" where
  "RegenerateRecoveryCodes env hint random username st =
     (if ae_forwarded env then (Forwarded, st)
      else if username = [] then (AuthFail 401 ErrMissingToken ''No authenticated user'', st)
      else (case loadAdminAccount env username st of
          Inl e \<Rightarrow> (accountError e, st)
        | Inr (_, secret, fromCluster) \<Rightarrow>
            if secret = [] then (AuthFail 400 ErrInvalidRequest ''Enable 2FA before generating recovery codes'', st)
            else (case generateRecoveryCodes env random of
                None \<Rightarrow> (AuthFail 500 ErrInternalError ''Failed to generate codes'', st)
              | Some (plaintext, hashes) \<Rightarrow>
                  (case persistRecoveryCodes env username hashes fromCluster st of
                     (Some e, st) \<Rightarrow> (failClusterPersist hint e, st)
                   | (None, st) \<Rightarrow> (Codes plaintext, recordSecurityEvent username ''2fa_recovery_regenerate'' ''success'' 200 st)))))"

definition GetRecoveryStatus :: "auth_env \<Rightarrow> string \<Rightarrow> auth_panel \<Rightarrow> authAnswer" where
  "GetRecoveryStatus env username st =
     (if username = [] then AuthFail 401 ErrMissingToken ''No authenticated user''
      else (case loadRecoveryCodes env username st of
          Inl e \<Rightarrow> if e = NoRows then Counted False 0 else AuthFail 500 ErrDBError ''Database error''
        | Inr (hashes, _) \<Rightarrow> Counted (length hashes > 0) (length hashes)))"

text \<open>A password entered again: \<open>None\<close> when it is right.\<close>

definition VerifyStepUp :: "auth_env \<Rightarrow> string \<Rightarrow> string \<Rightarrow> string \<Rightarrow> auth_panel \<Rightarrow> authAnswer option \<times> auth_panel" where
  "VerifyStepUp env ip username password st =
     (if username = [] then (Some (AuthFail 403 ErrInvalidCredentials ''Re-authentication required for advanced install''), st)
      else if password = [] then (Some (AuthFail 400 ErrMissingFields ''Password is required for advanced install''), st)
      else (case limited env ip st of
          (True, st) \<Rightarrow> (Some (AuthFail 429 ErrRateLimited ''Too many attempts, try again later''), st)
        | (False, st) \<Rightarrow>
            (case loadAdminAccount env username st of
               Inl _ \<Rightarrow> (Some (AuthFail 403 ErrInvalidCredentials ''Re-authentication required for advanced install''), st)
             | Inr (hash, _, _) \<Rightarrow>
                 if \<not> ae_checkPassword env password hash then (Some (AuthFail 403 ErrInvalidPassword ''Incorrect password''), st)
                 else (None, st\<lparr>ap_attempts := fmdrop ip (ap_attempts st)\<rparr>))))"

section \<open>The first account\<close>

text \<open>\<open>nearby\<close> is \<^verbatim>\<open>isLoopbackOrPrivate\<close> of the caller's address.\<close>

definition setupRecent :: "time \<Rightarrow> time list gomap \<Rightarrow> time list gomap" where
  "setupRecent now attempts =
     (let recent = fmmap (filter (\<lambda>t. now - t < 60 * second)) attempts
      in fmfilter (\<lambda>k. fmlookup recent k \<noteq> Some []) recent)"

definition setupLimited :: "time \<Rightarrow> string \<Rightarrow> time list gomap \<Rightarrow> bool \<times> time list gomap" where
  "setupLimited now ip attempts =
     (let recent = setupRecent now attempts; own = (case fmlookup recent ip of None \<Rightarrow> [] | Some ts \<Rightarrow> ts)
      in if length own \<ge> 5 then (True, recent) else (False, fmupd ip (own @ [now]) recent))"

definition createAdmin :: "auth_env \<Rightarrow> string \<Rightarrow> string \<Rightarrow> auth_panel \<Rightarrow> authAnswer option \<times> auth_panel" where
  "createAdmin env username hash st =
     (if ae_fails env BeginTx \<or> ae_fails env CountAdmin then (Some (AuthFail 500 ErrDBError ''Database error''), st)
      else if fcard (fmdom (ap_admin st)) > 0 then (Some (AuthFail 409 ErrAlreadySetup ''Admin account already exists''), st)
      else if ae_fails env InsertAdmin \<or> ae_fails env CommitTx then (Some (AuthFail 500 ErrDBError ''Failed to create admin account''), st)
      else (None, st\<lparr>ap_admin := fmupd username \<lparr>ar_password = hash, ar_totp = None, ar_codes = None\<rparr> (ap_admin st)\<rparr>))"

definition SetupAdmin :: "auth_env \<Rightarrow> bool \<Rightarrow> string \<Rightarrow> (string \<times> string) option \<Rightarrow> auth_panel \<Rightarrow> authAnswer \<times> auth_panel" where
  "SetupAdmin env nearby ip body st =
     (if \<not> nearby
      then (AuthFail 403 ErrPermissionDenied ''First-run setup is restricted to local/private networks. Connect from the LAN or over an SSH tunnel (http://127.0.0.1).'', st)
      else (case setupLimited (ae_now env AtLimiter) ip (ap_setup st) of (blocked, attempts) \<Rightarrow>
        let st = st\<lparr>ap_setup := attempts\<rparr>
        in if blocked then (AuthFail 429 ErrRateLimited ''Too many setup attempts. Try again later.'', st)
           else (case body of
               None \<Rightarrow> (AuthFail 400 ErrInvalidRequest ''Invalid request body'', st)
             | Some (username, password) \<Rightarrow>
                 if username = [] \<or> password = [] then (AuthFail 400 ErrMissingFields ''Username and password are required'', st)
                 else if \<not> validCredentialBounds username password [] then (AuthFail 400 ErrInvalidRequest ''Username or password exceeds bounds'', st)
                 else (case validatePassword password of
                     Some msg \<Rightarrow> (AuthFail 400 ErrWeakPassword msg, st)
                   | None \<Rightarrow>
                       if clusterHasAdmin st
                       then (AuthFail 409 ErrAlreadySetup ''Cluster admin already configured; this node cannot bootstrap a separate admin'', st)
                       else (case ae_hashPassword env password of
                           None \<Rightarrow> (AuthFail 500 ErrHashError ''Failed to hash password'', st)
                         | Some hash \<Rightarrow>
                             (case createAdmin env username hash st of
                                (Some a, st) \<Rightarrow> (a, st)
                              | (None, st) \<Rightarrow>
                                  (let st = syncAccountToCluster env username st; expiry = loginExpiry env
                                   in case GenerateToken env username expiry of
                                        None \<Rightarrow> (AuthFail 500 ErrTokenError ''Admin created but failed to generate token'', st)
                                      | Some token \<Rightarrow> (case issue env username st of (tok, st) \<Rightarrow> (Tokens token tok (wholeSeconds expiry), st)))))))))"

end
