(* ===== verification/Account_Safety.thy ===== *)
theory Account_Safety
  imports Account_Handlers Store_Safety Event_Runs
begin

text \<open>
  Signing in takes the password and, where the account has one, the second factor; an address that does not know them is let through nine times in a
  minute at most.  A code of an authenticator is taken once in its half minute, and once more in the next; a recovery code is spent by the sign-in that
  uses it, unless two read the list at the same moment.
\<close>

section \<open>The limit on attempts\<close>

text \<open>The attempts of one address that are let through, one after another, while none succeeds.\<close>

fun letThrough :: "string \<Rightarrow> login_attempt gomap \<Rightarrow> time list \<Rightarrow> nat" where
  "letThrough ip attempts [] = 0"
| "letThrough ip attempts (now # ts) =
     (case preRecordLoginAttempt now ip attempts of (blocked, attempts) \<Rightarrow> (if blocked then 0 else 1) + letThrough ip attempts ts)"

text \<open>What the code keeps of an entry.\<close>

definition attempt_ok :: "login_attempt \<Rightarrow> bool" where
  "attempt_ok a \<longleftrightarrow> 1 \<le> la_count a \<and> (la_count a \<ge> rateLimitMaxAttempts \<longrightarrow> (\<exists>t. la_blockedUntil a = Some t \<and> t > la_firstAt a + rateLimitWindow))"

fun through :: "login_attempt \<Rightarrow> time list \<Rightarrow> nat" where
  "through a [] = 0"
| "through a (now # ts) = (case attemptNow now a of (blocked, a) \<Rightarrow> (if blocked then 0 else 1) + through a ts)"

lemma letThrough_known: "fmlookup attempts ip = Some a \<Longrightarrow> letThrough ip attempts ts = through a ts"
  by (induction ts arbitrary: a attempts) (auto simp: preRecordLoginAttempt_def split: prod.splits)

lemmas limit_defs = rateLimitMaxAttempts_def rateLimitWindow_def rateLimitBlockDuration_def

lemma attemptNow_ok: "attempt_ok a \<Longrightarrow> la_firstAt a \<le> now \<Longrightarrow> attempt_ok (snd (attemptNow now a))"
  by (auto simp: attempt_ok_def attemptNow_def limit_defs Let_def split: option.splits)

lemma through_window:
  assumes "attempt_ok a" and "\<forall>t\<in>set ts. la_firstAt a \<le> t \<and> t \<le> la_firstAt a + rateLimitWindow"
  shows "int (through a ts) \<le> (if la_count a \<ge> rateLimitMaxAttempts then 0 else rateLimitMaxAttempts - la_count a)"
  using assms
proof (induction ts arbitrary: a)
  case (Cons now ts)
  obtain blocked a' where n: "attemptNow now a = (blocked, a')" by fastforce
  have ok: "attempt_ok a'" using attemptNow_ok [of a now] Cons.prems n by simp
  have f: "la_firstAt a' = la_firstAt a" and c: "blocked \<and> a' = a \<or> \<not> blocked \<and> la_count a' = la_count a + 1 \<and> la_count a < rateLimitMaxAttempts"
    using n Cons.prems by (auto simp: attemptNow_def attempt_ok_def limit_defs Let_def split: option.splits if_splits)
  show ?case using Cons.IH [OF ok] Cons.prems(2) f c n by (auto simp: limit_defs split: if_splits)
qed (simp add: limit_defs)

lemma through_nine:
  assumes "attempt_ok a" and "sorted (x # ts)" and "la_firstAt a \<le> x" and "\<forall>t\<in>set ts. t \<le> x + rateLimitWindow"
  shows "int (through a ts) \<le> (if la_count a \<ge> rateLimitMaxAttempts then 0 else rateLimitMaxAttempts - la_count a) + 5"
  using assms
proof (induction ts arbitrary: a)
  case (Cons now ts)
  obtain blocked a' where n: "attemptNow now a = (blocked, a')" by fastforce
  have le: "la_firstAt a \<le> now" "x \<le> now" using Cons.prems by auto
  have ok: "attempt_ok a'" using attemptNow_ok [of a now] Cons.prems(1) le n by simp
  consider (same) "blocked" "a' = a"
    | (reset) "\<not> blocked" "la_count a' = 1" "la_firstAt a' = now"
    | (more) "\<not> blocked" "la_count a' = la_count a + 1" "la_count a < rateLimitMaxAttempts" "la_firstAt a' = la_firstAt a"
    using n Cons.prems(1) le by (auto simp: attemptNow_def attempt_ok_def limit_defs Let_def split: option.splits if_splits)
  then show ?case
  proof cases
    case reset
    have "\<forall>t\<in>set ts. la_firstAt a' \<le> t \<and> t \<le> la_firstAt a' + rateLimitWindow" using Cons.prems(2,4) reset(3) le by fastforce
    from through_window [OF ok this] reset n show ?thesis by (simp add: limit_defs)
  qed (use Cons.IH [OF ok] Cons.prems n in \<open>auto simp: limit_defs split: if_splits\<close>)
qed (simp add: limit_defs)

lemma sorted_le_last: "sorted ts \<Longrightarrow> t \<in> set ts \<Longrightarrow> t \<le> last ts"
  by (induction ts) auto

text \<open>C36: the limit on attempts.  From one address that does not sign in, at most nine attempts are let through to the password check in any sixty
  seconds, however many are made, and five when it had made none before.\<close>

theorem attempts_are_limited:
  assumes "sorted ts" and "ts \<noteq> []" and "last ts \<le> hd ts + rateLimitWindow"
    and "\<forall>a. fmlookup attempts ip = Some a \<longrightarrow> attempt_ok a \<and> la_firstAt a \<le> hd ts"
  shows "letThrough ip attempts ts \<le> (if fmlookup attempts ip = None then 5 else 9)"
proof -
  obtain now rest where ts: "ts = now # rest" using assms(2) by (cases ts) auto
  have b: "\<forall>t\<in>set ts. now \<le> t \<and> t \<le> now + rateLimitWindow"
    using assms(1,3) ts sorted_le_last [of ts] by fastforce
  show ?thesis
  proof (cases "fmlookup attempts ip")
    case None
    define a where "a = \<lparr>la_count = 1, la_firstAt = now, la_blockedUntil = None\<rparr>"
    have "letThrough ip attempts ts = 1 + through a rest" using None ts by (simp add: preRecordLoginAttempt_def letThrough_known a_def)
    moreover have "int (through a rest) \<le> 4"
      using through_window [of a rest] b ts by (simp add: a_def attempt_ok_def limit_defs)
    ultimately show ?thesis using None by simp
  next
    case (Some a)
    then have ok: "attempt_ok a" "la_firstAt a \<le> now" using assms(4) ts by auto
    have "sorted (now # ts)" using assms(1) b by simp
    from through_nine [OF ok(1) this ok(2)] b have "int (through a ts) \<le> 9" using ok(1) by (auto simp: attempt_ok_def limit_defs split: if_splits)
    then show ?thesis using Some letThrough_known [OF Some] by simp
  qed
qed

theorem attempts_are_limited_witness:
  "letThrough ''a'' (fmupd ''a'' \<lparr>la_count = 1, la_firstAt = 0, la_blockedUntil = None\<rparr> fmempty)
     [57 * second, 58 * second, 59 * second, 61 * second, 62 * second, 63 * second, 64 * second, 65 * second, 66 * second] \<le> 9"
  using attempts_are_limited [of "[57 * second, 58 * second, 59 * second, 61 * second, 62 * second, 63 * second, 64 * second, 65 * second, 66 * second]"
      "fmupd ''a'' \<lparr>la_count = 1, la_firstAt = 0, la_blockedUntil = None\<rparr> fmempty" "''a''"]
  by (simp add: attempt_ok_def limit_defs)

section \<open>Codes of an authenticator\<close>

text \<open>A call of \<^verbatim>\<open>ValidateCode\<close>: the two readings of the clock, the secret and the code.\<close>

type_synonym code_call = "int \<times> int \<times> string \<times> string"

definition codeAsked :: "(string \<Rightarrow> string \<Rightarrow> int \<Rightarrow> bool) \<Rightarrow> int gomap \<Rightarrow> code_call \<Rightarrow> int gomap" where
  "codeAsked totp used c = (case c of (now, later, secret, code) \<Rightarrow> snd (ValidateCode totp now later secret code used))"

lemma codeAsked_keeps:
  "fmlookup used key = Some e \<Longrightarrow> now \<le> e \<Longrightarrow> fmlookup (codeAsked totp used (now, later, secret, code)) key = Some e"
  by (auto simp: codeAsked_def ValidateCode_def Let_def)

lemma ValidateCode_free:
  assumes "fmlookup used (codeKey secret code (now div totpPeriod)) = None" and "totp secret code later"
  shows "fst (ValidateCode totp now later secret code used)"
  using assms by (simp add: ValidateCode_def Let_def)

lemma ValidateCode_other:
  assumes "fmlookup used key = None" and "key \<noteq> codeKey secret code (now div totpPeriod)"
  shows "fmlookup (snd (ValidateCode totp now later secret code used)) key = None"
  using assms by (auto simp: ValidateCode_def Let_def)

definition askedBy :: "int \<Rightarrow> code_call \<Rightarrow> bool" where
  "askedBy limit c \<longleftrightarrow> fst c \<le> limit"

interpretation code_run: event_run "codeAsked totp" "askedBy e" "\<lambda>used. fmlookup used key = Some e" for totp e key
  by unfold_locales (auto simp: askedBy_def codeAsked_keeps)

text \<open>A code that was taken is refused for the rest of its half minute, whatever other codes are tried.\<close>

theorem code_once_per_period:
  assumes "ValidateCode totp now later secret code used = (True, used')" and "list_all (askedBy ((now div totpPeriod + 1) * totpPeriod)) calls"
    and "now2 div totpPeriod = now div totpPeriod"
  shows "\<not> fst (ValidateCode totp now2 later2 secret code (foldl (codeAsked totp) used' calls))"
proof -
  define p where "p = now div totpPeriod"
  have "fmlookup used' (codeKey secret code p) = Some ((p + 2) * totpPeriod)"
    using assms(1) by (auto simp: ValidateCode_def Let_def p_def split: if_splits)
  moreover have before: "t \<le> (p + 2) * totpPeriod" if "t div totpPeriod \<le> p" for t using that by (simp add: totpPeriod_def)
  ultimately have "fmlookup (foldl (codeAsked totp) used' calls) (codeKey secret code p) = Some ((p + 2) * totpPeriod)"
    using assms(2) by (intro code_run.keeps_all) (auto simp: p_def askedBy_def list_all_iff totpPeriod_def)
  then show ?thesis using before [of now2] assms(3) by (simp add: ValidateCode_def Let_def p_def)
qed

lemma itoa_inj: "0 \<le> i \<Longrightarrow> i < 2 ^ 63 \<Longrightarrow> 0 \<le> j \<Longrightarrow> j < 2 ^ 63 \<Longrightarrow> itoa i = itoa j \<Longrightarrow> i = j"
  by (metis atoi_itoa option.inject)

text \<open>C37: how a code is replayed.  The slot that marks a code as used is the half minute of the clock, not the one the code belongs to, and the library also
  takes the codes of the half minutes before and after.  So a code the library takes in two half minutes in a row is taken in both.\<close>

theorem code_taken_again_next_period:
  assumes "totp secret code later" and "totp secret code later2" and "now2 div totpPeriod = now div totpPeriod + 1" and "0 \<le> now" and "now2 div totpPeriod < 2 ^ 63"
    and "fmlookup used (codeKey secret code (now div totpPeriod)) = None" and "fmlookup used (codeKey secret code (now2 div totpPeriod)) = None"
  shows "fst (ValidateCode totp now later secret code used) \<and>
    fst (ValidateCode totp now2 later2 secret code (snd (ValidateCode totp now later secret code used)))"
proof -
  define p where "p = now div totpPeriod"
  have p: "0 \<le> p" "p + 1 < 2 ^ 63" using assms(3-5) by (auto simp: p_def totpPeriod_def)
  have ne: "codeKey secret code (p + 1) \<noteq> codeKey secret code p" using itoa_inj [of "p + 1" p] p by (auto simp: codeKey_def)
  have "fmlookup (snd (ValidateCode totp now later secret code used)) (codeKey secret code (now2 div totpPeriod)) = None"
    by (rule ValidateCode_other) (use assms(3,7) ne p_def in auto)
  then show ?thesis using ValidateCode_free assms(1,2,6) by blast
qed

text \<open>The library with codes of the half minute before and after, on a toy code.\<close>

definition sampleTotp :: "string \<Rightarrow> string \<Rightarrow> int \<Rightarrow> bool" where
  "sampleTotp secret code t = list_ex (\<lambda>d. code = secret @ itoa (t div totpPeriod + d)) [- 1, 0, 1]"

theorem code_taken_again_next_period_witness:
  "fst (ValidateCode sampleTotp 59 59 ''s'' ''s1'' fmempty) \<and>
   fst (ValidateCode sampleTotp 61 61 ''s'' ''s1'' (snd (ValidateCode sampleTotp 59 59 ''s'' ''s1'' fmempty)))"
proof -
  have "sampleTotp ''s'' ''s1'' 59" "sampleTotp ''s'' ''s1'' 61" by code_simp+
  then show ?thesis by (intro code_taken_again_next_period) (simp_all add: totpPeriod_def)
qed

section \<open>Recovery codes\<close>

text \<open>What is relied on of JSON for a list of hashes: its text, and that of the entry that carries it, read back.\<close>

definition codes_json :: "auth_env \<Rightarrow> string \<Rightarrow> string list \<Rightarrow> bool" where
  "codes_json env username hs \<longleftrightarrow>
     ae_encCodes env hs \<noteq> [] \<and> dec_codes (w_codec (ae_wire env)) (ae_encCodes env hs) = Inr hs \<and>
     dec_command (w_codec (ae_wire env)) (enc_command (ae_wire env) \<lparr>cmd_type = CmdSetRecoveryCodes, cmd_key = username, cmd_value = ae_encCodes env hs\<rparr>) =
       Inr \<lparr>cmd_type = CmdSetRecoveryCodes, cmd_key = username, cmd_value = ae_encCodes env hs\<rparr>"

lemma applyEntry_codes:
  assumes "codes_json env username hs"
  shows "\<exists>f'. applyEntry (ae_wire env) i now \<lparr>cmd_type = CmdSetRecoveryCodes, cmd_key = username, cmd_value = ae_encCodes env hs\<rparr> f = (f', None) \<and>
    GetRecoveryCodes f' username = hs \<and> GetAccount f' = GetAccount f"
proof -
  obtain f' where f': "applySetRecoveryCodes f username hs = Applied f' None []" by (simp add: applySetRecoveryCodes_def)
  have "GetRecoveryCodes f' username = hs" using f' by (auto simp: applySetRecoveryCodes_def GetRecoveryCodes_def lookup_opt_def Let_def)
  moreover have "GetAccount f' = GetAccount f" using f' by (auto simp: applySetRecoveryCodes_def GetAccount_def)
  ultimately show ?thesis using assms f' by (simp add: applyEntry_def Apply_def decoded_def applyCmd_def cmd_defs codes_json_def)
qed

lemma SetRecoveryCodes_done:
  assumes "codes_json env username hs" and "SetRecoveryCodes env username hs m = (m', None)"
  shows "\<exists>f. mg_raft m = Some f \<and> (\<exists>f'. m' = m\<lparr>mg_raft := Some f'\<rparr> \<and> GetRecoveryCodes f' username = hs \<and> GetAccount f' = GetAccount f)"
proof -
  obtain f where f: "mg_raft m = Some f" using assms(2) by (cases "mg_raft m") (auto simp: SetRecoveryCodes_def managerApply_def)
  obtain i now where r: "ae_reply env ForCodes = Committed i now"
    using assms(2) f by (cases "ae_reply env ForCodes") (auto simp: SetRecoveryCodes_def managerApply_def RaftNode_Apply_def split: prod.splits option.splits)
  from applyEntry_codes [OF assms(1), of i now f] obtain f' where
    "applyEntry (ae_wire env) i now \<lparr>cmd_type = CmdSetRecoveryCodes, cmd_key = username, cmd_value = ae_encCodes env hs\<rparr> f = (f', None)"
    "GetRecoveryCodes f' username = hs" "GetAccount f' = GetAccount f" by blast
  then show ?thesis using assms(2) f r by (auto simp: SetRecoveryCodes_def managerApply_def RaftNode_Apply_def)
qed

text \<open>The accounts and the codes are read from the panel's table and from the cluster's state machine.\<close>

lemma reads_same:
  assumes "ap_admin st' = ap_admin st" and "ap_mgr st' = ap_mgr st"
  shows "loadAdminAccount env u st' = loadAdminAccount env u st" "loadRecoveryCodes env u st' = loadRecoveryCodes env u st"
  unfolding loadAdminAccount_def loadRecoveryCodes_def getClusterAccount_def assms by (rule refl)+

lemma account_same:
  assumes "getClusterAccount st' u = getClusterAccount st u" and "map_option ar_password (fmlookup (ap_admin st') u) = map_option ar_password (fmlookup (ap_admin st) u)"
    and "map_option ar_totp (fmlookup (ap_admin st') u) = map_option ar_totp (fmlookup (ap_admin st) u)"
  shows "loadAdminAccount env u st' = loadAdminAccount env u st"
  unfolding loadAdminAccount_def assms(1) using assms(2,3) by (auto split: option.split)

text \<open>A list that was written over the one that was read is the one that is read next, and the accounts are what they were.\<close>

lemma written_codes:
  assumes "codes_json env username hs" and "loadRecoveryCodes env username st = Inr (hashes, fc)" and "persistRecoveryCodes env username hs fc st = (None, st')"
  shows "loadRecoveryCodes env username st' = Inr (hs, fc)" and "loadAdminAccount env2 u st' = loadAdminAccount env2 u st"
proof -
  have "loadRecoveryCodes env username st' = Inr (hs, fc) \<and> loadAdminAccount env2 u st' = loadAdminAccount env2 u st"
  proof (cases fc)
    case True
    obtain a where a: "getClusterAccount st username = Some a"
      using assms(2) True by (auto simp: loadRecoveryCodes_def split: option.splits if_splits)
    obtain mg mg' where mg: "ap_mgr st = Some mg" "SetRecoveryCodes env username hs mg = (mg', None)" "st' = st\<lparr>ap_mgr := Some mg'\<rparr>"
      using assms(3) True by (auto simp: persistRecoveryCodes_def withMgr_def split: option.splits prod.splits)
    obtain f f' where f: "mg_raft mg = Some f" "mg' = mg\<lparr>mg_raft := Some f'\<rparr>" "GetRecoveryCodes f' username = hs" "GetAccount f' = GetAccount f"
      using SetRecoveryCodes_done [OF assms(1) mg(2)] by blast
    have c: "getClusterAccount st' v = getClusterAccount st v" for v using mg f by (simp add: getClusterAccount_def)
    have "loadAdminAccount env2 u st' = loadAdminAccount env2 u st" by (rule account_same [OF c]) (simp_all add: mg(3))
    then show ?thesis using c [of username] a mg f True by (simp add: loadRecoveryCodes_def)
  next
    case False
    have g: "getClusterAccount st username = None" using assms(2) False by (auto simp: loadRecoveryCodes_def split: option.splits)
    have m: "ap_mgr st' = ap_mgr st" using assms(3) False by (auto simp: persistRecoveryCodes_def split: if_splits option.splits)
    have c: "getClusterAccount st' v = getClusterAccount st v" for v unfolding getClusterAccount_def m by (rule refl)
    have "loadAdminAccount env2 u st' = loadAdminAccount env2 u st"
      by (rule account_same [OF c]) (use assms(3) False in \<open>auto simp: persistRecoveryCodes_def split: if_splits option.splits\<close>)
    moreover have "loadRecoveryCodes env username st' = Inr (hs, fc)"
      unfolding loadRecoveryCodes_def c g option.case using assms g False
      by (auto simp: loadRecoveryCodes_def persistRecoveryCodes_def codes_json_def split: option.splits if_splits)
    ultimately show ?thesis by blast
  qed
  then show "loadRecoveryCodes env username st' = Inr (hs, fc)" "loadAdminAccount env2 u st' = loadAdminAccount env2 u st" by blast+
qed

text \<open>A recovery code that is taken is one of the stored ones, and it is stored no longer: the list that is read afterwards is the one before without it.\<close>

theorem recovery_code_is_spent:
  assumes "\<forall>hs. codes_json env username hs" and "consumeRecoveryCode env username code st = (Inr True, st')"
  shows "\<exists>hashes fromCluster. loadRecoveryCodes env username st = Inr (hashes, fromCluster) \<and> hashRecoveryCode env code \<in> set hashes \<and>
    loadRecoveryCodes env username st' = Inr (remove1 (hashRecoveryCode env code) hashes, fromCluster)"
proof -
  define target where "target = hashRecoveryCode env code"
  obtain hashes fc where l: "loadRecoveryCodes env username st = Inr (hashes, fc)" and m: "target \<in> set hashes"
    and w: "persistRecoveryCodes env username (remove1 target hashes) fc st = (None, st')"
    using assms(2) by (auto simp: consumeRecoveryCode_def consumeFrom_def Let_def target_def split: sum.splits if_splits prod.splits option.splits)
  then show ?thesis using written_codes(1) [OF _ l w] assms(1) by (auto simp: target_def)
qed

section \<open>Signing in\<close>

lemma limited_is: "limited env ip st = (b, st1) \<Longrightarrow> \<exists>m. st1 = st\<lparr>ap_attempts := m\<rparr>"
  by (auto simp: limited_def split: prod.splits)

lemma reads_after_limit:
  assumes "limited env ip st = (b, st1)"
  shows "loadAdminAccount env u st1 = loadAdminAccount env u st" "loadRecoveryCodes env u st1 = loadRecoveryCodes env u st" "ap_used st1 = ap_used st"
  using limited_is [OF assms] by (auto simp: loadAdminAccount_def loadRecoveryCodes_def getClusterAccount_def split: option.split)

lemma consume_True: "consumeRecoveryCode env u code st = (Inr True, st') \<Longrightarrow>
    \<exists>hashes fc. loadRecoveryCodes env u st = Inr (hashes, fc) \<and> hashRecoveryCode env code \<in> set hashes"
  by (auto simp: consumeRecoveryCode_def consumeFrom_def Let_def split: sum.splits if_splits prod.splits)

text \<open>What an account with a second factor was shown: a stored recovery code, or a code the library takes and that has no mark of having been used in the present
  half minute.\<close>

definition factorShown :: "auth_env \<Rightarrow> string \<Rightarrow> login_request \<Rightarrow> auth_panel \<Rightarrow> bool" where
  "factorShown env secret req st \<longleftrightarrow> secret = [] \<or>
     lr_recovery req \<noteq> [] \<and> (\<exists>hashes fc. loadRecoveryCodes env (lr_username req) st = Inr (hashes, fc) \<and> hashRecoveryCode env (lr_recovery req) \<in> set hashes) \<or>
     lr_recovery req = [] \<and> ae_totp env secret (lr_totp req) (Unix (ae_now env AtVerify)) \<and>
       (let now = Unix (ae_now env AtCode)
        in \<forall>expiry. fmlookup (ap_used st) (codeKey secret (lr_totp req) (now div totpPeriod)) = Some expiry \<longrightarrow> now > expiry)"

lemma secondFactor_None: "secondFactor env secret req st = (None, st') \<Longrightarrow> factorShown env secret req st"
  unfolding secondFactor_def factorShown_def
  by (auto simp: validCode_def ValidateCode_def Let_def dest: consume_True split: if_splits sum.splits bool.splits prod.splits)

lemma secondFactor_Some: "secondFactor env secret req st = (Some a, st') \<Longrightarrow> \<exists>status c msg. a = AuthFail status c msg"
  unfolding secondFactor_def by (auto split: if_splits sum.splits bool.splits prod.splits)

lemma Login_passed:
  assumes "Login env ip (Some req) st = (Tokens access refresh secs, st')"
  shows "\<not> fst (limited env ip st) \<and>
    (\<exists>hash secret fromCluster. loadAdminAccount env (lr_username req) st = Inr (hash, secret, fromCluster) \<and> ae_checkPassword env (lr_password req) hash \<and>
      factorShown env secret req st)"
proof -
  obtain b st1 where l: "limited env ip st = (b, st1)" by fastforce
  have nb: "\<not> b" using assms l by (auto simp: Login_def split: if_splits)
  obtain hash secret fc where a: "loadAdminAccount env (lr_username req) st1 = Inr (hash, secret, fc)" and pw: "ae_checkPassword env (lr_password req) hash"
    and sf: "fst (secondFactor env secret req st1) = None"
    using assms l nb by (auto simp: Login_def dest: secondFactor_Some split: if_splits sum.splits authError.splits prod.splits option.splits)
  obtain st2 where "secondFactor env secret req st1 = (None, st2)" using sf by (cases "secondFactor env secret req st1") auto
  from secondFactor_None [OF this] have "factorShown env secret req st"
    using reads_after_limit [OF l] by (auto simp: factorShown_def)
  then show ?thesis using a pw l nb reads_after_limit [OF l] by auto
qed

text \<open>C11: signing in takes what the account asks for.  When a sign-in is answered with tokens, the address was not blocked, the password is right for the
  account the name stands for, and an account with a second factor was shown one: a recovery code that is stored for it, or a code the
  authenticator's library takes now and that has not been used in the half minute the clock shows.\<close>

theorem sign_in_needs_both_factors:
  assumes "Login env ip (Some req) st = (Tokens access refresh secs, st')"
  shows "\<not> fst (limited env ip st) \<and>
    (\<exists>hash secret fromCluster. loadAdminAccount env (lr_username req) st = Inr (hash, secret, fromCluster) \<and> ae_checkPassword env (lr_password req) hash \<and>
      factorShown env secret req st)"
  using assms by (rule Login_passed)

section \<open>Two sign-ins with one recovery code\<close>

text \<open>The two halves of a sign-in with a recovery code: what comes before the list is read, and what comes after.\<close>

definition codesRead :: "auth_env \<Rightarrow> string \<Rightarrow> login_request \<Rightarrow> auth_panel \<Rightarrow> (string list \<times> bool \<times> auth_panel) option" where
  "codesRead env ip req st =
     (if lr_username req = [] \<or> lr_password req = [] \<or> \<not> validCredentialBounds (lr_username req) (lr_password req) (lr_totp req) \<or>
         lr_recovery req = [] \<or> length (lr_recovery req) > 64 then None
      else (case limited env ip st of
          (True, st) \<Rightarrow> None
        | (False, st) \<Rightarrow>
            (case loadAdminAccount env (lr_username req) st of
               Inl _ \<Rightarrow> None
             | Inr (hash, secret, _) \<Rightarrow>
                 if \<not> ae_checkPassword env (lr_password req) hash \<or> secret = [] then None
                 else (case loadRecoveryCodes env (lr_username req) st of Inl _ \<Rightarrow> None | Inr (hashes, fromCluster) \<Rightarrow> Some (hashes, fromCluster, st)))))"

definition codeSpent :: "auth_env \<Rightarrow> string \<Rightarrow> login_request \<Rightarrow> string list \<Rightarrow> bool \<Rightarrow> auth_panel \<Rightarrow> authAnswer \<times> auth_panel" where
  "codeSpent env ip req hashes fromCluster st =
     (case consumeFrom env (lr_username req) (lr_recovery req) hashes fromCluster st of
        (Inl e, st) \<Rightarrow>
          (if notLeader e then AuthFail 503 ErrInternalError ''Recovery login must be performed on the cluster leader node''
           else AuthFail 500 ErrDBError ''Recovery code check failed'', st)
      | (Inr False, st) \<Rightarrow> (AuthFail 401 ErrInvalidTOTP ''Invalid recovery code'', recordLoginEvent (lr_username req) 401 ''invalid_recovery'' st)
      | (Inr True, st) \<Rightarrow> signIn env ip (lr_username req) st)"

lemma Login_halves:
  assumes "codesRead env ip req st = Some (hashes, fromCluster, st1)"
  shows "Login env ip (Some req) st = codeSpent env ip req hashes fromCluster st1"
proof -
  obtain b st0 where l: "limited env ip st = (b, st0)" by fastforce
  have ok: "\<not> (lr_username req = [] \<or> lr_password req = [])" "validCredentialBounds (lr_username req) (lr_password req) (lr_totp req)" "lr_recovery req \<noteq> []"
      "\<not> length (lr_recovery req) > 64" "\<not> b"
    using assms l by (auto simp: codesRead_def split: if_splits bool.splits)
  obtain hash secret fc where a: "loadAdminAccount env (lr_username req) st0 = Inr (hash, secret, fc)" "ae_checkPassword env (lr_password req) hash" "secret \<noteq> []"
      "loadRecoveryCodes env (lr_username req) st0 = Inr (hashes, fromCluster)" "st1 = st0"
    using assms l ok by (auto simp: codesRead_def split: if_splits sum.splits)
  then show ?thesis using l ok
    by (simp add: Login_def secondFactor_def consumeRecoveryCode_def codeSpent_def case_prod_beta split: sum.split bool.split)
qed

text \<open>What the writes of a sign-in meet when they succeed.\<close>

definition canWrite :: "auth_env \<Rightarrow> bool" where
  "canWrite env \<longleftrightarrow> \<not> ae_fails env UpdateCodes \<and> (\<exists>i t. ae_reply env ForCodes = Committed i t)"

definition storeThere :: "bool \<Rightarrow> auth_panel \<Rightarrow> bool" where
  "storeThere fromCluster st \<longleftrightarrow> (fromCluster \<longrightarrow> (\<exists>m f. ap_mgr st = Some m \<and> mg_raft m = Some f))"

lemma persist_written:
  assumes "canWrite env" and "codes_json env u hs" and "storeThere fc st"
  shows "\<exists>st'. persistRecoveryCodes env u hs fc st = (None, st') \<and> storeThere fc st'"
proof (cases fc)
  case True
  obtain m f where m: "ap_mgr st = Some m" "mg_raft m = Some f" using assms(3) True by (auto simp: storeThere_def)
  obtain i t where r: "ae_reply env ForCodes = Committed i t" using assms(1) by (auto simp: canWrite_def)
  from applyEntry_codes [OF assms(2), of i t f] m r True show ?thesis
    by (auto simp: persistRecoveryCodes_def withMgr_def SetRecoveryCodes_def managerApply_def RaftNode_Apply_def storeThere_def)
next
  case False
  then show ?thesis using assms(1) by (simp add: persistRecoveryCodes_def canWrite_def storeThere_def)
qed

lemma signIn_keeps: "ap_admin (snd (signIn env ip u st)) = ap_admin st" "ap_mgr (snd (signIn env ip u st)) = ap_mgr st"
  unfolding signIn_def Let_def issue_def by (auto simp: recordLoginEvent_def audited_def split: option.split prod.split)

lemma store_same: "ap_mgr st' = ap_mgr st \<Longrightarrow> storeThere fc st' = storeThere fc st"
  by (simp add: storeThere_def)

lemma codesRead_facts:
  assumes "codesRead env ip req st = Some (hashes, fc, st1)"
  shows "loadRecoveryCodes env (lr_username req) st = Inr (hashes, fc)" "storeThere fc st1" "ap_admin st1 = ap_admin st" "ap_mgr st1 = ap_mgr st"
    and "\<exists>hash secret b. loadAdminAccount env (lr_username req) st = Inr (hash, secret, b) \<and> secret \<noteq> []"
proof -
  obtain b st0 where l: "limited env ip st = (b, st0)" by fastforce
  obtain m where m: "st0 = st\<lparr>ap_attempts := m\<rparr>" using limited_is [OF l] by blast
  have f: "st1 = st0" "loadRecoveryCodes env (lr_username req) st0 = Inr (hashes, fc)" "\<exists>hash secret b. loadAdminAccount env (lr_username req) st0 = Inr (hash, secret, b) \<and> secret \<noteq> []"
    using assms l by (auto simp: codesRead_def split: if_splits bool.splits sum.splits prod.splits)
  then show "loadRecoveryCodes env (lr_username req) st = Inr (hashes, fc)" "\<exists>hash secret b. loadAdminAccount env (lr_username req) st = Inr (hash, secret, b) \<and> secret \<noteq> []"
    using reads_after_limit [OF l] by auto
  show "ap_admin st1 = ap_admin st" "ap_mgr st1 = ap_mgr st" using f(1) m by simp_all
  show "storeThere fc st1" using f(1,2) by (auto simp: storeThere_def loadRecoveryCodes_def getClusterAccount_def split: option.splits if_splits)
qed

lemma codeSpent_signs:
  assumes "canWrite env" and "codes_json env (lr_username req) (remove1 (hashRecoveryCode env (lr_recovery req)) hashes)" and "storeThere fc st"
    and "hashRecoveryCode env (lr_recovery req) \<in> set hashes" and "GenerateToken env (lr_username req) (loginExpiry env) \<noteq> None"
  shows "\<exists>st'. persistRecoveryCodes env (lr_username req) (remove1 (hashRecoveryCode env (lr_recovery req)) hashes) fc st = (None, st') \<and> storeThere fc st' \<and>
    codeSpent env ip req hashes fc st = signIn env ip (lr_username req) st' \<and> (\<exists>a b c. fst (codeSpent env ip req hashes fc st) = Tokens a b c)"
proof -
  from persist_written [OF assms(1-3)] obtain st' where p: "persistRecoveryCodes env (lr_username req) (remove1 (hashRecoveryCode env (lr_recovery req)) hashes) fc st = (None, st')"
    "storeThere fc st'" by blast
  then have "codeSpent env ip req hashes fc st = signIn env ip (lr_username req) st'" using assms(4) by (simp add: codeSpent_def consumeFrom_def Let_def)
  moreover have "\<exists>a b c. fst (signIn env ip (lr_username req) st') = Tokens a b c" using assms(5) by (auto simp: signIn_def Let_def split: prod.split)
  ultimately show ?thesis using p by auto
qed

text \<open>C38: how a recovery code is used twice.  Nothing holds the list of an account between reading it and writing it back.  Take two sign-ins to one account, the panel's own
  or the cluster's, with the right password and the same code, stored once, where the writes and the signing of tokens succeed.  One after the other, the second is
  not answered with tokens.  But when both have read the list before either has written it, both are.\<close>

theorem recovery_code_taken_twice:
  assumes "codesRead env ip req st = Some (hashes, fc, st1)" and "codesRead env2 ip2 req2 st1 = Some (hashes2, fc2, st2)" and "lr_username req2 = lr_username req"
    and "hashRecoveryCode env (lr_recovery req) = code" and "hashRecoveryCode env2 (lr_recovery req2) = code" and "code \<in> set hashes" and "distinct hashes"
    and "ae_wire env2 = ae_wire env" and "ae_encCodes env2 = ae_encCodes env" and "codes_json env (lr_username req) (remove1 code hashes)" and "canWrite env" and "canWrite env2"
    and "GenerateToken env (lr_username req) (loginExpiry env) \<noteq> None" and "GenerateToken env2 (lr_username req) (loginExpiry env2) \<noteq> None"
  shows "(\<exists>a b c. fst (codeSpent env ip req hashes fc st2) = Tokens a b c) \<and>
    (\<exists>a b c. fst (codeSpent env2 ip2 req2 hashes2 fc2 (snd (codeSpent env ip req hashes fc st2))) = Tokens a b c) \<and>
    (\<exists>a b c. fst (Login env ip (Some req) st) = Tokens a b c) \<and>
    (\<forall>a b c. fst (Login env2 ip2 (Some req2) (snd (Login env ip (Some req) st))) \<noteq> Tokens a b c)"
proof -
  note r1 = codesRead_facts [OF assms(1)] and r2 = codesRead_facts [OF assms(2)]
  have e: "loadRecoveryCodes env2 u s = Inr x \<Longrightarrow> loadRecoveryCodes env u s = Inr y \<Longrightarrow> x = y" for u s x y
    using assms(8) by (auto simp: loadRecoveryCodes_def split: option.splits if_splits)
  have same: "hashes2 = hashes" "fc2 = fc" using e r1(1) r2(1) assms(3) reads_same(2) [OF r1(3,4)] by force+
  have j2: "codes_json env2 (lr_username req2) (remove1 code hashes2)" using assms(3,8-10) same by (simp add: codes_json_def)
  have here: "storeThere fc st2" using r1(2) store_same [OF r2(4)] by simp
  obtain s1 where s1: "storeThere fc s1" "codeSpent env ip req hashes fc st2 = signIn env ip (lr_username req) s1" "\<exists>a b c. fst (codeSpent env ip req hashes fc st2) = Tokens a b c"
    using codeSpent_signs [of env req hashes fc st2 ip] assms here by auto
  have "storeThere fc2 (snd (codeSpent env ip req hashes fc st2))" using s1(1,2) same store_same [OF signIn_keeps(2)] by simp
  then have both: "\<exists>a b c. fst (codeSpent env2 ip2 req2 hashes2 fc2 (snd (codeSpent env ip req hashes fc st2))) = Tokens a b c"
    using codeSpent_signs [of env2 req2 hashes2 fc2 "snd (codeSpent env ip req hashes fc st2)" ip2] assms j2 same by auto
  obtain s2 where s2: "persistRecoveryCodes env (lr_username req) (remove1 code hashes) fc st1 = (None, s2)" "codeSpent env ip req hashes fc st1 = signIn env ip (lr_username req) s2"
      "\<exists>a b c. fst (codeSpent env ip req hashes fc st1) = Tokens a b c"
    using codeSpent_signs [of env req hashes fc st1 ip] assms r1(2) by auto
  define s3 where "s3 = snd (Login env ip (Some req) st)"
  have s3: "s3 = snd (signIn env ip (lr_username req) s2)" using s2(2) Login_halves [OF assms(1)] by (simp add: s3_def)
  have l1: "loadRecoveryCodes env (lr_username req) st1 = Inr (hashes, fc)" using r1(1) reads_same(2) [OF r1(3,4)] by simp
  have after: "loadRecoveryCodes env (lr_username req) s3 = Inr (remove1 code hashes, fc)" "loadAdminAccount env2 (lr_username req) s3 = loadAdminAccount env2 (lr_username req) st1"
    using written_codes [OF assms(10) l1 s2(1)] reads_same(1,2) [OF signIn_keeps] by (simp_all add: s3)
  have "\<not> factorShown env2 secret req2 s3" if "loadAdminAccount env2 (lr_username req2) s3 = Inr (hash, secret, b)" for hash secret b
  proof -
    have "secret \<noteq> []" using that r2(5) after(2) assms(3) by auto
    moreover have "lr_recovery req2 \<noteq> []" using assms(2) by (auto simp: codesRead_def)
    moreover have "code \<notin> set (remove1 code hashes)" using assms(7) by simp
    ultimately show ?thesis using e [OF _ after(1)] assms(3,5) by (auto simp: factorShown_def)
  qed
  then have "fst (Login env2 ip2 (Some req2) s3) \<noteq> Tokens a b c" for a b c using Login_passed [of env2 ip2 req2 s3 a b c] by (metis prod.collapse)
  then show ?thesis using s1(3) both s2(3) Login_halves [OF assms(1)] unfolding s3_def by auto
qed

section \<open>A sample panel\<close>

definition sampleAuthEnv :: auth_env where
  "sampleAuthEnv = \<lparr>ae_fails = (\<lambda>_. False), ae_reply = (\<lambda>_. NotLeaderNow), ae_now = (\<lambda>_. 100 * second), ae_token = Some ''t'', ae_family = Some ''f'',
     ae_wire = sampleWire, ae_encAccount = acct_username, ae_encCodes = concat, ae_checkPassword = (\<lambda>pw hash. hash = ''#'' @ pw), ae_hashPassword = (\<lambda>pw. Some (''#'' @ pw)),
     ae_totp = sampleTotp, ae_sum = (\<lambda>s. s), ae_sign = (\<lambda>u k d t. Some (''jwt-'' @ u)), ae_secret = ''k'', ae_float = (\<lambda>_ _ _. 0), ae_tokenExpiry = ''1h'',
     ae_forwarded = False, ae_unreadBefore = (\<lambda>_ _. False)\<rparr>"

definition samplePanelState :: auth_panel where
  "samplePanelState = \<lparr>ap_admin = fmupd ''ops'' \<lparr>ar_password = ''#secret'', ar_totp = Some ''00000'', ar_codes = Some (hexEncode ''abcde'')\<rparr> fmempty, ap_mgr = None,
     ap_attempts = fmempty, ap_setup = fmempty, ap_used = fmempty, ap_tokens = fmempty, ap_tickets = fmempty, ap_audit = []\<rparr>"

definition sampleLogin :: login_request where
  "sampleLogin = \<lparr>lr_username = ''ops'', lr_password = ''secret'', lr_totp = ''000003'', lr_recovery = []\<rparr>"

lemma sample_login: "fst (Login sampleAuthEnv ''a'' (Some sampleLogin) samplePanelState) = Tokens ''jwt-ops'' (hexEncode ''t'') 3600"
  by code_simp

theorem sign_in_needs_both_factors_witness:
  "ae_checkPassword sampleAuthEnv ''secret'' ''#secret'' \<and> factorShown sampleAuthEnv ''00000'' sampleLogin samplePanelState"
proof -
  obtain st' where "Login sampleAuthEnv ''a'' (Some sampleLogin) samplePanelState = (Tokens ''jwt-ops'' (hexEncode ''t'') 3600, st')"
    using sample_login by (cases "Login sampleAuthEnv ''a'' (Some sampleLogin) samplePanelState") simp
  from sign_in_needs_both_factors [OF this] show ?thesis
    by (auto simp: loadAdminAccount_def getClusterAccount_def samplePanelState_def sampleLogin_def sampleAuthEnv_def nullText_def)
qed

text \<open>A panel that writes lists of codes as texts that read back, and two sign-ins from two addresses.\<close>

definition recoveryEnv :: auth_env where
  "recoveryEnv = sampleAuthEnv\<lparr>ae_encCodes := (\<lambda>hs. CHR ''['' # concat hs), ae_reply := (\<lambda>_. Committed 1 0),
     ae_wire := sampleWire\<lparr>w_codec := (w_codec sampleWire)\<lparr>dec_codes := (\<lambda>s. if s = ''['' then Inr [] else Inr [s])\<rparr>\<rparr>\<rparr>"

definition recoveryLogin :: login_request where
  "recoveryLogin = \<lparr>lr_username = ''ops'', lr_password = ''secret'', lr_totp = [], lr_recovery = ''ABC-DE''\<rparr>"

definition limitedState :: "string list \<Rightarrow> auth_panel" where
  "limitedState ips = fold (\<lambda>ip st. snd (limited recoveryEnv ip st)) ips samplePanelState"

theorem recovery_code_taken_twice_witness:
  "(\<exists>a b c. fst (codeSpent recoveryEnv ''b'' recoveryLogin [hexEncode ''abcde''] False
      (snd (codeSpent recoveryEnv ''a'' recoveryLogin [hexEncode ''abcde''] False (limitedState [''a'', ''b''])))) = Tokens a b c)"
proof -
  have r: "codesRead recoveryEnv ''a'' recoveryLogin samplePanelState = Some ([hexEncode ''abcde''], False, limitedState [''a''])"
    "codesRead recoveryEnv ''b'' recoveryLogin (limitedState [''a'']) = Some ([hexEncode ''abcde''], False, limitedState [''a'', ''b''])" by code_simp+
  have h: "hashRecoveryCode recoveryEnv (lr_recovery recoveryLogin) = hexEncode ''abcde''" by code_simp
  have j: "codes_json recoveryEnv (lr_username recoveryLogin) []" by code_simp
  have t: "GenerateToken recoveryEnv (lr_username recoveryLogin) (loginExpiry recoveryEnv) \<noteq> None" by code_simp
  have w: "canWrite recoveryEnv" by (auto simp: canWrite_def recoveryEnv_def sampleAuthEnv_def)
  show ?thesis using recovery_code_taken_twice [OF r refl h h _ _ refl refl _ w w t t] j by simp
qed

end
