(* ===== verification/Refresh_Safety.thy ===== *)
theory Refresh_Safety
  imports Account_Safety
begin

text \<open>
  A refresh token is exchanged once, whatever else is asked of the panel; exchanging it again ends every session that came of the same sign-in; changing a
  password ends the account's other sessions; the first account is made once, from nearby, with a password the policy takes.
\<close>

section \<open>What is asked of a panel\<close>

inductive auth_step :: "auth_env \<Rightarrow> auth_panel \<Rightarrow> auth_panel \<Rightarrow> bool" for env where
  login: "auth_step env st (snd (Login env ip body st))"
| refresh: "auth_step env st (snd (Refresh env cookie body st))"
| logout: "auth_step env st (snd (Logout env cookie st))"
| change_password: "auth_step env st (snd (ChangePassword env hint ip cookie username passwords st))"
| verify: "auth_step env st (snd (Verify2FA env hint cookie username codes st))"
| disable: "auth_step env st (snd (Disable2FA env hint ip cookie username codes st))"
| regenerate: "auth_step env st (snd (RegenerateRecoveryCodes env hint random username st))"
| step_up: "auth_step env st (snd (VerifyStepUp env ip username password st))"
| first_account: "auth_step env st (snd (SetupAdmin env nearby ip account st))"
| prune: "auth_step env st (pruneRefreshTokens env st)"
| end_all: "(\<And>s. ap_tokens (swap s) = ap_tokens s) \<Longrightarrow> auth_step env st (snd (EndSessions env swap st))"

section \<open>What happens to the tokens\<close>

text \<open>What is true of a token's row for as long as it is there.\<close>

definition kept :: "(refresh_row \<Rightarrow> bool) \<Rightarrow> string \<Rightarrow> refresh_table \<Rightarrow> bool" where
  "kept P hash t \<longleftrightarrow> (\<forall>row. fmlookup t hash = Some row \<longrightarrow> P row)"

definition mintsHash :: "auth_env \<Rightarrow> string \<Rightarrow> bool" where
  "mintsHash env hash \<longleftrightarrow> (\<exists>raw. ae_token env = Some raw \<and> sha256Hex env (hexEncode raw) = hash)"

text \<open>The calls that leave the tokens alone.\<close>

named_theorems same_tokens

lemma withMgr_tokens [same_tokens]: "withMgr f st = (e, st') \<Longrightarrow> ap_tokens st' = ap_tokens st"
  by (auto simp: withMgr_def split: option.splits prod.splits)

lemma syncAccountToCluster_tokens [simp]: "ap_tokens (syncAccountToCluster env u st) = ap_tokens st"
  unfolding syncAccountToCluster_def by (auto simp: withMgr_def split: option.split prod.split)

lemma persistAdminAccount_tokens [same_tokens]: "persistAdminAccount env u h s fc st = (e, st') \<Longrightarrow> ap_tokens st' = ap_tokens st"
  by (auto simp: persistAdminAccount_def dest: withMgr_tokens split: if_splits option.splits)

lemma persistRecoveryCodes_tokens: "ap_tokens (snd (persistRecoveryCodes env u hs fc st)) = ap_tokens st"
  by (auto simp: persistRecoveryCodes_def withMgr_def split: option.splits prod.splits)

lemma persistRecoveryCodes_same [same_tokens]: "persistRecoveryCodes env u hs fc st = (e, st') \<Longrightarrow> ap_tokens st' = ap_tokens st"
  using persistRecoveryCodes_tokens [of env u hs fc st] by simp

lemma consumeRecoveryCode_tokens [same_tokens]: "consumeRecoveryCode env u c st = (r, st') \<Longrightarrow> ap_tokens st' = ap_tokens st"
  by (auto simp: consumeRecoveryCode_def consumeFrom_def Let_def dest: persistRecoveryCodes_same split: sum.splits prod.splits if_splits option.splits)

lemma limited_tokens [same_tokens]: "limited env ip st = (b, st') \<Longrightarrow> ap_tokens st' = ap_tokens st"
  using limited_is by fastforce

lemma validCode_tokens [same_tokens]: "validCode env s c st = (b, st') \<Longrightarrow> ap_tokens st' = ap_tokens st"
  by (auto simp: validCode_def split: prod.splits)

lemma audited_tokens [simp]: "ap_tokens (recordLoginEvent u n r st) = ap_tokens st" "ap_tokens (recordSecurityEvent u a r n st) = ap_tokens st"
  by (simp_all add: recordLoginEvent_def recordSecurityEvent_def audited_def)

lemma secondFactor_tokens [same_tokens]: "secondFactor env s req st = (a, st') \<Longrightarrow> ap_tokens st' = ap_tokens st"
  unfolding secondFactor_def by (auto dest: consumeRecoveryCode_tokens validCode_tokens split: if_splits prod.splits sum.splits bool.splits)

lemma createAdmin_tokens: "createAdmin env u h st = (a, st') \<Longrightarrow> ap_tokens st' = ap_tokens st"
  by (auto simp: createAdmin_def split: if_splits)

text \<open>The contract of what the requests keep: it outlives the mark that a row is spent.  Then it outlives every request that does not make the token anew.\<close>

locale row_property =
  fixes P :: "refresh_row \<Rightarrow> bool"
  assumes stable: "P row \<Longrightarrow> P (row\<lparr>rt_consumed := Some x\<rparr>)"
begin

lemma kept_delete [simp]: "kept P hash t \<Longrightarrow> kept P hash (deleteWhere env p t)"
  by (auto simp: kept_def deleteWhere_def)

lemma kept_insert: "kept P hash t \<Longrightarrow> h \<noteq> hash \<Longrightarrow> insertToken env h u f t = Some t' \<Longrightarrow> kept P hash t'"
  by (auto simp: kept_def insertToken_def split: if_splits)

lemma kept_issue:
  assumes "kept P hash (ap_tokens st)" and "\<not> mintsHash env hash" and "issue env u st = (tok, st')"
  shows "kept P hash (ap_tokens st')"
  using assms kept_insert [OF assms(1)]
  by (auto simp: issue_def issueRefreshToken_def mintsHash_def Let_def split: prod.splits option.splits)

lemma kept_rotate:
  assumes "kept P hash t" and "\<not> mintsHash env hash" and "rotate env h row f t = (a, t')" and "fmlookup t h = Some row"
  shows "kept P hash t'"
proof -
  have "kept P hash (fmupd h (row\<lparr>rt_consumed := Some x\<rparr>) t)" for x using assms(1,4) stable by (auto simp: kept_def)
  from kept_insert [OF this] assms show ?thesis
    unfolding rotate_def Let_def by (auto simp: mintsHash_def split: option.splits if_splits)
qed

lemma kept_redeem:
  assumes "kept P hash (ap_tokens st)" and "\<not> mintsHash env hash"
  shows "kept P hash (snd (redeem env h st))"
proof -
  have r: "kept P hash (snd (rotate env h row f (ap_tokens st)))" if "fmlookup (ap_tokens st) h = Some row" for row f
    using kept_rotate [OF assms _ that, of f] by (cases "rotate env h row f (ap_tokens st)") auto
  show ?thesis unfolding redeem_def Let_def reused_def committed_def using assms(1) r by (auto split: option.split)
qed

lemma kept_signIn:
  assumes "kept P hash (ap_tokens st)" and "\<not> mintsHash env hash"
  shows "kept P hash (ap_tokens (snd (signIn env ip u st)))"
proof -
  obtain tok st' where i: "issue env u st = (tok, st')" by fastforce
  show ?thesis unfolding signIn_def Let_def using assms kept_issue [OF assms i] i by (auto split: option.split)
qed

lemma kept_Login:
  assumes "kept P hash (ap_tokens st)" and "\<not> mintsHash env hash"
  shows "kept P hash (ap_tokens (snd (Login env ip body st)))"
proof (cases body)
  case (Some req)
  obtain b st1 where l: "limited env ip st = (b, st1)" by fastforce
  have s1: "kept P hash (ap_tokens st1)" using assms(1) limited_tokens [OF l] by simp
  show ?thesis
  proof (cases "loadAdminAccount env (lr_username req) st1")
    case (Inl e)
    then show ?thesis using Some l s1 assms(1) by (cases e) (auto simp: Login_def split: bool.split)
  next
    case (Inr r)
    obtain h secret fc where r: "r = (h, secret, fc)" by (cases r)
    obtain a st2 where f: "secondFactor env secret req st1 = (a, st2)" by fastforce
    have s2: "kept P hash (ap_tokens st2)" using s1 secondFactor_tokens [OF f] by simp
    show ?thesis using Some l s1 s2 assms(1) Inr r f kept_signIn [OF s2 assms(2)] by (auto simp: Login_def split: bool.split option.split)
  qed
qed (use assms(1) in \<open>simp add: Login_def\<close>)

lemma kept_revoke [simp]: "kept P hash (ap_tokens st) \<Longrightarrow> kept P hash (ap_tokens (revokeOtherSessions env cookie u st))"
  unfolding revokeOtherSessions_def Let_def by (auto split: option.split)

lemma kept_same: "kept P hash (ap_tokens st) \<Longrightarrow> ap_tokens st' = ap_tokens st \<Longrightarrow> kept P hash (ap_tokens st')"
  by simp

lemma kept_ChangePassword:
  assumes "kept P hash (ap_tokens st)"
  shows "kept P hash (ap_tokens (snd (ChangePassword env hint ip cookie u body st)))"
proof -
  obtain b st1 where l: "limited env ip st = (b, st1)" by fastforce
  have s1: "kept P hash (ap_tokens st1)" using assms limited_tokens [OF l] by simp
  have p: "kept P hash (ap_tokens st2)" if "persistAdminAccount env u h x fc st1 = (e, st2)" for h x fc e st2
    using s1 persistAdminAccount_tokens [OF that] by simp
  show ?thesis unfolding ChangePassword_def l prod.case using assms s1 p by (auto split: bool.split option.split sum.split prod.split)
qed

lemma kept_Verify2FA:
  assumes "kept P hash (ap_tokens st)"
  shows "kept P hash (ap_tokens (snd (Verify2FA env hint cookie u body st)))"
proof -
  have v: "kept P hash (ap_tokens st1)" if "validCode env x c st = (b, st1)" for x c b st1 using assms validCode_tokens [OF that] by simp
  have p: "kept P hash (ap_tokens st2)" if "persistAdminAccount env u h x fc st1 = (e, st2)" "validCode env y c st = (b, st1)" for h x fc e st1 st2 y c b
    using v [OF that(2)] persistAdminAccount_tokens [OF that(1)] by simp
  show ?thesis unfolding Verify2FA_def using assms v p by (auto split: bool.split option.split sum.split prod.split)
qed

lemma kept_Disable2FA:
  assumes "kept P hash (ap_tokens st)"
  shows "kept P hash (ap_tokens (snd (Disable2FA env hint ip cookie u body st)))"
proof -
  obtain b st1 where l: "limited env ip st = (b, st1)" by fastforce
  have s1: "kept P hash (ap_tokens st1)" using assms limited_tokens [OF l] by simp
  have v: "kept P hash (ap_tokens st2)" if "validCode env secret c st1 = (ok, st2)" for secret c ok st2
    using s1 validCode_tokens [OF that] by simp
  have p: "kept P hash (ap_tokens st3)" if "persistAdminAccount env u h x fc st2 = (e, st3)" "kept P hash (ap_tokens st2)" for h x fc e st2 st3
    using that persistAdminAccount_tokens by fastforce
  have w: "kept P hash (ap_tokens (snd (persistRecoveryCodes env u [] fc st3)))" if "kept P hash (ap_tokens st3)" for fc st3
    using that persistRecoveryCodes_tokens by simp
  show ?thesis unfolding Disable2FA_def l prod.case Let_def using assms s1
    by (auto split: bool.split option.split sum.split prod.split intro!: kept_revoke w dest: v p)
qed

lemma kept_others:
  assumes "kept P hash (ap_tokens st)"
  shows "kept P hash (ap_tokens (snd (RegenerateRecoveryCodes env hint random u st)))" "kept P hash (ap_tokens (snd (VerifyStepUp env ip u password st)))"
    "kept P hash (ap_tokens (snd (Logout env cookie st)))" "kept P hash (ap_tokens (pruneRefreshTokens env st))"
  using assms unfolding RegenerateRecoveryCodes_def VerifyStepUp_def Logout_def pruneRefreshTokens_def Let_def
  by (auto dest: persistRecoveryCodes_same limited_tokens split: bool.split option.split sum.split prod.split)

lemma kept_SetupAdmin:
  assumes "kept P hash (ap_tokens st)" and "\<not> mintsHash env hash"
  shows "kept P hash (ap_tokens (snd (SetupAdmin env nearby ip body st)))"
proof -
  obtain blocked attempts where l: "setupLimited (ae_now env AtLimiter) ip (ap_setup st) = (blocked, attempts)" by fastforce
  define st1 where "st1 = st\<lparr>ap_setup := attempts\<rparr>"
  have s1: "kept P hash (ap_tokens st1)" using assms(1) by (simp add: st1_def)
  have c: "kept P hash (ap_tokens (syncAccountToCluster env u st2))" if "createAdmin env u h st1 = (a, st2)" for u h a st2
    using s1 createAdmin_tokens [OF that] by simp
  have c': "kept P hash (ap_tokens st2)" if "createAdmin env u h st1 = (a, st2)" for u h a st2
    using s1 createAdmin_tokens [OF that] by simp
  show ?thesis unfolding SetupAdmin_def l prod.case Let_def st1_def [symmetric] using assms(1) s1
    by (auto split: option.split prod.split intro: c c' kept_issue [OF c assms(2)])
qed

lemma kept_step:
  assumes "auth_step env st st'" and "kept P hash (ap_tokens st)" and "\<not> mintsHash env hash"
  shows "kept P hash (ap_tokens st')"
  using assms(1)
proof cases
  case (refresh cookie body)
  then show ?thesis using assms(2) kept_redeem [OF assms(2,3)] by (auto simp: Refresh_def Let_def split: prod.split) (metis snd_conv)+
next
  case (end_all swap)
  then show ?thesis using assms(2) by (simp add: EndSessions_def Let_def)
qed (use assms kept_Login kept_ChangePassword kept_Verify2FA kept_Disable2FA kept_others kept_SetupAdmin in simp_all)

end

text \<open>A token that can never be exchanged is spent, or not there; and a row stays of the session it was made for.\<close>

definition spent :: "refresh_row \<Rightarrow> bool" where "spent row \<longleftrightarrow> rt_consumed row \<noteq> None"

definition ofSession :: "string \<Rightarrow> string \<Rightarrow> refresh_row \<Rightarrow> bool" where
  "ofSession username family row \<longleftrightarrow> rt_username row = username \<and> rt_family row = family"

interpretation spent: row_property spent
  by unfold_locales (simp add: spent_def)

interpretation of_session: row_property "ofSession username family" for username family
  by unfold_locales (simp add: ofSession_def)

section \<open>A token is exchanged once\<close>

definition presented :: "string \<Rightarrow> string \<Rightarrow> string" where
  "presented cookie body = (if cookie \<noteq> [] then cookie else body)"

lemma Refresh_is: "presented cookie body \<noteq> [] \<Longrightarrow> \<not> ae_fails env BeginTx \<Longrightarrow>
    Refresh env cookie body st = (fst (redeem env (sha256Hex env (presented cookie body)) st), st\<lparr>ap_tokens := snd (redeem env (sha256Hex env (presented cookie body)) st)\<rparr>)"
  by (auto simp: Refresh_def presented_def Let_def split: prod.split)

lemma Refresh_redeems:
  assumes "Refresh env cookie body st = (Tokens access tok secs, st')"
  shows "presented cookie body \<noteq> [] \<and> redeem env (sha256Hex env (presented cookie body)) st = (Tokens access tok secs, ap_tokens st')"
  using assms by (auto simp: Refresh_def presented_def Let_def split: if_splits prod.splits)

lemma rotate_Tokens:
  assumes "rotate env hash row family t = (Tokens access tok secs, t')"
  shows "\<exists>new when. sha256Hex env tok \<noteq> hash \<and> fmlookup t (sha256Hex env tok) = None \<and> rt_username new = rt_username row \<and> rt_family new = family \<and> rt_consumed new = None \<and>
    t' = fmupd (sha256Hex env tok) new (fmupd hash (row\<lparr>rt_consumed := Some when\<rparr>) t)"
proof -
  define new where "new = \<lparr>rt_username = rt_username row, rt_family = family, rt_expires = Stamp (Unix (ae_now env AtIssue + refreshTokenLifetime)), rt_consumed = None\<rparr>"
  have "sha256Hex env tok \<noteq> hash" "fmlookup t (sha256Hex env tok) = None"
      "t' = fmupd (sha256Hex env tok) new (fmupd hash (row\<lparr>rt_consumed := Some (Stamp (Unix (ae_now env AtConsume)))\<rparr>) t)"
    using assms by (auto simp: rotate_def insertToken_def Let_def new_def split: option.splits if_splits)
  then show ?thesis by (intro exI [of _ new] exI [of _ "Stamp (Unix (ae_now env AtConsume))"]) (auto simp: new_def)
qed

lemma redeem_Tokens:
  assumes "redeem env hash st = (Tokens access tok secs, t')"
  shows "\<exists>row new when. fmlookup (ap_tokens st) hash = Some row \<and> rt_consumed row = None \<and> sha256Hex env tok \<noteq> hash \<and> rt_username new = rt_username row \<and>
    (rt_family row \<noteq> [] \<longrightarrow> rt_family new = rt_family row) \<and> rt_consumed new = None \<and>
    t' = fmupd (sha256Hex env tok) new (fmupd hash (row\<lparr>rt_consumed := Some when\<rparr>) (ap_tokens st))"
  using assms unfolding redeem_def Let_def
  by (auto simp: reused_def split: option.splits if_splits dest!: rotate_Tokens)

lemma redeem_spent: "kept spent hash (ap_tokens st) \<Longrightarrow> redeem env hash st \<noteq> (Tokens access tok secs, t')"
  using redeem_Tokens [of env hash st access tok secs t'] by (auto simp: kept_def spent_def)

text \<open>The states after any requests in which the random source does not give the token again.\<close>

inductive later :: "string \<Rightarrow> auth_panel \<Rightarrow> auth_panel \<Rightarrow> bool" for hash where
  now: "later hash st st"
| then_step: "later hash st st1 \<Longrightarrow> auth_step env st1 st2 \<Longrightarrow> \<not> mintsHash env hash \<Longrightarrow> later hash st st2"

context row_property
begin

lemma kept_later: "later hash st st' \<Longrightarrow> kept P hash (ap_tokens st) \<Longrightarrow> kept P hash (ap_tokens st')"
  by (induction rule: later.induct) (auto intro: kept_step)

end

text \<open>C12: a refresh token is exchanged once.  After it was exchanged, whatever is asked of the panel in between, in whatever order, it is not exchanged again,
  unless the random source gives the same token once more.\<close>

theorem token_exchanged_once:
  assumes "Refresh env cookie body st = (Tokens access tok secs, st1)" and "later (sha256Hex env (presented cookie body)) st1 st2"
    and "presented cookie' body' = presented cookie body" and "ae_sum env' = ae_sum env"
  shows "fst (Refresh env' cookie' body' st2) \<noteq> Tokens access' tok' secs'"
proof
  define hash where "hash = sha256Hex env (presented cookie body)"
  assume "fst (Refresh env' cookie' body' st2) = Tokens access' tok' secs'"
  then obtain st3 where "Refresh env' cookie' body' st2 = (Tokens access' tok' secs', st3)" by (metis prod.collapse)
  then have "redeem env' hash st2 = (Tokens access' tok' secs', ap_tokens st3)"
    using Refresh_redeems [of env' cookie' body' st2 access' tok' secs' st3] assms(3,4) by (simp add: hash_def sha256Hex_def)
  moreover have "kept spent hash (ap_tokens st1)"
    using Refresh_redeems [OF assms(1)] redeem_Tokens [of env hash st access tok secs "ap_tokens st1"] by (auto simp: kept_def spent_def hash_def)
  ultimately show False using spent.kept_later [of hash st1 st2] redeem_spent assms(2) by (auto simp: hash_def)
qed

section \<open>A token that is used again\<close>

lemma deleteWhere_lookup: "\<not> ae_fails env DeleteTokens \<Longrightarrow> fmlookup (deleteWhere env p t) h = Some row \<longleftrightarrow> fmlookup t h = Some row \<and> \<not> p h row"
  by (auto simp: deleteWhere_def)

lemma redeem_again:
  assumes "fmlookup (ap_tokens st) hash = Some row" and "rt_consumed row \<noteq> None" and "\<not> ae_fails env SelectToken"
  shows "redeem env hash st = reused env row (ap_tokens st)"
  using assms by (simp add: redeem_def Let_def)

lemma exchanged:
  assumes "Refresh env cookie body st = (Tokens access tok secs, st1)"
  shows "\<exists>row new. fmlookup (ap_tokens st1) (sha256Hex env (presented cookie body)) = Some row \<and> rt_consumed row \<noteq> None \<and>
    fmlookup (ap_tokens st1) (sha256Hex env tok) = Some new \<and> rt_consumed new = None \<and> rt_username new = rt_username row \<and>
    (rt_family row \<noteq> [] \<longrightarrow> rt_family new = rt_family row)"
  using Refresh_redeems [OF assms] redeem_Tokens [of env "sha256Hex env (presented cookie body)" st access tok secs "ap_tokens st1"] by auto

lemma kept_gone: "fmlookup t hash = None \<Longrightarrow> kept P hash t"
  by (simp add: kept_def)

lemma not_exchanged:
  assumes "kept spent (sha256Hex env (presented cookie body)) (ap_tokens st)"
  shows "fst (Refresh env cookie body st) \<noteq> Tokens access tok secs"
proof
  assume "fst (Refresh env cookie body st) = Tokens access tok secs"
  then have "Refresh env cookie body st = (Tokens access tok secs, snd (Refresh env cookie body st))" by (metis prod.collapse)
  from Refresh_redeems [OF this] redeem_spent [OF assms] show False by blast
qed

lemma reuse_deletes:
  assumes "fmlookup (ap_tokens st) (sha256Hex env raw) = Some row" and "spent row" and "raw \<noteq> []" and "\<forall>c. \<not> ae_fails env c"
  shows "fst (Refresh env raw [] st) = AuthFail 401 ErrInvalidToken ''Session revoked''"
    and "fmlookup (ap_tokens (snd (Refresh env raw [] st))) h = Some r \<Longrightarrow>
      fmlookup (ap_tokens st) h = Some r \<and> (if rt_family row \<noteq> [] then rt_family r \<noteq> rt_family row else rt_username r \<noteq> rt_username row)"
proof -
  have p: "presented raw [] = raw" using assms(3) by (simp add: presented_def)
  have "redeem env (sha256Hex env raw) st = reused env row (ap_tokens st)" using redeem_again [OF assms(1)] assms(2,4) by (simp add: spent_def)
  then have st2: "Refresh env raw [] st = (fst (reused env row (ap_tokens st)), st\<lparr>ap_tokens := snd (reused env row (ap_tokens st))\<rparr>)"
    using Refresh_is [of raw "[]" env st] assms(3,4) p by simp
  show "fst (Refresh env raw [] st) = AuthFail 401 ErrInvalidToken ''Session revoked''" using st2 assms(4) by (simp add: reused_def Let_def)
  show "fmlookup (ap_tokens st) h = Some r \<and> (if rt_family row \<noteq> [] then rt_family r \<noteq> rt_family row else rt_username r \<noteq> rt_username row)"
    if "fmlookup (ap_tokens (snd (Refresh env raw [] st))) h = Some r"
    using that assms(4) by (auto simp: st2 reused_def Let_def deleteWhere_lookup split: if_splits)
qed

text \<open>C13: a token that is used again ends the session, where the database works.  Whatever was asked of the panel since a token was exchanged, as long as the panel still has its
  record: when it is presented again and no call of the database fails, the request is refused as a revoked session, and no token of the session is left in the
  table.  The token it had been exchanged for is then good for nothing, whatever is asked of the panel later, unless the random source gives it once more.\<close>

theorem reuse_ends_the_session:
  assumes "Refresh env cookie body st = (Tokens access tok secs, st1)" and "raw = presented cookie body"
    and "later (sha256Hex env raw) st1 st2" and "later (sha256Hex env tok) st1 st2" and "fmlookup (ap_tokens st2) (sha256Hex env raw) = Some row"
    and "\<forall>c. \<not> ae_fails env2 c" and "ae_sum env2 = ae_sum env"
    and "later (sha256Hex env tok) (snd (Refresh env2 raw [] st2)) st4" and "ae_sum env3 = ae_sum env" and "presented cookie' body' = tok"
  shows "fst (Refresh env2 raw [] st2) = AuthFail 401 ErrInvalidToken ''Session revoked'' \<and>
    (\<forall>h r. fmlookup (ap_tokens (snd (Refresh env2 raw [] st2))) h = Some r \<longrightarrow>
       (if rt_family row \<noteq> [] then rt_family r \<noteq> rt_family row else rt_username r \<noteq> rt_username row)) \<and>
    fst (Refresh env3 cookie' body' st4) \<noteq> Tokens access' tok' secs'"
proof -
  obtain row0 new where r: "fmlookup (ap_tokens st1) (sha256Hex env raw) = Some row0" "spent row0" "fmlookup (ap_tokens st1) (sha256Hex env tok) = Some new"
      "rt_username new = rt_username row0" "rt_family row0 \<noteq> [] \<longrightarrow> rt_family new = rt_family row0"
    using exchanged [OF assms(1)] by (auto simp: assms(2) spent_def)
  have raw: "raw \<noteq> []" using Refresh_redeems [OF assms(1)] assms(2) by simp
  have sum: "sha256Hex env2 x = sha256Hex env x" "sha256Hex env3 x = sha256Hex env x" for x using assms(7,9) by (simp_all add: sha256Hex_def)
  have "kept spent (sha256Hex env raw) (ap_tokens st2)" by (rule spent.kept_later [OF assms(3)]) (simp add: kept_def r(1,2))
  moreover have "kept (ofSession (rt_username row0) (rt_family row0)) (sha256Hex env raw) (ap_tokens st2)"
    by (rule of_session.kept_later [OF assms(3)]) (simp add: kept_def ofSession_def r(1))
  ultimately have row: "spent row" "rt_username row = rt_username row0" "rt_family row = rt_family row0" using assms(5) by (auto simp: kept_def ofSession_def)
  have "kept (ofSession (rt_username new) (rt_family new)) (sha256Hex env tok) (ap_tokens st2)"
    by (rule of_session.kept_later [OF assms(4)]) (simp add: kept_def ofSession_def r(3))
  then have tok: "rt_username r = rt_username row \<and> (rt_family row \<noteq> [] \<longrightarrow> rt_family r = rt_family row)" if "fmlookup (ap_tokens st2) (sha256Hex env tok) = Some r" for r
    using that r(4,5) row by (auto simp: kept_def ofSession_def)
  note reuse = reuse_deletes [OF assms(5) [folded sum(1)] row(1) raw assms(6)]
  have "fmlookup (ap_tokens (snd (Refresh env2 raw [] st2))) (sha256Hex env tok) = None"
  proof (cases "fmlookup (ap_tokens (snd (Refresh env2 raw [] st2))) (sha256Hex env tok)")
    case (Some r)
    from reuse(2) [OF this] tok show ?thesis by (auto split: if_splits)
  qed
  then have "kept spent (sha256Hex env tok) (ap_tokens st4)" using spent.kept_later [OF assms(8)] kept_gone by blast
  then have "fst (Refresh env3 cookie' body' st4) \<noteq> Tokens access' tok' secs'" using not_exchanged [of env3 cookie' body' st4] assms(10) sum(2) by simp
  then show ?thesis using reuse by blast
qed

text \<open>C39: how a stolen session outlives its end.  When the statement that deletes the family fails and the commit does not, the client is told that its session
  is revoked, and the token that the first one was exchanged for is still there to be exchanged.\<close>

theorem revoked_session_lives_on:
  assumes "Refresh env cookie body st = (Tokens access tok secs, st1)" and "raw = presented cookie body"
    and "\<forall>c. ae_fails env2 c = (c = DeleteTokens)" and "ae_sum env2 = ae_sum env"
  shows "fst (Refresh env2 raw [] st1) = AuthFail 401 ErrInvalidToken ''Session revoked'' \<and>
    (\<exists>new. fmlookup (ap_tokens (snd (Refresh env2 raw [] st1))) (sha256Hex env tok) = Some new \<and> rt_consumed new = None)"
proof -
  have raw: "raw \<noteq> []" "presented raw [] = raw" using Refresh_redeems [OF assms(1)] assms(2) by (auto simp: presented_def)
  obtain row new where r: "fmlookup (ap_tokens st1) (sha256Hex env2 raw) = Some row" "rt_consumed row \<noteq> None"
      "fmlookup (ap_tokens st1) (sha256Hex env tok) = Some new" "rt_consumed new = None"
    using exchanged [OF assms(1)] by (auto simp: assms(2,4) sha256Hex_def)
  have "redeem env2 (sha256Hex env2 raw) st1 = (AuthFail 401 ErrInvalidToken ''Session revoked'', ap_tokens st1)"
    using redeem_again [OF r(1,2)] assms(3) by (simp add: reused_def deleteWhere_def Let_def)
  then show ?thesis using Refresh_is [of raw "[]" env2 st1] raw assms(3) r(3,4) by simp
qed

section \<open>Changing a password, and the first account\<close>

text \<open>After a password was changed and the other sessions could be deleted, every session left of the account is of the family of the cookie that asked.\<close>

theorem password_change_ends_other_sessions:
  assumes "fst (ChangePassword env hint ip cookie username body st) = Message m" and "\<not> ae_fails env DeleteTokens"
    and "fmlookup (ap_tokens (snd (ChangePassword env hint ip cookie username body st))) h = Some row" and "rt_username row = username"
  shows "cookie \<noteq> [] \<and> (\<exists>own. fmlookup (ap_tokens st) (sha256Hex env cookie) = Some own \<and> rt_username own = username \<and>
    (rt_family own \<noteq> [] \<longrightarrow> rt_family row = rt_family own) \<and> (rt_family own = [] \<longrightarrow> h = sha256Hex env cookie))"
proof -
  obtain st1 where st1: "ap_tokens st1 = ap_tokens st"
    and e: "ap_tokens (snd (ChangePassword env hint ip cookie username body st)) = ap_tokens (revokeOtherSessions env cookie username st1)"
    using assms(1) unfolding ChangePassword_def
    by (auto simp: accountError_def failClusterPersist_def dest!: limited_tokens persistAdminAccount_tokens split: if_splits bool.splits option.splits sum.splits prod.splits)
  then show ?thesis using assms(2-4)
    by (auto simp: revokeOtherSessions_def Let_def deleteWhere_lookup split: option.splits if_splits)
qed

lemma syncAccountToCluster_admin: "ap_admin (syncAccountToCluster env u st) = ap_admin st"
  unfolding syncAccountToCluster_def by (auto simp: withMgr_def split: option.split prod.split)

lemma createAdmin_admin:
  assumes "createAdmin env u h st = (a, st')"
  shows "(case a of Some _ \<Rightarrow> ap_admin st' = ap_admin st
    | None \<Rightarrow> ap_admin st = fmempty \<and> ap_admin st' = fmupd u \<lparr>ar_password = h, ar_totp = None, ar_codes = None\<rparr> fmempty)"
proof -
  have e: "ap_admin st = fmempty" if "\<not> fcard (fmdom (ap_admin st)) > 0" using that by (metis fcard_0_eq fmrestrict_fset_dom fmrestrict_fset_null gr0I)
  show ?thesis using assms e by (auto simp: createAdmin_def split: if_splits)
qed

lemma issue_admin: "issue env u st = (tok, st') \<Longrightarrow> ap_admin st' = ap_admin st"
  by (auto simp: issue_def split: prod.splits)

text \<open>Setting a panel up makes an account only when there is none, here or in the cluster, from an address nearby, with a password the policy takes.\<close>

theorem setup_makes_first_account:
  assumes "ap_admin (snd (SetupAdmin env nearby ip body st)) \<noteq> ap_admin st"
  shows "nearby \<and> ap_admin st = fmempty \<and> \<not> clusterHasAdmin st \<and> (\<exists>username password hash. body = Some (username, password) \<and> validatePassword password = None \<and>
    ae_hashPassword env password = Some hash \<and>
    ap_admin (snd (SetupAdmin env nearby ip body st)) = fmupd username \<lparr>ar_password = hash, ar_totp = None, ar_codes = None\<rparr> fmempty)"
proof -
  obtain blocked attempts where l: "setupLimited (ae_now env AtLimiter) ip (ap_setup st) = (blocked, attempts)" by fastforce
  have c: "clusterHasAdmin (st\<lparr>ap_setup := attempts\<rparr>) = clusterHasAdmin st" by (simp add: clusterHasAdmin_def)
  define st1 where "st1 = st\<lparr>ap_setup := attempts\<rparr>"
  have s1: "ap_admin st1 = ap_admin st" "clusterHasAdmin st1 = clusterHasAdmin st" using c by (simp_all add: st1_def)
  show ?thesis using assms s1 unfolding SetupAdmin_def l prod.case Let_def st1_def [symmetric]
    by (auto simp: syncAccountToCluster_admin dest!: issue_admin dest: createAdmin_admin split: if_splits option.splits prod.splits)
qed

section \<open>A session of the sample panel\<close>

definition sessionState :: auth_panel where
  "sessionState = samplePanelState\<lparr>ap_tokens := fmupd (hexEncode ''one'') \<lparr>rt_username = ''ops'', rt_family = ''fam'', rt_expires = Stamp 1000, rt_consumed = None\<rparr> fmempty\<rparr>"

definition deleteFails :: auth_env where
  "deleteFails = sampleAuthEnv\<lparr>ae_fails := (\<lambda>c. c = DeleteTokens)\<rparr>"

lemma sample_exchange: "fst (Refresh sampleAuthEnv ''one'' [] sessionState) = Tokens ''jwt-ops'' (hexEncode ''t'') 3600"
  by code_simp

lemma sample_exchanged: "Refresh sampleAuthEnv ''one'' [] sessionState = (Tokens ''jwt-ops'' (hexEncode ''t'') 3600, snd (Refresh sampleAuthEnv ''one'' [] sessionState))"
  using sample_exchange by (metis prod.collapse)

lemma sample_presented: "presented ''one'' [] = ''one''"
  by (simp add: presented_def)

theorem token_exchanged_once_witness:
  "fst (Refresh deleteFails [] ''one'' (pruneRefreshTokens sampleAuthEnv (snd (Refresh sampleAuthEnv ''one'' [] sessionState)))) \<noteq> Tokens ''jwt-ops'' (hexEncode ''t'') 3600"
proof -
  define hash where "hash = sha256Hex sampleAuthEnv (presented ''one'' [])"
  have "\<not> mintsHash sampleAuthEnv hash" unfolding mintsHash_def hash_def sample_presented by (simp add: sampleAuthEnv_def sha256Hex_def hexEncode_def)
  then have "later hash (snd (Refresh sampleAuthEnv ''one'' [] sessionState)) (pruneRefreshTokens sampleAuthEnv (snd (Refresh sampleAuthEnv ''one'' [] sessionState)))"
    by (intro later.then_step [OF later.now auth_step.prune])
  from token_exchanged_once [OF sample_exchanged this [unfolded hash_def], of "[]" "''one''" deleteFails]
  show ?thesis by (simp add: presented_def deleteFails_def)
qed

theorem reuse_ends_the_session_witness:
  "fst (Refresh sampleAuthEnv ''one'' [] (snd (Refresh sampleAuthEnv ''one'' [] sessionState))) = AuthFail 401 ErrInvalidToken ''Session revoked'' \<and>
   fst (Refresh sampleAuthEnv (hexEncode ''t'') [] (snd (Refresh sampleAuthEnv ''one'' [] (snd (Refresh sampleAuthEnv ''one'' [] sessionState))))) \<noteq> Tokens ''jwt-ops'' (hexEncode ''t'') 3600"
proof -
  have "fmlookup (ap_tokens (snd (Refresh sampleAuthEnv ''one'' [] sessionState))) (sha256Hex sampleAuthEnv ''one'') \<noteq> None" by code_simp
  then obtain row where "fmlookup (ap_tokens (snd (Refresh sampleAuthEnv ''one'' [] sessionState))) (sha256Hex sampleAuthEnv ''one'') = Some row" by auto
  moreover have "presented (hexEncode ''t'') [] = hexEncode ''t''" by code_simp
  ultimately show ?thesis
    using reuse_ends_the_session [OF sample_exchanged sample_presented [symmetric] later.now later.now _ _ refl later.now refl] by (simp add: sampleAuthEnv_def)
qed

theorem revoked_session_lives_on_witness:
  "fst (Refresh deleteFails ''one'' [] (snd (Refresh sampleAuthEnv ''one'' [] sessionState))) = AuthFail 401 ErrInvalidToken ''Session revoked''"
  using revoked_session_lives_on [OF sample_exchanged sample_presented [symmetric], of deleteFails] by (simp add: deleteFails_def)

end
