(* ===== verification/Quorum_Guard.thy ===== *)
theory Quorum_Guard
  imports Task_Run
begin

text \<open>
  The guards on leaving a cluster and on removing a voter: \<^verbatim>\<open>src/internal/cluster/quorum.go\<close>.  The leader's heartbeat health and the voters of the Raft
  configuration, or why they cannot be read, are arguments; \<open>quote\<close> is the verb \<^verbatim>\<open>%q\<close>.
\<close>

definition onLeaveReason :: "nat \<Rightarrow> nat \<Rightarrow> string option" where
  "onLeaveReason remaining healthyRemaining =
     (if remaining = 0 then Some ''no remaining voters; the last voter cannot leave (use disband instead)''
      else (let quorum = remaining div 2 + 1
            in if healthyRemaining < quorum
               then Some (''only '' @ itoa (int healthyRemaining) @ '' of '' @ itoa (int remaining) @ '' remaining voters reachable (need '' @ itoa (int quorum) @ '' for quorum)'')
               else None))"

definition wouldDropBelowQuorumOnLeave :: "string \<Rightarrow> string gomap \<Rightarrow> string option" where
  "wouldDropBelowQuorumOnLeave selfID voters =
     (let others = fmdrop selfID voters
      in onLeaveReason (fcard (fmdom others)) (fcard (ffilter (\<lambda>i. fmlookup others i = Some StatusOnline) (fmdom others))))"

text \<open>A voter's status: the leader's own view of its heartbeat, elsewhere what the record says.\<close>

definition voterStatus :: "string gomap option \<Rightarrow> string \<Rightarrow> node \<Rightarrow> string" where
  "voterStatus health i n =
     (case health of
        Some h \<Rightarrow> (case fmlookup h i of Some status \<Rightarrow> status | None \<Rightarrow> StatusOffline)
      | None \<Rightarrow> if node_status n \<noteq> [] then node_status n else StatusOffline)"

definition votersOf :: "string gomap option \<Rightarrow> cluster_state \<Rightarrow> string gomap" where
  "votersOf health s =
     (case cs_nodes s of
        None \<Rightarrow> fmempty
      | Some nodes \<Rightarrow>
          fmmap_keys (voterStatus health) (fmfilter (\<lambda>i. case fmlookup nodes i of Some n \<Rightarrow> node_role n = RoleVoter | None \<Rightarrow> False) nodes))"

definition WouldDropBelowQuorumOnLeave :: "string \<Rightarrow> string gomap \<Rightarrow> manager \<Rightarrow> string option" where
  "WouldDropBelowQuorumOnLeave nodeID liveHealth m =
     (case mg_raft m of
        None \<Rightarrow> None
      | Some f \<Rightarrow> wouldDropBelowQuorumOnLeave nodeID (votersOf (if mg_leader m then Some liveHealth else None) (GetState f)))"

definition wouldDropBelowQuorumOnRemove :: "(string \<Rightarrow> string) \<Rightarrow> string \<Rightarrow> int \<Rightarrow> string option" where
  "wouldDropBelowQuorumOnRemove quote targetID voters =
     (if voters \<le> 0 then None
      else (let postRemoval = voters - 1; quorum = voters div 2 + 1
            in if postRemoval < quorum
               then Some (''removing voter '' @ quote targetID @ '' would drop the cluster below quorum ('' @ itoa postRemoval @ ''/'' @ itoa voters @ '' voters; quorum '' @ itoa quorum @ '')'')
               else None))"

definition WouldDropBelowQuorumOnRemove :: "(string \<Rightarrow> string) \<Rightarrow> string + string list \<Rightarrow> string \<Rightarrow> manager \<Rightarrow> string option" where
  "WouldDropBelowQuorumOnRemove quote voters nodeID m =
     (case mg_raft m of
        None \<Rightarrow> None
      | Some _ \<Rightarrow>
          (case voters of
             Inl err \<Rightarrow> Some (''the Raft configuration could not be read to count the voters: '' @ err)
           | Inr ids \<Rightarrow> if nodeID \<notin> set ids then None else wouldDropBelowQuorumOnRemove quote nodeID (int (length ids))))"

section \<open>What the guards let through\<close>

text \<open>The voters of a cluster, and those of them a majority of which must be up.\<close>

definition voterIDs :: "fsm \<Rightarrow> string set" where
  "voterIDs f = {i. \<exists>n. GetNode f i = Some n \<and> node_role n = RoleVoter}"

lemma votersOf_lookup:
  "fmlookup (votersOf health (GetState f)) i =
     (case GetNode f i of Some n \<Rightarrow> if node_role n = RoleVoter then Some (voterStatus health i n) else None | None \<Rightarrow> None)"
  by (auto simp: votersOf_def GetState_def orEmpty_def GetNode_def lookup_opt_def Let_def fmlookup_dom_iff split: option.splits)

lemma voters_fset: "fset (fmdom (fmdrop self (votersOf health (GetState f)))) = voterIDs f - {self}"
  by (auto simp: voterIDs_def votersOf_lookup fmlookup_dom_iff split: option.splits if_splits)

text \<open>C40: a manager leaves only a cluster that can go on.  Where Raft is attached, the guard lets a node leave just when there is another voter and more than half
  of the others are online, by the leader's own heartbeats or, elsewhere, by the records.\<close>

theorem leave_keeps_quorum:
  assumes "mg_raft m = Some f"
  shows "WouldDropBelowQuorumOnLeave self health m = None \<longleftrightarrow>
    voterIDs f - {self} \<noteq> {} \<and>
    card (voterIDs f - {self}) < 2 * card {i \<in> voterIDs f - {self}. \<exists>n. GetNode f i = Some n \<and> voterStatus (if mg_leader m then Some health else None) i n = StatusOnline}"
proof -
  define h where "h = (if mg_leader m then Some health else None)"
  define others where "others = fmdrop self (votersOf h (GetState f))"
  have d: "fset (fmdom others) = voterIDs f - {self}" unfolding others_def by (rule voters_fset)
  have up: "fset (ffilter (\<lambda>i. fmlookup others i = Some StatusOnline) (fmdom others)) =
      {i \<in> voterIDs f - {self}. \<exists>n. GetNode f i = Some n \<and> voterStatus h i n = StatusOnline}"
    unfolding ffilter.rep_eq d by (auto simp: others_def votersOf_lookup voterIDs_def split: option.splits if_splits)
  have fin: "finite (voterIDs f - {self})" using finite_fset [of "fmdom others"] by (simp add: d)
  have "WouldDropBelowQuorumOnLeave self health m = None \<longleftrightarrow>
      fcard (fmdom others) \<noteq> 0 \<and> fcard (fmdom others) div 2 + 1 \<le> fcard (ffilter (\<lambda>i. fmlookup others i = Some StatusOnline) (fmdom others))"
    using assms by (simp add: WouldDropBelowQuorumOnLeave_def wouldDropBelowQuorumOnLeave_def onLeaveReason_def Let_def h_def others_def not_less)
  also have "\<dots> \<longleftrightarrow> voterIDs f - {self} \<noteq> {} \<and> card (voterIDs f - {self}) div 2 + 1 \<le>
      card {i \<in> voterIDs f - {self}. \<exists>n. GetNode f i = Some n \<and> voterStatus h i n = StatusOnline}"
    unfolding fcard.rep_eq up d using fin by simp
  finally show ?thesis unfolding h_def by auto
qed

text \<open>A voter is removed from a cluster of three or more; one of two, or the last one, is not.\<close>

theorem remove_refused_for_two:
  assumes "mg_raft m \<noteq> None" and "nodeID \<in> set ids"
  shows "WouldDropBelowQuorumOnRemove quote (Inr ids) nodeID m \<noteq> None \<longleftrightarrow> length ids \<le> 2"
  using assms by (cases ids) (auto simp: WouldDropBelowQuorumOnRemove_def wouldDropBelowQuorumOnRemove_def Let_def split: option.splits)

section \<open>A sample cluster\<close>

definition sampleVoter :: "string \<Rightarrow> string \<Rightarrow> node" where
  "sampleVoter i status = \<lparr>node_id = i, node_name = i, node_api_address = [], node_grpc_address = [], node_addresses = None, node_role = RoleVoter, node_kind = [],
     node_status = status, node_labels = None, node_joined_at = 0, node_last_seen = 0\<rparr>"

definition sampleMembers :: fsm where
  "sampleMembers = NewFSM\<lparr>fsm_state := (fsm_state NewFSM)\<lparr>cs_nodes := Some (fmap_of_list [(''a'', sampleVoter ''a'' StatusOnline), (''b'', sampleVoter ''b'' StatusOffline)])\<rparr>\<rparr>"

theorem leave_keeps_quorum_witness:
  "WouldDropBelowQuorumOnLeave ''b'' fmempty \<lparr>mg_raft = Some sampleMembers, mg_leader = False, mg_taskRevWritten = None\<rparr> = None"
proof -
  have v: "voterIDs sampleMembers = {''a'', ''b''}"
    by (auto simp: voterIDs_def GetNode_def lookup_opt_def sampleMembers_def sampleVoter_def fmlookup_of_list split: if_splits)
  have "{i \<in> {''a''}. \<exists>n. GetNode sampleMembers i = Some n \<and> voterStatus None i n = StatusOnline} = {''a''}"
    by (auto simp: GetNode_def lookup_opt_def sampleMembers_def sampleVoter_def fmlookup_of_list voterStatus_def StatusOnline_def)
  moreover have "voterIDs sampleMembers - {''b''} = {''a''}" unfolding v by auto
  ultimately show ?thesis by (subst leave_keeps_quorum [OF manager.select_convs(1)]) simp
qed

end
