(* ===== verification/Spec2Isabelle.thy ===== *)
theory Spec2Isabelle
  imports Task_Format Run_Safety Join_Token Task_Supervise Runner_Safety File_Step_Safety Stack_Safety Session_Safety Refresh_Safety Quorum_Guard
begin

text \<open>
  A verification library for SFPanel, the part of it that runs tasks on the servers of a cluster.

  \<^bold>\<open>The program.\<close> A cluster of panels has managers, which hold the cluster's state in a Raft log, and agents.  An operator writes a
  \<^emph>\<open>task\<close>, a YAML document of inputs, targets and steps (packages, a service, a command, a file, a compose stack, a reboot), and starts a
  \<^emph>\<open>run\<close> of it.  The leader reads the document (\<^verbatim>\<open>src/internal/tasks\<close>), plans which nodes run it in which order, fills the
  inputs in for each node and posts each step to the node as a job; it records what it does in the replicated store, so that another
  manager can take the run over (\<^verbatim>\<open>src/internal/feature/tasks\<close>).  The store keeps tasks, their documents and the runs
  in the config map of the Raft state machine (\<^verbatim>\<open>src/internal/cluster\<close>).  Nodes enter the cluster with a join token.

  \<^bold>\<open>The theories\<close>, in the order they build on each other.  Every definition has the name of the Go function, method or type it models,
  suffixed where HOL has the name already.

  \<^item> \<open>Go_Prelude\<close>, \<open>Go_Bytes\<close>: what the code uses of Go's \<^verbatim>\<open>strings\<close>, \<^verbatim>\<open>sort\<close>, \<^verbatim>\<open>strconv\<close>,
    \<^verbatim>\<open>encoding/hex\<close> and \<^verbatim>\<open>unicode/utf8\<close>.  A Go string is a list of bytes.  A Go map that is updated is a finite map.
  \<^item> \<open>Task_Model\<close>: \<^verbatim>\<open>model.go\<close>, \<^verbatim>\<open>job.go\<close>.  The task, its steps, the job spec sent to a node and the node's view of the job.
  \<^item> \<open>Task_References\<close>, \<open>Shell_Places\<close>: \<^verbatim>\<open>shellpos.go\<close>.  The references \<open>{{ name }}\<close> in a text, and the scan of a
    command that finds for each the place it stands in (plain, quoted, in a substitution, in a here-document).
  \<^item> \<open>Task_Render\<close>: \<^verbatim>\<open>render.go\<close>.  Filling the references in and quoting the values.  \<open>Shell_Safety\<close> defines the words a POSIX shell
    reads and shows that filling in a command that the scan accepts keeps its words.
  \<^item> \<open>Go_Duration\<close>: \<^verbatim>\<open>time.ParseDuration\<close>, \<^verbatim>\<open>Duration.String\<close> and \<^verbatim>\<open>shortDuration\<close>.
  \<^item> \<open>Task_Parse\<close>: \<^verbatim>\<open>parse.go\<close>, the whole parser over a YAML tree.  \<open>Task_Checked\<close> shows what a parsed task is worth (it is well formed, it
    renders, its commands keep their words); \<open>Task_Format\<close> models \<^verbatim>\<open>format.go\<close> and shows the round trip.
  \<^item> \<open>Raft_FSM\<close>: \<^verbatim>\<open>raft_fsm.go\<close> and the types it keeps.  \<open>fsm_reach\<close> are the states a machine can be in.  The locale \<open>config_store\<close>
    states what the stores in the config map rely on, and is interpreted on the machine's operations.
  \<^item> \<open>Join_Token\<close>: \<^verbatim>\<open>token.go\<close>, the token manager with its file; \<open>token_step\<close> is one thing that can happen to it.
  \<^item> \<open>Tasks_Store\<close>: \<^verbatim>\<open>tasks_store.go\<close> with the parts of \<^verbatim>\<open>manager.go\<close> and \<^verbatim>\<open>raft.go\<close> it writes through.  \<open>Store_Safety\<close> holds its
    invariant (\<open>store_ok\<close>, kept by every \<open>store_step\<close>) and its properties.
  \<^item> \<open>Task_Plan\<close>: \<^verbatim>\<open>plan.go\<close>, \<^verbatim>\<open>rerun.go\<close>.  Which nodes a run takes, in which waves, and reruns.
  \<^item> \<open>Task_Run\<close>: \<^verbatim>\<open>run.go\<close>, the engine that runs a task.  \<open>Run_Log\<close> has the invariant of a run, \<open>Run_Safety\<close> its properties.
  \<^item> \<open>Task_Supervise\<close>: \<^verbatim>\<open>supervise.go\<close> and \<^verbatim>\<open>launch\<close> of \<^verbatim>\<open>handler.go\<close>.  The supervisor that takes over the runs of a lost
    leader, stops them when it loses the lead, and closes agent installs that nobody watches.
  \<^item> \<open>Job_Output\<close>, \<open>Job_Node\<close>: \<^verbatim>\<open>src/internal/feature/taskjob\<close>, the node's half of a step.  Reading a job's output in pieces, the table
    of jobs with its file, the five requests, the sweep and recovery after a restart; \<open>node_step\<close> is one thing that can happen to a node.
    \<open>Job_Safety\<close> has the locale \<open>simulation\<close> (the operations of a concrete machine, the events of an abstract one, and which runs of
    events each operation may stand for), interpreted as \<open>slot\<close>: a node implements a slot that holds at most one job.
  \<^item> \<open>Unit_Guard\<close>: \<^verbatim>\<open>common/sysguard\<close> and \<^verbatim>\<open>UnitGuard\<close> of \<^verbatim>\<open>feature/services\<close>, the units a step may not touch.
  \<^item> \<open>Job_Runners\<close>: \<^verbatim>\<open>command.go\<close>, \<^verbatim>\<open>service.go\<close>, \<^verbatim>\<open>reboot.go\<close>, \<^verbatim>\<open>packages.go\<close> of \<^verbatim>\<open>taskjob\<close>.  What starts, watches, resumes and ends a
    step of each kind.  \<open>Runner_Safety\<close> has its properties and ties the ends they report to the ones the table records.
  \<^item> \<open>Go_Path\<close>, \<open>File_Guard\<close>: \<^verbatim>\<open>path/filepath\<close>, and the file manager's guard on writes (\<^verbatim>\<open>feature/files\<close>) over a file system with symbolic links
    (\<open>fsys\<close>) and the kernel's walk of a path in it (\<open>kwalk\<close>).  \<open>File_Safety\<close> shows that the guard looks where the kernel does.
  \<^item> \<open>File_Runner\<close>: \<^verbatim>\<open>file.go\<close> of \<^verbatim>\<open>taskjob\<close>.  Every call of the \<^verbatim>\<open>os\<close> package may fail, and every change of the file system is recorded in order
    (\<open>fr_writes\<close>).  \<open>File_Writes\<close> has what the calls change, \<open>File_Step_Safety\<close> the properties of a file step.
  \<^item> \<open>Compose_Safety\<close>, \<open>Stack_Runner\<close>: \<^verbatim>\<open>composex/safety.go\<close>, the analyser of compose documents, and \<^verbatim>\<open>stack.go\<close> of \<^verbatim>\<open>taskjob\<close>.
    \<open>Stack_Safety\<close> has their properties.
  \<^item> \<open>Event_Runs\<close>: the locale \<open>event_run\<close>, what stays true while events happen, interpreted on nonces, tickets and used codes.
  \<^item> \<open>Session_Auth\<close>: \<^verbatim>\<open>src/internal/auth\<close> and the middleware in front of the API, which decides whether a request is a cluster call.
    \<open>Session_Safety\<close> has their properties and joins them with the node's requests.
  \<^item> \<open>Accounts\<close>, \<open>Account_Handlers\<close>: \<^verbatim>\<open>src/internal/feature/auth\<close>.  The accounts of a panel, in the cluster's state machine or its own table, the limit on
    attempts, the second factors, and the handlers that sign in, exchange refresh tokens and change an account; \<open>auth_env\<close> is what one request meets.
    \<open>Account_Safety\<close> and \<open>Refresh_Safety\<close> have their properties; \<open>auth_step\<close> is one thing that is asked of a panel, and the locale
    \<open>row_property\<close>, interpreted on spent tokens and on the tokens of a session, what stays true of a row of refresh tokens.
  \<^item> \<open>Quorum_Guard\<close>: \<^verbatim>\<open>quorum.go\<close>, the guards on leaving a cluster and on removing a voter.

  \<^bold>\<open>What is outside\<close> is a parameter: an argument, or a field of a record of functions.  The YAML library (\<open>yaml_lib\<close>: decoding to a tree,
  reading scalars; the encoder of \<open>Format\<close>), JSON (\<open>codec\<close>, \<open>wire\<close>, \<open>disk\<close>), the keyed hash and the sum (\<open>mac\<close>, \<open>sha256\<close>), the JWT, TOTP and bcrypt libraries, the compose module (\<open>stack_env\<close>), what making directories leaves behind (\<open>fe_mkdirAll\<close>), Raft's
  answer to a write (\<open>raftReply\<close>), the clock, the nodes' answers, the cluster's health (\<open>plan_env\<close>, \<open>run_env\<close>), addresses
  (\<^verbatim>\<open>net.ParseIP\<close>).  What the code relies on of them stands as named hypotheses (\<open>yreads\<close>, \<open>json_ok\<close>, \<open>settles\<close>,
  \<open>readsTask\<close>), and each theorem that has one has a witness with a concrete library.

  \<^bold>\<open>Errors and loops.\<close> A Go error is \<open>Inl\<close> or \<open>Some\<close>; a panic is a value of its own (\<open>Panic\<close>).  The scan of a command has fuel,
  twice the text's length and more, and \<open>shellPlaces_total\<close> shows that it is enough for every text.  The one loop of the engine without a bound
  of its own, \<open>waitLoop\<close>, is a partial function, and \<open>runTask_returns\<close> says when the engine returns.  Planning, pruning and parsing are
  total functions.  The call number \<open>rs_tick\<close> is the only time that passes in a run: the environment may answer each call differently, which
  also stands for the other nodes of a wave, which the code runs at once and the model in order.

  \<^bold>\<open>What is shown.\<close>
  \<^item> The task language: a parsed task is well formed and renders; the words of its commands are those the author wrote whatever the inputs
    are, for run lines without raw inputs in plain shell (\<open>plainShell\<close>); formatting and parsing are inverse; durations read back.
  \<^item> The state machine: it never panics, replicas agree but for last-seen times, recovery codes are changed by their own entries only, a
    snapshot restores; a replayed disband does nothing.
  \<^item> Join tokens: accepted at most once, only when right, also across restarts.
  \<^item> The store: what is written reads back, task names are unique in every state, pruning keeps the newest and the active runs with all
    they need and drops the rest.
  \<^item> Planning: who takes part, in which order, never a node that another run has.
  \<^item> Running: a job is posted only for a step that the store already has as starting under its ID, with the steps before it ended well; a
    stopping run starts nothing; a manager reboots only while the others keep the quorum; a run returns, and its end leaves no node
    waiting.  The supervisor takes
    over what is left open and nothing else.
  \<^item> The node: every request, sweep and restart moves its jobs only as the slot's contract lets it: one job at a time, each started once
    whatever is sent again, an ended job never running again, a running one never dropped; after a restart whose database calls all work, and with jobs that
    can be resumed or ended, no job is left unwatched; the job the engine sends
    is one the node accepts; all of a finished log is read in a bounded number of pieces (and the one kind of log for which it is not).
  \<^item> The runners: an end is always one the table can record; a service step leaves protected units alone; the wish to reboot is on disk
    before the reboot is asked for; watching a unit returns when the unit is gone; packages run phase after phase, and the marks read back.
  \<^item> Files: the guard's walk is the kernel's; a file step writes to no place on the write guard's list (but for the one way past the guard that
    \<open>link_inside_is_replaced\<close> describes; the list itself leaves out \<^verbatim>\<open>/var/lib/sfpanel/cluster\<close>); a file is replaced at once or not at all; after a step the file is as the step says.
  \<^item> Stacks: the analyser's forbidden tier is exact for the absolute host paths a document spells out, in either form of a volume, as a file of a
    secret or config, or as a device (relative paths and \<^verbatim>\<open>${VAR}\<close> are not judged, as the code says), and a stack step hands over only what the guards let through.
  \<^item> Cluster calls: only a request signed for its own endpoint starts a job, what one panel signs another takes, a header is taken once (and
    when it is not, \<open>held_back_header_is_taken_again\<close>), a ticket opens one stream.
  \<^item> Accounts: signing in takes the password and the second factor, and no TOTP code marked as used in the present half minute; attempts are limited; a code is taken once in its half minute (and
    once more in the next, \<open>code_taken_again_next_period\<close>); a recovery code is spent by its use (unless two read the list at once,
    \<open>recovery_code_taken_twice\<close>); a refresh token is exchanged once, and using it again, however much later, ends its session for good (unless the statement that ends it
    fails, \<open>revoked_session_lives_on\<close>); a new password ends the other sessions; the first account is made once.
  \<^item> Membership: a voter leaves only while more than half of the others are up.

  \<^bold>\<open>Not modelled.\<close> Of these files: logging, wall-clock waiting and call time limits; the wording of most error messages, which is a
  parameter or a constructor; \<^verbatim>\<open>admits\<close> and \<^verbatim>\<open>NewRunID\<close> (randomness, address text); the supervisor's ticker; the sanitizer of
  output, which is the parameter \<open>san\<close>; the copy of a package transaction's log into the job's; what is read from \<^verbatim>\<open>/proc\<close> and from
  systemd, which are answers of the environment.  Of the program: the HTTP handlers of the task pages, agent
  installs over SSH, joining and converting nodes, certificates and key rotation, the proxying between panels, and the features of a single panel
  (containers, the file manager's pages, firewall, disks, packages and others), which are calls to tools of the host.
\<close>

end
